(* ===== verification/P528_Prelude.thy ===== *)
theory P528_Prelude
  imports Main "HOL-Library.Word" "HOL-Library.Multiset" "HOL-Library.Signed_Division"
begin

text \<open>
  Shared vocabulary of the development: how a run of the program fails, the result type every
  fallible operation returns, the fixed-width integer conversions of the C++ code, and the
  generic facts about them that the component theories use.

  The modelled build is the Windows debug build: \<^verbatim>\<open>OS_WIN\<close> is defined, \<^verbatim>\<open>NDEBUG\<close> is
  not, so a \<^verbatim>\<open>DCHECK\<close> and a \<^verbatim>\<open>NOTREACHED\<close> are evaluated and stop the process like a
  \<^verbatim>\<open>CHECK\<close> does. A run of the model that ends in \<open>Inr\<close> passed every assertion, so it is
  also the run of the release build.
\<close>

named_theorems rsimps \<open>simplification of the result type\<close>
named_theorems bounds \<open>ranges of the fixed-width conversions\<close>

subsection \<open>Failures and results\<close>

datatype failure =
    Dcheck string
  | Check string
  | Fatal string
  | Null_deref string

type_synonym 'a result = "failure + 'a"

definition rbind :: "'a result \<Rightarrow> ('a \<Rightarrow> 'b result) \<Rightarrow> 'b result" where
  "rbind m f = (case m of Inl e \<Rightarrow> Inl e | Inr x \<Rightarrow> f x)"

definition require :: "bool \<Rightarrow> failure \<Rightarrow> 'a result \<Rightarrow> 'a result" where
  "require b e k = (if b then k else Inl e)"

fun is_ok :: "'a result \<Rightarrow> bool" where
  "is_ok (Inl _) = False"
| "is_ok (Inr _) = True"

lemma rbind_simps [simp, rsimps]:
  "rbind (Inl e) f = Inl e"
  "rbind (Inr x) f = f x"
  by (simp_all add: rbind_def)

lemma require_simps [simp, rsimps]:
  "require True e k = k"
  "require False e k = Inl e"
  by (simp_all add: require_def)

lemma rbind_eq_Inr [rsimps]: "rbind m f = Inr y \<longleftrightarrow> (\<exists>x. m = Inr x \<and> f x = Inr y)"
  by (cases m) auto

lemma Inr_eq_rbind [rsimps]: "Inr y = rbind m f \<longleftrightarrow> (\<exists>x. m = Inr x \<and> f x = Inr y)"
  by (cases m) auto

lemma require_eq_Inr [rsimps]: "require b e k = Inr y \<longleftrightarrow> b \<and> k = Inr y"
  by (cases b) auto

lemma rbind_assoc: "rbind (rbind m f) g = rbind m (\<lambda>x. rbind (f x) g)"
  by (cases m) auto

lemma is_ok_iff: "is_ok r \<longleftrightarrow> (\<exists>x. r = Inr x)"
  by (cases r) auto

lemma rbind_cong [fundef_cong]:
  "m = m' \<Longrightarrow> (\<And>x. m' = Inr x \<Longrightarrow> f x = g x) \<Longrightarrow> rbind m f = rbind m' g"
  by (cases m') auto

lemma require_cong [fundef_cong]:
  "b = b' \<Longrightarrow> e = e' \<Longrightarrow> (b' \<Longrightarrow> k = k') \<Longrightarrow> require b e k = require b' e' k'"
  by (cases b') auto

subsection \<open>Exit codes of the process\<close>

definition RESULT_CODE_NORMAL_EXIT :: int where "RESULT_CODE_NORMAL_EXIT = 0"
definition RESULT_CODE_MISSING_DATA :: int where "RESULT_CODE_MISSING_DATA = 4"

subsection \<open>Fixed-width integers\<close>

text \<open>
  An \<^verbatim>\<open>int64\<close> or \<^verbatim>\<open>int\<close> of the C++ code is an \<^typ>\<open>int\<close> in the type's range. Where the code
  computes past the range, \<open>wrap64\<close> and \<open>wrap32\<close> are the two's complement values the
  compiler produces; \<open>sdiv\<close> and \<open>smod\<close> of the library are the truncating \<^verbatim>\<open>/\<close> and \<^verbatim>\<open>%\<close>.
\<close>

text \<open>A \<^verbatim>\<open>char\<close> of a narrow string, 0 to 255.\<close>

type_synonym byte = "8 word"

abbreviation int64_max :: int where "int64_max \<equiv> 2 ^ 63 - 1"
abbreviation int64_min :: int where "int64_min \<equiv> - (2 ^ 63)"
abbreviation int32_max :: int where "int32_max \<equiv> 2 ^ 31 - 1"
abbreviation int32_min :: int where "int32_min \<equiv> - (2 ^ 31)"

definition is_int64 :: "int \<Rightarrow> bool" where
  "is_int64 x \<longleftrightarrow> int64_min \<le> x \<and> x \<le> int64_max"

definition is_int32 :: "int \<Rightarrow> bool" where
  "is_int32 x \<longleftrightarrow> int32_min \<le> x \<and> x \<le> int32_max"

definition wrap64 :: "int \<Rightarrow> int" where
  "wrap64 x = (x + 2 ^ 63) mod 2 ^ 64 - 2 ^ 63"

definition wrap32 :: "int \<Rightarrow> int" where
  "wrap32 x = (x + 2 ^ 31) mod 2 ^ 32 - 2 ^ 31"

lemma wrap64_range [bounds]: "is_int64 (wrap64 x)"
proof -
  have "0 \<le> (x + 2 ^ 63) mod 2 ^ 64" "(x + 2 ^ 63) mod 2 ^ 64 < 2 ^ 64" by simp_all
  then show ?thesis by (simp add: is_int64_def wrap64_def)
qed

lemma wrap32_range [bounds]: "is_int32 (wrap32 x)"
proof -
  have "0 \<le> (x + 2 ^ 31) mod 2 ^ 32" "(x + 2 ^ 31) mod 2 ^ 32 < 2 ^ 32" by simp_all
  then show ?thesis by (simp add: is_int32_def wrap32_def)
qed

lemma wrap64_id [simp]: "is_int64 x \<Longrightarrow> wrap64 x = x"
  by (simp add: is_int64_def wrap64_def)

lemma wrap32_id [simp]: "is_int32 x \<Longrightarrow> wrap32 x = x"
  by (simp add: is_int32_def wrap32_def)

lemma wrap32_eq_iff: "wrap32 x = x \<longleftrightarrow> is_int32 x"
  using wrap32_id [of x] wrap32_range [of x] by metis

lemma wrap64_eq_iff: "wrap64 x = x \<longleftrightarrow> is_int64 x"
  using wrap64_id [of x] wrap64_range [of x] by metis

lemma sdiv_nonneg: "0 \<le> x \<Longrightarrow> 0 < (k::int) \<Longrightarrow> x sdiv k = x div k"
  by (simp add: signed_divide_int_def sgn_if)

lemma sdiv_neg: "x < 0 \<Longrightarrow> 0 < (k::int) \<Longrightarrow> x sdiv k = - ((- x) div k)"
  by (simp add: signed_divide_int_def sgn_if)

lemma abs_sdiv: "0 < (k::int) \<Longrightarrow> \<bar>x sdiv k\<bar> = \<bar>x\<bar> div k"
  by (cases "0 \<le> x") (auto simp: sdiv_nonneg sdiv_neg pos_imp_zdiv_nonneg_iff)

subsection \<open>Reachable states and invariants\<close>

text \<open>
  Components whose operations interleave (tasks posted from other threads, callbacks of the
  trading interface, rundown tasks) are step relations; \<open>reach\<close> is the set of states they can
  get into. An inductive invariant of such a system is an instance of the locale.
\<close>

inductive reach :: "('s \<Rightarrow> bool) \<Rightarrow> ('s \<Rightarrow> 's \<Rightarrow> bool) \<Rightarrow> 's \<Rightarrow> bool" for init step where
  reach_init: "init s \<Longrightarrow> reach init step s"
| reach_step: "reach init step s \<Longrightarrow> step s t \<Longrightarrow> reach init step t"

locale inductive_invariant =
  fixes init :: "'s \<Rightarrow> bool"
    and step :: "'s \<Rightarrow> 's \<Rightarrow> bool"
    and inv :: "'s \<Rightarrow> bool"
  assumes inv_init: "init s \<Longrightarrow> inv s"
    and inv_step: "inv s \<Longrightarrow> step s t \<Longrightarrow> inv t"
begin

lemma inv_reach: "reach init step s \<Longrightarrow> inv s"
  by (induction rule: reach.induct) (auto intro: inv_init inv_step)

lemma inv_steps: "step\<^sup>*\<^sup>* s t \<Longrightarrow> inv s \<Longrightarrow> inv t"
  by (induction rule: rtranclp_induct) (auto intro: inv_step)

end

end
