(* ===== verification/Safe_Math.thy ===== *)
theory Safe_Math
  imports P528_Prelude
begin

text \<open>
  \<^verbatim>\<open>base/numerics\<close>: range-checked integer conversions and arithmetic. A C++ integer type is a
  descriptor (its width in bits and whether it is signed) and a value of the type is an
  \<^typ>\<open>int\<close> in the descriptor's range; the templates become functions of the descriptor.
  \<^verbatim>\<open>CheckedAdd\<close> and \<^verbatim>\<open>CheckedSub\<close> work on the bits of the unsigned representation as the
  source does. Floating-point instances are not modelled. A division by zero of the source is
  the trap \<open>Fatal ''division by zero''\<close>.
\<close>

record int_type =
  width :: nat
  is_signed :: bool

definition int32_t :: int_type where "int32_t = \<lparr>width = 32, is_signed = True\<rparr>"
definition int64_t :: int_type where "int64_t = \<lparr>width = 64, is_signed = True\<rparr>"
definition uint32_t :: int_type where "uint32_t = \<lparr>width = 32, is_signed = False\<rparr>"
definition uint64_t :: int_type where "uint64_t = \<lparr>width = 64, is_signed = False\<rparr>"

definition limits_max :: "int_type \<Rightarrow> int" where
  "limits_max T = (if is_signed T then 2 ^ (width T - 1) - 1 else 2 ^ width T - 1)"

definition limits_min :: "int_type \<Rightarrow> int" where
  "limits_min T = (if is_signed T then - (2 ^ (width T - 1)) else 0)"

definition in_type :: "int_type \<Rightarrow> int \<Rightarrow> bool" where
  "in_type T x \<longleftrightarrow> limits_min T \<le> x \<and> x \<le> limits_max T"

definition static_cast :: "int_type \<Rightarrow> int \<Rightarrow> int" where
  "static_cast T x =
     (if is_signed T then (x + 2 ^ (width T - 1)) mod 2 ^ width T - 2 ^ (width T - 1)
      else x mod 2 ^ width T)"

subsection \<open>safe\_conversions\_impl.h\<close>

datatype range_constraint = RANGE_VALID | RANGE_UNDERFLOW | RANGE_OVERFLOW | RANGE_INVALID

text \<open>\<^verbatim>\<open>validity | other\<close>: the enumerators are the bit sets 0, 1, 2 and 3.\<close>

fun rc_bits :: "range_constraint \<Rightarrow> bool \<times> bool" where
  "rc_bits RANGE_VALID = (False, False)"
| "rc_bits RANGE_UNDERFLOW = (True, False)"
| "rc_bits RANGE_OVERFLOW = (False, True)"
| "rc_bits RANGE_INVALID = (True, True)"

fun rc_of_bits :: "bool \<times> bool \<Rightarrow> range_constraint" where
  "rc_of_bits (False, False) = RANGE_VALID"
| "rc_of_bits (True, False) = RANGE_UNDERFLOW"
| "rc_of_bits (False, True) = RANGE_OVERFLOW"
| "rc_of_bits (True, True) = RANGE_INVALID"

definition rc_or :: "range_constraint \<Rightarrow> range_constraint \<Rightarrow> range_constraint" where
  "rc_or a b = rc_of_bits (fst (rc_bits a) \<or> fst (rc_bits b), snd (rc_bits a) \<or> snd (rc_bits b))"

definition GetRangeConstraint :: "bool \<Rightarrow> bool \<Rightarrow> range_constraint" where
  "GetRangeConstraint is_in_upper_bound is_in_lower_bound =
     rc_or (if is_in_upper_bound then RANGE_VALID else RANGE_OVERFLOW)
           (if is_in_lower_bound then RANGE_VALID else RANGE_UNDERFLOW)"

definition MaxExponent :: "int_type \<Rightarrow> nat" where
  "MaxExponent T = width T + 1 - (if is_signed T then 1 else 0)"

definition StaticDstRangeRelationToSrcRange :: "int_type \<Rightarrow> int_type \<Rightarrow> bool" where
  \<comment> \<open>True is \<open>NUMERIC_RANGE_CONTAINED\<close>\<close>
  "StaticDstRangeRelationToSrcRange Dst Src =
     (if is_signed Dst = is_signed Src then MaxExponent Src \<le> MaxExponent Dst
      else if is_signed Dst then MaxExponent Src < MaxExponent Dst
      else False)"

definition DstRangeRelationToSrcRange :: "int_type \<Rightarrow> int_type \<Rightarrow> int \<Rightarrow> range_constraint" where
  "DstRangeRelationToSrcRange Dst Src v =
     (if StaticDstRangeRelationToSrcRange Dst Src then RANGE_VALID
      else if is_signed Dst \<and> is_signed Src
        then GetRangeConstraint (v \<le> limits_max Dst) (limits_min Dst \<le> v)
      else if \<not> is_signed Dst \<and> \<not> is_signed Src
        then GetRangeConstraint (v \<le> limits_max Dst) True
      else if is_signed Dst
        then (if width Dst > width Src then RANGE_VALID
              else GetRangeConstraint (v \<le> static_cast Src (limits_max Dst)) True)
      else (if MaxExponent Src \<le> MaxExponent Dst then GetRangeConstraint True (0 \<le> v)
            else GetRangeConstraint (v \<le> static_cast Src (limits_max Dst)) (0 \<le> v)))"

subsection \<open>safe\_conversions.h\<close>

definition IsValueInRangeForNumericType :: "int_type \<Rightarrow> int_type \<Rightarrow> int \<Rightarrow> bool" where
  "IsValueInRangeForNumericType Dst Src v \<longleftrightarrow> DstRangeRelationToSrcRange Dst Src v = RANGE_VALID"

definition checked_cast :: "int_type \<Rightarrow> int_type \<Rightarrow> int \<Rightarrow> int result" where
  "checked_cast Dst Src v =
     require (IsValueInRangeForNumericType Dst Src v) (Check ''checked_cast'')
       (Inr (static_cast Dst v))"

definition saturated_cast :: "int_type \<Rightarrow> int_type \<Rightarrow> int \<Rightarrow> int result" where
  "saturated_cast Dst Src v =
     (case DstRangeRelationToSrcRange Dst Src v of
        RANGE_VALID \<Rightarrow> Inr (static_cast Dst v)
      | RANGE_UNDERFLOW \<Rightarrow> Inr (limits_min Dst)
      | RANGE_OVERFLOW \<Rightarrow> Inr (limits_max Dst)
      | RANGE_INVALID \<Rightarrow> Inl (Check ''saturated_cast''))"

subsection \<open>safe\_math\_impl.h\<close>

definition to_unsigned :: "int_type \<Rightarrow> int_type" where
  "to_unsigned T = T\<lparr>is_signed := False\<rparr>"

definition HasSignBit :: "int_type \<Rightarrow> int \<Rightarrow> bool" where
  "HasSignBit T x \<longleftrightarrow> drop_bit (width T - 1) (static_cast (to_unsigned T) x) \<noteq> 0"

definition BinaryComplement :: "int_type \<Rightarrow> int \<Rightarrow> int" where
  "BinaryComplement T x = static_cast T (not x)"

text \<open>
  The operators of C++ promote operands narrower than \<^verbatim>\<open>int\<close> to \<^verbatim>\<open>int\<close>, so the argument of \<^verbatim>\<open>BinaryComplement\<close> in the
  sign tests, and with it the type both templates are deduced for, is \<^verbatim>\<open>int\<close> for 8 and 16 bits. The other arguments are
  variables of their type.
\<close>

definition promoted :: "int_type \<Rightarrow> int_type" where
  "promoted T = (if width T < width int32_t then int32_t else T)"

definition CheckedAdd :: "int_type \<Rightarrow> int \<Rightarrow> int \<Rightarrow> int \<times> range_constraint" where
  "CheckedAdd T x y =
     (let U = to_unsigned T; ux = static_cast U x; uy = static_cast U y;
          uresult = static_cast U (ux + uy);
          validity =
            (if is_signed T then
               (if HasSignBit (promoted U) (BinaryComplement (promoted U) (and (xor uresult ux) (xor uresult uy)))
                then RANGE_VALID
                else if HasSignBit U uresult then RANGE_OVERFLOW else RANGE_UNDERFLOW)
             else (if BinaryComplement T x \<ge> y then RANGE_VALID else RANGE_OVERFLOW))
      in (static_cast T uresult, validity))"

definition CheckedSub :: "int_type \<Rightarrow> int \<Rightarrow> int \<Rightarrow> int \<times> range_constraint" where
  "CheckedSub T x y =
     (let U = to_unsigned T; ux = static_cast U x; uy = static_cast U y;
          uresult = static_cast U (ux - uy);
          validity =
            (if is_signed T then
               (if HasSignBit (promoted U) (BinaryComplement (promoted U) (and (xor uresult ux) (xor ux uy)))
                then RANGE_VALID
                else if HasSignBit U uresult then RANGE_OVERFLOW else RANGE_UNDERFLOW)
             else (if x \<ge> y then RANGE_VALID else RANGE_UNDERFLOW))
      in (static_cast T uresult, validity))"

text \<open>The C++ \<^verbatim>\<open>/\<close>: truncating, and a trap on a zero divisor.\<close>

definition cpp_div :: "int \<Rightarrow> int \<Rightarrow> int result" where
  "cpp_div x y = require (y \<noteq> 0) (Fatal ''division by zero'') (Inr (x sdiv y))"

definition cpp_mod :: "int \<Rightarrow> int \<Rightarrow> int result" where
  "cpp_mod x y = require (y \<noteq> 0) (Fatal ''division by zero'') (Inr (x smod y))"

text \<open>
  The first argument \<open>v\<close> is what the caller stored in \<^verbatim>\<open>*validity\<close> before the call: the
  branch for two zero operands leaves it alone. The value it returns there is the enumerator
  \<^verbatim>\<open>RANGE_VALID\<close>, that is 0.
\<close>

definition CheckedMul :: "range_constraint \<Rightarrow> int_type \<Rightarrow> int \<Rightarrow> int \<Rightarrow> (int \<times> range_constraint) result" where
  "CheckedMul v T x y =
     (if 2 * width T \<le> 64 then
        Inr (static_cast T (x * y), DstRangeRelationToSrcRange T \<lparr>width = 2 * width T, is_signed = is_signed T\<rparr> (x * y))
      else if is_signed T then
        (if x = 0 \<and> y = 0 then Inr (0, v)
         else if x > 0 then
           (if y > 0 then
              rbind (cpp_div (limits_max T) y)
                (\<lambda>q. Inr (static_cast T (x * y), if x \<le> q then RANGE_VALID else RANGE_OVERFLOW))
            else
              rbind (cpp_div (limits_min T) x)
                (\<lambda>q. Inr (static_cast T (x * y), if y \<ge> q then RANGE_VALID else RANGE_UNDERFLOW)))
         else
           (if y > 0 then
              rbind (cpp_div (limits_min T) y)
                (\<lambda>q. Inr (static_cast T (x * y), if x \<ge> q then RANGE_VALID else RANGE_UNDERFLOW))
            else
              rbind (cpp_div (limits_max T) x)
                (\<lambda>q. Inr (static_cast T (x * y), if y \<ge> q then RANGE_VALID else RANGE_OVERFLOW))))
      else
        (if y = 0 then Inr (static_cast T (x * y), RANGE_VALID)
         else rbind (cpp_div (limits_max T) y)
                (\<lambda>q. Inr (static_cast T (x * y), if x \<le> q then RANGE_VALID else RANGE_OVERFLOW))))"

definition CheckedDiv :: "int_type \<Rightarrow> int \<Rightarrow> int \<Rightarrow> (int \<times> range_constraint) result" where
  "CheckedDiv T x y =
     (if is_signed T \<and> x = limits_min T \<and> y = static_cast T (-1) then Inr (limits_min T, RANGE_OVERFLOW)
      else rbind (cpp_div x y) (\<lambda>q. Inr (q, RANGE_VALID)))"

definition CheckedMod :: "int_type \<Rightarrow> int \<Rightarrow> int \<Rightarrow> (int \<times> range_constraint) result" where
  "CheckedMod T x y =
     rbind (cpp_mod x y)
       (\<lambda>r. Inr (r, if is_signed T then (if y > 0 then RANGE_VALID else RANGE_INVALID) else RANGE_VALID))"

definition CheckedNeg :: "int_type \<Rightarrow> int \<Rightarrow> int \<times> range_constraint" where
  "CheckedNeg T v =
     (if is_signed T
      then (static_cast T (- v), if v \<noteq> limits_min T then RANGE_VALID else RANGE_OVERFLOW)
      else (static_cast T (- static_cast (T\<lparr>is_signed := True\<rparr>) v),
            if v \<noteq> 0 then RANGE_UNDERFLOW else RANGE_VALID))"

definition CheckedAbs :: "int_type \<Rightarrow> int \<Rightarrow> int \<times> range_constraint" where
  "CheckedAbs T v =
     (if is_signed T
      then (static_cast T \<bar>v\<bar>, if v \<noteq> limits_min T then RANGE_VALID else RANGE_OVERFLOW)
      else (v, RANGE_VALID))"

definition IsIntegerArithmeticSafe :: "int_type \<Rightarrow> int_type \<Rightarrow> int_type \<Rightarrow> bool" where
  "IsIntegerArithmeticSafe T Lhs Rhs \<longleftrightarrow>
     StaticDstRangeRelationToSrcRange T Lhs \<and> width T \<ge> 2 * width Lhs \<and>
     \<not> StaticDstRangeRelationToSrcRange T Rhs \<and> width T \<ge> 2 * width Rhs"

subsection \<open>CheckedNumeric of a 64-bit integer (safe\_math.h)\<close>

record checked_numeric =
  state_value :: int
  state_validity :: range_constraint

definition CheckedNumericOf :: "int \<Rightarrow> checked_numeric" where
  "CheckedNumericOf v =
     \<lparr>state_value = static_cast int64_t v,
      state_validity = DstRangeRelationToSrcRange int64_t int64_t v\<rparr>"

definition IsValid :: "checked_numeric \<Rightarrow> bool" where
  "IsValid c \<longleftrightarrow> state_validity c = RANGE_VALID"

definition ValueOrDie :: "checked_numeric \<Rightarrow> int result" where
  "ValueOrDie c = require (IsValid c) (Check ''IsValid()'') (Inr (state_value c))"

definition ValueOrDefault :: "checked_numeric \<Rightarrow> int \<Rightarrow> int" where
  "ValueOrDefault c d = (if IsValid c then state_value c else d)"

text \<open>
  The arithmetic operators on two \<^verbatim>\<open>CheckedNumeric<int64>\<close>: the promotion of the type is the
  type itself, the fast path for destinations with sufficient range is never taken
  (\<open>IsIntegerArithmeticSafe\<close> is false there), and the validities are joined.
\<close>

definition op_plus :: "checked_numeric \<Rightarrow> checked_numeric \<Rightarrow> checked_numeric" where
  "op_plus l r =
     (let (res, v) = CheckedAdd int64_t (state_value l) (state_value r)
      in \<lparr>state_value = res,
          state_validity = rc_or (rc_or (rc_or v (state_validity l)) (state_validity r))
            (DstRangeRelationToSrcRange int64_t int64_t res)\<rparr>)"

definition op_minus :: "checked_numeric \<Rightarrow> checked_numeric \<Rightarrow> checked_numeric" where
  "op_minus l r =
     (let (res, v) = CheckedSub int64_t (state_value l) (state_value r)
      in \<lparr>state_value = res,
          state_validity = rc_or (rc_or (rc_or v (state_validity l)) (state_validity r))
            (DstRangeRelationToSrcRange int64_t int64_t res)\<rparr>)"

definition op_times :: "checked_numeric \<Rightarrow> checked_numeric \<Rightarrow> checked_numeric result" where
  "op_times l r =
     rbind (CheckedMul RANGE_VALID int64_t (state_value l) (state_value r)) (\<lambda>(res, v).
       Inr \<lparr>state_value = res,
            state_validity = rc_or (rc_or (rc_or v (state_validity l)) (state_validity r))
              (DstRangeRelationToSrcRange int64_t int64_t res)\<rparr>)"

definition op_divide :: "checked_numeric \<Rightarrow> checked_numeric \<Rightarrow> checked_numeric result" where
  "op_divide l r =
     rbind (CheckedDiv int64_t (state_value l) (state_value r)) (\<lambda>(res, v).
       Inr \<lparr>state_value = res,
            state_validity = rc_or (rc_or (rc_or v (state_validity l)) (state_validity r))
              (DstRangeRelationToSrcRange int64_t int64_t res)\<rparr>)"

subsection \<open>The reference: classification of the exact result\<close>

definition classify :: "int_type \<Rightarrow> int \<Rightarrow> range_constraint" where
  "classify T z =
     (if z > limits_max T then RANGE_OVERFLOW else if z < limits_min T then RANGE_UNDERFLOW
      else RANGE_VALID)"

lemma classify_valid: "classify T z = RANGE_VALID \<longleftrightarrow> in_type T z"
  by (simp add: classify_def in_type_def)

lemma pow_split: "0 < n \<Longrightarrow> (2::int) ^ n = 2 * 2 ^ (n - 1)"
  by (cases n) simp_all

lemma rc_or_simps [simp]:
  "rc_or RANGE_VALID a = a" "rc_or a RANGE_VALID = a"
  by (cases a; simp add: rc_or_def)+

lemma GetRangeConstraint_simps [simp]:
  "GetRangeConstraint True True = RANGE_VALID"
  "GetRangeConstraint False True = RANGE_OVERFLOW"
  "GetRangeConstraint True False = RANGE_UNDERFLOW"
  by (simp_all add: GetRangeConstraint_def rc_or_def)

lemma static_cast_id [simp]: "0 < width T \<Longrightarrow> in_type T x \<Longrightarrow> static_cast T x = x"
  by (simp add: static_cast_def in_type_def limits_max_def limits_min_def pow_split split: if_splits)

lemma static_cast_range: "0 < width T \<Longrightarrow> in_type T (static_cast T x)"
proof -
  assume w: "0 < width T"
  have "0 \<le> (x + 2 ^ (width T - 1)) mod 2 ^ width T"
    "(x + 2 ^ (width T - 1)) mod 2 ^ width T < 2 ^ width T"
    "0 \<le> x mod 2 ^ width T" "x mod 2 ^ width T < 2 ^ width T"
    by simp_all
  then show ?thesis
    using pow_split [OF w]
    by (auto simp: static_cast_def in_type_def limits_max_def limits_min_def)
qed

lemma static_cast_unsigned: "\<not> is_signed T \<Longrightarrow> static_cast T x = take_bit (width T) x"
  by (simp add: static_cast_def take_bit_eq_mod)

lemma static_cast_to_unsigned: "static_cast (to_unsigned T) x = take_bit (width T) x"
  by (simp add: static_cast_unsigned to_unsigned_def)

lemma static_cast_mod: "static_cast T (x mod 2 ^ width T) = static_cast T x"
  by (simp add: static_cast_def mod_add_left_eq)

lemma width_to_unsigned [simp]: "width (to_unsigned T) = width T"
  by (simp add: to_unsigned_def)

lemma to_unsigned_idem [simp]: "to_unsigned (to_unsigned T) = to_unsigned T"
  by (simp add: to_unsigned_def)

lemma is_signed_to_unsigned [simp]: "\<not> is_signed (to_unsigned T)"
  by (simp add: to_unsigned_def)

lemma HasSignBit_iff_bit: "0 < width T \<Longrightarrow> HasSignBit T x \<longleftrightarrow> bit x (width T - 1)"
proof -
  assume w: "0 < width T"
  have "drop_bit (width T - 1) (take_bit (width T) x) = take_bit 1 (drop_bit (width T - 1) x)"
    using w by (simp add: drop_bit_take_bit)
  then show ?thesis
    by (simp add: HasSignBit_def static_cast_to_unsigned bit_iff_odd_drop_bit take_bit_eq_mod odd_iff_mod_2_eq_one)
qed

lemma bit_top_iff: "0 < n \<Longrightarrow> 0 \<le> x \<Longrightarrow> x < 2 ^ n \<Longrightarrow> bit x (n - 1) \<longleftrightarrow> 2 ^ (n - 1) \<le> (x::int)"
proof -
  assume n: "0 < n" and x: "0 \<le> x" "x < 2 ^ n"
  have b: "x < 2 * 2 ^ (n - 1)" using x n by (simp add: pow_split)
  show ?thesis
  proof (cases "2 ^ (n - 1) \<le> x")
    case True
    then have "x div 2 ^ (n - 1) = 1"
      using b by (intro int_div_pos_eq [of _ _ _ "x - 2 ^ (n - 1)"]) auto
    with True show ?thesis by (simp add: bit_iff_odd)
  next
    case False
    then have "x div 2 ^ (n - 1) = 0" using x by (simp add: div_pos_pos_trivial)
    with False show ?thesis by (simp add: bit_iff_odd)
  qed
qed

lemma HasSignBit_complement:
  "0 < width T \<Longrightarrow> HasSignBit (to_unsigned T) (BinaryComplement (to_unsigned T) z) \<longleftrightarrow> \<not> bit z (width T - 1)"
  by (simp add: HasSignBit_iff_bit BinaryComplement_def static_cast_unsigned bit_take_bit_iff bit_not_iff)

text \<open>After a promotion the complement is negative, whatever the bits are.\<close>

lemma promoted_wide: "32 \<le> width T \<Longrightarrow> promoted T = T"
  by (simp add: promoted_def int32_t_def)

lemma promoted_narrow:
  assumes "width T < 32" "0 \<le> z" "z < 2 ^ 31"
  shows "HasSignBit (promoted T) (BinaryComplement (promoted T) z)"
proof -
  have p: "promoted T = int32_t" using assms(1) by (simp add: promoted_def int32_t_def)
  have "in_type int32_t (not z)"
    using assms(2,3) by (simp add: in_type_def limits_max_def limits_min_def int32_t_def not_int_def)
  then have "BinaryComplement int32_t z = not z" by (simp add: BinaryComplement_def int32_t_def)
  moreover have "\<not> bit z 31" using assms(2,3) bit_take_bit_iff [of 31 z 31] by (simp add: take_bit_int_eq_self)
  ultimately show ?thesis unfolding p by (simp add: HasSignBit_iff_bit int32_t_def bit_not_iff)
qed

lemma and_xor_bound:
  assumes "n \<le> m" "0 \<le> a" "a < 2 ^ n" "0 \<le> b" "b < 2 ^ n" "0 \<le> c" "0 \<le> d"
  shows "0 \<le> and (xor a b) (xor c d) \<and> and (xor a b) (xor c d) < (2::int) ^ m"
proof -
  have pos: "0 \<le> xor a b" "0 \<le> xor c d" using assms by simp_all
  have "and (xor a b) (xor c d) \<le> xor a b" using pos(1) by (rule AND_upper1)
  also have "\<dots> < 2 ^ n" using assms by (intro XOR_upper)
  also have "\<dots> \<le> 2 ^ m" using assms(1) by simp
  finally show ?thesis using pos by simp
qed

lemma mod_add_cases:
  fixes a m :: int
  assumes "- m \<le> a" "a < 2 * m"
  shows "a mod m = (if a < 0 then a + m else if a < m then a else a - m)"
proof -
  consider "a < 0" | "0 \<le> a" "a < m" | "m \<le> a" by linarith
  then show ?thesis
  proof cases
    case 1
    then have "(a + m) mod m = a + m" using assms by (intro mod_pos_pos_trivial) auto
    with 1 show ?thesis by simp
  next
    case 3
    then have "(a - m) mod m = a - m" using assms by (intro mod_pos_pos_trivial) auto
    moreover have "(a - m) mod m = a mod m" by simp
    ultimately show ?thesis using 3 assms by auto
  qed (use assms in auto)
qed

lemma take_bit_signed:
  assumes "0 < width T" "is_signed T" "in_type T x"
  shows "take_bit (width T) x = (if x < 0 then x + 2 * 2 ^ (width T - 1) else x)"
  using assms mod_add_cases [of "2 ^ width T" x]
  by (auto simp: take_bit_eq_mod in_type_def limits_max_def limits_min_def pow_split)

lemma bit_take_bit_top:
  assumes "0 < n"
  shows "bit (take_bit n (x::int)) (n - 1) \<longleftrightarrow> 2 ^ (n - 1) \<le> take_bit n x"
  using assms bit_top_iff [of n "take_bit n x"] by (simp add: take_bit_int_less_exp)

lemma static_cast_take_bit: "static_cast T (take_bit (width T) x) = static_cast T x"
  by (simp add: take_bit_eq_mod static_cast_mod)

text \<open>
  The sign test of the source on the three unsigned values is the comparison of the exact sum
  or difference with the limits of the type.
\<close>

lemma CheckedAdd_signed:
  assumes n32: "32 \<le> width T" and s: "is_signed T" and x: "in_type T x" and y: "in_type T y"
  shows "CheckedAdd T x y = (static_cast T (x + y), classify T (x + y))"
proof -
  have w: "0 < width T" using n32 by simp
  have pr: "promoted (to_unsigned T) = to_unsigned T" using n32 by (simp add: promoted_wide)
  let ?n = "width T" and ?P = "(2::int) ^ (width T - 1)"
  let ?ux = "take_bit ?n x" and ?uy = "take_bit ?n y" and ?ur = "take_bit ?n (x + y)"
  have ur: "take_bit ?n (?ux + ?uy) = ?ur" by (simp add: take_bit_add)
  have xr: "- ?P \<le> x" "x < ?P" and yr: "- ?P \<le> y" "y < ?P"
    using x y s by (auto simp: in_type_def limits_max_def limits_min_def)
  have M: "(2::int) ^ ?n = 2 * ?P" using w by (rule pow_split)
  have r: "?ur = (if x + y < 0 then x + y + 2 * ?P else x + y)"
    using mod_add_cases [of "2 ^ ?n" "x + y"] xr yr M by (simp add: take_bit_eq_mod)
  have bx: "bit ?ux (?n - 1) \<longleftrightarrow> x < 0"
    using bit_take_bit_top [OF w, of x] take_bit_signed [OF w s x] xr by auto
  have by': "bit ?uy (?n - 1) \<longleftrightarrow> y < 0"
    using bit_take_bit_top [OF w, of y] take_bit_signed [OF w s y] yr by auto
  have br: "bit ?ur (?n - 1) \<longleftrightarrow> ?P \<le> ?ur" by (rule bit_take_bit_top [OF w])
  have sgn: "HasSignBit (to_unsigned T) ?ur \<longleftrightarrow> ?P \<le> ?ur"
    using w br by (simp add: HasSignBit_iff_bit)
  have v: "bit (and (xor ?ur ?ux) (xor ?ur ?uy)) (?n - 1)
      \<longleftrightarrow> ((?P \<le> ?ur) \<noteq> (x < 0)) \<and> ((?P \<le> ?ur) \<noteq> (y < 0))"
    unfolding bit_and_iff bit_xor_iff bx by' br by blast
  have c: "(if \<not> (((?P \<le> ?ur) \<noteq> (x < 0)) \<and> ((?P \<le> ?ur) \<noteq> (y < 0))) then RANGE_VALID
      else if ?P \<le> ?ur then RANGE_OVERFLOW else RANGE_UNDERFLOW) = classify T (x + y)"
    unfolding r using s xr yr
    by (auto simp: classify_def limits_max_def limits_min_def)
  show ?thesis
    unfolding CheckedAdd_def Let_def pr static_cast_to_unsigned ur static_cast_take_bit
      HasSignBit_complement [OF w] v sgn c
    using s by simp
qed

lemma CheckedSub_signed:
  assumes n32: "32 \<le> width T" and s: "is_signed T" and x: "in_type T x" and y: "in_type T y"
  shows "CheckedSub T x y = (static_cast T (x - y), classify T (x - y))"
proof -
  have w: "0 < width T" using n32 by simp
  have pr: "promoted (to_unsigned T) = to_unsigned T" using n32 by (simp add: promoted_wide)
  let ?n = "width T" and ?P = "(2::int) ^ (width T - 1)"
  let ?ux = "take_bit ?n x" and ?uy = "take_bit ?n y" and ?ur = "take_bit ?n (x - y)"
  have ur: "take_bit ?n (?ux - ?uy) = ?ur" by (simp add: take_bit_diff)
  have xr: "- ?P \<le> x" "x < ?P" and yr: "- ?P \<le> y" "y < ?P"
    using x y s by (auto simp: in_type_def limits_max_def limits_min_def)
  have M: "(2::int) ^ ?n = 2 * ?P" using w by (rule pow_split)
  have r: "?ur = (if x - y < 0 then x - y + 2 * ?P else x - y)"
    using mod_add_cases [of "2 ^ ?n" "x - y"] xr yr M by (simp add: take_bit_eq_mod)
  have bx: "bit ?ux (?n - 1) \<longleftrightarrow> x < 0"
    using bit_take_bit_top [OF w, of x] take_bit_signed [OF w s x] xr by auto
  have by': "bit ?uy (?n - 1) \<longleftrightarrow> y < 0"
    using bit_take_bit_top [OF w, of y] take_bit_signed [OF w s y] yr by auto
  have br: "bit ?ur (?n - 1) \<longleftrightarrow> ?P \<le> ?ur" by (rule bit_take_bit_top [OF w])
  have sgn: "HasSignBit (to_unsigned T) ?ur \<longleftrightarrow> ?P \<le> ?ur"
    using w br by (simp add: HasSignBit_iff_bit)
  have v: "bit (and (xor ?ur ?ux) (xor ?ux ?uy)) (?n - 1)
      \<longleftrightarrow> ((?P \<le> ?ur) \<noteq> (x < 0)) \<and> ((x < 0) \<noteq> (y < 0))"
    unfolding bit_and_iff bit_xor_iff bx by' br by blast
  have c: "(if \<not> (((?P \<le> ?ur) \<noteq> (x < 0)) \<and> ((x < 0) \<noteq> (y < 0))) then RANGE_VALID
      else if ?P \<le> ?ur then RANGE_OVERFLOW else RANGE_UNDERFLOW) = classify T (x - y)"
    unfolding r using s xr yr
    by (auto simp: classify_def limits_max_def limits_min_def)
  show ?thesis
    unfolding CheckedSub_def Let_def pr static_cast_to_unsigned ur static_cast_take_bit
      HasSignBit_complement [OF w] v sgn c
    using s by simp
qed

lemma BinaryComplement_unsigned:
  "\<not> is_signed T \<Longrightarrow> in_type T x \<Longrightarrow> BinaryComplement T x = limits_max T - x"
  by (simp add: BinaryComplement_def static_cast_unsigned take_bit_not_eq_mask_diff
      in_type_def limits_max_def limits_min_def take_bit_int_eq_self mask_eq_exp_minus_1)

lemma CheckedAdd_unsigned:
  assumes "\<not> is_signed T" "in_type T x" "in_type T y"
  shows "CheckedAdd T x y = (static_cast T (x + y), classify T (x + y))"
  using assms
  by (simp add: CheckedAdd_def Let_def static_cast_to_unsigned static_cast_take_bit
      BinaryComplement_unsigned take_bit_add)
    (auto simp: classify_def in_type_def limits_min_def)

lemma CheckedSub_unsigned:
  assumes "\<not> is_signed T" "in_type T x" "in_type T y"
  shows "CheckedSub T x y = (static_cast T (x - y), classify T (x - y))"
  using assms
  by (simp add: CheckedSub_def Let_def static_cast_to_unsigned static_cast_take_bit take_bit_diff)
    (auto simp: classify_def in_type_def limits_min_def)

lemma Checked_narrow:
  assumes "width T < 32" "is_signed T"
  shows "CheckedAdd T x y = (static_cast T (x + y), RANGE_VALID)" "CheckedSub T x y = (static_cast T (x - y), RANGE_VALID)"
proof -
  have t: "0 \<le> take_bit (width T) z" "take_bit (width T) z < 2 ^ width T" for z :: int
    by (simp_all add: take_bit_int_less_exp)
  have h: "HasSignBit (promoted (to_unsigned T)) (BinaryComplement (promoted (to_unsigned T))
      (and (xor (take_bit (width T) a) (take_bit (width T) b)) (xor (take_bit (width T) c) (take_bit (width T) d))))" for a b c d :: int
    using assms(1) and_xor_bound [of "width T" 31, OF _ t t t(1) t(1)] by (intro promoted_narrow) auto
  show "CheckedAdd T x y = (static_cast T (x + y), RANGE_VALID)"
    using assms h by (simp add: CheckedAdd_def Let_def static_cast_to_unsigned static_cast_take_bit take_bit_add)
  show "CheckedSub T x y = (static_cast T (x - y), RANGE_VALID)"
    using assms h by (simp add: CheckedSub_def Let_def static_cast_to_unsigned static_cast_take_bit take_bit_diff)
qed

text \<open>
  C28: \<^verbatim>\<open>CheckedAdd\<close> and \<^verbatim>\<open>CheckedSub\<close>, for every integer type and all operands of the type, return
  the sum or difference reduced to the type. For unsigned types and for signed types of 32 bits and more the range
  constraint says exactly whether the mathematical result fits, and on which side it leaves the range: the sign-bit tests on
  the unsigned representation are equivalent to the comparison of the exact result. For signed types narrower than
  \<^verbatim>\<open>int\<close> no overflow is ever noticed: the promotion to \<^verbatim>\<open>int\<close> makes the test true.
\<close>

theorem CheckedAdd_CheckedSub_characterised:
  assumes "0 < width T" "in_type T x" "in_type T y"
  shows "CheckedAdd T x y = (static_cast T (x + y), if is_signed T \<and> width T < 32 then RANGE_VALID else classify T (x + y)) \<and>
    CheckedSub T x y = (static_cast T (x - y), if is_signed T \<and> width T < 32 then RANGE_VALID else classify T (x - y))"
  using assms CheckedAdd_signed [of T x y] CheckedSub_signed [of T x y] CheckedAdd_unsigned CheckedSub_unsigned
    Checked_narrow [of T x y]
  by (cases "is_signed T"; cases "width T < 32") simp_all

theorem CheckedAdd_CheckedSub_characterised_witness:
  "CheckedAdd int32_t 2147483647 1 = (-2147483648, RANGE_OVERFLOW) \<and>
   CheckedSub int32_t 2147483647 1 = (2147483646, RANGE_VALID) \<and>
   CheckedAdd \<lparr>width = 8, is_signed = True\<rparr> 127 1 = (-128, RANGE_VALID)"
  using CheckedAdd_CheckedSub_characterised [of int32_t 2147483647 1]
    CheckedAdd_CheckedSub_characterised [of "\<lparr>width = 8, is_signed = True\<rparr>" 127 1]
  by (simp add: int32_t_def in_type_def limits_max_def limits_min_def static_cast_def classify_def)

text \<open>Comparisons with the limits of the destination type.\<close>

lemma limits_order: "0 < width T \<Longrightarrow> limits_min T \<le> 0 \<and> 0 \<le> limits_max T"
  by (simp add: limits_min_def limits_max_def)

lemma GetRangeConstraint_classify:
  "0 < width T \<Longrightarrow> GetRangeConstraint (v \<le> limits_max T) (limits_min T \<le> v) = classify T v"
  using limits_order [of T]
  by (cases "v \<le> limits_max T"; cases "limits_min T \<le> v") (auto simp: classify_def)

lemma pow_mono: "m \<le> n \<Longrightarrow> (2::int) ^ m \<le> 2 ^ n"
  by (rule power_increasing) simp_all

lemma pow_mono1: "m \<le> n \<Longrightarrow> (2::int) ^ m - 1 < 2 ^ n"
  using pow_mono [of m n] by linarith

lemma Static_contained:
  assumes "StaticDstRangeRelationToSrcRange Dst Src"
  shows "limits_min Dst \<le> limits_min Src" "limits_max Src \<le> limits_max Dst"
  using assms
  by (auto simp: StaticDstRangeRelationToSrcRange_def MaxExponent_def limits_min_def limits_max_def
      pow_mono1 split: if_splits)

lemma wider_signed:
  "is_signed Dst \<Longrightarrow> \<not> is_signed Src \<Longrightarrow> width Src < width Dst \<Longrightarrow> limits_max Src \<le> limits_max Dst"
  by (simp add: limits_max_def pow_mono1)

lemma narrower_signed:
  "is_signed Dst \<Longrightarrow> \<not> is_signed Src \<Longrightarrow> \<not> width Src < width Dst \<Longrightarrow> 0 < width Dst \<Longrightarrow>
   in_type Src (limits_max Dst)"
  by (simp add: in_type_def limits_min_def limits_max_def pow_mono1)

lemma unsigned_of_signed:
  assumes "\<not> is_signed Dst" "is_signed Src" "0 < width Src"
  shows "MaxExponent Src \<le> MaxExponent Dst \<Longrightarrow> limits_max Src \<le> limits_max Dst"
    and "\<not> MaxExponent Src \<le> MaxExponent Dst \<Longrightarrow> in_type Src (limits_max Dst)"
proof -
  show "MaxExponent Src \<le> MaxExponent Dst \<Longrightarrow> limits_max Src \<le> limits_max Dst"
    using assms by (simp add: MaxExponent_def limits_max_def pow_mono1)
  have "- (2 ^ (width Src - Suc 0)) < (2::int) ^ width Dst"
    by (rule less_trans [of _ 0]) simp_all
  then show "\<not> MaxExponent Src \<le> MaxExponent Dst \<Longrightarrow> in_type Src (limits_max Dst)"
    using assms by (simp add: MaxExponent_def in_type_def limits_min_def limits_max_def pow_mono1)
qed

lemma classify_simps:
  "v \<le> limits_max T \<Longrightarrow> limits_min T \<le> v \<Longrightarrow> classify T v = RANGE_VALID"
  by (simp add: classify_valid in_type_def)

lemma DstRangeRelationToSrcRange_classify:
  assumes w: "0 < width Dst" "0 < width Src" and v: "in_type Src v"
  shows "DstRangeRelationToSrcRange Dst Src v = classify Dst v"
proof (cases "StaticDstRangeRelationToSrcRange Dst Src")
  case True
  then have "classify Dst v = RANGE_VALID"
    using Static_contained [OF True] v by (intro classify_simps) (auto simp: in_type_def)
  with True show ?thesis by (simp add: DstRangeRelationToSrcRange_def)
next
  case ns: False
  note grc = GetRangeConstraint_classify [OF w(1), of v]
  consider "is_signed Dst" "is_signed Src" | "\<not> is_signed Dst" "\<not> is_signed Src"
    | "is_signed Dst" "\<not> is_signed Src" | "\<not> is_signed Dst" "is_signed Src" by blast
  then show ?thesis
  proof cases
    case 1
    with ns grc show ?thesis by (simp add: DstRangeRelationToSrcRange_def)
  next
    case 2
    with v have "limits_min Dst \<le> v" by (simp add: in_type_def limits_min_def)
    with 2 ns grc show ?thesis by (simp add: DstRangeRelationToSrcRange_def)
  next
    case 3
    then have lo: "limits_min Dst \<le> v"
      using limits_order [OF w(1)] v by (auto simp: in_type_def limits_min_def [of Src])
    show ?thesis
      using 3 ns grc lo v w wider_signed [of Dst Src] narrower_signed [of Dst Src]
      by (auto simp: DstRangeRelationToSrcRange_def in_type_def)
  next
    case 4
    then have "limits_min Dst = 0" by (simp add: limits_min_def)
    then show ?thesis
      using 4 ns grc v w unsigned_of_signed [of Dst Src]
      by (auto simp: DstRangeRelationToSrcRange_def in_type_def)
  qed
qed

text \<open>
  \<^verbatim>\<open>saturated_cast\<close> between integer types never fails and clamps the value to the range of the
  destination; \<^verbatim>\<open>checked_cast\<close> stops the process exactly when the value does not fit and
  otherwise returns it unchanged.
\<close>

theorem integer_casts:
  assumes "0 < width Dst" "0 < width Src" "in_type Src v"
  shows "saturated_cast Dst Src v = Inr (max (limits_min Dst) (min (limits_max Dst) v)) \<and>
    checked_cast Dst Src v = (if in_type Dst v then Inr v else Inl (Check ''checked_cast''))"
proof -
  note c = DstRangeRelationToSrcRange_classify [OF assms]
  have "limits_min Dst \<le> limits_max Dst" using limits_order [OF assms(1)] by linarith
  then show ?thesis
    using assms(1)
    by (auto simp: saturated_cast_def checked_cast_def IsValueInRangeForNumericType_def c classify_def
        in_type_def max_def min_def)
qed

theorem integer_casts_witness:
  "saturated_cast int32_t int64_t (2 ^ 40) = Inr 2147483647 \<and>
   checked_cast int32_t int64_t (2 ^ 40) = Inl (Check ''checked_cast'')"
  using integer_casts [of int32_t int64_t "2 ^ 40"]
  by (simp add: int32_t_def int64_t_def in_type_def limits_max_def limits_min_def)

subsection \<open>Multiplication\<close>

lemma le_div_iff_int: "0 < q \<Longrightarrow> m \<le> n div q \<longleftrightarrow> m * q \<le> (n::int)"
proof
  assume q: "0 < q" and "m \<le> n div q"
  then have "m * q \<le> n div q * q" by (simp add: mult_right_mono)
  also have "\<dots> \<le> n" using q by (simp flip: minus_mod_eq_div_mult)
  finally show "m * q \<le> n" .
next
  assume q: "0 < q" and "m * q \<le> n"
  then have "m * q div q \<le> n div q" by (intro zdiv_mono1)
  with q show "m \<le> n div q" by simp
qed

text \<open>The four quotient tests of the source, as bounds on the exact product.\<close>

lemma quotient_tests:
  fixes x y m :: int
  assumes "0 \<le> m"
  shows "0 < y \<Longrightarrow> x \<le> m sdiv y \<longleftrightarrow> x * y \<le> m"
    and "0 < y \<Longrightarrow> (- m) sdiv y \<le> x \<longleftrightarrow> - m \<le> x * y"
    and "x < 0 \<Longrightarrow> m sdiv x \<le> y \<longleftrightarrow> x * y \<le> m"
proof -
  show "0 < y \<Longrightarrow> x \<le> m sdiv y \<longleftrightarrow> x * y \<le> m"
    using assms by (simp add: sdiv_nonneg le_div_iff_int)
  have "(- m) sdiv y = - (m div y)" if "0 < y"
    using assms that by (cases "m = 0") (auto simp: signed_divide_int_def sgn_if)
  then show "0 < y \<Longrightarrow> (- m) sdiv y \<le> x \<longleftrightarrow> - m \<le> x * y"
    using le_div_iff_int [of y "- x" m] by auto
  have "m sdiv x = - (m div (- x))" if "x < 0"
    using assms that by (cases "m = 0") (auto simp: signed_divide_int_def sgn_if)
  then show "x < 0 \<Longrightarrow> m sdiv x \<le> y \<longleftrightarrow> x * y \<le> m"
    using le_div_iff_int [of "- x" "- y" m] by (auto simp: mult.commute)
qed

lemma CheckedMul_signed:
  assumes w: "0 < width T" "32 < width T" and s: "is_signed T" and x: "in_type T x" and y: "in_type T y"
    and ok: "\<not> (x = 0 \<and> y < 0)"
  shows "CheckedMul RANGE_VALID T x y = Inr (static_cast T (x * y), classify T (x * y))"
proof -
  let ?P = "(2::int) ^ (width T - 1)"
  have lim: "limits_max T = ?P - 1" "limits_min T = - ?P"
    using s by (simp_all add: limits_max_def limits_min_def)
  have P: "0 \<le> ?P" "0 \<le> ?P - 1" by simp_all
  have z: "static_cast T 0 = 0" "classify T 0 = RANGE_VALID"
    using w(1) limits_order [OF w(1)] by (simp_all add: in_type_def classify_valid)
  consider (zz) "x = 0" "y = 0" | (pp) "0 < x" "0 < y" | (pn) "0 < x" "y \<le> 0"
    | (np) "x \<le> 0" "0 < y" | (nn) "x < 0" "y \<le> 0"
    using ok by linarith
  then show ?thesis
  proof cases
    case zz
    with w s z show ?thesis by (simp add: CheckedMul_def)
  next
    case pp
    then have "0 < x * y" by simp
    then have "\<not> x * y < - ?P" using P(1) by linarith
    with pp w s P quotient_tests(1) [OF P(2), of y x] show ?thesis
      by (auto simp: CheckedMul_def cpp_div_def classify_def lim)
  next
    case pn
    then have "x * y \<le> 0" by (simp add: mult_nonneg_nonpos)
    then have "\<not> ?P - 1 < x * y" using P(2) by linarith
    with pn w s P quotient_tests(2) [OF P(1), of x y] show ?thesis
      by (auto simp: CheckedMul_def cpp_div_def classify_def lim mult.commute)
  next
    case np
    then have "x * y \<le> 0" by (simp add: mult_nonpos_nonneg)
    then have "\<not> ?P - 1 < x * y" using P(2) by linarith
    with np w s P quotient_tests(2) [OF P(1), of y x] show ?thesis
      by (auto simp: CheckedMul_def cpp_div_def classify_def lim)
  next
    case nn
    then have "0 \<le> x * y" by (simp add: mult_nonpos_nonpos)
    then have "\<not> x * y < - ?P" using P(1) by linarith
    with nn w s P quotient_tests(3) [OF P(2), of x y] show ?thesis
      by (auto simp: CheckedMul_def cpp_div_def classify_def lim)
  qed
qed

lemma CheckedMul_unsigned:
  assumes w: "0 < width T" "32 < width T" and s: "\<not> is_signed T" and x: "in_type T x" and y: "in_type T y"
  shows "CheckedMul v T x y = Inr (static_cast T (x * y), classify T (x * y))"
proof -
  have m: "0 \<le> limits_max T" "limits_min T = 0" using s by (simp_all add: limits_max_def limits_min_def)
  then have xy: "0 \<le> x" "0 \<le> y" using x y by (auto simp: in_type_def)
  then have "\<not> x * y < 0" by (simp add: not_less)
  then show ?thesis
    using w s m xy quotient_tests(1) [OF m(1), of y x]
    by (auto simp: CheckedMul_def cpp_div_def classify_def)
qed

lemma product_in_wider:
  assumes "0 < width T" "in_type T x" "in_type T y"
  shows "in_type \<lparr>width = 2 * width T, is_signed = is_signed T\<rparr> (x * y)"
proof (cases "is_signed T")
  case True
  let ?P = "(2::int) ^ (width T - 1)"
  have "\<bar>x\<bar> \<le> ?P" "\<bar>y\<bar> \<le> ?P"
    using assms True by (auto simp: in_type_def limits_max_def limits_min_def)
  then have "\<bar>x * y\<bar> \<le> ?P * ?P" by (simp add: abs_mult mult_mono)
  moreover have "2 * (?P * ?P) = 2 ^ (2 * width T - 1)"
  proof -
    have "2 * width T - 1 = Suc ((width T - 1) + (width T - 1))" using assms(1) by arith
    then show ?thesis by (simp only: power_Suc power_add)
  qed
  then have "limits_max \<lparr>width = 2 * width T, is_signed = is_signed T\<rparr> = 2 * (?P * ?P) - 1"
    "limits_min \<lparr>width = 2 * width T, is_signed = is_signed T\<rparr> = - (2 * (?P * ?P))"
    using True by (simp_all only: limits_max_def limits_min_def int_type.simps if_True)
  moreover have "0 < ?P * ?P" by simp
  ultimately show ?thesis unfolding in_type_def by linarith
next
  case False
  let ?M = "(2::int) ^ width T"
  have "0 \<le> x" "x \<le> ?M - 1" "0 \<le> y" "y \<le> ?M - 1"
    using assms False by (auto simp: in_type_def limits_max_def limits_min_def)
  then have "0 \<le> x * y" "x * y \<le> (?M - 1) * (?M - 1)" by (simp_all add: mult_mono)
  moreover have "(?M - 1) * (?M - 1) \<le> ?M * ?M - 1"
    using one_le_power [of "2::int" "width T"] by (simp add: algebra_simps)
  moreover have "limits_max \<lparr>width = 2 * width T, is_signed = is_signed T\<rparr> = ?M * ?M - 1"
    "limits_min \<lparr>width = 2 * width T, is_signed = is_signed T\<rparr> = 0"
    using False by (simp_all add: limits_max_def limits_min_def mult_2 power_add)
  ultimately show ?thesis unfolding in_type_def by linarith
qed

lemma CheckedMul_narrow:
  assumes "0 < width T" "2 * width T \<le> 64" "in_type T x" "in_type T y"
  shows "CheckedMul v T x y = Inr (static_cast T (x * y), classify T (x * y))"
  using assms product_in_wider [OF assms(1,3,4)]
  by (simp add: CheckedMul_def DstRangeRelationToSrcRange_classify)

text \<open>
  \<^verbatim>\<open>CheckedMul\<close> computes the exact product's range constraint for every integer type and all
  operands of the type, except in one case: for signed types wider than 32 bits it divides by
  zero, and so traps, exactly when the left operand is 0 and the right one is negative (the
  guard written for "either side is zero" tests for both).
\<close>

theorem CheckedMul_characterised:
  assumes "0 < width T" "in_type T x" "in_type T y"
  shows "CheckedMul RANGE_VALID T x y =
    (if is_signed T \<and> 32 < width T \<and> x = 0 \<and> y < 0 then Inl (Fatal ''division by zero'')
     else Inr (static_cast T (x * y), classify T (x * y)))"
proof (cases "2 * width T \<le> 64")
  case True
  with assms show ?thesis by (simp add: CheckedMul_narrow)
next
  case False
  then have w: "32 < width T" by simp
  show ?thesis
  proof (cases "is_signed T \<and> x = 0 \<and> y < 0")
    case True
    with w False show ?thesis by (simp add: CheckedMul_def cpp_div_def)
  next
    case False
    with assms w CheckedMul_signed [of T x y] CheckedMul_unsigned [of T x y] show ?thesis by auto
  qed
qed

theorem CheckedMul_characterised_witness:
  "CheckedMul RANGE_VALID int64_t 0 (-1) = Inl (Fatal ''division by zero'') \<and>
   CheckedMul RANGE_VALID int64_t (-1) 0 = Inr (0, RANGE_VALID)"
  using CheckedMul_characterised [of int64_t 0 "-1"] CheckedMul_characterised [of int64_t "-1" 0]
  by (simp add: int64_t_def in_type_def limits_max_def limits_min_def static_cast_def classify_def)

end
