(* ===== verification/Base_Time.thy ===== *)
theory Base_Time
  imports Safe_Math Complex_Main
begin

text \<open>
  \<^verbatim>\<open>base/time/time.h\<close> and \<^verbatim>\<open>base/time/time.cc\<close>: \<^verbatim>\<open>TimeDelta\<close>, \<^verbatim>\<open>TimeTicks\<close> and \<^verbatim>\<open>Time\<close> are
  64-bit counts of microseconds. Addition and subtraction saturate
  (\<^verbatim>\<open>SaturatedAdd\<close>/\<^verbatim>\<open>SaturatedSub\<close>), the difference of two time points and the
  \<^verbatim>\<open>From...\<close> constructors do not, and the conversions of \<^verbatim>\<open>TimeDelta\<close> to a unit preserve the
  maximum. Conversions through \<^verbatim>\<open>double\<close> are not modelled.
\<close>

type_synonym time_delta = int
type_synonym time_ticks = int
type_synonym time_point = int

subsection \<open>Constants\<close>

definition kMicrosecondsPerMillisecond :: int where "kMicrosecondsPerMillisecond = 1000"
definition kMicrosecondsPerSecond :: int where "kMicrosecondsPerSecond = 1000 * 1000"
definition kMicrosecondsPerMinute :: int where "kMicrosecondsPerMinute = 1000 * 1000 * 60"
definition kMicrosecondsPerHour :: int where "kMicrosecondsPerHour = 1000 * 1000 * 60 * 60"
definition kMicrosecondsPerDay :: int where "kMicrosecondsPerDay = 1000 * 1000 * 60 * 60 * 24"
definition kTimeTToMicrosecondsOffset :: int where
  "kTimeTToMicrosecondsOffset = 11644473600000000"
definition kMinLowResolutionThresholdMs :: int where "kMinLowResolutionThresholdMs = 16"

lemmas time_consts = kMicrosecondsPerMillisecond_def kMicrosecondsPerSecond_def
  kMicrosecondsPerMinute_def kMicrosecondsPerHour_def kMicrosecondsPerDay_def
  kTimeTToMicrosecondsOffset_def kMinLowResolutionThresholdMs_def

subsection \<open>TimeDelta\<close>

definition delta_is_max :: "time_delta \<Rightarrow> bool" where
  "delta_is_max d \<longleftrightarrow> d = int64_max"

definition InDays :: "time_delta \<Rightarrow> int" where
  "InDays d = (if delta_is_max d then int32_max else wrap32 (d sdiv kMicrosecondsPerDay))"

definition InHours :: "time_delta \<Rightarrow> int" where
  "InHours d = (if delta_is_max d then int32_max else wrap32 (d sdiv kMicrosecondsPerHour))"

definition InMinutes :: "time_delta \<Rightarrow> int" where
  "InMinutes d = (if delta_is_max d then int32_max else wrap32 (d sdiv kMicrosecondsPerMinute))"

definition InSeconds :: "time_delta \<Rightarrow> int" where
  "InSeconds d = (if delta_is_max d then int64_max else d sdiv kMicrosecondsPerSecond)"

definition InMilliseconds :: "time_delta \<Rightarrow> int" where
  "InMilliseconds d = (if delta_is_max d then int64_max else d sdiv kMicrosecondsPerMillisecond)"

definition InMillisecondsRoundedUp :: "time_delta \<Rightarrow> int" where
  "InMillisecondsRoundedUp d =
     (if delta_is_max d then int64_max
      else wrap64 (wrap64 (d + kMicrosecondsPerMillisecond) - 1) sdiv kMicrosecondsPerMillisecond)"

definition InMicroseconds :: "time_delta \<Rightarrow> int" where
  "InMicroseconds d = (if delta_is_max d then int64_max else d)"

text \<open>Arithmetic goes through \<^verbatim>\<open>CheckedNumeric<int64>\<close> and clamps to \<open>max\<close> or \<open>-max\<close>.\<close>

definition FromCheckedNumeric :: "checked_numeric \<Rightarrow> int" where
  "FromCheckedNumeric c =
     (if IsValid c then state_value c
      else let limit = int64_max;
               limit' = (if state_validity c = RANGE_UNDERFLOW then - limit else limit)
           in ValueOrDefault c limit')"

definition SaturatedAdd :: "time_delta \<Rightarrow> int \<Rightarrow> int" where
  "SaturatedAdd d v = FromCheckedNumeric (op_plus (CheckedNumericOf d) (CheckedNumericOf v))"

definition SaturatedSub :: "time_delta \<Rightarrow> int \<Rightarrow> int" where
  "SaturatedSub d v = FromCheckedNumeric (op_minus (CheckedNumericOf d) (CheckedNumericOf v))"

definition delta_times :: "time_delta \<Rightarrow> int \<Rightarrow> time_delta result" where
  "delta_times d a =
     rbind (op_times (CheckedNumericOf d) (CheckedNumericOf a)) (\<lambda>rv. Inr (FromCheckedNumeric rv))"

definition delta_divide :: "time_delta \<Rightarrow> int \<Rightarrow> time_delta result" where
  "delta_divide d a =
     rbind (op_divide (CheckedNumericOf d) (CheckedNumericOf a)) (\<lambda>rv. Inr (FromCheckedNumeric rv))"

definition FromDays :: "int \<Rightarrow> time_delta" where
  "FromDays n = (if n = int32_max then int64_max else wrap64 (n * kMicrosecondsPerDay))"

definition FromHours :: "int \<Rightarrow> time_delta" where
  "FromHours n = (if n = int32_max then int64_max else wrap64 (n * kMicrosecondsPerHour))"

definition FromMinutes :: "int \<Rightarrow> time_delta" where
  "FromMinutes n = (if n = int32_max then int64_max else wrap64 (n * kMicrosecondsPerMinute))"

definition FromSeconds :: "int \<Rightarrow> time_delta" where
  "FromSeconds n = (if n = int64_max then int64_max else wrap64 (n * kMicrosecondsPerSecond))"

definition FromMilliseconds :: "int \<Rightarrow> time_delta" where
  "FromMilliseconds n =
     (if n = int64_max then int64_max else wrap64 (n * kMicrosecondsPerMillisecond))"

definition FromMicroseconds :: "int \<Rightarrow> time_delta" where
  "FromMicroseconds n = (if n = int64_max then int64_max else n)"

text \<open>\<^verbatim>\<open>magnitude\<close>: the branchless absolute value, with the arithmetic shift by 63 as the mask.\<close>

definition magnitude :: "time_delta \<Rightarrow> time_delta" where
  "magnitude d = (let mask = drop_bit 63 d in xor (wrap64 (d + mask)) mask)"

subsection \<open>TimeTicks\<close>

definition ticks_is_null :: "time_ticks \<Rightarrow> bool" where
  "ticks_is_null t \<longleftrightarrow> t = 0"

definition ticks_plus :: "time_ticks \<Rightarrow> time_delta \<Rightarrow> time_ticks" where
  "ticks_plus t d = SaturatedAdd d t"

definition ticks_minus_delta :: "time_ticks \<Rightarrow> time_delta \<Rightarrow> time_ticks" where
  "ticks_minus_delta t d = wrap64 (- SaturatedSub d t)"

definition ticks_minus :: "time_ticks \<Rightarrow> time_ticks \<Rightarrow> time_delta" where
  "ticks_minus t u = wrap64 (t - u)"

definition SnappedToNextTick :: "time_ticks \<Rightarrow> time_ticks \<Rightarrow> time_delta \<Rightarrow> time_ticks" where
  "SnappedToNextTick this tick_phase tick_interval =
     (let interval_offset = ticks_minus tick_phase this smod tick_interval;
          interval_offset' =
            (if interval_offset \<noteq> 0 \<and> tick_phase < this
             then SaturatedAdd interval_offset tick_interval else interval_offset)
      in ticks_plus this interval_offset')"

subsection \<open>Time and time_t\<close>

definition FromTimeT :: "int \<Rightarrow> time_point" where
  "FromTimeT tt =
     (if tt = 0 then 0 else if tt = int64_max then int64_max
      else wrap64 (wrap64 (tt * kMicrosecondsPerSecond) + kTimeTToMicrosecondsOffset))"

definition ToTimeT :: "time_point \<Rightarrow> int" where
  "ToTimeT us =
     (if us = 0 then 0
      else if us = int64_max then int64_max
      else if int64_max - kTimeTToMicrosecondsOffset \<le> us then int64_max
      else wrap64 (us - kTimeTToMicrosecondsOffset) sdiv kMicrosecondsPerSecond)"

record exploded =
  year :: int
  month :: int
  day_of_week :: int
  day_of_month :: int
  hour :: int
  minute :: int
  second :: int
  millisecond :: int

definition is_in_range :: "int \<Rightarrow> int \<Rightarrow> int \<Rightarrow> bool" where
  "is_in_range v lo hi \<longleftrightarrow> lo \<le> v \<and> v \<le> hi"

definition HasValidValues :: "exploded \<Rightarrow> bool" where
  "HasValidValues e \<longleftrightarrow>
     is_in_range (month e) 1 12 \<and> is_in_range (day_of_week e) 0 6 \<and>
     is_in_range (day_of_month e) 1 31 \<and> is_in_range (hour e) 0 23 \<and>
     is_in_range (minute e) 0 59 \<and> is_in_range (second e) 0 60 \<and>
     is_in_range (millisecond e) 0 999"

subsection \<open>Saturating arithmetic\<close>

lemma int64_limits: "limits_max int64_t = int64_max" "limits_min int64_t = int64_min"
  by (simp_all add: int64_t_def limits_max_def limits_min_def)

lemma in_type_int64: "in_type int64_t x \<longleftrightarrow> is_int64 x"
  by (simp add: in_type_def int64_limits is_int64_def)

lemma width_int64 [simp]: "width int64_t = 64" "is_signed int64_t"
  by (simp_all add: int64_t_def)

lemma static_cast_int64: "static_cast int64_t x = wrap64 x"
  by (simp add: static_cast_def wrap64_def)

lemma DstRange_int64 [simp]: "DstRangeRelationToSrcRange int64_t int64_t x = RANGE_VALID"
  by (simp add: DstRangeRelationToSrcRange_def StaticDstRangeRelationToSrcRange_def)

lemma CheckedNumericOf_int64:
  "is_int64 x \<Longrightarrow> CheckedNumericOf x = \<lparr>state_value = x, state_validity = RANGE_VALID\<rparr>"
  by (simp add: CheckedNumericOf_def static_cast_int64)

definition clamp64 :: "int \<Rightarrow> int" where
  "clamp64 z = (if z > int64_max then int64_max else if z < int64_min then - int64_max else z)"

lemma FromCheckedNumeric_classify:
  "FromCheckedNumeric \<lparr>state_value = wrap64 z, state_validity = classify int64_t z\<rparr> = clamp64 z"
proof (cases "is_int64 z")
  case True
  then show ?thesis
    by (auto simp: FromCheckedNumeric_def IsValid_def classify_def int64_limits clamp64_def is_int64_def)
next
  case False
  then show ?thesis
    by (auto simp: FromCheckedNumeric_def IsValid_def ValueOrDefault_def classify_def int64_limits
        clamp64_def is_int64_def)
qed

lemma SaturatedAdd_clamp: "is_int64 d \<Longrightarrow> is_int64 v \<Longrightarrow> SaturatedAdd d v = clamp64 (d + v)"
  using CheckedAdd_signed [of int64_t d v]
  by (simp add: SaturatedAdd_def op_plus_def CheckedNumericOf_int64 in_type_int64 static_cast_int64
      FromCheckedNumeric_classify)

lemma SaturatedSub_clamp: "is_int64 d \<Longrightarrow> is_int64 v \<Longrightarrow> SaturatedSub d v = clamp64 (d - v)"
  using CheckedSub_signed [of int64_t d v]
  by (simp add: SaturatedSub_def op_minus_def CheckedNumericOf_int64 in_type_int64 static_cast_int64
      FromCheckedNumeric_classify)

lemma clamp64_range [bounds]: "is_int64 (clamp64 z)"
  by (simp add: clamp64_def is_int64_def)

lemma clamp64_id [simp]: "is_int64 z \<Longrightarrow> clamp64 z = z"
  by (simp add: clamp64_def is_int64_def)

text \<open>
  C29: adding and subtracting time deltas, and adding a delta to a time point, saturate: the
  result is the mathematical one when it fits in 64 bits and the maximum or its negation
  otherwise, so a deadline computed from any delay never wraps into the past.
\<close>

theorem time_arithmetic_saturates:
  assumes "is_int64 t" "is_int64 d"
  shows "SaturatedAdd t d = clamp64 (t + d) \<and> SaturatedSub t d = clamp64 (t - d) \<and>
    ticks_plus t d = clamp64 (t + d) \<and> (0 \<le> d \<longrightarrow> t \<le> ticks_plus t d)"
proof -
  have "0 \<le> d \<longrightarrow> t \<le> clamp64 (t + d)"
    using assms by (auto simp: clamp64_def is_int64_def)
  with assms show ?thesis
    by (simp add: SaturatedAdd_clamp SaturatedSub_clamp ticks_plus_def add.commute)
qed

theorem time_arithmetic_saturates_witness:
  "SaturatedAdd (2 ^ 63 - 1) 1 = 2 ^ 63 - 1 \<and> SaturatedSub (2 ^ 63 - 1) 1 = 2 ^ 63 - 2 \<and>
   ticks_plus (2 ^ 63 - 1) 1 = 2 ^ 63 - 1"
  using time_arithmetic_saturates [of "2 ^ 63 - 1" 1] by (simp add: is_int64_def clamp64_def)

text \<open>
  Multiplying a \<^verbatim>\<open>TimeDelta\<close> by a 64-bit factor saturates like the other operations, but the
  zero delta times a negative factor is a division by zero in \<^verbatim>\<open>CheckedMul\<close> and traps.
\<close>

theorem TimeDelta_times:
  assumes "is_int64 d" "is_int64 a"
  shows "delta_times d a =
    (if d = 0 \<and> a < 0 then Inl (Fatal ''division by zero'') else Inr (clamp64 (d * a)))"
proof (cases "d = 0 \<and> a < 0")
  case True
  with assms show ?thesis
    by (simp add: delta_times_def op_times_def CheckedNumericOf_int64 CheckedMul_def cpp_div_def)
next
  case False
  with assms have "CheckedMul RANGE_VALID int64_t d a = Inr (wrap64 (d * a), classify int64_t (d * a))"
    using CheckedMul_signed [of int64_t d a] by (simp add: in_type_int64 static_cast_int64)
  with False assms show ?thesis
    by (simp add: delta_times_def op_times_def CheckedNumericOf_int64 FromCheckedNumeric_classify)
qed

theorem TimeDelta_times_witness:
  "delta_times 0 (-2) = Inl (Fatal ''division by zero'') \<and> delta_times 5 (-2) = Inr (-10)"
  using TimeDelta_times [of 0 "-2"] TimeDelta_times [of 5 "-2"] by (simp add: is_int64_def)

subsection \<open>Units\<close>

lemma rounded_up_nonneg:
  assumes "0 \<le> d" "d \<le> int64_max - 1000"
  shows "InMillisecondsRoundedUp d = (d + 999) div 1000"
  using assms
  by (simp add: InMillisecondsRoundedUp_def delta_is_max_def kMicrosecondsPerMillisecond_def
      is_int64_def sdiv_nonneg)

lemma rounded_up_negative:
  assumes "is_int64 d" "d < 0"
  shows "InMillisecondsRoundedUp d = (if d \<le> - 999 then - ((- d - 999) div 1000) else 0)"
proof -
  have "InMillisecondsRoundedUp d = (d + 999) sdiv 1000"
    using assms
    by (simp add: InMillisecondsRoundedUp_def delta_is_max_def kMicrosecondsPerMillisecond_def is_int64_def
        add.commute)
  moreover have "(d + 999) sdiv 1000 = - ((- d - 999) div 1000)" if "d < - 999"
    using that sdiv_neg [of "d + 999" 1000] by simp
  moreover have "(d + 999) sdiv 1000 = 0" if "- 999 \<le> d"
    using that assms(2) by (simp add: sdiv_nonneg)
  ultimately show ?thesis by (cases "d < - 999") auto
qed

lemma ceiling_nonneg: "(0::int) \<le> d \<Longrightarrow> (d + 999) div 1000 = - ((- d) div 1000)"
  by linarith

lemma ceiling_negative:
  assumes "(999::int) \<le> e"
  shows "- ((e - 999) div 1000) = - (e div 1000) + (if 1000 \<le> e \<and> (- e) mod 1000 \<noteq> 1 then 1 else 0)"
proof -
  have m: "(- e) mod 1000 = 1 \<longleftrightarrow> e mod 1000 = 999" by (auto simp: zmod_zminus1_eq_if)
  define q r where "q = e div 1000" and "r = e mod 1000"
  have r: "0 \<le> r" "r < 1000" and e: "e = 1000 * q + r" by (simp_all add: q_def r_def)
  have "(e - 999) div 1000 = (if r = 999 then q else q - 1)"
    using r e by (intro int_div_pos_eq [of _ _ _ "if r = 999 then 0 else r + 1"]) auto
  moreover have "e \<ge> 1000 \<or> r = 999"
    using assms by (cases "e = 999") (auto simp: r_def)
  ultimately show ?thesis using m by (auto simp: q_def r_def)
qed

text \<open>
  \<^verbatim>\<open>InMilliseconds\<close> rounds towards zero, and \<^verbatim>\<open>InMillisecondsRoundedUp\<close> is the ceiling for
  non-negative deltas; for a negative delta of at least one millisecond it is one more than
  the ceiling unless the delta is 1 modulo 1000, so that even -1 ms is converted to 0, although
  the header promises rounding up to the next full millisecond. Both preserve the maximum.
\<close>

theorem milliseconds_rounding:
  assumes "is_int64 d" "d \<le> int64_max - 1000"
  shows "InMilliseconds d = (if 0 \<le> d then d div 1000 else - ((- d) div 1000)) \<and>
    InMillisecondsRoundedUp d =
      \<lceil>real_of_int d / 1000\<rceil> + (if d \<le> - 1000 \<and> d mod 1000 \<noteq> 1 then 1 else 0) \<and>
    InMilliseconds int64_max = int64_max \<and> InMillisecondsRoundedUp int64_max = int64_max"
proof -
  have c: "\<lceil>real_of_int d / 1000\<rceil> = - ((- d) div 1000)"
    using ceiling_divide_eq_div [of d 1000] by simp
  have m: "InMilliseconds d = (if 0 \<le> d then d div 1000 else - ((- d) div 1000))"
    using assms
    by (auto simp: InMilliseconds_def delta_is_max_def kMicrosecondsPerMillisecond_def
        sdiv_nonneg sdiv_neg)
  have "- ((- d - 999) div 1000) =
      - ((- d) div 1000) + (if d \<le> - 1000 \<and> d mod 1000 \<noteq> 1 then 1 else 0)" if "d \<le> - 999"
    using that ceiling_negative [of "- d"] by simp
  moreover have "- ((- d) div 1000) = 0" if "- 999 < d" "d < 0"
    using that by simp
  ultimately have "InMillisecondsRoundedUp d =
      - ((- d) div 1000) + (if d \<le> - 1000 \<and> d mod 1000 \<noteq> 1 then 1 else 0)"
    using assms rounded_up_nonneg [of d] rounded_up_negative [of d] ceiling_nonneg [of d]
    by (cases "0 \<le> d"; cases "d \<le> - 999") auto
  with m c show ?thesis
    by (simp add: InMilliseconds_def InMillisecondsRoundedUp_def delta_is_max_def)
qed

theorem milliseconds_rounding_witness:
  "InMilliseconds (-1500) = -1 \<and> InMillisecondsRoundedUp 1500 = \<lceil>real_of_int 1500 / 1000\<rceil> \<and>
   InMillisecondsRoundedUp (-1000) = \<lceil>real_of_int (-1000) / 1000\<rceil> + 1"
  using milliseconds_rounding [of "-1500"] milliseconds_rounding [of 1500]
    milliseconds_rounding [of "-1000"]
  by (simp add: is_int64_def)

subsection \<open>Ticks\<close>

lemma smod_pos: "0 \<le> a \<Longrightarrow> 0 < (k::int) \<Longrightarrow> a smod k = a mod k"
  by (simp add: signed_modulo_int_def sdiv_nonneg sgn_if)

lemma smod_neg: "a < 0 \<Longrightarrow> 0 < (k::int) \<Longrightarrow> a smod k = - ((- a) mod k)"
  by (simp add: signed_modulo_int_def sgn_if)

lemma offset_cases:
  fixes a k :: int
  assumes "0 < k"
  shows "(if a smod k \<noteq> 0 \<and> a < 0 then a smod k + k else a smod k) = a mod k"
proof (cases "0 \<le> a")
  case True
  with assms show ?thesis by (simp add: smod_pos)
next
  case False
  with assms have s: "a smod k = - ((- a) mod k)" by (simp add: smod_neg)
  show ?thesis
  proof (cases "a mod k = 0")
    case True
    then show ?thesis using False s by (simp add: zmod_zminus1_eq_if)
  next
    case nz: False
    then have "(- a) mod k = k - a mod k" by (simp add: zmod_zminus1_eq_if)
    with nz False s show ?thesis
      using pos_mod_bound [OF assms, of a] by (auto)
  qed
qed

lemma smod_bounds:
  fixes a k :: int
  assumes "0 < k"
  shows "- k < a smod k" "a smod k < k" "a < 0 \<Longrightarrow> a smod k \<le> 0"
proof -
  note b = pos_mod_bound [OF assms, of a] pos_mod_sign [OF assms, of a]
    pos_mod_bound [OF assms, of "- a"] pos_mod_sign [OF assms, of "- a"]
  consider "0 \<le> a" "a smod k = a mod k" | "a < 0" "a smod k = - ((- a) mod k)"
    using smod_pos [OF _ assms] smod_neg [OF _ assms] by (meson not_le)
  then show "- k < a smod k" "a smod k < k" "a < 0 \<Longrightarrow> a smod k \<le> 0"
    using b assms by (cases; linarith)+
qed

lemma snapped_offset:
  fixes a k :: int
  assumes "0 < k" "is_int64 k"
  shows "(if a smod k \<noteq> 0 \<and> a < 0 then SaturatedAdd (a smod k) k else a smod k) = a mod k"
proof -
  note b = smod_bounds [OF assms(1), of a]
  have "is_int64 (a smod k)" using b(1,2) assms(2) unfolding is_int64_def by linarith
  moreover have "is_int64 (a smod k + k)" if "a < 0"
    using b(1) b(3) [OF that] assms unfolding is_int64_def by linarith
  ultimately have "SaturatedAdd (a smod k) k = a smod k + k" if "a < 0"
    using that assms(2) by (simp add: SaturatedAdd_clamp)
  then show ?thesis using offset_cases [OF assms(1), of a] by metis
qed

text \<open>
  \<^verbatim>\<open>SnappedToNextTick\<close> returns the first point of the grid \<open>tick_phase + n * tick_interval\<close> at or
  after the given time, wherever the phase lies, provided the interval is positive and the
  subtraction and the addition do not leave the 64-bit range.
\<close>

theorem SnappedToNextTick_correct:
  assumes "0 < tick_interval" "is_int64 tick_interval" "is_int64 this" "is_int64 (tick_phase - this)"
    and "is_int64 (this + tick_interval)"
  shows "(let r = SnappedToNextTick this tick_phase tick_interval
    in this \<le> r \<and> r < this + tick_interval \<and> (r - tick_phase) mod tick_interval = 0)"
proof -
  let ?a = "tick_phase - this" and ?k = "tick_interval"
  have r: "0 \<le> ?a mod ?k" "?a mod ?k < ?k" using assms(1) by simp_all
  have "is_int64 (?a mod ?k)" using r assms(2) unfolding is_int64_def by linarith
  moreover have "is_int64 (?a mod ?k + this)"
    using r assms(3,5) unfolding is_int64_def by linarith
  ultimately have plus: "ticks_plus this (?a mod ?k) = this + ?a mod ?k"
    using assms(3) unfolding ticks_plus_def by (simp only: SaturatedAdd_clamp clamp64_id add.commute)
  have "(tick_phase < this) = (?a < 0)" by auto
  then have snap: "SnappedToNextTick this tick_phase ?k = this + ?a mod ?k"
    unfolding SnappedToNextTick_def ticks_minus_def Let_def wrap64_id [OF assms(4)]
    by (simp only: snapped_offset [OF assms(1,2)] plus)
  have "(this + ?a mod ?k - tick_phase) mod ?k = (?a mod ?k - ?a) mod ?k"
    by (simp add: algebra_simps)
  also have "\<dots> = 0" by (simp add: mod_diff_left_eq)
  finally show ?thesis using r by (simp add: Let_def snap)
qed

theorem SnappedToNextTick_correct_witness:
  "1013 \<le> SnappedToNextTick 1013 1000 10 \<and> SnappedToNextTick 1013 1000 10 < 1023 \<and>
   (SnappedToNextTick 1013 1000 10 - 1000) mod 10 = 0"
  using SnappedToNextTick_correct [of 10 1013 1000] by (simp add: is_int64_def Let_def)

end
