(* ===== verification/Pending_Task.thy ===== *)
theory Pending_Task
  imports Base_Time "HOL-Library.Product_Lexorder"
begin

text \<open>
  \<^verbatim>\<open>base/pending_task.h\<close> and \<^verbatim>\<open>base/pending_task.cc\<close>: the task record, its ordering and the two
  queue types built on it. A closure is a value of the type parameter, \<open>None\<close> being the null
  closure. \<^verbatim>\<open>DelayedTaskQueue\<close> is \<^verbatim>\<open>std::priority_queue\<close> with the ordering of the source; it is
  kept as the list of its elements in the order in which \<^verbatim>\<open>top\<close>/\<^verbatim>\<open>pop\<close> deliver them.
\<close>

record 'c pending_task =
  task :: "'c option"
  posted_from :: string
  delayed_run_time :: time_ticks
  sequence_num :: "32 word"
  nestable :: bool
  is_high_res :: bool

definition PendingTask :: "string \<Rightarrow> 'c option \<Rightarrow> time_ticks \<Rightarrow> bool \<Rightarrow> 'c pending_task" where
  "PendingTask from_here t run_time nest =
     \<lparr>task = t, posted_from = from_here, delayed_run_time = run_time, sequence_num = 0,
      nestable = nest, is_high_res = False\<rparr>"

text \<open>\<^verbatim>\<open>operator<\<close>: the greatest task is the one to run first.\<close>

definition pending_task_less :: "'c pending_task \<Rightarrow> 'c pending_task \<Rightarrow> bool" where
  "pending_task_less a b =
     (if delayed_run_time a < delayed_run_time b then False
      else if delayed_run_time a > delayed_run_time b then True
      else sint (sequence_num a - sequence_num b) > 0)"

type_synonym 'c task_queue = "'c pending_task list"
type_synonym 'c delayed_task_queue = "'c pending_task list"

definition TaskQueue_Swap :: "'c task_queue \<Rightarrow> 'c task_queue \<Rightarrow> 'c task_queue \<times> 'c task_queue" where
  "TaskQueue_Swap this queue = (queue, this)"

fun dq_push :: "'c pending_task \<Rightarrow> 'c delayed_task_queue \<Rightarrow> 'c delayed_task_queue" where
  "dq_push pt [] = [pt]"
| "dq_push pt (x # xs) = (if pending_task_less x pt then pt # x # xs else x # dq_push pt xs)"

fun dq_pop :: "'c delayed_task_queue \<Rightarrow> ('c pending_task \<times> 'c delayed_task_queue) option" where
  "dq_pop [] = None"
| "dq_pop (x # xs) = Some (x, xs)"

subsection \<open>The ordering within a window of sequence numbers\<close>

text \<open>
  The comparison by signed difference is no order on all sequence numbers. It is one on tasks
  whose numbers lie in a window of \<open>2 ^ 31\<close> consecutive numbers, wherever the window starts:
  there it compares the pairs of run time and distance from the start.
\<close>

definition in_window :: "32 word \<Rightarrow> 'c pending_task \<Rightarrow> bool" where
  "in_window b pt \<longleftrightarrow> unat (sequence_num pt - b) < 2 ^ 31"

definition run_key :: "32 word \<Rightarrow> 'c pending_task \<Rightarrow> int \<times> nat" where
  "run_key b pt = (delayed_run_time pt, unat (sequence_num pt - b))"

lemma uint_small: "unat (u :: 32 word) < 2 ^ 31 \<Longrightarrow> 0 \<le> uint u \<and> uint u < 2 ^ 31"
  using of_nat_less_iff [of "unat u" "2 ^ 31", where ?'a = int] by simp

lemma sint_small: "unat (u :: 32 word) < 2 ^ 31 \<Longrightarrow> sint u = uint u"
proof -
  assume "unat u < 2 ^ 31"
  from uint_small [OF this] have "- (2 ^ 31) \<le> uint u" "uint u < 2 ^ 31" by linarith+
  then have "signed_take_bit 31 (uint u) = uint u" by (rule signed_take_bit_int_eq_self)
  then show ?thesis by (simp add: sint_uint)
qed

lemma signed_difference:
  fixes u v :: "32 word"
  assumes "unat u < 2 ^ 31" "unat v < 2 ^ 31"
  shows "0 < sint (u - v) \<longleftrightarrow> unat v < unat u"
proof -
  have "sint (u - v) = signed_take_bit 31 (sint u - sint v)"
    by (simp add: sint_word_ariths)
  also have "\<dots> = signed_take_bit 31 (uint u - uint v)"
    by (simp only: sint_small [OF assms(1)] sint_small [OF assms(2)])
  also have "\<dots> = uint u - uint v"
    using uint_small [OF assms(1)] uint_small [OF assms(2)]
    by (intro signed_take_bit_int_eq_self) linarith+
  finally have "sint (u - v) = uint u - uint v" .
  moreover have "unat v < unat u \<longleftrightarrow> uint v < uint u"
    by (simp add: word_less_nat_alt [symmetric] word_less_def)
  ultimately show ?thesis by linarith
qed

lemma pending_task_less_key:
  assumes "in_window b x" "in_window b y"
  shows "pending_task_less x y \<longleftrightarrow> run_key b y < run_key b x"
proof -
  have "sequence_num x - sequence_num y = (sequence_num x - b) - (sequence_num y - b)" by simp
  then have "0 < sint (sequence_num x - sequence_num y) \<longleftrightarrow>
      unat (sequence_num y - b) < unat (sequence_num x - b)"
    using assms signed_difference [of "sequence_num x - b" "sequence_num y - b"]
    by (simp add: in_window_def)
  then show ?thesis by (auto simp: pending_task_less_def run_key_def less_prod_def)
qed

subsection \<open>Priority queues of keyed elements\<close>

fun drain :: "('q \<Rightarrow> ('a \<times> 'q) option) \<Rightarrow> nat \<Rightarrow> 'q \<Rightarrow> 'a list" where
  "drain pop 0 q = []"
| "drain pop (Suc n) q = (case pop q of None \<Rightarrow> [] | Some (x, q') \<Rightarrow> x # drain pop n q')"

text \<open>
  What a client may assume of the delayed work queue: the elements form a multiset, and
  popping delivers one with the least key.
\<close>

locale keyed_queue =
  fixes empty :: 'q
    and push :: "'a \<Rightarrow> 'q \<Rightarrow> 'q"
    and pop :: "'q \<Rightarrow> ('a \<times> 'q) option"
    and elems :: "'q \<Rightarrow> 'a multiset"
    and ok :: "'a \<Rightarrow> bool"
    and invar :: "'q \<Rightarrow> bool"
    and key :: "'a \<Rightarrow> 'k :: linorder"
  assumes elems_empty: "elems empty = {#}"
    and invar_empty: "invar empty"
    and elems_push: "elems (push x q) = add_mset x (elems q)"
    and invar_push: "invar q \<Longrightarrow> ok x \<Longrightarrow> invar (push x q)"
    and pop_None: "pop q = None \<longleftrightarrow> elems q = {#}"
    and pop_elems: "pop q = Some (x, q') \<Longrightarrow> elems q = add_mset x (elems q')"
    and pop_invar: "invar q \<Longrightarrow> pop q = Some (x, q') \<Longrightarrow> invar q'"
    and pop_least: "invar q \<Longrightarrow> pop q = Some (x, q') \<Longrightarrow> y \<in># elems q \<Longrightarrow> key x \<le> key y"
begin

lemma mset_drain: "mset (drain pop (size (elems q)) q) = elems q"
proof (induction "size (elems q)" arbitrary: q)
  case 0
  then show ?case by simp
next
  case (Suc n)
  then obtain x q' where p: "pop q = Some (x, q')"
    using pop_None [of q] by (cases "pop q") auto
  then have "n = size (elems q')" using Suc.hyps(2) pop_elems [OF p] by simp
  then show ?case using Suc.hyps(1) [of q'] p pop_elems [OF p] by simp
qed

lemma set_drain_subset: "set (drain pop n q) \<subseteq> set_mset (elems q)"
proof (induction n arbitrary: q)
  case (Suc n)
  show ?case
  proof (cases "pop q")
    case (Some r)
    then obtain x q' where "pop q = Some (x, q')" by (cases r) auto
    then show ?thesis using Suc.IH [of q'] pop_elems [of q x q'] by auto
  qed simp
qed simp

lemma sorted_drain: "invar q \<Longrightarrow> sorted (map key (drain pop n q))"
proof (induction n arbitrary: q)
  case (Suc n)
  show ?case
  proof (cases "pop q")
    case (Some r)
    then obtain x q' where p: "pop q = Some (x, q')" by (cases r) auto
    have "key x \<le> key y" if "y \<in> set (drain pop n q')" for y
      using that set_drain_subset [of n q'] pop_elems [OF p] pop_least [OF Suc.prems p]
      by fastforce
    then show ?thesis using p Suc.IH [OF pop_invar [OF Suc.prems p]] by auto
  qed simp
qed simp

lemma elems_fold_push: "elems (fold push xs q) = elems q + mset xs"
  by (induction xs arbitrary: q) (simp_all add: elems_push)

lemma invar_fold_push: "invar q \<Longrightarrow> list_all ok xs \<Longrightarrow> invar (fold push xs q)"
  by (induction xs arbitrary: q) (simp_all add: invar_push)

end

definition dq_inv :: "32 word \<Rightarrow> 'c delayed_task_queue \<Rightarrow> bool" where
  "dq_inv b q \<longleftrightarrow> list_all (in_window b) q \<and> sorted (map (run_key b) q)"

lemma mset_dq_push [simp]: "mset (dq_push pt q) = add_mset pt (mset q)"
  by (induction q) auto

lemma set_dq_push [simp]: "set (dq_push pt q) = insert pt (set q)"
  by (induction q) auto

lemma dq_push_not_Nil [simp]: "dq_push pt q \<noteq> []"
  by (cases q) auto

lemma length_dq_push [simp]: "length (dq_push pt q) = Suc (length q)"
  by (induction q) auto

lemma dq_inv_push: "dq_inv b q \<Longrightarrow> in_window b pt \<Longrightarrow> dq_inv b (dq_push pt q)"
proof (induction q)
  case (Cons x xs)
  then have less: "pending_task_less x pt \<longleftrightarrow> run_key b pt < run_key b x"
    by (simp add: dq_inv_def pending_task_less_key)
  from Cons have "dq_inv b (dq_push pt xs)" by (simp add: dq_inv_def)
  with Cons.prems less show ?case
    by (auto simp: dq_inv_def list_all_iff intro: order.trans less_imp_le)
qed (simp add: dq_inv_def)

interpretation dq: keyed_queue "[]" dq_push dq_pop mset "in_window b" "dq_inv b" "run_key b"
  for b :: "32 word"
proof unfold_locales
  fix q q' :: "'a delayed_task_queue" and x y
  show "dq_pop q = None \<longleftrightarrow> mset q = {#}" by (cases q) auto
  show "dq_pop q = Some (x, q') \<Longrightarrow> mset q = add_mset x (mset q')" by (cases q) auto
  show "dq_inv b q \<Longrightarrow> dq_pop q = Some (x, q') \<Longrightarrow> dq_inv b q'" by (cases q) (auto simp: dq_inv_def)
  show "dq_inv b q \<Longrightarrow> dq_pop q = Some (x, q') \<Longrightarrow> y \<in># mset q \<Longrightarrow> run_key b x \<le> run_key b y"
    by (cases q) (auto simp: dq_inv_def)
qed (auto intro: dq_inv_push, simp add: dq_inv_def)

text \<open>
  Tasks pushed in any order into the delayed work queue are delivered in order of their
  run time, and tasks with the same run time in the order of their sequence numbers, with none
  lost or duplicated, provided the numbers lie in a window of \<open>2 ^ 31\<close> consecutive values; the
  window may straddle the roll-over of the 32-bit counter.
\<close>

theorem delayed_queue_delivers_in_order:
  assumes "list_all (in_window b) xs"
  shows "(let out = drain dq_pop (length xs) (fold dq_push xs [])
    in mset out = mset xs \<and> sorted (map (run_key b) out))"
proof -
  have i: "dq_inv b (fold dq_push xs [])"
    using assms by (intro dq.invar_fold_push) (simp add: dq_inv_def)
  have m: "mset (fold dq_push xs []) = mset xs"
    using dq.elems_fold_push [of xs "[]"] by simp
  then have "size (mset (fold dq_push xs [])) = length xs" by simp
  with dq.mset_drain [of "fold dq_push xs []"] dq.sorted_drain [OF i, of "length xs"] m
  show ?thesis by (simp add: Let_def)
qed

theorem delayed_queue_delivers_in_order_witness:
  "(let a = (PendingTask ''f'' (Some True) 50 True)\<lparr>sequence_num := - 1\<rparr>;
        b = (PendingTask ''f'' (Some False) 50 True)\<lparr>sequence_num := 0\<rparr>;
        out = drain dq_pop (length [b, a]) (fold dq_push [b, a] [])
    in mset out = mset [b, a] \<and> sorted (map (run_key (- 1)) out))"
  unfolding Let_def
  by (rule delayed_queue_delivers_in_order [unfolded Let_def]) (simp add: in_window_def)

end
