(* ===== verification/Incoming_Task_Queue.thy ===== *)
theory Incoming_Task_Queue
  imports Pending_Task
begin

text \<open>
  \<^verbatim>\<open>base/message_loop/incoming_task_queue.cc\<close>: the locked queue through which every thread hands
  tasks to a message loop. An operation runs under \<^verbatim>\<open>incoming_queue_lock_\<close> from start to end,
  so it is one step. A call of \<^verbatim>\<open>message_loop_->ScheduleWork()\<close> is reported as a Boolean result.
  The current time is an argument. Logging and tracing calls have no effect on the state.
\<close>

datatype loop_type = TYPE_DEFAULT | TYPE_UI | TYPE_CUSTOM | TYPE_IO

record 'c incoming_task_queue =
  incoming_queue :: "'c task_queue"
  high_res_task_count :: int
  message_loop_alive :: bool
  next_sequence_num :: "32 word"
  message_loop_scheduled :: bool
  always_schedule_work :: bool

definition AlwaysNotifyPump :: "loop_type \<Rightarrow> bool" where
  "AlwaysNotifyPump type = False"

definition IncomingTaskQueue :: "loop_type \<Rightarrow> 'c incoming_task_queue" where
  "IncomingTaskQueue type =
     \<lparr>incoming_queue = [], high_res_task_count = 0, message_loop_alive = True,
      next_sequence_num = 0, message_loop_scheduled = False,
      always_schedule_work = AlwaysNotifyPump type\<rparr>"

definition CalculateDelayedRuntime :: "time_ticks \<Rightarrow> time_delta \<Rightarrow> time_ticks result" where
  "CalculateDelayedRuntime now delay =
     (if delay > 0 then Inr (ticks_plus now delay)
      else require (InMilliseconds delay = 0) (Dcheck ''delay should not be negative'') (Inr 0))"

text \<open>The result, whether the loop was told to schedule work, the task as left behind, the queue.\<close>

definition PostPendingTask ::
  "'c pending_task \<Rightarrow> 'c incoming_task_queue \<Rightarrow> bool \<times> bool \<times> 'c pending_task \<times> 'c incoming_task_queue"
where
  "PostPendingTask pending_task q =
     (if \<not> message_loop_alive q then (False, False, pending_task\<lparr>task := None\<rparr>, q)
      else
        let pt = pending_task\<lparr>sequence_num := next_sequence_num q\<rparr>;
            q1 = q\<lparr>next_sequence_num := next_sequence_num q + 1\<rparr>;
            was_empty = (incoming_queue q1 = []);
            q2 = q1\<lparr>incoming_queue := incoming_queue q1 @ [pt]\<rparr>;
            pt' = pt\<lparr>task := None\<rparr>
        in if always_schedule_work q2 \<or> (\<not> message_loop_scheduled q2 \<and> was_empty)
           then (True, True, pt', q2\<lparr>message_loop_scheduled := True\<rparr>)
           else (True, False, pt', q2))"

definition AddToIncomingQueue ::
  "time_ticks \<Rightarrow> string \<Rightarrow> 'c option \<Rightarrow> time_delta \<Rightarrow> bool \<Rightarrow> 'c incoming_task_queue \<Rightarrow>
   (bool \<times> bool \<times> 'c incoming_task_queue) result"
where
  "AddToIncomingQueue now from_here t delay nest q =
     rbind (CalculateDelayedRuntime now delay) (\<lambda>run_time.
       let pt = PendingTask from_here t run_time nest;
           high_res = (delay > 0 \<and> InMilliseconds delay < 2 * kMinLowResolutionThresholdMs);
           q1 = (if high_res then q\<lparr>high_res_task_count := high_res_task_count q + 1\<rparr> else q);
           pt1 = (if high_res then pt\<lparr>is_high_res := True\<rparr> else pt);
           (ok, woke, _, q2) = PostPendingTask pt1 q1
       in Inr (ok, woke, q2))"

definition HasHighResolutionTasks :: "'c incoming_task_queue \<Rightarrow> bool" where
  "HasHighResolutionTasks q \<longleftrightarrow> high_res_task_count q > 0"

definition IsIdleForTesting :: "'c incoming_task_queue \<Rightarrow> bool" where
  "IsIdleForTesting q \<longleftrightarrow> incoming_queue q = []"

definition itq_ReloadWorkQueue ::
  "'c task_queue \<Rightarrow> 'c incoming_task_queue \<Rightarrow> (int \<times> 'c task_queue \<times> 'c incoming_task_queue) result"
where
  "itq_ReloadWorkQueue work_queue q =
     require (work_queue = []) (Dcheck ''work_queue->empty()'')
       (let (q1, work_queue') =
              (if incoming_queue q = [] then (q\<lparr>message_loop_scheduled := False\<rparr>, work_queue)
               else let (inq, wq) = TaskQueue_Swap (incoming_queue q) work_queue
                    in (q\<lparr>incoming_queue := inq\<rparr>, wq));
            high_res_tasks = high_res_task_count q1
        in Inr (high_res_tasks, work_queue', q1\<lparr>high_res_task_count := 0\<rparr>))"

definition itq_WillDestroyCurrentMessageLoop :: "'c incoming_task_queue \<Rightarrow> 'c incoming_task_queue" where
  "itq_WillDestroyCurrentMessageLoop q = q\<lparr>message_loop_alive := False\<rparr>"

text \<open>The constructor and destructor obligations of the class.\<close>

definition itq_destroy :: "'c incoming_task_queue \<Rightarrow> unit result" where
  "itq_destroy q = require (\<not> message_loop_alive q) (Dcheck ''!message_loop_'') (Inr ())"

subsection \<open>What a post does\<close>

definition delayed_time_of :: "time_ticks \<Rightarrow> time_delta \<Rightarrow> time_ticks" where
  "delayed_time_of now delay = (if delay > 0 then ticks_plus now delay else 0)"

definition needs_high_res :: "time_delta \<Rightarrow> bool" where
  "needs_high_res delay \<longleftrightarrow> delay > 0 \<and> InMilliseconds delay < 32"

definition queued_task ::
  "time_ticks \<Rightarrow> string \<Rightarrow> 'c option \<Rightarrow> time_delta \<Rightarrow> bool \<Rightarrow> 32 word \<Rightarrow> 'c pending_task"
where
  "queued_task now from_here t delay nest n =
     \<lparr>task = t, posted_from = from_here, delayed_run_time = delayed_time_of now delay,
      sequence_num = n, nestable = nest, is_high_res = needs_high_res delay\<rparr>"

lemma AddToIncomingQueue_cases:
  "AddToIncomingQueue now fh t delay nest q =
     (if 0 < delay \<or> InMilliseconds delay = 0 then
        Inr (message_loop_alive q,
             message_loop_alive q \<and> (always_schedule_work q \<or> \<not> message_loop_scheduled q \<and> incoming_queue q = []),
             q\<lparr>high_res_task_count := high_res_task_count q + (if needs_high_res delay then 1 else 0),
               next_sequence_num := next_sequence_num q + (if message_loop_alive q then 1 else 0),
               incoming_queue := incoming_queue q @
                 (if message_loop_alive q then [queued_task now fh t delay nest (next_sequence_num q)] else []),
               message_loop_scheduled := message_loop_scheduled q \<or>
                 message_loop_alive q \<and> (always_schedule_work q \<or> incoming_queue q = [])\<rparr>)
      else Inl (Dcheck ''delay should not be negative''))"
  by (cases q)
    (auto simp: AddToIncomingQueue_def CalculateDelayedRuntime_def PostPendingTask_def PendingTask_def
      queued_task_def delayed_time_of_def needs_high_res_def kMinLowResolutionThresholdMs_def Let_def
      rbind_def require_def)

text \<open>
  Posting a task succeeds exactly when the message loop still exists; then the task is
  appended, numbered with the queue's counter, with its run time the current time plus the
  delay (null for no delay) and the high-resolution mark for delays below 32 ms, and the loop is
  woken exactly when the queue was empty and no wake-up was outstanding. After the loop is gone
  the queue and the counter stay as they are. A negative delay of a millisecond or more is
  refused by the assertion.
\<close>

theorem AddToIncomingQueue_correct:
  assumes "\<not> always_schedule_work q" "0 \<le> delay"
  shows "\<exists>q'. AddToIncomingQueue now fh t delay nest q =
      Inr (message_loop_alive q,
           message_loop_alive q \<and> \<not> message_loop_scheduled q \<and> incoming_queue q = [], q') \<and>
    incoming_queue q' = (if message_loop_alive q
      then incoming_queue q @ [queued_task now fh t delay nest (next_sequence_num q)]
      else incoming_queue q) \<and>
    next_sequence_num q' = (if message_loop_alive q then next_sequence_num q + 1 else next_sequence_num q) \<and>
    message_loop_alive q' = message_loop_alive q"
  using assms
  by (auto simp: AddToIncomingQueue_cases InMilliseconds_def delta_is_max_def kMicrosecondsPerMillisecond_def
      sdiv_nonneg)

theorem AddToIncomingQueue_correct_witness:
  "\<exists>q'. AddToIncomingQueue 100 ''here'' (Some True) 20 True (IncomingTaskQueue TYPE_UI) = Inr (True, True, q') \<and>
     incoming_queue q' = [queued_task 100 ''here'' (Some True) 20 True 0]"
  using AddToIncomingQueue_correct [of "IncomingTaskQueue TYPE_UI" 20 100 "''here''" "Some True" True]
  by (auto simp: IncomingTaskQueue_def AlwaysNotifyPump_def)

subsection \<open>Posting threads and the loop's thread\<close>

text \<open>
  The queue between any number of posting threads and the one thread that runs the loop. The
  loop thread reloads only when its work queue is empty; when a reload brings nothing it will
  wait for the next wake-up. \<open>hist\<close> records the tasks accepted so far and \<open>taken\<close> those the loop
  has removed from its work queue.
\<close>

record 'c itq_sys =
  itq :: "'c incoming_task_queue"
  work :: "'c task_queue"
  waiting :: bool
  taken :: "'c task_queue"
  hist :: "'c task_queue"

definition itq_init :: "'c itq_sys \<Rightarrow> bool" where
  "itq_init s \<longleftrightarrow> (\<exists>type. s = \<lparr>itq = IncomingTaskQueue type, work = [], waiting = False, taken = [], hist = []\<rparr>)"

inductive itq_step :: "'c itq_sys \<Rightarrow> 'c itq_sys \<Rightarrow> bool" where
  post: "AddToIncomingQueue now fh t delay nest (itq s) = Inr (ok, woke, q') \<Longrightarrow>
    itq_step s (s\<lparr>itq := q', waiting := waiting s \<and> \<not> woke,
      hist := hist s @ drop (length (incoming_queue (itq s))) (incoming_queue q')\<rparr>)"
| reload: "\<not> waiting s \<Longrightarrow> work s = [] \<Longrightarrow>
    itq_ReloadWorkQueue (work s) (itq s) = Inr (n, wq, q') \<Longrightarrow>
    itq_step s (s\<lparr>itq := q', work := wq, waiting := (wq = [])\<rparr>)"
| take: "\<not> waiting s \<Longrightarrow> work s = pt # rest \<Longrightarrow>
    itq_step s (s\<lparr>work := rest, taken := taken s @ [pt]\<rparr>)"
| destroy: "itq_step s (s\<lparr>itq := itq_WillDestroyCurrentMessageLoop (itq s)\<rparr>)"

definition itq_inv :: "'c itq_sys \<Rightarrow> bool" where
  "itq_inv s \<longleftrightarrow>
     \<not> always_schedule_work (itq s) \<and>
     hist s = taken s @ work s @ incoming_queue (itq s) \<and>
     map sequence_num (hist s) = map of_nat [0..<length (hist s)] \<and>
     next_sequence_num (itq s) = of_nat (length (hist s)) \<and>
     (incoming_queue (itq s) \<noteq> [] \<longrightarrow> message_loop_scheduled (itq s)) \<and>
     (waiting s \<longrightarrow> work s = [] \<and> \<not> message_loop_scheduled (itq s))"

lemma itq_inv_init: "itq_init s \<Longrightarrow> itq_inv s"
  by (auto simp: itq_init_def itq_inv_def IncomingTaskQueue_def AlwaysNotifyPump_def)

lemma itq_inv_post:
  assumes i: "itq_inv s" and a: "AddToIncomingQueue now fh t delay nest (itq s) = Inr (ok, woke, q')"
  shows "itq_inv (s\<lparr>itq := q', waiting := waiting s \<and> \<not> woke,
      hist := hist s @ drop (length (incoming_queue (itq s))) (incoming_queue q')\<rparr>)"
  using a i by (auto simp: AddToIncomingQueue_cases itq_inv_def queued_task_def split: if_splits)

lemma itq_inv_reload:
  assumes i: "itq_inv s" and a: "itq_ReloadWorkQueue (work s) (itq s) = Inr (n, wq, q')" "work s = []"
  shows "itq_inv (s\<lparr>itq := q', work := wq, waiting := (wq = [])\<rparr>)"
  using a i
  by (cases "incoming_queue (itq s) = []")
    (auto simp: itq_ReloadWorkQueue_def TaskQueue_Swap_def itq_inv_def)

lemma itq_inv_step: "itq_inv s \<Longrightarrow> itq_step s t \<Longrightarrow> itq_inv t"
proof (erule itq_step.cases)
  fix s0 now fh ta delay nest ok woke q'
  assume "itq_inv s" "s = s0" "t = s0\<lparr>itq := q', waiting := waiting s0 \<and> \<not> woke,
      hist := hist s0 @ drop (length (incoming_queue (itq s0))) (incoming_queue q')\<rparr>"
    "AddToIncomingQueue now fh ta delay nest (itq s0) = Inr (ok, woke, q')"
  then show ?thesis using itq_inv_post by blast
next
  fix s0 n wq q'
  assume "itq_inv s" "s = s0" "t = s0\<lparr>itq := q', work := wq, waiting := (wq = [])\<rparr>"
    "work s0 = []" "itq_ReloadWorkQueue (work s0) (itq s0) = Inr (n, wq, q')"
  then show ?thesis using itq_inv_reload by blast
qed (auto simp: itq_inv_def itq_WillDestroyCurrentMessageLoop_def)

interpretation itq: inductive_invariant itq_init itq_step itq_inv
  by unfold_locales (auto intro: itq_inv_init itq_inv_step)

text \<open>
  C1: no wake-up is lost and tasks arrive in order. Whatever way posting threads interleave
  with the loop's thread, a loop that waits for a wake-up has nothing to do (its work queue and
  the incoming queue are empty), and the tasks removed so far, followed by those in the work
  queue and in the incoming queue, are exactly the accepted tasks in the order of acceptance,
  numbered consecutively from 0 modulo \<open>2 ^ 32\<close>.
\<close>

theorem no_lost_wakeup_and_fifo:
  assumes "reach itq_init itq_step s"
  shows "(waiting s \<longrightarrow> work s = [] \<and> incoming_queue (itq s) = []) \<and>
    hist s = taken s @ work s @ incoming_queue (itq s) \<and>
    map sequence_num (hist s) = map of_nat [0..<length (hist s)]"
  using itq.inv_reach [OF assms] by (auto simp: itq_inv_def)

theorem no_lost_wakeup_and_fifo_witness:
  "\<exists>s :: bool itq_sys. length (hist s) = 1 \<and> (waiting s \<longrightarrow> work s = [] \<and> incoming_queue (itq s) = []) \<and>
    hist s = taken s @ work s @ incoming_queue (itq s) \<and>
    map sequence_num (hist s) = map of_nat [0..<length (hist s)]"
proof -
  define s :: "bool itq_sys" where
    "s = \<lparr>itq = IncomingTaskQueue TYPE_UI, work = [], waiting = False, taken = [], hist = []\<rparr>"
  obtain q' where a: "AddToIncomingQueue 100 ''here'' (Some True) 20 True (itq s) = Inr (True, True, q')"
    and q: "incoming_queue q' = [queued_task 100 ''here'' (Some True) 20 True 0]"
    by (auto simp: s_def AddToIncomingQueue_cases IncomingTaskQueue_def AlwaysNotifyPump_def)
  have "reach itq_init itq_step s" by (rule reach_init) (auto simp: itq_init_def s_def)
  note r = reach_step [OF this itq_step.post [where s = s, OF a]]
  show ?thesis
    by (rule exI, rule conjI [OF _ no_lost_wakeup_and_fifo [OF r]])
      (simp add: q s_def IncomingTaskQueue_def)
qed

end
