(* ===== verification/Message_Loop.thy ===== *)
theory Message_Loop
  imports Incoming_Task_Queue
begin

text \<open>
  \<^verbatim>\<open>base/message_loop/message_loop.cc\<close>, \<^verbatim>\<open>message_loop_proxy_impl.cc\<close> and \<^verbatim>\<open>base/run_loop.cc\<close>: the
  message loop of a thread, its queues, the three work functions a message pump calls, run loops
  and destruction. The state is that of the loop's own thread, on which every operation here is
  called (the \<^verbatim>\<open>DCHECK_EQ(this, current())\<close> assertions hold by construction). Run loop objects are
  kept in a store and named by number. Calls of the message pump are recorded in order in
  \<open>pump_calls\<close>, executed tasks in \<open>ran\<close>.

  What closures, task observers and destruction observers do is not code of the loop: they are
  functions of the environment record, on the state of the loop. So is what deleting a closure
  posts (\<^verbatim>\<open>DeleteSoon\<close> from a destructor), as a function on the incoming queue.
\<close>

subsection \<open>State\<close>

record run_loop =
  previous_run_loop :: "nat option"
  run_depth :: int
  run_called :: bool
  quit_called :: bool
  running :: bool
  quit_when_idle_received :: bool

datatype pump_call = Pump_ScheduleWork | Pump_ScheduleDelayedWork time_ticks | Pump_Quit
  | ActivateHighResolutionTimer bool

record 'c message_loop =
  loop_type :: loop_type
  incoming :: "'c incoming_task_queue"
  work_queue :: "'c task_queue"
  delayed_work_queue :: "'c delayed_task_queue"
  deferred_non_nestable_work_queue :: "'c task_queue"
  recent_time :: time_ticks
  pending_high_res_tasks :: int
  in_high_res_mode :: bool
  nestable_tasks_allowed :: bool
  current_run_loop :: "nat option"
  run_loops :: "nat \<Rightarrow> run_loop"
  pump_calls :: "pump_call list"
  ran :: "'c task_queue"

record 'c loop_env =
  run_closure :: "'c \<Rightarrow> 'c message_loop \<Rightarrow> 'c message_loop result"
  will_process_task :: "'c pending_task \<Rightarrow> 'c message_loop \<Rightarrow> 'c message_loop result"
  did_process_task :: "'c pending_task \<Rightarrow> 'c message_loop \<Rightarrow> 'c message_loop result"
  will_destroy_loop :: "'c message_loop \<Rightarrow> 'c message_loop"
  closure_deleted :: "'c option \<Rightarrow> 'c incoming_task_queue \<Rightarrow> 'c incoming_task_queue"

definition RunLoop :: run_loop where
  "RunLoop = \<lparr>previous_run_loop = None, run_depth = 0, run_called = False, quit_called = False,
     running = False, quit_when_idle_received = False\<rparr>"

definition MessageLoop :: "loop_type \<Rightarrow> 'c message_loop" where
  "MessageLoop type =
     \<lparr>loop_type = type, incoming = IncomingTaskQueue type, work_queue = [], delayed_work_queue = [],
      deferred_non_nestable_work_queue = [], recent_time = 0, pending_high_res_tasks = 0,
      in_high_res_mode = False, nestable_tasks_allowed = True, current_run_loop = None,
      run_loops = (\<lambda>_. RunLoop), pump_calls = [], ran = []\<rparr>"

definition call_pump :: "pump_call \<Rightarrow> 'c message_loop \<Rightarrow> 'c message_loop" where
  "call_pump c l = l\<lparr>pump_calls := pump_calls l @ [c]\<rparr>"

definition ml_ScheduleWork :: "'c message_loop \<Rightarrow> 'c message_loop" where
  "ml_ScheduleWork l = call_pump Pump_ScheduleWork l"

subsection \<open>Posting\<close>

definition proxy_Post ::
  "bool \<Rightarrow> time_ticks \<Rightarrow> string \<Rightarrow> 'c option \<Rightarrow> time_delta \<Rightarrow> 'c message_loop \<Rightarrow> (bool \<times> 'c message_loop) result"
where
  "proxy_Post nest now from_here t delay l =
     require (t \<noteq> None) (Dcheck ''!task.is_null()'')
       (rbind (AddToIncomingQueue now from_here t delay nest (incoming l)) (\<lambda>(ok, woke, q).
          let l1 = l\<lparr>incoming := q\<rparr> in Inr (ok, if woke then ml_ScheduleWork l1 else l1)))"

definition ml_PostDelayedTask ::
  "time_ticks \<Rightarrow> string \<Rightarrow> 'c option \<Rightarrow> time_delta \<Rightarrow> 'c message_loop \<Rightarrow> (bool \<times> 'c message_loop) result"
where "ml_PostDelayedTask = proxy_Post True"

definition ml_PostNonNestableDelayedTask ::
  "time_ticks \<Rightarrow> string \<Rightarrow> 'c option \<Rightarrow> time_delta \<Rightarrow> 'c message_loop \<Rightarrow> (bool \<times> 'c message_loop) result"
where "ml_PostNonNestableDelayedTask = proxy_Post False"

definition ml_PostTask ::
  "time_ticks \<Rightarrow> string \<Rightarrow> 'c option \<Rightarrow> 'c message_loop \<Rightarrow> (bool \<times> 'c message_loop) result"
where "ml_PostTask now from_here t = ml_PostDelayedTask now from_here t 0"

definition ml_PostNonNestableTask ::
  "time_ticks \<Rightarrow> string \<Rightarrow> 'c option \<Rightarrow> 'c message_loop \<Rightarrow> (bool \<times> 'c message_loop) result"
where "ml_PostNonNestableTask now from_here t = ml_PostNonNestableDelayedTask now from_here t 0"

definition DeleteSoonInternal ::
  "time_ticks \<Rightarrow> string \<Rightarrow> 'c \<Rightarrow> 'c message_loop \<Rightarrow> (bool \<times> 'c message_loop) result"
where "DeleteSoonInternal now from_here deleter = ml_PostNonNestableTask now from_here (Some deleter)"

subsection \<open>Run loop access\<close>

definition inner_run_loop :: "'c message_loop \<Rightarrow> run_loop result" where
  "inner_run_loop l = (case current_run_loop l of None \<Rightarrow> Inl (Null_deref ''run_loop_'') | Some r \<Rightarrow> Inr (run_loops l r))"

definition ml_QuitWhenIdle :: "'c message_loop \<Rightarrow> 'c message_loop result" where
  "ml_QuitWhenIdle l =
     (case current_run_loop l of
        Some r \<Rightarrow> Inr (l\<lparr>run_loops := (run_loops l)(r := (run_loops l r)\<lparr>quit_when_idle_received := True\<rparr>)\<rparr>)
      | None \<Rightarrow> Inl (Dcheck ''Must be inside Run to call Quit''))"

definition ml_QuitNow :: "'c message_loop \<Rightarrow> 'c message_loop result" where
  "ml_QuitNow l =
     (case current_run_loop l of
        Some r \<Rightarrow> Inr (call_pump Pump_Quit l)
      | None \<Rightarrow> Inl (Dcheck ''Must be inside Run to call Quit''))"

definition IsNested :: "'c message_loop \<Rightarrow> bool result" where
  "IsNested l = rbind (inner_run_loop l) (\<lambda>r. Inr (run_depth r > 1))"

definition is_running :: "'c message_loop \<Rightarrow> bool" where
  "is_running l \<longleftrightarrow> current_run_loop l \<noteq> None"

definition SetNestableTasksAllowed :: "bool \<Rightarrow> 'c message_loop \<Rightarrow> 'c message_loop" where
  "SetNestableTasksAllowed allowed l =
     (if allowed then call_pump Pump_ScheduleWork l else l)\<lparr>nestable_tasks_allowed := allowed\<rparr>"

subsection \<open>Running tasks\<close>

definition annotator_RunTask ::
  "'c loop_env \<Rightarrow> 'c pending_task \<Rightarrow> 'c message_loop \<Rightarrow> 'c message_loop result"
where
  "annotator_RunTask env pt l =
     (case task pt of
        None \<Rightarrow> Inl (Null_deref ''pending_task.task'')
      | Some c \<Rightarrow> run_closure env c (l\<lparr>ran := ran l @ [pt]\<rparr>))"

definition RunTask :: "'c loop_env \<Rightarrow> 'c pending_task \<Rightarrow> 'c message_loop \<Rightarrow> 'c message_loop result" where
  "RunTask env pt l =
     require (nestable_tasks_allowed l) (Dcheck ''nestable_tasks_allowed_'')
       (let l1 = (if is_high_res pt then l\<lparr>pending_high_res_tasks := pending_high_res_tasks l - 1\<rparr> else l)
        in require (is_high_res pt \<longrightarrow> pending_high_res_tasks l1 \<ge> 0) (Check ''pending_high_res_tasks_ >= 0'')
          (rbind (will_process_task env pt (l1\<lparr>nestable_tasks_allowed := False\<rparr>)) (\<lambda>l2.
           rbind (annotator_RunTask env pt l2) (\<lambda>l3.
           rbind (did_process_task env pt l3) (\<lambda>l4.
           Inr (l4\<lparr>nestable_tasks_allowed := True\<rparr>))))))"

definition DeferOrRunPendingTask ::
  "'c loop_env \<Rightarrow> 'c pending_task \<Rightarrow> 'c message_loop \<Rightarrow> (bool \<times> 'c message_loop) result"
where
  "DeferOrRunPendingTask env pt l =
     rbind (if nestable pt then Inr True else rbind (inner_run_loop l) (\<lambda>r. Inr (run_depth r = 1)))
       (\<lambda>now. if now then rbind (RunTask env pt l) (\<lambda>l1. Inr (True, l1))
         else Inr (False, l\<lparr>deferred_non_nestable_work_queue := deferred_non_nestable_work_queue l @ [pt]\<rparr>))"

definition AddToDelayedWorkQueue :: "'c pending_task \<Rightarrow> 'c message_loop \<Rightarrow> 'c message_loop" where
  "AddToDelayedWorkQueue pt l = l\<lparr>delayed_work_queue := dq_push pt (delayed_work_queue l)\<rparr>"

definition ProcessNextDelayedNonNestableTask ::
  "'c loop_env \<Rightarrow> 'c message_loop \<Rightarrow> (bool \<times> 'c message_loop) result"
where
  "ProcessNextDelayedNonNestableTask env l =
     rbind (inner_run_loop l) (\<lambda>r.
       if run_depth r \<noteq> 1 then Inr (False, l)
       else case deferred_non_nestable_work_queue l of
         [] \<Rightarrow> Inr (False, l)
       | pt # rest \<Rightarrow>
           rbind (RunTask env pt (l\<lparr>deferred_non_nestable_work_queue := rest\<rparr>)) (\<lambda>l1. Inr (True, l1)))"

definition ReloadWorkQueue :: "'c message_loop \<Rightarrow> 'c message_loop result" where
  "ReloadWorkQueue l =
     (if work_queue l = [] then
        rbind (itq_ReloadWorkQueue (work_queue l) (incoming l)) (\<lambda>(n, wq, q).
          Inr (l\<lparr>work_queue := wq, incoming := q, pending_high_res_tasks := pending_high_res_tasks l + n\<rparr>))
      else Inr l)"

lemma DeferOrRun_deferred:
  "DeferOrRunPendingTask env pt l = Inr (False, l') \<Longrightarrow>
     l' = l\<lparr>deferred_non_nestable_work_queue := deferred_non_nestable_work_queue l @ [pt]\<rparr> \<and> \<not> nestable pt"
  by (auto simp: DeferOrRunPendingTask_def rsimps split: if_splits)

text \<open>The inner loop of \<^verbatim>\<open>DoWork\<close>, over the tasks of the work queue.\<close>

function DoWork_queue :: "'c loop_env \<Rightarrow> 'c message_loop \<Rightarrow> (bool \<times> 'c message_loop) result" where
  "DoWork_queue env l =
     (case work_queue l of
        [] \<Rightarrow> Inr (False, l)
      | pt # rest \<Rightarrow>
          let l1 = l\<lparr>work_queue := rest\<rparr> in
          if \<not> ticks_is_null (delayed_run_time pt) then
            let l2 = AddToDelayedWorkQueue pt l1;
                l3 = (if task (hd (delayed_work_queue l2)) = task pt
                      then call_pump (Pump_ScheduleDelayedWork (delayed_run_time pt)) l2 else l2)
            in DoWork_queue env l3
          else
            rbind (DeferOrRunPendingTask env pt l1) (\<lambda>(ran, l2).
              if ran then Inr (True, l2) else DoWork_queue env l2))"
  by pat_completeness auto

termination
  by (relation "measure (\<lambda>(env, l). length (work_queue l))")
    (auto simp: AddToDelayedWorkQueue_def call_pump_def Let_def dest!: DeferOrRun_deferred split: if_splits)

declare DoWork_queue.simps [simp del]

lemma DoWork_queue_exhausted:
  "DoWork_queue env l = Inr (False, l') \<Longrightarrow> work_queue l' = [] \<and> incoming l' = incoming l"
proof (induction env l rule: DoWork_queue.induct)
  case (1 env l)
  show ?case
  proof (cases "work_queue l")
    case Nil
    with "1.prems" show ?thesis by (simp add: DoWork_queue.simps)
  next
    case (Cons pt rest)
    show ?thesis
    proof (cases "ticks_is_null (delayed_run_time pt)")
      case True
      then show ?thesis using "1.prems" Cons "1.IH"(2) [OF Cons refl]
        by (subst (asm) DoWork_queue.simps)
          (auto simp: rsimps split: if_splits dest!: DeferOrRun_deferred)
    next
      case False
      then show ?thesis using "1.prems" Cons "1.IH"(1) [OF Cons refl _ refl refl]
        by (subst (asm) DoWork_queue.simps)
          (auto simp: Let_def AddToDelayedWorkQueue_def call_pump_def split: if_splits)
    qed
  qed
qed

lemma ReloadWorkQueue_cases:
  "ReloadWorkQueue l = Inr
     (if work_queue l = [] then
        l\<lparr>work_queue := incoming_queue (incoming l),
          incoming := (incoming l)\<lparr>incoming_queue := [], high_res_task_count := 0,
            message_loop_scheduled := message_loop_scheduled (incoming l) \<and> incoming_queue (incoming l) \<noteq> []\<rparr>,
          pending_high_res_tasks := pending_high_res_tasks l + high_res_task_count (incoming l)\<rparr>
      else l)"
  by (cases "incoming l")
    (auto simp: ReloadWorkQueue_def itq_ReloadWorkQueue_def TaskQueue_Swap_def)

text \<open>The outer loop: reload, process the work queue, until a task ran or both queues are empty.\<close>

function DoWork_loop :: "'c loop_env \<Rightarrow> 'c message_loop \<Rightarrow> (bool \<times> 'c message_loop) result" where
  "DoWork_loop env l =
     rbind (ReloadWorkQueue l) (\<lambda>l1.
       if work_queue l1 = [] then Inr (False, l1)
       else rbind (DoWork_queue env l1) (\<lambda>(ran, l2).
         if ran then Inr (True, l2) else DoWork_loop env l2))"
  by pat_completeness auto

termination
  by (relation "measure (\<lambda>(env, l). length (work_queue l) + length (incoming_queue (incoming l)))")
    (auto simp: ReloadWorkQueue_cases dest!: DoWork_queue_exhausted split: if_splits)

declare DoWork_loop.simps [simp del]

definition DoWork :: "'c loop_env \<Rightarrow> 'c message_loop \<Rightarrow> (bool \<times> 'c message_loop) result" where
  "DoWork env l = (if \<not> nestable_tasks_allowed l then Inr (False, l) else DoWork_loop env l)"

text \<open>
  \<^verbatim>\<open>DoDelayedWork\<close> at the time \<open>now\<close>. The out parameter \<^verbatim>\<open>*next_delayed_work_time\<close> is passed in, as
  one path leaves it unchanged, and returned.
\<close>

definition DoDelayedWork ::
  "'c loop_env \<Rightarrow> time_ticks \<Rightarrow> time_ticks \<Rightarrow> 'c message_loop \<Rightarrow> (bool \<times> time_ticks \<times> 'c message_loop) result"
where
  "DoDelayedWork env now next l =
     (if \<not> nestable_tasks_allowed l \<or> delayed_work_queue l = [] then Inr (False, 0, l\<lparr>recent_time := 0\<rparr>)
      else
        let next_run_time = delayed_run_time (hd (delayed_work_queue l));
            l1 = (if next_run_time > recent_time l then l\<lparr>recent_time := now\<rparr> else l)
        in if next_run_time > recent_time l1 then Inr (False, next_run_time, l1)
           else
             let pt = hd (delayed_work_queue l1);
                 l2 = l1\<lparr>delayed_work_queue := tl (delayed_work_queue l1)\<rparr>;
                 next' = (case delayed_work_queue l2 of [] \<Rightarrow> next | t # _ \<Rightarrow> delayed_run_time t)
             in rbind (DeferOrRunPendingTask env pt l2) (\<lambda>(ran, l3). Inr (ran, next', l3)))"

definition DoIdleWork :: "'c loop_env \<Rightarrow> 'c message_loop \<Rightarrow> (bool \<times> 'c message_loop) result" where
  "DoIdleWork env l =
     rbind (ProcessNextDelayedNonNestableTask env l) (\<lambda>(ran, l1).
       if ran then Inr (True, l1)
       else rbind (inner_run_loop l1) (\<lambda>r.
         let l2 = (if quit_when_idle_received r then call_pump Pump_Quit l1 else l1);
             high_res = (pending_high_res_tasks l2 > 0);
             l3 = (if high_res \<noteq> in_high_res_mode l2
                   then call_pump (ActivateHighResolutionTimer high_res) (l2\<lparr>in_high_res_mode := high_res\<rparr>)
                   else l2)
         in Inr (False, l3)))"

subsection \<open>Destruction\<close>

definition delete_task :: "'c loop_env \<Rightarrow> 'c pending_task \<Rightarrow> 'c message_loop \<Rightarrow> 'c message_loop" where
  "delete_task env pt l = l\<lparr>incoming := closure_deleted env (task pt) (incoming l)\<rparr>"

definition DeletePendingTasks :: "'c loop_env \<Rightarrow> 'c message_loop \<Rightarrow> bool \<times> 'c message_loop" where
  "DeletePendingTasks env l =
     (let did_work = (work_queue l \<noteq> []);
          l1 = fold (\<lambda>pt l. if \<not> ticks_is_null (delayed_run_time pt)
                             then AddToDelayedWorkQueue pt l else delete_task env pt l)
                 (work_queue l) (l\<lparr>work_queue := []\<rparr>);
          did_work = (did_work \<or> deferred_non_nestable_work_queue l1 \<noteq> []);
          l2 = fold (delete_task env) (deferred_non_nestable_work_queue l1)
                 (l1\<lparr>deferred_non_nestable_work_queue := []\<rparr>);
          did_work = (did_work \<or> delayed_work_queue l2 \<noteq> []);
          l3 = fold (delete_task env) (delayed_work_queue l2) (l2\<lparr>delayed_work_queue := []\<rparr>)
      in (did_work, l3))"

text \<open>The clean-up loop of the destructor makes at most the given number of passes (100 in the code).\<close>

fun delete_passes :: "nat \<Rightarrow> 'c loop_env \<Rightarrow> bool \<Rightarrow> 'c message_loop \<Rightarrow> (bool \<times> 'c message_loop) result" where
  "delete_passes 0 env did_work l = Inr (did_work, l)"
| "delete_passes (Suc i) env did_work l =
     rbind (ReloadWorkQueue (snd (DeletePendingTasks env l))) (\<lambda>l1.
       let (did, l2) = DeletePendingTasks env l1
       in if \<not> did then Inr (did, l2) else delete_passes i env did l2)"

definition DestroyMessageLoop :: "'c loop_env \<Rightarrow> 'c message_loop \<Rightarrow> 'c message_loop result" where
  "DestroyMessageLoop env l =
     require (current_run_loop l = None) (Dcheck ''!run_loop_'')
       (let l1 = (if in_high_res_mode l then call_pump (ActivateHighResolutionTimer False) l else l)
        in rbind (delete_passes 100 env True l1) (\<lambda>(did_work, l2).
          require (\<not> did_work) (Dcheck ''!did_work'')
            (let l3 = will_destroy_loop env l2
             in Inr (l3\<lparr>incoming := itq_WillDestroyCurrentMessageLoop (incoming l3)\<rparr>))))"

subsection \<open>Run loops\<close>

abbreviation upd_run_loop :: "nat \<Rightarrow> (run_loop \<Rightarrow> run_loop) \<Rightarrow> 'c message_loop \<Rightarrow> 'c message_loop" where
  "upd_run_loop r f l \<equiv> l\<lparr>run_loops := (run_loops l)(r := f (run_loops l r))\<rparr>"

definition BeforeRun :: "nat \<Rightarrow> 'c message_loop \<Rightarrow> (bool \<times> 'c message_loop) result" where
  "BeforeRun r l =
     require (\<not> run_called (run_loops l r)) (Dcheck ''!run_called_'')
       (let l1 = upd_run_loop r (\<lambda>x. x\<lparr>run_called := True\<rparr>) l
        in if quit_called (run_loops l1 r) then Inr (False, l1)
           else
             let prev = current_run_loop l1;
                 depth = (case prev of Some p \<Rightarrow> run_depth (run_loops l1 p) + 1 | None \<Rightarrow> 1);
                 l2 = upd_run_loop r (\<lambda>x. x\<lparr>previous_run_loop := prev, run_depth := depth\<rparr>) l1;
                 l3 = l2\<lparr>current_run_loop := Some r\<rparr>
             in Inr (True, upd_run_loop r (\<lambda>x. x\<lparr>running := True\<rparr>) l3))"

definition AfterRun :: "nat \<Rightarrow> 'c message_loop \<Rightarrow> 'c message_loop result" where
  "AfterRun r l =
     (let l1 = upd_run_loop r (\<lambda>x. x\<lparr>running := False\<rparr>) l;
          prev = previous_run_loop (run_loops l1 r);
          l2 = l1\<lparr>current_run_loop := prev\<rparr>
      in case prev of
           Some p \<Rightarrow> if quit_called (run_loops l2 p) then ml_QuitNow l2 else Inr l2
         | None \<Rightarrow> Inr l2)"

text \<open>\<^verbatim>\<open>MessagePump::Run\<close> is a parameter: what the pump does between \<^verbatim>\<open>BeforeRun\<close> and \<^verbatim>\<open>AfterRun\<close>.\<close>

definition RunLoop_Run ::
  "('c message_loop \<Rightarrow> 'c message_loop result) \<Rightarrow> nat \<Rightarrow> 'c message_loop \<Rightarrow> 'c message_loop result"
where
  "RunLoop_Run pump_Run r l =
     rbind (BeforeRun r l) (\<lambda>(go, l1). if \<not> go then Inr l1 else rbind (pump_Run l1) (AfterRun r))"

definition RunLoop_RunUntilIdle ::
  "('c message_loop \<Rightarrow> 'c message_loop result) \<Rightarrow> nat \<Rightarrow> 'c message_loop \<Rightarrow> 'c message_loop result"
where
  "RunLoop_RunUntilIdle pump_Run r l =
     RunLoop_Run pump_Run r (upd_run_loop r (\<lambda>x. x\<lparr>quit_when_idle_received := True\<rparr>) l)"

definition RunLoop_Quit :: "nat \<Rightarrow> 'c message_loop \<Rightarrow> 'c message_loop result" where
  "RunLoop_Quit r l =
     (let l1 = upd_run_loop r (\<lambda>x. x\<lparr>quit_called := True\<rparr>) l
      in if running (run_loops l1 r) \<and> current_run_loop l1 = Some r then ml_QuitNow l1 else Inr l1)"

end
