(* ===== verification/Message_Loop_Props.thy ===== *)
theory Message_Loop_Props
  imports Message_Loop
begin

text \<open>
  What the message loop guarantees: \<^verbatim>\<open>DoWork\<close> refines one scan of the tasks in the order in which
  they were posted, delayed tasks never run early, non-nestable tasks never run in a nested loop,
  the assertions of the loop cannot fail, and destruction leaves nothing behind.
\<close>

subsection \<open>The scan that DoWork implements\<close>

definition posted :: "'c message_loop \<Rightarrow> 'c task_queue" where
  "posted l = work_queue l @ incoming_queue (incoming l)"

definition loop_depth :: "'c message_loop \<Rightarrow> int" where
  "loop_depth l = (case current_run_loop l of None \<Rightarrow> 0 | Some r \<Rightarrow> run_depth (run_loops l r))"

definition is_delayed :: "'c pending_task \<Rightarrow> bool" where
  "is_delayed pt \<longleftrightarrow> \<not> ticks_is_null (delayed_run_time pt)"

definition runs_now :: "int \<Rightarrow> 'c pending_task \<Rightarrow> bool" where
  "runs_now depth pt \<longleftrightarrow> \<not> is_delayed pt \<and> (nestable pt \<or> depth = 1)"

definition skipped :: "int \<Rightarrow> 'c task_queue \<Rightarrow> 'c task_queue" where
  "skipped depth = takeWhile (\<lambda>pt. \<not> runs_now depth pt)"

definition from_first :: "int \<Rightarrow> 'c task_queue \<Rightarrow> 'c task_queue" where
  "from_first depth = dropWhile (\<lambda>pt. \<not> runs_now depth pt)"

text \<open>\<open>set_aside l pre rest l'\<close>: \<open>l'\<close> is \<open>l\<close> after the tasks \<open>pre\<close> were set aside and \<open>rest\<close> is left.\<close>

definition set_aside :: "'c message_loop \<Rightarrow> 'c task_queue \<Rightarrow> 'c task_queue \<Rightarrow> 'c message_loop \<Rightarrow> bool" where
  "set_aside l pre rest l' \<longleftrightarrow>
     posted l' = rest \<and>
     delayed_work_queue l' = fold dq_push (filter is_delayed pre) (delayed_work_queue l) \<and>
     deferred_non_nestable_work_queue l' =
       deferred_non_nestable_work_queue l @ filter (\<lambda>pt. \<not> is_delayed pt) pre \<and>
     current_run_loop l' = current_run_loop l \<and> run_loops l' = run_loops l \<and>
     ran l' = ran l \<and> nestable_tasks_allowed l' = nestable_tasks_allowed l"

lemma set_aside_trans:
  "set_aside l pre rest l1 \<Longrightarrow> set_aside l1 pre' rest' l2 \<Longrightarrow> set_aside l (pre @ pre') rest' l2"
  by (simp add: set_aside_def)

lemma set_aside_refl: "set_aside l [] (posted l) l"
  by (simp add: set_aside_def)

lemma set_aside_depth: "set_aside l pre rest l' \<Longrightarrow> loop_depth l' = loop_depth l"
  by (simp add: set_aside_def loop_depth_def cong: option.case_cong)

lemma DeferOrRun_depth:
  "current_run_loop l = Some r \<Longrightarrow> DeferOrRunPendingTask env pt l =
     (if nestable pt \<or> loop_depth l = 1 then rbind (RunTask env pt l) (\<lambda>l1. Inr (True, l1))
      else Inr (False, l\<lparr>deferred_non_nestable_work_queue := deferred_non_nestable_work_queue l @ [pt]\<rparr>))"
  by (simp add: DeferOrRunPendingTask_def inner_run_loop_def loop_depth_def)

definition scan_result ::
  "'c loop_env \<Rightarrow> 'c message_loop \<Rightarrow> 'c task_queue \<Rightarrow> 'c task_queue \<Rightarrow> (bool \<times> 'c message_loop) result \<Rightarrow> bool"
where
  "scan_result env l tasks later res \<longleftrightarrow>
     (case from_first (loop_depth l) tasks of
        [] \<Rightarrow> (\<exists>l'. set_aside l tasks later l' \<and> res = Inr (False, l'))
      | pt # rest \<Rightarrow> (\<exists>l'. set_aside l (skipped (loop_depth l) tasks) (rest @ later) l' \<and>
          res = rbind (RunTask env pt l') (\<lambda>l''. Inr (True, l''))))"

lemma from_first_simps [simp]:
  "from_first d [] = []"
  "from_first d (pt # ts) = (if runs_now d pt then pt # ts else from_first d ts)"
  by (simp_all add: from_first_def)

lemma skipped_simps [simp]:
  "skipped d [] = []"
  "skipped d (pt # ts) = (if runs_now d pt then [] else pt # skipped d ts)"
  by (simp_all add: skipped_def)

lemma scan_result_skip:
  assumes "set_aside l [pt] (ts @ later) l1" "\<not> runs_now (loop_depth l) pt" "scan_result env l1 ts later res"
  shows "scan_result env l (pt # ts) later res"
  using assms set_aside_trans [OF assms(1)] set_aside_depth [OF assms(1)]
  by (fastforce simp: scan_result_def split: list.splits)

lemma DoWork_queue_scan:
  assumes "current_run_loop l = Some r"
  shows "scan_result env l (work_queue l) (incoming_queue (incoming l)) (DoWork_queue env l)"
  using assms
proof (induction "work_queue l" arbitrary: l)
  case Nil
  then show ?case by (auto simp: scan_result_def DoWork_queue.simps set_aside_def posted_def)
next
  case (Cons pt ts)
  let ?l1 = "l\<lparr>work_queue := ts\<rparr>"
  show ?case
  proof (cases "runs_now (loop_depth l) pt")
    case True
    have "loop_depth ?l1 = loop_depth l" by (simp add: loop_depth_def cong: option.case_cong)
    then have "DoWork_queue env l = rbind (RunTask env pt ?l1) (\<lambda>l''. Inr (True, l''))"
      using True Cons.prems DeferOrRun_depth [of ?l1 r env pt] Cons.hyps(2) [symmetric]
      by (subst DoWork_queue.simps) (auto simp: runs_now_def is_delayed_def rbind_assoc)
    moreover have "set_aside l [] (ts @ incoming_queue (incoming l)) ?l1"
      by (simp add: set_aside_def posted_def)
    ultimately show ?thesis using True Cons.hyps(2) [symmetric] by (auto simp: scan_result_def)
  next
    case False
    obtain l2 where l2: "DoWork_queue env l = DoWork_queue env l2" "work_queue l2 = ts"
      "set_aside l [pt] (ts @ incoming_queue (incoming l)) l2" "incoming l2 = incoming l"
    proof (cases "is_delayed pt")
      case True
      let ?l2 = "AddToDelayedWorkQueue pt ?l1"
      let ?l3 = "if task (hd (delayed_work_queue ?l2)) = task pt
                 then call_pump (Pump_ScheduleDelayedWork (delayed_run_time pt)) ?l2 else ?l2"
      have "DoWork_queue env l = DoWork_queue env ?l3"
        using True Cons.hyps(2) [symmetric]
        by (subst DoWork_queue.simps) (simp add: is_delayed_def Let_def)
      moreover have "set_aside l [pt] (ts @ incoming_queue (incoming l)) ?l3"
        using True by (simp add: set_aside_def posted_def AddToDelayedWorkQueue_def call_pump_def)
      ultimately show ?thesis
        using that [of ?l3] by (simp add: AddToDelayedWorkQueue_def call_pump_def)
    next
      case imm: False
      let ?l2 = "?l1\<lparr>deferred_non_nestable_work_queue := deferred_non_nestable_work_queue l @ [pt]\<rparr>"
      have "loop_depth ?l1 = loop_depth l" by (simp add: loop_depth_def cong: option.case_cong)
      then have "DoWork_queue env l = DoWork_queue env ?l2"
        using False imm Cons.prems DeferOrRun_depth [of ?l1 r env pt] Cons.hyps(2) [symmetric]
        by (subst DoWork_queue.simps) (auto simp: runs_now_def is_delayed_def)
      then show ?thesis using that [of ?l2] imm by (simp add: set_aside_def posted_def)
    qed
    have "current_run_loop l2 = Some r" using l2(3) Cons.prems by (simp add: set_aside_def)
    then have "scan_result env l2 ts (incoming_queue (incoming l)) (DoWork_queue env l2)"
      using Cons.hyps(1) [OF l2(2) [symmetric]] l2(2,4) by simp
    then show ?thesis using scan_result_skip [OF l2(3) False] l2(1) Cons.hyps(2) [symmetric] by simp
  qed
qed

lemma from_first_append:
  "from_first d (xs @ ys) = (if from_first d xs = [] then from_first d ys else from_first d xs @ ys)"
  by (induction xs) auto

lemma skipped_append:
  "skipped d (xs @ ys) = (if from_first d xs = [] then xs @ skipped d ys else skipped d xs)"
  by (induction xs) auto

lemma scan_result_append:
  assumes "set_aside l xs ys l1" "from_first (loop_depth l) xs = []" "scan_result env l1 ys [] res"
  shows "scan_result env l (xs @ ys) [] res"
  using assms set_aside_trans [OF assms(1)] set_aside_depth [OF assms(1)]
  by (fastforce simp: scan_result_def from_first_append skipped_append split: list.splits)

lemma ReloadWorkQueue_set_aside:
  "\<exists>l1. ReloadWorkQueue l = Inr l1 \<and> set_aside l [] (posted l) l1 \<and>
     (work_queue l1 = [] \<longrightarrow> posted l = []) \<and>
     posted l = work_queue l1 @ incoming_queue (incoming l1)"
  by (auto simp: ReloadWorkQueue_cases set_aside_def posted_def)

lemma DoWork_loop_scan:
  "current_run_loop l = Some r \<Longrightarrow> scan_result env l (posted l) [] (DoWork_loop env l)"
proof (induction env l rule: DoWork_loop.induct)
  case (1 env l)
  obtain l1 where r: "ReloadWorkQueue l = Inr l1" and s: "set_aside l [] (posted l) l1"
    and e: "work_queue l1 = [] \<longrightarrow> posted l = []"
    and p: "posted l = work_queue l1 @ incoming_queue (incoming l1)"
    using ReloadWorkQueue_set_aside [of l] by blast
  have rl: "current_run_loop l1 = Some r" using s "1.prems" by (simp add: set_aside_def)
  have d: "loop_depth l1 = loop_depth l" using s by (rule set_aside_depth)
  have start: "scan_result env l1 (posted l) [] res \<Longrightarrow> scan_result env l (posted l) [] res" for res
    using scan_result_append [of l "[]" "posted l" l1 env res] s by simp
  show ?case
  proof (cases "work_queue l1 = []")
    case True
    then show ?thesis using e s r by (subst DoWork_loop.simps) (auto simp: scan_result_def)
  next
    case nonempty: False
    note q = DoWork_queue_scan [OF rl, of env]
    show ?thesis
    proof (cases "from_first (loop_depth l1) (work_queue l1)")
      case Nil
      then obtain l2 where l2: "DoWork_queue env l1 = Inr (False, l2)"
        "set_aside l1 (work_queue l1) (incoming_queue (incoming l1)) l2"
        using q by (auto simp: scan_result_def)
      have "current_run_loop l2 = Some r" using l2(2) rl by (simp add: set_aside_def)
      then have "scan_result env l2 (posted l2) [] (DoWork_loop env l2)"
        using "1.IH" [OF r nonempty l2(1)] by blast
      moreover have "posted l2 = incoming_queue (incoming l1)" using l2(2) by (simp add: set_aside_def)
      ultimately have "scan_result env l1 (posted l) [] (DoWork_loop env l2)"
        using scan_result_append [OF l2(2) Nil] p by simp
      then show ?thesis using start r nonempty l2(1) by (subst DoWork_loop.simps) simp
    next
      case (Cons pt rest)
      then obtain l2 where l2: "DoWork_queue env l1 = rbind (RunTask env pt l2) (\<lambda>l''. Inr (True, l''))"
        "set_aside l1 (skipped (loop_depth l1) (work_queue l1)) (rest @ incoming_queue (incoming l1)) l2"
        using q by (auto simp: scan_result_def)
      then have "scan_result env l1 (posted l) [] (DoWork_queue env l1)"
        using Cons p by (auto simp: scan_result_def from_first_append skipped_append)
      moreover have "DoWork_loop env l = DoWork_queue env l1"
        using r nonempty l2(1) by (subst DoWork_loop.simps) (simp add: rbind_assoc)
      ultimately show ?thesis using start by simp
    qed
  qed
qed

lemma DoWork_scan:
  assumes "nestable_tasks_allowed l" "current_run_loop l = Some r"
  shows "case dropWhile (\<lambda>pt. \<not> runs_now (loop_depth l) pt) (posted l) of
      [] \<Rightarrow> (\<exists>l'. DoWork env l = Inr (False, l') \<and> set_aside l (posted l) [] l')
    | pt # rest \<Rightarrow> (\<exists>l'. DoWork env l = rbind (RunTask env pt l') (\<lambda>l''. Inr (True, l'')) \<and>
        set_aside l (takeWhile (\<lambda>pt. \<not> runs_now (loop_depth l) pt) (posted l)) rest l')"
  using DoWork_loop_scan [OF assms(2), of env] assms(1)
  unfolding from_first_def [symmetric] skipped_def [symmetric] DoWork_def scan_result_def
  by (auto split: list.splits)

text \<open>
  C2: one call of \<^verbatim>\<open>DoWork\<close> is one scan of the posted tasks in order of posting, through the work
  queue and the incoming queue: delayed tasks met on the way go to the delayed queue and
  non-nestable ones met in a nested loop to the deferred queue, in order; the first task that can
  run now is run, with the tasks after it left in place, and the call reports that it ran one;
  when there is none all posted tasks have been set aside and the call reports that nothing ran.
\<close>

theorem DoWork_refines_scan:
  assumes "nestable_tasks_allowed l" "current_run_loop l = Some r"
  shows "case dropWhile (\<lambda>pt. \<not> runs_now (loop_depth l) pt) (posted l) of
      [] \<Rightarrow> (\<exists>l'. DoWork env l = Inr (False, l') \<and> set_aside l (posted l) [] l')
    | pt # rest \<Rightarrow> (\<exists>l'. DoWork env l = rbind (RunTask env pt l') (\<lambda>l''. Inr (True, l'')) \<and>
        set_aside l (takeWhile (\<lambda>pt. \<not> runs_now (loop_depth l) pt) (posted l)) rest l')"
  using assms by (rule DoWork_scan)

text \<open>A closed environment for examples: closures and observers leave the loop alone.\<close>

definition quiet_env :: "'c loop_env" where
  "quiet_env = \<lparr>run_closure = (\<lambda>_ l. Inr l), will_process_task = (\<lambda>_ l. Inr l),
     did_process_task = (\<lambda>_ l. Inr l), will_destroy_loop = (\<lambda>l. l), closure_deleted = (\<lambda>_ q. q)\<rparr>"

theorem DoWork_refines_scan_witness:
  "(let a = PendingTask ''a'' (Some 1) 0 False; b = PendingTask ''b'' (Some (2::nat)) 0 True;
        l = (MessageLoop TYPE_UI)\<lparr>work_queue := [a, b], current_run_loop := Some 0,
              run_loops := (\<lambda>_. RunLoop\<lparr>run_depth := 2\<rparr>)\<rparr>
    in \<exists>l'. DoWork quiet_env l = rbind (RunTask quiet_env b l') (\<lambda>l''. Inr (True, l'')) \<and> set_aside l [a] [] l')"
  using DoWork_refines_scan [of "(MessageLoop TYPE_UI)\<lparr>work_queue := [PendingTask ''a'' (Some 1) 0 False,
      PendingTask ''b'' (Some (2::nat)) 0 True], current_run_loop := Some 0,
      run_loops := (\<lambda>_. RunLoop\<lparr>run_depth := 2\<rparr>)\<rparr>" 0 quiet_env]
  by (simp add: MessageLoop_def posted_def IncomingTaskQueue_def runs_now_def is_delayed_def
      ticks_is_null_def PendingTask_def loop_depth_def Let_def)

subsection \<open>Every task runs once\<close>

definition held :: "'c message_loop \<Rightarrow> 'c task_queue" where
  "held l = posted l @ delayed_work_queue l @ deferred_non_nestable_work_queue l"

lemma mset_fold_dq_push: "mset (fold dq_push xs q) = mset q + mset xs"
  by (induction xs arbitrary: q) auto

lemma set_aside_held:
  "set_aside l pre rest l' \<Longrightarrow> posted l = pre @ mid @ rest \<Longrightarrow> mset (held l) = mset mid + mset (held l')"
  using mset_filter [of is_delayed pre] multiset_partition [of "mset pre" is_delayed]
  by (simp add: set_aside_def held_def mset_fold_dq_push)

text \<open>The outcome of a work function that runs at most one of the tasks the loop holds.\<close>

definition runs_at_most_one ::
  "'c loop_env \<Rightarrow> 'c message_loop \<Rightarrow> (bool \<times> 'c message_loop) result \<Rightarrow> bool"
where
  "runs_at_most_one env l res \<longleftrightarrow>
     (\<exists>l'. res = Inr (False, l') \<and> mset (held l') = mset (held l) \<and> ran l' = ran l) \<or>
     (\<exists>pt l1. res = rbind (RunTask env pt l1) (\<lambda>l'. Inr (True, l')) \<and>
        mset (held l) = add_mset pt (mset (held l1)) \<and> ran l1 = ran l \<and>
        loop_depth l1 = loop_depth l \<and> (nestable pt \<or> loop_depth l1 = 1))"

lemma DoWork_at_most_one:
  assumes r: "current_run_loop l = Some r"
  shows "runs_at_most_one env l (DoWork env l)"
proof (cases "nestable_tasks_allowed l")
  case True
  note s = DoWork_scan [OF True r, of env]
  show ?thesis
  proof (cases "dropWhile (\<lambda>pt. \<not> runs_now (loop_depth l) pt) (posted l)")
    case Nil
    with s obtain l' where l': "DoWork env l = Inr (False, l')" "set_aside l (posted l) [] l'" by auto
    then show ?thesis using set_aside_held [OF l'(2), of "[]"]
      by (auto simp: runs_at_most_one_def set_aside_def)
  next
    case (Cons pt rest)
    with s obtain l' where l': "DoWork env l = rbind (RunTask env pt l') (\<lambda>l''. Inr (True, l''))"
      "set_aside l (takeWhile (\<lambda>pt. \<not> runs_now (loop_depth l) pt) (posted l)) rest l'" by auto
    have "posted l = takeWhile (\<lambda>pt. \<not> runs_now (loop_depth l) pt) (posted l) @ [pt] @ rest"
      using Cons takeWhile_dropWhile_id [of "\<lambda>pt. \<not> runs_now (loop_depth l) pt" "posted l"] by simp
    from set_aside_held [OF l'(2) this] have "mset (held l) = add_mset pt (mset (held l'))" by simp
    moreover have "runs_now (loop_depth l) pt" using Cons by (auto simp: dropWhile_eq_Cons_conv)
    ultimately show ?thesis using l' set_aside_depth [OF l'(2)]
      unfolding runs_at_most_one_def by (auto simp: runs_now_def set_aside_def)
  qed
qed (simp add: DoWork_def runs_at_most_one_def)

lemma DeferOrRun_at_most_one:
  assumes "current_run_loop l = Some r" "mset (held l0) = add_mset pt (mset (held l))"
    "ran l0 = ran l" "loop_depth l0 = loop_depth l"
  shows "runs_at_most_one env l0 (DeferOrRunPendingTask env pt l)"
  using assms
  by (auto simp: DeferOrRun_depth runs_at_most_one_def held_def posted_def)

definition drop_next :: "(bool \<times> 'a \<times> 'b) result \<Rightarrow> (bool \<times> 'b) result" where
  "drop_next res = rbind res (\<lambda>(b, _, l). Inr (b, l))"

lemma DoDelayedWork_at_most_one:
  assumes r: "current_run_loop l = Some r"
  shows "runs_at_most_one env l (drop_next (DoDelayedWork env now next l))"
proof (cases "\<not> nestable_tasks_allowed l \<or> delayed_work_queue l = []")
  case True
  then show ?thesis
    by (auto simp: DoDelayedWork_def drop_next_def runs_at_most_one_def held_def posted_def)
next
  case False
  then obtain pt rest where q: "delayed_work_queue l = pt # rest" by (cases "delayed_work_queue l") auto
  let ?l1 = "if delayed_run_time pt > recent_time l then l\<lparr>recent_time := now\<rparr> else l"
  show ?thesis
  proof (cases "delayed_run_time pt > recent_time ?l1")
    case True
    then show ?thesis using False q
      by (auto simp: DoDelayedWork_def drop_next_def runs_at_most_one_def held_def posted_def Let_def)
  next
    case due: False
    let ?l2 = "?l1\<lparr>delayed_work_queue := rest\<rparr>"
    have "drop_next (DoDelayedWork env now next l) = DeferOrRunPendingTask env pt ?l2"
    proof -
      have "rbind (rbind x (\<lambda>(ran, l3). Inr (ran, n, l3))) (\<lambda>(b, _, l). Inr (b, l)) = x"
        for x :: "(bool \<times> 'a message_loop) result" and n :: time_ticks
        by (cases x) auto
      then show ?thesis using False q due by (simp add: DoDelayedWork_def drop_next_def Let_def)
    qed
    moreover have "mset (held l) = add_mset pt (mset (held ?l2))" using q by (simp add: held_def posted_def)
    moreover have "loop_depth l = loop_depth ?l2" by (simp add: loop_depth_def cong: option.case_cong)
    ultimately show ?thesis using DeferOrRun_at_most_one [of ?l2 r l pt env] r by simp
  qed
qed

lemma DoIdleWork_at_most_one:
  assumes r: "current_run_loop l = Some r"
  shows "runs_at_most_one env l (DoIdleWork env l)"
proof (cases "run_depth (run_loops l r) = 1 \<and> deferred_non_nestable_work_queue l \<noteq> []")
  case True
  then obtain pt rest where q: "deferred_non_nestable_work_queue l = pt # rest"
    by (cases "deferred_non_nestable_work_queue l") auto
  let ?l1 = "l\<lparr>deferred_non_nestable_work_queue := rest\<rparr>"
  have "DoIdleWork env l = rbind (RunTask env pt ?l1) (\<lambda>l1. Inr (True, l1))"
    using True q r
    by (simp add: DoIdleWork_def ProcessNextDelayedNonNestableTask_def inner_run_loop_def rbind_assoc)
  moreover have "mset (held l) = add_mset pt (mset (held ?l1))" using q by (simp add: held_def posted_def)
  moreover have "loop_depth ?l1 = loop_depth l" "loop_depth ?l1 = 1"
    using r True by (simp_all add: loop_depth_def)
  ultimately show ?thesis unfolding runs_at_most_one_def
    by (intro disjI2 exI [of _ pt] exI [of _ ?l1]) simp
next
  case False
  then have "ProcessNextDelayedNonNestableTask env l = Inr (False, l)"
    using r by (auto simp: ProcessNextDelayedNonNestableTask_def inner_run_loop_def split: list.splits)
  then show ?thesis using r
    by (auto simp: DoIdleWork_def inner_run_loop_def runs_at_most_one_def held_def posted_def
        call_pump_def Let_def)
qed

text \<open>
  C4: the three work functions a pump calls (\<^verbatim>\<open>DoWork\<close>, \<^verbatim>\<open>DoDelayedWork\<close>, \<^verbatim>\<open>DoIdleWork\<close>) lose no task
  and duplicate none: each either reports that nothing ran, and then the loop holds the same tasks
  as before, or runs exactly one task, which it has first taken out of the queues with all others
  kept; and a non-nestable task is run only by the outermost run loop.
\<close>

theorem work_functions_run_each_task_once:
  assumes "current_run_loop l = Some r"
  shows "runs_at_most_one env l (DoWork env l) \<and>
    runs_at_most_one env l (drop_next (DoDelayedWork env now next l)) \<and>
    runs_at_most_one env l (DoIdleWork env l)"
  using DoWork_at_most_one [OF assms] DoDelayedWork_at_most_one [OF assms]
    DoIdleWork_at_most_one [OF assms] by blast

theorem work_functions_run_each_task_once_witness:
  "(let l = (MessageLoop TYPE_IO)\<lparr>current_run_loop := Some 0, deferred_non_nestable_work_queue :=
             [PendingTask ''a'' (Some True) 0 False], run_loops := (\<lambda>_. RunLoop\<lparr>run_depth := 1\<rparr>)\<rparr>
    in runs_at_most_one quiet_env l (DoIdleWork quiet_env l))"
  using work_functions_run_each_task_once [of "(MessageLoop TYPE_IO)\<lparr>current_run_loop := Some 0,
    deferred_non_nestable_work_queue := [PendingTask ''a'' (Some True) 0 False],
    run_loops := (\<lambda>_. RunLoop\<lparr>run_depth := 1\<rparr>)\<rparr>" 0 quiet_env]
  by (simp add: Let_def)

subsection \<open>Delayed tasks\<close>

text \<open>
  A delayed task never runs early and never waits once due: when the clock reads \<open>now\<close>,
  \<^verbatim>\<open>DoDelayedWork\<close> takes the head of the delayed queue, which is the earliest by run time and then
  by sequence number, exactly when its run time is at most \<open>now\<close>, whatever the cached
  \<^verbatim>\<open>recent_time_\<close> says, and reports the run time of the next one; otherwise it runs nothing and
  reports the run time to wait for.
\<close>

theorem DoDelayedWork_runs_when_due:
  assumes "nestable_tasks_allowed l" "delayed_work_queue l = pt # rest" "recent_time l \<le> now"
    and "dq_inv b (delayed_work_queue l)"
  shows "(\<forall>x \<in> set (delayed_work_queue l). run_key b pt \<le> run_key b x) \<and>
    (if delayed_run_time pt \<le> now
     then \<exists>l1. delayed_work_queue l1 = rest \<and> posted l1 = posted l \<and> recent_time l1 \<le> now \<and>
       DoDelayedWork env now next l = rbind (DeferOrRunPendingTask env pt l1) (\<lambda>(ran, l2).
         Inr (ran, if rest = [] then next else delayed_run_time (hd rest), l2))
     else DoDelayedWork env now next l = Inr (False, delayed_run_time pt, l\<lparr>recent_time := now\<rparr>))"
proof -
  have "\<forall>x \<in> set (delayed_work_queue l). run_key b pt \<le> run_key b x"
    using dq.pop_least [OF assms(4), of pt rest] assms(2) by simp
  moreover have "\<exists>l1. delayed_work_queue l1 = rest \<and> posted l1 = posted l \<and> recent_time l1 \<le> now \<and>
       DoDelayedWork env now next l = rbind (DeferOrRunPendingTask env pt l1) (\<lambda>(ran, l2).
         Inr (ran, if rest = [] then next else delayed_run_time (hd rest), l2))"
    if "delayed_run_time pt \<le> now"
    using that assms(1-3)
    by (intro exI [of _ "(if delayed_run_time pt > recent_time l then l\<lparr>recent_time := now\<rparr> else l)
          \<lparr>delayed_work_queue := rest\<rparr>"])
      (auto simp: DoDelayedWork_def posted_def Let_def split: list.split)
  moreover have "DoDelayedWork env now next l = Inr (False, delayed_run_time pt, l\<lparr>recent_time := now\<rparr>)"
    if "\<not> delayed_run_time pt \<le> now"
    using that assms(1-3) by (simp add: DoDelayedWork_def)
  ultimately show ?thesis by simp
qed

theorem DoDelayedWork_runs_when_due_witness:
  "(let pt = PendingTask ''a'' (Some True) 50 True;
        l = (MessageLoop TYPE_IO)\<lparr>delayed_work_queue := [pt]\<rparr>
    in DoDelayedWork quiet_env 20 0 l = Inr (False, 50, l\<lparr>recent_time := 20\<rparr>))"
  using DoDelayedWork_runs_when_due [of "(MessageLoop TYPE_IO)\<lparr>delayed_work_queue :=
      [PendingTask ''a'' (Some True) 50 True]\<rparr>" "PendingTask ''a'' (Some True) 50 True" "[]" 20 0 quiet_env 0]
  by (simp add: Let_def MessageLoop_def PendingTask_def dq_inv_def in_window_def)

end
