(* ===== verification/Message_Loop_Safety.thy ===== *)
theory Message_Loop_Safety
  imports Message_Loop_Props
begin

text \<open>
  Safety of the message loop: the invariant that makes its assertions hold, in particular the
  count of high resolution tasks checked by \<^verbatim>\<open>CHECK_GE(pending_high_res_tasks_, 0)\<close>, the
  destructor's clean-up loop, and the stack of run loops.
\<close>

subsection \<open>The invariant\<close>

definition high_res_count :: "'c task_queue \<Rightarrow> int" where
  "high_res_count ts = int (length (filter is_high_res ts))"

lemma high_res_count_simps [simp]:
  "high_res_count [] = 0"
  "high_res_count (pt # ts) = of_bool (is_high_res pt) + high_res_count ts"
  "high_res_count (xs @ ys) = high_res_count xs + high_res_count ys"
  by (simp_all add: high_res_count_def)

lemma high_res_count_nonneg [simp]: "0 \<le> high_res_count ts"
  by (simp add: high_res_count_def)

lemma high_res_count_dq_push [simp]: "high_res_count (dq_push pt q) = high_res_count (pt # q)"
  by (induction q) auto

text \<open>The invariant while \<open>k\<close> high resolution tasks have been taken out of the queues.\<close>

definition loop_inv_but :: "int \<Rightarrow> 'c message_loop \<Rightarrow> bool" where
  "loop_inv_but k l \<longleftrightarrow>
     message_loop_alive (incoming l) \<and>
     high_res_task_count (incoming l) = high_res_count (incoming_queue (incoming l)) \<and>
     pending_high_res_tasks l = k + high_res_count (work_queue l) + high_res_count (delayed_work_queue l) +
       high_res_count (deferred_non_nestable_work_queue l) \<and>
     (\<forall>pt \<in> set (held l). task pt \<noteq> None)"

abbreviation loop_inv :: "'c message_loop \<Rightarrow> bool" where
  "loop_inv \<equiv> loop_inv_but 0"

lemma loop_inv_MessageLoop: "loop_inv (MessageLoop type)"
  by (simp add: loop_inv_but_def MessageLoop_def IncomingTaskQueue_def held_def posted_def)

lemma loop_inv_frame [simp]:
  "loop_inv_but k (call_pump c l) = loop_inv_but k l"
  "loop_inv_but k (l\<lparr>nestable_tasks_allowed := b\<rparr>) = loop_inv_but k l"
  "loop_inv_but k (l\<lparr>recent_time := t\<rparr>) = loop_inv_but k l"
  "loop_inv_but k (l\<lparr>in_high_res_mode := b\<rparr>) = loop_inv_but k l"
  "loop_inv_but k (l\<lparr>ran := ts\<rparr>) = loop_inv_but k l"
  "loop_inv_but k (l\<lparr>current_run_loop := r\<rparr>) = loop_inv_but k l"
  "loop_inv_but k (l\<lparr>run_loops := rs\<rparr>) = loop_inv_but k l"
  by (simp_all add: loop_inv_but_def call_pump_def held_def posted_def)

lemma loop_inv_post:
  assumes "loop_inv l" "proxy_Post nest now fh t delay l = Inr (ok, l')"
  shows "loop_inv l' \<and> ok \<and> current_run_loop l' = current_run_loop l"
  using assms
  by (auto simp: proxy_Post_def rsimps AddToIncomingQueue_cases loop_inv_but_def held_def posted_def
      queued_task_def ml_ScheduleWork_def call_pump_def Let_def split: if_splits)

lemma post_succeeds:
  assumes "0 \<le> delay" "t \<noteq> None"
  shows "\<exists>ok l'. proxy_Post nest now fh t delay l = Inr (ok, l')"
proof -
  have "0 < delay \<or> InMilliseconds delay = 0"
    using assms(1) by (auto simp: InMilliseconds_def delta_is_max_def time_consts sdiv_nonneg)
  with assms(2) show ?thesis by (auto simp: proxy_Post_def AddToIncomingQueue_cases Let_def)
qed

subsection \<open>Closures that use the loop through its interface\<close>

text \<open>
  The hypothesis on closures and observers: run in a running loop that satisfies the invariant,
  they return and leave such a loop. Posting, quitting and changing whether nestable tasks are
  allowed all keep the invariant, so a closure built of these satisfies it.
\<close>

definition keeps_loop :: "('c message_loop \<Rightarrow> 'c message_loop result) \<Rightarrow> bool" where
  "keeps_loop f \<longleftrightarrow> (\<forall>l. loop_inv l \<and> current_run_loop l \<noteq> None \<longrightarrow>
     (\<exists>l'. f l = Inr l' \<and> loop_inv l' \<and> current_run_loop l' \<noteq> None))"

definition well_behaved :: "'c loop_env \<Rightarrow> bool" where
  "well_behaved env \<longleftrightarrow>
     (\<forall>c. keeps_loop (run_closure env c)) \<and>
     (\<forall>pt. keeps_loop (will_process_task env pt)) \<and> (\<forall>pt. keeps_loop (did_process_task env pt))"

lemma keeps_loopD:
  "keeps_loop f \<Longrightarrow> loop_inv l \<Longrightarrow> current_run_loop l \<noteq> None \<Longrightarrow>
     \<exists>l'. f l = Inr l' \<and> loop_inv l' \<and> current_run_loop l' \<noteq> None"
  by (simp add: keeps_loop_def)

lemma keeps_loop_Inr: "keeps_loop Inr"
  by (simp add: keeps_loop_def)

lemma keeps_loop_bind: "keeps_loop f \<Longrightarrow> keeps_loop g \<Longrightarrow> keeps_loop (\<lambda>l. rbind (f l) g)"
  by (fastforce simp: keeps_loop_def)

lemma keeps_loop_RunTask_body:
  assumes "well_behaved env" "task pt \<noteq> None"
  shows "keeps_loop (\<lambda>l. rbind (will_process_task env pt l) (\<lambda>l2.
           rbind (annotator_RunTask env pt l2) (\<lambda>l3. rbind (did_process_task env pt l3) (\<lambda>l4.
           Inr (l4\<lparr>nestable_tasks_allowed := True\<rparr>)))))"
proof -
  have "keeps_loop (annotator_RunTask env pt)"
    using assms by (auto simp: keeps_loop_def well_behaved_def annotator_RunTask_def)
  moreover have "keeps_loop (\<lambda>l4. Inr (l4\<lparr>nestable_tasks_allowed := True\<rparr>))"
    by (simp add: keeps_loop_def)
  ultimately show ?thesis using assms(1)
    by (intro keeps_loop_bind) (simp_all add: well_behaved_def)
qed

lemma RunTask_inv:
  assumes w: "well_behaved env" and t: "task pt \<noteq> None"
    and i: "loop_inv_but (of_bool (is_high_res pt)) l"
    and l: "nestable_tasks_allowed l" "current_run_loop l \<noteq> None"
  shows "\<exists>l'. RunTask env pt l = Inr l' \<and> loop_inv l' \<and> current_run_loop l' \<noteq> None"
proof -
  let ?l1 = "if is_high_res pt then l\<lparr>pending_high_res_tasks := pending_high_res_tasks l - 1\<rparr> else l"
  have inv1: "loop_inv (?l1\<lparr>nestable_tasks_allowed := False\<rparr>)"
    using i by (auto simp: loop_inv_but_def held_def posted_def)
  have "is_high_res pt \<longrightarrow> pending_high_res_tasks ?l1 \<ge> 0"
    using i high_res_count_nonneg by (auto simp: loop_inv_but_def intro!: add_nonneg_nonneg)
  moreover have "current_run_loop (?l1\<lparr>nestable_tasks_allowed := False\<rparr>) \<noteq> None" using l(2) by simp
  ultimately show ?thesis
    using keeps_loopD [OF keeps_loop_RunTask_body [OF w t] inv1] l(1)
    unfolding RunTask_def Let_def by simp
qed

definition work_ok :: "(bool \<times> 'c message_loop) result \<Rightarrow> bool" where
  "work_ok res \<longleftrightarrow> (\<exists>b l'. res = Inr (b, l') \<and> loop_inv l' \<and> current_run_loop l' \<noteq> None)"

lemma work_ok_RunTask:
  "well_behaved env \<Longrightarrow> task pt \<noteq> None \<Longrightarrow> loop_inv_but (of_bool (is_high_res pt)) l \<Longrightarrow>
     nestable_tasks_allowed l \<Longrightarrow> current_run_loop l \<noteq> None \<Longrightarrow>
     work_ok (rbind (RunTask env pt l) (\<lambda>l1. Inr (b, l1)))"
  using RunTask_inv [of env pt l] by (auto simp: work_ok_def)

lemma work_ok_DeferOrRun:
  assumes "well_behaved env" "task pt \<noteq> None" "loop_inv_but (of_bool (is_high_res pt)) l"
    and "nestable_tasks_allowed l" "current_run_loop l = Some r"
  shows "work_ok (DeferOrRunPendingTask env pt l)"
proof (cases "nestable pt \<or> loop_depth l = 1")
  case True
  then show ?thesis using work_ok_RunTask [OF assms(1-4), of True] assms(5) by (simp add: DeferOrRun_depth)
next
  case False
  then show ?thesis using assms
    by (auto simp: DeferOrRun_depth work_ok_def loop_inv_but_def held_def posted_def)
qed

lemma loop_inv_pop_work:
  "loop_inv l \<Longrightarrow> work_queue l = pt # rest \<Longrightarrow>
     loop_inv_but (of_bool (is_high_res pt)) (l\<lparr>work_queue := rest\<rparr>) \<and> task pt \<noteq> None"
  by (auto simp: loop_inv_but_def held_def posted_def)

lemma loop_inv_pop_delayed:
  "loop_inv l \<Longrightarrow> delayed_work_queue l = pt # rest \<Longrightarrow>
     loop_inv_but (of_bool (is_high_res pt)) (l\<lparr>delayed_work_queue := rest\<rparr>) \<and> task pt \<noteq> None"
  by (auto simp: loop_inv_but_def held_def posted_def)

lemma loop_inv_pop_deferred:
  "loop_inv l \<Longrightarrow> deferred_non_nestable_work_queue l = pt # rest \<Longrightarrow>
     loop_inv_but (of_bool (is_high_res pt)) (l\<lparr>deferred_non_nestable_work_queue := rest\<rparr>) \<and> task pt \<noteq> None"
  by (auto simp: loop_inv_but_def held_def posted_def)

lemma loop_inv_AddToDelayed:
  "loop_inv_but (of_bool (is_high_res pt)) l \<Longrightarrow> task pt \<noteq> None \<Longrightarrow> loop_inv (AddToDelayedWorkQueue pt l)"
  by (auto simp: loop_inv_but_def held_def posted_def AddToDelayedWorkQueue_def)

lemma DoWork_queue_ok:
  assumes w: "well_behaved env"
  shows "loop_inv l \<Longrightarrow> nestable_tasks_allowed l \<Longrightarrow> current_run_loop l = Some r \<Longrightarrow>
    work_ok (DoWork_queue env l)"
proof (induction "work_queue l" arbitrary: l)
  case Nil
  then show ?case by (subst DoWork_queue.simps) (auto simp: work_ok_def)
next
  case (Cons pt rest)
  note q = Cons.hyps(2) [symmetric]
  let ?l1 = "l\<lparr>work_queue := rest\<rparr>"
  note pop = loop_inv_pop_work [OF Cons.prems(1) q]
  show ?case
  proof (cases "ticks_is_null (delayed_run_time pt)")
    case True
    have ok: "work_ok (DeferOrRunPendingTask env pt ?l1)"
      using work_ok_DeferOrRun [OF w, of pt ?l1 r] pop Cons.prems by simp
    then obtain b l2 where d: "DeferOrRunPendingTask env pt ?l1 = Inr (b, l2)" "loop_inv l2"
      "current_run_loop l2 \<noteq> None" by (auto simp: work_ok_def)
    show ?thesis
    proof (cases b)
      case True
      then show ?thesis using d q \<open>ticks_is_null (delayed_run_time pt)\<close>
        by (subst DoWork_queue.simps) (auto simp: work_ok_def)
    next
      case False
      then have "l2 = ?l1\<lparr>deferred_non_nestable_work_queue := deferred_non_nestable_work_queue l @ [pt]\<rparr>"
        using d(1) DeferOrRun_deferred by fastforce
      then have "work_ok (DoWork_queue env l2)" using Cons.hyps(1) [of l2] d(2) Cons.prems by simp
      then show ?thesis using d q False \<open>ticks_is_null (delayed_run_time pt)\<close>
        by (subst DoWork_queue.simps) simp
    qed
  next
    case False
    let ?l2 = "AddToDelayedWorkQueue pt ?l1"
    let ?l3 = "if task (hd (delayed_work_queue ?l2)) = task pt
               then call_pump (Pump_ScheduleDelayedWork (delayed_run_time pt)) ?l2 else ?l2"
    have "loop_inv ?l3" using loop_inv_AddToDelayed [of pt ?l1] pop by simp
    moreover have "rest = work_queue ?l3" "nestable_tasks_allowed ?l3" "current_run_loop ?l3 = Some r"
      using Cons.prems by (simp_all add: AddToDelayedWorkQueue_def call_pump_def)
    ultimately have "work_ok (DoWork_queue env ?l3)" using Cons.hyps(1) by blast
    then show ?thesis using q False by (subst DoWork_queue.simps) (simp add: Let_def)
  qed
qed

lemma loop_inv_Reload: "loop_inv l \<Longrightarrow> ReloadWorkQueue l = Inr l' \<Longrightarrow> loop_inv l'"
  by (auto simp: ReloadWorkQueue_cases loop_inv_but_def held_def posted_def split: if_splits)

lemma Reload_frame:
  "ReloadWorkQueue l = Inr l' \<Longrightarrow>
     nestable_tasks_allowed l' = nestable_tasks_allowed l \<and> current_run_loop l' = current_run_loop l"
  by (auto simp: ReloadWorkQueue_cases split: if_splits)

lemma DoWork_queue_False:
  assumes "current_run_loop l = Some r" "DoWork_queue env l = Inr (False, l2)"
  shows "nestable_tasks_allowed l2 = nestable_tasks_allowed l \<and> current_run_loop l2 = current_run_loop l"
  using DoWork_queue_scan [OF assms(1), of env] assms(2)
  by (auto simp: scan_result_def set_aside_def rsimps split: list.splits)

lemma DoWork_loop_ok:
  assumes w: "well_behaved env"
  shows "loop_inv l \<Longrightarrow> nestable_tasks_allowed l \<Longrightarrow> current_run_loop l = Some r \<Longrightarrow>
    work_ok (DoWork_loop env l)"
proof (induction "length (work_queue l) + length (incoming_queue (incoming l))" arbitrary: l rule: less_induct)
  case less
  obtain l1 where rl: "ReloadWorkQueue l = Inr l1"
    and p: "posted l = work_queue l1 @ incoming_queue (incoming l1)"
    using ReloadWorkQueue_set_aside [of l] by blast
  note f = Reload_frame [OF rl] and i1 = loop_inv_Reload [OF less.prems(1) rl]
  have len: "length (work_queue l) + length (incoming_queue (incoming l)) =
      length (work_queue l1) + length (incoming_queue (incoming l1))"
    using p by (metis length_append posted_def)
  show ?case
  proof (cases "work_queue l1 = []")
    case True
    then show ?thesis using rl i1 f less.prems by (subst DoWork_loop.simps) (auto simp: work_ok_def)
  next
    case False
    have "work_ok (DoWork_queue env l1)" using DoWork_queue_ok [OF w i1] f less.prems by simp
    then obtain b l2 where q: "DoWork_queue env l1 = Inr (b, l2)" "loop_inv l2" "current_run_loop l2 \<noteq> None"
      by (auto simp: work_ok_def)
    show ?thesis
    proof (cases b)
      case True
      then show ?thesis using rl False q by (subst DoWork_loop.simps) (auto simp: work_ok_def)
    next
      case b: False
      then have d: "DoWork_queue env l1 = Inr (False, l2)" using q(1) by simp
      have fr: "nestable_tasks_allowed l2" "current_run_loop l2 = Some r"
        using DoWork_queue_False [OF _ d] f less.prems by auto
      have "length (work_queue l2) + length (incoming_queue (incoming l2)) <
          length (work_queue l) + length (incoming_queue (incoming l))"
        using DoWork_queue_exhausted [OF d] False len by simp
      from less.hyps [OF this q(2) fr] show ?thesis using rl False d by (subst DoWork_loop.simps) simp
    qed
  qed
qed

lemma DoDelayedWork_ok:
  assumes w: "well_behaved env" and i: "loop_inv l" and r: "current_run_loop l = Some r"
  shows "work_ok (drop_next (DoDelayedWork env now next l))"
proof (cases "nestable_tasks_allowed l \<and> delayed_work_queue l \<noteq> []")
  case False
  then show ?thesis using i r by (auto simp: DoDelayedWork_def drop_next_def work_ok_def)
next
  case True
  then obtain pt rest where q: "delayed_work_queue l = pt # rest" by (cases "delayed_work_queue l") auto
  let ?l1 = "if delayed_run_time pt > recent_time l then l\<lparr>recent_time := now\<rparr> else l"
  show ?thesis
  proof (cases "delayed_run_time pt > recent_time ?l1")
    case True
    then show ?thesis using \<open>nestable_tasks_allowed l \<and> _\<close> i r q
      by (auto simp: DoDelayedWork_def drop_next_def work_ok_def Let_def)
  next
    case False
    have "loop_inv ?l1" "delayed_work_queue ?l1 = pt # rest" using i q by simp_all
    note pop = loop_inv_pop_delayed [OF this]
    have "work_ok (DeferOrRunPendingTask env pt (?l1\<lparr>delayed_work_queue := rest\<rparr>))"
      using work_ok_DeferOrRun [OF w, of pt _ r] pop True r by simp
    then show ?thesis using True False q by (auto simp: DoDelayedWork_def drop_next_def work_ok_def Let_def)
  qed
qed

lemma DoIdleWork_ok:
  assumes w: "well_behaved env" and i: "loop_inv l" and r: "current_run_loop l = Some r"
    and n: "nestable_tasks_allowed l"
  shows "work_ok (DoIdleWork env l)"
proof (cases "run_depth (run_loops l r) = 1 \<and> deferred_non_nestable_work_queue l \<noteq> []")
  case True
  then obtain pt rest where q: "deferred_non_nestable_work_queue l = pt # rest"
    by (cases "deferred_non_nestable_work_queue l") auto
  have "work_ok (rbind (RunTask env pt (l\<lparr>deferred_non_nestable_work_queue := rest\<rparr>)) (\<lambda>l1. Inr (True, l1)))"
    using work_ok_RunTask [OF w, of pt _ True] loop_inv_pop_deferred [OF i q] r n by simp
  then show ?thesis using True q r
    by (simp add: DoIdleWork_def ProcessNextDelayedNonNestableTask_def inner_run_loop_def rbind_assoc)
next
  case False
  then have "ProcessNextDelayedNonNestableTask env l = Inr (False, l)"
    using r by (auto simp: ProcessNextDelayedNonNestableTask_def inner_run_loop_def split: list.splits)
  then show ?thesis using r i
    by (auto simp: DoIdleWork_def inner_run_loop_def work_ok_def Let_def) (auto simp: call_pump_def)
qed

lemma DoIdleWork_not_nestable:
  assumes "current_run_loop l = Some r" "\<not> nestable_tasks_allowed l"
    and "run_depth (run_loops l r) = 1" "deferred_non_nestable_work_queue l \<noteq> []"
  shows "DoIdleWork env l = Inl (Dcheck ''nestable_tasks_allowed_'')"
  using assms
  by (cases "deferred_non_nestable_work_queue l")
    (simp_all add: DoIdleWork_def ProcessNextDelayedNonNestableTask_def inner_run_loop_def RunTask_def require_def)

lemma DoIdleWork_no_task:
  assumes "loop_inv l" "current_run_loop l = Some r"
    and "\<not> (run_depth (run_loops l r) = 1 \<and> deferred_non_nestable_work_queue l \<noteq> [])"
  shows "work_ok (DoIdleWork env l)"
proof -
  have "ProcessNextDelayedNonNestableTask env l = Inr (False, l)"
    using assms by (auto simp: ProcessNextDelayedNonNestableTask_def inner_run_loop_def split: list.splits)
  then show ?thesis using assms
    by (auto simp: DoIdleWork_def inner_run_loop_def work_ok_def Let_def) (auto simp: call_pump_def)
qed

text \<open>
  C5: whether or not nested tasks are allowed, that is also when a task that runs spins the pump, \<^verbatim>\<open>DoWork\<close> and
  \<^verbatim>\<open>DoDelayedWork\<close> always return, fail no assertion and dereference no null pointer, keep the
  invariant and stay in the run loop; while nested tasks are not allowed they run nothing. \<^verbatim>\<open>DoIdleWork\<close> does so
  exactly when nested tasks are allowed or no deferred task is due; otherwise the assertion of \<^verbatim>\<open>RunTask\<close>
  fails, as this function has no guard of its own. The loop is a running one whose
  counts of high resolution tasks agree with its queues, with closures and observers that use the
  loop through its interface; so \<^verbatim>\<open>CHECK_GE(pending_high_res_tasks_, 0)\<close> holds at every task.
\<close>

theorem loop_assertions_hold:
  assumes "well_behaved env" "loop_inv l" "current_run_loop l = Some r"
  shows "work_ok (DoWork env l) \<and> work_ok (drop_next (DoDelayedWork env now next l)) \<and>
    (\<not> nestable_tasks_allowed l \<longrightarrow> DoWork env l = Inr (False, l) \<and>
      drop_next (DoDelayedWork env now next l) = Inr (False, l\<lparr>recent_time := 0\<rparr>)) \<and>
    (work_ok (DoIdleWork env l) \<longleftrightarrow>
      nestable_tasks_allowed l \<or> run_depth (run_loops l r) \<noteq> 1 \<or> deferred_non_nestable_work_queue l = [])"
proof -
  have "work_ok (DoWork env l)"
    using DoWork_loop_ok [OF assms(1,2) _ assms(3)] assms(2,3) by (auto simp: DoWork_def work_ok_def)
  moreover have "work_ok (DoIdleWork env l) \<longleftrightarrow>
      nestable_tasks_allowed l \<or> run_depth (run_loops l r) \<noteq> 1 \<or> deferred_non_nestable_work_queue l = []"
  proof (cases "nestable_tasks_allowed l \<or> run_depth (run_loops l r) \<noteq> 1 \<or> deferred_non_nestable_work_queue l = []")
    case True
    then show ?thesis using DoIdleWork_ok [OF assms] DoIdleWork_no_task [OF assms(2,3)] by blast
  next
    case False
    then have "DoIdleWork env l = Inl (Dcheck ''nestable_tasks_allowed_'')"
      using DoIdleWork_not_nestable [OF assms(3)] by blast
    then show ?thesis using False by (simp add: work_ok_def)
  qed
  ultimately show ?thesis
    using DoDelayedWork_ok [OF assms] by (auto simp: DoWork_def DoDelayedWork_def drop_next_def)
qed

text \<open>An environment for the example: closure \<open>n\<close> posts closure \<open>n - 1\<close> until 0.\<close>

definition countdown_env :: "nat loop_env" where
  "countdown_env = quiet_env\<lparr>run_closure := (\<lambda>n l. if n = 0 then Inr l
     else rbind (ml_PostTask 7 ''countdown'' (Some (n - 1)) l) (\<lambda>(_, l'). Inr l'))\<rparr>"

lemma well_behaved_countdown: "well_behaved countdown_env"
proof -
  have "keeps_loop (\<lambda>l. rbind (ml_PostTask 7 ''countdown'' (Some m) l) (\<lambda>(_, l'). Inr l'))" for m :: nat
  proof (unfold keeps_loop_def, intro allI impI)
    fix l :: "nat message_loop"
    assume a: "loop_inv l \<and> current_run_loop l \<noteq> None"
    obtain ok l' where p: "proxy_Post True 7 ''countdown'' (Some m) 0 l = Inr (ok, l')"
      using post_succeeds [of 0 "Some m" True 7 "''countdown''" l] by auto
    then show "\<exists>l'. rbind (ml_PostTask 7 ''countdown'' (Some m) l) (\<lambda>(_, l'). Inr l') = Inr l' \<and>
      loop_inv l' \<and> current_run_loop l' \<noteq> None"
      using loop_inv_post [OF _ p] a by (simp add: ml_PostTask_def ml_PostDelayedTask_def)
  qed
  then show ?thesis
    by (auto simp: well_behaved_def countdown_env_def quiet_env_def keeps_loop_def)
qed

definition waiting_loop :: "bool \<Rightarrow> nat message_loop" where
  "waiting_loop nested = (MessageLoop TYPE_IO)\<lparr>current_run_loop := Some 0, nestable_tasks_allowed := \<not> nested,
     work_queue := [PendingTask ''a'' (Some 3) 0 True]\<rparr>"

theorem loop_assertions_hold_witness:
  "work_ok (DoWork countdown_env (waiting_loop False)) \<and> work_ok (DoIdleWork countdown_env (waiting_loop False)) \<and>
   DoWork countdown_env (waiting_loop True) = Inr (False, waiting_loop True)"
proof -
  have i: "loop_inv (waiting_loop nested)" "current_run_loop (waiting_loop nested) = Some 0"
    "deferred_non_nestable_work_queue (waiting_loop nested) = []" for nested
    by (simp_all add: waiting_loop_def loop_inv_but_def MessageLoop_def IncomingTaskQueue_def held_def posted_def PendingTask_def)
  show ?thesis
    using loop_assertions_hold [OF well_behaved_countdown i(1) [of False] i(2) [of False], of 0 0]
      loop_assertions_hold [OF well_behaved_countdown i(1) [of True] i(2) [of True], of 0 0] i(3)
    by (simp add: waiting_loop_def)
qed

subsection \<open>Destruction\<close>

text \<open>
  Deleting a closure may post more tasks. \<open>posts_lower env rank\<close> says that every task so posted has
  a lower rank than the closure deleted, so that \<open>rank\<close> bounds the chains of such posts.
\<close>

definition ranked :: "('c option \<Rightarrow> nat) \<Rightarrow> nat \<Rightarrow> 'c task_queue \<Rightarrow> bool" where
  "ranked rank n ts \<longleftrightarrow> (\<forall>pt \<in> set ts. rank (task pt) < n)"

definition extends :: "('c option \<Rightarrow> nat) \<Rightarrow> nat \<Rightarrow> 'c incoming_task_queue \<Rightarrow> 'c incoming_task_queue \<Rightarrow> bool" where
  "extends rank n q q' \<longleftrightarrow> (\<exists>ts. incoming_queue q' = incoming_queue q @ ts \<and> ranked rank n ts)"

definition posts_lower :: "'c loop_env \<Rightarrow> ('c option \<Rightarrow> nat) \<Rightarrow> bool" where
  "posts_lower env rank \<longleftrightarrow> (\<forall>c q. extends rank (rank c) q (closure_deleted env c q))"

lemma ranked_simps [simp]:
  "ranked rank n []" "ranked rank n (pt # ts) \<longleftrightarrow> rank (task pt) < n \<and> ranked rank n ts"
  "ranked rank n (xs @ ys) \<longleftrightarrow> ranked rank n xs \<and> ranked rank n ys"
  by (auto simp: ranked_def)

lemma ranked_0 [simp]: "ranked rank 0 ts \<longleftrightarrow> ts = []"
  by (cases ts) auto

lemma ranked_mono: "ranked rank m ts \<Longrightarrow> m \<le> n \<Longrightarrow> ranked rank n ts"
  by (auto simp: ranked_def)

lemma extends_refl [simp]: "extends rank n q q"
  by (simp add: extends_def)

lemma extends_trans: "extends rank n q q' \<Longrightarrow> extends rank n q' q'' \<Longrightarrow> extends rank n q q''"
  by (auto simp: extends_def)

lemma extends_mono: "extends rank m q q' \<Longrightarrow> m \<le> n \<Longrightarrow> extends rank n q q'"
  using ranked_mono by (fastforce simp: extends_def)

text \<open>What the deletion loops may change: only the incoming queue, by appending low tasks.\<close>

definition deletes_only :: "('c option \<Rightarrow> nat) \<Rightarrow> nat \<Rightarrow> 'c message_loop \<Rightarrow> 'c message_loop \<Rightarrow> bool" where
  "deletes_only rank n l l' \<longleftrightarrow> (\<exists>q. l' = l\<lparr>incoming := q\<rparr> \<and> extends rank n (incoming l) q)"

lemma deletes_only_refl [simp]: "deletes_only rank n l l"
  by (auto simp: deletes_only_def intro!: exI [of _ "incoming l"])

lemma deletes_only_task:
  "posts_lower env rank \<Longrightarrow> rank (task pt) \<le> n \<Longrightarrow> deletes_only rank n l (delete_task env pt l)"
  using extends_mono by (fastforce simp: deletes_only_def delete_task_def posts_lower_def)

lemma deletes_only_trans: "deletes_only rank n l l' \<Longrightarrow> deletes_only rank n l' l'' \<Longrightarrow> deletes_only rank n l l''"
  using extends_trans by (fastforce simp: deletes_only_def)

lemma fold_delete_task:
  assumes p: "posts_lower env rank"
  shows "ranked rank (Suc n) ts \<Longrightarrow> deletes_only rank n l (fold (delete_task env) ts l)"
proof (induction ts arbitrary: l)
  case (Cons pt ts)
  then have "deletes_only rank n l (delete_task env pt l)" by (intro deletes_only_task p) simp
  moreover have "deletes_only rank n (delete_task env pt l) (fold (delete_task env) (pt # ts) l)"
    using Cons by simp
  ultimately show ?case by (rule deletes_only_trans)
qed simp

lemma fold_work_delete:
  assumes p: "posts_lower env rank"
  shows "ranked rank (Suc n) ts \<Longrightarrow> \<exists>l'. deletes_only rank n l l' \<and>
    fold (\<lambda>pt l. if \<not> ticks_is_null (delayed_run_time pt) then AddToDelayedWorkQueue pt l else delete_task env pt l) ts l =
    l'\<lparr>delayed_work_queue := fold dq_push (filter is_delayed ts) (delayed_work_queue l)\<rparr>"
proof (induction ts arbitrary: l)
  case Nil
  show ?case by (intro exI [of _ l]) simp
next
  case (Cons pt ts)
  show ?case
  proof (cases "is_delayed pt")
    case True
    with Cons obtain l' where "deletes_only rank n (AddToDelayedWorkQueue pt l) l'"
      "fold (\<lambda>pt l. if \<not> ticks_is_null (delayed_run_time pt) then AddToDelayedWorkQueue pt l else delete_task env pt l)
        ts (AddToDelayedWorkQueue pt l) =
        l'\<lparr>delayed_work_queue := fold dq_push (filter is_delayed ts) (dq_push pt (delayed_work_queue l))\<rparr>"
      by (fastforce simp: AddToDelayedWorkQueue_def)
    then show ?thesis using True True [unfolded is_delayed_def]
      by (intro exI [of _ "l\<lparr>incoming := incoming l'\<rparr>"])
        (auto simp: deletes_only_def AddToDelayedWorkQueue_def)
  next
    case False
    have d: "deletes_only rank n l (delete_task env pt l)" using Cons by (intro deletes_only_task p) simp
    from Cons obtain l' where "deletes_only rank n (delete_task env pt l) l'"
      "fold (\<lambda>pt l. if \<not> ticks_is_null (delayed_run_time pt) then AddToDelayedWorkQueue pt l else delete_task env pt l)
        ts (delete_task env pt l) = l'\<lparr>delayed_work_queue := fold dq_push (filter is_delayed ts) (delayed_work_queue l)\<rparr>"
      by (fastforce simp: delete_task_def)
    then show ?thesis using False False [unfolded is_delayed_def] deletes_only_trans [OF d]
      by (intro exI [of _ l']) auto
  qed
qed

definition undelivered :: "'c message_loop \<Rightarrow> 'c task_queue" where
  "undelivered l = work_queue l @ delayed_work_queue l @ deferred_non_nestable_work_queue l"

lemma set_fold_dq_push: "set (fold dq_push xs q) = set q \<union> set xs"
  by (induction xs arbitrary: q) auto

lemma DeletePendingTasks_spec:
  assumes p: "posts_lower env rank" and r: "ranked rank (Suc n) (undelivered l)"
  shows "\<exists>q. extends rank n (incoming l) q \<and> DeletePendingTasks env l = (undelivered l \<noteq> [],
     l\<lparr>incoming := q, work_queue := [], delayed_work_queue := [], deferred_non_nestable_work_queue := []\<rparr>)"
proof -
  let ?step = "\<lambda>pt l. if \<not> ticks_is_null (delayed_run_time pt) then AddToDelayedWorkQueue pt l else delete_task env pt l"
  let ?dq = "fold dq_push (filter is_delayed (work_queue l)) (delayed_work_queue l)"
  have "ranked rank (Suc n) (work_queue l)" using r by (simp add: undelivered_def)
  from fold_work_delete [OF p this, of "l\<lparr>work_queue := []\<rparr>"] obtain q1 where
    q1: "extends rank n (incoming l) q1"
    and f1: "fold ?step (work_queue l) (l\<lparr>work_queue := []\<rparr>) =
      l\<lparr>work_queue := [], incoming := q1, delayed_work_queue := ?dq\<rparr>"
    by (auto simp: deletes_only_def)
  have "ranked rank (Suc n) (deferred_non_nestable_work_queue l)" using r by (simp add: undelivered_def)
  from fold_delete_task [OF p this, of "l\<lparr>work_queue := [], incoming := q1, delayed_work_queue := ?dq,
      deferred_non_nestable_work_queue := []\<rparr>"] obtain q2 where q2: "extends rank n q1 q2"
    and f2: "fold (delete_task env) (deferred_non_nestable_work_queue l) (l\<lparr>work_queue := [], incoming := q1,
        delayed_work_queue := ?dq, deferred_non_nestable_work_queue := []\<rparr>) =
      l\<lparr>work_queue := [], incoming := q2, delayed_work_queue := ?dq, deferred_non_nestable_work_queue := []\<rparr>"
    by (auto simp: deletes_only_def)
  have "ranked rank (Suc n) ?dq" using r by (auto simp: undelivered_def ranked_def set_fold_dq_push)
  from fold_delete_task [OF p this, of "l\<lparr>work_queue := [], incoming := q2, delayed_work_queue := [],
      deferred_non_nestable_work_queue := []\<rparr>"] obtain q3 where q3: "extends rank n q2 q3"
    and f3: "fold (delete_task env) ?dq (l\<lparr>work_queue := [], incoming := q2,
        delayed_work_queue := [], deferred_non_nestable_work_queue := []\<rparr>) =
      l\<lparr>work_queue := [], incoming := q3, delayed_work_queue := [], deferred_non_nestable_work_queue := []\<rparr>"
    by (auto simp: deletes_only_def)
  have ne: "?dq \<noteq> [] \<longleftrightarrow> delayed_work_queue l \<noteq> [] \<or> filter is_delayed (work_queue l) \<noteq> []"
    using set_fold_dq_push [of "filter is_delayed (work_queue l)" "delayed_work_queue l"]
    by (metis Un_empty set_empty2)
  have "DeletePendingTasks env l = (undelivered l \<noteq> [],
     l\<lparr>incoming := q3, work_queue := [], delayed_work_queue := [], deferred_non_nestable_work_queue := []\<rparr>)"
    using f1 f2 f3 ne by (cases l) (auto simp: DeletePendingTasks_def Let_def undelivered_def)
  then show ?thesis using extends_trans [OF q1 extends_trans [OF q2 q3]] by blast
qed

lemma DeletePendingTasks_facts:
  assumes "posts_lower env rank" "ranked rank (Suc n) (undelivered l)"
  shows "\<exists>l'. DeletePendingTasks env l = (undelivered l \<noteq> [], l') \<and> undelivered l' = [] \<and>
    extends rank n (incoming l) (incoming l') \<and> ran l' = ran l"
  using DeletePendingTasks_spec [OF assms] by (auto simp: undelivered_def)

lemma Reload_facts:
  assumes "undelivered l = []"
  shows "\<exists>l'. ReloadWorkQueue l = Inr l' \<and> undelivered l' = incoming_queue (incoming l) \<and>
    incoming_queue (incoming l') = [] \<and> ran l' = ran l"
  using assms by (auto simp: ReloadWorkQueue_cases undelivered_def)

lemma ranked_held: "ranked rank n (held l) \<longleftrightarrow> ranked rank n (undelivered l) \<and> ranked rank n (incoming_queue (incoming l))"
  by (auto simp: held_def posted_def undelivered_def)

lemma held_Nil: "held l = [] \<longleftrightarrow> undelivered l = [] \<and> incoming_queue (incoming l) = []"
  by (auto simp: held_def posted_def undelivered_def)

lemma delete_passes_enough:
  assumes p: "posts_lower env rank"
  shows "ranked rank n (held l) \<Longrightarrow> n < i \<Longrightarrow>
    \<exists>l'. delete_passes i env did l = Inr (False, l') \<and> held l' = [] \<and> ran l' = ran l"
proof (induction i arbitrary: n l did)
  case (Suc i)
  have "ranked rank (Suc n) (undelivered l)"
    using Suc.prems(1) ranked_mono [of rank n _ "Suc n"] by (simp add: ranked_held)
  then obtain l1 where l1: "DeletePendingTasks env l = (undelivered l \<noteq> [], l1)" "undelivered l1 = []"
    "extends rank n (incoming l) (incoming l1)" "ran l1 = ran l"
    using DeletePendingTasks_facts [OF p] by blast
  from Reload_facts [OF l1(2)] obtain l2 where l2: "ReloadWorkQueue l1 = Inr l2"
    "undelivered l2 = incoming_queue (incoming l1)" "incoming_queue (incoming l2) = []" "ran l2 = ran l1"
    by blast
  have r2: "ranked rank n (undelivered l2)"
    using l1(3) l2(2) Suc.prems(1) by (auto simp: extends_def ranked_held)
  have unf: "delete_passes (Suc i) env did l =
      (if undelivered l2 \<noteq> [] then delete_passes i env True (snd (DeletePendingTasks env l2))
       else Inr (False, snd (DeletePendingTasks env l2)))"
    using l1(1) l2(1) DeletePendingTasks_facts [OF p ranked_mono [OF r2, of "Suc n"]] by (auto split: prod.splits)
  show ?case
  proof (cases "undelivered l2 = []")
    case True
    then obtain l3 where "DeletePendingTasks env l2 = (False, l3)" "undelivered l3 = []"
      "extends rank 0 (incoming l2) (incoming l3)" "ran l3 = ran l2"
      using DeletePendingTasks_facts [OF p, of 0 l2] by auto
    then show ?thesis using unf True l1 l2 by (auto simp: extends_def held_Nil)
  next
    case False
    then obtain m where m: "n = Suc m" using r2 by (cases n) auto
    with r2 obtain l3 where l3: "DeletePendingTasks env l2 = (undelivered l2 \<noteq> [], l3)" "undelivered l3 = []"
      "extends rank m (incoming l2) (incoming l3)" "ran l3 = ran l2"
      using DeletePendingTasks_facts [OF p, of m l2] by auto
    then have "ranked rank m (held l3)" using l2(3) by (auto simp: extends_def ranked_held)
    then show ?thesis using Suc.IH [of m l3 True] Suc.prems(2) m unf False l3 l2(4) l1(4) by simp
  qed
qed simp

text \<open>
  C11: destruction leaves no task behind and always finishes. If the tasks posted by deleting
  closures form chains of at most 99, the destructor of a loop that is not running passes its
  assertions within its 100 passes; before the destruction observers are told, every queue is
  empty, and no task was run. Afterwards every post is refused.
\<close>

theorem MessageLoop_destruction:
  assumes "posts_lower env rank" "\<forall>pt \<in> set (held l). rank (task pt) < 99" "current_run_loop l = None"
  shows "\<exists>l1 l'. held l1 = [] \<and> ran l1 = ran l \<and> DestroyMessageLoop env l = Inr l' \<and>
    l' = (will_destroy_loop env l1)\<lparr>incoming := itq_WillDestroyCurrentMessageLoop (incoming (will_destroy_loop env l1))\<rparr> \<and>
    (\<forall>nest now fh t. proxy_Post nest now fh (Some t) 0 l' = Inr (False, l'))"
proof -
  let ?l0 = "if in_high_res_mode l then call_pump (ActivateHighResolutionTimer False) l else l"
  have "ranked rank 99 (held ?l0)" using assms(2) by (simp add: ranked_def held_def posted_def call_pump_def)
  then obtain l1 where d: "delete_passes 100 env True ?l0 = Inr (False, l1)"
    and h: "held l1 = []" "ran l1 = ran l"
    using delete_passes_enough [OF assms(1), of 99 ?l0 100 True] by (auto simp: call_pump_def)
  let ?l' = "(will_destroy_loop env l1)\<lparr>incoming :=
    itq_WillDestroyCurrentMessageLoop (incoming (will_destroy_loop env l1))\<rparr>"
  have "DestroyMessageLoop env l = Inr ?l'"
    unfolding DestroyMessageLoop_def Let_def d assms(3) by simp
  moreover have "proxy_Post nest now fh (Some t) 0 ?l' = Inr (False, ?l')" for nest now fh t
    by (cases "will_destroy_loop env l1"; cases "incoming (will_destroy_loop env l1)")
      (simp add: proxy_Post_def AddToIncomingQueue_cases InMilliseconds_def delta_is_max_def
        needs_high_res_def itq_WillDestroyCurrentMessageLoop_def)
  ultimately show ?thesis using h by blast
qed

theorem MessageLoop_destruction_witness:
  "\<exists>l'. DestroyMessageLoop quiet_env ((MessageLoop TYPE_IO)\<lparr>work_queue := [PendingTask ''a'' (Some True) 0 True]\<rparr>)
     = Inr l' \<and> proxy_Post True 5 ''b'' (Some False) 0 l' = Inr (False, l')"
proof -
  have "posts_lower quiet_env (\<lambda>c :: bool option. 0)" by (simp add: posts_lower_def quiet_env_def)
  from MessageLoop_destruction [OF this, of "(MessageLoop TYPE_IO)\<lparr>work_queue := [PendingTask ''a'' (Some True) 0 True]\<rparr>"]
  show ?thesis by (auto simp: MessageLoop_def)
qed

subsection \<open>The stack of run loops\<close>

text \<open>
  \<open>run_stack l rs\<close>: the run loops \<open>rs\<close>, innermost first, are those in progress; each is running, its
  predecessor is the next in the list and its depth is its height in the stack.
\<close>

fun run_stack :: "(nat \<Rightarrow> run_loop) \<Rightarrow> nat option \<Rightarrow> nat list \<Rightarrow> bool" where
  "run_stack rl cur [] \<longleftrightarrow> cur = None"
| "run_stack rl cur (r # rs) \<longleftrightarrow>
     cur = Some r \<and> r \<notin> set rs \<and> running (rl r) \<and> run_depth (rl r) = int (length (r # rs)) \<and>
     run_stack rl (previous_run_loop (rl r)) rs"

definition in_loops :: "'c message_loop \<Rightarrow> nat list \<Rightarrow> bool" where
  "in_loops l rs \<longleftrightarrow> run_stack (run_loops l) (current_run_loop l) rs"

lemma run_stack_other: "r \<notin> set rs \<Longrightarrow> run_stack (rl(r := x)) cur rs = run_stack rl cur rs"
  by (induction rs arbitrary: cur) auto

lemma BeforeRun_pushes:
  assumes "in_loops l rs" "r \<notin> set rs" "\<not> run_called (run_loops l r)" "\<not> quit_called (run_loops l r)"
  shows "\<exists>l1. BeforeRun r l = Inr (True, l1) \<and> in_loops l1 (r # rs) \<and>
    loop_depth l1 = int (length rs) + 1 \<and> (\<forall>p. p \<noteq> r \<longrightarrow> run_loops l1 p = run_loops l p)"
  using assms run_stack_other [OF assms(2)]
  by (cases rs) (auto simp: BeforeRun_def Let_def in_loops_def loop_depth_def run_stack_other)

text \<open>
  C18: run loops nest like a stack. Starting a run loop inside the loops \<open>rs\<close> makes it the innermost
  at depth one more; when the pump returns with the stack as it was then, the loop is back in \<open>rs\<close>
  and tells the pump to quit exactly when the next outer loop was asked to quit meanwhile. A run
  loop that was told to quit before it ran returns at once. \<^verbatim>\<open>Quit\<close> on the innermost loop tells the
  pump to quit at once; on any other loop it only records the request.
\<close>

theorem run_loops_nest:
  assumes "in_loops l rs" "r \<notin> set rs" "\<not> run_called (run_loops l r)"
    and "\<And>l1. in_loops l1 (r # rs) \<Longrightarrow> \<exists>l2. pump_Run l1 = Inr l2 \<and> in_loops l2 (r # rs)"
  shows "(quit_called (run_loops l r) \<longrightarrow> (\<exists>l'. RunLoop_Run pump_Run r l = Inr l' \<and> pump_calls l' = pump_calls l \<and> in_loops l' rs)) \<and>
    (\<not> quit_called (run_loops l r) \<longrightarrow> (\<exists>l1 l2 l'. in_loops l1 (r # rs) \<and> loop_depth l1 = int (length rs) + 1 \<and>
       pump_Run l1 = Inr l2 \<and> RunLoop_Run pump_Run r l = Inr l' \<and> in_loops l' rs \<and>
       pump_calls l' = pump_calls l2 @
         (case rs of p # _ \<Rightarrow> if quit_called (run_loops l2 p) then [Pump_Quit] else [] | [] \<Rightarrow> []))) \<and>
    (\<forall>q \<in> set rs. \<exists>l'. RunLoop_Quit q l = Inr l' \<and> quit_called (run_loops l' q) \<and>
       pump_calls l' = pump_calls l @ (if q = hd rs then [Pump_Quit] else []))"
proof (intro conjI impI ballI)
  assume q: "quit_called (run_loops l r)"
  then show "\<exists>l'. RunLoop_Run pump_Run r l = Inr l' \<and> pump_calls l' = pump_calls l \<and> in_loops l' rs"
    using assms(1-3) run_stack_other [OF assms(2)]
    by (auto simp: RunLoop_Run_def BeforeRun_def in_loops_def)
next
  assume q: "\<not> quit_called (run_loops l r)"
  obtain l1 where l1: "BeforeRun r l = Inr (True, l1)" "in_loops l1 (r # rs)" "loop_depth l1 = int (length rs) + 1"
    using BeforeRun_pushes [OF assms(1-3) q] by blast
  obtain l2 where l2: "pump_Run l1 = Inr l2" "in_loops l2 (r # rs)" using assms(4) [OF l1(2)] by blast
  have "\<exists>l'. AfterRun r l2 = Inr l' \<and> in_loops l' rs \<and> pump_calls l' = pump_calls l2 @
      (case rs of p # _ \<Rightarrow> if quit_called (run_loops l2 p) then [Pump_Quit] else [] | [] \<Rightarrow> [])"
    using l2(2) run_stack_other [OF assms(2)]
    by (cases rs) (auto simp: AfterRun_def Let_def in_loops_def ml_QuitNow_def call_pump_def)
  then show "\<exists>l1 l2 l'. in_loops l1 (r # rs) \<and> loop_depth l1 = int (length rs) + 1 \<and>
       pump_Run l1 = Inr l2 \<and> RunLoop_Run pump_Run r l = Inr l' \<and> in_loops l' rs \<and>
       pump_calls l' = pump_calls l2 @
         (case rs of p # _ \<Rightarrow> if quit_called (run_loops l2 p) then [Pump_Quit] else [] | [] \<Rightarrow> [])"
    using l1 l2 by (auto simp: RunLoop_Run_def)
next
  fix q
  assume "q \<in> set rs"
  then obtain p ps where rs: "rs = p # ps" by (cases rs) auto
  show "\<exists>l'. RunLoop_Quit q l = Inr l' \<and> quit_called (run_loops l' q) \<and>
       pump_calls l' = pump_calls l @ (if q = hd rs then [Pump_Quit] else [])"
    using assms(1) rs by (auto simp: RunLoop_Quit_def Let_def in_loops_def ml_QuitNow_def call_pump_def)
qed

theorem run_loops_nest_witness:
  "\<exists>l'. RunLoop_Run Inr 3 (MessageLoop TYPE_UI :: bool message_loop) = Inr l' \<and> in_loops l' []"
  using run_loops_nest [of "MessageLoop TYPE_UI :: bool message_loop" "[]" 3 Inr]
  by (auto simp: MessageLoop_def RunLoop_def in_loops_def)

end
