(* ===== verification/Browser_Thread.thy ===== *)
theory Browser_Thread
  imports Message_Loop_Safety
begin

text \<open>
  \<^verbatim>\<open>content/browser_thread_impl.cc\<close>, \<^verbatim>\<open>content/browser_process_sub_thread.cc\<close> and
  \<^verbatim>\<open>base/threading/thread.cc\<close>: the registry of the well-known threads, posting to them, and the
  life of a thread from its start to its stop. Message loops are kept in a store and named by
  number; \<^verbatim>\<open>MessageLoop::current()\<close> of the calling thread is the argument \<open>cur\<close>. The starting and the
  started thread meet twice, when the start event is signalled and when the thread is joined, so
  \<^verbatim>\<open>ThreadMain\<close> is two definitions, before and after its message loop runs. The closures the code binds
  are values of the record \<open>thread_closures\<close>. Calls of thread delegates are recorded in order.
\<close>

subsection \<open>Identifiers\<close>

datatype ID = UI | DB | FILE | FILE_USER_BLOCKING | PROCESS_LAUNCHER | CACHE | IO | ID_COUNT

fun id_index :: "ID \<Rightarrow> nat" where
  "id_index UI = 0" | "id_index DB = 1" | "id_index FILE = 2" | "id_index FILE_USER_BLOCKING = 3"
| "id_index PROCESS_LAUNCHER = 4" | "id_index CACHE = 5" | "id_index IO = 6" | "id_index ID_COUNT = 7"

definition all_ids :: "ID list" where
  "all_ids = [UI, DB, FILE, FILE_USER_BLOCKING, PROCESS_LAUNCHER, CACHE, IO]"

fun g_browser_thread_names :: "ID \<Rightarrow> string" where
  "g_browser_thread_names UI = ''''"
| "g_browser_thread_names DB = ''Chrome_DBThread''"
| "g_browser_thread_names FILE = ''Chrome_FileThread''"
| "g_browser_thread_names FILE_USER_BLOCKING = ''Chrome_FileUserBlockingThread''"
| "g_browser_thread_names PROCESS_LAUNCHER = ''Chrome_ProcessLauncherThread''"
| "g_browser_thread_names CACHE = ''Chrome_CacheThread''"
| "g_browser_thread_names IO = ''Chrome_IOThread''"
| "g_browser_thread_names ID_COUNT = ''''"

definition GetThreadName :: "ID \<Rightarrow> string" where
  "GetThreadName thread =
     (if id_index UI < id_index thread \<and> id_index thread < id_index ID_COUNT then g_browser_thread_names thread
      else if thread = UI then ''Chrome_UIThread'' else ''Unknown Thread'')"

lemma set_all_ids: "i \<in> set all_ids \<longleftrightarrow> i \<noteq> ID_COUNT"
  by (cases i) (auto simp: all_ids_def)

lemma id_index_inj: "id_index i = id_index j \<Longrightarrow> i = j"
  by (cases i; cases j) auto

instantiation ID :: linorder
begin

definition less_eq_ID :: "ID \<Rightarrow> ID \<Rightarrow> bool" where "less_eq_ID i j \<longleftrightarrow> id_index i \<le> id_index j"
definition less_ID :: "ID \<Rightarrow> ID \<Rightarrow> bool" where "less_ID i j \<longleftrightarrow> id_index i < id_index j"

instance
  by intro_classes (auto simp: less_eq_ID_def less_ID_def intro: id_index_inj)

end

subsection \<open>State\<close>

record thread =
  started :: bool
  stopping :: bool
  thread_running :: bool
  message_loop :: "nat option"
  was_quit_properly :: bool
  io_allowed :: bool
  identifier_of :: ID

datatype delegate_call = Delegate_Init ID | Delegate_CleanUp ID

record 'c bt_globals =
  globals_created :: bool
  threads :: "ID \<Rightarrow> thread option"
  thread_delegates :: "ID \<Rightarrow> nat option"
  loops :: "nat \<Rightarrow> 'c message_loop"
  lock_acquisitions :: nat
  delegate_calls :: "delegate_call list"

record 'c thread_closures =
  quit_helper :: 'c
  delegate_init_async :: "ID \<Rightarrow> 'c"

definition Thread :: "ID \<Rightarrow> thread" where
  "Thread i = \<lparr>started = False, stopping = False, thread_running = False, message_loop = None,
     was_quit_properly = False, io_allowed = True, identifier_of = i\<rparr>"

definition no_threads :: "'c bt_globals" where
  "no_threads = \<lparr>globals_created = False, threads = (\<lambda>_. None), thread_delegates = (\<lambda>_. None),
     loops = (\<lambda>_. MessageLoop TYPE_DEFAULT), lock_acquisitions = 0, delegate_calls = []\<rparr>"

definition with_lock :: "'c bt_globals \<Rightarrow> 'c bt_globals" where
  "with_lock g = g\<lparr>globals_created := True, lock_acquisitions := lock_acquisitions g + 1\<rparr>"

subsection \<open>Who am I\<close>

definition thread_loop :: "'c bt_globals \<Rightarrow> ID \<Rightarrow> nat option" where
  "thread_loop g i = (case threads g i of None \<Rightarrow> None | Some th \<Rightarrow> message_loop th)"

fun find_thread :: "'c bt_globals \<Rightarrow> nat option \<Rightarrow> ID list \<Rightarrow> ID option" where
  "find_thread g cur [] = None"
| "find_thread g cur (i # is) =
     (case threads g i of
        Some th \<Rightarrow> if message_loop th = cur then Some (identifier_of th) else find_thread g cur is
      | None \<Rightarrow> find_thread g cur is)"

definition GetCurrentThreadIdentifier :: "nat option \<Rightarrow> 'c bt_globals \<Rightarrow> ID option" where
  "GetCurrentThreadIdentifier cur g = (if \<not> globals_created g then None else find_thread g cur all_ids)"

definition CurrentlyOn :: "nat option \<Rightarrow> ID \<Rightarrow> 'c bt_globals \<Rightarrow> (bool \<times> 'c bt_globals) result" where
  "CurrentlyOn cur i g =
     require (i \<noteq> ID_COUNT) (Dcheck ''identifier >= 0 && identifier < ID_COUNT'')
       (Inr (threads g i \<noteq> None \<and> thread_loop g i = cur, with_lock g))"

definition IsThreadInitialized :: "ID \<Rightarrow> 'c bt_globals \<Rightarrow> (bool \<times> 'c bt_globals) result" where
  "IsThreadInitialized i g =
     (if \<not> globals_created g then Inr (False, g)
      else require (i \<noteq> ID_COUNT) (Dcheck ''identifier >= 0 && identifier < ID_COUNT'')
        (Inr (threads g i \<noteq> None, with_lock g)))"

definition IsMessageLoopValid :: "ID \<Rightarrow> 'c bt_globals \<Rightarrow> (bool \<times> 'c bt_globals) result" where
  "IsMessageLoopValid i g =
     (if \<not> globals_created g then Inr (False, g)
      else require (i \<noteq> ID_COUNT) (Dcheck ''identifier >= 0 && identifier < ID_COUNT'')
        (Inr (threads g i \<noteq> None \<and> thread_loop g i \<noteq> None, with_lock g)))"

definition UnsafeGetMessageLoopForThread :: "ID \<Rightarrow> 'c bt_globals \<Rightarrow> (nat option \<times> 'c bt_globals) result" where
  "UnsafeGetMessageLoopForThread i g =
     (if \<not> globals_created g then Inr (None, g)
      else require (threads g i \<noteq> None) (Dcheck ''thread'') (Inr (thread_loop g i, with_lock g)))"

subsection \<open>Posting\<close>

definition PostTaskHelper ::
  "nat option \<Rightarrow> time_ticks \<Rightarrow> ID \<Rightarrow> string \<Rightarrow> 'c option \<Rightarrow> time_delta \<Rightarrow> bool \<Rightarrow> 'c bt_globals \<Rightarrow>
   (bool \<times> 'c bt_globals) result"
where
  "PostTaskHelper cur now i from_here t delay nest g =
     require (i \<noteq> ID_COUNT) (Dcheck ''identifier >= 0 && identifier < ID_COUNT'')
       (let target_thread_outlives_current =
              (case GetCurrentThreadIdentifier cur g of Some c \<Rightarrow> c \<ge> i | None \<Rightarrow> False);
            g1 = (if \<not> target_thread_outlives_current then with_lock g else g\<lparr>globals_created := True\<rparr>)
        in case thread_loop g1 i of
             None \<Rightarrow> Inr (False, g1)
           | Some n \<Rightarrow>
               rbind (if nest then ml_PostDelayedTask now from_here t delay (loops g1 n)
                      else ml_PostNonNestableDelayedTask now from_here t delay (loops g1 n))
                 (\<lambda>(_, l). Inr (True, g1\<lparr>loops := (loops g1)(n := l)\<rparr>)))"

definition bt_PostTask ::
  "nat option \<Rightarrow> time_ticks \<Rightarrow> ID \<Rightarrow> string \<Rightarrow> 'c option \<Rightarrow> 'c bt_globals \<Rightarrow> (bool \<times> 'c bt_globals) result"
where "bt_PostTask cur now i fh t = PostTaskHelper cur now i fh t 0 True"

definition bt_PostDelayedTask ::
  "nat option \<Rightarrow> time_ticks \<Rightarrow> ID \<Rightarrow> string \<Rightarrow> 'c option \<Rightarrow> time_delta \<Rightarrow> 'c bt_globals \<Rightarrow> (bool \<times> 'c bt_globals) result"
where "bt_PostDelayedTask cur now i fh t delay = PostTaskHelper cur now i fh t delay True"

definition bt_PostNonNestableTask ::
  "nat option \<Rightarrow> time_ticks \<Rightarrow> ID \<Rightarrow> string \<Rightarrow> 'c option \<Rightarrow> 'c bt_globals \<Rightarrow> (bool \<times> 'c bt_globals) result"
where "bt_PostNonNestableTask cur now i fh t = PostTaskHelper cur now i fh t 0 False"

definition bt_PostNonNestableDelayedTask ::
  "nat option \<Rightarrow> time_ticks \<Rightarrow> ID \<Rightarrow> string \<Rightarrow> 'c option \<Rightarrow> time_delta \<Rightarrow> 'c bt_globals \<Rightarrow> (bool \<times> 'c bt_globals) result"
where "bt_PostNonNestableDelayedTask cur now i fh t delay = PostTaskHelper cur now i fh t delay False"

definition SetDelegate :: "ID \<Rightarrow> nat option \<Rightarrow> 'c bt_globals \<Rightarrow> 'c bt_globals result" where
  "SetDelegate i delegate g =
     require (delegate = None \<or> thread_delegates g i = None) (Dcheck ''!delegate || !old_pointer'')
       (Inr (g\<lparr>globals_created := True, thread_delegates := (thread_delegates g)(i := delegate)\<rparr>))"

subsection \<open>Life of a thread\<close>

abbreviation upd_thread :: "ID \<Rightarrow> (thread \<Rightarrow> thread) \<Rightarrow> 'c bt_globals \<Rightarrow> 'c bt_globals" where
  "upd_thread i f g \<equiv> g\<lparr>threads := (threads g)(i := map_option f (threads g i))\<rparr>"

definition bt_Initialize :: "thread \<Rightarrow> 'c bt_globals \<Rightarrow> 'c bt_globals result" where
  "bt_Initialize th g =
     require (identifier_of th \<noteq> ID_COUNT) (Dcheck ''identifier_ >= 0 && identifier_ < ID_COUNT'')
       (require (threads g (identifier_of th) = None) (Dcheck ''globals.threads[identifier_] == NULL'')
         (Inr ((with_lock g)\<lparr>threads := (threads g)(identifier_of th := Some th)\<rparr>)))"

definition BrowserThreadImpl :: "ID \<Rightarrow> 'c bt_globals \<Rightarrow> 'c bt_globals result" where
  "BrowserThreadImpl i g = bt_Initialize (Thread i) g"

definition BrowserThreadImpl_with_loop :: "ID \<Rightarrow> nat \<Rightarrow> 'c bt_globals \<Rightarrow> 'c bt_globals result" where
  "BrowserThreadImpl_with_loop i n g = bt_Initialize ((Thread i)\<lparr>message_loop := Some n\<rparr>) g"

definition bt_Init :: "'c thread_closures \<Rightarrow> time_ticks \<Rightarrow> ID \<Rightarrow> 'c bt_globals \<Rightarrow> 'c bt_globals result" where
  "bt_Init cl now i g =
     (case thread_delegates g i of
        None \<Rightarrow> Inr g
      | Some _ \<Rightarrow>
          let g1 = g\<lparr>delegate_calls := delegate_calls g @ [Delegate_Init i]\<rparr> in
          case thread_loop g1 i of
            None \<Rightarrow> Inl (Null_deref ''message_loop()'')
          | Some n \<Rightarrow> rbind (ml_PostTask now ''FROM_HERE'' (Some (delegate_init_async cl i)) (loops g1 n))
              (\<lambda>(_, l). Inr (g1\<lparr>loops := (loops g1)(n := l)\<rparr>)))"

definition SubThread_Init :: "'c thread_closures \<Rightarrow> time_ticks \<Rightarrow> ID \<Rightarrow> 'c bt_globals \<Rightarrow> 'c bt_globals result" where
  "SubThread_Init cl now i g =
     rbind (bt_Init cl now i g) (\<lambda>g1.
     rbind (CurrentlyOn (thread_loop g1 i) IO g1) (\<lambda>(on_io, g2).
       Inr (if on_io then upd_thread i (\<lambda>th. th\<lparr>io_allowed := False\<rparr>) g2 else g2)))"

text \<open>\<^verbatim>\<open>ThreadMain\<close> up to the signal that the thread has started; \<open>n\<close> names the new message loop.\<close>

definition ThreadMain_begin ::
  "'c thread_closures \<Rightarrow> time_ticks \<Rightarrow> loop_type \<Rightarrow> nat \<Rightarrow> ID \<Rightarrow> 'c bt_globals \<Rightarrow> 'c bt_globals result"
where
  "ThreadMain_begin cl now type n i g =
     (let g1 = (upd_thread i (\<lambda>th. th\<lparr>message_loop := Some n\<rparr>) g)\<lparr>loops := (loops g)(n := MessageLoop type)\<rparr>
      in rbind (SubThread_Init cl now i g1) (\<lambda>g2. Inr (upd_thread i (\<lambda>th. th\<lparr>thread_running := True\<rparr>) g2)))"

definition StartWithOptions ::
  "'c thread_closures \<Rightarrow> time_ticks \<Rightarrow> bool \<Rightarrow> loop_type \<Rightarrow> nat \<Rightarrow> ID \<Rightarrow> 'c bt_globals \<Rightarrow> (bool \<times> 'c bt_globals) result"
where
  "StartWithOptions cl now created type n i g =
     require (thread_loop g i = None) (Dcheck ''!message_loop_'')
       (let g1 = upd_thread i (\<lambda>th. th\<lparr>was_quit_properly := False\<rparr>) g in
        if \<not> created then Inr (False, g1)
        else rbind (ThreadMain_begin cl now type n i g1) (\<lambda>g2.
          let g3 = upd_thread i (\<lambda>th. th\<lparr>started := True\<rparr>) g2
          in require (thread_loop g3 i \<noteq> None) (Dcheck ''message_loop_'') (Inr (True, g3))))"

definition ThreadQuitHelper :: "ID \<Rightarrow> 'c bt_globals \<Rightarrow> 'c bt_globals" where
  "ThreadQuitHelper i g = upd_thread i (\<lambda>th. th\<lparr>was_quit_properly := True\<rparr>) g"

definition StopSoon :: "'c thread_closures \<Rightarrow> time_ticks \<Rightarrow> ID \<Rightarrow> 'c bt_globals \<Rightarrow> 'c bt_globals result" where
  "StopSoon cl now i g =
     (case threads g i of
        None \<Rightarrow> Inl (Null_deref ''thread'')
      | Some th \<Rightarrow>
          (case message_loop th of
             None \<Rightarrow> Inr g
           | Some n \<Rightarrow>
               if stopping th then Inr g
               else rbind (ml_PostTask now ''FROM_HERE'' (Some (quit_helper cl)) (loops g n)) (\<lambda>(_, l).
                 Inr ((upd_thread i (\<lambda>th. th\<lparr>stopping := True\<rparr>) g)\<lparr>loops := (loops g)(n := l)\<rparr>))))"

definition bt_CleanUp :: "ID \<Rightarrow> 'c bt_globals \<Rightarrow> 'c bt_globals" where
  "bt_CleanUp i g =
     (case thread_delegates g i of
        None \<Rightarrow> g
      | Some _ \<Rightarrow> g\<lparr>delegate_calls := delegate_calls g @ [Delegate_CleanUp i]\<rparr>)"

text \<open>\<^verbatim>\<open>ThreadMain\<close> after its message loop has returned.\<close>

definition ThreadMain_end :: "ID \<Rightarrow> 'c bt_globals \<Rightarrow> 'c bt_globals result" where
  "ThreadMain_end i g =
     (let g1 = bt_CleanUp i (upd_thread i (\<lambda>th. th\<lparr>thread_running := False\<rparr>) g)
      in require (case threads g1 i of Some th \<Rightarrow> was_quit_properly th | None \<Rightarrow> False) (Dcheck ''GetThreadWasQuitProperly()'')
        (Inr (upd_thread i (\<lambda>th. th\<lparr>message_loop := None\<rparr>) g1)))"

text \<open>
  \<^verbatim>\<open>Stop\<close> waits for the thread to exit. What the thread's message loop does until it returns is the
  parameter \<open>run_to_quit\<close>.
\<close>

definition Stop ::
  "'c thread_closures \<Rightarrow> ('c bt_globals \<Rightarrow> 'c bt_globals) \<Rightarrow> time_ticks \<Rightarrow> ID \<Rightarrow> 'c bt_globals \<Rightarrow> 'c bt_globals result"
where
  "Stop cl run_to_quit now i g =
     (case threads g i of
        None \<Rightarrow> Inl (Null_deref ''thread'')
      | Some th \<Rightarrow>
          if \<not> started th then Inr g
          else rbind (StopSoon cl now i g) (\<lambda>g1.
               rbind (ThreadMain_end i (run_to_quit g1)) (\<lambda>g2.
                 require (thread_loop g2 i = None) (Dcheck ''!message_loop_'')
                   (Inr (upd_thread i (\<lambda>th. th\<lparr>started := False, stopping := False\<rparr>) g2)))))"

definition DestroyBrowserThread ::
  "'c thread_closures \<Rightarrow> ('c bt_globals \<Rightarrow> 'c bt_globals) \<Rightarrow> time_ticks \<Rightarrow> ID \<Rightarrow> 'c bt_globals \<Rightarrow> 'c bt_globals result"
where
  "DestroyBrowserThread cl run_to_quit now i g =
     rbind (Stop cl run_to_quit now i g) (\<lambda>g1.
       let g2 = (with_lock g1)\<lparr>threads := (threads g1)(i := None)\<rparr>
       in require (list_all (\<lambda>j. j > i \<longrightarrow> threads g2 j = None) all_ids)
            (Dcheck ''Threads must be listed in the reverse order that they die'') (Inr g2))"

subsection \<open>Posting reaches the right loop\<close>

definition registry_ok :: "'c bt_globals \<Rightarrow> bool" where
  "registry_ok g \<longleftrightarrow> threads g ID_COUNT = None \<and> (\<forall>i th. threads g i = Some th \<longrightarrow> identifier_of th = i)"

lemma with_lock_simps [simp]:
  "threads (with_lock g) = threads g" "loops (with_lock g) = loops g" "thread_loop (with_lock g) = thread_loop g"
  "thread_delegates (with_lock g) = thread_delegates g" "delegate_calls (with_lock g) = delegate_calls g"
  "lock_acquisitions (with_lock g) = lock_acquisitions g + 1"
  by (simp_all add: with_lock_def thread_loop_def fun_eq_iff)

text \<open>What the code takes for a caller that the target outlives.\<close>

abbreviation outlived :: "nat option \<Rightarrow> ID \<Rightarrow> 'c bt_globals \<Rightarrow> bool" where
  "outlived cur i g \<equiv> (case GetCurrentThreadIdentifier cur g of Some c \<Rightarrow> i \<le> c | None \<Rightarrow> False)"

lemma PostTaskHelper_effect:
  assumes "i \<noteq> ID_COUNT" "t \<noteq> None" "0 \<le> delay"
  shows "\<exists>ok g'. PostTaskHelper cur now i fh t delay nest g = Inr (ok, g') \<and> threads g' = threads g \<and>
    lock_acquisitions g' = lock_acquisitions g + (if outlived cur i g then 0 else 1) \<and>
    (case thread_loop g i of
       None \<Rightarrow> \<not> ok \<and> loops g' = loops g
     | Some n \<Rightarrow> ok \<and> (\<exists>b l. proxy_Post nest now fh t delay (loops g n) = Inr (b, l) \<and> loops g' = (loops g)(n := l)))"
proof -
  define g1 where "g1 = (if \<not> outlived cur i g then with_lock g else g\<lparr>globals_created := True\<rparr>)"
  have g1: "threads g1 = threads g" "loops g1 = loops g" "thread_loop g1 i = thread_loop g i"
    "lock_acquisitions g1 = lock_acquisitions g + (if outlived cur i g then 0 else 1)"
    by (simp_all add: g1_def thread_loop_def)
  have r: "PostTaskHelper cur now i fh t delay nest g =
      (case thread_loop g i of None \<Rightarrow> Inr (False, g1)
       | Some n \<Rightarrow> rbind (proxy_Post nest now fh t delay (loops g n)) (\<lambda>(_, l). Inr (True, g1\<lparr>loops := (loops g)(n := l)\<rparr>)))"
    using assms(1) g1
    by (auto simp: PostTaskHelper_def Let_def g1_def ml_PostDelayedTask_def
        ml_PostNonNestableDelayedTask_def split: option.splits)
  show ?thesis
  proof (cases "thread_loop g i")
    case None
    then show ?thesis using r g1 by auto
  next
    case (Some n)
    obtain b l where p: "proxy_Post nest now fh t delay (loops g n) = Inr (b, l)"
      using post_succeeds [OF assms(3,2)] by blast
    then show ?thesis using r g1 Some by auto
  qed
qed

subsection \<open>Knowing the current thread\<close>

lemma find_thread_Some:
  assumes "registry_ok g" "find_thread g cur is = Some i"
  shows "i \<in> set is \<and> (\<exists>th. threads g i = Some th \<and> message_loop th = cur)"
  using assms(2)
proof (induction "is")
  case (Cons j js)
  then show ?case using assms(1) by (fastforce simp: registry_ok_def split: option.splits if_splits)
qed simp

lemma find_thread_None:
  "find_thread g cur is = None \<longleftrightarrow> (\<forall>i \<in> set is. \<forall>th. threads g i = Some th \<longrightarrow> message_loop th \<noteq> cur)"
  by (induction "is") (auto split: option.splits)

subsection \<open>What posting promises\<close>

text \<open>
  What a loop has got after a post: a loop that is alive has the task, with the next number, behind its queue, and its
  pump has been told when the queue was empty and no wake-up outstanding; a loop that is being destroyed has nothing new.
  Beside the incoming queue and the calls of the pump nothing has changed.
\<close>

definition got_task ::
  "time_ticks \<Rightarrow> string \<Rightarrow> 'c option \<Rightarrow> time_delta \<Rightarrow> bool \<Rightarrow> 'c message_loop \<Rightarrow> 'c message_loop \<Rightarrow> bool"
where
  "got_task now fh t delay nest l l' \<longleftrightarrow>
     (if message_loop_alive (incoming l)
      then incoming_queue (incoming l') =
             incoming_queue (incoming l) @ [queued_task now fh t delay nest (next_sequence_num (incoming l))] \<and>
           (incoming_queue (incoming l) = [] \<and> \<not> message_loop_scheduled (incoming l) \<longrightarrow>
             pump_calls l' = pump_calls l @ [Pump_ScheduleWork])
      else incoming_queue (incoming l') = incoming_queue (incoming l) \<and> pump_calls l' = pump_calls l) \<and>
     l'\<lparr>incoming := incoming l, pump_calls := pump_calls l\<rparr> = l"

lemma proxy_Post_got_task:
  assumes "0 \<le> delay" "t \<noteq> None"
  shows "\<exists>b l'. proxy_Post nest now fh t delay l = Inr (b, l') \<and> b = message_loop_alive (incoming l) \<and> got_task now fh t delay nest l l'"
proof -
  have "0 < delay \<or> InMilliseconds delay = 0"
    using assms(1) by (auto simp: InMilliseconds_def delta_is_max_def time_consts sdiv_nonneg)
  with assms(2) show ?thesis
    by (auto simp: proxy_Post_def AddToIncomingQueue_cases Let_def got_task_def ml_ScheduleWork_def call_pump_def)
qed

text \<open>The loops of different threads are different.\<close>

definition loops_distinct :: "'c bt_globals \<Rightarrow> bool" where
  "loops_distinct g \<longleftrightarrow> (\<forall>i j n. thread_loop g i = Some n \<longrightarrow> thread_loop g j = Some n \<longrightarrow> i = j)"

lemma outlived_iff:
  assumes "registry_ok g" "loops_distinct g"
  shows "outlived (Some m) i g \<longleftrightarrow> globals_created g \<and> (\<exists>c \<ge> i. thread_loop g c = Some m)"
proof (cases "find_thread g (Some m) all_ids")
  case None
  have "thread_loop g c \<noteq> Some m" for c
    using None assms(1) find_thread_None [of g "Some m" all_ids]
    by (cases "c = ID_COUNT") (auto simp: registry_ok_def set_all_ids thread_loop_def split: option.splits)
  then show ?thesis using None by (simp add: GetCurrentThreadIdentifier_def)
next
  case (Some c)
  then have "thread_loop g c = Some m" using find_thread_Some [OF assms(1) Some] by (auto simp: thread_loop_def)
  then have "thread_loop g d = Some m \<longleftrightarrow> d = c" for d using assms(2) by (auto simp: loops_distinct_def)
  then show ?thesis using Some by (simp add: GetCurrentThreadIdentifier_def)
qed

lemma destroyed_last:
  assumes "DestroyBrowserThread cl run_to_quit now i g = Inr g'" "i \<le> c" "c \<noteq> ID_COUNT"
  shows "threads g' c = None"
proof -
  have "list_all (\<lambda>j. j > i \<longrightarrow> threads g' j = None) all_ids" "threads g' i = None"
    using assms(1) by (auto simp: DestroyBrowserThread_def rsimps Let_def)
  then show ?thesis using assms(2,3) by (cases "c = i") (auto simp: list_all_iff set_all_ids)
qed

text \<open>
  C10: posting from a thread with a message loop to a well-known thread reports whether the target is registered and has
  a loop. Then that loop, if it is not being destroyed, has the task behind its queue, as nestable or not as
  asked, with its number and run time, and is woken when it may wait; no other loop and no registration changes. The
  registry lock is not taken exactly when the caller's loop is that of the target or of a
  thread after it in the list, and then the target is not destroyed while the caller's thread is registered: after any
  destruction of the target that passes its assertions the caller's registration is gone.
\<close>

theorem PostTaskHelper_correct:
  fixes g :: "'c bt_globals"
  assumes "i \<noteq> ID_COUNT" "t \<noteq> None" "0 \<le> delay" "registry_ok g" "loops_distinct g"
  shows "\<exists>ok g'. PostTaskHelper (Some m) now i fh t delay nest g = Inr (ok, g') \<and> threads g' = threads g \<and>
    (ok \<longleftrightarrow> thread_loop g i \<noteq> None) \<and>
    (\<forall>n. if thread_loop g i = Some n then got_task now fh t delay nest (loops g n) (loops g' n) else loops g' n = loops g n) \<and>
    lock_acquisitions g' = lock_acquisitions g +
      (if globals_created g \<and> (\<exists>c \<ge> i. thread_loop g c = Some m) then 0 else 1) \<and>
    (\<forall>c \<ge> i. thread_loop g c = Some m \<longrightarrow>
      (\<forall>cl run_to_quit later g2 (g3 :: 'c bt_globals). DestroyBrowserThread cl run_to_quit later i g2 = Inr g3 \<longrightarrow> threads g3 c = None))"
proof -
  obtain ok g' where p: "PostTaskHelper (Some m) now i fh t delay nest g = Inr (ok, g')" "threads g' = threads g"
    "lock_acquisitions g' = lock_acquisitions g + (if outlived (Some m) i g then 0 else 1)"
    "case thread_loop g i of
       None \<Rightarrow> \<not> ok \<and> loops g' = loops g
     | Some n \<Rightarrow> ok \<and> (\<exists>b l. proxy_Post nest now fh t delay (loops g n) = Inr (b, l) \<and> loops g' = (loops g)(n := l))"
    using PostTaskHelper_effect [OF assms(1-3)] by blast
  have "c \<noteq> ID_COUNT" if "thread_loop g c = Some m" for c
    using that assms(4) by (auto simp: registry_ok_def thread_loop_def)
  then have last: "threads g3 c = None"
    if "i \<le> c" "thread_loop g c = Some m" "DestroyBrowserThread cl run_to_quit later i g2 = Inr g3" for c cl run_to_quit later g2 and g3 :: "'c bt_globals"
    using destroyed_last that by blast
  have "(ok \<longleftrightarrow> thread_loop g i \<noteq> None) \<and>
    (\<forall>n. if thread_loop g i = Some n then got_task now fh t delay nest (loops g n) (loops g' n) else loops g' n = loops g n)"
  proof (cases "thread_loop g i")
    case (Some n)
    then show ?thesis
      using p(4) proxy_Post_got_task [OF assms(3,2), of nest now fh "loops g n"] by auto
  qed (use p(4) in auto)
  then show ?thesis using p(1-3) last outlived_iff [OF assms(4,5), of i m] by auto
qed

definition posting_threads :: "bool bt_globals" where
  "posting_threads = no_threads\<lparr>globals_created := True,
     threads := (\<lambda>_. None)(UI := Some ((Thread UI)\<lparr>message_loop := Some 4\<rparr>), IO := Some ((Thread IO)\<lparr>message_loop := Some 5\<rparr>))\<rparr>"

theorem PostTaskHelper_correct_witness:
  "\<exists>g'. PostTaskHelper (Some 5) 9 UI ''f'' (Some True) 0 True posting_threads = Inr (True, g') \<and>
     incoming_queue (incoming (loops g' 4)) = [queued_task 9 ''f'' (Some True) 0 True 0] \<and>
     loops g' 5 = loops posting_threads 5 \<and> lock_acquisitions g' = 0"
proof -
  have t: "thread_loop posting_threads c = (if c = UI then Some 4 else if c = IO then Some 5 else None)" for c
    by (simp add: posting_threads_def thread_loop_def)
  have "registry_ok posting_threads" by (simp add: registry_ok_def posting_threads_def no_threads_def Thread_def)
  moreover have "loops_distinct posting_threads" by (simp add: loops_distinct_def t)
  moreover have "\<exists>c \<ge> UI. thread_loop posting_threads c = Some 5" by (intro exI [of _ IO]) (simp add: less_eq_ID_def t)
  moreover have "globals_created posting_threads" "lock_acquisitions posting_threads = 0"
    by (simp_all add: posting_threads_def no_threads_def)
  ultimately obtain g' where g': "PostTaskHelper (Some 5) 9 UI ''f'' (Some True) 0 True posting_threads = Inr (True, g')"
    "lock_acquisitions g' = 0"
    "\<And>n. if n = 4 then got_task 9 ''f'' (Some True) 0 True (loops posting_threads n) (loops g' n)
      else loops g' n = loops posting_threads n"
    using PostTaskHelper_correct [of UI "Some True" 0 posting_threads 5 9 "''f''" True] by (auto simp: t [of UI])
  have "loops posting_threads 4 = MessageLoop TYPE_DEFAULT" by (simp add: posting_threads_def no_threads_def)
  then have "incoming_queue (incoming (loops g' 4)) = [queued_task 9 ''f'' (Some True) 0 True 0]"
    using g'(3) [of 4] by (simp add: got_task_def MessageLoop_def IncomingTaskQueue_def)
  then show ?thesis using g'(1,2) g'(3) [of 5] by auto
qed

text \<open>
  On a thread with a message loop the two ways to ask for the current thread agree: with distinct
  loops registered, \<^verbatim>\<open>GetCurrentThreadIdentifier\<close> gives the one identifier for which
  \<^verbatim>\<open>CurrentlyOn\<close> holds, and none if there is none. On a thread without a message loop, where
  \<^verbatim>\<open>MessageLoop::current()\<close> is null, any registered thread that has no loop (not started yet, or
  stopped) is taken for the current one.
\<close>

theorem current_thread_identity:
  assumes "registry_ok g" "globals_created g"
    and "\<forall>i j n. thread_loop g i = Some n \<longrightarrow> thread_loop g j = Some n \<longrightarrow> i = j"
  shows "(\<forall>i n. i \<noteq> ID_COUNT \<longrightarrow>
      (GetCurrentThreadIdentifier (Some n) g = Some i \<longleftrightarrow> CurrentlyOn (Some n) i g = Inr (True, with_lock g))) \<and>
    (\<forall>i th. threads g i = Some th \<longrightarrow> message_loop th = None \<longrightarrow>
      GetCurrentThreadIdentifier None g \<noteq> None \<and> CurrentlyOn None i g = Inr (True, with_lock g))"
proof (intro conjI allI impI)
  fix i n
  assume i: "i \<noteq> ID_COUNT"
  have c: "CurrentlyOn (Some n) i g = Inr (True, with_lock g) \<longleftrightarrow> thread_loop g i = Some n"
    using i by (auto simp: CurrentlyOn_def thread_loop_def split: option.splits)
  show "GetCurrentThreadIdentifier (Some n) g = Some i \<longleftrightarrow> CurrentlyOn (Some n) i g = Inr (True, with_lock g)"
  proof
    assume "GetCurrentThreadIdentifier (Some n) g = Some i"
    then have "find_thread g (Some n) all_ids = Some i" using assms(2) by (simp add: GetCurrentThreadIdentifier_def)
    from find_thread_Some [OF assms(1) this] show "CurrentlyOn (Some n) i g = Inr (True, with_lock g)"
      unfolding c by (auto simp: thread_loop_def)
  next
    assume "CurrentlyOn (Some n) i g = Inr (True, with_lock g)"
    then have l: "thread_loop g i = Some n" unfolding c .
    then have "find_thread g (Some n) all_ids \<noteq> None"
      using i find_thread_None [of g "Some n" all_ids] by (auto simp: set_all_ids thread_loop_def split: option.splits)
    then obtain j where j: "find_thread g (Some n) all_ids = Some j" by auto
    then have "thread_loop g j = Some n" using find_thread_Some [OF assms(1) j] by (auto simp: thread_loop_def)
    then have "j = i" using assms(3) l by blast
    then show "GetCurrentThreadIdentifier (Some n) g = Some i"
      using j assms(2) by (simp add: GetCurrentThreadIdentifier_def)
  qed
next
  fix i th
  assume t: "threads g i = Some th" "message_loop th = None"
  then have "i \<noteq> ID_COUNT" using assms(1) by (auto simp: registry_ok_def)
  then show "GetCurrentThreadIdentifier None g \<noteq> None" "CurrentlyOn None i g = Inr (True, with_lock g)"
    using t assms(2) find_thread_None [of g None all_ids]
    by (auto simp: GetCurrentThreadIdentifier_def CurrentlyOn_def thread_loop_def set_all_ids)
qed

definition two_threads :: "bool bt_globals" where
  "two_threads = no_threads\<lparr>globals_created := True,
     threads := (\<lambda>_. None)(UI := Some ((Thread UI)\<lparr>message_loop := Some 4\<rparr>), IO := Some (Thread IO))\<rparr>"

theorem current_thread_identity_witness:
  "GetCurrentThreadIdentifier (Some 4) two_threads = Some UI \<and> GetCurrentThreadIdentifier None two_threads \<noteq> None"
proof -
  have t: "threads two_threads = (\<lambda>_. None)(UI := Some ((Thread UI)\<lparr>message_loop := Some 4\<rparr>), IO := Some (Thread IO))"
    by (simp add: two_threads_def)
  then have l: "thread_loop two_threads i = (if i = UI then Some 4 else None)" for i
    by (simp add: thread_loop_def Thread_def)
  have "registry_ok two_threads" by (auto simp: registry_ok_def t Thread_def split: if_splits)
  moreover have "globals_created two_threads" by (simp add: two_threads_def)
  moreover have "\<forall>i j n. thread_loop two_threads i = Some n \<longrightarrow> thread_loop two_threads j = Some n \<longrightarrow> i = j"
    by (auto simp: l split: if_splits)
  ultimately have c: "\<And>i n. i \<noteq> ID_COUNT \<Longrightarrow> GetCurrentThreadIdentifier (Some n) two_threads = Some i \<longleftrightarrow>
      CurrentlyOn (Some n) i two_threads = Inr (True, with_lock two_threads)"
    and d: "\<And>i th. threads two_threads i = Some th \<Longrightarrow> message_loop th = None \<Longrightarrow>
      GetCurrentThreadIdentifier None two_threads \<noteq> None"
    using current_thread_identity [of two_threads] by blast+
  show ?thesis using c [of UI 4] d [of IO "Thread IO"] by (simp add: CurrentlyOn_def l t Thread_def)
qed

subsection \<open>Start and stop\<close>

text \<open>The message loop of thread \<open>i\<close> runs until the quit task ran, and registers nothing.\<close>

definition quits_properly :: "ID \<Rightarrow> ('c bt_globals \<Rightarrow> 'c bt_globals) \<Rightarrow> bool" where
  "quits_properly i run \<longleftrightarrow> (\<forall>g. threads (run g) = threads (ThreadQuitHelper i g) \<and>
     thread_delegates (run g) = thread_delegates g \<and> delegate_calls (run g) = delegate_calls g)"

lemma thread_loop_upd [simp]:
  "threads g i = Some th \<Longrightarrow> thread_loop (upd_thread i f g) i = message_loop (f th)"
  by (simp add: thread_loop_def)

lemma bt_Init_effect:
  assumes "threads g i = Some th" "message_loop th = Some n"
  shows "\<exists>l. bt_Init cl now i g = Inr (g\<lparr>delegate_calls := delegate_calls g @ (if thread_delegates g i = None then [] else [Delegate_Init i]),
    loops := (loops g)(n := l)\<rparr>)"
proof (cases "thread_delegates g i")
  case None
  then show ?thesis by (intro exI [of _ "loops g n"]) (simp add: bt_Init_def)
next
  case (Some d)
  obtain b l where "proxy_Post True now ''FROM_HERE'' (Some (delegate_init_async cl i)) 0 (loops g n) = Inr (b, l)"
    using post_succeeds [of 0 "Some (delegate_init_async cl i)" True now "''FROM_HERE''" "loops g n"] by auto
  then show ?thesis using Some assms
    by (auto simp: bt_Init_def thread_loop_def Let_def ml_PostTask_def ml_PostDelayedTask_def)
qed

lemma StartWithOptions_effect:
  assumes "threads g i = Some th" "message_loop th = None" "i \<noteq> ID_COUNT"
    and "\<forall>j. j \<noteq> i \<longrightarrow> thread_loop g j \<noteq> Some n"
  shows "\<exists>g1. StartWithOptions cl now True type n i g = Inr (True, g1) \<and>
    threads g1 = (threads g)(i := Some (th\<lparr>was_quit_properly := False, message_loop := Some n,
      io_allowed := (i \<noteq> IO \<and> io_allowed th), thread_running := True, started := True\<rparr>)) \<and>
    thread_delegates g1 = thread_delegates g \<and>
    delegate_calls g1 = delegate_calls g @ (if thread_delegates g i = None then [] else [Delegate_Init i])"
proof -
  let ?th1 = "th\<lparr>was_quit_properly := False, message_loop := Some n\<rparr>"
  let ?g0 = "(upd_thread i (\<lambda>th. th\<lparr>was_quit_properly := False\<rparr>) g)"
  let ?g1 = "(upd_thread i (\<lambda>th. th\<lparr>message_loop := Some n\<rparr>) ?g0)\<lparr>loops := (loops ?g0)(n := MessageLoop type)\<rparr>"
  have t1: "threads ?g1 i = Some ?th1" using assms(1) by simp
  then obtain l where b: "bt_Init cl now i ?g1 = Inr (?g1\<lparr>delegate_calls := delegate_calls g @
      (if thread_delegates g i = None then [] else [Delegate_Init i]), loops := (loops ?g1)(n := l)\<rparr>)"
    (is "_ = Inr ?g2")
    using bt_Init_effect [OF t1, of n cl now] by auto
  have "thread_loop ?g2 i = Some n" using assms(1) by (simp add: thread_loop_def)
  moreover have "(threads ?g2 IO \<noteq> None \<and> thread_loop ?g2 IO = Some n) = (i = IO)"
    using assms by (auto simp: thread_loop_def split: option.splits if_splits)
  ultimately have "SubThread_Init cl now i ?g1 =
      Inr (if i = IO then upd_thread i (\<lambda>th. th\<lparr>io_allowed := False\<rparr>) (with_lock ?g2) else with_lock ?g2)"
    unfolding SubThread_Init_def b by (simp add: CurrentlyOn_def)
  then show ?thesis using assms
    by (simp add: StartWithOptions_def thread_loop_def ThreadMain_begin_def Let_def fun_eq_iff) auto
qed

lemma StopSoon_effect:
  assumes "threads g i = Some th"
  shows "\<exists>g1. StopSoon cl now i g = Inr g1 \<and> thread_delegates g1 = thread_delegates g \<and>
    delegate_calls g1 = delegate_calls g \<and>
    threads g1 = (threads g)(i := Some (th\<lparr>stopping := stopping th \<or> message_loop th \<noteq> None\<rparr>))"
proof (cases "message_loop th")
  case None
  then show ?thesis using assms by (auto simp: StopSoon_def)
next
  case (Some n)
  obtain b l where "proxy_Post True now ''FROM_HERE'' (Some (quit_helper cl)) 0 (loops g n) = Inr (b, l)"
    using post_succeeds [of 0 "Some (quit_helper cl)" True now "''FROM_HERE''" "loops g n"] by auto
  then show ?thesis using assms Some
    by (cases "stopping th") (auto simp: StopSoon_def ml_PostTask_def ml_PostDelayedTask_def fun_upd_idem_iff)
qed

lemma Stop_effect:
  assumes t: "threads g i = Some th" and q: "quits_properly i run"
  shows "\<exists>g2. Stop cl run now i g = Inr g2 \<and> thread_delegates g2 = thread_delegates g \<and>
    delegate_calls g2 = delegate_calls g @
      (if started th \<and> thread_delegates g i \<noteq> None then [Delegate_CleanUp i] else []) \<and>
    threads g2 = (threads g)(i := Some (if started th then
      th\<lparr>stopping := False, was_quit_properly := True, thread_running := False, message_loop := None, started := False\<rparr> else th))"
proof (cases "started th")
  case False
  then show ?thesis using t by (auto simp: Stop_def)
next
  case True
  obtain g1 where g1: "StopSoon cl now i g = Inr g1" "thread_delegates g1 = thread_delegates g"
    "delegate_calls g1 = delegate_calls g"
    "threads g1 = (threads g)(i := Some (th\<lparr>stopping := stopping th \<or> message_loop th \<noteq> None\<rparr>))"
    using StopSoon_effect [OF t, of cl now] by blast
  have r: "threads (run g1) = (threads g)(i := Some (th\<lparr>stopping := stopping th \<or> message_loop th \<noteq> None, was_quit_properly := True\<rparr>))"
    "thread_delegates (run g1) = thread_delegates g" "delegate_calls (run g1) = delegate_calls g"
    using q g1 by (simp_all add: quits_properly_def ThreadQuitHelper_def)
  then show ?thesis using True t g1(1)
    by (cases "thread_delegates g i")
      (auto simp: Stop_def ThreadMain_end_def bt_CleanUp_def thread_loop_def Let_def)
qed

lemma DestroyBrowserThread_effect:
  assumes "threads g i = Some th" "quits_properly i run" "\<forall>j. i < j \<longrightarrow> threads g j = None"
  shows "\<exists>g'. DestroyBrowserThread cl run now i g = Inr g' \<and> threads g' = (threads g)(i := None) \<and>
    thread_delegates g' = thread_delegates g \<and>
    delegate_calls g' = delegate_calls g @
      (if started th \<and> thread_delegates g i \<noteq> None then [Delegate_CleanUp i] else [])"
  using Stop_effect [OF assms(1,2), of cl now] assms(3)
  by (auto simp: DestroyBrowserThread_def list_all_iff)

text \<open>
  Starting and stopping a thread. Starting a constructed thread
  gives it its own running message loop and tells its delegate to initialise before the start
  returns; stopping it posts the quit task, waits for the loop to return, tells the delegate to
  clean up, and leaves the thread as constructed, without a loop. Only the IO thread loses the
  right to block. Stopping a thread that is not started does nothing.
\<close>

theorem thread_start_stop:
  assumes "threads g i = Some (Thread i)" "i \<noteq> ID_COUNT" "\<forall>j. j \<noteq> i \<longrightarrow> thread_loop g j \<noteq> Some n"
    and "quits_properly i run"
  shows "\<exists>g1 g2 th1. StartWithOptions cl now True type n i g = Inr (True, g1) \<and>
    threads g1 i = Some th1 \<and> message_loop th1 = Some n \<and> thread_running th1 \<and> (io_allowed th1 \<longleftrightarrow> i \<noteq> IO) \<and>
    Stop cl run now' i g1 = Inr g2 \<and>
    threads g2 = (threads g)(i := Some ((Thread i)\<lparr>was_quit_properly := True, io_allowed := (i \<noteq> IO)\<rparr>)) \<and>
    delegate_calls g2 = delegate_calls g @
      (if thread_delegates g i = None then [] else [Delegate_Init i, Delegate_CleanUp i]) \<and>
    Stop cl run now' i g2 = Inr g2"
proof -
  obtain g1 where g1: "StartWithOptions cl now True type n i g = Inr (True, g1)"
    "threads g1 = (threads g)(i := Some ((Thread i)\<lparr>was_quit_properly := False, message_loop := Some n,
      io_allowed := (i \<noteq> IO \<and> io_allowed (Thread i)), thread_running := True, started := True\<rparr>))"
    "thread_delegates g1 = thread_delegates g"
    "delegate_calls g1 = delegate_calls g @ (if thread_delegates g i = None then [] else [Delegate_Init i])"
    using StartWithOptions_effect [OF assms(1) _ assms(2,3), of cl now type] by (auto simp: Thread_def)
  then obtain th1 where th1: "threads g1 i = Some th1" "started th1" "message_loop th1 = Some n"
    "thread_running th1" "io_allowed th1 \<longleftrightarrow> i \<noteq> IO"
    "th1 = (Thread i)\<lparr>was_quit_properly := False, message_loop := Some n, io_allowed := (i \<noteq> IO),
      thread_running := True, started := True\<rparr>"
    by (simp add: Thread_def)
  obtain g2 where "Stop cl run now' i g1 = Inr g2" "delegate_calls g2 = delegate_calls g1 @
      (if thread_delegates g1 i \<noteq> None then [Delegate_CleanUp i] else [])"
    "threads g2 = (threads g1)(i := Some (th1\<lparr>stopping := False, was_quit_properly := True,
      thread_running := False, message_loop := None, started := False\<rparr>))"
    using Stop_effect [OF th1(1) assms(4), of cl now'] th1(2) by auto
  moreover from this have "Stop cl run now' i g2 = Inr g2" by (simp add: Stop_def)
  ultimately show ?thesis using g1 th1 by (auto simp: Thread_def)
qed

theorem thread_start_stop_witness:
  "\<exists>g1 g2. StartWithOptions \<lparr>quit_helper = 0, delegate_init_async = (\<lambda>_. 1)\<rparr> 3 True TYPE_IO 8 IO
       (no_threads\<lparr>threads := (\<lambda>_. None)(IO := Some (Thread IO)), thread_delegates := (\<lambda>_. Some 0)\<rparr> :: nat bt_globals) = Inr (True, g1) \<and>
     Stop \<lparr>quit_helper = 0, delegate_init_async = (\<lambda>_. 1)\<rparr> (ThreadQuitHelper IO) 5 IO g1 = Inr g2 \<and>
     delegate_calls g2 = [Delegate_Init IO, Delegate_CleanUp IO]"
proof -
  have "quits_properly IO (ThreadQuitHelper IO :: nat bt_globals \<Rightarrow> _)"
    by (simp add: quits_properly_def ThreadQuitHelper_def)
  from thread_start_stop [OF _ _ _ this, of "no_threads\<lparr>threads := (\<lambda>_. None)(IO := Some (Thread IO)),
      thread_delegates := (\<lambda>_. Some 0)\<rparr>" 8 "\<lparr>quit_helper = 0, delegate_init_async = (\<lambda>_. 1)\<rparr>" 3 TYPE_IO 5]
  show ?thesis by (auto simp: no_threads_def thread_loop_def)
qed

end
