(* ===== verification/Startup_Task_Runner.thy ===== *)
theory Startup_Task_Runner
  imports P528_Prelude
begin

text \<open>
  \<^verbatim>\<open>content/startup_task_runner.cc\<close>: the list of startup tasks, run all at once or one per posted
  \<^verbatim>\<open>WrappedTask\<close>, stopped by the first positive result, with a completion callback. A startup task is
  a function on the state of the rest of the program (type parameter \<open>'w\<close>) that returns an exit
  code. Calls of the completion callback are recorded in order in \<open>completions\<close>; \<open>wrapped\<close> counts the
  \<^verbatim>\<open>WrappedTask\<close> closures posted to the proxy and not yet run.
\<close>

type_synonym 'w startup_task = "'w \<Rightarrow> int \<times> 'w"

record 'w startup_task_runner =
  task_list :: "'w startup_task list"
  has_callback :: bool
  has_proxy :: bool
  completions :: "int list"
  wrapped :: nat
  world :: 'w

definition StartupTaskRunner :: "bool \<Rightarrow> bool \<Rightarrow> 'w \<Rightarrow> 'w startup_task_runner" where
  "StartupTaskRunner callback proxy w =
     \<lparr>task_list = [], has_callback = callback, has_proxy = proxy, completions = [], wrapped = 0, world = w\<rparr>"

definition AddTask :: "'w startup_task \<Rightarrow> 'w startup_task_runner \<Rightarrow> 'w startup_task_runner" where
  "AddTask callback r = r\<lparr>task_list := task_list r @ [callback]\<rparr>"

text \<open>The callback is run and then cleared, so that it is not called a second time.\<close>

definition run_callback :: "int \<Rightarrow> 'w startup_task_runner \<Rightarrow> 'w startup_task_runner" where
  "run_callback res r =
     (if has_callback r then r\<lparr>completions := completions r @ [res], has_callback := False\<rparr> else r)"

definition post_wrapped :: "'w startup_task_runner \<Rightarrow> 'w startup_task_runner" where
  "post_wrapped r = r\<lparr>wrapped := wrapped r + 1\<rparr>"

definition StartRunningTasksAsync :: "'w startup_task_runner \<Rightarrow> 'w startup_task_runner result" where
  "StartRunningTasksAsync r =
     require (has_proxy r) (Dcheck ''proxy_.get()'')
       (Inr (if task_list r = [] then run_callback 0 r else post_wrapped r))"

fun run_all :: "'w startup_task list \<Rightarrow> int \<Rightarrow> 'w \<Rightarrow> int \<times> 'w" where
  "run_all [] res w = (res, w)"
| "run_all (t # ts) res w = (let (res', w') = t w in if res' > 0 then (res', w') else run_all ts res' w')"

definition RunAllTasksNow :: "'w startup_task_runner \<Rightarrow> 'w startup_task_runner" where
  "RunAllTasksNow r =
     (let (res, w) = run_all (task_list r) 0 (world r)
      in run_callback res (r\<lparr>world := w, task_list := []\<rparr>))"

text \<open>\<^verbatim>\<open>WrappedTask\<close>, with the closure that runs it taken from the proxy's queue.\<close>

definition WrappedTask :: "'w startup_task_runner \<Rightarrow> 'w startup_task_runner result" where
  "WrappedTask r0 =
     (let r = r0\<lparr>wrapped := wrapped r0 - 1\<rparr> in
      case task_list r of
        [] \<Rightarrow> Inr r
      | t # ts \<Rightarrow>
          let (res, w) = t (world r);
              r1 = r\<lparr>world := w, task_list := (if res > 0 then [] else ts)\<rparr>
          in if task_list r1 = [] then Inr (run_callback res r1)
             else require (has_proxy r1) (Null_deref ''proxy_'') (Inr (post_wrapped r1)))"

text \<open>The proxy's thread runs what is posted, for at most the given number of closures.\<close>

fun run_wrapped :: "nat \<Rightarrow> 'w startup_task_runner \<Rightarrow> 'w startup_task_runner result" where
  "run_wrapped 0 r = Inr r"
| "run_wrapped (Suc n) r = (if wrapped r = 0 then Inr r else rbind (WrappedTask r) (run_wrapped n))"

subsection \<open>Asynchronous and synchronous startup agree\<close>

lemma run_all_nonempty: "ts \<noteq> [] \<Longrightarrow> run_all ts res w = run_all ts res' w"
  by (cases ts) auto

lemma run_wrapped_agrees:
  assumes "has_proxy r" "wrapped r = 1" "task_list r \<noteq> []"
  shows "run_wrapped (length (task_list r)) r = Inr ((RunAllTasksNow r)\<lparr>wrapped := 0\<rparr>)"
  using assms
proof (induction "task_list r" arbitrary: r)
  case (Cons t ts)
  note q = Cons.hyps(2) [symmetric]
  obtain res w where t: "t (world r) = (res, w)" by (cases "t (world r)")
  let ?r1 = "r\<lparr>wrapped := 1, world := w, task_list := ts\<rparr>"
  show ?case
  proof (cases "res > 0 \<or> ts = []")
    case True
    then have "WrappedTask r = Inr ((RunAllTasksNow r)\<lparr>wrapped := 0\<rparr>)"
      using q t Cons.prems by (cases r) (auto simp: WrappedTask_def RunAllTasksNow_def run_callback_def Let_def)
    moreover have "run_wrapped n ((RunAllTasksNow r)\<lparr>wrapped := 0\<rparr>) = Inr ((RunAllTasksNow r)\<lparr>wrapped := 0\<rparr>)" for n
      by (cases n) auto
    ultimately show ?thesis using q Cons.prems by simp
  next
    case False
    then have "WrappedTask r = Inr ?r1"
      using q t Cons.prems by (cases r) (auto simp: WrappedTask_def post_wrapped_def Let_def)
    moreover have "run_wrapped (length ts) ?r1 = Inr ((RunAllTasksNow ?r1)\<lparr>wrapped := 0\<rparr>)"
      using Cons.hyps(1) [of ?r1] Cons.prems False by simp
    moreover have "RunAllTasksNow ?r1 = (RunAllTasksNow r)\<lparr>wrapped := 1\<rparr>"
      using q t False run_all_nonempty [of ts 0 w res] Cons.prems
      by (cases r) (auto simp: RunAllTasksNow_def run_callback_def Let_def split: prod.splits)
    ultimately show ?thesis using q Cons.prems by simp
  qed
qed simp

text \<open>
  C12: startup in steps is equivalent to startup at once. For a runner with nothing posted yet,
  starting asynchronously and letting the proxy's thread run the posted closures, one per task,
  gives the state that running all tasks now gives: the same tasks run in the same order up to the
  first with a positive result, the rest thrown away, and the same single call of the callback.
\<close>

theorem async_startup_equals_sync_startup:
  assumes "has_proxy r" "wrapped r = 0"
  shows "rbind (StartRunningTasksAsync r) (run_wrapped (length (task_list r))) = Inr (RunAllTasksNow r)"
proof (cases "task_list r = []")
  case True
  then show ?thesis using assms
    by (cases r) (auto simp: StartRunningTasksAsync_def RunAllTasksNow_def)
next
  case False
  then have "run_wrapped (length (task_list r)) (post_wrapped r) = Inr ((RunAllTasksNow (post_wrapped r))\<lparr>wrapped := 0\<rparr>)"
    using run_wrapped_agrees [of "post_wrapped r"] assms by (simp add: post_wrapped_def)
  moreover have "(RunAllTasksNow (post_wrapped r))\<lparr>wrapped := 0\<rparr> = RunAllTasksNow r"
    using assms by (cases r) (auto simp: RunAllTasksNow_def post_wrapped_def run_callback_def split: prod.splits)
  ultimately show ?thesis using assms False by (simp add: StartRunningTasksAsync_def)
qed

theorem async_startup_equals_sync_startup_witness:
  "(let r = AddTask (\<lambda>w. (0, w + 1)) (AddTask (\<lambda>w. (3, w * 2)) (AddTask (\<lambda>w. (- 1, w + 4)) (StartupTaskRunner True True (1::int))))
    in rbind (StartRunningTasksAsync r) (run_wrapped (length (task_list r))) = Inr (RunAllTasksNow r) \<and>
       completions (RunAllTasksNow r) = [3] \<and> world (RunAllTasksNow r) = 10)"
  using async_startup_equals_sync_startup [of "AddTask (\<lambda>w. (0, w + 1)) (AddTask (\<lambda>w. (3, w * 2))
    (AddTask (\<lambda>w. (- 1, w + 4)) (StartupTaskRunner True True (1::int))))"]
  by (simp add: AddTask_def StartupTaskRunner_def RunAllTasksNow_def run_callback_def Let_def)

subsection \<open>The callback is called once\<close>

definition startup_init :: "'w startup_task_runner \<Rightarrow> bool" where
  "startup_init r \<longleftrightarrow> (\<exists>proxy w. r = StartupTaskRunner True proxy w)"

inductive startup_step :: "'w startup_task_runner \<Rightarrow> 'w startup_task_runner \<Rightarrow> bool" where
  add: "startup_step r (AddTask t r)"
| async: "StartRunningTasksAsync r = Inr r' \<Longrightarrow> startup_step r r'"
| now: "startup_step r (RunAllTasksNow r)"
| wrapped: "0 < wrapped r \<Longrightarrow> WrappedTask r = Inr r' \<Longrightarrow> startup_step r r'"

definition startup_inv :: "'w startup_task_runner \<Rightarrow> bool" where
  "startup_inv r \<longleftrightarrow> length (completions r) = (if has_callback r then 0 else 1)"

lemma startup_inv_callback: "startup_inv r \<Longrightarrow> startup_inv (run_callback res r) \<and> \<not> has_callback (run_callback res r)"
  by (auto simp: startup_inv_def run_callback_def)

lemma startup_inv_upd [simp]:
  "startup_inv (r\<lparr>world := w\<rparr>) = startup_inv r" "startup_inv (r\<lparr>task_list := ts\<rparr>) = startup_inv r"
  "startup_inv (r\<lparr>wrapped := n\<rparr>) = startup_inv r"
  by (simp_all add: startup_inv_def)

lemma startup_inv_step: "startup_inv r \<Longrightarrow> startup_step r r' \<Longrightarrow> startup_inv r'"
  by (erule startup_step.cases)
    (auto simp: AddTask_def StartRunningTasksAsync_def RunAllTasksNow_def WrappedTask_def post_wrapped_def
      rsimps Let_def startup_inv_callback split: prod.splits list.splits if_splits)

interpretation startup: inductive_invariant startup_init startup_step startup_inv
proof unfold_locales
  show "startup_init r \<Longrightarrow> startup_inv r" for r :: "'a startup_task_runner"
    by (auto simp: startup_init_def StartupTaskRunner_def startup_inv_def)
qed (rule startup_inv_step)

text \<open>
  However adding tasks, starting, running all tasks now and the posted closures interleave, the
  completion callback is called at most once, and once all tasks have been run by
  \<^verbatim>\<open>RunAllTasksNow\<close> it has been called exactly once.
\<close>

theorem startup_callback_once:
  assumes "reach startup_init startup_step r"
  shows "length (completions r) \<le> 1 \<and> length (completions (RunAllTasksNow r)) = 1"
proof -
  have "startup_inv r" using assms by (rule startup.inv_reach)
  then show ?thesis
    by (auto simp: startup_inv_def RunAllTasksNow_def run_callback_def split: prod.splits)
qed

theorem startup_callback_once_witness:
  "length (completions (RunAllTasksNow (AddTask (\<lambda>w. (0, w)) (StartupTaskRunner True True ())))) = 1"
proof -
  have "reach startup_init startup_step (StartupTaskRunner True True ())"
    by (rule reach_init) (auto simp: startup_init_def)
  from reach_step [OF this startup_step.add [of _ "\<lambda>w. (0, w)"]] startup_callback_once show ?thesis by blast
qed

end
