(* ===== verification/Browser_Main_Loop.thy ===== *)
theory Browser_Main_Loop
  imports Browser_Thread Startup_Task_Runner
begin

text \<open>
  \<^verbatim>\<open>content/browser_main_loop.cc\<close>, \<^verbatim>\<open>browser_main_runner.cc\<close> and \<^verbatim>\<open>browser_main.cc\<close>: the stages of the
  browser process from start to exit. What the embedder's parts, the thread creation of the
  platform and the running message loops do comes from the environment record; the calls of the
  parts and the other visible events are recorded in order in \<open>trace\<close>. The member
  \<^verbatim>\<open>created_threads_\<close> has no initialiser in the constructor: its initial value is the field
  \<open>indeterminate_created_threads\<close> of the environment. The message loop of thread \<open>i\<close> is named by the
  index of \<open>i\<close>, the UI loop being 0. Platform monitors and tracing are left out.
\<close>

datatype main_event =
    Part_PreEarlyInitialization | Part_PostEarlyInitialization | Part_ToolkitInitialized
  | Part_PreMainMessageLoopStart | Part_PostMainMessageLoopStart | Part_PreCreateThreads
  | Part_PreMainMessageLoopRun | Part_MainMessageLoopRun | Default_MainMessageLoopRun
  | Part_PostMainMessageLoopRun | Part_PostDestroyThreads
  | Thread_Started ID | Thread_Reset ID | Pool_Shutdown

record 'c main_env =
  has_parts :: bool
  indeterminate_created_threads :: bool
  toolkit_ok :: bool
  pre_create_threads_result :: int
  parts_run_loop :: "int \<Rightarrow> bool \<times> int"
  thread_created :: "ID \<Rightarrow> bool"
  closures :: "'c thread_closures"
  main_loop_effect :: "'c bt_globals \<Rightarrow> 'c bt_globals"
  loop_to_quit :: "ID \<Rightarrow> 'c bt_globals \<Rightarrow> 'c bt_globals"
  allow_io_closure :: 'c
  time_now :: time_ticks

record 'c main_loop =
  result_code :: int
  created_threads :: bool
  sub_threads :: "ID \<Rightarrow> bool"
  main_thread :: bool
  startup_task_runner_made :: bool
  ui_io_ok :: bool
  registry :: "'c bt_globals"
  trace :: "main_event list"


definition note_event :: "main_event \<Rightarrow> 'c main_loop \<Rightarrow> 'c main_loop" where
  "note_event e m = m\<lparr>trace := trace m @ [e]\<rparr>"

definition part :: "'c main_env \<Rightarrow> main_event \<Rightarrow> 'c main_loop \<Rightarrow> 'c main_loop" where
  "part env e m = (if has_parts env then note_event e m else m)"

definition BrowserMainLoop :: "'c main_env \<Rightarrow> 'c bt_globals \<Rightarrow> 'c main_loop" where
  "BrowserMainLoop env g =
     \<lparr>result_code = RESULT_CODE_NORMAL_EXIT, created_threads = indeterminate_created_threads env,
      sub_threads = (\<lambda>_. False), main_thread = False, startup_task_runner_made = False, ui_io_ok = True,
      registry = g, trace = []\<rparr>"

definition EarlyInitialization :: "'c main_env \<Rightarrow> 'c main_loop \<Rightarrow> 'c main_loop" where
  "EarlyInitialization env m = part env Part_PostEarlyInitialization (part env Part_PreEarlyInitialization m)"

definition InitializeToolkit :: "'c main_env \<Rightarrow> 'c main_loop \<Rightarrow> (bool \<times> 'c main_loop) result" where
  "InitializeToolkit env m =
     require (toolkit_ok env) (Fatal ''InitCommonControlsEx'') (Inr (True, part env Part_ToolkitInitialized m))"

definition InitializeMainThread :: "'c main_env \<Rightarrow> 'c main_loop \<Rightarrow> 'c main_loop result" where
  "InitializeMainThread env m =
     rbind (BrowserThreadImpl_with_loop UI 0 (registry m)) (\<lambda>g. Inr (m\<lparr>registry := g, main_thread := True\<rparr>))"

definition MainMessageLoopStart :: "'c main_env \<Rightarrow> 'c main_loop \<Rightarrow> 'c main_loop result" where
  "MainMessageLoopStart env m =
     (let m1 = part env Part_PreMainMessageLoopStart m;
          m2 = m1\<lparr>registry := (registry m1)\<lparr>loops := (loops (registry m1))(0 := MessageLoop TYPE_UI)\<rparr>\<rparr>
      in rbind (InitializeMainThread env m2) (\<lambda>m3. Inr (part env Part_PostMainMessageLoopStart m3)))"

definition PreCreateThreads :: "'c main_env \<Rightarrow> 'c main_loop \<Rightarrow> (int \<times> 'c main_loop) result" where
  "PreCreateThreads env m =
     (let m1 = (if has_parts env
                then (note_event Part_PreCreateThreads m)\<lparr>result_code := pre_create_threads_result env\<rparr> else m)
      in Inr (result_code m1, m1))"

fun thread_loop_type :: "ID \<Rightarrow> loop_type" where
  "thread_loop_type FILE = TYPE_IO" | "thread_loop_type CACHE = TYPE_IO" | "thread_loop_type IO = TYPE_IO"
| "thread_loop_type _ = TYPE_DEFAULT"

text \<open>One iteration of the loop of \<^verbatim>\<open>CreateThreads\<close>, and the loop over the identifiers after \<^verbatim>\<open>UI\<close>.\<close>

definition create_thread :: "'c main_env \<Rightarrow> ID \<Rightarrow> 'c main_loop \<Rightarrow> 'c main_loop result" where
  "create_thread env i m =
     rbind (BrowserThreadImpl i (registry m)) (\<lambda>g1.
     rbind (StartWithOptions (closures env) (time_now env) (thread_created env i) (thread_loop_type i) (id_index i) i g1)
       (\<lambda>(ok, g2). require ok (Fatal ''Failed to start the browser thread'')
         (Inr (note_event (Thread_Started i) (m\<lparr>registry := g2, sub_threads := (sub_threads m)(i := True)\<rparr>)))))"

fun create_threads :: "'c main_env \<Rightarrow> ID list \<Rightarrow> 'c main_loop \<Rightarrow> 'c main_loop result" where
  "create_threads env [] m = Inr m"
| "create_threads env (i # is) m = rbind (create_thread env i m) (create_threads env is)"

definition CreateThreads :: "'c main_env \<Rightarrow> 'c main_loop \<Rightarrow> (int \<times> 'c main_loop) result" where
  "CreateThreads env m =
     rbind (create_threads env (tl all_ids) m) (\<lambda>m1.
       let m2 = m1\<lparr>created_threads := True\<rparr> in Inr (result_code m2, m2))"

definition BrowserThreadsStarted :: "'c main_loop \<Rightarrow> (int \<times> 'c main_loop) result" where
  "BrowserThreadsStarted m = Inr (result_code m, m)"

definition PreMainMessageLoopRun :: "'c main_env \<Rightarrow> 'c main_loop \<Rightarrow> (int \<times> 'c main_loop) result" where
  "PreMainMessageLoopRun env m =
     (let m1 = (part env Part_PreMainMessageLoopRun m)\<lparr>ui_io_ok := False\<rparr> in Inr (result_code m1, m1))"

text \<open>A stage as a startup task: a failed assertion ends the process, so nothing runs after it.\<close>

definition stage_task :: "('m \<Rightarrow> (int \<times> 'm) result) \<Rightarrow> 'm result startup_task" where
  "stage_task f w = (case w of Inl e \<Rightarrow> (1, Inl e)
     | Inr m \<Rightarrow> (case f m of Inl e \<Rightarrow> (1, Inl e) | Inr (c, m') \<Rightarrow> (c, Inr m')))"

definition CreateStartupTasks :: "'c main_env \<Rightarrow> 'c main_loop \<Rightarrow> 'c main_loop result" where
  "CreateStartupTasks env m =
     (let m1 = m\<lparr>startup_task_runner_made := True\<rparr>;
          r = StartupTaskRunner False True (Inr m1);
          r1 = (if startup_task_runner_made m then r
                else AddTask (stage_task (PreMainMessageLoopRun env))
                    (AddTask (stage_task BrowserThreadsStarted)
                    (AddTask (stage_task (CreateThreads env))
                    (AddTask (stage_task (PreCreateThreads env)) r))))
      in world (RunAllTasksNow r1))"

definition RunMainMessageLoopParts :: "'c main_env \<Rightarrow> 'c main_loop \<Rightarrow> 'c main_loop" where
  "RunMainMessageLoopParts env m =
     (let (ran, m1) = (if has_parts env
                       then let (ran, c) = parts_run_loop env (result_code m)
                            in (ran, (note_event Part_MainMessageLoopRun m)\<lparr>result_code := c,
                                 registry := (if ran then main_loop_effect env (registry m) else registry m)\<rparr>)
                       else (False, m))
      in if \<not> ran then note_event Default_MainMessageLoopRun (m1\<lparr>registry := main_loop_effect env (registry m1)\<rparr>)
         else m1)"

definition reset_thread :: "'c main_env \<Rightarrow> ID \<Rightarrow> 'c main_loop \<Rightarrow> 'c main_loop result" where
  "reset_thread env i m =
     (if sub_threads m i then
        rbind (DestroyBrowserThread (closures env) (loop_to_quit env i) (time_now env) i (registry m)) (\<lambda>g.
          Inr (note_event (Thread_Reset i) (m\<lparr>registry := g, sub_threads := (sub_threads m)(i := False)\<rparr>)))
      else Inr (note_event (Thread_Reset i) m))"

fun reset_threads :: "'c main_env \<Rightarrow> ID list \<Rightarrow> 'c main_loop \<Rightarrow> 'c main_loop result" where
  "reset_threads env [] m = Inr m"
| "reset_threads env (i # is) m = rbind (reset_thread env i m) (reset_threads env is)"

definition ShutdownThreadsAndCleanUp :: "'c main_env \<Rightarrow> 'c main_loop \<Rightarrow> 'c main_loop result" where
  "ShutdownThreadsAndCleanUp env m =
     (if \<not> created_threads m then Inr m
      else
        rbind (bt_PostTask (Some 0) (time_now env) IO ''FROM_HERE'' (Some (allow_io_closure env)) (registry m)) (\<lambda>(_, g).
          let m1 = part env Part_PostMainMessageLoopRun (m\<lparr>ui_io_ok := True, registry := g\<rparr>)
          in rbind (reset_threads env (rev (tl all_ids)) m1) (\<lambda>m2.
               Inr (part env Part_PostDestroyThreads (note_event Pool_Shutdown m2)))))"

text \<open>
  The destructor: \<^verbatim>\<open>g_current_browser_main_loop\<close> is cleared and the members die in reverse order of
  declaration, the thread objects that are still there first, the main thread after them.
\<close>

definition DestroyBrowserMainLoop :: "'c main_env \<Rightarrow> 'c main_loop \<Rightarrow> 'c main_loop result" where
  "DestroyBrowserMainLoop env m =
     rbind (reset_threads env (filter (sub_threads m) [IO, CACHE, PROCESS_LAUNCHER, FILE, FILE_USER_BLOCKING, DB]) m) (\<lambda>m1.
       if main_thread m1 then
         rbind (DestroyBrowserThread (closures env) (loop_to_quit env UI) (time_now env) UI (registry m1)) (\<lambda>g.
           Inr (m1\<lparr>registry := g, main_thread := False\<rparr>))
       else Inr m1)"

subsection \<open>The runner\<close>

record 'c main_runner =
  initialization_started :: bool
  is_shutdown :: bool
  loop :: "'c main_loop option"
  exited_main_message_loop :: bool
  bmr_registry :: "'c bt_globals"
  history :: "main_event list"

definition BrowserMainRunnerImpl :: "'c bt_globals \<Rightarrow> 'c main_runner" where
  "BrowserMainRunnerImpl g = \<lparr>initialization_started = False, is_shutdown = False, loop = None,
     exited_main_message_loop = False, bmr_registry = g, history = []\<rparr>"

definition bmr_Initialize :: "'c main_env \<Rightarrow> 'c main_runner \<Rightarrow> (int \<times> 'c main_runner) result" where
  "bmr_Initialize env r =
     rbind (if \<not> initialization_started r then
              rbind (InitializeToolkit env (EarlyInitialization env (BrowserMainLoop env (bmr_registry r)))) (\<lambda>(ok, m).
                if \<not> ok then Inr (False, m) else rbind (MainMessageLoopStart env m) (\<lambda>m1. Inr (True, m1)))
            else case loop r of Some m \<Rightarrow> Inr (True, m) | None \<Rightarrow> Inl (Null_deref ''main_loop_''))
       (\<lambda>(go, m).
          let r1 = r\<lparr>initialization_started := True, loop := Some m\<rparr> in
          if \<not> go then Inr (1, r1)
          else rbind (CreateStartupTasks env m) (\<lambda>m2.
            Inr (if result_code m2 > 0 then result_code m2 else - 1, r1\<lparr>loop := Some m2\<rparr>)))"

definition bmr_Run :: "'c main_env \<Rightarrow> 'c main_runner \<Rightarrow> (int \<times> 'c main_runner) result" where
  "bmr_Run env r =
     require (initialization_started r) (Dcheck ''initialization_started_'')
       (require (\<not> is_shutdown r) (Dcheck ''!is_shutdown_'')
         (case loop r of
            None \<Rightarrow> Inl (Null_deref ''main_loop_'')
          | Some m \<Rightarrow> let m1 = RunMainMessageLoopParts env m in Inr (result_code m1, r\<lparr>loop := Some m1\<rparr>)))"

definition bmr_Shutdown :: "'c main_env \<Rightarrow> 'c main_runner \<Rightarrow> 'c main_runner result" where
  "bmr_Shutdown env r =
     require (initialization_started r) (Dcheck ''initialization_started_'')
       (require (\<not> is_shutdown r) (Dcheck ''!is_shutdown_'')
         (case loop r of
            None \<Rightarrow> Inl (Null_deref ''main_loop_'')
          | Some m \<Rightarrow>
              rbind (ShutdownThreadsAndCleanUp env m) (\<lambda>m1.
              rbind (DestroyBrowserMainLoop env m1) (\<lambda>m2.
                Inr (r\<lparr>exited_main_message_loop := True, loop := None, is_shutdown := True,
                       bmr_registry := registry m2, history := history r @ trace m2\<rparr>)))))"

definition DestroyBrowserMainRunner :: "'c main_env \<Rightarrow> 'c main_runner \<Rightarrow> 'c main_runner result" where
  "DestroyBrowserMainRunner env r =
     (if initialization_started r \<and> \<not> is_shutdown r then bmr_Shutdown env r else Inr r)"

definition BrowserMain :: "'c main_env \<Rightarrow> 'c bt_globals \<Rightarrow> (int \<times> 'c main_runner) result" where
  "BrowserMain env g =
     rbind (bmr_Initialize env (BrowserMainRunnerImpl g)) (\<lambda>(exit_code, r1).
       if exit_code \<ge> 0 then rbind (DestroyBrowserMainRunner env r1) (\<lambda>r2. Inr (exit_code, r2))
       else rbind (bmr_Run env r1) (\<lambda>(exit_code, r2).
            rbind (bmr_Shutdown env r2) (\<lambda>r3.
            rbind (DestroyBrowserMainRunner env r3) (\<lambda>r4. Inr (exit_code, r4)))))"

subsection \<open>Starting the threads\<close>

lemma note_event_simps [simp]:
  "registry (note_event e m) = registry m" "sub_threads (note_event e m) = sub_threads m"
  "created_threads (note_event e m) = created_threads m" "result_code (note_event e m) = result_code m"
  "main_thread (note_event e m) = main_thread m" "trace (note_event e m) = trace m @ [e]"
  "startup_task_runner_made (note_event e m) = startup_task_runner_made m"
  by (simp_all add: note_event_def)

text \<open>Every registered thread has the loop named by its index; the threads after \<^verbatim>\<open>UI\<close> are started.\<close>

definition live :: "'c bt_globals \<Rightarrow> bool" where
  "live g \<longleftrightarrow> (\<forall>i th. threads g i = Some th \<longrightarrow> message_loop th = Some (id_index i) \<and> (i \<noteq> UI \<longrightarrow> started th))"

lemma live_fresh: "live g \<Longrightarrow> j \<noteq> i \<Longrightarrow> thread_loop g j \<noteq> Some (id_index i)"
  by (auto simp: live_def thread_loop_def dest: id_index_inj split: option.splits)

lemma create_thread_effect:
  assumes "live (registry m)" "threads (registry m) i = None" "i \<noteq> ID_COUNT" "thread_created env i"
  shows "\<exists>g. create_thread env i m =
      Inr (note_event (Thread_Started i) (m\<lparr>registry := g, sub_threads := (sub_threads m)(i := True)\<rparr>)) \<and>
    live g \<and> (\<forall>j. threads g j = None \<longleftrightarrow> j \<noteq> i \<and> threads (registry m) j = None)"
proof -
  let ?g1 = "(with_lock (registry m))\<lparr>threads := (threads (registry m))(i := Some (Thread i))\<rparr>"
  have b: "BrowserThreadImpl i (registry m) = Inr ?g1"
    using assms by (simp add: BrowserThreadImpl_def bt_Initialize_def Thread_def)
  have "\<forall>j. j \<noteq> i \<longrightarrow> thread_loop ?g1 j \<noteq> Some (id_index i)"
    using live_fresh [OF assms(1)] by (simp add: thread_loop_def)
  then obtain g2 where g2: "StartWithOptions (closures env) (time_now env) True (thread_loop_type i) (id_index i) i ?g1 = Inr (True, g2)"
    "threads g2 = (threads ?g1)(i := Some ((Thread i)\<lparr>was_quit_properly := False, message_loop := Some (id_index i),
      io_allowed := (i \<noteq> IO \<and> io_allowed (Thread i)), thread_running := True, started := True\<rparr>))"
    using StartWithOptions_effect [of ?g1 i "Thread i" "id_index i" "closures env" "time_now env" "thread_loop_type i"]
      assms(3) by (auto simp: Thread_def)
  have "live g2" using assms(1) g2(2) by (auto simp: live_def)
  then show ?thesis using b g2 assms(4) by (intro exI [of _ g2]) (auto simp: create_thread_def)
qed

lemma create_threads_effect:
  assumes "live (registry m)" "\<forall>i \<in> set is. threads (registry m) i = None \<and> i \<noteq> ID_COUNT \<and> thread_created env i"
    and "distinct is"
  shows "\<exists>m'. create_threads env is m = Inr m' \<and> live (registry m') \<and>
    (\<forall>j. threads (registry m') j = None \<longleftrightarrow> j \<notin> set is \<and> threads (registry m) j = None) \<and>
    trace m' = trace m @ map Thread_Started is \<and> result_code m' = result_code m \<and>
    main_thread m' = main_thread m \<and> sub_threads m' = (\<lambda>j. j \<in> set is \<or> sub_threads m j)"
  using assms
proof (induction "is" arbitrary: m)
  case (Cons i "is")
  then obtain g where g: "create_thread env i m =
      Inr (note_event (Thread_Started i) (m\<lparr>registry := g, sub_threads := (sub_threads m)(i := True)\<rparr>))"
    "live g" "\<forall>j. threads g j = None \<longleftrightarrow> j \<noteq> i \<and> threads (registry m) j = None"
    using create_thread_effect [of m i env] by auto
  let ?m1 = "note_event (Thread_Started i) (m\<lparr>registry := g, sub_threads := (sub_threads m)(i := True)\<rparr>)"
  obtain m' where "create_threads env is ?m1 = Inr m'" "live (registry m')"
    "\<forall>j. threads (registry m') j = None \<longleftrightarrow> j \<notin> set is \<and> threads g j = None"
    "trace m' = trace m @ [Thread_Started i] @ map Thread_Started is" "result_code m' = result_code m"
    "main_thread m' = main_thread m" "sub_threads m' = (\<lambda>j. j \<in> set is \<or> ((sub_threads m)(i := True)) j)"
    using Cons.IH [of ?m1] g Cons.prems by auto
  then show ?case using g by auto
qed simp

subsection \<open>Stopping the threads\<close>

lemma reset_threads_effect:
  assumes "sorted_wrt (>) is" "\<forall>i \<in> set is. sub_threads m i \<and> threads (registry m) i \<noteq> None"
    and "\<forall>i. quits_properly i (loop_to_quit env i)"
    and "\<forall>j. threads (registry m) j \<noteq> None \<longrightarrow> j \<in> set is \<or> (\<forall>i \<in> set is. j < i)"
  shows "\<exists>m'. reset_threads env is m = Inr m' \<and>
    threads (registry m') = (\<lambda>j. if j \<in> set is then None else threads (registry m) j) \<and>
    trace m' = trace m @ map Thread_Reset is \<and> result_code m' = result_code m \<and>
    main_thread m' = main_thread m \<and> sub_threads m' = (\<lambda>j. j \<notin> set is \<and> sub_threads m j)"
  using assms
proof (induction "is" arbitrary: m)
  case (Cons i "is")
  obtain th where th: "threads (registry m) i = Some th" using Cons.prems(2) by auto
  have "\<forall>j. i < j \<longrightarrow> threads (registry m) j = None"
    using Cons.prems(1,4) by (metis list.set_intros(1) not_less_iff_gr_or_eq set_ConsD sorted_wrt.simps(2))
  from DestroyBrowserThread_effect [OF th _ this, of "loop_to_quit env i" "closures env" "time_now env"]
  obtain g where g: "DestroyBrowserThread (closures env) (loop_to_quit env i) (time_now env) i (registry m) = Inr g"
    "threads g = (threads (registry m))(i := None)" using Cons.prems(3) by blast
  let ?m1 = "note_event (Thread_Reset i) (m\<lparr>registry := g, sub_threads := (sub_threads m)(i := False)\<rparr>)"
  have ni: "i \<notin> set is" using Cons.prems(1) by auto
  have p1: "\<forall>k \<in> set is. sub_threads ?m1 k \<and> threads (registry ?m1) k \<noteq> None"
    using Cons.prems(2) ni g(2) by auto
  have p2: "\<forall>j. threads (registry ?m1) j \<noteq> None \<longrightarrow> j \<in> set is \<or> (\<forall>i \<in> set is. j < i)"
    using Cons.prems(4) g(2) by auto
  obtain m' where "reset_threads env is ?m1 = Inr m'"
    "threads (registry m') = (\<lambda>j. if j \<in> set is then None else threads g j)"
    "trace m' = trace m @ [Thread_Reset i] @ map Thread_Reset is" "result_code m' = result_code m"
    "main_thread m' = main_thread m" "sub_threads m' = (\<lambda>j. j \<notin> set is \<and> ((sub_threads m)(i := False)) j)"
    using Cons.IH [OF _ p1 Cons.prems(3) p2] Cons.prems(1) by (auto cong: if_cong)
  moreover have "reset_thread env i m = Inr ?m1" using g(1) Cons.prems(2) by (simp add: reset_thread_def)
  ultimately show ?case using g(2) by (auto simp: fun_eq_iff)
qed simp

lemma reset_threads_absent:
  "\<forall>i \<in> set is. \<not> sub_threads m i \<Longrightarrow>
     reset_threads env is m = Inr (m\<lparr>trace := trace m @ map Thread_Reset is\<rparr>)"
  by (induction "is" arbitrary: m) (auto simp: reset_thread_def note_event_def)

subsection \<open>A whole run\<close>

lemma ids_after_UI: "tl all_ids = [DB, FILE, FILE_USER_BLOCKING, PROCESS_LAUNCHER, CACHE, IO]"
  by (simp add: all_ids_def)

lemma MainMessageLoopStart_effect:
  assumes "has_parts env" "threads (registry m) = (\<lambda>_. None)"
  shows "\<exists>m'. MainMessageLoopStart env m = Inr m' \<and>
    trace m' = trace m @ [Part_PreMainMessageLoopStart, Part_PostMainMessageLoopStart] \<and>
    threads (registry m') = [UI \<mapsto> (Thread UI)\<lparr>message_loop := Some 0\<rparr>] \<and> main_thread m' \<and>
    sub_threads m' = sub_threads m \<and> created_threads m' = created_threads m \<and> result_code m' = result_code m \<and>
    startup_task_runner_made m' = startup_task_runner_made m"
  using assms
  by (auto simp: MainMessageLoopStart_def InitializeMainThread_def BrowserThreadImpl_with_loop_def
      bt_Initialize_def part_def Thread_def Let_def)

text \<open>The stages before the startup tasks.\<close>

definition early_events :: "main_event list" where
  "early_events = [Part_PreEarlyInitialization, Part_PostEarlyInitialization, Part_ToolkitInitialized,
     Part_PreMainMessageLoopStart, Part_PostMainMessageLoopStart]"

lemma early_stages:
  assumes "has_parts env" "toolkit_ok env" "threads g = (\<lambda>_. None)"
  shows "\<exists>m. rbind (InitializeToolkit env (EarlyInitialization env (BrowserMainLoop env g))) (\<lambda>(ok, m).
      if \<not> ok then Inr (False, m) else rbind (MainMessageLoopStart env m) (\<lambda>m1. Inr (True, m1))) = Inr (True, m) \<and>
    trace m = early_events \<and> threads (registry m) = [UI \<mapsto> (Thread UI)\<lparr>message_loop := Some 0\<rparr>] \<and> main_thread m \<and>
    sub_threads m = (\<lambda>_. False) \<and> created_threads m = indeterminate_created_threads env \<and> \<not> startup_task_runner_made m"
proof -
  let ?m = "part env Part_ToolkitInitialized (EarlyInitialization env (BrowserMainLoop env g))"
  have t: "threads (registry ?m) = (\<lambda>_. None)" "trace ?m = [Part_PreEarlyInitialization, Part_PostEarlyInitialization,
      Part_ToolkitInitialized]" "sub_threads ?m = (\<lambda>_. False)" "created_threads ?m = indeterminate_created_threads env"
    "\<not> startup_task_runner_made ?m"
    using assms by (simp_all add: part_def EarlyInitialization_def BrowserMainLoop_def)
  from MainMessageLoopStart_effect [OF assms(1) t(1)] t assms(2) show ?thesis
    by (auto simp: InitializeToolkit_def early_events_def)
qed

lemma CreateStartupTasks_early_exit:
  assumes "has_parts env" "\<not> startup_task_runner_made m" "pre_create_threads_result env > 0"
  shows "CreateStartupTasks env m = Inr ((note_event Part_PreCreateThreads (m\<lparr>startup_task_runner_made := True\<rparr>))
    \<lparr>result_code := pre_create_threads_result env\<rparr>)"
  using assms
  by (simp add: CreateStartupTasks_def RunAllTasksNow_def AddTask_def StartupTaskRunner_def stage_task_def
      PreCreateThreads_def run_callback_def Let_def)

lemma CreateStartupTasks_full:
  assumes "has_parts env" "\<not> startup_task_runner_made m" "pre_create_threads_result env \<le> 0"
    and "\<forall>i. thread_created env i" "threads (registry m) = [UI \<mapsto> (Thread UI)\<lparr>message_loop := Some 0\<rparr>]"
  shows "\<exists>m'. CreateStartupTasks env m = Inr m' \<and> live (registry m') \<and> created_threads m' \<and>
    (\<forall>j. threads (registry m') j = None \<longleftrightarrow> j = ID_COUNT) \<and> result_code m' = pre_create_threads_result env \<and>
    main_thread m' = main_thread m \<and> (\<forall>i \<in> set (tl all_ids). sub_threads m' i) \<and> (sub_threads m' UI \<longleftrightarrow> sub_threads m UI) \<and>
    trace m' = trace m @ [Part_PreCreateThreads] @ map Thread_Started (tl all_ids) @ [Part_PreMainMessageLoopRun]"
proof -
  let ?m1 = "(note_event Part_PreCreateThreads (m\<lparr>startup_task_runner_made := True\<rparr>))
    \<lparr>result_code := pre_create_threads_result env\<rparr>"
  have "live (registry ?m1)" using assms(5) by (auto simp: live_def split: if_splits)
  moreover have "\<forall>i \<in> set (tl all_ids). threads (registry ?m1) i = None \<and> i \<noteq> ID_COUNT \<and> thread_created env i"
    using assms(4,5) by (auto simp: ids_after_UI)
  moreover have "distinct (tl all_ids)" by (simp add: ids_after_UI)
  ultimately obtain m2 where m2: "create_threads env (tl all_ids) ?m1 = Inr m2" "live (registry m2)"
    "\<forall>j. threads (registry m2) j = None \<longleftrightarrow> j \<notin> set (tl all_ids) \<and> threads (registry ?m1) j = None"
    "trace m2 = trace ?m1 @ map Thread_Started (tl all_ids)" "result_code m2 = result_code ?m1"
    "main_thread m2 = main_thread ?m1" "sub_threads m2 = (\<lambda>j. j \<in> set (tl all_ids) \<or> sub_threads ?m1 j)"
    using create_threads_effect [of ?m1 "tl all_ids" env] by blast
  let ?m3 = "(note_event Part_PreMainMessageLoopRun (m2\<lparr>created_threads := True\<rparr>))\<lparr>ui_io_ok := False\<rparr>"
  have "CreateStartupTasks env m = Inr ?m3"
    using assms(1-3) m2(1,5)
    by (simp add: CreateStartupTasks_def RunAllTasksNow_def AddTask_def StartupTaskRunner_def stage_task_def
        PreCreateThreads_def CreateThreads_def BrowserThreadsStarted_def PreMainMessageLoopRun_def part_def
        run_callback_def Let_def)
  moreover have "threads (registry m2) j = None \<longleftrightarrow> j = ID_COUNT" for j
    using m2(3) assms(5) by (cases j) (auto simp: ids_after_UI)
  ultimately show ?thesis using m2 by (auto simp: ids_after_UI)
qed

lemma ShutdownThreadsAndCleanUp_full:
  assumes p: "has_parts env" and c: "created_threads m" and s: "\<forall>i \<in> set (tl all_ids). sub_threads m i"
    and t: "\<forall>j. threads (registry m) j = None \<longleftrightarrow> j = ID_COUNT"
    and q: "\<forall>i. quits_properly i (loop_to_quit env i)"
  shows "\<exists>m'. ShutdownThreadsAndCleanUp env m = Inr m' \<and>
    (\<forall>j. j \<noteq> UI \<longrightarrow> threads (registry m') j = None) \<and> threads (registry m') UI = threads (registry m) UI \<and>
    sub_threads m' = (\<lambda>j. j \<notin> set (tl all_ids) \<and> sub_threads m j) \<and> main_thread m' = main_thread m \<and>
    trace m' = trace m @ [Part_PostMainMessageLoopRun] @ map Thread_Reset (rev (tl all_ids)) @
      [Pool_Shutdown, Part_PostDestroyThreads]"
proof -
  obtain ok g where g: "bt_PostTask (Some 0) (time_now env) IO ''FROM_HERE'' (Some (allow_io_closure env)) (registry m) = Inr (ok, g)"
    "threads g = threads (registry m)"
    using PostTaskHelper_effect [of IO "Some (allow_io_closure env)" 0 "Some 0" "time_now env" "''FROM_HERE''" True "registry m"]
    by (auto simp: bt_PostTask_def)
  let ?m1 = "note_event Part_PostMainMessageLoopRun (m\<lparr>ui_io_ok := True, registry := g\<rparr>)"
  have "sorted_wrt (>) (rev (tl all_ids))" by (simp add: ids_after_UI less_ID_def)
  moreover have "\<forall>i \<in> set (rev (tl all_ids)). sub_threads ?m1 i \<and> threads (registry ?m1) i \<noteq> None"
    using s g(2) t by (auto simp: ids_after_UI)
  moreover have "\<forall>j. threads (registry ?m1) j \<noteq> None \<longrightarrow> j \<in> set (rev (tl all_ids)) \<or> (\<forall>i \<in> set (rev (tl all_ids)). j < i)"
  proof (intro allI impI)
    fix j
    assume "threads (registry ?m1) j \<noteq> None"
    then have "j \<noteq> ID_COUNT" using g(2) t by auto
    then show "j \<in> set (rev (tl all_ids)) \<or> (\<forall>i \<in> set (rev (tl all_ids)). j < i)"
      by (cases j) (simp_all add: ids_after_UI less_ID_def)
  qed
  ultimately obtain m2 where m2: "reset_threads env (rev (tl all_ids)) ?m1 = Inr m2"
    "threads (registry m2) = (\<lambda>j. if j \<in> set (rev (tl all_ids)) then None else threads (registry ?m1) j)"
    "trace m2 = trace ?m1 @ map Thread_Reset (rev (tl all_ids))" "main_thread m2 = main_thread ?m1"
    "sub_threads m2 = (\<lambda>j. j \<notin> set (rev (tl all_ids)) \<and> sub_threads ?m1 j)"
    using reset_threads_effect [of "rev (tl all_ids)" ?m1 env, OF _ _ q] by blast
  let ?m3 = "note_event Part_PostDestroyThreads (note_event Pool_Shutdown m2)"
  have "ShutdownThreadsAndCleanUp env m = Inr ?m3"
    using c p g(1) m2(1) by (simp add: ShutdownThreadsAndCleanUp_def part_def Let_def)
  moreover have "\<forall>j. j \<noteq> UI \<longrightarrow> threads (registry m2) j = None"
  proof (intro allI impI)
    fix j
    assume "j \<noteq> UI"
    then show "threads (registry m2) j = None" using m2(2) g(2) t by (cases j) (auto simp: ids_after_UI)
  qed
  ultimately show ?thesis using m2 g(2) by (auto simp: ids_after_UI)
qed

lemma DestroyBrowserMainLoop_effect:
  assumes "\<forall>i. \<not> sub_threads m i \<or> i = UI \<or> i = ID_COUNT" "main_thread m"
    and "threads (registry m) = [UI \<mapsto> th]" "\<forall>i. quits_properly i (loop_to_quit env i)"
  shows "\<exists>m'. DestroyBrowserMainLoop env m = Inr m' \<and> threads (registry m') = (\<lambda>_. None) \<and> trace m' = trace m"
proof -
  have "filter (sub_threads m) [IO, CACHE, PROCESS_LAUNCHER, FILE, FILE_USER_BLOCKING, DB] = []"
    using assms(1) by (auto simp: filter_empty_conv)
  moreover obtain g where "DestroyBrowserThread (closures env) (loop_to_quit env UI) (time_now env) UI (registry m) = Inr g"
    "threads g = (threads (registry m))(UI := None)"
  proof -
    have "\<forall>j. UI < j \<longrightarrow> threads (registry m) j = None" using assms(3) by auto
    from DestroyBrowserThread_effect [OF _ _ this, of th "loop_to_quit env UI" "closures env" "time_now env"]
    show thesis using that assms(3,4) by auto
  qed
  ultimately show ?thesis using assms(2,3) by (auto simp: DestroyBrowserMainLoop_def)
qed

definition posts_keep_threads :: "('c bt_globals \<Rightarrow> 'c bt_globals) \<Rightarrow> bool" where
  "posts_keep_threads f \<longleftrightarrow> (\<forall>g. threads (f g) = threads g)"

lemma RunMainMessageLoopParts_effect:
  assumes "has_parts env" "posts_keep_threads (main_loop_effect env)"
  shows "trace (RunMainMessageLoopParts env m) = trace m @ [Part_MainMessageLoopRun] @
      (if fst (parts_run_loop env (result_code m)) then [] else [Default_MainMessageLoopRun]) \<and>
    result_code (RunMainMessageLoopParts env m) = snd (parts_run_loop env (result_code m)) \<and>
    threads (registry (RunMainMessageLoopParts env m)) = threads (registry m) \<and>
    created_threads (RunMainMessageLoopParts env m) = created_threads m \<and>
    sub_threads (RunMainMessageLoopParts env m) = sub_threads m \<and> main_thread (RunMainMessageLoopParts env m) = main_thread m"
  using assms by (auto simp: RunMainMessageLoopParts_def posts_keep_threads_def split: prod.splits)

lemma BrowserMain_normal_run':
  assumes "has_parts env" "toolkit_ok env" "threads g = (\<lambda>_. None)" "pre_create_threads_result env \<le> 0"
    and "\<forall>i. thread_created env i" "posts_keep_threads (main_loop_effect env)"
    and "\<forall>i. quits_properly i (loop_to_quit env i)"
  shows "\<exists>r. BrowserMain env g = Inr (snd (parts_run_loop env (pre_create_threads_result env)), r) \<and> is_shutdown r \<and>
    threads (bmr_registry r) = (\<lambda>_. None) \<and>
    history r = early_events @ [Part_PreCreateThreads] @ map Thread_Started (tl all_ids) @
      [Part_PreMainMessageLoopRun, Part_MainMessageLoopRun] @
      (if fst (parts_run_loop env (pre_create_threads_result env)) then [] else [Default_MainMessageLoopRun]) @
      [Part_PostMainMessageLoopRun] @ map Thread_Reset (rev (tl all_ids)) @ [Pool_Shutdown, Part_PostDestroyThreads]"
proof -
  obtain m where m: "rbind (InitializeToolkit env (EarlyInitialization env (BrowserMainLoop env g))) (\<lambda>(ok, m).
      if \<not> ok then Inr (False, m) else rbind (MainMessageLoopStart env m) (\<lambda>m1. Inr (True, m1))) = Inr (True, m)"
    "trace m = early_events" "threads (registry m) = [UI \<mapsto> (Thread UI)\<lparr>message_loop := Some 0\<rparr>]" "main_thread m"
    "sub_threads m = (\<lambda>_. False)" "\<not> startup_task_runner_made m"
    using early_stages [OF assms(1-3)] by blast
  obtain m1 where m1: "CreateStartupTasks env m = Inr m1" "created_threads m1"
    "\<forall>j. threads (registry m1) j = None \<longleftrightarrow> j = ID_COUNT" "result_code m1 = pre_create_threads_result env"
    "main_thread m1" "\<forall>i \<in> set (tl all_ids). sub_threads m1 i" "\<not> sub_threads m1 UI"
    "trace m1 = early_events @ [Part_PreCreateThreads] @ map Thread_Started (tl all_ids) @ [Part_PreMainMessageLoopRun]"
    using CreateStartupTasks_full [OF assms(1) m(6) assms(4,5) m(3)] m by auto
  let ?m2 = "RunMainMessageLoopParts env m1"
  note e = RunMainMessageLoopParts_effect [OF assms(1,6), of m1]
  obtain m3 where m3: "ShutdownThreadsAndCleanUp env ?m2 = Inr m3" "\<forall>j. j \<noteq> UI \<longrightarrow> threads (registry m3) j = None"
    "threads (registry m3) UI = threads (registry m1) UI" "sub_threads m3 = (\<lambda>j. j \<notin> set (tl all_ids) \<and> sub_threads m1 j)"
    "main_thread m3" "trace m3 = trace ?m2 @ [Part_PostMainMessageLoopRun] @ map Thread_Reset (rev (tl all_ids)) @
      [Pool_Shutdown, Part_PostDestroyThreads]"
    using ShutdownThreadsAndCleanUp_full [of env ?m2] assms(1,7) e m1 by auto
  obtain th where th: "threads (registry m1) UI = Some th" using m1(3) by fastforce
  have "threads (registry m3) = [UI \<mapsto> th]" using m3(2,3) th by (auto simp: fun_eq_iff)
  moreover have "\<forall>i. \<not> sub_threads m3 i \<or> i = UI \<or> i = ID_COUNT"
    unfolding m3(4) by (metis list.set_intros(2) list.collapse set_ConsD set_all_ids all_ids_def list.distinct(1) list.sel(1))
  ultimately obtain m4 where m4: "DestroyBrowserMainLoop env m3 = Inr m4" "threads (registry m4) = (\<lambda>_. None)" "trace m4 = trace m3"
    using DestroyBrowserMainLoop_effect [OF _ m3(5) _ assms(7)] by blast
  let ?r = "\<lparr>initialization_started = True, is_shutdown = True, loop = None, exited_main_message_loop = True,
    bmr_registry = registry m4, history = trace m4\<rparr>"
  have "BrowserMain env g = Inr (result_code ?m2, ?r)"
    using m(1) m1(1,4) assms(4) m3(1) m4(1)
    by (simp add: BrowserMain_def bmr_Initialize_def BrowserMainRunnerImpl_def bmr_Run_def bmr_Shutdown_def
        DestroyBrowserMainRunner_def Let_def)
  then show ?thesis using e m1(4,8) m3(6) m4 by simp
qed

text \<open>
  C6: a normal run of the browser process. If the parts' \<^verbatim>\<open>PreCreateThreads\<close> reports no error and the
  platform creates the threads, the process goes through all its stages in the documented order:
  the threads start in the order of their identifiers before the main message loop runs and are
  stopped in the reverse order after it, then the worker pool is shut down; no assertion fails, the
  exit code is the one the main message loop left, and no thread stays registered.
\<close>

theorem BrowserMain_normal_run:
  assumes "has_parts env" "toolkit_ok env" "threads g = (\<lambda>_. None)" "pre_create_threads_result env \<le> 0"
    and "\<forall>i. thread_created env i" "posts_keep_threads (main_loop_effect env)"
    and "\<forall>i. quits_properly i (loop_to_quit env i)"
  shows "\<exists>r. BrowserMain env g = Inr (snd (parts_run_loop env (pre_create_threads_result env)), r) \<and> is_shutdown r \<and>
    threads (bmr_registry r) = (\<lambda>_. None) \<and>
    history r = early_events @ [Part_PreCreateThreads] @ map Thread_Started (tl all_ids) @
      [Part_PreMainMessageLoopRun, Part_MainMessageLoopRun] @
      (if fst (parts_run_loop env (pre_create_threads_result env)) then [] else [Default_MainMessageLoopRun]) @
      [Part_PostMainMessageLoopRun] @ map Thread_Reset (rev (tl all_ids)) @ [Pool_Shutdown, Part_PostDestroyThreads]"
  using assms by (rule BrowserMain_normal_run')

text \<open>
  C19: a run that ends before the threads exist. If \<^verbatim>\<open>PreCreateThreads\<close> reports an error, the process
  exits with that code and no thread was started. What the shutdown does then depends on the value
  the constructor left in \<^verbatim>\<open>created_threads_\<close>, which it does not initialise: only if it happens to be
  false does the shutdown stop at once, as its comment says; otherwise it goes through the
  whole teardown, calling \<^verbatim>\<open>PostMainMessageLoopRun\<close> and \<^verbatim>\<open>PostDestroyThreads\<close> of parts whose main
  message loop never ran.
\<close>

theorem BrowserMain_early_exit:
  assumes "has_parts env" "toolkit_ok env" "threads g = (\<lambda>_. None)" "pre_create_threads_result env > 0"
    and "\<forall>i. quits_properly i (loop_to_quit env i)"
  shows "\<exists>r. BrowserMain env g = Inr (pre_create_threads_result env, r) \<and> threads (bmr_registry r) = (\<lambda>_. None) \<and>
    history r = early_events @ [Part_PreCreateThreads] @
      (if indeterminate_created_threads env
       then [Part_PostMainMessageLoopRun] @ map Thread_Reset (rev (tl all_ids)) @ [Pool_Shutdown, Part_PostDestroyThreads]
       else [])"
proof -
  obtain m where m: "rbind (InitializeToolkit env (EarlyInitialization env (BrowserMainLoop env g))) (\<lambda>(ok, m).
      if \<not> ok then Inr (False, m) else rbind (MainMessageLoopStart env m) (\<lambda>m1. Inr (True, m1))) = Inr (True, m)"
    "trace m = early_events" "threads (registry m) = [UI \<mapsto> (Thread UI)\<lparr>message_loop := Some 0\<rparr>]" "main_thread m"
    "sub_threads m = (\<lambda>_. False)" "created_threads m = indeterminate_created_threads env" "\<not> startup_task_runner_made m"
    using early_stages [OF assms(1-3)] by blast
  let ?m1 = "(note_event Part_PreCreateThreads (m\<lparr>startup_task_runner_made := True\<rparr>))
    \<lparr>result_code := pre_create_threads_result env\<rparr>"
  have s: "CreateStartupTasks env m = Inr ?m1" using CreateStartupTasks_early_exit assms(1,4) m(7) by blast
  obtain ok g1 where g1: "bt_PostTask (Some 0) (time_now env) IO ''FROM_HERE'' (Some (allow_io_closure env)) (registry m) = Inr (ok, g1)"
    "threads g1 = threads (registry m)"
    using PostTaskHelper_effect [of IO "Some (allow_io_closure env)" 0 "Some 0" "time_now env" "''FROM_HERE''" True "registry m"]
    by (auto simp: bt_PostTask_def)
  obtain m3 where m3: "ShutdownThreadsAndCleanUp env ?m1 = Inr m3" "threads (registry m3) = threads (registry m)"
    "sub_threads m3 = (\<lambda>_. False)" "main_thread m3"
    "trace m3 = early_events @ [Part_PreCreateThreads] @ (if indeterminate_created_threads env
       then [Part_PostMainMessageLoopRun] @ map Thread_Reset (rev (tl all_ids)) @ [Pool_Shutdown, Part_PostDestroyThreads] else [])"
    using m assms(1) g1 by (auto simp: ShutdownThreadsAndCleanUp_def part_def reset_threads_absent Let_def)
  obtain m4 where m4: "DestroyBrowserMainLoop env m3 = Inr m4" "threads (registry m4) = (\<lambda>_. None)" "trace m4 = trace m3"
    using DestroyBrowserMainLoop_effect [OF _ m3(4) _ assms(5)] m3(2,3) m(3) by auto
  let ?r = "\<lparr>initialization_started = True, is_shutdown = True, loop = None, exited_main_message_loop = True,
    bmr_registry = registry m4, history = trace m4\<rparr>"
  have "BrowserMain env g = Inr (pre_create_threads_result env, ?r)"
    using m(1) s assms(4) m3(1) m4(1)
    by (simp add: BrowserMain_def bmr_Initialize_def BrowserMainRunnerImpl_def bmr_Shutdown_def
        DestroyBrowserMainRunner_def)
  then show ?thesis using m3(5) m4 by simp
qed

text \<open>A concrete environment for the two runs.\<close>

definition demo_env :: "int \<Rightarrow> nat main_env" where
  "demo_env res = \<lparr>has_parts = True, indeterminate_created_threads = True, toolkit_ok = True,
     pre_create_threads_result = res, parts_run_loop = (\<lambda>c. (True, 5)), thread_created = (\<lambda>_. True),
     closures = \<lparr>quit_helper = 0, delegate_init_async = id_index\<rparr>, main_loop_effect = (\<lambda>g. g),
     loop_to_quit = ThreadQuitHelper, allow_io_closure = 9, time_now = 1\<rparr>"

lemma demo_quits: "quits_properly i (loop_to_quit (demo_env res) i)"
  by (simp add: demo_env_def quits_properly_def ThreadQuitHelper_def)

theorem BrowserMain_normal_run_witness:
  "\<exists>r. BrowserMain (demo_env 0) no_threads = Inr (5, r) \<and> is_shutdown r \<and> length (history r) = 23"
proof -
  have "\<exists>r. BrowserMain (demo_env 0) no_threads = Inr (snd (parts_run_loop (demo_env 0) (pre_create_threads_result (demo_env 0))), r) \<and>
    is_shutdown r \<and> threads (bmr_registry r) = (\<lambda>_. None) \<and>
    history r = early_events @ [Part_PreCreateThreads] @ map Thread_Started (tl all_ids) @
      [Part_PreMainMessageLoopRun, Part_MainMessageLoopRun] @
      (if fst (parts_run_loop (demo_env 0) (pre_create_threads_result (demo_env 0))) then [] else [Default_MainMessageLoopRun]) @
      [Part_PostMainMessageLoopRun] @ map Thread_Reset (rev (tl all_ids)) @ [Pool_Shutdown, Part_PostDestroyThreads]"
    by (rule BrowserMain_normal_run)
      (simp_all add: demo_quits, simp_all add: demo_env_def no_threads_def posts_keep_threads_def)
  then show ?thesis by (auto simp: demo_env_def early_events_def ids_after_UI)
qed

theorem BrowserMain_early_exit_witness:
  "\<exists>r. BrowserMain (demo_env 7) no_threads = Inr (7, r) \<and> Part_PostMainMessageLoopRun \<in> set (history r)"
proof -
  have "\<exists>r. BrowserMain (demo_env 7) no_threads = Inr (pre_create_threads_result (demo_env 7), r) \<and>
    threads (bmr_registry r) = (\<lambda>_. None) \<and>
    history r = early_events @ [Part_PreCreateThreads] @
      (if indeterminate_created_threads (demo_env 7)
       then [Part_PostMainMessageLoopRun] @ map Thread_Reset (rev (tl all_ids)) @ [Pool_Shutdown, Part_PostDestroyThreads]
       else [])"
    by (rule BrowserMain_early_exit) (simp_all add: demo_quits, simp_all add: demo_env_def no_threads_def)
  then show ?thesis by (auto simp: demo_env_def)
qed

end
