(* ===== verification/Loop_Invariants.thy ===== *)
theory Loop_Invariants
  imports Message_Loop_Safety
begin

text \<open>
  The interface between the message loop and its invariants: an invariant \<open>I\<close> of the loop and a
  version \<open>H\<close> of it that holds while one task is in hand. Whoever shows that the primitive
  operations on queues and the running of a task keep them gets that the work functions do.
\<close>

lemma call_pump_simps [simp]:
  "incoming (call_pump c l) = incoming l" "work_queue (call_pump c l) = work_queue l"
  "delayed_work_queue (call_pump c l) = delayed_work_queue l"
  "deferred_non_nestable_work_queue (call_pump c l) = deferred_non_nestable_work_queue l"
  "current_run_loop (call_pump c l) = current_run_loop l" "run_loops (call_pump c l) = run_loops l"
  "nestable_tasks_allowed (call_pump c l) = nestable_tasks_allowed l"
  "pump_calls (call_pump c l) = pump_calls l @ [c]"
  by (simp_all add: call_pump_def)

locale loop_invariant =
  fixes env :: "'c loop_env"
    and I :: "'c message_loop \<Rightarrow> bool"
    and H :: "'c pending_task \<Rightarrow> 'c message_loop \<Rightarrow> bool"
  assumes reload: "I l \<Longrightarrow> ReloadWorkQueue l = Inr l' \<Longrightarrow> I l'"
    and pop_work: "I l \<Longrightarrow> work_queue l = pt # rest \<Longrightarrow> H pt (l\<lparr>work_queue := rest\<rparr>)"
    and pop_delayed: "I l \<Longrightarrow> delayed_work_queue l = pt # rest \<Longrightarrow> H pt (l\<lparr>delayed_work_queue := rest\<rparr>)"
    and pop_deferred: "I l \<Longrightarrow> deferred_non_nestable_work_queue l = pt # rest \<Longrightarrow>
      H pt (l\<lparr>deferred_non_nestable_work_queue := rest\<rparr>)"
    and delay: "H pt l \<Longrightarrow> is_delayed pt \<Longrightarrow> I (AddToDelayedWorkQueue pt l)"
    and deferral: "H pt l \<Longrightarrow>
      I (l\<lparr>deferred_non_nestable_work_queue := deferred_non_nestable_work_queue l @ [pt]\<rparr>)"
    and run: "H pt l \<Longrightarrow> RunTask env pt l = Inr l' \<Longrightarrow> I l'"
    and call: "I l \<Longrightarrow> I (call_pump c l)"
    and recent: "I l \<Longrightarrow> I (l\<lparr>recent_time := t\<rparr>)"
    and high_res: "I l \<Longrightarrow> I (l\<lparr>in_high_res_mode := b\<rparr>)"
begin

lemma DeferOrRun_keeps: "H pt l \<Longrightarrow> DeferOrRunPendingTask env pt l = Inr (b, l') \<Longrightarrow> I l'"
  using run deferral by (auto simp: DeferOrRunPendingTask_def rsimps split: if_splits)

lemma DoWork_queue_keeps: "I l \<Longrightarrow> DoWork_queue env l = Inr (b, l') \<Longrightarrow> I l'"
proof (induction "work_queue l" arbitrary: l)
  case Nil
  then show ?case by (simp add: DoWork_queue.simps [of env l])
next
  case (Cons pt rest)
  note q = Cons.hyps(2) [symmetric]
  let ?l1 = "l\<lparr>work_queue := rest\<rparr>"
  note h = pop_work [OF Cons.prems(1) q]
  show ?case
  proof (cases "ticks_is_null (delayed_run_time pt)")
    case True
    then obtain b2 l2 where d: "DeferOrRunPendingTask env pt ?l1 = Inr (b2, l2)"
      and r: "(if b2 then Inr (True, l2) else DoWork_queue env l2) = Inr (b, l')"
      using Cons.prems(2) q by (subst (asm) DoWork_queue.simps) (auto simp: rsimps)
    note i2 = DeferOrRun_keeps [OF h d]
    show ?thesis
    proof (cases b2)
      case False
      then have "rest = work_queue l2" using DeferOrRun_deferred d by fastforce
      then show ?thesis using Cons.hyps(1) i2 r False by simp
    qed (use i2 r in simp)
  next
    case False
    let ?l2 = "AddToDelayedWorkQueue pt ?l1"
    let ?l3 = "if task (hd (delayed_work_queue ?l2)) = task pt
               then call_pump (Pump_ScheduleDelayedWork (delayed_run_time pt)) ?l2 else ?l2"
    have "I ?l3" using delay [OF h] False call by (simp add: is_delayed_def)
    moreover have "rest = work_queue ?l3" by (simp add: AddToDelayedWorkQueue_def call_pump_def)
    moreover have "DoWork_queue env ?l3 = Inr (b, l')"
      using Cons.prems(2) q False by (subst (asm) DoWork_queue.simps) (simp add: Let_def)
    ultimately show ?thesis using Cons.hyps(1) by blast
  qed
qed

lemma DoWork_loop_keeps: "I l \<Longrightarrow> DoWork_loop env l = Inr (b, l') \<Longrightarrow> I l'"
proof (induction "length (work_queue l) + length (incoming_queue (incoming l))" arbitrary: l rule: less_induct)
  case less
  obtain l1 where rl: "ReloadWorkQueue l = Inr l1" and p: "posted l = work_queue l1 @ incoming_queue (incoming l1)"
    using ReloadWorkQueue_set_aside [of l] by blast
  have len: "length (work_queue l) + length (incoming_queue (incoming l)) =
      length (work_queue l1) + length (incoming_queue (incoming l1))"
    using p by (metis length_append posted_def)
  note i1 = reload [OF less.prems(1) rl]
  show ?case
  proof (cases "work_queue l1 = []")
    case True
    then show ?thesis using less.prems(2) rl i1 by (subst (asm) DoWork_loop.simps) simp
  next
    case False
    then obtain b2 l2 where q: "DoWork_queue env l1 = Inr (b2, l2)"
      and r: "(if b2 then Inr (True, l2) else DoWork_loop env l2) = Inr (b, l')"
      using less.prems(2) rl by (subst (asm) DoWork_loop.simps) (auto simp: rsimps)
    note i2 = DoWork_queue_keeps [OF i1 q]
    show ?thesis
    proof (cases b2)
      case b: False
      with q have "work_queue l2 = [] \<and> incoming l2 = incoming l1" using DoWork_queue_exhausted by fastforce
      then have "length (work_queue l2) + length (incoming_queue (incoming l2)) <
          length (work_queue l) + length (incoming_queue (incoming l))" using False len by simp
      then show ?thesis using less.hyps i2 r b by simp
    qed (use i2 r in simp)
  qed
qed

lemma DoWork_keeps: "I l \<Longrightarrow> DoWork env l = Inr (b, l') \<Longrightarrow> I l'"
  using DoWork_loop_keeps by (auto simp: DoWork_def split: if_splits)

lemma DoDelayedWork_keeps: "I l \<Longrightarrow> DoDelayedWork env now next l = Inr (b, t, l') \<Longrightarrow> I l'"
proof (cases "delayed_work_queue l")
  case (Cons pt rest)
  assume i: "I l" and d: "DoDelayedWork env now next l = Inr (b, t, l')"
  let ?l1 = "if delayed_run_time pt > recent_time l then l\<lparr>recent_time := now\<rparr> else l"
  have "I ?l1" "delayed_work_queue ?l1 = pt # rest" using i recent Cons by auto
  note h = pop_delayed [OF this]
  show ?thesis using i d Cons recent DeferOrRun_keeps [OF h]
    by (auto simp: DoDelayedWork_def rsimps Let_def split: if_splits)
qed (use recent in \<open>auto simp: DoDelayedWork_def\<close>)

lemma ProcessNext_keeps: "I l \<Longrightarrow> ProcessNextDelayedNonNestableTask env l = Inr (b, l') \<Longrightarrow> I l'"
  by (cases "deferred_non_nestable_work_queue l")
    (auto simp: ProcessNextDelayedNonNestableTask_def rsimps split: if_splits dest: run [OF pop_deferred])

lemma DoIdleWork_keeps:
  assumes "I l" "DoIdleWork env l = Inr (b, l')"
  shows "I l'"
proof -
  obtain b1 l1 where p: "ProcessNextDelayedNonNestableTask env l = Inr (b1, l1)"
    using assms(2) by (cases "ProcessNextDelayedNonNestableTask env l") (auto simp: DoIdleWork_def)
  note i1 = ProcessNext_keeps [OF assms(1) p]
  let ?l2 = "\<lambda>q. if q then call_pump Pump_Quit l1 else l1"
  have i2: "I (?l2 q)" for q using i1 call by simp
  have i3: "I (call_pump (ActivateHighResolutionTimer h) ((?l2 q)\<lparr>in_high_res_mode := h\<rparr>))" for q h
    by (intro call high_res i2)
  show ?thesis
  proof (cases b1)
    case True
    then show ?thesis using assms(2) p i1 by (simp add: DoIdleWork_def)
  next
    case False
    then obtain r where "inner_run_loop l1 = Inr r"
      using assms(2) p by (cases "inner_run_loop l1") (auto simp: DoIdleWork_def)
    then show ?thesis using assms(2) p False i2 [of "quit_when_idle_received r"]
        i3 [of "pending_high_res_tasks (?l2 (quit_when_idle_received r)) > 0" "quit_when_idle_received r"]
      by (simp add: DoIdleWork_def Let_def del: if_split split: if_splits)
  qed
qed

end

text \<open>The invariant that makes the assertions hold is one, for closures that use the interface.\<close>

interpretation hr: loop_invariant env
  "\<lambda>l. well_behaved env \<and> loop_inv l \<and> current_run_loop l \<noteq> None"
  "\<lambda>pt l. well_behaved env \<and> loop_inv_but (of_bool (is_high_res pt)) l \<and> current_run_loop l \<noteq> None \<and> task pt \<noteq> None"
  for env
proof unfold_locales
  fix l l' :: "'a message_loop" and pt :: "'a pending_task"
  assume "well_behaved env \<and> loop_inv_but (of_bool (is_high_res pt)) l \<and> current_run_loop l \<noteq> None \<and> task pt \<noteq> None"
    and "RunTask env pt l = Inr l'"
  then show "well_behaved env \<and> loop_inv l' \<and> current_run_loop l' \<noteq> None"
    using RunTask_inv [of env pt l] by (cases "nestable_tasks_allowed l") (auto simp: RunTask_def)
next
  fix l :: "'a message_loop" and pt :: "'a pending_task"
  assume a: "well_behaved env \<and> loop_inv_but (of_bool (is_high_res pt)) l \<and> current_run_loop l \<noteq> None \<and> task pt \<noteq> None"
  show "well_behaved env \<and> loop_inv (AddToDelayedWorkQueue pt l) \<and> current_run_loop (AddToDelayedWorkQueue pt l) \<noteq> None"
    using a loop_inv_AddToDelayed [of pt l] by (simp add: AddToDelayedWorkQueue_def)
  show "well_behaved env \<and> loop_inv (l\<lparr>deferred_non_nestable_work_queue := deferred_non_nestable_work_queue l @ [pt]\<rparr>) \<and>
    current_run_loop (l\<lparr>deferred_non_nestable_work_queue := deferred_non_nestable_work_queue l @ [pt]\<rparr>) \<noteq> None"
    using a by (auto simp: loop_inv_but_def held_def posted_def)
next
  fix l l' :: "'a message_loop" and pt :: "'a pending_task" and rest
  assume a: "well_behaved env \<and> loop_inv l \<and> current_run_loop l \<noteq> None"
  show "ReloadWorkQueue l = Inr l' \<Longrightarrow> well_behaved env \<and> loop_inv l' \<and> current_run_loop l' \<noteq> None"
    using a loop_inv_Reload [of l l'] Reload_frame [of l l'] by simp
  show "work_queue l = pt # rest \<Longrightarrow> well_behaved env \<and>
      loop_inv_but (of_bool (is_high_res pt)) (l\<lparr>work_queue := rest\<rparr>) \<and>
      current_run_loop (l\<lparr>work_queue := rest\<rparr>) \<noteq> None \<and> task pt \<noteq> None"
    using a loop_inv_pop_work [of l pt rest] by simp
  show "delayed_work_queue l = pt # rest \<Longrightarrow> well_behaved env \<and>
      loop_inv_but (of_bool (is_high_res pt)) (l\<lparr>delayed_work_queue := rest\<rparr>) \<and>
      current_run_loop (l\<lparr>delayed_work_queue := rest\<rparr>) \<noteq> None \<and> task pt \<noteq> None"
    using a loop_inv_pop_delayed [of l pt rest] by simp
  show "deferred_non_nestable_work_queue l = pt # rest \<Longrightarrow> well_behaved env \<and>
      loop_inv_but (of_bool (is_high_res pt)) (l\<lparr>deferred_non_nestable_work_queue := rest\<rparr>) \<and>
      current_run_loop (l\<lparr>deferred_non_nestable_work_queue := rest\<rparr>) \<noteq> None \<and> task pt \<noteq> None"
    using a loop_inv_pop_deferred [of l pt rest] by simp
qed simp_all

end
