(* ===== verification/Qt_Message_Pump.thy ===== *)
theory Qt_Message_Pump
  imports Loop_Invariants
begin

text \<open>
  \<^verbatim>\<open>policy/browser/ui/messageloop_qt.cc\<close>: the message pump that runs the UI message loop inside Qt's
  event loop. The pump's calls of the loop are the definitions of \<open>Message_Loop\<close>; the loop's calls
  of the pump (recorded there in order) are delivered to the pump when the work function returns,
  which is equivalent, as the loop never reads the pump's state. Events that were posted to the
  pump and not yet handled are counted. \<^verbatim>\<open>QObject::startTimer\<close> is a parameter; the documented
  behaviour used of it is that it returns a non-zero identifier. The clock is constant while one
  event is handled.
\<close>

record qt_pump =
  user_events :: nat
  m_timerId :: nat
  m_timerScheduledTime :: time_ticks
  timer_interval :: int
  app_quits :: nat

definition MessagePumpForUIQt :: qt_pump where
  "MessagePumpForUIQt = \<lparr>user_events = 0, m_timerId = 0, m_timerScheduledTime = 0, timer_interval = 0, app_quits = 0\<rparr>"

text \<open>
  \<^verbatim>\<open>ceil\<close> of the milliseconds as a double is exact for differences below \<open>2 ^ 53\<close> microseconds. The
  conversion of a value out of range to \<^verbatim>\<open>int\<close> gives the smallest \<^verbatim>\<open>int\<close> on the target machines.
\<close>

definition double_to_int :: "int \<Rightarrow> int" where
  "double_to_int x = (if is_int32 x then x else int32_min)"

definition GetTimeIntervalMilliseconds :: "time_ticks \<Rightarrow> time_ticks \<Rightarrow> int" where
  "GetTimeIntervalMilliseconds now from =
     (if ticks_is_null from then - 1
      else let delay = double_to_int (- ((- ticks_minus from now) div kMicrosecondsPerMillisecond))
           in if delay < 0 then 0 else delay)"

definition qt_Quit :: "qt_pump \<Rightarrow> qt_pump" where
  "qt_Quit p = p\<lparr>app_quits := app_quits p + 1\<rparr>"

definition qt_ScheduleWork :: "qt_pump \<Rightarrow> qt_pump" where
  "qt_ScheduleWork p = p\<lparr>user_events := user_events p + 1\<rparr>"

definition qt_ScheduleDelayedWork :: "(int \<Rightarrow> nat) \<Rightarrow> time_ticks \<Rightarrow> time_ticks \<Rightarrow> qt_pump \<Rightarrow> qt_pump" where
  "qt_ScheduleDelayedWork startTimer now delayed_work_time p =
     (if ticks_is_null delayed_work_time then p\<lparr>m_timerId := 0, m_timerScheduledTime := 0\<rparr>
      else if m_timerId p = 0 \<or> delayed_work_time < m_timerScheduledTime p then
        let ms = GetTimeIntervalMilliseconds now delayed_work_time
        in p\<lparr>m_timerId := startTimer ms, timer_interval := ms, m_timerScheduledTime := delayed_work_time\<rparr>
      else p)"

text \<open>Delivery of the calls the loop made while it ran.\<close>

fun pump_receive :: "(int \<Rightarrow> nat) \<Rightarrow> time_ticks \<Rightarrow> pump_call \<Rightarrow> qt_pump \<Rightarrow> qt_pump" where
  "pump_receive st now Pump_ScheduleWork p = qt_ScheduleWork p"
| "pump_receive st now (Pump_ScheduleDelayedWork t) p = qt_ScheduleDelayedWork st now t p"
| "pump_receive st now Pump_Quit p = qt_Quit p"
| "pump_receive st now (ActivateHighResolutionTimer b) p = p"

definition deliver :: "(int \<Rightarrow> nat) \<Rightarrow> time_ticks \<Rightarrow> 'c message_loop \<Rightarrow> 'c message_loop \<Rightarrow> qt_pump \<Rightarrow> qt_pump" where
  "deliver st now l l' p = fold (pump_receive st now) (drop (length (pump_calls l)) (pump_calls l')) p"

definition handleScheduledWork ::
  "(int \<Rightarrow> nat) \<Rightarrow> 'c loop_env \<Rightarrow> time_ticks \<Rightarrow> qt_pump \<Rightarrow> 'c message_loop \<Rightarrow> (bool \<times> qt_pump \<times> 'c message_loop) result"
where
  "handleScheduledWork st env now p l =
     rbind (DoWork env l) (\<lambda>(more1, l1).
     rbind (DoDelayedWork env now 0 l1) (\<lambda>(more2, delayed_work_time, l2).
       let p2 = deliver st now l1 l2 (deliver st now l l1 p) in
       if more1 \<or> more2 then Inr (True, p2, l2)
       else rbind (DoIdleWork env l2) (\<lambda>(more3, l3).
         let p3 = deliver st now l2 l3 p2
         in if \<not> more3 then Inr (False, qt_ScheduleDelayedWork st now delayed_work_time p3, l3)
            else Inr (True, p3, l3))))"

definition customEvent ::
  "(int \<Rightarrow> nat) \<Rightarrow> 'c loop_env \<Rightarrow> time_ticks \<Rightarrow> qt_pump \<times> 'c message_loop \<Rightarrow> (qt_pump \<times> 'c message_loop) result"
where
  "customEvent st env now s =
     (let (p, l) = s in
      rbind (handleScheduledWork st env now (p\<lparr>user_events := user_events p - 1\<rparr>) l) (\<lambda>(more, p', l').
        Inr (if more then qt_ScheduleWork p' else p', l')))"

definition timerEvent ::
  "(int \<Rightarrow> nat) \<Rightarrow> 'c loop_env \<Rightarrow> time_ticks \<Rightarrow> qt_pump \<times> 'c message_loop \<Rightarrow> (qt_pump \<times> 'c message_loop) result"
where
  "timerEvent st env now s =
     (let (p, l) = s; p1 = p\<lparr>m_timerId := 0, m_timerScheduledTime := 0\<rparr> in
      rbind (DoDelayedWork env now 0 l) (\<lambda>(_, next_delayed_work_time, l').
        Inr (qt_ScheduleDelayedWork st now next_delayed_work_time (deliver st now l l' p1), l')))"

definition OnIdle ::
  "(int \<Rightarrow> nat) \<Rightarrow> 'c loop_env \<Rightarrow> time_ticks \<Rightarrow> qt_pump \<times> 'c message_loop \<Rightarrow> (qt_pump \<times> 'c message_loop) result"
where
  "OnIdle st env now s =
     (let (p, l) = s in rbind (DoIdleWork env l) (\<lambda>(_, l'). Inr (deliver st now l l' p, l')))"

text \<open>A post by any thread: the loop's call of \<^verbatim>\<open>ScheduleWork\<close> reaches the pump.\<close>

definition ui_post ::
  "(int \<Rightarrow> nat) \<Rightarrow> bool \<Rightarrow> time_ticks \<Rightarrow> string \<Rightarrow> 'c option \<Rightarrow> time_delta \<Rightarrow> qt_pump \<times> 'c message_loop \<Rightarrow>
   (qt_pump \<times> 'c message_loop) result"
where
  "ui_post st nest now fh t delay s =
     (let (p, l) = s in rbind (proxy_Post nest now fh t delay l) (\<lambda>(_, l'). Inr (deliver st now l l' p, l')))"

subsection \<open>The timer interval\<close>

lemma ceil_div: "0 < (k::int) \<Longrightarrow> d \<le> - ((- d) div k) * k \<and> - ((- d) div k) * k < d + k"
proof -
  assume k: "0 < k"
  define q r where "q = (- d) div k" and "r = (- d) mod k"
  then have "k * q + r = - d" "0 \<le> r" "r < k" using k by simp_all
  moreover from this have "- q * k = d + r" by (simp add: algebra_simps)
  ultimately show ?thesis unfolding q_def by linarith
qed

lemma int32_scaled:
  fixes c d :: int
  assumes "d \<le> c * 1000" "c * 1000 < d + 1000"
  shows "d \<le> 0 \<longrightarrow> c \<le> 0" "0 < d \<longrightarrow> 0 < c" "d \<le> int32_max * 1000 \<longrightarrow> c \<le> int32_max"
    "int32_max * 1000 < d \<longrightarrow> int32_max < c"
  using assms by simp_all

text \<open>
  The timer the UI pump starts for a task due at \<open>from\<close> never fires early and less than a
  millisecond late: the interval is the time left, rounded up, and 0 if the task is overdue,
  provided the wait is below \<open>2 ^ 31\<close> milliseconds. For a longer wait the conversion to \<^verbatim>\<open>int\<close>
  leaves its range and the interval is 0, so that the timer fires at once.
\<close>

theorem timer_interval_rounds_up:
  assumes "is_int64 (from - now)" "from \<noteq> 0"
  shows "(let ms = GetTimeIntervalMilliseconds now from; left = from - now in
    (left \<le> 0 \<longrightarrow> ms = 0) \<and>
    (0 < left \<and> left \<le> int32_max * 1000 \<longrightarrow> left \<le> ms * 1000 \<and> ms * 1000 < left + 1000) \<and>
    (int32_max * 1000 < left \<longrightarrow> ms = 0))"
proof -
  let ?d = "from - now" and ?c = "- ((- (from - now)) div 1000)"
  have c: "?d \<le> ?c * 1000" "?c * 1000 < ?d + 1000" using ceil_div [of 1000 ?d] by simp_all
  have g: "GetTimeIntervalMilliseconds now from = (if double_to_int ?c < 0 then 0 else double_to_int ?c)"
    using assms by (simp add: GetTimeIntervalMilliseconds_def ticks_is_null_def ticks_minus_def time_consts Let_def)
  have d2i: "x \<le> 0 \<Longrightarrow> (if double_to_int x < 0 then 0 else double_to_int x) = 0"
    "0 < x \<Longrightarrow> x \<le> int32_max \<Longrightarrow> (if double_to_int x < 0 then 0 else double_to_int x) = x"
    "int32_max < x \<Longrightarrow> (if double_to_int x < 0 then 0 else double_to_int x) = 0" for x :: int
    by (simp_all add: double_to_int_def is_int32_def)
  note s = int32_scaled [OF c]
  show ?thesis unfolding g Let_def
  proof (intro conjI impI)
    assume "?d \<le> 0"
    then show "(if double_to_int ?c < 0 then 0 else double_to_int ?c) = 0" using d2i(1) s(1) by blast
  next
    assume a: "0 < ?d \<and> ?d \<le> int32_max * 1000"
    then have e: "(if double_to_int ?c < 0 then 0 else double_to_int ?c) = ?c" using d2i(2) s(2,3) by blast
    show "?d \<le> (if double_to_int ?c < 0 then 0 else double_to_int ?c) * 1000"
      "(if double_to_int ?c < 0 then 0 else double_to_int ?c) * 1000 < ?d + 1000"
      unfolding e by (rule c)+
  next
    assume "int32_max * 1000 < ?d"
    then show "(if double_to_int ?c < 0 then 0 else double_to_int ?c) = 0" using d2i(3) s(4) by blast
  qed
qed

theorem timer_interval_rounds_up_witness:
  "5500 \<le> GetTimeIntervalMilliseconds 1000 6500 * 1000 \<and> GetTimeIntervalMilliseconds 1000 6500 * 1000 < 6500 \<and>
   GetTimeIntervalMilliseconds 1 (3000000000000 + 1) = 0"
  using timer_interval_rounds_up [of 6500 1000] timer_interval_rounds_up [of "3000000000000 + 1" 1]
  by (simp add: is_int64_def Let_def)

subsection \<open>Tasks that post tasks\<close>

inductive posts :: "'c message_loop \<Rightarrow> 'c message_loop \<Rightarrow> bool" where
  posts_none: "posts l l"
| posts_one: "posts l l' \<Longrightarrow> proxy_Post nest now fh t delay l' = Inr (ok, l'') \<Longrightarrow> posts l l''"

text \<open>
  The hypothesis on tasks and observers of the UI thread: while they run they post tasks, and do
  not enter an event loop of their own.
\<close>

definition posting_env :: "'c loop_env \<Rightarrow> bool" where
  "posting_env env \<longleftrightarrow>
     (\<forall>c l l'. run_closure env c l = Inr l' \<longrightarrow> posts l l') \<and>
     (\<forall>pt l l'. will_process_task env pt l = Inr l' \<longrightarrow> posts l l') \<and>
     (\<forall>pt l l'. did_process_task env pt l = Inr l' \<longrightarrow> posts l l')"

abbreviation scheduled :: "'c message_loop \<Rightarrow> bool" where
  "scheduled l \<equiv> message_loop_scheduled (incoming l)"

definition wake_ok :: "'c message_loop \<Rightarrow> bool" where
  "wake_ok l \<longleftrightarrow> \<not> always_schedule_work (incoming l) \<and> (incoming_queue (incoming l) \<noteq> [] \<longrightarrow> scheduled l)"

text \<open>What happens to the calls of the pump and to the wake-up flag while the loop does something.\<close>

definition wakes :: "'c message_loop \<Rightarrow> 'c message_loop \<Rightarrow> bool" where
  "wakes l l' \<longleftrightarrow> (\<exists>cs. pump_calls l' = pump_calls l @ cs \<and> (\<forall>t. Pump_ScheduleDelayedWork t \<notin> set cs) \<and>
     (scheduled l' \<longrightarrow> scheduled l \<or> Pump_ScheduleWork \<in> set cs))"

definition only_posts :: "'c message_loop \<Rightarrow> 'c message_loop \<Rightarrow> bool" where
  "only_posts l l' \<longleftrightarrow>
     work_queue l' = work_queue l \<and> delayed_work_queue l' = delayed_work_queue l \<and>
     nestable_tasks_allowed l' = nestable_tasks_allowed l \<and> current_run_loop l' = current_run_loop l \<and>
     (wake_ok l \<longrightarrow> wake_ok l') \<and> wakes l l'"

lemma wakes_refl [simp]: "wakes l l"
  by (simp add: wakes_def)

lemma wakes_trans: "wakes l l' \<Longrightarrow> wakes l' l'' \<Longrightarrow> wakes l l''"
  unfolding wakes_def by (elim exE conjE, rule_tac x = "cs @ csa" in exI) auto

lemma only_posts_refl [simp]: "only_posts l l"
  by (simp add: only_posts_def)

lemma only_posts_trans: "only_posts l l' \<Longrightarrow> only_posts l' l'' \<Longrightarrow> only_posts l l''"
  using wakes_trans by (auto simp: only_posts_def)

lemma AddToIncomingQueue_wakes:
  assumes "AddToIncomingQueue now fh t delay nest q = Inr (ok, woke, q')"
  shows "always_schedule_work q' = always_schedule_work q \<and>
    (woke \<longrightarrow> message_loop_scheduled q') \<and> (message_loop_scheduled q \<longrightarrow> message_loop_scheduled q') \<and>
    (message_loop_scheduled q' \<longrightarrow> message_loop_scheduled q \<or> woke) \<and>
    (incoming_queue q' \<noteq> [] \<longrightarrow> incoming_queue q \<noteq> [] \<or> message_loop_scheduled q')"
proof -
  have "0 < delay \<or> InMilliseconds delay = 0" using assms by (simp add: AddToIncomingQueue_cases split: if_splits)
  with assms show ?thesis by (auto simp: AddToIncomingQueue_cases)
qed

lemma proxy_Post_only_posts:
  assumes "proxy_Post nest now fh t delay l = Inr (ok, l')"
  shows "only_posts l l'"
proof -
  obtain woke q where q: "AddToIncomingQueue now fh t delay nest (incoming l) = Inr (ok, woke, q)"
    and l': "l' = (if woke then ml_ScheduleWork (l\<lparr>incoming := q\<rparr>) else l\<lparr>incoming := q\<rparr>)"
    using assms by (auto simp: proxy_Post_def rsimps Let_def)
  show ?thesis using AddToIncomingQueue_wakes [OF q]
    by (cases woke) (auto simp: l' only_posts_def wake_ok_def wakes_def ml_ScheduleWork_def)
qed

lemma posts_only_posts: "posts l l' \<Longrightarrow> only_posts l l'"
  by (induction rule: posts.induct) (auto intro: only_posts_trans proxy_Post_only_posts)

lemma only_posts_upd:
  "only_posts (l\<lparr>nestable_tasks_allowed := b\<rparr>) l' \<Longrightarrow>
     only_posts l (l'\<lparr>nestable_tasks_allowed := nestable_tasks_allowed l\<rparr>)"
  "only_posts (l\<lparr>ran := ts\<rparr>) l' \<Longrightarrow> only_posts l l'"
  "only_posts (l\<lparr>pending_high_res_tasks := n\<rparr>) l' \<Longrightarrow> only_posts l l'"
  by (simp_all add: only_posts_def wake_ok_def wakes_def)

lemma RunTask_only_posts:
  assumes "posting_env env" "RunTask env pt l = Inr l'"
  shows "only_posts l l'"
proof -
  let ?l1 = "if is_high_res pt then l\<lparr>pending_high_res_tasks := pending_high_res_tasks l - 1\<rparr> else l"
  obtain l2 l3 l4 where n: "nestable_tasks_allowed l" and w: "will_process_task env pt (?l1\<lparr>nestable_tasks_allowed := False\<rparr>) = Inr l2"
    and a: "annotator_RunTask env pt l2 = Inr l3" and d: "did_process_task env pt l3 = Inr l4"
    and l': "l' = l4\<lparr>nestable_tasks_allowed := True\<rparr>"
    using assms(2) unfolding RunTask_def Let_def rsimps by blast
  have "only_posts (?l1\<lparr>nestable_tasks_allowed := False\<rparr>) l2" "only_posts l3 l4"
    using assms(1) w d posts_only_posts unfolding posting_env_def by blast+
  moreover have "only_posts l2 l3"
    using a assms(1) posts_only_posts only_posts_upd(2)
    by (fastforce simp: annotator_RunTask_def posting_env_def split: option.splits)
  ultimately have "only_posts (?l1\<lparr>nestable_tasks_allowed := False\<rparr>) l4" using only_posts_trans by blast
  moreover have "nestable_tasks_allowed ?l1 = True" using n by simp
  ultimately have "only_posts ?l1 l'" unfolding l' using only_posts_upd(1) [of False ?l1 l4] by (simp only:)
  then show ?thesis using only_posts_upd(3) by (cases "is_high_res pt") auto
qed

subsection \<open>Wake-ups are never lost\<close>

definition wake_inv :: "'c message_loop \<Rightarrow> bool" where
  "wake_inv l \<longleftrightarrow> nestable_tasks_allowed l \<and> current_run_loop l \<noteq> None \<and> wake_ok l \<and>
     (\<forall>pt \<in> set (delayed_work_queue l). is_delayed pt)"

lemma wake_inv_only_posts: "only_posts l l' \<Longrightarrow> wake_inv l \<Longrightarrow> wake_inv l'"
  by (simp add: only_posts_def wake_inv_def)

interpretation wk: loop_invariant env "\<lambda>l. posting_env env \<and> wake_inv l" "\<lambda>pt l. posting_env env \<and> wake_inv l"
  for env
proof unfold_locales
  fix l l' :: "'a message_loop" and pt :: "'a pending_task"
  assume "posting_env env \<and> wake_inv l" "RunTask env pt l = Inr l'"
  then show "posting_env env \<and> wake_inv l'" using RunTask_only_posts wake_inv_only_posts by blast
qed (auto simp: wake_inv_def wake_ok_def ReloadWorkQueue_cases AddToDelayedWorkQueue_def split: if_splits)

lemma DoWork_loop_empty:
  "DoWork_loop env l = Inr (False, l') \<Longrightarrow> work_queue l' = [] \<and> incoming_queue (incoming l') = [] \<and> \<not> scheduled l'"
proof (induction env l rule: DoWork_loop.induct)
  case (1 env l)
  obtain l1 where rl: "ReloadWorkQueue l = Inr l1" by (simp add: ReloadWorkQueue_cases)
  show ?case
  proof (cases "work_queue l1 = []")
    case True
    then show ?thesis using "1.prems" rl
      by (subst (asm) DoWork_loop.simps) (auto simp: ReloadWorkQueue_cases split: if_splits)
  next
    case False
    then obtain b l2 where q: "DoWork_queue env l1 = Inr (b, l2)" "\<not> b" "DoWork_loop env l2 = Inr (False, l')"
      using "1.prems" rl by (subst (asm) DoWork_loop.simps) (auto simp: rsimps split: if_splits)
    then show ?thesis using "1.IH" [OF rl False] by blast
  qed
qed

lemma DoDelayedWork_effect:
  assumes "posting_env env" "nestable_tasks_allowed l" "DoDelayedWork env now 0 l = Inr (b, t, l')"
  shows "work_queue l' = work_queue l \<and> wakes l l' \<and>
    (delayed_work_queue l' \<noteq> [] \<longrightarrow> t = delayed_run_time (hd (delayed_work_queue l'))) \<and>
    (\<not> b \<longrightarrow> incoming l' = incoming l)"
proof (cases "delayed_work_queue l")
  case Nil
  then show ?thesis using assms(2,3) by (auto simp: DoDelayedWork_def wakes_def)
next
  case (Cons pt rest)
  let ?l1 = "if delayed_run_time pt > recent_time l then l\<lparr>recent_time := now\<rparr> else l"
  let ?l2 = "?l1\<lparr>delayed_work_queue := rest\<rparr>"
  show ?thesis
  proof (cases "delayed_run_time pt > recent_time ?l1")
    case True
    then show ?thesis using assms(2,3) Cons by (auto simp: DoDelayedWork_def wakes_def split: if_splits)
  next
    case False
    then have d: "DeferOrRunPendingTask env pt ?l2 = Inr (b, l')"
      and t: "t = (case rest of [] \<Rightarrow> 0 | x # _ \<Rightarrow> delayed_run_time x)"
      using assms(2,3) Cons by (auto simp: DoDelayedWork_def rsimps Let_def)
    have l2: "work_queue ?l2 = work_queue l" "wakes l ?l2" "delayed_work_queue ?l2 = rest" "incoming ?l2 = incoming l"
      by (simp_all add: wakes_def)
    show ?thesis
    proof (cases b)
      case True
      then have "RunTask env pt ?l2 = Inr l'" using d by (auto simp: DeferOrRunPendingTask_def rsimps split: if_splits)
      from RunTask_only_posts [OF assms(1) this] show ?thesis
        using l2 t True wakes_trans [OF l2(2)] unfolding only_posts_def by (auto split: list.splits)
    next
      case False
      then have "l' = ?l2\<lparr>deferred_non_nestable_work_queue := deferred_non_nestable_work_queue ?l2 @ [pt]\<rparr>"
        using d DeferOrRun_deferred [of env pt ?l2 l'] by simp
      then have "work_queue l' = work_queue ?l2" "delayed_work_queue l' = rest" "incoming l' = incoming ?l2" "wakes l l'"
        by (simp_all add: wakes_def)
      then show ?thesis using l2 t by (auto split: list.splits)
    qed
  qed
qed

lemma DoIdleWork_effect:
  assumes "posting_env env" "DoIdleWork env l = Inr (b, l')"
  shows "work_queue l' = work_queue l \<and> delayed_work_queue l' = delayed_work_queue l \<and> wakes l l' \<and>
    (\<not> b \<longrightarrow> incoming l' = incoming l)"
proof -
  obtain b1 l1 where p: "ProcessNextDelayedNonNestableTask env l = Inr (b1, l1)"
    using assms(2) by (cases "ProcessNextDelayedNonNestableTask env l") (auto simp: DoIdleWork_def)
  show ?thesis
  proof (cases b1)
    case True
    then obtain pt rest where "RunTask env pt (l\<lparr>deferred_non_nestable_work_queue := rest\<rparr>) = Inr l1"
      using p by (auto simp: ProcessNextDelayedNonNestableTask_def rsimps split: if_splits list.splits)
    moreover have "b \<and> l' = l1" using assms(2) p True by (simp add: DoIdleWork_def)
    ultimately show ?thesis using RunTask_only_posts [OF assms(1)]
      by (fastforce simp: only_posts_def wakes_def)
  next
    case False
    then have "l1 = l" using p by (auto simp: ProcessNextDelayedNonNestableTask_def rsimps split: if_splits list.splits)
    then show ?thesis using assms(2) p False
      by (auto simp: DoIdleWork_def rsimps wakes_def Let_def split: if_splits)
  qed
qed

subsection \<open>Delivery of pump calls\<close>

lemma receive_more_events: "user_events p \<le> user_events (fold (pump_receive st now) cs p)"
proof (induction cs arbitrary: p)
  case (Cons c cs)
  have "user_events p \<le> user_events (pump_receive st now c p)"
    by (cases c) (auto simp: qt_ScheduleWork_def qt_ScheduleDelayedWork_def qt_Quit_def Let_def)
  then show ?case using Cons [of "pump_receive st now c p"] by simp
qed simp

lemma receive_work:
  "Pump_ScheduleWork \<in> set cs \<Longrightarrow> 0 < user_events (fold (pump_receive st now) cs p)"
proof (induction cs arbitrary: p)
  case (Cons c cs)
  then show ?case
    using receive_more_events [of "pump_receive st now c p" st now cs]
    by (cases "c = Pump_ScheduleWork") (auto simp: qt_ScheduleWork_def intro: gr0I)
qed simp

lemma receive_timer:
  "\<forall>t. Pump_ScheduleDelayedWork t \<notin> set cs \<Longrightarrow>
     m_timerId (fold (pump_receive st now) cs p) = m_timerId p \<and>
     m_timerScheduledTime (fold (pump_receive st now) cs p) = m_timerScheduledTime p"
proof (induction cs arbitrary: p)
  case (Cons c cs)
  then show ?case by (cases c) (auto simp: qt_ScheduleWork_def qt_Quit_def)
qed simp

lemma deliver_more_events: "user_events p \<le> user_events (deliver st now l l' p)"
  by (simp add: deliver_def receive_more_events)

lemma deliver_wakes:
  assumes "wakes l l'"
  shows "(scheduled l' \<longrightarrow> scheduled l \<or> 0 < user_events (deliver st now l l' p)) \<and>
    m_timerId (deliver st now l l' p) = m_timerId p \<and>
    m_timerScheduledTime (deliver st now l l' p) = m_timerScheduledTime p"
proof -
  obtain cs where "pump_calls l' = pump_calls l @ cs" "\<forall>t. Pump_ScheduleDelayedWork t \<notin> set cs"
    "scheduled l' \<longrightarrow> scheduled l \<or> Pump_ScheduleWork \<in> set cs"
    using assms unfolding wakes_def by blast
  then show ?thesis using receive_work [of cs st now p] receive_timer [of cs st now p]
    by (auto simp: deliver_def)
qed

definition timer_covers :: "qt_pump \<Rightarrow> time_ticks \<Rightarrow> bool" where
  "timer_covers p t \<longleftrightarrow> m_timerId p \<noteq> 0 \<and> m_timerScheduledTime p \<le> t"

lemma ScheduleDelayedWork_covers:
  "\<forall>ms. st ms \<noteq> 0 \<Longrightarrow> t \<noteq> 0 \<Longrightarrow> timer_covers (qt_ScheduleDelayedWork st now t p) t"
  by (auto simp: timer_covers_def qt_ScheduleDelayedWork_def ticks_is_null_def Let_def)

lemma ScheduleDelayedWork_events [simp]: "user_events (qt_ScheduleDelayedWork st now t p) = user_events p"
  by (simp add: qt_ScheduleDelayedWork_def Let_def)

subsection \<open>The UI thread\<close>

definition ui_init :: "qt_pump \<times> 'c message_loop \<Rightarrow> bool" where
  "ui_init s \<longleftrightarrow> s = (MessagePumpForUIQt,
     (MessageLoop TYPE_UI)\<lparr>current_run_loop := Some 0, run_loops := (\<lambda>_. RunLoop\<lparr>run_depth := 1, running := True\<rparr>)\<rparr>)"

inductive ui_step :: "(int \<Rightarrow> nat) \<Rightarrow> 'c loop_env \<Rightarrow> qt_pump \<times> 'c message_loop \<Rightarrow> qt_pump \<times> 'c message_loop \<Rightarrow> bool"
  for st env where
  post: "ui_post st nest now fh t delay s = Inr s' \<Longrightarrow> ui_step st env s s'"
| event: "0 < user_events (fst s) \<Longrightarrow> customEvent st env now s = Inr s' \<Longrightarrow> ui_step st env s s'"
| timer: "m_timerId (fst s) \<noteq> 0 \<Longrightarrow> timerEvent st env now s = Inr s' \<Longrightarrow> ui_step st env s s'"
| idle: "OnIdle st env now s = Inr s' \<Longrightarrow> ui_step st env s s'"

definition ui_inv :: "qt_pump \<times> 'c message_loop \<Rightarrow> bool" where
  "ui_inv s \<longleftrightarrow> wake_inv (snd s) \<and>
     (scheduled (snd s) \<or> work_queue (snd s) \<noteq> [] \<longrightarrow> 0 < user_events (fst s)) \<and>
     (delayed_work_queue (snd s) \<noteq> [] \<longrightarrow>
        0 < user_events (fst s) \<or> timer_covers (fst s) (delayed_run_time (hd (delayed_work_queue (snd s)))))"

lemma ui_inv_init: "ui_init s \<Longrightarrow> ui_inv s"
  by (simp add: ui_init_def ui_inv_def wake_inv_def wake_ok_def MessageLoop_def IncomingTaskQueue_def
      AlwaysNotifyPump_def)

lemma ui_inv_frame:
  assumes "ui_inv (p, l)" "wake_inv l'" "wakes l l'" "work_queue l' = work_queue l"
    "delayed_work_queue l' = delayed_work_queue l"
  shows "ui_inv (deliver st now l l' p, l')"
  using assms deliver_wakes [OF assms(3), of st now p] deliver_more_events [of p st now l l']
  by (auto simp: ui_inv_def timer_covers_def)

lemma head_time_nonnull:
  "wake_inv l \<Longrightarrow> delayed_work_queue l \<noteq> [] \<Longrightarrow> delayed_run_time (hd (delayed_work_queue l)) \<noteq> 0"
  by (cases "delayed_work_queue l") (auto simp: wake_inv_def is_delayed_def ticks_is_null_def)

lemma ui_inv_timer:
  assumes st: "\<forall>ms. st ms \<noteq> 0" and e: "posting_env env" and i: "ui_inv s" and s: "timerEvent st env now s = Inr s'"
  shows "ui_inv s'"
proof -
  obtain p l where pl: "s = (p, l)" by (cases s)
  let ?p1 = "p\<lparr>m_timerId := 0, m_timerScheduledTime := 0\<rparr>"
  obtain b t l' where d: "DoDelayedWork env now 0 l = Inr (b, t, l')"
    and s': "s' = (qt_ScheduleDelayedWork st now t (deliver st now l l' ?p1), l')"
    using s pl by (auto simp: timerEvent_def rsimps)
  have w: "wake_inv l" "nestable_tasks_allowed l" using i pl by (auto simp: ui_inv_def wake_inv_def)
  note f = DoDelayedWork_effect [OF e w(2) d]
  have w': "wake_inv l'" using wk.DoDelayedWork_keeps [OF _ d] e w(1) by blast
  have "timer_covers (qt_ScheduleDelayedWork st now t q) (delayed_run_time (hd (delayed_work_queue l')))"
    if "delayed_work_queue l' \<noteq> []" for q
    using that f ScheduleDelayedWork_covers [OF st] head_time_nonnull [OF w' that] by simp
  moreover have "scheduled l' \<or> work_queue l' \<noteq> [] \<longrightarrow> 0 < user_events (deliver st now l l' ?p1)"
    using i pl f deliver_wakes [of l l' st now ?p1] deliver_more_events [of ?p1 st now l l']
    by (auto simp: ui_inv_def)
  ultimately show ?thesis using w' s' by (simp add: ui_inv_def)
qed

lemma ui_inv_event:
  assumes st: "\<forall>ms. st ms \<noteq> 0" and e: "posting_env env" and i: "ui_inv s" and s: "customEvent st env now s = Inr s'"
  shows "ui_inv s'"
proof -
  obtain p l where pl: "s = (p, l)" by (cases s)
  let ?p0 = "p\<lparr>user_events := user_events p - 1\<rparr>"
  have w: "wake_inv l" "nestable_tasks_allowed l" using i pl by (auto simp: ui_inv_def wake_inv_def)
  obtain more p' l' where h: "handleScheduledWork st env now ?p0 l = Inr (more, p', l')"
    and s': "s' = (if more then qt_ScheduleWork p' else p', l')"
    using s pl by (auto simp: customEvent_def rsimps)
  obtain b1 l1 b2 t l2 where d1: "DoWork env l = Inr (b1, l1)" and d2: "DoDelayedWork env now 0 l1 = Inr (b2, t, l2)"
    using h by (auto simp: handleScheduledWork_def rsimps)
  have w1: "wake_inv l1" using wk.DoWork_keeps [OF _ d1] e w by blast
  have w2: "wake_inv l2" using wk.DoDelayedWork_keeps [OF _ d2] e w1 by blast
  show ?thesis
  proof (cases "b1 \<or> b2")
    case True
    then have "more \<and> l' = l2" using h d1 d2 by (auto simp: handleScheduledWork_def Let_def)
    then show ?thesis using w2 s' by (simp add: ui_inv_def qt_ScheduleWork_def)
  next
    case False
    then obtain b3 l3 where d3: "DoIdleWork env l2 = Inr (b3, l3)" and m: "more = b3" "l' = l3"
      and p': "\<not> b3 \<longrightarrow> (\<exists>q. p' = qt_ScheduleDelayedWork st now t q)"
      using h d1 d2 by (auto simp: handleScheduledWork_def rsimps Let_def split: if_splits)
    have w3: "wake_inv l3" using wk.DoIdleWork_keeps [OF _ d3] e w2 by blast
    show ?thesis
    proof (cases b3)
      case True
      then show ?thesis using w3 s' m by (simp add: ui_inv_def qt_ScheduleWork_def)
    next
      case b3: False
      have "work_queue l1 = [] \<and> \<not> scheduled l1"
        using d1 False w(2) DoWork_loop_empty [of env l l1] by (auto simp: DoWork_def)
      moreover have "nestable_tasks_allowed l1" using w1 by (simp add: wake_inv_def)
      note f2 = DoDelayedWork_effect [OF e this d2] and f3 = DoIdleWork_effect [OF e d3]
      ultimately have "work_queue l3 = []" "\<not> scheduled l3"
        and "delayed_work_queue l3 \<noteq> [] \<longrightarrow> t = delayed_run_time (hd (delayed_work_queue l3))"
        using f2 f3 False b3 by auto
      then show ?thesis
        using w3 s' m b3 p' ScheduleDelayedWork_covers [OF st] head_time_nonnull [OF w3] by (auto simp: ui_inv_def)
    qed
  qed
qed

lemma ui_inv_step:
  assumes "\<forall>ms. st ms \<noteq> 0" "posting_env env" "ui_inv s" "ui_step st env s s'"
  shows "ui_inv s'"
  using assms(4)
proof cases
  case (post nest now fh t delay)
  obtain p l where pl: "s = (p, l)" by (cases s)
  then obtain ok l' where q: "proxy_Post nest now fh t delay l = Inr (ok, l')" "s' = (deliver st now l l' p, l')"
    using post by (auto simp: ui_post_def rsimps)
  have o: "only_posts l l'" using q(1) by (rule proxy_Post_only_posts)
  moreover have "wake_inv l'" using wake_inv_only_posts [OF o] assms(3) pl by (simp add: ui_inv_def)
  ultimately show ?thesis
    using ui_inv_frame [of p l l' st now] assms(3) pl q(2) unfolding only_posts_def by blast
next
  case (idle now)
  obtain p l where pl: "s = (p, l)" by (cases s)
  then obtain b l' where q: "DoIdleWork env l = Inr (b, l')" "s' = (deliver st now l l' p, l')"
    using idle by (auto simp: OnIdle_def rsimps)
  have "wake_inv l'" using wk.DoIdleWork_keeps [OF _ q(1)] assms(2,3) pl by (auto simp: ui_inv_def)
  then show ?thesis
    using ui_inv_frame [of p l l' st now] DoIdleWork_effect [OF assms(2) q(1)] assms(3) pl q(2) by blast
qed (use ui_inv_event ui_inv_timer assms in blast)+

interpretation ui: inductive_invariant ui_init "ui_step st env"
  "\<lambda>s. (\<forall>ms. st ms \<noteq> 0) \<and> posting_env env \<longrightarrow> ui_inv s" for st env
  by unfold_locales (auto intro: ui_inv_init ui_inv_step)

text \<open>
  C3: the UI thread never sleeps on work. Whatever order posts from other threads, Qt's delivery of
  posted events, timer events and idle notifications come in, whenever a task waits in the work
  queue or the incoming queue an event for the pump is outstanding, and whenever a delayed task
  waits an event is outstanding or the timer is set for its run time or earlier; provided tasks do
  not run an event loop of their own.
\<close>

theorem ui_thread_never_sleeps_on_work:
  assumes "\<forall>ms. st ms \<noteq> 0" "posting_env env" "reach ui_init (ui_step st env) (p, l)"
  shows "(posted l \<noteq> [] \<longrightarrow> 0 < user_events p) \<and>
    (delayed_work_queue l \<noteq> [] \<longrightarrow> 0 < user_events p \<or>
       m_timerId p \<noteq> 0 \<and> m_timerScheduledTime p \<le> delayed_run_time (hd (delayed_work_queue l)))"
  using ui.inv_reach [OF assms(3)] assms(1,2)
  by (auto simp: ui_inv_def wake_inv_def wake_ok_def posted_def timer_covers_def)

lemma posting_quiet_env: "posting_env quiet_env"
  by (simp add: posting_env_def quiet_env_def posts_none)

theorem ui_thread_never_sleeps_on_work_witness:
  "\<exists>(p :: qt_pump) (l :: bool message_loop). posted l \<noteq> [] \<and> 0 < user_events p"
proof -
  define l :: "bool message_loop" where "l = (MessageLoop TYPE_UI)\<lparr>current_run_loop := Some 0,
    run_loops := (\<lambda>_. RunLoop\<lparr>run_depth := 1, running := True\<rparr>)\<rparr>"
  have r: "reach ui_init (ui_step (\<lambda>_. 1) quiet_env) (MessagePumpForUIQt, l)"
    by (rule reach_init) (simp add: ui_init_def l_def)
  obtain ok l' where q: "proxy_Post True 5 ''f'' (Some True) 0 l = Inr (ok, l')" and n: "posted l' \<noteq> []"
    by (auto simp: l_def proxy_Post_def AddToIncomingQueue_cases MessageLoop_def IncomingTaskQueue_def
        InMilliseconds_def delta_is_max_def posted_def Let_def ml_ScheduleWork_def)
  have u: "ui_post (\<lambda>_. 1) True 5 ''f'' (Some True) 0 (MessagePumpForUIQt, l) =
      Inr (deliver (\<lambda>_. 1) 5 l l' MessagePumpForUIQt, l')"
    using q by (simp add: ui_post_def)
  have "reach ui_init (ui_step (\<lambda>_. 1) quiet_env) (deliver (\<lambda>_. 1) 5 l l' MessagePumpForUIQt, l')"
    by (rule reach_step [OF r]) (rule ui_step.post [OF u])
  from ui_thread_never_sleeps_on_work [OF _ posting_quiet_env this] n show ?thesis by auto
qed

subsection \<open>Events handled while a task runs\<close>

text \<open>
  An event delivered while a task is running (the task entered a nested Qt event loop without
  allowing nestable tasks) is used up without any effect on the queues: the posted tasks stay, the
  loop still counts as scheduled, so that further posts do not wake it, and the timer is stopped.
  Whether the tasks ever run depends on another event being posted after the running task returns,
  which \<^verbatim>\<open>customEvent\<close> does and \<^verbatim>\<open>timerEvent\<close> does not.
\<close>

theorem nested_event_is_lost:
  assumes "\<not> nestable_tasks_allowed l" "current_run_loop l = Some r" "run_depth (run_loops l r) = 1"
    and "deferred_non_nestable_work_queue l = []" "\<not> quit_when_idle_received (run_loops l r)"
  shows "\<exists>p' l'. customEvent st env now (p, l) = Inr (p', l') \<and>
    user_events p' = user_events p - 1 \<and> m_timerId p' = 0 \<and> posted l' = posted l \<and>
    delayed_work_queue l' = delayed_work_queue l \<and> incoming l' = incoming l"
  using assms
  by (auto simp: customEvent_def handleScheduledWork_def DoWork_def DoDelayedWork_def DoIdleWork_def
      ProcessNextDelayedNonNestableTask_def inner_run_loop_def deliver_def qt_ScheduleDelayedWork_def
      ticks_is_null_def Let_def posted_def)

theorem nested_event_is_lost_witness:
  "\<exists>p' l'. customEvent (\<lambda>_. 1) quiet_env 5 (MessagePumpForUIQt\<lparr>user_events := 1\<rparr>,
      (MessageLoop TYPE_UI)\<lparr>current_run_loop := Some 0, nestable_tasks_allowed := False,
        work_queue := [PendingTask ''a'' (Some True) 0 True], run_loops := (\<lambda>_. RunLoop\<lparr>run_depth := 1\<rparr>)\<rparr>)
     = Inr (p', l') \<and> user_events p' = 0 \<and> length (posted l') = 1"
  using nested_event_is_lost [of "(MessageLoop TYPE_UI)\<lparr>current_run_loop := Some 0, nestable_tasks_allowed := False,
        work_queue := [PendingTask ''a'' (Some True) 0 True], run_loops := (\<lambda>_. RunLoop\<lparr>run_depth := 1\<rparr>)\<rparr>"
      0 "\<lambda>_. 1" quiet_env 5 "MessagePumpForUIQt\<lparr>user_events := 1\<rparr>"]
  by (auto simp: MessageLoop_def RunLoop_def posted_def IncomingTaskQueue_def)

end
