(* ===== verification/Browser_Process.thy ===== *)
theory Browser_Process
  imports Message_Loop_Safety
begin

text \<open>
  The application's process object (\<^verbatim>\<open>policy/browser/browser_process_impl.cc\<close>): module references
  that keep the UI loop running, the thread check every public operation makes
  (\<^verbatim>\<open>base/threading/thread_checker_impl.cc\<close>), and the counter that \<^verbatim>\<open>EndSession\<close> waits on while
  rundown tasks run on other threads (\<^verbatim>\<open>base/atomic_ref_count.h\<close>).
\<close>

subsection \<open>The thread check\<close>

text \<open>The one field is \<^verbatim>\<open>valid_thread_id_\<close>, \<open>None\<close> while detached.\<close>

type_synonym thread_checker = "nat option"

definition EnsureThreadIdAssigned :: "nat \<Rightarrow> thread_checker \<Rightarrow> thread_checker" where
  "EnsureThreadIdAssigned cur c = (case c of None \<Rightarrow> Some cur | Some t \<Rightarrow> Some t)"

definition ThreadCheckerImpl :: "nat \<Rightarrow> thread_checker" where
  "ThreadCheckerImpl cur = EnsureThreadIdAssigned cur None"

definition CalledOnValidThread :: "nat \<Rightarrow> thread_checker \<Rightarrow> bool \<times> thread_checker" where
  "CalledOnValidThread cur c =
     (let c1 = EnsureThreadIdAssigned cur c in (c1 = Some cur, c1))"

definition DetachFromThread :: "thread_checker \<Rightarrow> thread_checker" where
  "DetachFromThread c = None"

subsection \<open>Module references\<close>

record browser_process =
  checker :: thread_checker
  module_ref_count :: "32 word"
  did_start :: bool

definition BrowserProcessImpl :: "nat \<Rightarrow> browser_process" where
  "BrowserProcessImpl cur = \<lparr>checker = ThreadCheckerImpl cur, module_ref_count = 0, did_start = False\<rparr>"

definition IsShuttingDown :: "nat \<Rightarrow> browser_process \<Rightarrow> (bool \<times> browser_process) result" where
  "IsShuttingDown cur p =
     (let (valid, c) = CalledOnValidThread cur (checker p); p1 = p\<lparr>checker := c\<rparr>
      in require valid (Dcheck ''CalledOnValidThread()'') (Inr (did_start p1 \<and> 0 = module_ref_count p1, p1)))"

definition AddRefModule :: "nat \<Rightarrow> browser_process \<Rightarrow> (32 word \<times> browser_process) result" where
  "AddRefModule cur p =
     (let (valid, c) = CalledOnValidThread cur (checker p); p1 = p\<lparr>checker := c\<rparr>
      in require valid (Dcheck ''CalledOnValidThread()'')
        (rbind (IsShuttingDown cur p1) (\<lambda>(down, p2).
         require (\<not> down) (Check ''false'')
           (let p3 = p2\<lparr>did_start := True, module_ref_count := module_ref_count p2 + 1\<rparr>
            in Inr (module_ref_count p3, p3)))))"

text \<open>\<^verbatim>\<open>MessageLoop::current()\<close> is the given loop, if the thread has one.\<close>

definition ReleaseModule ::
  "nat \<Rightarrow> 'c message_loop option \<Rightarrow> browser_process \<Rightarrow> (32 word \<times> browser_process \<times> 'c message_loop option) result"
where
  "ReleaseModule cur current p =
     (let (valid, c) = CalledOnValidThread cur (checker p); p1 = p\<lparr>checker := c\<rparr>
      in require valid (Dcheck ''CalledOnValidThread()'')
        (require (0 \<noteq> module_ref_count p1) (Dcheck ''0u != module_ref_count_'')
          (let p2 = p1\<lparr>module_ref_count := module_ref_count p1 - 1\<rparr>
           in if 0 = module_ref_count p2 then
                (case current of None \<Rightarrow> Inl (Null_deref ''MessageLoop::current()'')
                 | Some l \<Rightarrow> require (is_running l) (Check ''is_running()'')
                     (rbind (ml_QuitWhenIdle l) (\<lambda>l1. Inr (module_ref_count p2, p2, Some l1))))
              else Inr (module_ref_count p2, p2, current))))"

definition DestroyBrowserProcess :: "nat \<Rightarrow> browser_process \<Rightarrow> unit result" where
  "DestroyBrowserProcess cur p =
     require (fst (CalledOnValidThread cur (checker p))) (Dcheck ''CalledOnValidThread()'') (Inr ())"

text \<open>A sequence of calls on one thread: \<open>True\<close> adds a reference, \<open>False\<close> releases one.\<close>

fun module_calls ::
  "nat \<Rightarrow> bool list \<Rightarrow> browser_process \<times> 'c message_loop \<Rightarrow> (browser_process \<times> 'c message_loop) result"
where
  "module_calls cur [] s = Inr s"
| "module_calls cur (True # bs) (p, l) = rbind (AddRefModule cur p) (\<lambda>(n, p1). module_calls cur bs (p1, l))"
| "module_calls cur (False # bs) (p, l) =
     rbind (ReleaseModule cur (Some l) p) (\<lambda>(n, p1, l1).
       case l1 of None \<Rightarrow> Inl (Null_deref ''MessageLoop::current()'') | Some l2 \<Rightarrow> module_calls cur bs (p1, l2))"

subsection \<open>The rundown counter\<close>

text \<open>
  \<^verbatim>\<open>count_\<close> and the state of \<^verbatim>\<open>waitable_event_\<close>, which is a manual-reset event; \<open>decrements\<close> are the
  posted \<^verbatim>\<open>Decrement\<close> closures that have not run or been dropped, and \<open>waiting\<close> that \<^verbatim>\<open>TimedWait\<close>
  was called, which happens at most once.
\<close>

record rundown_counter =
  count :: "32 word"
  signalled :: bool
  decrements :: nat
  waiting :: bool

definition RundownTaskCounter :: rundown_counter where
  "RundownTaskCounter = \<lparr>count = 1, signalled = False, decrements = 0, waiting = False\<rparr>"

definition AtomicRefCountIncN :: "32 word \<Rightarrow> 32 word \<Rightarrow> 32 word" where
  "AtomicRefCountIncN c n = c + n"

definition AtomicRefCountDecN :: "32 word \<Rightarrow> 32 word \<Rightarrow> bool \<times> 32 word" where
  "AtomicRefCountDecN c n = (let c1 = c + - n in (c1 \<noteq> 0, c1))"

definition AtomicRefCountInc :: "32 word \<Rightarrow> 32 word" where
  "AtomicRefCountInc c = AtomicRefCountIncN c 1"

definition AtomicRefCountDec :: "32 word \<Rightarrow> bool \<times> 32 word" where
  "AtomicRefCountDec c = AtomicRefCountDecN c 1"

definition AtomicRefCountIsZero :: "32 word \<Rightarrow> bool" where
  "AtomicRefCountIsZero c \<longleftrightarrow> c = 0"

definition Decrement :: "rundown_counter \<Rightarrow> rundown_counter" where
  "Decrement r =
     (let (nonzero, c) = AtomicRefCountDec (count r); r1 = r\<lparr>count := c\<rparr>
      in if \<not> nonzero then r1\<lparr>signalled := True\<rparr> else r1)"

text \<open>
  \<^verbatim>\<open>Post\<close>: the task runner accepts the closure or, if its loop is gone, deletes it without running it,
  which \<^verbatim>\<open>Post\<close> does not check.
\<close>

definition rundown_Post :: "bool \<Rightarrow> rundown_counter \<Rightarrow> rundown_counter result" where
  "rundown_Post accepted r =
     require (\<not> AtomicRefCountIsZero (count r)) (Dcheck ''!base::AtomicRefCountIsZero(&count_)'')
       (Inr (r\<lparr>count := AtomicRefCountInc (count r),
          decrements := decrements r + (if accepted then 1 else 0)\<rparr>))"

text \<open>
  \<^verbatim>\<open>TimedWait\<close> up to its wait, and whether the wait returns: at once if the event is signalled.
\<close>

definition TimedWait_begin :: "rundown_counter \<Rightarrow> rundown_counter" where
  "TimedWait_begin r = (Decrement r)\<lparr>waiting := True\<rparr>"

text \<open>\<^verbatim>\<open>EndSession\<close>; the result is that of the wait, true as soon as the event is signalled.\<close>

definition EndSession :: "bool" where
  "EndSession = signalled (TimedWait_begin RundownTaskCounter)"

text \<open>
  Everything that can happen to a counter, on any thread. Closures are dropped unrun only if
  \<open>may_drop\<close>; fewer than \<open>2 ^ 32 - 1\<close> are outstanding, as each holds a reference in memory.
\<close>

inductive rundown_step :: "bool \<Rightarrow> rundown_counter \<Rightarrow> rundown_counter \<Rightarrow> bool" for may_drop where
  post: "\<not> waiting r \<Longrightarrow> count r \<noteq> - 1 \<Longrightarrow> accepted \<or> may_drop \<Longrightarrow> rundown_Post accepted r = Inr r' \<Longrightarrow>
    rundown_step may_drop r r'"
| run: "decrements r = Suc n \<Longrightarrow> rundown_step may_drop r (Decrement (r\<lparr>decrements := n\<rparr>))"
| dropped: "decrements r = Suc n \<Longrightarrow> may_drop \<Longrightarrow> rundown_step may_drop r (r\<lparr>decrements := n\<rparr>)"
| wait: "\<not> waiting r \<Longrightarrow> rundown_step may_drop r (TimedWait_begin r)"

subsection \<open>The module references keep the UI loop running\<close>

definition balance :: "bool list \<Rightarrow> int" where
  "balance bs = int (length (filter id bs)) - int (length (filter Not bs))"

lemma balance_simps [simp]:
  "balance [] = 0" "balance (xs @ [True]) = balance xs + 1" "balance (xs @ [False]) = balance xs - 1"
  by (simp_all add: balance_def)

lemma balance_less: "balance bs \<le> int (length bs)"
  using length_filter_le [of id bs] by (simp add: balance_def del: length_filter_le)

lemma module_calls_append:
  "module_calls cur (xs @ ys) s = rbind (module_calls cur xs s) (module_calls cur ys)"
  by (induction cur xs s rule: module_calls.induct)
    (auto simp: rbind_assoc split: option.splits prod.splits intro!: rbind_cong)

lemma CalledOnValidThread_own [simp]: "CalledOnValidThread cur (Some cur) = (True, Some cur)"
  by (simp add: CalledOnValidThread_def EnsureThreadIdAssigned_def)

lemma module_call_snoc:
  assumes "checker p = Some cur" "uint (module_ref_count p) = n" "did_start p \<longleftrightarrow> d" "n < 2 ^ 32 - 1"
    "current_run_loop l = Some r"
  shows "module_calls cur [True] (p, l) = (if d \<and> n = 0 then Inl (Check ''false'') else
      Inr (p\<lparr>did_start := True, module_ref_count := module_ref_count p + 1\<rparr>, l))"
    "module_calls cur [False] (p, l) = (if n = 0 then Inl (Dcheck ''0u != module_ref_count_'') else
      Inr (p\<lparr>module_ref_count := module_ref_count p - 1\<rparr>, if n = 1
        then upd_run_loop r (\<lambda>x. x\<lparr>quit_when_idle_received := True\<rparr>) l else l))"
    "uint (module_ref_count p + 1) = n + 1" "n \<noteq> 0 \<Longrightarrow> uint (module_ref_count p - 1) = n - 1"
proof -
  have nonneg: "0 \<le> n" using assms(2) by (metis uint_ge_0)
  have z: "0 = module_ref_count p \<longleftrightarrow> n = 0" using assms(2) by (metis unsigned_0 word_uint_eq_iff)
  have one: "0 = module_ref_count p - 1 \<longleftrightarrow> n = 1"
    using assms(2) by (metis diff_eq_eq add_0 unsigned_1 word_uint_eq_iff)
  show "module_calls cur [True] (p, l) = (if d \<and> n = 0 then Inl (Check ''false'') else
      Inr (p\<lparr>did_start := True, module_ref_count := module_ref_count p + 1\<rparr>, l))"
    using assms z by (simp add: AddRefModule_def IsShuttingDown_def Let_def)
  show "module_calls cur [False] (p, l) = (if n = 0 then Inl (Dcheck ''0u != module_ref_count_'') else
      Inr (p\<lparr>module_ref_count := module_ref_count p - 1\<rparr>, if n = 1
        then upd_run_loop r (\<lambda>x. x\<lparr>quit_when_idle_received := True\<rparr>) l else l))"
    using assms z one by (simp add: ReleaseModule_def Let_def is_running_def ml_QuitWhenIdle_def)
  show "uint (module_ref_count p + 1) = n + 1" using assms nonneg by (simp add: uint_word_ariths)
  show "n \<noteq> 0 \<Longrightarrow> uint (module_ref_count p - 1) = n - 1" using assms nonneg by (simp add: uint_word_ariths)
qed


lemma module_calls_state:
  assumes "current_run_loop l = Some r" "int (length bs) < 2 ^ 32 - 1"
  shows "case module_calls cur bs (BrowserProcessImpl cur, l) of
      Inr (p', l') \<Rightarrow> (\<forall>k < length bs. 0 < k \<longrightarrow> 0 < balance (take k bs)) \<and> 0 \<le> balance bs \<and>
        checker p' = Some cur \<and> uint (module_ref_count p') = balance bs \<and> (did_start p' \<longleftrightarrow> bs \<noteq> []) \<and>
        l' = (if bs \<noteq> [] \<and> balance bs = 0 then upd_run_loop r (\<lambda>x. x\<lparr>quit_when_idle_received := True\<rparr>) l else l)
    | Inl _ \<Rightarrow> \<not> ((\<forall>k < length bs. 0 < k \<longrightarrow> 0 < balance (take k bs)) \<and> 0 \<le> balance bs)"
  using assms(2)
proof (induction bs rule: rev_induct)
  case Nil
  then show ?case by (simp add: BrowserProcessImpl_def ThreadCheckerImpl_def EnsureThreadIdAssigned_def)
next
  case (snoc b bs)
  have pre: "(\<forall>k < length (bs @ [b]). 0 < k \<longrightarrow> 0 < balance (take k (bs @ [b]))) \<longleftrightarrow>
      (\<forall>k < length bs. 0 < k \<longrightarrow> 0 < balance (take k bs)) \<and> (bs \<noteq> [] \<longrightarrow> 0 < balance bs)"
    by (auto simp: less_Suc_eq all_conj_distrib)
  show ?case
  proof (cases "module_calls cur bs (BrowserProcessImpl cur, l)")
    case (Inl e)
    then show ?thesis using snoc unfolding module_calls_append pre by auto
  next
    case (Inr s)
    obtain p' l' where s: "s = (p', l')" by force
    have n: "checker p' = Some cur" "uint (module_ref_count p') = balance bs" "did_start p' \<longleftrightarrow> bs \<noteq> []"
      "0 \<le> balance bs" "\<forall>k < length bs. 0 < k \<longrightarrow> 0 < balance (take k bs)"
      "l' = (if bs \<noteq> [] \<and> balance bs = 0 then upd_run_loop r (\<lambda>x. x\<lparr>quit_when_idle_received := True\<rparr>) l else l)"
      using snoc Inr s by auto
    have r: "current_run_loop l' = Some r" using n(6) assms(1) by auto
    have "balance bs < 2 ^ 32 - 1" using balance_less [of bs] snoc.prems by simp
    note c = module_call_snoc [OF n(1,2,3) this r]
    have e: "module_calls cur (bs @ [b]) (BrowserProcessImpl cur, l) = module_calls cur [b] (p', l')"
      by (simp only: module_calls_append Inr s rbind_simps)
    have le: "balance bs = 0 \<or> 1 \<le> balance bs \<and> bs \<noteq> []" using n(4) by auto
    show ?thesis
    proof (cases b)
      case True
      show ?thesis
      proof (cases "bs \<noteq> [] \<and> balance bs = 0")
        case True
        then have "module_calls cur [b] (p', l') = Inl (Check ''false'')" using c(1) \<open>b\<close> by (simp del: module_calls.simps)
        with True show ?thesis unfolding e pre by simp
      next
        case False
        then have "l' = l" using n(6) by (simp only: if_False)
        then have m: "module_calls cur [b] (p', l') =
            Inr (p'\<lparr>did_start := True, module_ref_count := module_ref_count p' + 1\<rparr>, l)"
          using c(1) \<open>b\<close> False by (simp del: module_calls.simps)
        have "bs \<noteq> [] \<longrightarrow> 0 < balance bs" using False le by auto
        then show ?thesis unfolding e pre m using \<open>b\<close> c(3) n(1,4,5) by simp
      qed
    next
      case False
      show ?thesis
      proof (cases "balance bs = 0")
        case True
        then have "module_calls cur [b] (p', l') = Inl (Dcheck ''0u != module_ref_count_'')"
          using c(2) False by (simp del: module_calls.simps)
        with True False show ?thesis unfolding e pre by simp
      next
        case z: False
        then have "l' = l" using n(6) by simp
        then have m: "module_calls cur [b] (p', l') = Inr (p'\<lparr>module_ref_count := module_ref_count p' - 1\<rparr>,
            if balance bs = 1 then upd_run_loop r (\<lambda>x. x\<lparr>quit_when_idle_received := True\<rparr>) l else l)"
          using c(2) False z by (simp del: module_calls.simps)
        show ?thesis unfolding e pre m using False c(4) [OF z] n(1,3,5) le z by simp
      qed
    qed
  qed
qed


text \<open>
  C24: module references keep the UI loop running. In a running loop, a sequence of fewer than
  \<open>2 ^ 32 - 1\<close> calls of \<^verbatim>\<open>AddRefModule\<close> and \<^verbatim>\<open>ReleaseModule\<close> on the process's thread passes all checks
  exactly when the count falls to zero at most once, at the very end; the count is then the number
  of references held, the process is shutting down exactly when it started and none is held, and
  the loop is asked to quit exactly then.
\<close>

theorem module_references_keep_loop_running:
  assumes "current_run_loop l = Some r" "int (length bs) < 2 ^ 32 - 1"
  shows "((\<exists>s. module_calls cur bs (BrowserProcessImpl cur, l) = Inr s) \<longleftrightarrow>
      (\<forall>k < length bs. 0 < k \<longrightarrow> 0 < balance (take k bs)) \<and> 0 \<le> balance bs) \<and>
    (\<forall>p' l'. module_calls cur bs (BrowserProcessImpl cur, l) = Inr (p', l') \<longrightarrow>
      uint (module_ref_count p') = balance bs \<and>
      IsShuttingDown cur p' = Inr (bs \<noteq> [] \<and> balance bs = 0, p') \<and>
      l' = (if bs \<noteq> [] \<and> balance bs = 0
        then upd_run_loop r (\<lambda>x. x\<lparr>quit_when_idle_received := True\<rparr>) l else l))"
proof -
  have z: "0 = module_ref_count p \<longleftrightarrow> uint (module_ref_count p) = 0" for p
    by (metis unsigned_0 word_uint_eq_iff)
  show ?thesis
    using module_calls_state [OF assms, of cur]
    by (cases "module_calls cur bs (BrowserProcessImpl cur, l)") (auto simp: IsShuttingDown_def Let_def z)
qed

theorem module_references_keep_loop_running_witness:
  "(\<exists>p l'. module_calls 3 [True, True, False, False]
      (BrowserProcessImpl 3, (MessageLoop TYPE_UI)\<lparr>current_run_loop := Some 0\<rparr> :: nat message_loop) = Inr (p, l') \<and>
      quit_when_idle_received (run_loops l' 0)) \<and>
    \<not> (\<exists>s. module_calls 3 [True, False, True]
      (BrowserProcessImpl 3, (MessageLoop TYPE_UI)\<lparr>current_run_loop := Some 0\<rparr> :: nat message_loop) = Inr s)"
proof -
  let ?l = "(MessageLoop TYPE_UI)\<lparr>current_run_loop := Some 0\<rparr> :: nat message_loop"
  have "\<forall>k < 4. 0 < k \<longrightarrow> 0 < balance (take k [True, True, False, False])"
    by (auto simp: balance_def numeral_eq_Suc less_Suc_eq)
  then obtain s where s: "module_calls 3 [True, True, False, False] (BrowserProcessImpl 3, ?l) = Inr s"
    using module_references_keep_loop_running [of ?l 0 "[True, True, False, False]" 3] by (auto simp: balance_def)
  have "quit_when_idle_received (run_loops (snd s) 0)"
    using module_references_keep_loop_running [of ?l 0 "[True, True, False, False]" 3] s
    by (cases s) (auto simp: balance_def)
  moreover have "\<not> (\<forall>k < 3. 0 < k \<longrightarrow> 0 < balance (take k [True, False, True]))"
    by (auto simp: balance_def intro!: exI [of _ 2])
  then have "\<not> (\<exists>s. module_calls 3 [True, False, True] (BrowserProcessImpl 3, ?l) = Inr s)"
    using module_references_keep_loop_running [of ?l 0 "[True, False, True]" 3] by auto
  ultimately show ?thesis using s by (cases s) auto
qed

subsection \<open>The rundown counter signals exactly when everything is done\<close>

definition rundown_init :: "rundown_counter \<Rightarrow> bool" where
  "rundown_init r \<longleftrightarrow> r = RundownTaskCounter"

definition rundown_inv :: "bool \<Rightarrow> rundown_counter \<Rightarrow> bool" where
  "rundown_inv may_drop r \<longleftrightarrow>
     int (decrements r) + of_bool (\<not> waiting r) \<le> uint (count r) \<and>
     (\<not> may_drop \<longrightarrow> int (decrements r) + of_bool (\<not> waiting r) = uint (count r)) \<and>
     (signalled r \<longleftrightarrow> uint (count r) = 0)"

lemma count_down: "0 < uint (c :: 32 word) \<Longrightarrow> uint (c + - 1) = uint c - 1"
  using uint_bounded [of c] by (simp add: uint_word_ariths)

lemma count_up: "c \<noteq> (- 1 :: 32 word) \<Longrightarrow> uint (c + 1) = uint c + 1"
proof -
  assume "c \<noteq> - 1"
  moreover have "uint (- 1 :: 32 word) = 2 ^ 32 - 1" by (simp add: unsigned_minus_1_eq_mask mask_eq_exp_minus_1)
  ultimately have "uint c \<noteq> 2 ^ 32 - 1" by (metis word_uint_eq_iff)
  then show ?thesis using uint_bounded [of c] by (simp add: uint_word_ariths)
qed

lemma Decrement_effect:
  assumes "0 < uint (count r)"
  shows "uint (count (Decrement r)) = uint (count r) - 1"
    "signalled (Decrement r) \<longleftrightarrow> signalled r \<or> uint (count r) = 1"
    "decrements (Decrement r) = decrements r" "waiting (Decrement r) = waiting r"
proof -
  have "count r + - 1 = 0 \<longleftrightarrow> uint (count r) = 1"
    using count_down [OF assms] by (metis diff_eq_eq add_0 unsigned_0 word_uint_eq_iff)
  then show "uint (count (Decrement r)) = uint (count r) - 1"
    "signalled (Decrement r) \<longleftrightarrow> signalled r \<or> uint (count r) = 1"
    "decrements (Decrement r) = decrements r" "waiting (Decrement r) = waiting r"
    using count_down [OF assms]
    by (simp_all add: Decrement_def AtomicRefCountDec_def AtomicRefCountDecN_def Let_def)
qed

lemma rundown_inv_step: "rundown_step d r r' \<Longrightarrow> rundown_inv d r \<Longrightarrow> rundown_inv d r'"
proof (induction rule: rundown_step.induct)
  case (post r accepted r')
  then have "uint (count r + 1) = uint (count r) + 1" by (intro count_up)
  with post show ?case
    by (auto simp: rundown_inv_def rundown_Post_def AtomicRefCountInc_def AtomicRefCountIncN_def rsimps
        split: if_splits)
next
  case (run r n)
  then have "0 < uint (count r)" by (cases "waiting r") (auto simp: rundown_inv_def)
  with run show ?case using Decrement_effect [of "r\<lparr>decrements := n\<rparr>"] by (auto simp: rundown_inv_def)
next
  case (dropped r n)
  then show ?case by (auto simp: rundown_inv_def)
next
  case (wait r)
  then have "0 < uint (count r)" by (auto simp: rundown_inv_def)
  with wait show ?case using Decrement_effect [of r] by (auto simp: rundown_inv_def TimedWait_begin_def)
qed

interpretation rundown: inductive_invariant rundown_init "rundown_step d" "rundown_inv d"
proof
  show "rundown_init s \<Longrightarrow> rundown_inv d s" for s
    by (auto simp: rundown_init_def rundown_inv_def RundownTaskCounter_def)
  show "rundown_inv d s \<Longrightarrow> rundown_step d s t \<Longrightarrow> rundown_inv d t" for s t
    by (rule rundown_inv_step)
qed

text \<open>
  C25: the rundown wait ends exactly when the rundown is done. However posts, closures on other
  threads and the wait interleave, the event is signalled only after the wait began and no posted
  closure is left, so the wait never returns early; and if no closure is dropped unrun, the event is
  signalled as soon as the wait has begun and the last closure has run, so the wait is not missed.
  \<^verbatim>\<open>EndSession\<close> posts nothing before it waits, so its wait returns at once.
\<close>

theorem rundown_wait_correct:
  assumes "reach rundown_init (rundown_step may_drop) r"
  shows "(signalled r \<longrightarrow> waiting r \<and> decrements r = 0) \<and>
    (\<not> may_drop \<longrightarrow> waiting r \<longrightarrow> decrements r = 0 \<longrightarrow> signalled r) \<and> EndSession"
proof -
  have "rundown_inv may_drop r" using assms by (rule rundown.inv_reach)
  moreover have EndSession
    using Decrement_effect [of RundownTaskCounter]
    by (simp add: EndSession_def TimedWait_begin_def) (simp add: RundownTaskCounter_def)
  ultimately show ?thesis by (cases "waiting r") (auto simp: rundown_inv_def)
qed

theorem rundown_wait_correct_witness:
  "\<exists>r. reach rundown_init (rundown_step False) r \<and> decrements r = 1 \<and> waiting r \<and> \<not> signalled r"
proof -
  obtain r1 where r1: "rundown_Post True RundownTaskCounter = Inr r1" "decrements r1 = 1" "\<not> waiting r1"
    by (simp add: rundown_Post_def AtomicRefCountIsZero_def RundownTaskCounter_def)
  have "reach rundown_init (rundown_step False) RundownTaskCounter"
    by (rule reach_init) (simp add: rundown_init_def)
  then have "reach rundown_init (rundown_step False) r1"
    by (rule reach_step) (rule rundown_step.post [where accepted = True], use r1 in \<open>simp_all add: RundownTaskCounter_def\<close>)
  then have "reach rundown_init (rundown_step False) (TimedWait_begin r1)"
    by (rule reach_step) (simp add: rundown_step.wait r1)
  moreover have "decrements (TimedWait_begin r1) = 1" "waiting (TimedWait_begin r1)"
    using r1 by (simp_all add: TimedWait_begin_def Decrement_def Let_def split: prod.split)
  ultimately show ?thesis using rundown_wait_correct [of False "TimedWait_begin r1"] by auto
qed

end
