(* ===== verification/Md_Api.thy ===== *)
theory Md_Api
  imports Browser_Thread
begin

text \<open>
  The market data connection (\<^verbatim>\<open>policy/browser/ctp/mdapi.cc\<close>): a wrapper of the exchange's CTP
  library that the UI thread sets up, uses and resets, and whose callbacks run on a thread of the
  library. The library is a parameter: what a call returns is a function of the calls made before.
\<close>

subsection \<open>Calls into the library\<close>

record login_field =
  BrokerID :: string
  UserID :: string
  Password :: string

record logout_field =
  out_BrokerID :: string
  out_UserID :: string

datatype ctp_call =
    CreateFtdcMdApi | Ctp_Init | RegisterSpi bool | Ctp_Release | RegisterFront string
  | ReqUserLogin login_field int | ReqUserLogout logout_field int

text \<open>The account constants of \<^verbatim>\<open>ctp_account.h\<close>, which is not in the repository, and the library.\<close>

record ctp_env =
  CTP_MdFront :: string
  CTP_BrokerID :: string
  CTP_UserID :: string
  CTP_Password :: string
  ctp_result :: "ctp_call list \<Rightarrow> ctp_call \<Rightarrow> int"

text \<open>
  The object (\<^verbatim>\<open>mdapi_\<close>, whether it points to a library instance), the global request counter, the
  registry of browser threads that \<^verbatim>\<open>CurrentlyOn\<close> consults, and the calls made so far.
\<close>

record 'c md_api =
  mdapi :: bool
  g_reqid :: int
  md_registry :: "'c bt_globals"
  calls :: "ctp_call list"

definition call_ctp :: "ctp_env \<Rightarrow> ctp_call \<Rightarrow> 'c md_api \<Rightarrow> int \<times> 'c md_api" where
  "call_ctp env c s = (ctp_result env (calls s) c, s\<lparr>calls := calls s @ [c]\<rparr>)"

definition on_ui_thread :: "nat option \<Rightarrow> ('c md_api \<Rightarrow> 'a result) \<Rightarrow> 'c md_api \<Rightarrow> 'a result" where
  "on_ui_thread cur k s =
     rbind (CurrentlyOn cur UI (md_registry s)) (\<lambda>(ui, g).
       require ui (Check ''BrowserThread::CurrentlyOn(BrowserThread::UI)'') (k (s\<lparr>md_registry := g\<rparr>)))"

text \<open>A member call through \<^verbatim>\<open>mdapi_\<close>.\<close>

definition via_mdapi :: "ctp_env \<Rightarrow> ctp_call \<Rightarrow> 'c md_api \<Rightarrow> (int \<times> 'c md_api) result" where
  "via_mdapi env c s = require (mdapi s) (Null_deref ''mdapi_'') (Inr (call_ctp env c s))"

definition MdApi :: "nat option \<Rightarrow> int \<Rightarrow> 'c bt_globals \<Rightarrow> 'c md_api result" where
  "MdApi cur reqid g = on_ui_thread cur Inr \<lparr>mdapi = False, g_reqid = reqid, md_registry = g, calls = []\<rparr>"

definition DestroyMdApi :: "nat option \<Rightarrow> 'c md_api \<Rightarrow> 'c md_api result" where
  "DestroyMdApi cur s = on_ui_thread cur Inr s"

definition Setup :: "ctp_env \<Rightarrow> nat option \<Rightarrow> 'c md_api \<Rightarrow> 'c md_api result" where
  "Setup env cur = on_ui_thread cur (\<lambda>s.
     require (\<not> mdapi s) (Check ''mdapi_ == nullptr'')
       (let (created, s1) = call_ctp env CreateFtdcMdApi s; s2 = s1\<lparr>mdapi := (created \<noteq> 0)\<rparr>
        in require (mdapi s2) (Check ''mdapi_'')
          (rbind (via_mdapi env Ctp_Init s2) (\<lambda>(_, s3).
           rbind (via_mdapi env (RegisterSpi True) s3) (\<lambda>(_, s4). Inr s4)))))"

definition Reset :: "ctp_env \<Rightarrow> nat option \<Rightarrow> 'c md_api \<Rightarrow> 'c md_api result" where
  "Reset env cur = on_ui_thread cur (\<lambda>s.
     rbind (via_mdapi env (RegisterSpi False) s) (\<lambda>(_, s1).
     rbind (via_mdapi env Ctp_Release s1) (\<lambda>(_, s2). Inr (s2\<lparr>mdapi := False\<rparr>))))"

definition Connect :: "ctp_env \<Rightarrow> nat option \<Rightarrow> 'c md_api \<Rightarrow> 'c md_api result" where
  "Connect env cur = on_ui_thread cur (\<lambda>s.
     rbind (via_mdapi env (RegisterFront (CTP_MdFront env)) s) (\<lambda>(_, s1). Inr s1))"

text \<open>Every value the library returns for a request is only logged.\<close>

definition Login :: "ctp_env \<Rightarrow> nat option \<Rightarrow> 'c md_api \<Rightarrow> 'c md_api result" where
  "Login env cur = on_ui_thread cur (\<lambda>s.
     let myreq = \<lparr>BrokerID = CTP_BrokerID env, UserID = CTP_UserID env, Password = CTP_Password env\<rparr>;
         n = g_reqid s; s1 = s\<lparr>g_reqid := wrap32 (n + 1)\<rparr>
     in rbind (via_mdapi env (ReqUserLogin myreq n) s1) (\<lambda>(_, s2). Inr s2))"

definition Logout :: "ctp_env \<Rightarrow> nat option \<Rightarrow> 'c md_api \<Rightarrow> 'c md_api result" where
  "Logout env cur = on_ui_thread cur (\<lambda>s.
     let myreq = \<lparr>out_BrokerID = CTP_BrokerID env, out_UserID = CTP_UserID env\<rparr>;
         n = g_reqid s; s1 = s\<lparr>g_reqid := wrap32 (n + 1)\<rparr>
     in rbind (via_mdapi env (ReqUserLogout myreq n) s1) (\<lambda>(_, s2). Inr s2))"

subsection \<open>Callbacks\<close>

record rsp_info =
  ErrorID :: int
  ErrorMsg :: string

record rsp_user_login =
  LoginTime :: string
  TradingDay :: string

text \<open>A pointer argument is an option; only whether it is null matters for the other structures.\<close>

datatype md_callback =
    OnFrontConnected
  | OnFrontDisconnected int
  | OnHeartBeatWarning int
  | OnRspUserLogin "rsp_user_login option" "rsp_info option" int
  | OnRspUserLogout "unit option" "rsp_info option" int
  | OnRspError "rsp_info option" int
  | OnRspSubMarketData "unit option" "rsp_info option"
  | OnRspUnSubMarketData "unit option" "rsp_info option"
  | OnRtnDepthMarketData "unit option"
  | OnRspSubForQuoteRsp "unit option" "rsp_info option"
  | OnRspUnSubForQuoteRsp "unit option" "rsp_info option"
  | OnRtnForQuoteRsp "unit option"

datatype log_piece = Text string | Number int

type_synonym log_line = "log_piece list"

definition deref :: "string \<Rightarrow> 'a option \<Rightarrow> ('a \<Rightarrow> 'b result) \<Rightarrow> 'b result" where
  "deref name p k = (case p of None \<Rightarrow> Inl (Check name) | Some x \<Rightarrow> k x)"

definition logged :: "string \<Rightarrow> log_line list result" where
  "logged t = Inr [[Text t]]"

fun handle_callback :: "md_callback \<Rightarrow> log_line list result" where
  "handle_callback OnFrontConnected = logged ''OnFrontConnected''"
| "handle_callback (OnFrontDisconnected nReason) = Inr [[Text ''OnFrontDisconnected:'', Number nReason]]"
| "handle_callback (OnHeartBeatWarning nTimeLapse) = Inr [[Text ''OnHeartBeatWarning'', Number nTimeLapse]]"
| "handle_callback (OnRspUserLogin pRspUserLogin pRspInfo nRequestID) =
     deref ''pRspUserLogin'' pRspUserLogin (\<lambda>l. deref ''pRspInfo'' pRspInfo (\<lambda>i.
       Inr ([Text ''OnRspUserLogin:'', Number nRequestID] #
         (if ErrorID i = 0 then [[Text ''LoginTime:'', Text (LoginTime l)], [Text ''TradingDay:'', Text (TradingDay l)]]
          else [[Text ''login error:'', Number (ErrorID i), Text (ErrorMsg i)]]))))"
| "handle_callback (OnRspUserLogout pUserLogout pRspInfo nRequestID) =
     deref ''pUserLogout'' pUserLogout (\<lambda>_. deref ''pRspInfo'' pRspInfo (\<lambda>_.
       Inr [[Text ''OnRspUserLogout:'', Number nRequestID]]))"
| "handle_callback (OnRspError pRspInfo nRequestID) =
     deref ''pRspInfo'' pRspInfo (\<lambda>i.
       Inr [[Text ''OnRspError:'', Number nRequestID, Number (ErrorID i), Text (ErrorMsg i)]])"
| "handle_callback (OnRspSubMarketData p pRspInfo) =
     deref ''pSpecificInstrument'' p (\<lambda>_. deref ''pRspInfo'' pRspInfo (\<lambda>_. logged ''OnRspSubMarketData''))"
| "handle_callback (OnRspUnSubMarketData p pRspInfo) =
     deref ''pSpecificInstrument'' p (\<lambda>_. deref ''pRspInfo'' pRspInfo (\<lambda>_. logged ''OnRspUnSubMarketData''))"
| "handle_callback (OnRtnDepthMarketData p) = deref ''pDepthMarketData'' p (\<lambda>_. logged ''OnRtnDepthMarketData'')"
| "handle_callback (OnRspSubForQuoteRsp p pRspInfo) =
     deref ''pSpecificInstrument'' p (\<lambda>_. deref ''pRspInfo'' pRspInfo (\<lambda>_. logged ''OnRspSubForQuoteRsp''))"
| "handle_callback (OnRspUnSubForQuoteRsp p pRspInfo) =
     deref ''pSpecificInstrument'' p (\<lambda>_. deref ''pRspInfo'' pRspInfo (\<lambda>_. logged ''OnRspUnSubForQuoteRsp''))"
| "handle_callback (OnRtnForQuoteRsp p) = deref ''pForQuoteRsp'' p (\<lambda>_. logged ''OnRtnForQuoteRsp'')"

subsection \<open>Sessions\<close>

datatype md_op = Op_Setup | Op_Reset | Op_Connect | Op_Login | Op_Logout

fun md_do :: "ctp_env \<Rightarrow> nat option \<Rightarrow> md_op \<Rightarrow> 'c md_api \<Rightarrow> 'c md_api result" where
  "md_do env cur Op_Setup = Setup env cur"
| "md_do env cur Op_Reset = Reset env cur"
| "md_do env cur Op_Connect = Connect env cur"
| "md_do env cur Op_Login = Login env cur"
| "md_do env cur Op_Logout = Logout env cur"

fun md_run :: "ctp_env \<Rightarrow> nat option \<Rightarrow> md_op list \<Rightarrow> 'c md_api \<Rightarrow> 'c md_api result" where
  "md_run env cur [] s = Inr s"
| "md_run env cur (c # cs) s = rbind (md_do env cur c s) (md_run env cur cs)"

text \<open>The calls of a session that follows the protocol: set up, use, reset, and again.\<close>

fun follows :: "bool \<Rightarrow> md_op list \<Rightarrow> bool" where
  "follows up [] = True"
| "follows up (Op_Setup # cs) = (\<not> up \<and> follows True cs)"
| "follows up (Op_Reset # cs) = (up \<and> follows False cs)"
| "follows up (c # cs) = (up \<and> follows up cs)"

definition up_after :: "bool \<Rightarrow> md_op list \<Rightarrow> bool" where
  "up_after up cs = fold (\<lambda>c u. if c = Op_Setup then True else if c = Op_Reset then False else u) cs up"

fun expected :: "ctp_env \<Rightarrow> int \<Rightarrow> md_op list \<Rightarrow> ctp_call list" where
  "expected env n [] = []"
| "expected env n (Op_Setup # cs) = [CreateFtdcMdApi, Ctp_Init, RegisterSpi True] @ expected env n cs"
| "expected env n (Op_Reset # cs) = [RegisterSpi False, Ctp_Release] @ expected env n cs"
| "expected env n (Op_Connect # cs) = RegisterFront (CTP_MdFront env) # expected env n cs"
| "expected env n (Op_Login # cs) =
     ReqUserLogin \<lparr>BrokerID = CTP_BrokerID env, UserID = CTP_UserID env, Password = CTP_Password env\<rparr> n # expected env (n + 1) cs"
| "expected env n (Op_Logout # cs) =
     ReqUserLogout \<lparr>out_BrokerID = CTP_BrokerID env, out_UserID = CTP_UserID env\<rparr> n # expected env (n + 1) cs"

text \<open>Request identifiers, in the order the library saw them.\<close>

fun request_ids :: "ctp_call list \<Rightarrow> int list" where
  "request_ids [] = []"
| "request_ids (ReqUserLogin q n # cs) = n # request_ids cs"
| "request_ids (ReqUserLogout q n # cs) = n # request_ids cs"
| "request_ids (_ # cs) = request_ids cs"

definition on_ui :: "nat option \<Rightarrow> 'c bt_globals \<Rightarrow> bool" where
  "on_ui cur g \<longleftrightarrow> (\<exists>th. threads g UI = Some th \<and> message_loop th = cur)"

lemma on_ui_thread_cases:
  "on_ui_thread cur k s = (if on_ui cur (md_registry s) then k (s\<lparr>md_registry := with_lock (md_registry s)\<rparr>)
     else Inl (Check ''BrowserThread::CurrentlyOn(BrowserThread::UI)''))"
  by (cases "threads (md_registry s) UI") (auto simp: on_ui_thread_def CurrentlyOn_def on_ui_def thread_loop_def)

lemma on_ui_with_lock [simp]: "on_ui cur (with_lock g) = on_ui cur g"
  by (simp add: on_ui_def)


text \<open>One operation on the UI thread.\<close>

lemma md_do_on_ui:
  assumes "on_ui cur (md_registry s)" "\<And>h. ctp_result env h CreateFtdcMdApi \<noteq> 0"
    "int32_min \<le> g_reqid s" "g_reqid s < int32_max"
  shows "md_do env cur c s = (if (c = Op_Setup) = mdapi s
     then Inl (if c = Op_Setup then Check ''mdapi_ == nullptr'' else Null_deref ''mdapi_'')
     else Inr (s\<lparr>md_registry := with_lock (md_registry s), mdapi := up_after (mdapi s) [c],
       calls := calls s @ expected env (g_reqid s) [c],
       g_reqid := g_reqid s + (if c = Op_Login \<or> c = Op_Logout then 1 else 0)\<rparr>))"
proof -
  have "wrap32 (g_reqid s + 1) = g_reqid s + 1" using assms(3,4) by (intro wrap32_id) (simp add: is_int32_def)
  then show ?thesis using assms(1,2)
    by (cases c) (auto simp: Setup_def Reset_def Connect_def Login_def Logout_def on_ui_thread_cases
        via_mdapi_def call_ctp_def up_after_def Let_def)
qed

lemma md_run_on_ui:
  assumes "on_ui cur (md_registry s)" "\<And>h. ctp_result env h CreateFtdcMdApi \<noteq> 0"
    "int32_min \<le> g_reqid s" "g_reqid s + int (length cs) \<le> int32_max"
  shows "case md_run env cur cs s of
      Inr s' \<Rightarrow> follows (mdapi s) cs \<and> calls s' = calls s @ expected env (g_reqid s) cs \<and>
        mdapi s' = up_after (mdapi s) cs
    | Inl e \<Rightarrow> \<not> follows (mdapi s) cs"
  using assms(1,3,4)
proof (induction cs arbitrary: s)
  case Nil
  then show ?case by (simp add: up_after_def)
next
  case (Cons c cs)
  note d = md_do_on_ui [OF Cons.prems(1) assms(2), of c]
  have i: "int32_min \<le> g_reqid s" "g_reqid s < int32_max" using Cons.prems by simp_all
  show ?case
  proof (cases "(c = Op_Setup) = mdapi s")
    case True
    then show ?thesis using d [OF i] by (cases c) auto
  next
    case False
    let ?s = "s\<lparr>md_registry := with_lock (md_registry s), mdapi := up_after (mdapi s) [c],
       calls := calls s @ expected env (g_reqid s) [c],
       g_reqid := g_reqid s + (if c = Op_Login \<or> c = Op_Logout then 1 else 0)\<rparr>"
    have "md_run env cur (c # cs) s = md_run env cur cs ?s" using d [OF i] False by simp
    moreover have "follows (mdapi s) (c # cs) \<longleftrightarrow> follows (mdapi ?s) cs"
      using False by (cases c) (auto simp: up_after_def)
    moreover have "expected env (g_reqid s) (c # cs) = expected env (g_reqid s) [c] @ expected env (g_reqid ?s) cs"
      by (cases c) auto
    moreover have "up_after (mdapi s) (c # cs) = up_after (mdapi ?s) cs" by (simp add: up_after_def)
    moreover have "case md_run env cur cs ?s of
        Inr s' \<Rightarrow> follows (mdapi ?s) cs \<and> calls s' = calls ?s @ expected env (g_reqid ?s) cs \<and>
          mdapi s' = up_after (mdapi ?s) cs
      | Inl e \<Rightarrow> \<not> follows (mdapi ?s) cs"
      using Cons.prems by (intro Cons.IH) auto
    ultimately show ?thesis by (cases "md_run env cur cs ?s") auto
  qed
qed

lemma request_ids_append [simp]: "request_ids (xs @ ys) = request_ids xs @ request_ids ys"
  by (induction xs rule: request_ids.induct) auto

lemma request_ids_expected:
  "request_ids (expected env n cs) = [n .. n + int (length (filter (\<lambda>c. c = Op_Login \<or> c = Op_Logout) cs)) - 1]"
proof (induction cs arbitrary: n)
  case (Cons c cs)
  have "n # [n + 1 .. n + 1 + int k - 1] = [n .. n + int (Suc k) - 1]" for k
    by (subst (2) upto.simps) simp
  then show ?case using Cons.IH by (cases c) auto
qed simp

text \<open>
  C26: the protocol of a market data session. On the UI thread a sequence of operations succeeds exactly
  when it sets the connection up before using it, does not set it up twice, and uses it only until
  it is reset; the library then sees exactly the calls of these operations in order, every instance
  created is unregistered and released by its reset, and requests carry consecutive identifiers,
  none twice. On any other thread the first operation fails its check before the library is called.
\<close>

theorem md_session_protocol:
  assumes "\<And>h. ctp_result env h CreateFtdcMdApi \<noteq> 0" "\<not> mdapi s" "calls s = []"
    "int32_min \<le> g_reqid s" "g_reqid s + int (length cs) \<le> int32_max"
  shows "(on_ui cur (md_registry s) \<longrightarrow>
      ((\<exists>s'. md_run env cur cs s = Inr s') \<longleftrightarrow> follows False cs) \<and>
      (\<forall>s'. md_run env cur cs s = Inr s' \<longrightarrow> calls s' = expected env (g_reqid s) cs \<and>
        (mdapi s' \<longleftrightarrow> up_after False cs) \<and>
        request_ids (calls s') =
          [g_reqid s .. g_reqid s + int (length (filter (\<lambda>c. c = Op_Login \<or> c = Op_Logout) cs)) - 1])) \<and>
    (\<not> on_ui cur (md_registry s) \<longrightarrow> cs \<noteq> [] \<longrightarrow>
      md_run env cur cs s = Inl (Check ''BrowserThread::CurrentlyOn(BrowserThread::UI)''))"
proof (rule conjI)
  show "on_ui cur (md_registry s) \<longrightarrow>
      ((\<exists>s'. md_run env cur cs s = Inr s') \<longleftrightarrow> follows False cs) \<and>
      (\<forall>s'. md_run env cur cs s = Inr s' \<longrightarrow> calls s' = expected env (g_reqid s) cs \<and>
        (mdapi s' \<longleftrightarrow> up_after False cs) \<and>
        request_ids (calls s') =
          [g_reqid s .. g_reqid s + int (length (filter (\<lambda>c. c = Op_Login \<or> c = Op_Logout) cs)) - 1])"
    using md_run_on_ui [of cur s env cs] assms request_ids_expected
    by (cases "md_run env cur cs s") auto
  show "\<not> on_ui cur (md_registry s) \<longrightarrow> cs \<noteq> [] \<longrightarrow>
      md_run env cur cs s = Inl (Check ''BrowserThread::CurrentlyOn(BrowserThread::UI)'')"
  proof (intro impI)
    assume "\<not> on_ui cur (md_registry s)" "cs \<noteq> []"
    moreover obtain c cs' where "cs = c # cs'" using \<open>cs \<noteq> []\<close> by (cases cs) auto
    ultimately show "md_run env cur cs s = Inl (Check ''BrowserThread::CurrentlyOn(BrowserThread::UI)'')"
      by (cases c) (auto simp: Setup_def Reset_def Connect_def Login_def Logout_def on_ui_thread_cases)
  qed
qed

definition demo_ctp :: ctp_env where
  "demo_ctp = \<lparr>CTP_MdFront = ''tcp'', CTP_BrokerID = ''b'', CTP_UserID = ''u'', CTP_Password = ''p'',
     ctp_result = (\<lambda>_ _. 1)\<rparr>"

theorem md_session_protocol_witness:
  "\<exists>s'. md_run demo_ctp (Some 4) [Op_Setup, Op_Connect, Op_Login, Op_Logout, Op_Reset]
      \<lparr>mdapi = False, g_reqid = 1, md_registry = two_threads, calls = []\<rparr> = Inr s' \<and>
    request_ids (calls s') = [1, 2] \<and> \<not> mdapi s'"
proof -
  let ?s = "\<lparr>mdapi = False, g_reqid = 1, md_registry = two_threads, calls = []\<rparr>"
  let ?cs = "[Op_Setup, Op_Connect, Op_Login, Op_Logout, Op_Reset]"
  have u: "on_ui (Some 4) two_threads" by (simp add: on_ui_def two_threads_def Thread_def)
  have e: "[1 .. 2] = [1, 2 :: int]" by (simp add: upto.simps)
  have "ctp_result demo_ctp h CreateFtdcMdApi \<noteq> 0" for h by (simp add: demo_ctp_def)
  from md_session_protocol [OF this, of ?s ?cs "Some 4"] u
  have "((\<exists>s'. md_run demo_ctp (Some 4) ?cs ?s = Inr s') \<longleftrightarrow> follows False ?cs)"
    "\<forall>s'. md_run demo_ctp (Some 4) ?cs ?s = Inr s' \<longrightarrow> (mdapi s' \<longleftrightarrow> up_after False ?cs) \<and>
      request_ids (calls s') = [1 .. 1 + int (length (filter (\<lambda>c. c = Op_Login \<or> c = Op_Logout) ?cs)) - 1]"
    by (simp_all add: e)
  moreover have "[1 .. 1 + int (length (filter (\<lambda>c. c = Op_Login \<or> c = Op_Logout) ?cs)) - 1] = [1, 2]"
    by (simp add: e)
  moreover have "follows False ?cs" "\<not> up_after False ?cs" by (simp_all add: up_after_def)
  ultimately show ?thesis by metis
qed

end
