(* ===== verification/String_Util.thy ===== *)
theory String_Util
  imports P528_Prelude "HOL-Library.Sublist"
begin

text \<open>
  String utilities (\<^verbatim>\<open>base/strings/string_util.cc\<close>, \<^verbatim>\<open>string_split.cc\<close>, \<^verbatim>\<open>string_tokenizer.h\<close>). The
  templates over \<^verbatim>\<open>std::string\<close> and \<^verbatim>\<open>string16\<close> are functions on lists of any character type;
  positions are natural numbers and \<^verbatim>\<open>npos\<close> is \<open>None\<close>.
\<close>

named_theorems strs \<open>facts about searching and cutting strings\<close>

text \<open>A narrow string; \<open>text8\<close> is a string literal of the source.\<close>

type_synonym str = "byte list"

definition text8 :: "string \<Rightarrow> str" where
  "text8 s = map of_char s"

definition kWhitespaceASCII :: str where
  "kWhitespaceASCII = [0x09, 0x0A, 0x0B, 0x0C, 0x0D, 0x20]"

subsection \<open>Searching, as the standard strings do\<close>

fun find_index :: "('a \<Rightarrow> bool) \<Rightarrow> 'a list \<Rightarrow> nat option" where
  "find_index P [] = None"
| "find_index P (x # xs) = (if P x then Some 0 else map_option Suc (find_index P xs))"

definition find_first :: "'a list \<Rightarrow> ('a \<Rightarrow> bool) \<Rightarrow> nat \<Rightarrow> nat option" where
  "find_first str P pos = map_option (\<lambda>i. pos + i) (find_index P (drop pos str))"

definition find_first_of :: "'a list \<Rightarrow> 'a list \<Rightarrow> nat \<Rightarrow> nat option" where
  "find_first_of str chars = find_first str (\<lambda>c. c \<in> set chars)"

definition find_first_not_of :: "'a list \<Rightarrow> 'a list \<Rightarrow> nat \<Rightarrow> nat option" where
  "find_first_not_of str chars = find_first str (\<lambda>c. c \<notin> set chars)"

definition find_last_not_of :: "'a list \<Rightarrow> 'a list \<Rightarrow> nat option" where
  "find_last_not_of str chars = map_option (\<lambda>i. length str - 1 - i) (find_index (\<lambda>c. c \<notin> set chars) (rev str))"

definition find_last_of :: "'a list \<Rightarrow> 'a list \<Rightarrow> nat option" where
  "find_last_of str chars = map_option (\<lambda>i. length str - 1 - i) (find_index (\<lambda>c. c \<in> set chars) (rev str))"

definition substr :: "'a list \<Rightarrow> nat \<Rightarrow> nat \<Rightarrow> 'a list" where
  "substr str pos n = take n (drop pos str)"

fun find_sub :: "'a list \<Rightarrow> 'a list \<Rightarrow> nat option" where
  "find_sub sub [] = (if sub = [] then Some 0 else None)"
| "find_sub sub (x # xs) = (if take (length sub) (x # xs) = sub then Some 0 else map_option Suc (find_sub sub xs))"

text \<open>\<^verbatim>\<open>find\<close> and \<^verbatim>\<open>rfind\<close> of a substring, from and up to a position.\<close>

definition str_find :: "'a list \<Rightarrow> 'a list \<Rightarrow> nat \<Rightarrow> nat option" where
  "str_find str sub pos = (if pos > length str then None else map_option (\<lambda>i. pos + i) (find_sub sub (drop pos str)))"

fun str_rfind :: "'a list \<Rightarrow> 'a list \<Rightarrow> nat \<Rightarrow> nat option" where
  "str_rfind str sub 0 = (if take (length sub) str = sub then Some 0 else None)"
| "str_rfind str sub (Suc pos) =
     (if take (length sub) (drop (Suc pos) str) = sub \<and> Suc pos \<le> length str then Some (Suc pos) else str_rfind str sub pos)"

subsection \<open>Facts about searching\<close>

lemma find_index_None: "find_index P xs = None \<longleftrightarrow> (\<forall>x \<in> set xs. \<not> P x)"
  by (induction xs) auto

lemma find_index_Some:
  "find_index P xs = Some i \<longleftrightarrow> i < length xs \<and> P (xs ! i) \<and> (\<forall>j < i. \<not> P (xs ! j))"
proof (induction xs arbitrary: i)
  case (Cons x xs)
  then show ?case by (cases i) (auto simp: All_less_Suc2 nth_Cons')
qed simp

lemma find_index_take:
  "find_index P xs = Some i \<Longrightarrow> takeWhile (\<lambda>x. \<not> P x) xs = take i xs \<and> dropWhile (\<lambda>x. \<not> P x) xs = drop i xs"
  by (induction xs arbitrary: i) (auto split: if_splits)

lemma find_sub_Some:
  "sub \<noteq> [] \<Longrightarrow> find_sub sub xs = Some i \<longleftrightarrow>
     take (length sub) (drop i xs) = sub \<and> (\<forall>j < i. take (length sub) (drop j xs) \<noteq> sub)"
proof (induction xs arbitrary: i)
  case (Cons x xs)
  then show ?case by (cases i) (auto simp: All_less_Suc2)
qed auto

lemma find_sub_None: "sub \<noteq> [] \<Longrightarrow> find_sub sub xs = None \<longleftrightarrow> (\<forall>j. take (length sub) (drop j xs) \<noteq> sub)"
proof (induction xs)
  case (Cons x xs)
  have "(\<forall>j. take (length sub) (drop j (x # xs)) \<noteq> sub) \<longleftrightarrow>
      take (length sub) (x # xs) \<noteq> sub \<and> (\<forall>j. take (length sub) (drop j xs) \<noteq> sub)"
    by (metis drop0 drop_Suc_Cons not0_implies_Suc)
  then show ?case using Cons by auto
qed simp

text \<open>Searching for one character.\<close>

lemma str_find_single: "str_find line [x] 0 = (if x \<in> set line then Some (length (takeWhile (\<lambda>c. c \<noteq> x) line)) else None)"
proof (cases "x \<in> set line")
  case True
  let ?n = "length (takeWhile (\<lambda>c. c \<noteq> x) line)"
  obtain y ys where d: "dropWhile (\<lambda>c. c \<noteq> x) line = y # ys" using True by (cases "dropWhile (\<lambda>c. c \<noteq> x) line") auto
  then have "y = x" using hd_dropWhile [of "\<lambda>c. c \<noteq> x" line] by simp
  then have "take 1 (drop ?n line) = [x]" using d dropWhile_eq_drop [of "\<lambda>c. c \<noteq> x" line] by simp
  moreover have "take 1 (drop j line) \<noteq> [x]" if "j < ?n" for j
  proof -
    have "j < length line" using that length_takeWhile_le [of "\<lambda>c. c \<noteq> x" line] by simp
    moreover have "takeWhile (\<lambda>c. c \<noteq> x) line ! j \<in> set (takeWhile (\<lambda>c. c \<noteq> x) line)" using that by simp
    then have "line ! j \<noteq> x" using takeWhile_nth [OF that] by (auto dest: set_takeWhileD)
    ultimately show ?thesis by (simp add: Cons_nth_drop_Suc [symmetric])
  qed
  ultimately show ?thesis using True by (simp add: str_find_def find_sub_Some)
next
  case False
  have "take 1 (drop j line) \<noteq> [x]" for j
    using False by (metis in_set_dropD in_set_takeD list.set_intros(1))
  then show ?thesis using False by (simp add: str_find_def find_sub_None)
qed

lemma str_rfind_single:
  "str_rfind path [x] n = None \<Longrightarrow> length path \<le> Suc n \<Longrightarrow> x \<notin> set path"
  "str_rfind path [x] n = Some p \<Longrightarrow> length path \<le> Suc n \<Longrightarrow>
     p < length path \<and> path = take p path @ x # drop (p + 1) path \<and> x \<notin> set (drop (p + 1) path)"
proof -
  have at: "take (length [x]) (drop i path) = [x] \<longleftrightarrow> i < length path \<and> path ! i = x" for i
    by (cases "i < length path") (simp_all add: Cons_nth_drop_Suc [symmetric])
  have n: "str_rfind path [x] n = None \<Longrightarrow> \<forall>i \<le> n. i < length path \<longrightarrow> path ! i \<noteq> x" for n
    by (induction n) (use at [of 0] at in \<open>auto split: if_splits simp: le_Suc_eq\<close>)
  show "str_rfind path [x] n = None \<Longrightarrow> length path \<le> Suc n \<Longrightarrow> x \<notin> set path"
    using n [of n] by (auto simp: in_set_conv_nth)
  have s: "str_rfind path [x] n = Some p \<Longrightarrow>
     p < length path \<and> path ! p = x \<and> (\<forall>i. p < i \<longrightarrow> i \<le> n \<longrightarrow> i < length path \<longrightarrow> path ! i \<noteq> x)" for n
    by (induction n) (use at [of 0] at in \<open>auto split: if_splits simp: le_Suc_eq\<close>)
  assume "str_rfind path [x] n = Some p" "length path \<le> Suc n"
  then have f: "p < length path" "path ! p = x" "\<forall>i. p < i \<longrightarrow> i < length path \<longrightarrow> path ! i \<noteq> x"
    using s [of n] by auto
  have "x \<notin> set (drop (p + 1) path)" using f(1,3) by (auto simp: in_set_conv_nth)
  then show "p < length path \<and> path = take p path @ x # drop (p + 1) path \<and> x \<notin> set (drop (p + 1) path)"
    using f id_take_nth_drop [OF f(1)] by simp
qed

subsection \<open>Trimming\<close>

text \<open>\<^verbatim>\<open>TrimPositions\<close> is a set of two flags, leading and trailing.\<close>

type_synonym trim_positions = "bool \<times> bool"

definition TRIM_NONE :: trim_positions where "TRIM_NONE = (False, False)"
definition TRIM_ALL :: trim_positions where "TRIM_ALL = (True, True)"

definition TrimStringT :: "'a list \<Rightarrow> 'a list \<Rightarrow> trim_positions \<Rightarrow> 'a list \<times> trim_positions" where
  "TrimStringT input trim_chars positions =
     (let last_char = length input - 1;
          first_good_char = (if fst positions then find_first_not_of input trim_chars 0 else Some 0);
          last_good_char = (if snd positions then find_last_not_of input trim_chars else Some last_char)
      in if input = [] then ([], TRIM_NONE)
         else case (first_good_char, last_good_char) of
           (Some good, Some good_end) \<Rightarrow>
             (substr input good (good_end - good + 1), (good \<noteq> 0, good_end \<noteq> last_char))
         | _ \<Rightarrow> ([], positions))"

definition TrimString :: "'a list \<Rightarrow> 'a list \<Rightarrow> 'a list \<times> bool" where
  "TrimString input trim_chars =
     (let (output, trimmed) = TrimStringT input trim_chars TRIM_ALL in (output, trimmed \<noteq> TRIM_NONE))"

subsection \<open>Replacing characters\<close>

text \<open>\<^verbatim>\<open>replace\<close> of the standard strings.\<close>

definition str_replace :: "'a list \<Rightarrow> nat \<Rightarrow> nat \<Rightarrow> 'a list \<Rightarrow> 'a list" where
  "str_replace str pos n new = take pos str @ new @ drop (pos + n) str"

text \<open>
  The loop of \<^verbatim>\<open>ReplaceCharsT\<close>: it ends because the rest of the string after the replacement shrinks.
\<close>

function ReplaceChars_loop :: "'a list \<Rightarrow> 'a list \<Rightarrow> 'a list \<Rightarrow> nat \<Rightarrow> bool \<Rightarrow> bool \<times> 'a list" where
  "ReplaceChars_loop output replace_chars replace_with pos removed =
     (case find_first_of output replace_chars pos of
        None \<Rightarrow> (removed, output)
      | Some found \<Rightarrow> ReplaceChars_loop (str_replace output found 1 replace_with) replace_chars replace_with
          (found + length replace_with) True)"
  by pat_completeness auto

termination
  by (relation "measure (\<lambda>(output, _, _, pos, _). length output - pos)")
    (auto simp: find_first_of_def find_first_def find_index_Some str_replace_def)

declare ReplaceChars_loop.simps [simp del]

definition ReplaceCharsT :: "'a list \<Rightarrow> 'a list \<Rightarrow> 'a list \<Rightarrow> bool \<times> 'a list" where
  "ReplaceCharsT input replace_chars replace_with = ReplaceChars_loop input replace_chars replace_with 0 False"

definition RemoveChars :: "'a list \<Rightarrow> 'a list \<Rightarrow> bool \<times> 'a list" where
  "RemoveChars input remove_chars = ReplaceCharsT input remove_chars []"

definition ContainsOnlyChars :: "'a list \<Rightarrow> 'a list \<Rightarrow> bool" where
  "ContainsOnlyChars input characters = (find_first_not_of input characters 0 = None)"

subsection \<open>Prefixes, suffixes and comparison\<close>

text \<open>\<open>lower\<close> is \<^verbatim>\<open>base::ToLowerASCII\<close> of the character type.\<close>

definition StartsWithT :: "('a \<Rightarrow> 'a) \<Rightarrow> 'a list \<Rightarrow> 'a list \<Rightarrow> bool \<Rightarrow> bool" where
  "StartsWithT lower str search case_sensitive =
     (if case_sensitive then take (length search) str = search
      else if length search > length str then False
      else list_all2 (\<lambda>a b. lower a = lower b) search (take (length search) str))"

definition EndsWithT :: "('a \<Rightarrow> 'a) \<Rightarrow> 'a list \<Rightarrow> 'a list \<Rightarrow> bool \<Rightarrow> bool" where
  "EndsWithT lower str search case_sensitive =
     (if length search > length str then False
      else if case_sensitive then substr str (length str - length search) (length search) = search
      else list_all2 (\<lambda>a b. lower a = lower b) search (drop (length str - length search) str))"

fun DoLowerCaseEqualsASCII :: "('a \<Rightarrow> 'a) \<Rightarrow> 'a list \<Rightarrow> 'a list \<Rightarrow> bool" where
  "DoLowerCaseEqualsASCII lower [] b = (b = [])"
| "DoLowerCaseEqualsASCII lower (a # as) [] = False"
| "DoLowerCaseEqualsASCII lower (a # as) (b # bs) = (if lower a \<noteq> b then False else DoLowerCaseEqualsASCII lower as bs)"

subsection \<open>Tokens\<close>

text \<open>\<^verbatim>\<open>TokenizeT\<close> from the position of a token's first character.\<close>

function Tokenize_loop :: "'a list \<Rightarrow> 'a list \<Rightarrow> nat option \<Rightarrow> 'a list list" where
  "Tokenize_loop str delimiters None = []"
| "Tokenize_loop str delimiters (Some start) =
     (case find_first_of str delimiters (start + 1) of
        None \<Rightarrow> [drop start str]
      | Some e \<Rightarrow> substr str start (e - start) # Tokenize_loop str delimiters (find_first_not_of str delimiters (e + 1)))"
  by pat_completeness auto

termination
proof (relation "measure (\<lambda>(str, _, s). case s of None \<Rightarrow> 0 | Some start \<Rightarrow> Suc (length str - start))")
  fix str delimiters :: "'a list" and start e
  assume "find_first_of str delimiters (start + 1) = Some e"
  then have "start < e" "e < length str" by (auto simp: find_first_of_def find_first_def find_index_Some)
  moreover have "e < s" if "find_first_not_of str delimiters (e + 1) = Some s" for s
    using that by (auto simp: find_first_not_of_def find_first_def)
  ultimately show "((str, delimiters, find_first_not_of str delimiters (e + 1)), str, delimiters, Some start)
      \<in> measure (\<lambda>(str, _, s). case s of None \<Rightarrow> 0 | Some start \<Rightarrow> Suc (length str - start))"
    by (auto split: option.splits)
qed simp

definition TokenizeT :: "'a list \<Rightarrow> 'a list \<Rightarrow> nat \<times> 'a list list" where
  "TokenizeT str delimiters =
     (let tokens = Tokenize_loop str delimiters (find_first_not_of str delimiters 0) in (length tokens, tokens))"

fun join_rest :: "'a list \<Rightarrow> 'a list list \<Rightarrow> 'a list \<Rightarrow> 'a list" where
  "join_rest sep [] result = result"
| "join_rest sep (p # ps) result = join_rest sep ps (result @ sep @ p)"

definition JoinStringT :: "'a list list \<Rightarrow> 'a list \<Rightarrow> 'a list" where
  "JoinStringT parts sep = (case parts of [] \<Rightarrow> [] | p # ps \<Rightarrow> join_rest sep ps p)"


subsection \<open>Trimming is dropping from the ends\<close>

lemma find_index_skip: "\<forall>x \<in> set u. \<not> P x \<Longrightarrow> find_index P (u @ xs) = map_option (\<lambda>i. length u + i) (find_index P xs)"
  by (cases "find_index P xs"; induction u) auto

lemma dropWhile_skip: "\<forall>x \<in> set u. P x \<Longrightarrow> dropWhile P (u @ xs) = dropWhile P xs"
  by (induction u) auto

lemma trim_split:
  assumes "\<exists>x \<in> set xs. \<not> P x"
  obtains u m v where "xs = u @ m @ v" "\<forall>x \<in> set u. P x" "\<forall>x \<in> set v. P x" "m \<noteq> []" "\<not> P (hd m)" "\<not> P (last m)"
proof -
  let ?u = "takeWhile P xs" let ?r = "dropWhile P xs"
  let ?v = "rev (takeWhile P (rev ?r))" let ?m = "rev (dropWhile P (rev ?r))"
  have r: "?r \<noteq> []" "\<not> P (hd ?r)" using assms by (auto simp: hd_dropWhile)
  then have "\<exists>x \<in> set ?r. \<not> P x" by (meson list.set_sel(1))
  then have m: "?m \<noteq> []" by auto
  have "?r = ?m @ ?v" by (metis rev_append rev_rev_ident takeWhile_dropWhile_id)
  then have "xs = ?u @ ?m @ ?v" by (metis takeWhile_dropWhile_id)
  moreover have "\<forall>x \<in> set ?u. P x" "\<forall>x \<in> set ?v. P x" by (auto dest: set_takeWhileD)
  moreover have "\<not> P (hd ?m)" using r m \<open>?r = ?m @ ?v\<close> by (metis hd_append2)
  moreover have "\<not> P (last ?m)" using m by (simp add: last_rev hd_dropWhile)
  ultimately show ?thesis using that m by blast
qed

definition trimmed :: "('a \<Rightarrow> bool) \<Rightarrow> trim_positions \<Rightarrow> 'a list \<Rightarrow> 'a list" where
  "trimmed P positions xs =
     (let ys = (if fst positions then dropWhile P xs else xs)
      in if snd positions then rev (dropWhile P (rev ys)) else ys)"

lemma TrimStringT_spec:
  "TrimStringT input chars positions =
     (trimmed (\<lambda>c. c \<in> set chars) positions input,
      (fst positions \<and> input \<noteq> [] \<and> hd input \<in> set chars, snd positions \<and> input \<noteq> [] \<and> last input \<in> set chars))"
proof (cases "\<exists>x \<in> set input. x \<notin> set chars")
  case True
  then obtain u m v where d: "input = u @ m @ v" "\<forall>x \<in> set u. x \<in> set chars" "\<forall>x \<in> set v. x \<in> set chars"
    "m \<noteq> []" "hd m \<notin> set chars" "last m \<notin> set chars"
    by (rule trim_split [of input "\<lambda>c. c \<in> set chars"])
  obtain y ys where y: "m = y # ys" "y \<notin> set chars" using d by (cases m) auto
  obtain z zs where z: "m = zs @ [z]" "z \<notin> set chars" using d(4,6) by (cases m rule: rev_cases) auto
  have f: "find_first_not_of input chars 0 = Some (length u)"
    using d(2) y by (simp add: find_first_not_of_def find_first_def d(1) find_index_skip del: append_assoc)
  have l: "find_last_not_of input chars = Some (length u + length m - 1)"
    using d(3) z by (simp add: find_last_not_of_def d(1) find_index_skip)
  have t: "dropWhile (\<lambda>c. c \<in> set chars) input = m @ v" "dropWhile (\<lambda>c. c \<in> set chars) (rev input) = rev m @ rev u"
    "dropWhile (\<lambda>c. c \<in> set chars) (rev v @ rev m) = rev m"
  proof -
    have "dropWhile (\<lambda>c. c \<in> set chars) (m @ w) = m @ w" for w using y by simp
    moreover have "dropWhile (\<lambda>c. c \<in> set chars) (rev m @ w) = rev m @ w" for w using z by simp
    from this [of "[]"] this have "dropWhile (\<lambda>c. c \<in> set chars) (rev m @ w) = rev m @ w"
      "dropWhile (\<lambda>c. c \<in> set chars) (rev m) = rev m" for w by simp_all
    ultimately show "dropWhile (\<lambda>c. c \<in> set chars) input = m @ v"
      "dropWhile (\<lambda>c. c \<in> set chars) (rev input) = rev m @ rev u"
      "dropWhile (\<lambda>c. c \<in> set chars) (rev v @ rev m) = rev m"
      using d(2,3) by (simp_all add: d(1) dropWhile_skip)
  qed
  have h: "hd input \<in> set chars \<longleftrightarrow> u \<noteq> []" "last input \<in> set chars \<longleftrightarrow> v \<noteq> []"
    using d by (auto simp: hd_append last_append)
  have n: "input \<noteq> []" using d by simp
  have e: "length u + length m - 1 = length input - 1 \<longleftrightarrow> v = []" "length u = 0 \<longleftrightarrow> u = []"
    using d(4) by (cases m; cases v; simp add: d(1))+
  have c: "substr input (length u) (length u + length m - 1 - length u + 1) = m"
    "substr input 0 (length u + length m - 1 - 0 + 1) = u @ m"
    "substr input (length u) (length input - 1 - length u + 1) = m @ v" "substr input 0 (length input - 1 - 0 + 1) = input"
    using d(4) by (cases m; simp add: substr_def d(1))+
  have "trimmed (\<lambda>c. c \<in> set chars) (True, True) input = m" "trimmed (\<lambda>c. c \<in> set chars) (False, True) input = u @ m"
    "trimmed (\<lambda>c. c \<in> set chars) (True, False) input = m @ v" "trimmed (\<lambda>c. c \<in> set chars) (False, False) input = input"
    by (simp_all add: trimmed_def t)
  then show ?thesis using n h e c
    by (cases positions; cases "fst positions"; cases "snd positions") (simp_all add: TrimStringT_def f l Let_def)
next
  case False
  then have f: "find_first_not_of input chars 0 = None" "find_last_not_of input chars = None"
    by (auto simp: find_first_not_of_def find_first_def find_last_not_of_def find_index_None)
  have t: "dropWhile (\<lambda>c. c \<in> set chars) input = []" "dropWhile (\<lambda>c. c \<in> set chars) (rev input) = []"
    using False by auto
  have "hd input \<in> set chars" "last input \<in> set chars" if "input \<noteq> []" using False that by auto
  then show ?thesis
    by (cases positions) (auto simp: TrimStringT_def f trimmed_def t Let_def substr_def TRIM_NONE_def)
qed

text \<open>
  Trimming. \<^verbatim>\<open>TrimStringT\<close> drops exactly the characters of the given set from the requested ends,
  and reports an end exactly when it was requested and something was dropped there; trimming again
  changes nothing.
\<close>

theorem TrimStringT_correct:
  "TrimStringT input chars positions =
     (trimmed (\<lambda>c. c \<in> set chars) positions input,
      (fst positions \<and> input \<noteq> [] \<and> hd input \<in> set chars, snd positions \<and> input \<noteq> [] \<and> last input \<in> set chars)) \<and>
   fst (TrimStringT (fst (TrimStringT input chars positions)) chars positions) = fst (TrimStringT input chars positions)"
proof -
  have i: "dropWhile P (dropWhile P xs) = dropWhile P xs" for P and xs :: "'a list" by (simp add: dropWhile_idem)
  have b: "dropWhile P (rev (dropWhile P (rev (dropWhile P xs)))) = rev (dropWhile P (rev (dropWhile P xs)))"
    for P and xs :: "'a list"
  proof (cases "dropWhile P (rev (dropWhile P xs)) = []")
    case True
    then show ?thesis by (simp only: True rev.simps dropWhile.simps)
  next
    case False
    then obtain z zs where Cons: "dropWhile P (rev (dropWhile P xs)) = z # zs" by (meson neq_Nil_conv)
    have "dropWhile P xs = rev (z # zs) @ rev (takeWhile P (rev (dropWhile P xs)))"
      by (metis Cons rev_append rev_rev_ident takeWhile_dropWhile_id)
    then have "\<not> P (hd (rev (z # zs)))"
      by (metis Nil_is_append_conv hd_append2 hd_dropWhile list.distinct(1) rev_is_Nil_conv)
    then show ?thesis unfolding Cons by (cases "rev (z # zs)") auto
  qed
  have "trimmed P positions (trimmed P positions xs) = trimmed P positions xs" for P and xs :: "'a list"
    by (simp add: trimmed_def Let_def i b)
  then show ?thesis by (simp add: TrimStringT_spec)
qed

end
