(* ===== verification/String_Replace.thy ===== *)
theory String_Replace
  imports String_Util
begin

text \<open>
  Replacing substrings in place (\<^verbatim>\<open>DoReplaceSubstringsAfterOffset\<close> in \<^verbatim>\<open>base/strings/string_util.cc\<close>). The
  code has one loop for replacements of the same length, one that shifts the string down as it
  shortens, and one that expands it from the back; they are compared with a plain left-to-right
  replacement.

  The string is a buffer that is written at positions. An offset that would go below zero wraps to a
  value beyond every string, so the \<^verbatim>\<open>memmove\<close> or \<^verbatim>\<open>replace\<close> that uses it leaves the buffer; it is the
  failure \<open>out_of_bounds\<close>. The loops run only after \<^verbatim>\<open>DCHECK(!find_this.empty())\<close>, which their
  definitions repeat.
\<close>

definition out_of_bounds :: failure where "out_of_bounds = Fatal ''access outside the string''"

definition empty_find :: failure where "empty_find = Dcheck ''!find_this.empty()''"

definition move :: "'a list \<Rightarrow> nat \<Rightarrow> nat \<Rightarrow> nat \<Rightarrow> 'a list" where
  "move str to from n = take to str @ substr str from n @ drop (to + n) str"

subsection \<open>The code\<close>

lemma find_sub_bound: "find_sub f xs = Some i \<Longrightarrow> i + length f \<le> length xs"
proof (induction xs arbitrary: i)
  case (Cons x xs)
  then show ?case
    by (auto split: if_splits) (metis length_Cons length_take min.absorb_iff2 min_def nle_le not_less_eq_eq)
qed (auto split: if_splits)

lemma str_find_bound: "str_find str f pos = Some i \<Longrightarrow> pos \<le> i \<and> i + length f \<le> length str"
  by (auto simp: str_find_def dest!: find_sub_bound split: if_splits)

text \<open>Lengths equal.\<close>

function replace_same :: "'a list \<Rightarrow> 'a list \<Rightarrow> 'a list \<Rightarrow> nat \<Rightarrow> 'a list result" where
  "replace_same find_this replace_with str offset =
     (if find_this = [] then Inl empty_find
      else let str1 = str_replace str offset (length find_this) replace_with
        in case str_find str1 find_this (offset + length replace_with) of
             None \<Rightarrow> Inr str1
           | Some next_offset \<Rightarrow> replace_same find_this replace_with str1 next_offset)"
  by pat_completeness auto

termination
proof (relation "measure (\<lambda>(_, _, str, offset). length str - offset)")
  fix f r str str1 :: "'a list" and offset k
  assume *: "f \<noteq> []" "str1 = str_replace str offset (length f) r" "str_find str1 f (offset + length r) = Some k"
  then have "offset + length r \<le> k" "k + length f \<le> length str1" "0 < length f" by (auto dest: str_find_bound)
  moreover have "length str1 = min (length str) offset + (length r + (length str - (offset + length f)))"
    by (simp add: *(2) str_replace_def)
  ultimately have "length str1 - k < length str - offset" by arith
  then show "((f, r, str1, k), f, r, str, offset) \<in> measure (\<lambda>(_, _, str, offset). length str - offset)" by simp
qed simp

text \<open>
  Shortening: one pass of the loop writes the replacement, finds the next match and moves what lies
  between; \<open>str_length\<close> is the original length, which the buffer keeps until the final resize.
\<close>

function replace_shrink :: "'a list \<Rightarrow> 'a list \<Rightarrow> nat \<Rightarrow> 'a list \<Rightarrow> nat \<Rightarrow> nat \<Rightarrow> 'a list result" where
  "replace_shrink find_this replace_with str_length str write_offset offset =
     (if find_this = [] then Inl empty_find
      else
        let (str1, write1) =
              (if length replace_with \<noteq> 0
               then (str_replace str write_offset (length replace_with) replace_with, write_offset + length replace_with)
               else (str, write_offset));
            read_offset = offset + length find_this;
            offset1 = (case str_find str1 find_this read_offset of None \<Rightarrow> str_length | Some k \<Rightarrow> min k str_length)
        in if offset1 < read_offset then Inl out_of_bounds
           else
             let len = offset1 - read_offset;
                 (str2, write2) = (if len \<noteq> 0 then (move str1 write1 read_offset len, write1 + len) else (str1, write1))
             in if offset1 < str_length then replace_shrink find_this replace_with str_length str2 write2 offset1
                else Inr (take write2 str2))"
  by pat_completeness auto

termination
  by (relation "measure (\<lambda>(_, _, n, _, _, offset). n - offset)")
    (auto simp flip: length_greater_0_conv split: option.splits)

text \<open>Lengthening: the final length and the last match, then the loop from the back.\<close>

function expand_matches :: "'a list \<Rightarrow> 'a list \<Rightarrow> nat \<Rightarrow> nat \<Rightarrow> nat \<Rightarrow> nat \<times> nat" where
  "expand_matches find_this str expansion final_length offset =
     (if find_this = [] then (final_length, offset)
      else let final1 = final_length + expansion
        in case str_find str find_this (offset + length find_this) of
             None \<Rightarrow> (final1, offset)
           | Some next_offset \<Rightarrow> expand_matches find_this str expansion final1 next_offset)"
  by pat_completeness auto

termination
proof (relation "measure (\<lambda>(_, str, _, _, offset). length str - offset)")
  fix f str :: "'a list" and e n final offset k :: nat
  assume "f \<noteq> []" "str_find str f (offset + length f) = Some k"
  moreover from this have "offset + length f \<le> k" "k + length f \<le> length str" "0 < length f"
    by (auto dest: str_find_bound)
  ultimately have "length str - k < length str - offset" by arith
  then show "((f, str, e, n, k), f, str, e, final, offset) \<in> measure (\<lambda>(_, str, _, _, offset). length str - offset)"
    by simp
qed simp

text \<open>
  The loop from the back. Every match lies below the one before, so it ends. Two of its failures are
  one pass ahead of the code: from match position 0 the code searches backwards from \<^verbatim>\<open>npos\<close>, and a
  \<^verbatim>\<open>rfind\<close> that finds nothing makes \<^verbatim>\<open>npos\<close> the match, hence \<^verbatim>\<open>prev_match\<close> one pass later. In both cases
  the next \<^verbatim>\<open>prev_match - read_offset\<close> is of the order of \<^verbatim>\<open>2^64\<close> and the \<^verbatim>\<open>memmove\<close> leaves the buffer.
\<close>

lemma str_rfind_le: "str_rfind str f pos = Some k \<Longrightarrow> k \<le> pos"
  by (induction pos) (auto split: if_splits)

function replace_expand ::
  "'a list \<Rightarrow> 'a list \<Rightarrow> nat \<Rightarrow> 'a list \<Rightarrow> nat \<Rightarrow> nat \<Rightarrow> nat \<Rightarrow> 'a list result"
where
  "replace_expand find_this replace_with first_match str current_match prev_match write_offset =
     (let read_offset = current_match + length find_this
      in if prev_match < read_offset \<or> write_offset < prev_match - read_offset then Inl out_of_bounds
         else
           let len = prev_match - read_offset;
               (str1, write1) = (if len \<noteq> 0 then (move str (write_offset - len) read_offset len, write_offset - len)
                                 else (str, write_offset))
           in if write1 < length replace_with then Inl out_of_bounds
              else
                let write2 = write1 - length replace_with;
                    str2 = str_replace str1 write2 (length replace_with) replace_with
                in if current_match = first_match then Inr str2
                   else if current_match = 0 then Inl out_of_bounds
                   else case str_rfind str2 find_this (current_match - 1) of
                          None \<Rightarrow> Inl out_of_bounds
                        | Some next_match \<Rightarrow>
                            replace_expand find_this replace_with first_match str2 next_match current_match write2)"
  by pat_completeness auto

termination
  by (relation "measure (\<lambda>(_, _, _, _, current_match, _, _). current_match)") (auto dest!: str_rfind_le)

text \<open>\<open>nul\<close> is the character that \<^verbatim>\<open>resize\<close> appends.\<close>

definition DoReplaceSubstringsAfterOffset ::
  "'a \<Rightarrow> 'a list \<Rightarrow> nat \<Rightarrow> 'a list \<Rightarrow> 'a list \<Rightarrow> bool \<Rightarrow> 'a list result"
where
  "DoReplaceSubstringsAfterOffset nul str start_offset find_this replace_with replace_all =
     require (find_this \<noteq> []) empty_find
       (case str_find str find_this start_offset of
          None \<Rightarrow> Inr str
        | Some offset \<Rightarrow>
            let find_length = length find_this; replace_length = length replace_with; str_length = length str
            in if \<not> replace_all then Inr (str_replace str offset find_length replace_with)
               else if find_length = replace_length then replace_same find_this replace_with str offset
               else if find_length > replace_length then
                 replace_shrink find_this replace_with str_length str offset offset
               else
                 let (final_length, current_match) =
                       expand_matches find_this str (replace_length - find_length) str_length offset;
                     str1 = str @ replicate (final_length - str_length) nul
                 in replace_expand find_this replace_with offset str1 current_match str_length final_length)"

definition ReplaceFirstSubstringAfterOffset ::
  "'a \<Rightarrow> 'a list \<Rightarrow> nat \<Rightarrow> 'a list \<Rightarrow> 'a list \<Rightarrow> 'a list result"
where
  "ReplaceFirstSubstringAfterOffset nul str start_offset find_this replace_with =
     DoReplaceSubstringsAfterOffset nul str start_offset find_this replace_with False"

definition ReplaceSubstringsAfterOffset ::
  "'a \<Rightarrow> 'a list \<Rightarrow> nat \<Rightarrow> 'a list \<Rightarrow> 'a list \<Rightarrow> 'a list result"
where
  "ReplaceSubstringsAfterOffset nul str start_offset find_this replace_with =
     DoReplaceSubstringsAfterOffset nul str start_offset find_this replace_with True"

declare replace_same.simps [simp del] replace_shrink.simps [simp del] expand_matches.simps [simp del]
  replace_expand.simps [simp del]

subsection \<open>The specification\<close>

text \<open>Left to right, without overlaps.\<close>

function replace_ref :: "'a list \<Rightarrow> 'a list \<Rightarrow> 'a list \<Rightarrow> 'a list" where
  "replace_ref f r xs = (if f = [] then xs else case find_sub f xs of None \<Rightarrow> xs
     | Some i \<Rightarrow> take i xs @ r @ replace_ref f r (drop (i + length f) xs))"
  by pat_completeness auto

termination
proof (relation "measure (\<lambda>(_, _, xs). length xs)")
  fix f r xs :: "'a list" and i
  assume *: "f \<noteq> []" "find_sub f xs = Some i"
  then have "i + length f \<le> length xs" "0 < length f" by (auto dest: find_sub_bound)
  then have "length xs - (i + length f) < length xs" by arith
  then show "((f, r, drop (i + length f) xs), f, r, xs) \<in> measure (\<lambda>(_, _, xs). length xs)" by simp
qed simp

declare replace_ref.simps [simp del]

lemma replace_ref_find:
  "f \<noteq> [] \<Longrightarrow> pos \<le> length str \<Longrightarrow> replace_ref f r (drop pos str) =
    (case str_find str f pos of None \<Rightarrow> drop pos str
     | Some k \<Rightarrow> substr str pos (k - pos) @ r @ replace_ref f r (drop (k + length f) str))"
  by (subst replace_ref.simps)
    (auto simp: str_find_def substr_def add_ac split: option.splits)


lemma str_replace_Nil [simp]: "str_replace str w 0 [] = str"
  by (simp add: str_replace_def)

lemma move_0 [simp]: "move str to from 0 = str"
  by (simp add: move_def substr_def)

lemma length_substr: "i + n \<le> length str \<Longrightarrow> length (substr str i n) = n"
  by (simp add: substr_def)

lemma move_facts:
  assumes "to \<le> from" "from + n \<le> length str"
  shows "length (move str to from n) = length str" "take (to + n) (move str to from n) = take to str @ substr str from n"
    "to + n \<le> j \<Longrightarrow> drop j (move str to from n) = drop j str" "take to (move str to from n) = take to str"
    "drop to (move str to from n) = substr str from n @ drop (to + n) str"
proof -
  have l: "length (take to str) = to" "length (substr str from n) = n" using assms by (simp_all add: substr_def)
  show "length (move str to from n) = length str" using assms l by (simp add: move_def)
  show "take (to + n) (move str to from n) = take to str @ substr str from n" using l by (simp add: move_def)
  show "take to (move str to from n) = take to str" using l by (simp add: move_def)
  show "drop to (move str to from n) = substr str from n @ drop (to + n) str" using l by (simp add: move_def)
  assume "to + n \<le> j"
  then show "drop j (move str to from n) = drop j str" using l by (simp add: move_def)
qed

lemma str_find_cong: "drop pos str = drop pos str' \<Longrightarrow> length str = length str' \<Longrightarrow> str_find str f pos = str_find str' f pos"
  by (simp add: str_find_def)

subsection \<open>Equal length\<close>

lemma replace_same_ok:
  assumes "f \<noteq> []" "length r = length f" "offset + length f \<le> length str"
  shows "replace_same f r str offset = Inr (take offset str @ r @ replace_ref f r (drop (offset + length f) str))"
  using assms
proof (induction f r str offset rule: replace_same.induct)
  case (1 f r str offset)
  let ?str = "str_replace str offset (length f) r" let ?p = "offset + length f"
  have l: "length ?str = length str" "drop ?p ?str = drop ?p str" "take ?p ?str = take offset str @ r"
    using "1.prems" by (simp_all add: str_replace_def)
  then have d: "drop j ?str = drop j str" if "?p \<le> j" for j
    using that by (metis drop_drop le_add_diff_inverse2)
  have ref: "replace_ref f r (drop ?p str) = (case str_find ?str f ?p of None \<Rightarrow> drop ?p str
     | Some k \<Rightarrow> substr ?str ?p (k - ?p) @ r @ replace_ref f r (drop (k + length f) ?str))"
    using replace_ref_find [of f ?p ?str r] "1.prems" l by (simp cong: option.case_cong)
  show ?case
  proof (cases "str_find ?str f ?p")
    case None
    then show ?thesis using "1.prems" ref
      by (subst replace_same.simps) (simp add: Let_def str_replace_def)
  next
    case (Some k)
    then have k: "?p \<le> k" "k + length f \<le> length ?str" by (auto dest: str_find_bound)
    have "take k ?str = take ?p ?str @ substr ?str ?p (k - ?p)"
      using k(1) by (metis substr_def le_add_diff_inverse take_add)
    then show ?thesis using "1.prems" "1.IH" [OF _ refl] Some k ref l(3)
      by (subst replace_same.simps) (simp add: Let_def)
  qed
qed

subsection \<open>Shortening\<close>

lemma replace_shrink_ok:
  assumes "f \<noteq> []" "length r < length f" "length str = n" "offset + length f \<le> n" "w \<le> offset"
  shows "replace_shrink f r n str w offset = Inr (take w str @ r @ replace_ref f r (drop (offset + length f) str))"
  using assms
proof (induction "n - offset" arbitrary: str w offset rule: less_induct)
  case less
  note prems = less.prems
  let ?str1 = "str_replace str w (length r) r" let ?w1 = "w + length r" let ?p = "offset + length f"
  have 1: "(if length r \<noteq> 0 then (?str1, ?w1) else (str, w)) = (?str1, ?w1)" by auto
  have l1: "length ?str1 = n" "drop ?p ?str1 = drop ?p str" "take ?w1 ?str1 = take w str @ r" "?w1 \<le> ?p"
    using prems by (simp_all add: str_replace_def)
  have ref: "replace_ref f r (drop ?p str) = (case str_find ?str1 f ?p of None \<Rightarrow> drop ?p ?str1
     | Some k \<Rightarrow> substr ?str1 ?p (k - ?p) @ r @ replace_ref f r (drop (k + length f) ?str1))"
    using replace_ref_find [of f ?p ?str1 r] prems l1 by (simp cong: option.case_cong)
  define k where "k = (case str_find ?str1 f ?p of None \<Rightarrow> n | Some k \<Rightarrow> min k n)"
  have k: "?p \<le> k" "k \<le> n" using prems by (auto simp: k_def split: option.splits dest: str_find_bound)
  let ?str2 = "move ?str1 ?w1 ?p (k - ?p)" let ?w2 = "?w1 + (k - ?p)"
  have 2: "(if k - ?p \<noteq> 0 then (?str2, ?w2) else (?str1, ?w1)) = (?str2, ?w2)" by auto
  have l2: "length ?str2 = n" "take ?w2 ?str2 = take w str @ r @ substr ?str1 ?p (k - ?p)" "drop k ?str2 = drop k ?str1" "?w2 \<le> k"
  proof -
    have p: "?w1 \<le> ?p" "?p + (k - ?p) \<le> length ?str1" using k l1 by simp_all
    note m = move_facts [OF p]
    show "length ?str2 = n" using m(1) l1(1) by simp
    show "take ?w2 ?str2 = take w str @ r @ substr ?str1 ?p (k - ?p)" using m(2) l1(3) by (simp only: append_assoc)
    show "?w2 \<le> k" using k l1(4) by simp
    then show "drop k ?str2 = drop k ?str1" by (rule m(3))
  qed
  have step: "replace_shrink f r n str w offset =
      (if k < n then replace_shrink f r n ?str2 ?w2 k else Inr (take ?w2 ?str2))"
  proof -
    have "(f = []) = False" "(k < ?p) = False" using prems k by simp_all
    then show ?thesis
      by (subst replace_shrink.simps) (simp only: Let_def 1 prod.case k_def [symmetric] 2 if_False)
  qed
  show ?case
  proof (cases "str_find ?str1 f ?p")
    case None
    then have "k = n" by (simp add: k_def)
    then show ?thesis using None ref l2(2) l1 prems(3) by (simp add: step substr_def)
  next
    case (Some j)
    then have "k = j" "j + length f \<le> n" "0 < length f"
      using prems l1(1) str_find_bound [OF Some] by (auto simp: k_def)
    then have j: "k = j" "k + length f \<le> n" "k < n" by linarith+
    have "n - k < n - offset" using k(1) j(3) \<open>0 < length f\<close> by arith
    then have "replace_shrink f r n ?str2 ?w2 k = Inr (take ?w2 ?str2 @ r @ replace_ref f r (drop (k + length f) ?str2))"
      using less.hyps prems j l2 by simp
    moreover have "drop (k + length f) ?str2 = drop (k + length f) ?str1"
      using l2(3) by (metis drop_drop add.commute)
    ultimately show ?thesis using Some j ref l2(2) by (simp add: step)
  qed
qed


subsection \<open>Lengthening\<close>

definition occ :: "'a list \<Rightarrow> 'a list \<Rightarrow> nat \<Rightarrow> bool" where
  "occ f s q \<longleftrightarrow> take (length f) (drop q s) = f"

lemma occ_bound:
  assumes "occ f s q" "f \<noteq> []"
  shows "q + length f \<le> length s"
proof -
  have "length (take (length f) (drop q s)) = length f" using assms(1) by (simp add: occ_def)
  moreover have "0 < length f" using assms(2) by simp
  ultimately show ?thesis unfolding length_take length_drop by arith
qed

lemma occ_nth:
  assumes "occ f s q" "j < length f"
  shows "s ! (q + j) = f ! j"
proof -
  have "f \<noteq> []" using assms(2) by auto
  then have "q + length f \<le> length s" using occ_bound assms(1) by blast
  moreover have "take (length f) (drop q s) ! j = f ! j" using assms(1) by (simp add: occ_def)
  ultimately show ?thesis using assms(2) by (simp add: add.commute)
qed

lemma occ_take:
  assumes "q + length f \<le> n" "take n s = take n s'"
  shows "occ f s q \<longleftrightarrow> occ f s' q"
proof -
  have "take (length f) (drop q t) = take (length f) (drop q (take n t))" for t :: "'a list"
    using assms(1) by (simp add: drop_take min_absorb1)
  then show ?thesis using assms(2) by (metis occ_def)
qed

lemma str_find_Some:
  "f \<noteq> [] \<Longrightarrow> str_find s f pos = Some k \<Longrightarrow> pos \<le> k \<and> occ f s k \<and> (\<forall>q. pos \<le> q \<longrightarrow> q < k \<longrightarrow> \<not> occ f s q)"
proof -
  assume f: "f \<noteq> []" "str_find s f pos = Some k"
  then obtain i where i: "k = pos + i" "find_sub f (drop pos s) = Some i" by (auto simp: str_find_def split: if_splits)
  have "\<not> occ f s q" if "pos \<le> q" "q < k" for q
    using i find_sub_Some [OF f(1), of "drop pos s" i] that by (auto simp: occ_def dest!: spec [of _ "q - pos"])
  moreover have "occ f s k" using i find_sub_Some [OF f(1), of "drop pos s" i] by (simp add: occ_def add.commute)
  ultimately show ?thesis using i(1) by auto
qed

lemma str_rfind_Some:
  "f \<noteq> [] \<Longrightarrow> k \<le> pos \<Longrightarrow> occ f s k \<Longrightarrow> \<forall>q. k < q \<longrightarrow> q \<le> pos \<longrightarrow> \<not> occ f s q \<Longrightarrow> str_rfind s f pos = Some k"
proof (induction pos)
  case (Suc pos)
  show ?case
  proof (cases "k = Suc pos")
    case True
    then show ?thesis using Suc.prems occ_bound [of f s k] by (simp add: occ_def)
  next
    case False
    then show ?thesis using Suc by (auto simp: occ_def)
  qed
qed (simp add: occ_def)

text \<open>The matches from left to right, and what lies between them.\<close>

function matches :: "'a list \<Rightarrow> 'a list \<Rightarrow> nat \<Rightarrow> nat list" where
  "matches f str pos = (if f = [] then [] else case str_find str f pos of None \<Rightarrow> []
     | Some k \<Rightarrow> k # matches f str (k + length f))"
  by pat_completeness auto

termination
proof (relation "measure (\<lambda>(_, str, pos). Suc (length str) - pos)")
  fix f str :: "'a list" and pos k
  assume *: "f \<noteq> []" "str_find str f pos = Some k"
  then have "pos \<le> k" "k + length f \<le> length str" "0 < length f" by (auto dest: str_find_bound)
  then have "Suc (length str) - (k + length f) < Suc (length str) - pos" by arith
  then show "((f, str, k + length f), f, str, pos) \<in> measure (\<lambda>(_, str, pos). Suc (length str) - pos)" by simp
qed simp

declare matches.simps [simp del]

fun render :: "'a list \<Rightarrow> nat \<Rightarrow> 'a list \<Rightarrow> nat \<Rightarrow> nat list \<Rightarrow> 'a list" where
  "render r fl str pos [] = drop pos str"
| "render r fl str pos (m # ms) = substr str pos (m - pos) @ r @ render r fl str (m + fl) ms"

lemma render_matches:
  "f \<noteq> [] \<Longrightarrow> pos \<le> length str \<Longrightarrow> render r (length f) str pos (matches f str pos) = replace_ref f r (drop pos str)"
proof (induction f str pos rule: matches.induct)
  case (1 f str pos)
  show ?case
  proof (cases "str_find str f pos")
    case None
    then show ?thesis using "1.prems" by (simp add: matches.simps replace_ref_find)
  next
    case (Some k)
    then have "k + length f \<le> length str" by (auto dest: str_find_bound)
    then show ?thesis using "1.prems" "1.IH" [OF _ Some] Some by (simp add: matches.simps [of f str pos] replace_ref_find)
  qed
qed

lemma expand_matches_eq:
  "f \<noteq> [] \<Longrightarrow> expand_matches f str e n off =
     (n + e * Suc (length (matches f str (off + length f))), last (off # matches f str (off + length f)))"
proof (induction f str e n off rule: expand_matches.induct)
  case (1 f str e n off)
  show ?case
  proof (cases "str_find str f (off + length f)")
    case None
    then show ?thesis using "1.prems" by (subst expand_matches.simps) (simp add: matches.simps Let_def)
  next
    case (Some k)
    then show ?thesis using "1.prems" "1.IH" [OF _ refl Some]
      by (subst expand_matches.simps) (simp add: matches.simps [of f str "off + length f"] Let_def)
  qed
qed

definition linked :: "'a list \<Rightarrow> 'a list \<Rightarrow> nat \<Rightarrow> nat \<Rightarrow> bool" where
  "linked f s x m \<longleftrightarrow> x + length f \<le> m \<and> occ f s x \<and> occ f s m \<and>
     (\<forall>q. x + length f \<le> q \<longrightarrow> q < m \<longrightarrow> \<not> occ f s q)"

lemma matches_linked:
  "f \<noteq> [] \<Longrightarrow> occ f s off \<Longrightarrow> successively (linked f s) (off # matches f s (off + length f))"
proof (induction "length s - off" arbitrary: off rule: less_induct)
  case less
  show ?case
  proof (cases "str_find s f (off + length f)")
    case None
    then show ?thesis using less.prems by (simp add: matches.simps)
  next
    case (Some k)
    then have k: "off + length f \<le> k" "occ f s k" "\<forall>q. off + length f \<le> q \<longrightarrow> q < k \<longrightarrow> \<not> occ f s q" "0 < length f"
      using less.prems str_find_Some [OF _ Some] by auto
    have "k + length f \<le> length s" using k(2) less.prems(1) by (rule occ_bound)
    then have "length s - k < length s - off" using k(1,4) by arith
    then have "successively (linked f s) (k # matches f s (k + length f))" using less k(2) by simp
    moreover have "linked f s off k" using k less.prems by (simp add: linked_def)
    ultimately show ?thesis using Some less.prems by (simp add: matches.simps [of f s "off + length f"])
  qed
qed

fun body :: "'a list \<Rightarrow> nat \<Rightarrow> 'a list \<Rightarrow> nat list \<Rightarrow> nat \<Rightarrow> 'a list" where
  "body r fl s [] prev = []"
| "body r fl s (m # ms) prev = r @ substr s (m + fl) ((case ms of [] \<Rightarrow> prev | m' # _ \<Rightarrow> m') - (m + fl)) @ body r fl s ms prev"

lemma body_snoc: "body r fl s (xs @ [m]) prev = body r fl s xs m @ r @ substr s (m + fl) (prev - (m + fl))"
  by (induction xs) (auto split: list.splits simp: Cons_eq_append_conv append_eq_Cons_conv)

lemma body_render: "body r fl s (m # ms) (length s) = r @ render r fl s (m + fl) ms"
  by (induction ms arbitrary: m) (auto simp: substr_def)


text \<open>One pass of the loop from the back, without the tests that it passes.\<close>

lemma replace_expand_step:
  assumes "m + length f \<le> prev" "prev \<le> w" "w \<le> length str" "prev - (m + length f) + length r \<le> w"
    and "w2 = w - (prev - (m + length f)) - length r"
    and "take prev str = take prev orig"
  obtains str2 where "length str2 = length str" "take w2 str2 = take w2 str"
    "drop w2 str2 = r @ substr orig (m + length f) (prev - (m + length f)) @ drop w str"
    "replace_expand f r first str m prev w =
      (if m = first then Inr str2 else if m = 0 then Inl out_of_bounds
       else case str_rfind str2 f (m - 1) of None \<Rightarrow> Inl out_of_bounds
         | Some next_match \<Rightarrow> replace_expand f r first str2 next_match m w2)"
proof -
  let ?p = "m + length f" let ?len = "prev - ?p" let ?w1 = "w - ?len"
  let ?X = "substr orig ?p ?len"
  let ?str1 = "move str ?w1 ?p ?len" let ?str2 = "str_replace ?str1 w2 (length r) r"
  have x: "substr str ?p ?len = ?X"
  proof -
    have "substr t ?p ?len = drop ?p (take prev t)" for t :: "'a list"
      using assms(1) by (simp add: substr_def drop_take)
    then show ?thesis using assms(6) by simp
  qed
  have lx: "length ?X = ?len" unfolding x [symmetric] using assms(1-3) by (intro length_substr) simp
  have s1: "?str1 = take ?w1 str @ ?X @ drop w str" using assms(1,2) by (simp add: move_def x)
  have lw: "length (take ?w1 str) = ?w1" using assms(3) by simp
  have w2: "w2 + length r = ?w1" using assms(4,5) by simp
  have s2: "?str2 = take w2 str @ r @ ?X @ drop w str"
  proof -
    have "take w2 ?str1 = take w2 str" unfolding s1 using w2 lw by (simp add: min_absorb1)
    moreover have "drop ?w1 ?str1 = ?X @ drop w str" unfolding s1 using lw by simp
    ultimately show ?thesis by (simp add: str_replace_def w2)
  qed
  have "length (take w2 str) = w2" using w2 assms(3) by simp
  then have "length ?str2 = length str" "take w2 ?str2 = take w2 str" "drop w2 ?str2 = r @ ?X @ drop w str"
    unfolding s2 using w2 lx assms(1-4) by simp_all
  moreover have "replace_expand f r first str m prev w =
      (if m = first then Inr ?str2 else if m = 0 then Inl out_of_bounds
       else case str_rfind ?str2 f (m - 1) of None \<Rightarrow> Inl out_of_bounds
         | Some next_match \<Rightarrow> replace_expand f r first ?str2 next_match m w2)"
  proof -
    have 1: "(if ?len \<noteq> 0 then (?str1, ?w1) else (str, w)) = (?str1, ?w1)" by auto
    have "(prev < ?p \<or> w < ?len) = False" "(?w1 < length r) = False" using assms(1,2) w2 by auto
    moreover have "?w1 - length r = w2" using assms(5) by simp
    ultimately show ?thesis
      by (subst replace_expand.simps) (simp only: Let_def 1 prod.case if_False)
  qed
  ultimately show ?thesis by (rule that)
qed

text \<open>
  The match before \<open>m\<close> is the last one below it, provided the pattern's first character does not
  occur in it again: otherwise a replacement already written just above \<open>m\<close> may complete a match that
  was not there, or matches may overlap.
\<close>

lemma rfind_previous:
  assumes "f \<noteq> []" "hd f \<notin> set (tl f)" "linked f orig x m" "take (Suc m) s = take (Suc m) orig"
  shows "str_rfind s f (m - 1) = Some x"
proof -
  have l: "x + length f \<le> m" "occ f orig x" "occ f orig m" "\<And>q. x + length f \<le> q \<Longrightarrow> q < m \<Longrightarrow> \<not> occ f orig q"
    using assms(3) by (auto simp: linked_def)
  have f: "0 < length f" "hd f = f ! 0" using assms(1) by (simp_all add: hd_conv_nth)
  have same: "s ! q = orig ! q" if "q \<le> m" for q
    using assms(4) that by (metis less_Suc_eq_le nth_take)
  have other: "f ! j \<noteq> hd f" if "0 < j" "j < length f" for j
  proof -
    have "f ! j = tl f ! (j - 1)" "j - 1 < length (tl f)" using that assms(1) by (auto simp: nth_tl)
    then show ?thesis using assms(2) by (metis nth_mem)
  qed
  have "\<not> occ f s q" if q: "x < q" "q \<le> m - 1" for q
  proof
    assume o: "occ f s q"
    have qm: "q < m" using q l(1) f(1) by simp
    have first: "s ! q = hd f" using occ_nth [OF o f(1)] f(2) by simp
    consider "q < x + length f" | "x + length f \<le> q" "q + length f \<le> m" | "q < m" "m < q + length f" using qm by linarith
    then show False
    proof cases
      case 1
      then have "orig ! q = f ! (q - x)" using occ_nth [OF l(2), of "q - x"] q(1) by simp
      moreover have "f ! (q - x) \<noteq> hd f" using other 1 q(1) by simp
      ultimately show False using first same [of q] qm by simp
    next
      case 2
      have "occ f s q \<longleftrightarrow> occ f orig q" by (rule occ_take [of q f "Suc m"]) (use 2 assms(4) in auto)
      then show False using o l(4) [OF 2(1) qm] by simp
    next
      case 3
      then have "s ! m = f ! (m - q)" using occ_nth [OF o, of "m - q"] by simp
      moreover have "f ! (m - q) \<noteq> hd f" using other 3 by simp
      moreover have "orig ! m = hd f" using occ_nth [OF l(3) f(1)] f(2) by simp
      ultimately show False using same [of m] by simp
    qed
  qed
  moreover have "occ f s x" using occ_take [of x f "Suc m" s orig] l(1,2) assms(4) by simp
  moreover have "x \<le> m - 1" using l(1) f(1) by linarith
  ultimately show ?thesis using str_rfind_Some [OF assms(1)] by blast
qed

lemma take_agree: "take n xs = take n ys \<Longrightarrow> k \<le> n \<Longrightarrow> take k xs = take k ys"
proof -
  assume "take n xs = take n ys"
  then have "take k (take n xs) = take k (take n ys)" by simp
  then show "k \<le> n \<Longrightarrow> take k xs = take k ys" by (simp add: min_absorb1)
qed

lemma linked_le: "successively (linked f s) (y # ys) \<Longrightarrow> i \<in> set ys \<Longrightarrow> y \<le> i"
proof (induction ys arbitrary: y)
  case (Cons z zs)
  then have "y \<le> z" "successively (linked f s) (z # zs)" by (simp_all add: linked_def)
  then show ?case using Cons.IH [of z] Cons.prems(2) by auto
qed simp

lemma replace_expand_ok:
  assumes "f \<noteq> []" "hd f \<notin> set (tl f)" "length r = length f + e" "0 < e"
    and "successively (linked f orig) (xs @ [m])" "hd (xs @ [m]) = first" "m + length f \<le> prev" "prev \<le> length orig"
    and "w = prev + e * Suc (length xs)" "w \<le> length str" "take prev str = take prev orig"
  shows "replace_expand f r first str m prev w =
    Inr (take first orig @ body r (length f) orig (xs @ [m]) prev @ drop w str)"
  using assms(5-)
proof (induction xs arbitrary: m prev w str rule: rev_induct)
  case Nil
  have "m = first" using Nil.prems by simp
  let ?w2 = "w - (prev - (m + length f)) - length r"
  have w2: "?w2 = m" "prev - (m + length f) + length r \<le> w" "prev \<le> w" using Nil.prems assms(3) by auto
  obtain str2 where s: "length str2 = length str" "take ?w2 str2 = take ?w2 str"
    "drop ?w2 str2 = r @ substr orig (m + length f) (prev - (m + length f)) @ drop w str"
    "replace_expand f r first str m prev w = (if m = first then Inr str2 else if m = 0 then Inl out_of_bounds
       else case str_rfind str2 f (m - 1) of None \<Rightarrow> Inl out_of_bounds
         | Some next_match \<Rightarrow> replace_expand f r first str2 next_match m ?w2)"
    using replace_expand_step [OF Nil.prems(3) w2(3) Nil.prems(6) w2(2) refl Nil.prems(7)] by blast
  have "take m str = take m orig" using Nil.prems(3,7) by (metis add_leD1 min.absorb1 take_take)
  then have "str2 = take m orig @ r @ substr orig (m + length f) (prev - (m + length f)) @ drop w str"
    using s(2,3) w2(1) by (metis append_take_drop_id)
  then show ?case using s(4) \<open>m = first\<close> by simp
next
  case (snoc x xs)
  let ?w2 = "w - (prev - (m + length f)) - length r"
  have link: "linked f orig x m" "successively (linked f orig) (xs @ [x])" "hd (xs @ [x]) = first"
    using snoc.prems(1,2) by (simp_all add: successively_append_iff) (cases xs; simp)
  then have x: "x + length f \<le> m" by (simp add: linked_def)
  have w2: "?w2 = m + e * Suc (length xs)" "prev - (m + length f) + length r \<le> w" "prev \<le> w"
    using snoc.prems(3,5) assms(3) by (auto simp: algebra_simps)
  obtain str2 where s: "length str2 = length str" "take ?w2 str2 = take ?w2 str"
    "drop ?w2 str2 = r @ substr orig (m + length f) (prev - (m + length f)) @ drop w str"
    "replace_expand f r first str m prev w = (if m = first then Inr str2 else if m = 0 then Inl out_of_bounds
       else case str_rfind str2 f (m - 1) of None \<Rightarrow> Inl out_of_bounds
         | Some next_match \<Rightarrow> replace_expand f r first str2 next_match m ?w2)"
    using replace_expand_step [OF snoc.prems(3) w2(3) snoc.prems(6) w2(2) refl snoc.prems(7)] by blast
  have m: "Suc m \<le> prev" "Suc m \<le> ?w2" "m \<le> ?w2"
  proof -
    have "0 < length f" "0 < e * Suc (length xs)" using assms(1,4) by simp_all
    then show "Suc m \<le> prev" "Suc m \<le> ?w2" "m \<le> ?w2" using snoc.prems(3) unfolding w2(1) by linarith+
  qed
  have "take k str2 = take k orig" if "k \<le> Suc m" for k
  proof -
    have "take k str2 = take k str" using s(2) by (rule take_agree) (use m(2) that in simp)
    moreover have "take k str = take k orig" using snoc.prems(7) by (rule take_agree) (use m(1) that in simp)
    ultimately show ?thesis by simp
  qed
  then have t: "take (Suc m) str2 = take (Suc m) orig" "take m str2 = take m orig" by simp_all
  have "first \<le> x"
  proof (cases xs)
    case (Cons y ys)
    then have "successively (linked f orig) (y # ys @ [x])" "first = y" using link(2,3) by simp_all
    then show ?thesis using linked_le [of f orig y "ys @ [x]" x] by simp
  qed (use link(3) in simp)
  moreover have "0 < length f" using assms(1) by simp
  ultimately have "m \<noteq> first" "m \<noteq> 0" using x by linarith+
  then have "replace_expand f r first str m prev w = replace_expand f r first str2 x m ?w2"
    using s(4) rfind_previous [OF assms(1,2) link(1) t(1)] by simp
  also have "\<dots> = Inr (take first orig @ body r (length f) orig (xs @ [x]) m @ drop ?w2 str2)"
    using snoc.IH [OF link(2,3) x _ w2(1)] snoc.prems(3,4,6) s(1) t(2) by simp
  finally show ?case using s(3) body_snoc [of r "length f" orig "xs @ [x]" m prev] by simp
qed

lemma replace_all_lengthening:
  assumes "f \<noteq> []" "hd f \<notin> set (tl f)" "length f < length r" "str_find str f off = Some k"
  shows "ReplaceSubstringsAfterOffset nul str off f r = Inr (take k str @ r @ replace_ref f r (drop (k + length f) str))"
proof -
  let ?e = "length r - length f" and ?ms = "matches f str (k + length f)"
  let ?str1 = "str @ replicate (?e * Suc (length ?ms)) nul"
  obtain xs m where xm: "k # ?ms = xs @ [m]" by (metis append_butlast_last_id list.distinct(1))
  then have hl: "hd (xs @ [m]) = k" "last (k # ?ms) = m" "length xs = length ?ms"
    by (metis list.sel(1), simp, metis length_Cons length_append_singleton nat.inject)
  have occ: "occ f str k" using str_find_Some [OF assms(1,4)] by simp
  have linked: "successively (linked f str) (xs @ [m])" using matches_linked [OF assms(1) occ] xm by simp
  have "k + length f \<le> length str" using occ assms(1) by (rule occ_bound)
  have "occ f str m"
  proof (cases xs rule: rev_cases)
    case Nil
    then show ?thesis using hl(1) occ by simp
  next
    case (snoc ys y)
    then show ?thesis using linked by (simp add: successively_append_iff linked_def)
  qed
  then have m: "m + length f \<le> length str" using assms(1) by (rule occ_bound)
  have "replace_expand f r k ?str1 m (length str) (length str + ?e * Suc (length xs)) =
      Inr (take k str @ body r (length f) str (xs @ [m]) (length str) @ drop (length str + ?e * Suc (length xs)) ?str1)"
    by (rule replace_expand_ok [OF assms(1,2) _ _ linked hl(1) m, where e = ?e]) (use assms(3) hl(3) in auto)
  also have "body r (length f) str (xs @ [m]) (length str) = r @ replace_ref f r (drop (k + length f) str)"
    using body_render [of r "length f" str k ?ms] render_matches [OF assms(1)] \<open>k + length f \<le> length str\<close> xm by simp
  finally show ?thesis
    using assms hl(2,3) expand_matches_eq [OF assms(1), of str ?e "length str" k]
    by (simp add: ReplaceSubstringsAfterOffset_def DoReplaceSubstringsAfterOffset_def)
qed

text \<open>
  C27: replacing all occurrences from an offset gives the plain left-to-right replacement and never
  writes outside the string, when the replacement is not longer than the pattern, or the pattern's
  first character does not occur in it again; replacing the first occurrence always gives what it
  says. Without the condition the search from the back finds other matches than the search from the
  front: with \<^verbatim>\<open>aa\<close> and \<^verbatim>\<open>aab\<close> there are strings on which the code leaves the buffer.
\<close>

theorem replace_substrings_correct:
  assumes "f \<noteq> []" "length r \<le> length f \<or> hd f \<notin> set (tl f)"
  shows "ReplaceSubstringsAfterOffset nul str off f r = Inr (take off str @ replace_ref f r (drop off str)) \<and>
    ReplaceFirstSubstringAfterOffset nul str off f r =
      Inr (case str_find str f off of None \<Rightarrow> str | Some k \<Rightarrow> take k str @ r @ drop (k + length f) str) \<and>
    ReplaceSubstringsAfterOffset CHR 0x00 ''aaaaa'' 0 ''aa'' ''bbb'' = Inl out_of_bounds \<and>
    ReplaceSubstringsAfterOffset CHR 0x00 ''aabaaab'' 0 ''aab'' ''bxxx'' = Inl out_of_bounds"
proof (intro conjI)
  show "ReplaceSubstringsAfterOffset nul str off f r = Inr (take off str @ replace_ref f r (drop off str))"
  proof (cases "str_find str f off")
    case None
    have "replace_ref f r (drop off str) = drop off str"
    proof (cases "off \<le> length str")
      case True
      then show ?thesis using None assms(1) by (simp add: replace_ref_find)
    qed (simp add: replace_ref.simps)
    then show ?thesis using None assms(1)
      by (simp add: ReplaceSubstringsAfterOffset_def DoReplaceSubstringsAfterOffset_def)
  next
    case (Some k)
    then have k: "off \<le> k" "k + length f \<le> length str" by (auto dest: str_find_bound)
    have "take k str = take off str @ substr str off (k - off)"
      using k(1) by (metis substr_def le_add_diff_inverse take_add)
    then have "take off str @ replace_ref f r (drop off str) = take k str @ r @ replace_ref f r (drop (k + length f) str)"
      using assms(1) k Some by (simp add: replace_ref_find)
    moreover have "ReplaceSubstringsAfterOffset nul str off f r = Inr (take k str @ r @ replace_ref f r (drop (k + length f) str))"
    proof (cases "length f < length r")
      case True
      then show ?thesis using replace_all_lengthening assms Some by auto
    next
      case False
      then show ?thesis
        using assms(1) Some k replace_same_ok [of f r k str] replace_shrink_ok [of f r str _ k k]
        by (cases "length r = length f") (simp_all add: Let_def ReplaceSubstringsAfterOffset_def DoReplaceSubstringsAfterOffset_def)
    qed
    ultimately show ?thesis by simp
  qed
  show "ReplaceFirstSubstringAfterOffset nul str off f r =
      Inr (case str_find str f off of None \<Rightarrow> str | Some k \<Rightarrow> take k str @ r @ drop (k + length f) str)"
    using assms(1) by (simp add: ReplaceFirstSubstringAfterOffset_def DoReplaceSubstringsAfterOffset_def
        str_replace_def split: option.split)
  show "ReplaceSubstringsAfterOffset CHR 0x00 ''aaaaa'' 0 ''aa'' ''bbb'' = Inl out_of_bounds"
    "ReplaceSubstringsAfterOffset CHR 0x00 ''aabaaab'' 0 ''aab'' ''bxxx'' = Inl out_of_bounds"
    by code_simp+
qed

theorem replace_substrings_correct_witness:
  "ReplaceSubstringsAfterOffset CHR 0x00 ''a%sb%sc'' 2 ''%s'' ''xyz'' = Inr ''a%sbxyzc'' \<and>
   ReplaceFirstSubstringAfterOffset CHR 0x00 ''a%sb%sc'' 0 ''%s'' ''xyz'' = Inr ''axyzb%sc''"
proof -
  have "take 2 ''a%sb%sc'' @ replace_ref ''%s'' ''xyz'' (drop 2 ''a%sb%sc'') = ''a%sbxyzc''"
    "(case str_find ''a%sb%sc'' ''%s'' 0 of None \<Rightarrow> ''a%sb%sc''
      | Some k \<Rightarrow> take k ''a%sb%sc'' @ ''xyz'' @ drop (k + length ''%s'') ''a%sb%sc'') = ''axyzb%sc''"
    by code_simp+
  then show ?thesis
    using replace_substrings_correct [of "''%s''" "''xyz''" "CHR 0x00" "''a%sb%sc''" 2]
      replace_substrings_correct [of "''%s''" "''xyz''" "CHR 0x00" "''a%sb%sc''" 0] by simp
qed

end
