(* ===== verification/String_Split.thy ===== *)
theory String_Split
  imports String_Util
begin

text \<open>
  Splitting strings: \<^verbatim>\<open>base/strings/string_split.cc\<close> and \<^verbatim>\<open>base/strings/string_tokenizer.h\<close>, compared
  with each other, with \<^verbatim>\<open>TokenizeT\<close> and with plain specifications.
\<close>

subsection \<open>Splitting at a character\<close>

text \<open>
  \<^verbatim>\<open>SplitStringT\<close>: the loop over \<open>i\<close> up to and including the length. The whitespace set is the one of
  the character type's \<^verbatim>\<open>TrimWhitespace\<close>.
\<close>

definition TrimAll :: "'a list \<Rightarrow> 'a list \<Rightarrow> 'a list" where
  "TrimAll whitespace str = fst (TrimStringT str whitespace TRIM_ALL)"

function SplitString_loop ::
  "'a list \<Rightarrow> 'a list \<Rightarrow> 'a \<Rightarrow> bool \<Rightarrow> nat \<Rightarrow> nat \<Rightarrow> 'a list list \<Rightarrow> 'a list list"
where
  "SplitString_loop whitespace str s trim_whitespace i start r =
     (if i > length str then r
      else if i = length str \<or> str ! i = s then
        let tmp = substr str start (i - start);
            tmp1 = (if trim_whitespace then TrimAll whitespace tmp else tmp);
            r1 = (if i \<noteq> length str \<or> r \<noteq> [] \<or> tmp1 \<noteq> [] then r @ [tmp1] else r)
        in SplitString_loop whitespace str s trim_whitespace (i + 1) (i + 1) r1
      else SplitString_loop whitespace str s trim_whitespace (i + 1) start r)"
  by pat_completeness auto

termination
  by (relation "measure (\<lambda>(_, str, _, _, i, _, _). Suc (length str) - i)") auto

declare SplitString_loop.simps [simp del]

definition SplitStringT :: "'a list \<Rightarrow> 'a list \<Rightarrow> 'a \<Rightarrow> bool \<Rightarrow> 'a list list" where
  "SplitStringT whitespace str s trim_whitespace = SplitString_loop whitespace str s trim_whitespace 0 0 []"

definition SplitString :: "'a list \<Rightarrow> 'a list \<Rightarrow> 'a \<Rightarrow> 'a list list" where
  "SplitString whitespace str c = SplitStringT whitespace str c True"

definition SplitStringDontTrim :: "'a list \<Rightarrow> 'a list \<Rightarrow> 'a \<Rightarrow> 'a list list" where
  "SplitStringDontTrim whitespace str c = SplitStringT whitespace str c False"

subsection \<open>Keys and values\<close>

definition SplitStringIntoKeyValue :: "'a list \<Rightarrow> 'a \<Rightarrow> bool \<times> 'a list \<times> 'a list" where
  "SplitStringIntoKeyValue line key_value_delimiter =
     (case find_first_of line [key_value_delimiter] 0 of
        None \<Rightarrow> (False, [], [])
      | Some end_key_pos \<Rightarrow>
          let key = substr line 0 end_key_pos;
              remains = substr line end_key_pos (length line - end_key_pos)
          in case find_first_not_of remains [key_value_delimiter] 0 of
               None \<Rightarrow> (False, key, [])
             | Some begin_value_pos \<Rightarrow> (True, key, substr remains begin_value_pos (length remains - begin_value_pos)))"

fun key_value_pairs :: "'a \<Rightarrow> 'a list list \<Rightarrow> bool \<times> ('a list \<times> 'a list) list \<Rightarrow> bool \<times> ('a list \<times> 'a list) list" where
  "key_value_pairs d [] acc = acc"
| "key_value_pairs d (p # ps) (success, kvs) =
     (if p = [] then key_value_pairs d ps (success, kvs)
      else let (ok, key, val) = SplitStringIntoKeyValue p d
           in key_value_pairs d ps (success \<and> ok, kvs @ [(key, val)]))"

definition SplitStringIntoKeyValuePairs ::
  "'a list \<Rightarrow> 'a list \<Rightarrow> 'a \<Rightarrow> 'a \<Rightarrow> bool \<times> ('a list \<times> 'a list) list"
where
  "SplitStringIntoKeyValuePairs whitespace line key_value_delimiter key_value_pair_delimiter =
     key_value_pairs key_value_delimiter (SplitString whitespace line key_value_pair_delimiter) (True, [])"

subsection \<open>Splitting at a substring\<close>

text \<open>With an empty separator the loop does not advance and never ends.\<close>

partial_function (option) SplitSubstr_loop ::
  "'a list \<Rightarrow> 'a list \<Rightarrow> 'a list \<Rightarrow> nat \<Rightarrow> 'a list list \<Rightarrow> 'a list list option"
where
  "SplitSubstr_loop whitespace str s begin_index r =
     (case str_find str s begin_index of
        None \<Rightarrow> Some (r @ [TrimAll whitespace (drop begin_index str)])
      | Some end_index \<Rightarrow>
          SplitSubstr_loop whitespace str s (end_index + length s)
            (r @ [TrimAll whitespace (substr str begin_index (end_index - begin_index))]))"

definition SplitStringUsingSubstrT :: "'a list \<Rightarrow> 'a list \<Rightarrow> 'a list \<Rightarrow> 'a list list option" where
  "SplitStringUsingSubstrT whitespace str s = SplitSubstr_loop whitespace str s 0 []"

subsection \<open>Splitting along whitespace\<close>

function SplitWhitespace_loop ::
  "'a list \<Rightarrow> 'a list \<Rightarrow> nat \<Rightarrow> bool \<Rightarrow> nat \<Rightarrow> 'a list list \<Rightarrow> 'a list list"
where
  "SplitWhitespace_loop spaces str i last_was_ws last_non_ws_start result =
     (if i \<ge> length str then
        (if \<not> last_was_ws then result @ [substr str last_non_ws_start (length str - last_non_ws_start)] else result)
      else if str ! i \<in> set spaces then
        (if \<not> last_was_ws then
           SplitWhitespace_loop spaces str (i + 1) True last_non_ws_start
             (if i > 0 then result @ [substr str last_non_ws_start (i - last_non_ws_start)] else result)
         else SplitWhitespace_loop spaces str (i + 1) True last_non_ws_start result)
      else if last_was_ws then SplitWhitespace_loop spaces str (i + 1) False i result
      else SplitWhitespace_loop spaces str (i + 1) False last_non_ws_start result)"
  by pat_completeness auto

termination
  by (relation "measure (\<lambda>(_, str, i, _, _, _). length str - i)") auto

declare SplitWhitespace_loop.simps [simp del]

definition SplitStringAlongWhitespaceT :: "'a list \<Rightarrow> 'a list \<Rightarrow> 'a list list" where
  "SplitStringAlongWhitespaceT spaces str = (if length str = 0 then [] else SplitWhitespace_loop spaces str 0 False 0 [])"

subsection \<open>The tokenizer\<close>

record tokenizer =
  source :: "byte list"
  token_begin :: nat
  token_end :: nat
  delims :: "byte list"
  quotes :: "byte list"
  return_delims :: bool
  token_is_delim :: bool

definition StringTokenizer :: "byte list \<Rightarrow> byte list \<Rightarrow> tokenizer" where
  "StringTokenizer str ds = \<lparr>source = str, token_begin = 0, token_end = 0, delims = ds, quotes = [],
     return_delims = False, token_is_delim = False\<rparr>"

definition token :: "tokenizer \<Rightarrow> byte list" where
  "token t = substr (source t) (token_begin t) (token_end t - token_begin t)"

definition tok_Reset :: "tokenizer \<Rightarrow> tokenizer" where
  "tok_Reset t = t\<lparr>token_end := 0\<rparr>"

text \<open>The two loops of \<^verbatim>\<open>QuickGetNext\<close>: over delimiters, then over the token.\<close>

function quick_advance :: "byte list \<Rightarrow> byte list \<Rightarrow> nat \<Rightarrow> nat" where
  "quick_advance str ds e = (if e < length str \<and> str ! e \<notin> set ds then quick_advance str ds (e + 1) else e)"
  by pat_completeness auto

termination
  by (relation "measure (\<lambda>(str, _, e). length str - e)") auto

function QuickGetNext_loop :: "tokenizer \<Rightarrow> bool \<times> tokenizer" where
  "QuickGetNext_loop t =
     (let t1 = t\<lparr>token_begin := token_end t\<rparr>
      in if token_end t1 \<ge> length (source t1) then (False, t1)
         else let t2 = t1\<lparr>token_end := token_end t1 + 1\<rparr>
           in if source t2 ! token_begin t2 \<notin> set (delims t2)
              then (True, t2\<lparr>token_end := quick_advance (source t2) (delims t2) (token_end t2)\<rparr>)
              else QuickGetNext_loop t2)"
  by pat_completeness auto

termination
  by (relation "measure (\<lambda>t. length (source t) - token_end t)") auto

definition QuickGetNext :: "tokenizer \<Rightarrow> bool \<times> tokenizer" where
  "QuickGetNext t = QuickGetNext_loop (t\<lparr>token_is_delim := False\<rparr>)"

record advance_state =
  in_quote :: bool
  in_escape :: bool
  quote_char :: byte

definition AdvanceState :: advance_state where
  "AdvanceState = \<lparr>in_quote = False, in_escape = False, quote_char = 0\<rparr>"

definition AdvanceOne :: "tokenizer \<Rightarrow> byte \<Rightarrow> advance_state \<Rightarrow> bool \<times> advance_state" where
  "AdvanceOne t c st =
     (if in_quote st then
        (True, if in_escape st then st\<lparr>in_escape := False\<rparr>
               else if c = 0x5C then st\<lparr>in_escape := True\<rparr>
               else if c = quote_char st then st\<lparr>in_quote := False\<rparr>
               else st)
      else if c \<in> set (delims t) then (False, st)
      else (True, st\<lparr>quote_char := c, in_quote := (c \<in> set (quotes t))\<rparr>))"

function full_advance :: "tokenizer \<Rightarrow> advance_state \<Rightarrow> nat \<Rightarrow> nat" where
  "full_advance t st e =
     (if e \<ge> length (source t) then e
      else let (go, st1) = AdvanceOne t (source t ! e) st in if go then full_advance t st1 (e + 1) else e)"
  by pat_completeness auto

termination
  by (relation "measure (\<lambda>(t, _, e). length (source t) - e)") auto

function FullGetNext_loop :: "advance_state \<Rightarrow> tokenizer \<Rightarrow> bool \<times> tokenizer" where
  "FullGetNext_loop st t =
     (let t1 = t\<lparr>token_begin := token_end t\<rparr>
      in if token_end t1 \<ge> length (source t1) then (False, t1)
         else let t2 = t1\<lparr>token_end := token_end t1 + 1\<rparr>; (go, st1) = AdvanceOne t2 (source t2 ! token_begin t2) st
           in if go then (True, t2\<lparr>token_end := full_advance t2 st1 (token_end t2)\<rparr>)
              else if return_delims t2 then (True, t2\<lparr>token_is_delim := True\<rparr>)
              else FullGetNext_loop st1 t2)"
  by pat_completeness auto

termination
  by (relation "measure (\<lambda>(_, t). length (source t) - token_end t)") auto

definition FullGetNext :: "tokenizer \<Rightarrow> bool \<times> tokenizer" where
  "FullGetNext t = FullGetNext_loop AdvanceState (t\<lparr>token_is_delim := False\<rparr>)"

definition GetNext :: "tokenizer \<Rightarrow> bool \<times> tokenizer" where
  "GetNext t = (if quotes t = [] \<and> \<not> return_delims t then QuickGetNext t else FullGetNext t)"

declare quick_advance.simps [simp del] QuickGetNext_loop.simps [simp del]
  full_advance.simps [simp del] FullGetNext_loop.simps [simp del]

lemma quick_advance_mono: "e \<le> quick_advance str ds e"
  by (induction str ds e rule: quick_advance.induct) (subst quick_advance.simps, auto)

lemma QuickGetNext_loop_progress:
  "QuickGetNext_loop t = (True, t') \<Longrightarrow> token_end t < token_end t' \<and> source t' = source t \<and> token_end t < length (source t)"
proof (induction t rule: QuickGetNext_loop.induct)
  case (1 t)
  have m: "Suc (token_end t) \<le> quick_advance (source t) (delims t) (Suc (token_end t))" by (rule quick_advance_mono)
  show ?case using "1.prems" "1.IH" [OF refl _ refl] m
    by (subst (asm) (1) QuickGetNext_loop.simps) (auto simp: Let_def split: if_splits)
qed

lemma full_advance_mono: "e \<le> full_advance t st e"
  by (induction t st e rule: full_advance.induct) (subst full_advance.simps, auto split: prod.splits intro: Suc_leD)

lemma FullGetNext_loop_progress:
  "FullGetNext_loop st t = (True, t') \<Longrightarrow> token_end t < token_end t' \<and> source t' = source t \<and> token_end t < length (source t)"
proof (induction st t rule: FullGetNext_loop.induct)
  case (1 st t)
  let ?t = "t\<lparr>token_begin := token_end t, token_end := Suc (token_end t)\<rparr>"
  have m: "Suc (token_end t) \<le> full_advance ?t st' (Suc (token_end t))" for st' by (rule full_advance_mono)
  show ?case using "1.prems" "1.IH" [OF refl _ refl] m
    by (subst (asm) (1) FullGetNext_loop.simps)
      (auto simp: Let_def split: if_splits prod.splits dest: Suc_lessD intro: Suc_le_lessD)
qed

lemma GetNext_progress:
  "GetNext t = (True, t') \<Longrightarrow> token_end t < token_end t' \<and> source t' = source t \<and> token_end t < length (source t)"
  by (auto simp: GetNext_def QuickGetNext_def FullGetNext_def split: if_splits
      dest: QuickGetNext_loop_progress FullGetNext_loop_progress)

text \<open>\<^verbatim>\<open>while (t.GetNext()) ... t.token()\<close>.\<close>

function all_tokens :: "tokenizer \<Rightarrow> byte list list" where
  "all_tokens t = (let (ok, t1) = GetNext t in if ok then token t1 # all_tokens t1 else [])"
  by pat_completeness auto

termination
  by (relation "measure (\<lambda>t. length (source t) - token_end t)")
    (auto dest!: GetNext_progress [OF sym])

declare all_tokens.simps [simp del]


subsection \<open>Splitting and joining are inverse\<close>

fun pieces :: "'a \<Rightarrow> 'a list \<Rightarrow> 'a list list" where
  "pieces s [] = [[]]"
| "pieces s (x # xs) = (if x = s then [] # pieces s xs else (x # hd (pieces s xs)) # tl (pieces s xs))"

lemma pieces_not_Nil [simp]: "pieces s xs \<noteq> []"
  by (cases xs) auto

lemma pieces_append_sep: "pieces s (xs @ s # ys) = pieces s xs @ pieces s ys"
  by (induction xs) auto

lemma pieces_no_sep: "s \<notin> set xs \<Longrightarrow> pieces s xs = [xs]"
  by (induction xs) auto

lemma SplitString_loop_pieces:
  assumes "start \<le> i" "i \<le> length str" "s \<notin> set (substr str start (i - start))"
  shows "SplitString_loop ws str s trim i start r =
    (let ps = map (if trim then TrimAll ws else id) (pieces s (drop start str))
     in if r = [] \<and> ps = [[]] then [] else r @ ps)"
  using assms
proof (induction ws str s trim i start r rule: SplitString_loop.induct)
  case (1 ws str s trim i start r)
  let ?tmp = "substr str start (i - start)"
  let ?t = "if trim then TrimAll ws else id"
  have d: "drop start str = ?tmp @ drop i str" using "1.prems"
    by (metis substr_def append_take_drop_id drop_drop le_add_diff_inverse2)
  show ?case
  proof (cases "i = length str")
    case True
    then have "pieces s (drop start str) = [?tmp]" using "1.prems"(3) pieces_no_sep d by simp
    then show ?thesis using True
      by (subst SplitString_loop.simps) (auto simp: SplitString_loop.simps Let_def)
  next
    case i: False
    then have n: "i < length str" "drop i str = str ! i # drop (i + 1) str"
      using "1.prems"(2) by (auto simp: Cons_nth_drop_Suc)
    show ?thesis
    proof (cases "str ! i = s")
      case True
      have p: "pieces s (drop start str) = ?tmp # pieces s (drop (i + 1) str)"
        using d n(2) True "1.prems"(3) pieces_append_sep [of s ?tmp] pieces_no_sep [of s ?tmp] by simp
      have "SplitString_loop ws str s trim i start r =
          SplitString_loop ws str s trim (i + 1) (i + 1) (r @ [?t ?tmp])"
        using i n True by (subst SplitString_loop.simps) (auto simp: Let_def)
      also have "\<dots> = (r @ [?t ?tmp]) @ map ?t (pieces s (drop (i + 1) str))"
        using "1.IH"(1) [OF _ _ refl refl refl] i n True by (auto simp: substr_def Let_def)
      finally show ?thesis using p by (simp add: Let_def)
    next
      case False
      have e: "substr str start (i + 1 - start) = ?tmp @ [str ! i]"
        using "1.prems"(1) n(1) by (simp add: substr_def Suc_diff_le take_Suc_conv_app_nth)
      have "SplitString_loop ws str s trim i start r = SplitString_loop ws str s trim (i + 1) start r"
        using i n False by (subst SplitString_loop.simps) auto
      then show ?thesis using "1.IH"(2) i n False "1.prems" e by auto
    qed
  qed
qed

lemma SplitStringT_pieces:
  "SplitStringT ws str s trim =
    (let ps = map (if trim then TrimAll ws else id) (pieces s str) in if ps = [[]] then [] else ps)"
  using SplitString_loop_pieces [of 0 0 str s ws trim "[]"] by (simp add: SplitStringT_def substr_def Let_def)

lemma TrimAll_dropWhile: "TrimAll ws xs = rev (dropWhile (\<lambda>c. c \<in> set ws) (rev (dropWhile (\<lambda>c. c \<in> set ws) xs)))"
  by (simp add: TrimAll_def TrimStringT_spec trimmed_def TRIM_ALL_def)

fun join :: "'a list \<Rightarrow> 'a list list \<Rightarrow> 'a list" where
  "join sep [] = []"
| "join sep [p] = p"
| "join sep (p # q # ps) = p @ sep @ join sep (q # ps)"

lemma join_rest_join: "join_rest sep ps r = join sep (r # ps)"
  by (induction ps arbitrary: r) (simp, metis append_assoc join.simps(2,3) join_rest.simps(2) neq_Nil_conv)

lemma JoinStringT_join: "JoinStringT ps sep = join sep ps"
  by (cases ps) (auto simp: JoinStringT_def join_rest_join)

lemma join_Cons: "ps \<noteq> [] \<Longrightarrow> join sep (p # ps) = p @ sep @ join sep ps"
  by (cases ps) auto

lemma join_pieces: "join [s] (pieces s xs) = xs"
proof (induction xs)
  case (Cons x xs)
  then show ?case by (cases "pieces s xs") (auto simp: join_Cons, case_tac list, auto)
qed simp

lemma pieces_join: "ps \<noteq> [] \<Longrightarrow> \<forall>p \<in> set ps. s \<notin> set p \<Longrightarrow> pieces s (join [s] ps) = ps"
  by (induction "[s]" ps rule: join.induct) (auto simp: pieces_no_sep pieces_append_sep)

text \<open>
  Splitting and joining at a character are inverse. Joining what \<^verbatim>\<open>SplitStringDontTrim\<close> returns
  gives the string back; splitting a joined list gives the parts back when none contains the
  separator, except that a single empty part is dropped. \<^verbatim>\<open>SplitString\<close> is the same split with every
  part trimmed, and drops a single part that trimming leaves empty.
\<close>

theorem split_join_roundtrip:
  "JoinStringT (SplitStringDontTrim ws str s) [s] = str \<and>
   ((\<forall>p \<in> set ps. s \<notin> set p) \<longrightarrow>
     SplitStringDontTrim ws (JoinStringT ps [s]) s = (if ps = [[]] then [] else ps)) \<and>
   SplitString ws str s = (let ps = map (TrimAll ws) (pieces s str) in if ps = [[]] then [] else ps)"
proof (intro conjI impI)
  show "JoinStringT (SplitStringDontTrim ws str s) [s] = str"
    using join_pieces [of s str]
    by (auto simp: SplitStringDontTrim_def SplitStringT_pieces JoinStringT_join Let_def)
  assume "\<forall>p \<in> set ps. s \<notin> set p"
  then show "SplitStringDontTrim ws (JoinStringT ps [s]) s = (if ps = [[]] then [] else ps)"
    using pieces_join [of ps s]
    by (cases "ps = []") (auto simp: SplitStringDontTrim_def SplitStringT_pieces JoinStringT_join Let_def)
next
  show "SplitString ws str s = (let ps = map (TrimAll ws) (pieces s str) in if ps = [[]] then [] else ps)"
    by (simp add: SplitString_def SplitStringT_pieces Let_def)
qed

theorem split_join_roundtrip_witness:
  "SplitStringDontTrim [0] (JoinStringT [[1, 2], [], [3::nat]] [7]) 7 = [[1, 2], [], [3]]"
  using split_join_roundtrip [of "[0]" _ "7 :: nat" "[[1, 2], [], [3]]"] by simp


subsection \<open>Four ways to cut a string into words\<close>

text \<open>The maximal runs of characters that are not delimiters.\<close>

function words :: "('a \<Rightarrow> bool) \<Rightarrow> 'a list \<Rightarrow> 'a list list" where
  "words P xs = (case dropWhile P xs of [] \<Rightarrow> []
     | y # ys \<Rightarrow> (y # takeWhile (\<lambda>c. \<not> P c) ys) # words P (dropWhile (\<lambda>c. \<not> P c) ys))"
  by pat_completeness auto

termination
proof (relation "measure (\<lambda>(P, xs). length xs)")
  fix P :: "'a \<Rightarrow> bool" and xs y ys
  assume "dropWhile P xs = y # ys"
  then have "Suc (length ys) \<le> length xs" by (metis length_Cons length_dropWhile_le)
  moreover have "length (dropWhile (\<lambda>c. \<not> P c) ys) \<le> length ys" by (rule length_dropWhile_le)
  ultimately show "((P, dropWhile (\<lambda>c. \<not> P c) ys), P, xs) \<in> measure (\<lambda>(P, xs). length xs)" by simp
qed simp

declare words.simps [simp del]

lemma words_Nil [simp]: "words P [] = []" by (simp add: words.simps)

lemma words_skip [simp]: "P x \<Longrightarrow> words P (x # xs) = words P xs"
  by (subst (1 2) words.simps) simp

lemma words_skip_all: "\<forall>x \<in> set u. P x \<Longrightarrow> words P (u @ xs) = words P xs"
  by (induction u) auto

lemma words_word: "\<forall>x \<in> set w. \<not> P x \<Longrightarrow> w \<noteq> [] \<Longrightarrow> words P (w @ xs) =
    (w @ takeWhile (\<lambda>c. \<not> P c) xs) # words P (dropWhile (\<lambda>c. \<not> P c) xs)"
  by (cases w) (auto simp: words.simps [of P "_ # _"] dropWhile_skip takeWhile_append2)

text \<open>\<^verbatim>\<open>TokenizeT\<close>.\<close>

lemma find_first_None: "find_first str P pos = None \<longleftrightarrow> (\<forall>x \<in> set (drop pos str). \<not> P x)"
  by (simp add: find_first_def find_index_None)

lemma find_first_Some:
  "find_first str P pos = Some i \<longleftrightarrow>
     pos \<le> i \<and> i < length str \<and> P (str ! i) \<and> (\<forall>x \<in> set (substr str pos (i - pos)). \<not> P x)"
proof -
  have a: "find_first str P pos = Some i \<longleftrightarrow> pos \<le> i \<and> find_index P (drop pos str) = Some (i - pos)"
    by (auto simp: find_first_def)
  have c: "(\<forall>j < k. \<not> P (drop pos str ! j)) \<longleftrightarrow> (\<forall>x \<in> set (substr str pos k). \<not> P x)"
    if "k \<le> length str - pos" for k
    using that by (auto simp: substr_def all_set_conv_all_nth)
  show ?thesis
  proof (cases "pos \<le> i \<and> i < length str")
    case True
    then have "drop pos str ! (i - pos) = str ! i" "i - pos < length (drop pos str)" by auto
    then show ?thesis unfolding a find_index_Some using True c [of "i - pos"] by simp
  next
    case False
    then show ?thesis unfolding a find_index_Some by auto
  qed
qed

lemma substr_drop: "i \<le> j \<Longrightarrow> drop i str = substr str i (j - i) @ drop j str"
  by (metis substr_def append_take_drop_id drop_drop le_add_diff_inverse2)

lemma Tokenize_loop_words:
  "(case s of None \<Rightarrow> True | Some i \<Rightarrow> i < length str \<and> str ! i \<notin> set ds) \<Longrightarrow>
   Tokenize_loop str ds s = (case s of None \<Rightarrow> [] | Some i \<Rightarrow> words (\<lambda>c. c \<in> set ds) (drop i str))"
proof (induction str ds s rule: Tokenize_loop.induct)
  case (2 str ds i)
  let ?P = "\<lambda>c. c \<in> set ds"
  have i: "i < length str" "str ! i \<notin> set ds" "drop i str = [str ! i] @ drop (i + 1) str"
    using "2.prems" by (auto simp: Cons_nth_drop_Suc)
  show ?case
  proof (cases "find_first_of str ds (i + 1)")
    case None
    then have "\<forall>x \<in> set (drop i str). \<not> ?P x" using i by (auto simp: find_first_of_def find_first_None)
    then show ?thesis using None i words_word [of "drop i str" ?P "[]"] by simp
  next
    case (Some e)
    then have e: "i < e" "e < length str" "str ! e \<in> set ds" "\<forall>x \<in> set (substr str (i + 1) (e - (i + 1))). \<not> ?P x"
      by (auto simp: find_first_of_def find_first_Some)
    let ?w = "substr str i (e - i)"
    have "?w = str ! i # substr str (i + 1) (e - (i + 1))"
      using i(1) e(1) by (simp add: substr_def flip: Cons_nth_drop_Suc) (metis Suc_diff_Suc take_Suc_Cons)
    then have w: "\<forall>x \<in> set ?w. \<not> ?P x" "?w \<noteq> []" using e(4) i(2) by auto
    have "words ?P (drop i str) = ?w # words ?P (drop e str)"
      using e words_word [OF w, of "drop e str"] substr_drop [of i e str]
      by (simp add: Cons_nth_drop_Suc [symmetric])
    also have "drop e str = str ! e # drop (e + 1) str" using e(2) by (simp add: Cons_nth_drop_Suc)
    also have "words ?P (str ! e # drop (e + 1) str) = words ?P (drop (e + 1) str)" using e(3) by simp
    also have "words ?P (drop (e + 1) str) = Tokenize_loop str ds (find_first_not_of str ds (e + 1))"
    proof (cases "find_first_not_of str ds (e + 1)")
      case None
      then have "\<forall>x \<in> set (drop (e + 1) str). ?P x" by (auto simp: find_first_not_of_def find_first_None)
      then show ?thesis using None words_skip_all [of "drop (e + 1) str" ?P "[]"] by simp
    next
      case (Some k)
      then have k: "e + 1 \<le> k" "k < length str" "str ! k \<notin> set ds" "\<forall>x \<in> set (substr str (e + 1) (k - (e + 1))). ?P x"
        by (auto simp: find_first_not_of_def find_first_Some)
      then have "words ?P (drop (e + 1) str) = words ?P (drop k str)"
        using substr_drop [of "e + 1" k str] words_skip_all [OF k(4)] by simp
      then show ?thesis using "2.IH" [OF \<open>find_first_of str ds (i + 1) = Some e\<close>] Some k by simp
    qed
    finally show ?thesis using \<open>find_first_of str ds (i + 1) = Some e\<close> by simp
  qed
qed simp

lemma TokenizeT_words: "snd (TokenizeT str ds) = words (\<lambda>c. c \<in> set ds) str"
proof (cases "find_first_not_of str ds 0")
  case None
  then have "\<forall>x \<in> set str. x \<in> set ds" by (auto simp: find_first_not_of_def find_first_None)
  then show ?thesis using None words_skip_all [of str "\<lambda>c. c \<in> set ds" "[]"] by (simp add: TokenizeT_def)
next
  case (Some k)
  then have k: "k < length str" "str ! k \<notin> set ds" "\<forall>x \<in> set (substr str 0 k). x \<in> set ds"
    by (auto simp: find_first_not_of_def find_first_Some)
  then have "words (\<lambda>c. c \<in> set ds) str = words (\<lambda>c. c \<in> set ds) (drop k str)"
    using substr_drop [of 0 k str] words_skip_all [OF k(3), of "drop k str"] by (metis diff_zero drop0 le0)
  then show ?thesis using Some k Tokenize_loop_words [of str ds "Some k"] by (simp add: TokenizeT_def Let_def)
qed


text \<open>\<^verbatim>\<open>SplitStringAlongWhitespaceT\<close>.\<close>

lemma SplitWhitespace_loop_words:
  assumes "start \<le> i" "i \<le> length str" "\<not> ws \<Longrightarrow> \<forall>x \<in> set (substr str start (i - start)). x \<notin> set ds"
    "\<not> ws \<Longrightarrow> start < i \<or> i = 0" "\<not> ws \<Longrightarrow> str \<noteq> []"
  shows "SplitWhitespace_loop ds str i ws start r =
    r @ words (\<lambda>c. c \<in> set ds) (drop (if ws then i else start) str)"
  using assms
proof (induction ds str i ws start r rule: SplitWhitespace_loop.induct)
  case (1 ds str i ws start r)
  let ?P = "\<lambda>c. c \<in> set ds" let ?w = "substr str start (i - start)"
  have d: "drop start str = ?w @ drop i str" using "1.prems" by (intro substr_drop)
  show ?case
  proof (cases "i \<ge> length str")
    case True
    then have "i = length str" using "1.prems"(2) by simp
    moreover have "words ?P (drop start str) = [drop start str]" if "\<not> ws"
    proof -
      have "drop start str \<noteq> []" using that "1.prems" \<open>i = length str\<close> by auto
      then show ?thesis using d "1.prems"(3) [OF that] \<open>i = length str\<close> words_word [of "drop start str" ?P "[]"] by simp
    qed
    ultimately show ?thesis
      by (subst SplitWhitespace_loop.simps) (auto simp: substr_def)
  next
    case False
    then have n: "drop i str = str ! i # drop (i + 1) str" "i < length str" by (simp_all add: Cons_nth_drop_Suc)
    show ?thesis
    proof (cases "str ! i \<in> set ds")
      case s: True
      show ?thesis
      proof (cases ws)
        case True
        then show ?thesis using False s "1.IH"(2) "1.prems" n
          by (subst SplitWhitespace_loop.simps) auto
      next
        case w: False
        have "words ?P (drop start str) = (if i > 0 then [?w] else []) @ words ?P (drop (i + 1) str)"
        proof (cases "i = 0")
          case True
          have "words ?P (drop i str) = words ?P (drop (i + 1) str)" by (subst n(1)) (simp add: s)
          then show ?thesis using True "1.prems"(1) by simp
        next
          case i: False
          then have "?w \<noteq> []" using "1.prems"(4) [OF w] n(2) by (auto simp: substr_def)
          then show ?thesis using d n s i words_word [OF "1.prems"(3) [OF w], of "drop i str"] by simp
        qed
        then show ?thesis using False s w "1.IH"(1) "1.prems"(1,2) n
          by (subst SplitWhitespace_loop.simps) auto
      qed
    next
      case s: False
      have "str \<noteq> []" using n(2) by auto
      show ?thesis
      proof (cases ws)
        case True
        with \<open>str \<noteq> []\<close> show ?thesis using False s "1.IH"(3) "1.prems" n
          by (subst SplitWhitespace_loop.simps) (auto simp: substr_def take_Suc hd_drop_conv_nth)
      next
        case w: False
        have "substr str start (i + 1 - start) = ?w @ [str ! i]"
          using "1.prems"(1) n(2) by (simp add: substr_def Suc_diff_le take_Suc_conv_app_nth)
        then show ?thesis using False s w "1.IH"(4) "1.prems" n
          by (subst SplitWhitespace_loop.simps) auto
      qed
    qed
  qed
qed

lemma SplitStringAlongWhitespaceT_words: "SplitStringAlongWhitespaceT ds str = words (\<lambda>c. c \<in> set ds) str"
  using SplitWhitespace_loop_words [of 0 0 str False ds "[]"] by (simp add: SplitStringAlongWhitespaceT_def substr_def)

text \<open>The tokenizer.\<close>

lemma quick_advance_word:
  "e \<le> length str \<Longrightarrow> quick_advance str ds e = e + length (takeWhile (\<lambda>c. c \<notin> set ds) (drop e str))"
proof (induction str ds e rule: quick_advance.induct)
  case (1 str ds e)
  show ?case
  proof (cases "e < length str")
    case True
    then have "drop e str = str ! e # drop (e + 1) str" by (simp add: Cons_nth_drop_Suc)
    then show ?thesis using 1 True by (subst quick_advance.simps) auto
  next
    case False
    then show ?thesis using "1.prems" by (subst quick_advance.simps) auto
  qed
qed

lemma QuickGetNext_loop_words:
  assumes "token_end t \<le> length (source t)"
  shows "case QuickGetNext_loop t of
      (False, t1) \<Rightarrow> words (\<lambda>c. c \<in> set (delims t)) (drop (token_end t) (source t)) = []
    | (True, t1) \<Rightarrow> source t1 = source t \<and> delims t1 = delims t \<and> quotes t1 = quotes t \<and>
        return_delims t1 = return_delims t \<and> token_end t1 \<le> length (source t) \<and>
        words (\<lambda>c. c \<in> set (delims t)) (drop (token_end t) (source t)) =
          token t1 # words (\<lambda>c. c \<in> set (delims t)) (drop (token_end t1) (source t))"
  using assms
proof (induction t rule: QuickGetNext_loop.induct)
  case (1 t)
  let ?P = "\<lambda>c. c \<in> set (delims t)" let ?e = "token_end t" let ?s = "source t"
  show ?case
  proof (cases "?e \<ge> length ?s")
    case True
    then show ?thesis by (subst QuickGetNext_loop.simps) (simp add: Let_def)
  next
    case False
    then have n: "drop ?e ?s = ?s ! ?e # drop (?e + 1) ?s" by (simp add: Cons_nth_drop_Suc)
    show ?thesis
    proof (cases "?s ! ?e \<in> set (delims t)")
      case True
      then show ?thesis using False "1.IH" [OF refl _ refl] n
        by (subst QuickGetNext_loop.simps) (auto simp: Let_def split: prod.splits bool.splits)
    next
      case d: False
      let ?w = "takeWhile (\<lambda>c. c \<notin> set (delims t)) (drop (?e + 1) ?s)"
      have a: "quick_advance ?s (delims t) (?e + 1) = ?e + 1 + length ?w"
        using False by (intro quick_advance_word) simp
      have l: "length ?w \<le> length (drop (?e + 1) ?s)" by (rule length_takeWhile_le)
      have w: "take (length ?w) (drop (?e + 1) ?s) = ?w" by (metis takeWhile_eq_take)
      have "drop (?e + 1 + length ?w) ?s = dropWhile (\<lambda>c. c \<notin> set (delims t)) (drop (?e + 1) ?s)"
        by (simp add: dropWhile_eq_drop ac_simps)
      then have "words ?P (drop ?e ?s) = (?s ! ?e # ?w) # words ?P (drop (?e + 1 + length ?w) ?s)"
        using n d words_word [of "[?s ! ?e]" ?P "drop (?e + 1) ?s"] by simp
      moreover have "substr ?s ?e (1 + length ?w) = ?s ! ?e # ?w"
        using n w by (simp add: substr_def)
      ultimately show ?thesis using False d a l
        by (subst QuickGetNext_loop.simps) (simp add: Let_def token_def)
    qed
  qed
qed


lemma all_tokens_words:
  assumes "quotes t = []" "\<not> return_delims t" "token_end t \<le> length (source t)"
  shows "all_tokens t = words (\<lambda>c. c \<in> set (delims t)) (drop (token_end t) (source t))"
  using assms
proof (induction t rule: all_tokens.induct)
  case (1 t)
  have g: "GetNext t = QuickGetNext_loop (t\<lparr>token_is_delim := False\<rparr>)"
    using "1.prems" by (simp add: GetNext_def QuickGetNext_def)
  note w = QuickGetNext_loop_words [of "t\<lparr>token_is_delim := False\<rparr>", folded g]
  show ?case
  proof (cases "GetNext t")
    case (Pair ok t1)
    then show ?thesis using w "1.IH" [OF Pair [symmetric] refl] "1.prems"
      by (subst all_tokens.simps) (cases ok, auto)
  qed
qed

text \<open>
  Four routines cut a string into words in the same way: \<^verbatim>\<open>TokenizeT\<close> by index searches,
  \<^verbatim>\<open>StringTokenizer\<close> by its iterators, \<^verbatim>\<open>SplitStringAlongWhitespace\<close> by a state machine, all giving the
  maximal runs of characters that are not delimiters, in order.
\<close>

theorem tokenizers_agree:
  "snd (TokenizeT str ds) = words (\<lambda>c. c \<in> set ds) str \<and>
   fst (TokenizeT str ds) = length (words (\<lambda>c. c \<in> set ds) str) \<and>
   SplitStringAlongWhitespaceT ds str = words (\<lambda>c. c \<in> set ds) str \<and>
   all_tokens (StringTokenizer s d) = words (\<lambda>c. c \<in> set d) s"
  using TokenizeT_words [of str ds] SplitStringAlongWhitespaceT_words [of ds str] all_tokens_words [of "StringTokenizer s d"]
  by (simp add: StringTokenizer_def) (simp add: TokenizeT_def Let_def)

subsection \<open>Returning delimiters loses nothing\<close>

lemma full_advance_frame: "e \<le> length (source t) \<Longrightarrow> full_advance t st e \<le> length (source t)"
  by (induction t st e rule: full_advance.induct) (subst full_advance.simps, auto split: prod.splits)

lemma FullGetNext_loop_covers:
  assumes "return_delims t" "token_end t \<le> length (source t)"
  shows "case FullGetNext_loop st t of
      (False, t1) \<Rightarrow> token_end t = length (source t)
    | (True, t1) \<Rightarrow> source t1 = source t \<and> return_delims t1 \<and> token_begin t1 = token_end t \<and>
        token_end t < token_end t1 \<and> token_end t1 \<le> length (source t)"
proof -
  let ?t = "t\<lparr>token_begin := token_end t, token_end := Suc (token_end t)\<rparr>"
  have m: "Suc (token_end t) \<le> full_advance ?t st' (Suc (token_end t))" for st' by (rule full_advance_mono)
  have l: "full_advance ?t st' (Suc (token_end t)) \<le> length (source t)"
    if "token_end t < length (source t)" for st' using full_advance_frame [of "Suc (token_end t)" ?t] that by simp
  show ?thesis using assms m l
    by (subst FullGetNext_loop.simps) (auto simp: Let_def Suc_le_eq split: prod.splits bool.splits if_splits)
qed

text \<open>
  With \<^verbatim>\<open>RETURN_DELIMS\<close> the tokenizer loses nothing: whatever the delimiters and quote characters,
  the tokens it returns, in order, are the string again.
\<close>

theorem return_delims_covers_string:
  "return_delims t \<Longrightarrow> token_end t \<le> length (source t) \<Longrightarrow> concat (all_tokens t) = drop (token_end t) (source t)"
proof (induction t rule: all_tokens.induct)
  case (1 t)
  have g: "GetNext t = FullGetNext_loop AdvanceState (t\<lparr>token_is_delim := False\<rparr>)"
    using "1.prems" by (simp add: GetNext_def FullGetNext_def)
  note w = FullGetNext_loop_covers [of "t\<lparr>token_is_delim := False\<rparr>" AdvanceState, folded g]
  show ?case
  proof (cases "GetNext t")
    case (Pair ok t1)
    show ?thesis
    proof (cases ok)
      case True
      then have t1: "source t1 = source t" "return_delims t1" "token_begin t1 = token_end t"
        "token_end t < token_end t1" "token_end t1 \<le> length (source t)" using w Pair "1.prems" by auto
      then have "concat (all_tokens t1) = drop (token_end t1) (source t1)"
        using "1.IH" [OF Pair [symmetric] refl] True by simp
      then show ?thesis using Pair True t1 substr_drop [of "token_end t" "token_end t1" "source t"]
        by (subst all_tokens.simps) (simp add: token_def)
    next
      case False
      then show ?thesis using Pair w "1.prems" by (subst all_tokens.simps) simp
    qed
  qed
qed

theorem return_delims_covers_string_witness:
  "concat (all_tokens ((StringTokenizer [0x61, 0x2C, 0x20, 0x62] [0x2C, 0x20])\<lparr>quotes := [0x78], return_delims := True\<rparr>)) = [0x61, 0x2C, 0x20, 0x62]"
  using return_delims_covers_string [of "(StringTokenizer [0x61, 0x2C, 0x20, 0x62] [0x2C, 0x20])\<lparr>quotes := [0x78], return_delims := True\<rparr>"]
  by (simp add: StringTokenizer_def)

end
