(* ===== verification/Utf_Conversions.thy ===== *)
theory Utf_Conversions
  imports P528_Prelude
begin

text \<open>
  Unicode conversions (\<^verbatim>\<open>base/strings/utf_string_conversions.cc\<close>, \<^verbatim>\<open>utf_string_conversion_utils\<close> and
  the macros and the decoder of \<^verbatim>\<open>base/third_party/icu\<close> they are made of). A narrow string is a list
  of 8-bit words, a \<^verbatim>\<open>string16\<close> (and on Windows a \<^verbatim>\<open>wstring\<close>) a list of 16-bit words, a code point a
  32-bit word; positions are natural numbers, so strings are shorter than \<^verbatim>\<open>kint32max\<close>.
\<close>

unbundle bit_operations_syntax

type_synonym char16 = "16 word"
type_synonym code_point = "32 word"

named_theorems utf \<open>masks and marks of the encodings as bits\<close>

subsection \<open>Code points\<close>

definition IsValidCodepoint :: "code_point \<Rightarrow> bool" where
  "IsValidCodepoint c \<longleftrightarrow> c < 0xD800 \<or> c \<ge> 0xE000 \<and> c \<le> 0x10FFFF"

definition IsValidCharacter :: "code_point \<Rightarrow> bool" where
  "IsValidCharacter c \<longleftrightarrow> c < 0xD800 \<or> c \<ge> 0xE000 \<and> c < 0xFDD0 \<or>
     c > 0xFDEF \<and> c \<le> 0x10FFFF \<and> c AND 0xFFFE \<noteq> 0xFFFE"

definition CBU_SENTINEL :: code_point where "CBU_SENTINEL = - 1"

definition CBU_IS_SURROGATE :: "code_point \<Rightarrow> bool" where
  "CBU_IS_SURROGATE c \<longleftrightarrow> c AND 0xfffff800 = 0xd800"

definition CBU_IS_UNICODE_NONCHAR :: "code_point \<Rightarrow> bool" where
  "CBU_IS_UNICODE_NONCHAR c \<longleftrightarrow> 0xfdd0 \<le> sint c \<and> (c \<le> 0xfdef \<or> c AND 0xfffe = 0xfffe) \<and> c \<le> 0x10ffff"

subsection \<open>Reading UTF-8\<close>

definition utf8_countTrailBytes :: "nat list" where
  "utf8_countTrailBytes = replicate 128 0 @ replicate 64 0 @ replicate 32 1 @ replicate 16 2 @
     [3, 3, 3, 3, 3] @ [3, 3, 3] @ [4, 4, 4, 4] @ [5, 5] @ [0, 0]"

definition utf8_minLegal :: "int list" where
  "utf8_minLegal = [0, 0x80, 0x800, 0x10000]"

definition utf8_errorValue :: "code_point list" where
  "utf8_errorValue = [0x15, 0x9f, 0xffff, 0x10ffff, 0x3ffffff, 0x7fffffff]"

definition CBU8_IS_LEAD :: "byte \<Rightarrow> bool" where
  "CBU8_IS_LEAD b \<longleftrightarrow> b - 0xc0 < 0x3e"

definition CBU8_IS_TRAIL :: "byte \<Rightarrow> bool" where
  "CBU8_IS_TRAIL b \<longleftrightarrow> b AND 0xc0 = 0x80"

text \<open>One trail byte: the position, the code point so far and the \<^verbatim>\<open>illegal\<close> bits.\<close>

fun next_trail :: "byte list \<Rightarrow> nat \<times> code_point \<times> byte \<Rightarrow> nat \<times> code_point \<times> byte" where
  "next_trail s (i, c, illegal) =
     (i + 1, push_bit 6 c OR (ucast (s ! i) AND 0x3f), illegal OR ((s ! i AND 0xc0) XOR 0x80))"

text \<open>The \<^verbatim>\<open>switch\<close> on the number of trail bytes, each case falling through to the next.\<close>

definition trail_bytes :: "byte list \<Rightarrow> nat \<Rightarrow> nat \<Rightarrow> code_point \<Rightarrow> nat \<times> code_point \<times> byte" where
  "trail_bytes s n_trail i c =
     (if n_trail \<ge> 4 then (i, c, 1)
      else if n_trail = 3 then
        let (i1, c1, illegal) = next_trail s (i, c, 0)
        in if sint c1 < 0x110 then next_trail s (next_trail s (i1, c1, illegal)) else (i1, c1, 1)
      else if n_trail = 2 then next_trail s (next_trail s (i, c, 0))
      else next_trail s (i, c, 0))"

text \<open>The two error loops: over at most \<open>n_trail\<close> trail bytes, and to the end of the string.\<close>

fun skip_trail :: "byte list \<Rightarrow> nat \<Rightarrow> nat \<Rightarrow> nat" where
  "skip_trail s i 0 = i"
| "skip_trail s i (Suc n_trail) = (if CBU8_IS_TRAIL (s ! i) then skip_trail s (i + 1) n_trail else i)"

definition utf8_nextCharSafeBody ::
  "byte list \<Rightarrow> nat \<Rightarrow> nat \<Rightarrow> code_point \<Rightarrow> int \<Rightarrow> nat \<times> code_point"
where
  "utf8_nextCharSafeBody s pi len c strict =
     (let n_trail = utf8_countTrailBytes ! unat (ucast c :: byte)
      in if pi + n_trail \<le> len then
           if n_trail = 0 then (pi, if strict \<ge> 0 then utf8_errorValue ! 0 else CBU_SENTINEL)
           else
             let (i, c, illegal) = trail_bytes s n_trail pi (c AND (2 ^ (6 - n_trail) - 1))
             in if illegal \<noteq> 0 \<or> sint c < utf8_minLegal ! n_trail \<or> CBU_IS_SURROGATE c \<and> strict \<noteq> -2 then
                  let i = skip_trail s pi n_trail
                  in (i, if strict \<ge> 0 then utf8_errorValue ! (i - pi) else CBU_SENTINEL)
                else if strict > 0 \<and> CBU_IS_UNICODE_NONCHAR c then (i, utf8_errorValue ! n_trail)
                else (i, c)
         else
           let i = skip_trail s pi (len - pi)
           in (i, if strict \<ge> 0 then utf8_errorValue ! (i - pi) else CBU_SENTINEL))"

definition CBU8_NEXT :: "byte list \<Rightarrow> nat \<Rightarrow> nat \<Rightarrow> nat \<times> code_point" where
  "CBU8_NEXT s i len =
     (if s ! i \<ge> 0x80 then
        if CBU8_IS_LEAD (s ! i) then utf8_nextCharSafeBody s (i + 1) len (scast (s ! i)) (- 1)
        else (i + 1, CBU_SENTINEL)
      else (i + 1, scast (s ! i)))"

text \<open>The new position, of the last byte read, and the code point, \<open>None\<close> when the call returns false.\<close>

definition ReadUnicodeCharacter8 :: "byte list \<Rightarrow> nat \<Rightarrow> nat \<Rightarrow> nat \<times> code_point option" where
  "ReadUnicodeCharacter8 src src_len char_index =
     (let (i, c) = CBU8_NEXT src char_index src_len in (i - 1, if IsValidCodepoint c then Some c else None))"

subsection \<open>Reading UTF-16\<close>

definition CBU16_IS_SURROGATE_LEAD :: "char16 \<Rightarrow> bool" where
  "CBU16_IS_SURROGATE_LEAD c \<longleftrightarrow> c AND 0x400 = 0"

definition CBU16_IS_TRAIL :: "char16 \<Rightarrow> bool" where
  "CBU16_IS_TRAIL c \<longleftrightarrow> (ucast c :: code_point) AND 0xfffffc00 = 0xdc00"

definition CBU16_GET_SUPPLEMENTARY :: "char16 \<Rightarrow> char16 \<Rightarrow> code_point" where
  "CBU16_GET_SUPPLEMENTARY lead trail =
     push_bit 10 (ucast lead) + ucast trail - (push_bit 10 0xd800 + 0xdc00 - 0x10000)"

definition ReadUnicodeCharacter16 :: "char16 list \<Rightarrow> nat \<Rightarrow> nat \<Rightarrow> nat \<times> code_point option" where
  "ReadUnicodeCharacter16 src src_len i =
     (if CBU_IS_SURROGATE (ucast (src ! i)) then
        if \<not> CBU16_IS_SURROGATE_LEAD (src ! i) \<or> i + 1 \<ge> src_len \<or> \<not> CBU16_IS_TRAIL (src ! (i + 1)) then (i, None)
        else
          let c = CBU16_GET_SUPPLEMENTARY (src ! i) (src ! (i + 1))
          in (i + 1, if IsValidCodepoint c then Some c else None)
      else (i, if IsValidCodepoint (ucast (src ! i)) then Some (ucast (src ! i)) else None))"

subsection \<open>Writing\<close>

definition CBU8_APPEND_UNSAFE :: "code_point \<Rightarrow> byte list" where
  "CBU8_APPEND_UNSAFE c =
     (if c \<le> 0x7f then [ucast c]
      else
        (if c \<le> 0x7ff then [ucast (drop_bit 6 c OR 0xc0)]
         else
           (if c \<le> 0xffff then [ucast (drop_bit 12 c OR 0xe0)]
            else [ucast (drop_bit 18 c OR 0xf0), ucast ((drop_bit 12 c AND 0x3f) OR 0x80)]) @
           [ucast ((drop_bit 6 c AND 0x3f) OR 0x80)]) @
        [ucast ((c AND 0x3f) OR 0x80)])"

definition WriteUnicodeCharacter8 :: "code_point \<Rightarrow> byte list \<Rightarrow> byte list \<times> nat" where
  "WriteUnicodeCharacter8 c output =
     (if c \<le> 0x7f then (output @ [ucast c], 1)
      else let result = output @ CBU8_APPEND_UNSAFE c in (result, length result - length output))"

definition CBU16_APPEND_UNSAFE :: "code_point \<Rightarrow> char16 list" where
  "CBU16_APPEND_UNSAFE c =
     (if c \<le> 0xffff then [ucast c] else [ucast (drop_bit 10 c + 0xd7c0), ucast ((c AND 0x3ff) OR 0xdc00)])"

definition WriteUnicodeCharacter16 :: "code_point \<Rightarrow> char16 list \<Rightarrow> char16 list \<times> nat" where
  "WriteUnicodeCharacter16 c output =
     (if c \<le> 0xffff then (output @ [ucast c], 1) else (output @ CBU16_APPEND_UNSAFE c, 2))"

subsection \<open>ASCII\<close>

text \<open>
  \<^verbatim>\<open>DoIsStringASCII\<close> reads the string in machine words of 32 bits. \<open>align\<close> is the number of characters
  before the first aligned address; the characters are packed with the lowest address in the lowest
  bits. \<^verbatim>\<open>AlignToMachineWord(end)\<close> leaves the last incomplete word to the last loop; the last loop
  also reads what is left when the string ends before the first aligned address.
\<close>

fun pack_word :: "'a::len word list \<Rightarrow> code_point" where
  "pack_word [] = 0"
| "pack_word (c # cs) = ucast c OR push_bit LENGTH('a) (pack_word cs)"

text \<open>\<^verbatim>\<open>char\<close> is signed, \<^verbatim>\<open>char16\<close> is not.\<close>

definition char_bits :: "'a::len word \<Rightarrow> code_point" where
  "char_bits c = (if LENGTH('a) = 8 then scast c else ucast c)"

fun or_chars :: "code_point \<Rightarrow> 'a::len word list \<Rightarrow> code_point" where
  "or_chars bits [] = bits"
| "or_chars bits (c # cs) = or_chars (bits OR char_bits c) cs"

fun or_words :: "code_point \<Rightarrow> 'a::len word list \<Rightarrow> nat \<Rightarrow> code_point" where
  "or_words bits cs 0 = bits"
| "or_words bits cs (Suc n) =
     (let k = 32 div LENGTH('a) in or_words (bits OR pack_word (take k cs)) (drop k cs) n)"

definition NonASCIIMask :: "'a::len itself \<Rightarrow> code_point" where
  "NonASCIIMask _ = (if LENGTH('a) = 8 then 0x80808080 else 0xFF80FF80)"

definition DoIsStringASCII :: "nat \<Rightarrow> 'a::len word list \<Rightarrow> bool" where
  "DoIsStringASCII align characters =
     (let k = 32 div LENGTH('a);
          bits1 = or_chars 0 (take align characters);
          aligned = drop align characters;
          n = length aligned div k;
          bits2 = or_words bits1 aligned n;
          bits3 = or_chars bits2 (drop (n * k) aligned)
      in bits3 AND NonASCIIMask TYPE('a) = 0)"

definition is_ascii :: "'a::len word list \<Rightarrow> bool" where
  "is_ascii s \<longleftrightarrow> (\<forall>c \<in> set s. c < 0x80)"

lemma or_and_zero: "(a OR b) AND m = 0 \<longleftrightarrow> a AND m = 0 \<and> b AND m = (0 :: 'a::len word)"
  by (auto simp: bit_eq_iff bit_simps)

lemma or_chars_zero: "or_chars bits cs AND m = 0 \<longleftrightarrow> bits AND m = 0 \<and> (\<forall>c \<in> set cs. char_bits c AND m = 0)"
  by (induction bits cs rule: or_chars.induct) (auto simp: or_and_zero)

lemma or_words_zero:
  fixes cs :: "'a::len word list"
  shows "or_words bits cs n AND m = 0 \<longleftrightarrow>
    bits AND m = 0 \<and> (\<forall>i < n. pack_word (take (32 div LENGTH('a)) (drop (i * (32 div LENGTH('a))) cs)) AND m = 0)"
  by (induction bits cs n rule: or_words.induct) (auto simp: Let_def or_and_zero All_less_Suc2 add.commute)

lemma take_bit_self_iff: "take_bit n k = k \<longleftrightarrow> (\<forall>i \<ge> n. \<not> bit (k :: int) i)"
proof
  assume "take_bit n k = k"
  then show "\<forall>i \<ge> n. \<not> bit k i" by (metis bit_take_bit_iff not_le)
next
  assume "\<forall>i \<ge> n. \<not> bit k i"
  then show "take_bit n k = k" by (intro bit_eqI) (auto simp: bit_take_bit_iff, meson not_le)
qed

lemma less_bits:
  fixes c :: "'a::len word"
  assumes "n < LENGTH('a)"
  shows "c < 2 ^ n \<longleftrightarrow> (\<forall>i \<ge> n. \<not> bit c i)"
proof -
  have "uint (2 ^ n :: 'a word) = 2 ^ n" using assms by (intro uint_2p) (simp add: word_gt_0)
  then have "c < 2 ^ n \<longleftrightarrow> uint c < 2 ^ n" by (simp add: word_less_def)
  also have "\<dots> \<longleftrightarrow> take_bit n (uint c) = uint c" by (simp add: take_bit_int_eq_self_iff)
  also have "\<dots> \<longleftrightarrow> (\<forall>i \<ge> n. \<not> bit c i)" by (simp add: take_bit_self_iff bit_uint_iff) (use bit_imp_le_length in blast)
  finally show ?thesis .
qed

lemma bit_beyond [utf]:
  "8 \<le> n \<Longrightarrow> \<not> bit (b :: byte) n" "16 \<le> n \<Longrightarrow> \<not> bit (c :: char16) n" "32 \<le> n \<Longrightarrow> \<not> bit (w :: code_point) n"
  using bit_imp_le_length [of b n] bit_imp_le_length [of c n] bit_imp_le_length [of w n] by auto

lemma byte_less_0x80: "(c :: byte) < 0x80 \<longleftrightarrow> \<not> bit c 7"
proof -
  have "i = 7 \<or> \<not> bit c i" if "7 \<le> i" for i
    using that bit_beyond(1) [of i c] by (cases "i = 7") auto
  then have "(\<forall>i \<ge> 7. \<not> bit c i) \<longleftrightarrow> \<not> bit c 7" by auto
  then show ?thesis using less_bits [of 7 c] by simp
qed

lemma word_and_single: "w AND push_bit n 1 = 0 \<longleftrightarrow> \<not> bit (w :: 'a::len word) n"
  by (simp add: bit_iff_and_push_bit_not_eq_0)

lemma mask_byte: "w AND 0x80808080 = 0 \<longleftrightarrow> \<not> bit (w :: 32 word) 7 \<and> \<not> bit w 15 \<and> \<not> bit w 23 \<and> \<not> bit w 31"
proof -
  have "(0x80808080 :: 32 word) = push_bit 7 1 OR (push_bit 15 1 OR (push_bit 23 1 OR push_bit 31 1))" by simp
  then have "w AND 0x80808080 = 0 \<longleftrightarrow> (push_bit 7 1 OR (push_bit 15 1 OR (push_bit 23 1 OR push_bit 31 1))) AND w = 0"
    by (simp add: and.commute)
  then show ?thesis unfolding or_and_zero by (simp only: and.commute [of _ w] word_and_single)
qed

lemma mask_char16: "w AND 0xFF80FF80 = 0 \<longleftrightarrow> (\<forall>i < 9. \<not> bit (w :: 32 word) (7 + i) \<and> \<not> bit w (23 + i))"
proof -
  have "(0xFF80FF80 :: 32 word) = push_bit 7 (mask 9) OR push_bit 23 (mask 9)" by (simp add: mask_eq_exp_minus_1)
  then have "w AND 0xFF80FF80 = 0 \<longleftrightarrow> (push_bit 7 (mask 9) OR push_bit 23 (mask 9)) AND w = 0"
    by (simp add: and.commute)
  moreover have "push_bit k (mask 9) AND w = 0 \<longleftrightarrow> (\<forall>i < 9. \<not> bit w (k + i))" for k
  proof -
    have lt: "bit w n \<Longrightarrow> n < 32" for n using bit_imp_le_length [of w n] by simp
    have "push_bit k (mask 9) AND w = 0 \<longleftrightarrow> (\<forall>n. \<not> (k \<le> n \<and> n - k < 9 \<and> bit w n))"
      using lt by (auto simp: bit_eq_iff bit_simps)
    also have "\<dots> \<longleftrightarrow> (\<forall>i < 9. \<not> bit w (k + i))" by (metis add_diff_cancel_left' le_add1 le_add_diff_inverse)
    finally show ?thesis .
  qed
  ultimately show ?thesis unfolding or_and_zero by auto
qed

lemma char_bits8: "char_bits (c :: byte) AND 0x80808080 = 0 \<longleftrightarrow> c < 0x80"
  by (simp add: char_bits_def mask_byte byte_less_0x80 bit_simps)

lemma pack8: "pack_word [a, b, c, d :: byte] AND 0x80808080 = 0 \<longleftrightarrow> a < 0x80 \<and> b < 0x80 \<and> c < 0x80 \<and> d < 0x80"
  by (auto simp: mask_byte byte_less_0x80 bit_simps utf)

lemma char16_less_0x80: "(c :: char16) < 0x80 \<longleftrightarrow> (\<forall>i < 9. \<not> bit c (7 + i))"
proof -
  have "(\<forall>i \<ge> 7. \<not> bit c i) \<longleftrightarrow> (\<forall>i < 9. \<not> bit c (7 + i))"
  proof (intro iffI allI impI)
    fix i :: nat assume *: "\<forall>i < 9. \<not> bit c (7 + i)" "7 \<le> i"
    then have "bit c i \<Longrightarrow> i - 7 < 9" using bit_imp_le_length [of c i] by simp
    then show "\<not> bit c i" using *(1) [rule_format, of "i - 7"] *(2) by auto
  qed auto
  then show ?thesis using less_bits [of 7 c] by simp
qed

lemma char_bits16: "char_bits (c :: char16) AND 0xFF80FF80 = 0 \<longleftrightarrow> c < 0x80"
  by (auto simp: char_bits_def mask_char16 char16_less_0x80 bit_simps utf)

lemma pack16: "pack_word [a, b :: char16] AND 0xFF80FF80 = 0 \<longleftrightarrow> a < 0x80 \<and> b < 0x80"
  by (auto simp: mask_char16 char16_less_0x80 bit_simps utf)


text \<open>
  The words that are read cover the aligned characters that a whole word fits on; the rest is read
  one by one.
\<close>

lemma or_words_chars:
  fixes cs :: "'a::len word list"
  defines "k \<equiv> 32 div LENGTH('a)"
  assumes "0 < k" "\<And>ds :: 'a word list. length ds = k \<Longrightarrow> pack_word ds AND m = 0 \<longleftrightarrow> (\<forall>c \<in> set ds. P c)"
    and "n * k \<le> length cs"
  shows "or_words bits cs n AND m = 0 \<longleftrightarrow> bits AND m = 0 \<and> (\<forall>c \<in> set (take (n * k) cs). P c)"
  using assms(4)
proof (induction n arbitrary: bits cs)
  case (Suc n)
  then have "pack_word (take k cs) AND m = 0 \<longleftrightarrow> (\<forall>c \<in> set (take k cs). P c)" "n * k \<le> length (drop k cs)"
    using assms(3) [of "take k cs"] by simp_all
  moreover have "set (take (Suc n * k) cs) = set (take k cs) \<union> set (take (n * k) (drop k cs))"
    by (metis mult_Suc set_append take_add)
  ultimately show ?case using Suc.IH [of "drop k cs"] unfolding k_def by (auto simp: Let_def or_and_zero)
qed simp

lemma DoIsStringASCII_chars:
  fixes cs :: "'a::len word list"
  defines "k \<equiv> 32 div LENGTH('a)" and "m \<equiv> NonASCIIMask TYPE('a)"
  assumes "0 < k" "\<And>ds :: 'a word list. length ds = k \<Longrightarrow> pack_word ds AND m = 0 \<longleftrightarrow> (\<forall>c \<in> set ds. P c)"
    and "\<And>c :: 'a word. char_bits c AND m = 0 \<longleftrightarrow> P c"
  shows "DoIsStringASCII align cs \<longleftrightarrow> (\<forall>c \<in> set cs. P c)"
proof -
  let ?a = "drop align cs" let ?n = "length ?a div k"
  have le: "?n * (32 div LENGTH('a)) \<le> length ?a" unfolding k_def by (rule div_times_less_eq_dividend)
  have "DoIsStringASCII align cs \<longleftrightarrow>
      (\<forall>c \<in> set (take align cs). P c) \<and> (\<forall>c \<in> set (take (?n * k) ?a). P c) \<and> (\<forall>c \<in> set (drop (?n * k) ?a). P c)"
    using or_words_chars [OF assms(3,4) [unfolded k_def] le] assms(5)
    by (auto simp: DoIsStringASCII_def Let_def or_chars_zero k_def m_def)
  also have "\<dots> \<longleftrightarrow> (\<forall>c \<in> set cs. P c)"
    by (metis Un_iff append_take_drop_id set_append)
  finally show ?thesis .
qed

lemma IsStringASCII8: "DoIsStringASCII align (s :: byte list) \<longleftrightarrow> is_ascii s"
proof -
  have "pack_word ds AND NonASCIIMask TYPE(8) = 0 \<longleftrightarrow> (\<forall>c \<in> set ds. c < 0x80)"
    if "length ds = 4" for ds :: "byte list"
    using that pack8 by (auto simp: NonASCIIMask_def length_Suc_conv numeral_eq_Suc simp del: pack_word.simps)
  then show ?thesis unfolding is_ascii_def
    by (intro DoIsStringASCII_chars) (simp_all add: NonASCIIMask_def char_bits8)
qed

lemma IsStringASCII16: "DoIsStringASCII align (s :: char16 list) \<longleftrightarrow> is_ascii s"
proof -
  have "pack_word ds AND NonASCIIMask TYPE(16) = 0 \<longleftrightarrow> (\<forall>c \<in> set ds. c < 0x80)"
    if "length ds = 2" for ds :: "char16 list"
    using that pack16 by (auto simp: NonASCIIMask_def length_Suc_conv numeral_eq_Suc simp del: pack_word.simps)
  then show ?thesis unfolding is_ascii_def
    by (intro DoIsStringASCII_chars) (simp_all add: NonASCIIMask_def char_bits16)
qed


text \<open>The address of the characters does not matter, so the callers below take an aligned one.\<close>

definition IsStringASCII :: "'a::len word list \<Rightarrow> bool" where
  "IsStringASCII s = DoIsStringASCII 0 s"

lemma IsStringASCII_iff [simp]:
  "IsStringASCII (b :: byte list) \<longleftrightarrow> is_ascii b" "IsStringASCII (w :: char16 list) \<longleftrightarrow> is_ascii w"
  by (simp_all add: IsStringASCII_def IsStringASCII8 IsStringASCII16)

subsection \<open>Every read moves on\<close>

lemma skip_trail_le: "i \<le> skip_trail s i n"
  by (induction s i n rule: skip_trail.induct) auto

lemma trail_bytes_le: "trail_bytes s n i c = (i', c', ill) \<Longrightarrow> i \<le> i'"
  by (auto simp: trail_bytes_def Let_def split: if_splits)

lemma utf8_nextCharSafeBody_le: "utf8_nextCharSafeBody s i len c strict = (i', c') \<Longrightarrow> i \<le> i'"
  by (auto simp: utf8_nextCharSafeBody_def Let_def skip_trail_le split: if_splits prod.splits dest: trail_bytes_le)

lemma CBU8_NEXT_less: "CBU8_NEXT s i len = (i', c) \<Longrightarrow> i < i'"
  by (auto simp: CBU8_NEXT_def split: if_splits dest!: utf8_nextCharSafeBody_le)

lemma ReadUnicodeCharacter8_le: "ReadUnicodeCharacter8 s len i = (i', r) \<Longrightarrow> i \<le> i'"
  by (auto simp: ReadUnicodeCharacter8_def split: prod.splits dest!: CBU8_NEXT_less)

lemma ReadUnicodeCharacter16_le: "ReadUnicodeCharacter16 s len i = (i', r) \<Longrightarrow> i \<le> i'"
  by (auto simp: ReadUnicodeCharacter16_def Let_def split: if_splits)

subsection \<open>Conversion of strings\<close>

text \<open>The two instances of the template \<^verbatim>\<open>ConvertUnicode\<close>, which report success and append to the output.\<close>

function Convert8to16_loop :: "byte list \<Rightarrow> nat \<Rightarrow> bool \<Rightarrow> char16 list \<Rightarrow> bool \<times> char16 list" where
  "Convert8to16_loop src i success output =
     (if i < length src then
        case ReadUnicodeCharacter8 src (length src) i of
          (i', Some c) \<Rightarrow> Convert8to16_loop src (i' + 1) success (fst (WriteUnicodeCharacter16 c output))
        | (i', None) \<Rightarrow> Convert8to16_loop src (i' + 1) False (fst (WriteUnicodeCharacter16 0xFFFD output))
      else (success, output))"
  by pat_completeness auto

termination
  by (relation "measure (\<lambda>(src, i, _, _). length src - i)")
    (auto dest!: sym [of _ "ReadUnicodeCharacter8 _ _ _"] ReadUnicodeCharacter8_le)

function Convert16to8_loop :: "char16 list \<Rightarrow> nat \<Rightarrow> bool \<Rightarrow> byte list \<Rightarrow> bool \<times> byte list" where
  "Convert16to8_loop src i success output =
     (if i < length src then
        case ReadUnicodeCharacter16 src (length src) i of
          (i', Some c) \<Rightarrow> Convert16to8_loop src (i' + 1) success (fst (WriteUnicodeCharacter8 c output))
        | (i', None) \<Rightarrow> Convert16to8_loop src (i' + 1) False (fst (WriteUnicodeCharacter8 0xFFFD output))
      else (success, output))"
  by pat_completeness auto

termination
  by (relation "measure (\<lambda>(src, i, _, _). length src - i)")
    (auto dest!: sym [of _ "ReadUnicodeCharacter16 _ _ _"] ReadUnicodeCharacter16_le)

declare Convert8to16_loop.simps [simp del] Convert16to8_loop.simps [simp del]

text \<open>On Windows \<^verbatim>\<open>wchar_t\<close> is \<^verbatim>\<open>char16\<close>, and the \<^verbatim>\<open>UTF16\<close> conversions are the \<^verbatim>\<open>Wide\<close> ones.\<close>

definition UTF8ToWide_success :: "byte list \<Rightarrow> bool \<times> char16 list" where
  "UTF8ToWide_success src = (if IsStringASCII src then (True, map scast src) else Convert8to16_loop src 0 True [])"

definition UTF8ToWide :: "byte list \<Rightarrow> char16 list" where
  "UTF8ToWide utf8 = (if IsStringASCII utf8 then map scast utf8 else snd (Convert8to16_loop utf8 0 True []))"

definition WideToUTF8_success :: "char16 list \<Rightarrow> bool \<times> byte list" where
  "WideToUTF8_success src = (if IsStringASCII src then (True, map ucast src) else Convert16to8_loop src 0 True [])"

definition WideToUTF8 :: "char16 list \<Rightarrow> byte list" where
  "WideToUTF8 wide = (if IsStringASCII wide then map ucast wide else snd (Convert16to8_loop wide 0 True []))"

definition ASCIIToUTF16 :: "byte list \<Rightarrow> char16 list result" where
  "ASCIIToUTF16 ascii = require (IsStringASCII ascii) (Dcheck ''IsStringASCII(ascii)'') (Inr (map scast ascii))"

definition UTF16ToASCII :: "char16 list \<Rightarrow> byte list result" where
  "UTF16ToASCII utf16 = require (IsStringASCII utf16) (Dcheck ''IsStringASCII(utf16)'') (Inr (map ucast utf16))"

function IsStringUTF8_loop :: "byte list \<Rightarrow> nat \<Rightarrow> bool" where
  "IsStringUTF8_loop src char_index =
     (if char_index < length src then
        let (i, c) = CBU8_NEXT src char_index (length src)
        in if IsValidCharacter c then IsStringUTF8_loop src i else False
      else True)"
  by pat_completeness auto

termination
  by (relation "measure (\<lambda>(src, i). length src - i)")
    (auto dest!: sym [of _ "CBU8_NEXT _ _ _"] CBU8_NEXT_less)

declare IsStringUTF8_loop.simps [simp del]

definition IsStringUTF8 :: "byte list \<Rightarrow> bool" where
  "IsStringUTF8 str = IsStringUTF8_loop str 0"

text \<open>The loop of \<^verbatim>\<open>TruncateUTF8ToByteSize\<close>; \<open>n\<close> is \<^verbatim>\<open>char_index + 1\<close>, 0 when the index ran below zero.\<close>

fun truncate_loop :: "byte list \<Rightarrow> nat \<Rightarrow> nat \<Rightarrow> nat option" where
  "truncate_loop data truncation_length 0 = None"
| "truncate_loop data truncation_length (Suc prev) =
     (let (char_index, c) = CBU8_NEXT data prev truncation_length
      in if \<not> IsValidCharacter c \<or> \<not> IsValidCodepoint c then truncate_loop data truncation_length prev
         else Some char_index)"

definition TruncateUTF8ToByteSize :: "byte list \<Rightarrow> nat \<Rightarrow> byte list" where
  "TruncateUTF8ToByteSize input byte_size =
     (if byte_size > length input then input
      else case truncate_loop input byte_size byte_size of
             Some char_index \<Rightarrow> take char_index input
           | None \<Rightarrow> [])"

subsection \<open>Reading back what was written\<close>

lemma or_add: "x AND y = 0 \<Longrightarrow> x OR y = x + (y :: 'a::len word)"
  by (simp add: disjunctive_add_eq_or)

lemma or_mark:
  fixes x :: "'a::len word"
  assumes "x < 2 ^ k" "k < LENGTH('a)"
  shows "x OR push_bit k m = x + push_bit k m"
proof -
  have "x AND push_bit k m = 0"
    using assms less_bits [of k x] by (auto simp: bit_eq_iff bit_simps)
  then show ?thesis by (rule or_add)
qed

lemma unat_byte: "unat (ucast (w :: code_point) :: byte) = unat w mod 256"
  by (simp add: unsigned_ucast_eq take_bit_eq_mod)

lemma unat_mark:
  fixes x :: code_point
  assumes "x < 2 ^ k" "k < 32" "unat x + unat (push_bit k m) < 256"
  shows "unat (ucast (x OR push_bit k m) :: byte) = unat x + unat (push_bit k m)"
proof -
  have "x OR push_bit k m = x + push_bit k m" using assms(1,2) by (intro or_mark) simp_all
  then show ?thesis using assms(3) by (simp add: unat_byte unat_word_ariths)
qed

lemma lead_unat:
  fixes x :: code_point
  shows "x < 0x20 \<Longrightarrow> unat (ucast (x OR 0xc0) :: byte) = unat x + 192"
    "x < 0x10 \<Longrightarrow> unat (ucast (x OR 0xe0) :: byte) = unat x + 224"
    "x < 0x8 \<Longrightarrow> unat (ucast (x OR 0xf0) :: byte) = unat x + 240"
  using unat_mark [of x 5 6] unat_mark [of x 4 14] unat_mark [of x 3 30]
  by (simp_all add: word_less_nat_alt)

lemma trail_unat: "x < 0x40 \<Longrightarrow> unat (ucast (x OR 0x80) :: byte) = unat x + 128" for x :: code_point
  using unat_mark [of x 6 2] by (simp_all add: word_less_nat_alt)


text \<open>The simplifier turns the bits of a numeral word into the bits of the integer.\<close>

lemma bit_masks [utf]:
  "bit (0x3f :: int) n \<longleftrightarrow> n < 6" "bit (0x1f :: int) n \<longleftrightarrow> n < 5" "bit (0xf :: int) n \<longleftrightarrow> n < 4"
  "bit (0x7 :: int) n \<longleftrightarrow> n < 3" "bit (0x3ff :: int) n \<longleftrightarrow> n < 10"
proof -
  have "(0x3f :: int) = mask 6" "(0x1f :: int) = mask 5" "(0xf :: int) = mask 4" "(0x7 :: int) = mask 3"
    "(0x3ff :: int) = mask 10" by (simp_all add: mask_eq_exp_minus_1)
  then show "bit (0x3f :: int) n \<longleftrightarrow> n < 6" "bit (0x1f :: int) n \<longleftrightarrow> n < 5" "bit (0xf :: int) n \<longleftrightarrow> n < 4"
    "bit (0x7 :: int) n \<longleftrightarrow> n < 3" "bit (0x3ff :: int) n \<longleftrightarrow> n < 10"
    by (auto simp only: bit_mask_iff possible_bit_int)
qed

lemma bit_marks [utf]:
  "bit (0x80 :: int) n \<longleftrightarrow> n = 7" "bit (0xc0 :: int) n \<longleftrightarrow> n = 6 \<or> n = 7"
  "bit (0xe0 :: int) n \<longleftrightarrow> n = 5 \<or> n = 6 \<or> n = 7" "bit (0xf0 :: int) n \<longleftrightarrow> n = 4 \<or> n = 5 \<or> n = 6 \<or> n = 7"
proof -
  have "(0x80 :: int) = push_bit 7 (mask 1)" "(0xc0 :: int) = push_bit 6 (mask 2)"
    "(0xe0 :: int) = push_bit 5 (mask 3)" "(0xf0 :: int) = push_bit 4 (mask 4)"
    by (simp_all add: mask_eq_exp_minus_1)
  then show "bit (0x80 :: int) n \<longleftrightarrow> n = 7" "bit (0xc0 :: int) n \<longleftrightarrow> n = 6 \<or> n = 7"
    "bit (0xe0 :: int) n \<longleftrightarrow> n = 5 \<or> n = 6 \<or> n = 7" "bit (0xf0 :: int) n \<longleftrightarrow> n = 4 \<or> n = 5 \<or> n = 6 \<or> n = 7"
    by (auto simp only: bit_push_bit_iff bit_mask_iff possible_bit_int)
qed

lemma bits_above: "c < 2 ^ k \<Longrightarrow> k < 32 \<Longrightarrow> bit (c :: code_point) n \<Longrightarrow> n < k"
  using less_bits [of k c] by (auto simp: not_le [symmetric])

lemma decode_trail:
  fixes x :: code_point
  assumes "x < 0x40"
  shows "ucast (ucast (x OR 0x80) :: byte) AND (0x3f :: code_point) = x"
    "((ucast (x OR 0x80) :: byte) AND 0xc0) XOR 0x80 = 0"
proof -
  have x: "bit x n \<Longrightarrow> n < 6" for n using bits_above [of x 6 n] assms by simp
  show "ucast (ucast (x OR 0x80) :: byte) AND (0x3f :: code_point) = x"
    by (intro bit_word_eqI) (auto simp: bit_simps utf dest: x)
  show "((ucast (x OR 0x80) :: byte) AND 0xc0) XOR 0x80 = 0"
    by (intro bit_word_eqI) (auto simp: bit_simps utf dest: x)
qed

lemma decode_lead:
  fixes x :: code_point
  shows "x < 0x20 \<Longrightarrow> scast (ucast (x OR 0xc0) :: byte) AND 0x1f = x"
    "x < 0x10 \<Longrightarrow> scast (ucast (x OR 0xe0) :: byte) AND 0xf = x"
    "x < 0x8 \<Longrightarrow> scast (ucast (x OR 0xf0) :: byte) AND 0x7 = x"
proof -
  show "x < 0x20 \<Longrightarrow> scast (ucast (x OR 0xc0) :: byte) AND 0x1f = x"
    using bits_above [of x 5] by (intro bit_word_eqI) (auto simp: bit_simps utf)
  show "x < 0x10 \<Longrightarrow> scast (ucast (x OR 0xe0) :: byte) AND 0xf = x"
    using bits_above [of x 4] by (intro bit_word_eqI) (auto simp: bit_simps utf)
  show "x < 0x8 \<Longrightarrow> scast (ucast (x OR 0xf0) :: byte) AND 0x7 = x"
    using bits_above [of x 3] by (intro bit_word_eqI) (auto simp: bit_simps utf)
qed

lemma join_bits: "push_bit 6 (drop_bit 6 c) OR (c AND 0x3f) = (c :: code_point)"
  by (intro bit_word_eqI) (auto simp: bit_simps utf)

lemma drop_join: "push_bit 6 (drop_bit 12 c) OR (drop_bit 6 c AND 0x3f) = drop_bit 6 (c :: code_point)"
  "push_bit 6 (drop_bit 18 c) OR (drop_bit 12 c AND 0x3f) = drop_bit 12 (c :: code_point)"
  using join_bits [of "drop_bit 6 c"] join_bits [of "drop_bit 12 c"] by simp_all


lemma lead_facts:
  fixes b :: byte
  assumes "unat b = k + 192" "k < 62"
  shows "0x80 \<le> b" "CBU8_IS_LEAD b"
    "utf8_countTrailBytes ! unat b = (if k < 32 then 1 else if k < 48 then 2 else if k < 56 then 3 else if k < 60 then 4 else 5)"
proof -
  show "0x80 \<le> b" using assms by (simp add: word_le_nat_alt)
  then have "unat (b - 0xc0) = k" using assms by (simp add: unat_sub word_le_nat_alt)
  then show "CBU8_IS_LEAD b" using assms(2) by (simp add: CBU8_IS_LEAD_def word_less_nat_alt)
  show "utf8_countTrailBytes ! unat b = (if k < 32 then 1 else if k < 48 then 2 else if k < 56 then 3 else if k < 60 then 4 else 5)"
    using assms by (auto simp: utf8_countTrailBytes_def nth_append nth_Cons')
qed

lemma drop_bit_less: "c < 2 ^ (n + k) \<Longrightarrow> n + k < 32 \<Longrightarrow> drop_bit n c < (2 ^ k :: code_point)"
  using less_bits [of "n + k" c] less_bits [of k "drop_bit n c"] by (auto simp: bit_simps)

lemma and_less: "(c AND 0x3f :: code_point) < 0x40"
  using less_bits [of 6 "c AND 0x3f"] by (auto simp: bit_simps utf)

lemma sint_code: "c < 0x80000000 \<Longrightarrow> sint (c :: code_point) = uint c"
proof -
  assume "c < 0x80000000"
  then have "uint c < 2 ^ 31" by (simp add: word_less_def)
  then have "signed_take_bit 31 (uint c) = uint c" by (simp add: signed_take_bit_int_eq_self_iff order.trans [of "- 2147483648" 0])
  then show ?thesis by (simp add: sint_uint)
qed

lemma ucast_scast_byte: "(ucast (scast b :: code_point) :: byte) = b"
proof (rule bit_word_eqI)
  fix n assume "n < LENGTH(8)"
  then have "min 7 n = n" by simp
  then show "bit (ucast (scast b :: code_point) :: byte) n = bit b n" using \<open>n < LENGTH(8)\<close> by (simp add: bit_simps)
qed

lemma valid_not_surrogate: "IsValidCodepoint c \<Longrightarrow> \<not> CBU_IS_SURROGATE c"
proof
  assume v: "IsValidCodepoint c" and "CBU_IS_SURROGATE c"
  then have "drop_bit 11 (c AND 0xfffff800) = drop_bit 11 0xd800" by (simp add: CBU_IS_SURROGATE_def)
  moreover have "drop_bit 11 (c AND 0xfffff800) = drop_bit 11 c"
  proof -
    have "bit (0x1fffff :: int) n \<longleftrightarrow> n < 21" for n
      using bit_mask_iff [of 21 n, where 'a = int] by (simp add: mask_eq_exp_minus_1)
    then have "drop_bit 11 c AND 0x1fffff = drop_bit 11 c"
      using bit_imp_le_length [of c] by (intro bit_word_eqI) (fastforce simp: bit_simps)
    then show ?thesis by (simp add: drop_bit_and)
  qed
  ultimately have "drop_bit 11 c = 27" by simp
  then have "unat (drop_bit 11 c) = 27" by simp
  then have "unat c div 2048 = 27" by (simp add: drop_bit_eq_div unat_div)
  then show False using v by (auto simp: IsValidCodepoint_def word_less_nat_alt word_le_nat_alt)
qed

text \<open>The decoder on a lead byte with the given number of trail bytes, all of them marked.\<close>

lemma body_ok:
  fixes b :: byte
  assumes "utf8_countTrailBytes ! unat b = n" "0 < n" "i + n \<le> len"
    and "trail_bytes s n i (scast b AND (2 ^ (6 - n) - 1)) = (i', c, 0)"
    and "utf8_minLegal ! n \<le> uint c" "IsValidCodepoint c"
  shows "utf8_nextCharSafeBody s i len (scast b) (- 1) = (i', c)"
proof -
  have "c < 0x80000000" using assms(6) by (auto simp: IsValidCodepoint_def word_less_nat_alt word_le_nat_alt)
  then have "\<not> sint c < utf8_minLegal ! n" using assms(5) by (simp add: sint_code)
  then show ?thesis using assms valid_not_surrogate [OF assms(6)]
    by (simp add: utf8_nextCharSafeBody_def ucast_scast_byte Let_def)
qed

lemma next_trail_ok:
  assumes "s ! i = ucast (x OR 0x80)" "x < 0x40"
  shows "next_trail s (i, c, ill) = (i + 1, push_bit 6 c OR x, ill)"
  using decode_trail [OF assms(2)] assms(1) by simp

declare next_trail.simps [simp del]

lemma CBU8_NEXT_APPEND:
  assumes "IsValidCodepoint c"
  shows "CBU8_NEXT (pre @ CBU8_APPEND_UNSAFE c @ post) (length pre) (length (pre @ CBU8_APPEND_UNSAFE c @ post)) =
    (length pre + length (CBU8_APPEND_UNSAFE c), c)"
proof -
  let ?s = "pre @ CBU8_APPEND_UNSAFE c @ post" let ?i = "length pre" let ?lo = "c AND 0x3f"
  let ?mid = "drop_bit 6 c AND 0x3f" let ?hi = "drop_bit 12 c AND 0x3f"
  note next_ok = next_trail_ok [OF _ and_less]
  consider "c \<le> 0x7f" | "\<not> c \<le> 0x7f" "c \<le> 0x7ff" | "\<not> c \<le> 0x7ff" "c \<le> 0xffff" | "\<not> c \<le> 0xffff" "c \<le> 0x10ffff"
  proof -
    have "c \<le> 0x10ffff" using assms by (auto simp: IsValidCodepoint_def word_le_nat_alt word_less_nat_alt)
    then show ?thesis using that by blast
  qed
  then show ?thesis
  proof cases
    case 1
    then have u: "unat (ucast c :: byte) = unat c" "unat c < 128" by (simp_all add: unat_byte word_le_nat_alt)
    then have "\<not> (ucast c :: byte) \<ge> 0x80" by (simp add: word_le_nat_alt)
    moreover have "scast (ucast c :: byte) = c"
    proof (rule bit_word_eqI)
      fix n assume "n < LENGTH(32)"
      have "bit c n \<Longrightarrow> n < 7" for n using bits_above [of c 7] 1 by (simp add: word_le_nat_alt word_less_nat_alt)
      then show "bit (scast (ucast c :: byte) :: code_point) n = bit c n"
        using \<open>n < LENGTH(32)\<close> by (cases "n < 7") (auto simp: bit_simps min_def)
    qed
    ultimately show ?thesis using 1 by (simp add: CBU8_NEXT_def CBU8_APPEND_UNSAFE_def)
  next
    case 2
    let ?x = "drop_bit 6 c" let ?b = "ucast (?x OR 0xc0) :: byte"
    have x: "?x < 0x20" "unat ?x < 32" using drop_bit_less [of c 6 5] 2 by (simp_all add: word_le_nat_alt word_less_nat_alt)
    have app: "CBU8_APPEND_UNSAFE c = [?b, ucast (?lo OR 0x80)]"
      using 2 by (simp add: CBU8_APPEND_UNSAFE_def)
    have "trail_bytes ?s 1 (?i + 1) (scast ?b AND (2 ^ (6 - 1) - 1)) = (?i + 2, c, 0)"
      using decode_lead(1) [OF x(1)] join_bits [of c] by (simp add: trail_bytes_def app nth_append next_ok)
    moreover have l: "0x80 \<le> ?b" "CBU8_IS_LEAD ?b" "utf8_countTrailBytes ! unat ?b = 1"
      using lead_facts [OF lead_unat(1) [OF x(1)]] x(2) by auto
    ultimately have "utf8_nextCharSafeBody ?s (?i + 1) (length ?s) (scast ?b) (- 1) = (?i + 2, c)"
      using 2(1) assms by (intro body_ok) (auto simp: app utf8_minLegal_def word_le_def)
    then show ?thesis using l by (simp add: CBU8_NEXT_def app nth_append)
  next
    case 3
    let ?x = "drop_bit 12 c" let ?b = "ucast (?x OR 0xe0) :: byte"
    have x: "?x < 0x10" "unat ?x < 16" using drop_bit_less [of c 12 4] 3 by (simp_all add: word_le_nat_alt word_less_nat_alt)
    have "\<not> c \<le> 0x7f" using 3(1) by (simp add: word_le_nat_alt)
    then have app: "CBU8_APPEND_UNSAFE c = [?b, ucast (?mid OR 0x80), ucast (?lo OR 0x80)]"
      using 3 by (simp add: CBU8_APPEND_UNSAFE_def)
    have "trail_bytes ?s 2 (?i + 1) (scast ?b AND (2 ^ (6 - 2) - 1)) = (?i + 3, c, 0)"
      using decode_lead(2) [OF x(1)] join_bits [of c] drop_join(1) [of c]
      by (simp add: trail_bytes_def app nth_append next_ok)
    moreover have l: "0x80 \<le> ?b" "CBU8_IS_LEAD ?b" "utf8_countTrailBytes ! unat ?b = 2"
      using lead_facts [of ?b "unat ?x + 32"] lead_unat(2) [OF x(1)] x(2) by auto
    ultimately have "utf8_nextCharSafeBody ?s (?i + 1) (length ?s) (scast ?b) (- 1) = (?i + 3, c)"
      using 3(1) assms by (intro body_ok) (auto simp: app utf8_minLegal_def word_le_def)
    then show ?thesis using l by (simp add: CBU8_NEXT_def app nth_append)
  next
    case 4
    let ?x = "drop_bit 18 c" let ?b = "ucast (?x OR 0xf0) :: byte"
    have x: "?x < 0x8" "unat ?x < 8" using drop_bit_less [of c 18 3] 4 by (simp_all add: word_le_nat_alt word_less_nat_alt)
    have d: "sint (drop_bit 12 c) < 0x110"
    proof -
      have "unat (drop_bit 12 c) < 0x110"
        using 4(2) by (simp add: drop_bit_eq_div unat_div word_le_nat_alt)
      then have "drop_bit 12 c < 0x110" by (simp add: word_less_nat_alt)
      moreover from this have "drop_bit 12 c < 0x80000000" by (rule order.strict_trans) simp
      ultimately show ?thesis by (simp only: sint_code) (simp add: word_less_def)
    qed
    have "\<not> c \<le> 0x7f" "\<not> c \<le> 0x7ff" using 4(1) by (simp_all add: word_le_nat_alt)
    then have app: "CBU8_APPEND_UNSAFE c = [?b, ucast (?hi OR 0x80), ucast (?mid OR 0x80), ucast (?lo OR 0x80)]"
      using 4 by (simp add: CBU8_APPEND_UNSAFE_def)
    have "trail_bytes ?s 3 (?i + 1) (scast ?b AND (2 ^ (6 - 3) - 1)) = (?i + 4, c, 0)"
      using decode_lead(3) [OF x(1)] join_bits [of c] drop_join [of c] d
      by (simp add: trail_bytes_def app nth_append next_ok)
    moreover have l: "0x80 \<le> ?b" "CBU8_IS_LEAD ?b" "utf8_countTrailBytes ! unat ?b = 3"
      using lead_facts [of ?b "unat ?x + 48"] lead_unat(3) [OF x(1)] x(2) by auto
    ultimately have "utf8_nextCharSafeBody ?s (?i + 1) (length ?s) (scast ?b) (- 1) = (?i + 4, c)"
      using 4(1) assms by (intro body_ok) (auto simp: app utf8_minLegal_def word_le_def)
    then show ?thesis using l by (simp add: CBU8_NEXT_def app nth_append)
  qed
qed


subsection \<open>Surrogate pairs\<close>

lemma and_high: "w AND 0xfffff800 = push_bit 11 (drop_bit 11 (w :: code_point))"
  "w AND 0xfffffc00 = push_bit 10 (drop_bit 10 (w :: code_point))"
proof -
  have 1: "drop_bit 11 w AND 0x1fffff = drop_bit 11 w" "drop_bit 10 w AND 0x3fffff = drop_bit 10 w"
  proof -
    have "bit (0x1fffff :: int) n \<longleftrightarrow> n < 21" "bit (0x3fffff :: int) n \<longleftrightarrow> n < 22" for n
      using bit_mask_iff [of 21 n, where 'a = int] bit_mask_iff [of 22 n, where 'a = int]
      by (simp_all add: mask_eq_exp_minus_1)
    then show "drop_bit 11 w AND 0x1fffff = drop_bit 11 w" "drop_bit 10 w AND 0x3fffff = drop_bit 10 w"
      using bit_imp_le_length [of w] by (intro bit_word_eqI; fastforce simp: bit_simps)+
  qed
  have "push_bit 11 (drop_bit 11 w AND 0x1fffff) = w AND 0xfffff800"
    "push_bit 10 (drop_bit 10 w AND 0x3fffff) = w AND 0xfffffc00"
  proof -
    have high: "push_bit n (drop_bit n w) AND push_bit n m = w AND push_bit n m" for n and m :: code_point
      by (intro bit_word_eqI) (auto simp: bit_simps)
    from high [where n = 11 and m = "0x1fffff"] high [where n = 10 and m = "0x3fffff"]
    show "push_bit 11 (drop_bit 11 w AND 0x1fffff) = w AND 0xfffff800"
      "push_bit 10 (drop_bit 10 w AND 0x3fffff) = w AND 0xfffffc00" by (simp_all add: push_bit_and)
  qed
  then show "w AND 0xfffff800 = push_bit 11 (drop_bit 11 w)" "w AND 0xfffffc00 = push_bit 10 (drop_bit 10 w)"
    using 1 by simp_all
qed

lemma drop_push_unat: "unat (drop_bit n (w :: code_point)) = unat w div 2 ^ n"
  unfolding unat_drop_bit_eq by (simp add: drop_bit_eq_div)

lemma drop_push_drop: "drop_bit n (push_bit n (drop_bit n w)) = drop_bit n (w :: code_point)"
  using bit_imp_le_length [of w] by (intro bit_word_eqI) (fastforce simp: bit_simps)

lemma surrogate_iff: "CBU_IS_SURROGATE w \<longleftrightarrow> unat w div 2048 = 27"
proof -
  have "CBU_IS_SURROGATE w \<longleftrightarrow> drop_bit 11 w = 27"
  proof
    assume "CBU_IS_SURROGATE w"
    then have "drop_bit 11 (push_bit 11 (drop_bit 11 w)) = drop_bit 11 0xd800"
      by (simp only: CBU_IS_SURROGATE_def and_high)
    then show "drop_bit 11 w = 27" by (simp add: drop_push_drop)
  qed (simp add: CBU_IS_SURROGATE_def and_high)
  also have "\<dots> \<longleftrightarrow> unat (drop_bit 11 w) = unat (27 :: code_point)" by (simp only: word_unat_eq_iff)
  finally show ?thesis by (simp add: drop_push_unat)
qed


lemma trail16_iff: "CBU16_IS_TRAIL c \<longleftrightarrow> unat c div 1024 = 55"
proof -
  have "CBU16_IS_TRAIL c \<longleftrightarrow> drop_bit 10 (ucast c :: code_point) = 55"
  proof
    assume "CBU16_IS_TRAIL c"
    then have "drop_bit 10 (push_bit 10 (drop_bit 10 (ucast c :: code_point))) = drop_bit 10 0xdc00"
      by (simp only: CBU16_IS_TRAIL_def and_high)
    then show "drop_bit 10 (ucast c :: code_point) = 55" by (simp add: drop_push_drop)
  qed (simp add: CBU16_IS_TRAIL_def and_high)
  also have "\<dots> \<longleftrightarrow> unat (drop_bit 10 (ucast c :: code_point)) = unat (55 :: code_point)" by (simp only: word_unat_eq_iff)
  moreover have "unat (ucast c :: code_point) = unat c" 
    using unsigned_less [where w = c and 'a = nat] by (simp add: unsigned_ucast_eq take_bit_nat_eq_self)
  ultimately show ?thesis unfolding drop_push_unat by simp
qed

lemma lead16_iff: "CBU16_IS_SURROGATE_LEAD c \<longleftrightarrow> even (unat c div 1024)"
proof -
  have "CBU16_IS_SURROGATE_LEAD c \<longleftrightarrow> c AND push_bit 10 1 = 0" by (simp add: CBU16_IS_SURROGATE_LEAD_def)
  also have "\<dots> \<longleftrightarrow> \<not> bit c 10" by (rule word_and_single)
  also have "bit c 10 \<longleftrightarrow> bit (unat c) 10" by (auto simp: bit_simps dest: bit_imp_le_length)
  finally show ?thesis by (simp add: bit_iff_odd)
qed

lemma ucast_ucast16: "w < 0x10000 \<Longrightarrow> ucast (ucast w :: char16) = (w :: code_point)"
  using bits_above [of w 16] by (intro bit_word_eqI) (auto simp: bit_simps)

lemma supplementary:
  fixes c :: code_point
  assumes "0xffff < c" "c \<le> 0x10ffff"
  defines "lead \<equiv> drop_bit 10 c + 0xd7c0" and "trail \<equiv> (c AND 0x3ff) OR 0xdc00"
  shows "unat lead = unat c div 1024 + 0xd7c0" "unat trail = unat c mod 1024 + 0xdc00"
    "CBU16_GET_SUPPLEMENTARY (ucast lead) (ucast trail) = c"
proof -
  have d: "unat c div 1024 < 1088" using assms(2) by (simp add: word_le_nat_alt)
  then show l: "unat lead = unat c div 1024 + 0xd7c0"
    unfolding lead_def by (simp add: unat_word_ariths drop_push_unat)
  have low: "unat (c AND 0x3ff) = unat c mod 1024"
  proof -
    have "c AND 0x3ff = take_bit 10 c" by (simp add: take_bit_eq_mask mask_eq_exp_minus_1)
    then show ?thesis by (simp add: unsigned_take_bit_eq take_bit_eq_mod unat_mod)
  qed
  then have lt: "c AND 0x3ff < 2 ^ 10" by (simp add: word_less_nat_alt)
  have t: "trail = (c AND 0x3ff) + 0xdc00" using or_mark [OF lt, of 55] by (simp add: trail_def)
  show ut: "unat trail = unat c mod 1024 + 0xdc00"
    unfolding t using low by (simp add: unat_word_ariths)
  have "ucast (ucast lead :: char16) = lead" "ucast (ucast trail :: char16) = trail"
    using l ut d by (auto intro!: ucast_ucast16 simp: word_less_nat_alt)
  then have "CBU16_GET_SUPPLEMENTARY (ucast lead) (ucast trail) =
      push_bit 10 lead + trail - (push_bit 10 0xd800 + 0xdc00 - 0x10000)"
    by (simp add: CBU16_GET_SUPPLEMENTARY_def)
  also have "\<dots> = push_bit 10 (drop_bit 10 c) + (c AND 0x3ff)"
    unfolding t lead_def push_bit_eq_mult by (simp add: algebra_simps)
  also have "\<dots> = push_bit 10 (drop_bit 10 c) OR (c AND 0x3ff)"
    by (intro or_add [symmetric] bit_word_eqI) (auto simp: bit_simps utf)
  also have "\<dots> = c" by (intro bit_word_eqI) (auto simp: bit_simps utf)
  finally show "CBU16_GET_SUPPLEMENTARY (ucast lead) (ucast trail) = c" .
qed


lemma Read16_APPEND:
  assumes "IsValidCodepoint c"
  shows "ReadUnicodeCharacter16 (pre @ CBU16_APPEND_UNSAFE c @ post) (length (pre @ CBU16_APPEND_UNSAFE c @ post)) (length pre)
    = (length pre + length (CBU16_APPEND_UNSAFE c) - 1, Some c)"
proof (cases "c \<le> 0xffff")
  case True
  then have "ucast (ucast c :: char16) = c" by (intro ucast_ucast16) (simp add: word_le_nat_alt word_less_nat_alt)
  then show ?thesis using True assms valid_not_surrogate [OF assms]
    by (simp add: ReadUnicodeCharacter16_def CBU16_APPEND_UNSAFE_def)
next
  case False
  let ?lead = "drop_bit 10 c + 0xd7c0" and ?trail = "(c AND 0x3ff) OR 0xdc00"
  have c: "0xffff < c" "c \<le> 0x10ffff" "64 \<le> unat c div 1024" "unat c div 1024 < 1088"
    using False assms by (auto simp: IsValidCodepoint_def word_le_nat_alt word_less_nat_alt)
  note sup = supplementary [OF c(1,2)]
  have u: "unat (ucast ?lead :: char16) = unat ?lead" "unat (ucast ?trail :: char16) = unat ?trail"
    using sup(1,2) c(4) by (simp_all add: unsigned_ucast_eq take_bit_nat_eq_self)
  moreover have "ucast (ucast ?lead :: char16) = ?lead"
    using sup(1) c(4) by (intro ucast_ucast16) (simp add: word_less_nat_alt)
  moreover have "(unat c div 1024 + 55232) div 1024 = 54" "(unat c div 1024 + 55232) div 2048 = 27"
    "(unat c mod 1024 + 56320) div 1024 = 55"
    using c(3,4) by (auto intro!: div_nat_eqI less_imp_le simp: add.commute [of _ 56320])
  ultimately have "CBU_IS_SURROGATE (ucast (ucast ?lead :: char16))" "CBU16_IS_SURROGATE_LEAD (ucast ?lead)"
    "CBU16_IS_TRAIL (ucast ?trail)"
    unfolding surrogate_iff lead16_iff trail16_iff using sup(1,2) c(3,4) by auto
  then show ?thesis using False assms sup(3)
    by (simp add: ReadUnicodeCharacter16_def CBU16_APPEND_UNSAFE_def nth_append)
qed


subsection \<open>Encoded text\<close>

definition encode8 :: "code_point list \<Rightarrow> byte list" where
  "encode8 cs = concat (map CBU8_APPEND_UNSAFE cs)"

definition encode16 :: "code_point list \<Rightarrow> char16 list" where
  "encode16 cs = concat (map CBU16_APPEND_UNSAFE cs)"

lemma encode_simps [simp]:
  "encode8 [] = []" "encode8 (c # cs) = CBU8_APPEND_UNSAFE c @ encode8 cs" "encode8 (cs @ ds) = encode8 cs @ encode8 ds"
  "encode16 [] = []" "encode16 (c # cs) = CBU16_APPEND_UNSAFE c @ encode16 cs" "encode16 (cs @ ds) = encode16 cs @ encode16 ds"
  by (simp_all add: encode8_def encode16_def)

lemma Write_fst [simp]:
  "fst (WriteUnicodeCharacter8 c out) = out @ CBU8_APPEND_UNSAFE c"
  "fst (WriteUnicodeCharacter16 c out16) = out16 @ CBU16_APPEND_UNSAFE c"
  by (simp_all add: WriteUnicodeCharacter8_def WriteUnicodeCharacter16_def CBU8_APPEND_UNSAFE_def
      CBU16_APPEND_UNSAFE_def Let_def)

lemma APPEND_nonempty [simp]: "CBU8_APPEND_UNSAFE c \<noteq> []" "CBU16_APPEND_UNSAFE c \<noteq> []"
  by (simp_all add: CBU8_APPEND_UNSAFE_def CBU16_APPEND_UNSAFE_def)

lemma Convert8to16_encode:
  assumes "list_all IsValidCodepoint cs"
  shows "Convert8to16_loop (pre @ encode8 cs) (length pre) ok out = (ok, out @ encode16 cs)"
  using assms
proof (induction cs arbitrary: pre out)
  case (Cons c cs)
  let ?src = "pre @ encode8 (c # cs)" let ?a = "CBU8_APPEND_UNSAFE c"
  have "ReadUnicodeCharacter8 ?src (length ?src) (length pre) = (length pre + length ?a - 1, Some c)"
    using CBU8_NEXT_APPEND [of c pre "encode8 cs"] Cons.prems by (simp add: ReadUnicodeCharacter8_def)
  moreover have "length pre + length ?a - 1 + 1 = length (pre @ ?a)" "length pre < length ?src"
    by (cases ?a; simp)+
  moreover have "Convert8to16_loop ((pre @ ?a) @ encode8 cs) (length (pre @ ?a)) ok (out @ CBU16_APPEND_UNSAFE c) =
      (ok, (out @ CBU16_APPEND_UNSAFE c) @ encode16 cs)"
    using Cons.prems by (intro Cons.IH) simp
  ultimately show ?case by (subst Convert8to16_loop.simps) (simp del: One_nat_def)
qed (simp add: Convert8to16_loop.simps)

lemma Convert16to8_encode:
  assumes "list_all IsValidCodepoint cs"
  shows "Convert16to8_loop (pre @ encode16 cs) (length pre) ok out = (ok, out @ encode8 cs)"
  using assms
proof (induction cs arbitrary: pre out)
  case (Cons c cs)
  let ?src = "pre @ encode16 (c # cs)" let ?a = "CBU16_APPEND_UNSAFE c"
  have "ReadUnicodeCharacter16 ?src (length ?src) (length pre) = (length pre + length ?a - 1, Some c)"
    using Read16_APPEND [of c pre "encode16 cs"] Cons.prems by simp
  moreover have "length pre + length ?a - 1 + 1 = length (pre @ ?a)" "length pre < length ?src"
    by (cases ?a; simp)+
  moreover have "Convert16to8_loop ((pre @ ?a) @ encode16 cs) (length (pre @ ?a)) ok (out @ CBU8_APPEND_UNSAFE c) =
      (ok, (out @ CBU8_APPEND_UNSAFE c) @ encode8 cs)"
    using Cons.prems by (intro Cons.IH) simp
  ultimately show ?case by (subst Convert16to8_loop.simps) (simp del: One_nat_def)
qed (simp add: Convert16to8_loop.simps)

text \<open>Whatever the input, the output is the encoding of valid code points.\<close>

lemma Convert8to16_wellformed:
  "Convert8to16_loop src i ok out = (ok', out') \<Longrightarrow> \<exists>cs. list_all IsValidCodepoint cs \<and> out' = out @ encode16 cs"
proof (induction src i ok out rule: Convert8to16_loop.induct)
  case (1 src i ok out)
  obtain i' r where r: "ReadUnicodeCharacter8 src (length src) i = (i', r)" by fastforce
  show ?case
  proof (cases "i < length src")
    case False
    then show ?thesis using "1.prems" by (intro exI [of _ "[]"]) (simp add: Convert8to16_loop.simps)
  next
    case True
    define c where "c = (case r of Some c \<Rightarrow> c | None \<Rightarrow> 0xFFFD)"
    have v: "IsValidCodepoint c" using r
      by (auto simp: c_def ReadUnicodeCharacter8_def IsValidCodepoint_def split: option.split prod.splits if_splits)
    have "\<exists>cs. list_all IsValidCodepoint cs \<and> out' = (out @ CBU16_APPEND_UNSAFE c) @ encode16 cs"
    proof (cases r)
      case None
      then show ?thesis using "1.IH"(1) [OF True r [symmetric] None] "1.prems" True r
        by (simp add: Convert8to16_loop.simps [of src i] c_def)
    next
      case (Some d)
      then show ?thesis using "1.IH"(2) [OF True r [symmetric] Some] "1.prems" True r
        by (simp add: Convert8to16_loop.simps [of src i] c_def)
    qed
    then show ?thesis using v by (metis (no_types, lifting) append_assoc encode_simps(5) list.pred_inject(2))
  qed
qed

lemma Convert16to8_wellformed:
  "Convert16to8_loop src i ok out = (ok', out') \<Longrightarrow> \<exists>cs. list_all IsValidCodepoint cs \<and> out' = out @ encode8 cs"
proof (induction src i ok out rule: Convert16to8_loop.induct)
  case (1 src i ok out)
  obtain i' r where r: "ReadUnicodeCharacter16 src (length src) i = (i', r)" by fastforce
  show ?case
  proof (cases "i < length src")
    case False
    then show ?thesis using "1.prems" by (intro exI [of _ "[]"]) (simp add: Convert16to8_loop.simps)
  next
    case True
    define c where "c = (case r of Some c \<Rightarrow> c | None \<Rightarrow> 0xFFFD)"
    have v: "IsValidCodepoint c" using r
      by (auto simp: c_def ReadUnicodeCharacter16_def IsValidCodepoint_def Let_def split: option.split if_splits)
    have "\<exists>cs. list_all IsValidCodepoint cs \<and> out' = (out @ CBU8_APPEND_UNSAFE c) @ encode8 cs"
    proof (cases r)
      case None
      then show ?thesis using "1.IH"(1) [OF True r [symmetric] None] "1.prems" True r
        by (simp add: Convert16to8_loop.simps [of src i] c_def)
    next
      case (Some d)
      then show ?thesis using "1.IH"(2) [OF True r [symmetric] Some] "1.prems" True r
        by (simp add: Convert16to8_loop.simps [of src i] c_def)
    qed
    then show ?thesis using v by (metis (no_types, lifting) append_assoc encode_simps(2) list.pred_inject(2))
  qed
qed


subsection \<open>The conversions\<close>

lemma ucasts [simp]:
  "ucast (ucast x :: code_point) = (x :: char16)" "ucast (ucast x :: code_point) = (ucast x :: byte)"
  "ucast (ucast b :: code_point) = (b :: byte)" "ucast (ucast b :: code_point) = (ucast b :: char16)"
  by (intro bit_word_eqI; auto simp: bit_simps dest: bit_imp_le_length)+

lemma scast_ascii:
  fixes b :: byte
  assumes "b < 0x80"
  shows "scast b = (ucast b :: code_point)" "scast b = (ucast b :: char16)"
proof -
  have top: "bit b (min 7 n) = bit b n" for n
    using assms by (cases "n < 8") (auto simp: byte_less_0x80 min_def utf le_less_Suc_eq numeral_eq_Suc)
  show "scast b = (ucast b :: code_point)" by (intro bit_word_eqI) (auto simp: bit_simps top)
  show "scast b = (ucast b :: char16)" by (intro bit_word_eqI) (auto simp: bit_simps top)
qed

lemma ascii_encode:
  "is_ascii w \<Longrightarrow> w = encode16 (map ucast w) \<and> map ucast w = encode8 (map ucast w) \<and> list_all IsValidCodepoint (map ucast w)"
  for w :: "char16 list"
proof (induction w)
  case (Cons x w)
  have "x < 0x80" using Cons.prems by (simp add: is_ascii_def)
  then have u: "unat (ucast x :: code_point) = unat x" "unat x < 128"
    using unsigned_less [where w = x and 'a = nat] by (simp_all add: unsigned_ucast_eq take_bit_nat_eq_self word_less_nat_alt)
  then have "CBU16_APPEND_UNSAFE (ucast x) = [x]" "CBU8_APPEND_UNSAFE (ucast x) = [ucast x]"
    "IsValidCodepoint (ucast x)"
    by (simp_all add: CBU16_APPEND_UNSAFE_def CBU8_APPEND_UNSAFE_def IsValidCodepoint_def word_le_nat_alt word_less_nat_alt)
  then show ?case using Cons by (simp add: is_ascii_def)
qed simp

lemma ascii_encode8:
  "is_ascii b \<Longrightarrow> b = encode8 (map scast b) \<and> map scast b = encode16 (map scast b) \<and> list_all IsValidCodepoint (map scast b)"
  for b :: "byte list"
proof (induction b)
  case (Cons x b)
  have "x < 0x80" using Cons.prems by (simp add: is_ascii_def)
  then have "scast x = (ucast x :: code_point)" "scast x = (ucast x :: char16)" by (rule scast_ascii)+
  moreover have u: "unat (ucast x :: code_point) = unat x" "unat x < 128"
    using unsigned_less [where w = x and 'a = nat] \<open>x < 0x80\<close>
    by (simp_all add: unsigned_ucast_eq take_bit_nat_eq_self word_less_nat_alt)
  then have "CBU16_APPEND_UNSAFE (ucast x) = [ucast x]" "CBU8_APPEND_UNSAFE (ucast x) = [x]"
    "IsValidCodepoint (ucast x)"
    by (simp_all add: CBU16_APPEND_UNSAFE_def CBU8_APPEND_UNSAFE_def IsValidCodepoint_def word_le_nat_alt word_less_nat_alt)
  ultimately show ?case using Cons by (simp add: is_ascii_def)
qed simp


subsection \<open>What the decoder accepts\<close>

lemma lead_inv:
  fixes b :: byte
  assumes "192 \<le> unat b"
  shows "unat b < 224 \<Longrightarrow> \<exists>x < 0x20. b = ucast ((x :: code_point) OR 0xc0)"
    "224 \<le> unat b \<Longrightarrow> unat b < 240 \<Longrightarrow> \<exists>x < 0x10. b = ucast ((x :: code_point) OR 0xe0)"
    "240 \<le> unat b \<Longrightarrow> unat b < 248 \<Longrightarrow> \<exists>x < 0x8. b = ucast ((x :: code_point) OR 0xf0)"
proof -
  have u: "unat (of_nat k :: code_point) = k" if "k < 256" for k
    using that by (simp add: unat_of_nat take_bit_nat_eq_self)
  have lt: "unat b < 256" using unsigned_less [where w = b and 'a = nat] by simp
  have "(of_nat (unat b - 192) :: code_point) < 0x20 \<and> b = ucast ((of_nat (unat b - 192) :: code_point) OR 0xc0)" if "unat b < 224"
  proof -
    have "(of_nat (unat b - 192) :: code_point) < 0x20" using that assms u [of "unat b - 192"] by (simp add: word_less_nat_alt)
    then show ?thesis using lead_unat(1) u [of "unat b - 192"] assms that by (simp add: word_unat_eq_iff)
  qed
  then show "unat b < 224 \<Longrightarrow> \<exists>x < 0x20. b = ucast ((x :: code_point) OR 0xc0)" by blast
  have "(of_nat (unat b - 224) :: code_point) < 0x10 \<and> b = ucast ((of_nat (unat b - 224) :: code_point) OR 0xe0)"
    if "224 \<le> unat b" "unat b < 240"
  proof -
    have "(of_nat (unat b - 224) :: code_point) < 0x10" using that u [of "unat b - 224"] by (simp add: word_less_nat_alt)
    then show ?thesis using lead_unat(2) u [of "unat b - 224"] that by (simp add: word_unat_eq_iff)
  qed
  then show "224 \<le> unat b \<Longrightarrow> unat b < 240 \<Longrightarrow> \<exists>x < 0x10. b = ucast ((x :: code_point) OR 0xe0)" by blast
  have "(of_nat (unat b - 240) :: code_point) < 0x8 \<and> b = ucast ((of_nat (unat b - 240) :: code_point) OR 0xf0)"
    if "240 \<le> unat b" "unat b < 248"
  proof -
    have "(of_nat (unat b - 240) :: code_point) < 0x8" using that u [of "unat b - 240"] by (simp add: word_less_nat_alt)
    then show ?thesis using lead_unat(3) u [of "unat b - 240"] that by (simp add: word_unat_eq_iff)
  qed
  then show "240 \<le> unat b \<Longrightarrow> unat b < 248 \<Longrightarrow> \<exists>x < 0x8. b = ucast ((x :: code_point) OR 0xf0)" by blast
qed

lemma trail_inv:
  fixes b :: byte
  assumes "(b AND 0xc0) XOR 0x80 = 0"
  shows "\<exists>x < 0x40. b = ucast ((x :: code_point) OR 0x80)"
proof (intro exI conjI)
  have bits: "bit b 7" "\<not> bit b 6"
  proof -
    have "bit ((b AND 0xc0) XOR 0x80) 7 = bit (0 :: byte) 7" "bit ((b AND 0xc0) XOR 0x80) 6 = bit (0 :: byte) 6"
      using assms by simp_all
    then show "bit b 7" "\<not> bit b 6" by (simp_all add: bit_simps utf)
  qed
  show "(ucast b AND 0x3f :: code_point) < 0x40" by (rule and_less)
  show "b = ucast ((ucast b AND 0x3f :: code_point) OR 0x80)"
  proof (rule bit_word_eqI)
    fix n assume "n < LENGTH(8)"
    then have "n < 6 \<or> n = 6 \<or> n = 7" by auto
    then show "bit b n = bit (ucast ((ucast b AND 0x3f :: code_point) OR 0x80) :: byte) n"
      using bits by (auto simp: bit_simps utf)
  qed
qed

lemma split_bits:
  fixes x y :: code_point
  assumes "y < 0x40" "x < 0x4000000"
  shows "drop_bit 6 (push_bit 6 x OR y) = x" "(push_bit 6 x OR y) AND 0x3f = y"
proof -
  have y: "bit y n \<Longrightarrow> n < 6" and x: "bit x n \<Longrightarrow> n < 26" for n
    using bits_above [of y 6 n] bits_above [of x 26 n] assms by simp_all
  show "drop_bit 6 (push_bit 6 x OR y) = x"
    by (intro bit_word_eqI) (use x y in \<open>fastforce simp: bit_simps\<close>)
  show "(push_bit 6 x OR y) AND 0x3f = y"
    by (intro bit_word_eqI) (use y in \<open>fastforce simp: bit_simps utf\<close>)
qed

lemma push_less: "x < 2 ^ k \<Longrightarrow> y < 0x40 \<Longrightarrow> k + 6 < 32 \<Longrightarrow> push_bit 6 x OR y < (2 ^ (k + 6) :: code_point)"
  using less_bits [of k x] less_bits [of 6 y] less_bits [of "k + 6" "push_bit 6 x OR y"]
  by (auto simp: bit_simps)


lemma sentinel_invalid: "\<not> IsValidCodepoint CBU_SENTINEL"
  by code_simp

lemma body_inv:
  fixes b :: byte
  assumes "utf8_nextCharSafeBody s i len (scast b) (- 1) = (i', c)" "IsValidCodepoint c"
  defines "n \<equiv> utf8_countTrailBytes ! unat b"
  shows "0 < n" "i + n \<le> len" "trail_bytes s n i (scast b AND (2 ^ (6 - n) - 1)) = (i', c, 0)"
    "utf8_minLegal ! n \<le> sint c" "n \<le> 3"
proof -
  have "0 < n \<and> i + n \<le> len \<and> trail_bytes s n i (scast b AND (2 ^ (6 - n) - 1)) = (i', c, 0) \<and>
      utf8_minLegal ! n \<le> sint c"
    using assms(1,2) sentinel_invalid unfolding n_def
    by (auto simp: utf8_nextCharSafeBody_def ucast_scast_byte Let_def split: if_splits prod.splits)
  then show "0 < n" "i + n \<le> len" "trail_bytes s n i (scast b AND (2 ^ (6 - n) - 1)) = (i', c, 0)"
    "utf8_minLegal ! n \<le> sint c" by simp_all
  then show "n \<le> 3" by (auto simp: trail_bytes_def split: if_splits)
qed

lemma or_zero: "a OR b = 0 \<longleftrightarrow> a = 0 \<and> b = (0 :: 'a::len word)"
  by (auto simp: bit_eq_iff bit_simps)

lemma next_trail_inv:
  assumes "next_trail s (i, c, ill) = (i', c', 0)"
  obtains x where "s ! i = ucast ((x :: code_point) OR 0x80)" "x < 0x40" "c' = push_bit 6 c OR x" "i' = i + 1" "ill = 0"
proof -
  have "(s ! i AND 0xc0) XOR 0x80 = 0" "ill = 0" using assms by (auto simp: next_trail.simps or_zero)
  moreover from this obtain x :: code_point where x: "x < 0x40" "s ! i = ucast (x OR 0x80)" using trail_inv by blast
  ultimately show ?thesis using that [of x] assms by (auto simp: next_trail_ok)
qed

lemma take_drop_nths:
  "i + 1 \<le> length s \<Longrightarrow> take 1 (drop i s) = [s ! i]"
  "i + 2 \<le> length s \<Longrightarrow> take 2 (drop i s) = [s ! i, s ! (i + 1)]"
  "i + 3 \<le> length s \<Longrightarrow> take 3 (drop i s) = [s ! i, s ! (i + 1), s ! (i + 2)]"
  "i + 4 \<le> length s \<Longrightarrow> take 4 (drop i s) = [s ! i, s ! (i + 1), s ! (i + 2), s ! (i + 3)]"
  by (simp_all add: numeral_eq_Suc flip: Cons_nth_drop_Suc)

lemma CBU8_NEXT_sound:
  assumes "i < length s" "CBU8_NEXT s i (length s) = (i', c)" "IsValidCodepoint c"
  shows "i' \<le> length s \<and> take (i' - i) (drop i s) = CBU8_APPEND_UNSAFE c"
proof (cases "0x80 \<le> s ! i")
  case False
  then have b: "s ! i < 0x80" by simp
  then have "i' = i + 1" "c = ucast (s ! i)" using assms(2) scast_ascii(1) [OF b] False by (simp_all add: CBU8_NEXT_def)
  moreover have "unat (ucast (s ! i) :: code_point) = unat (s ! i)" "unat (s ! i) < 128"
    using unsigned_less [where w = "s ! i" and 'a = nat] b
    by (simp_all add: unsigned_ucast_eq take_bit_nat_eq_self word_less_nat_alt)
  ultimately show ?thesis using assms(1) take_drop_nths(1) [of i s] by (simp add: CBU8_APPEND_UNSAFE_def word_le_nat_alt)
next
  case True
  let ?b = "s ! i" let ?n = "utf8_countTrailBytes ! unat ?b"
  have body: "utf8_nextCharSafeBody s (i + 1) (length s) (scast ?b) (- 1) = (i', c)" "CBU8_IS_LEAD ?b"
    using True assms(2,3) sentinel_invalid by (auto simp: CBU8_NEXT_def split: if_splits)
  note inv = body_inv [OF body(1) assms(3)]
  have range: "192 \<le> unat ?b" "unat ?b < 248" "?n = (if unat ?b < 224 then 1 else if unat ?b < 240 then 2 else 3)"
  proof -
    have "192 \<le> unat ?b"
    proof (rule ccontr)
      assume "\<not> 192 \<le> unat ?b"
      then have "?n = 0" by (auto simp: utf8_countTrailBytes_def nth_append)
      then show False using inv(1) by simp
    qed
    moreover have "unat ?b < 248"
    proof (rule ccontr)
      assume *: "\<not> unat ?b < 248"
      have "unat ?b < 256" using unsigned_less [where w = ?b and 'a = nat] by simp
      then have "?n = 0 \<or> ?n > 3" using * by (auto simp: utf8_countTrailBytes_def nth_append nth_Cons')
      then show False using inv(1,5) by simp
    qed
    ultimately show "192 \<le> unat ?b" "unat ?b < 248" "?n = (if unat ?b < 224 then 1 else if unat ?b < 240 then 2 else 3)"
      by (auto simp: utf8_countTrailBytes_def nth_append nth_Cons')
  qed
  have small: "c < 0x80000000" using assms(3) by (auto simp: IsValidCodepoint_def word_less_nat_alt word_le_nat_alt)
  consider "unat ?b < 224" | "224 \<le> unat ?b" "unat ?b < 240" | "240 \<le> unat ?b" by linarith
  then show ?thesis
  proof cases
    case 1
    obtain x :: code_point where x: "x < 0x20" "?b = ucast (x OR 0xc0)" using lead_inv(1) range(1) 1 by blast
    have "next_trail s (i + 1, x, 0) = (i', c, 0)"
      using inv(3) range(3) 1 decode_lead(1) [OF x(1)] by (simp add: trail_bytes_def flip: x(2))
    then obtain y where y: "s ! (i + 1) = ucast ((y :: code_point) OR 0x80)" "y < 0x40" "c = push_bit 6 x OR y" "i' = i + 2"
      by (rule next_trail_inv) auto
    have "x < 0x4000000" using x(1) by (rule order.strict_trans) simp
    then have c: "drop_bit 6 c = x" "c AND 0x3f = y" using split_bits [of y x] y(2,3) by simp_all
    have "c < 0x800" using push_less [of x 5 y] x(1) y(2,3) by simp
    moreover have "0x80 \<le> c" using inv(4) range(3) 1 small by (simp add: utf8_minLegal_def sint_code word_le_def)
    ultimately have "CBU8_APPEND_UNSAFE c = [?b, s ! (i + 1)]"
      using c x(2) y(1) by (auto simp: CBU8_APPEND_UNSAFE_def word_le_nat_alt word_less_nat_alt)
    then show ?thesis using inv(2) range(3) 1 y(4) take_drop_nths(2) [of i s] by simp
  next
    case 2
    obtain x :: code_point where x: "x < 0x10" "?b = ucast (x OR 0xe0)" using lead_inv(2) range(1) 2 by blast
    obtain i1 c1 ill1 where n1: "next_trail s (i + 1, x, 0) = (i1, c1, ill1)" by (metis prod_cases3)
    have "next_trail s (i1, c1, ill1) = (i', c, 0)"
      using inv(3) range(3) 2 decode_lead(2) [OF x(1)] n1 by (simp add: trail_bytes_def flip: x(2))
    then obtain z where z: "s ! i1 = ucast ((z :: code_point) OR 0x80)" "z < 0x40" "c = push_bit 6 c1 OR z" "i' = i1 + 1" "ill1 = 0"
      by (rule next_trail_inv)
    obtain y where y: "s ! (i + 1) = ucast ((y :: code_point) OR 0x80)" "y < 0x40" "c1 = push_bit 6 x OR y" "i1 = i + 2"
      using n1 z(5) by (auto elim!: next_trail_inv)
    have "x < 0x4000000" using x(1) by (rule order.strict_trans) simp
    then have c1: "drop_bit 6 c1 = x" "c1 AND 0x3f = y" using split_bits [of y x] y(2,3) by simp_all
    have l1: "c1 < 0x400" using push_less [of x 4 y] x(1) y(2,3) by simp
    then have "c1 < 0x4000000" by (rule order.strict_trans) simp
    then have c: "drop_bit 6 c = c1" "c AND 0x3f = z" using split_bits [of z c1] z(2,3) by simp_all
    then have c2: "drop_bit 12 c = x" using c1(1) drop_bit_drop_bit [of 6 6 c] by simp
    have "c < 0x10000" using push_less [of c1 10 z] l1 z(2,3) by simp
    moreover have "0x800 \<le> c" using inv(4) range(3) 2 small by (simp add: utf8_minLegal_def sint_code word_le_def)
    ultimately have "CBU8_APPEND_UNSAFE c = [?b, s ! (i + 1), s ! (i + 2)]"
      using c c1 c2 x(2) y(1,4) z(1) by (auto simp: CBU8_APPEND_UNSAFE_def word_le_nat_alt word_less_nat_alt)
    then show ?thesis using inv(2) range(3) 2 y(4) z(4) take_drop_nths(3) [of i s] by simp
  next
    case 3
    obtain x :: code_point where x: "x < 0x8" "?b = ucast (x OR 0xf0)" using lead_inv(3) range(1,2) 3 by blast
    obtain i1 c1 ill1 where n1: "next_trail s (i + 1, x, 0) = (i1, c1, ill1)" by (metis prod_cases3)
    obtain i2 c2 ill2 where n2: "next_trail s (i1, c1, ill1) = (i2, c2, ill2)" by (metis prod_cases3)
    have "next_trail s (i2, c2, ill2) = (i', c, 0)"
      using inv(3) range(3) 3 decode_lead(3) [OF x(1)] n1 n2
      by (simp add: trail_bytes_def flip: x(2) split: if_splits)
    then obtain w where w: "s ! i2 = ucast ((w :: code_point) OR 0x80)" "w < 0x40" "c = push_bit 6 c2 OR w" "i' = i2 + 1" "ill2 = 0"
      by (rule next_trail_inv)
    obtain z where z: "s ! i1 = ucast ((z :: code_point) OR 0x80)" "z < 0x40" "c2 = push_bit 6 c1 OR z" "i2 = i1 + 1" "ill1 = 0"
      using n2 w(5) by (auto elim!: next_trail_inv)
    obtain y where y: "s ! (i + 1) = ucast ((y :: code_point) OR 0x80)" "y < 0x40" "c1 = push_bit 6 x OR y" "i1 = i + 2"
      using n1 z(5) by (auto elim!: next_trail_inv)
    have "x < 0x4000000" using x(1) by (rule order.strict_trans) simp
    then have c1: "drop_bit 6 c1 = x" "c1 AND 0x3f = y" using split_bits [of y x] y(2,3) by simp_all
    have l1: "c1 < 0x200" using push_less [of x 3 y] x(1) y(2,3) by simp
    then have "c1 < 0x4000000" by (rule order.strict_trans) simp
    then have c2: "drop_bit 6 c2 = c1" "c2 AND 0x3f = z" using split_bits [of z c1] z(2,3) by simp_all
    have l2: "c2 < 0x8000" using push_less [of c1 9 z] l1 z(2,3) by simp
    then have "c2 < 0x4000000" by (rule order.strict_trans) simp
    then have c: "drop_bit 6 c = c2" "c AND 0x3f = w" using split_bits [of w c2] w(2,3) by simp_all
    then have c12: "drop_bit 12 c = c1" using c2(1) drop_bit_drop_bit [of 6 6 c] by simp
    then have c18: "drop_bit 18 c = x" using c1(1) drop_bit_drop_bit [of 6 12 c] by simp
    have "0x10000 \<le> c" using inv(4) range(3) 3 small by (simp add: utf8_minLegal_def sint_code word_le_def)
    then have "CBU8_APPEND_UNSAFE c = [?b, s ! (i + 1), s ! (i + 2), s ! (i + 3)]"
      using c c1 c2 c12 c18 x(2) y(1,4) z(1,4) w(1)
      by (auto simp: CBU8_APPEND_UNSAFE_def word_le_nat_alt word_less_nat_alt numeral_3_eq_3)
    then show ?thesis using inv(2) range(3) 3 y(4) z(4) w(4) take_drop_nths(4) [of i s] by simp
  qed
qed


lemma Read16_sound:
  assumes "i < length s" "ReadUnicodeCharacter16 s (length s) i = (i', Some c)"
  shows "i' < length s \<and> IsValidCodepoint c \<and> take (i' + 1 - i) (drop i s) = CBU16_APPEND_UNSAFE c"
proof (cases "CBU_IS_SURROGATE (ucast (s ! i))")
  case False
  then have "i' = i" "c = ucast (s ! i)" "IsValidCodepoint c"
    using assms(2) by (auto simp: ReadUnicodeCharacter16_def split: if_splits)
  moreover have "unat (ucast (s ! i) :: code_point) \<le> 0xffff"
    using unsigned_less [where w = "s ! i" and 'a = nat] by (simp add: unsigned_ucast_eq take_bit_nat_eq_self)
  ultimately show ?thesis using assms(1) take_drop_nths(1) [of i s]
    by (simp add: CBU16_APPEND_UNSAFE_def word_le_nat_alt)
next
  case True
  let ?lead = "s ! i" and ?trail = "s ! (i + 1)"
  have i: "i' = i + 1" "i + 1 < length s" "IsValidCodepoint c" "c = CBU16_GET_SUPPLEMENTARY ?lead ?trail"
    and "CBU16_IS_SURROGATE_LEAD ?lead" "CBU16_IS_TRAIL ?trail"
    using True assms(2) by (auto simp: ReadUnicodeCharacter16_def Let_def split: if_splits)
  have un: "unat (ucast w :: code_point) = unat w" for w :: char16
    using unsigned_less [where w = w and 'a = nat] by (simp add: unsigned_ucast_eq take_bit_nat_eq_self)
  have lead: "unat ?lead div 1024 = 54" and trail: "unat ?trail div 1024 = 55"
  proof -
    have "unat ?lead div 1024 div 2 = 27" using True by (simp add: surrogate_iff un div_mult2_eq [symmetric])
    moreover have "k = 54" if "k div 2 = 27" "even k" for k :: nat using that by presburger
    ultimately show "unat ?lead div 1024 = 54"
      using \<open>CBU16_IS_SURROGATE_LEAD ?lead\<close> unfolding lead16_iff by blast
  qed (use \<open>CBU16_IS_TRAIL ?trail\<close> trail16_iff in blast)
  define x where "x = unat ?lead mod 1024"
  define y where "y = unat ?trail mod 1024"
  have l: "unat ?lead = 0xd800 + x" "x < 1024" and t: "unat ?trail = 0xdc00 + y" "y < 1024"
    using lead trail div_mult_mod_eq [of "unat ?lead" 1024] div_mult_mod_eq [of "unat ?trail" 1024]
    by (simp_all add: x_def y_def)
  have "(ucast ?lead :: code_point) = of_nat (0xd800 + x)" "(ucast ?trail :: code_point) = of_nat (0xdc00 + y)"
    using l t un by (metis of_nat_unat ucast_id)+
  then have c0: "c = of_nat (0x10000 + x * 1024 + y)"
    by (simp add: i(4) CBU16_GET_SUPPLEMENTARY_def push_bit_eq_mult algebra_simps)
  have u: "unat c = 0x10000 + x * 1024 + y"
    using l(2) t(2) unfolding c0 unsigned_of_nat of_nat_id by (intro take_bit_nat_eq_self) simp
  have d: "unat c div 1024 = 64 + x" "unat c mod 1024 = y"
    using t(2) unfolding u by (auto intro!: div_nat_eqI) (simp add: mod_nat_eqI)
  have big: "0xffff < c" "c \<le> 0x10ffff" using u l(2) t(2) by (simp_all add: word_less_nat_alt word_le_nat_alt)
  note sup = supplementary(1,2) [OF big]
  have "unat (ucast (drop_bit 10 c + 0xd7c0) :: char16) = unat ?lead" "unat (ucast ((c AND 0x3ff) OR 0xdc00) :: char16) = unat ?trail"
    using sup l t d by (simp_all add: unsigned_ucast_eq take_bit_nat_eq_self)
  then have "CBU16_APPEND_UNSAFE c = [?lead, ?trail]"
    using big by (simp add: CBU16_APPEND_UNSAFE_def word_unat_eq_iff not_le)
  then show ?thesis using i take_drop_nths(2) [of i s] by simp
qed

lemma Convert8to16_sound:
  "Convert8to16_loop src i ok out = (True, out') \<Longrightarrow>
     ok \<and> (\<exists>cs. list_all IsValidCodepoint cs \<and> drop i src = encode8 cs)"
proof (induction src i ok out rule: Convert8to16_loop.induct)
  case (1 src i ok out)
  obtain i' r where r: "ReadUnicodeCharacter8 src (length src) i = (i', r)" by fastforce
  show ?case
  proof (cases "i < length src")
    case False
    then show ?thesis using "1.prems" by (auto simp: Convert8to16_loop.simps intro: exI [of _ "[]"])
  next
    case True
    obtain j c where j: "CBU8_NEXT src i (length src) = (j, c)" by fastforce
    show ?thesis
    proof (cases r)
      case None
      then show ?thesis using "1.IH"(1) [OF True r [symmetric] None] "1.prems" True r
        by (simp add: Convert8to16_loop.simps [of src i])
    next
      case (Some d)
      then have d: "d = c" "IsValidCodepoint c" "i' = j - 1" using r j by (auto simp: ReadUnicodeCharacter8_def split: if_splits)
      note snd = CBU8_NEXT_sound [OF True j d(2)]
      have "i < j" using j by (rule CBU8_NEXT_less)
      then have "Suc i' = j" using d(3) by simp
      then obtain cs where "ok" "list_all IsValidCodepoint cs" "drop j src = encode8 cs"
        using "1.IH"(2) [OF True r [symmetric] Some] "1.prems" True r Some snd
        by (auto simp: Convert8to16_loop.simps [of src i])
      moreover have "drop i src = take (j - i) (drop i src) @ drop j src"
        using \<open>i < j\<close> by (metis append_take_drop_id drop_drop le_add_diff_inverse2 less_imp_le)
      ultimately show ?thesis using snd d(2) by (intro conjI exI [of _ "c # cs"]) auto
    qed
  qed
qed


lemma Convert16to8_sound:
  "Convert16to8_loop src i ok out = (True, out') \<Longrightarrow>
     ok \<and> (\<exists>cs. list_all IsValidCodepoint cs \<and> drop i src = encode16 cs)"
proof (induction src i ok out rule: Convert16to8_loop.induct)
  case (1 src i ok out)
  obtain i' r where r: "ReadUnicodeCharacter16 src (length src) i = (i', r)" by fastforce
  show ?case
  proof (cases "i < length src")
    case False
    then show ?thesis using "1.prems" by (auto simp: Convert16to8_loop.simps intro: exI [of _ "[]"])
  next
    case True
    show ?thesis
    proof (cases r)
      case None
      then show ?thesis using "1.IH"(1) [OF True r [symmetric] None] "1.prems" True r
        by (simp add: Convert16to8_loop.simps [of src i])
    next
      case (Some c)
      note snd = Read16_sound [OF True r [unfolded Some]]
      have "i \<le> i'" using r by (rule ReadUnicodeCharacter16_le)
      obtain cs where "ok" "list_all IsValidCodepoint cs" "drop (i' + 1) src = encode16 cs"
        using "1.IH"(2) [OF True r [symmetric] Some] "1.prems" True r Some
        by (auto simp: Convert16to8_loop.simps [of src i])
      moreover have "drop i src = take (i' + 1 - i) (drop i src) @ drop (i' + 1) src"
        using \<open>i \<le> i'\<close> by (metis append_take_drop_id drop_drop le_add_diff_inverse2 le_SucI Suc_eq_plus1)
      ultimately show ?thesis using snd by (intro conjI exI [of _ "c # cs"]) auto
    qed
  qed
qed

lemma character_codepoint: "IsValidCharacter c \<Longrightarrow> IsValidCodepoint c"
  by (auto simp: IsValidCharacter_def IsValidCodepoint_def word_le_nat_alt word_less_nat_alt)

lemma IsStringUTF8_encode:
  "list_all IsValidCharacter cs \<Longrightarrow> IsStringUTF8_loop (pre @ encode8 cs) (length pre)"
proof (induction cs arbitrary: pre)
  case (Cons c cs)
  let ?src = "pre @ encode8 (c # cs)" let ?a = "CBU8_APPEND_UNSAFE c"
  have "CBU8_NEXT ?src (length pre) (length ?src) = (length (pre @ ?a), c)"
    using CBU8_NEXT_APPEND [of c pre "encode8 cs"] Cons.prems character_codepoint by simp
  moreover have "IsStringUTF8_loop ((pre @ ?a) @ encode8 cs) (length (pre @ ?a))"
    using Cons.prems by (intro Cons.IH) simp
  ultimately show ?case using Cons.prems by (subst IsStringUTF8_loop.simps) simp
qed (simp add: IsStringUTF8_loop.simps)

lemma IsStringUTF8_sound:
  "IsStringUTF8_loop src i \<Longrightarrow> \<exists>cs. list_all IsValidCharacter cs \<and> drop i src = encode8 cs"
proof (induction src i rule: IsStringUTF8_loop.induct)
  case (1 src i)
  obtain j c where j: "CBU8_NEXT src i (length src) = (j, c)" by fastforce
  show ?case
  proof (cases "i < length src")
    case False
    then show ?thesis by (intro exI [of _ "[]"]) simp
  next
    case True
    then have c: "IsValidCharacter c" "IsStringUTF8_loop src j"
      using "1.prems" j by (auto simp: IsStringUTF8_loop.simps [of src i] split: if_splits)
    then obtain cs where "list_all IsValidCharacter cs" "drop j src = encode8 cs"
      using "1.IH" [OF True j [symmetric] refl] by auto
    moreover have "drop i src = take (j - i) (drop i src) @ drop j src"
      using CBU8_NEXT_less [OF j] by (metis append_take_drop_id drop_drop le_add_diff_inverse2 less_imp_le)
    ultimately show ?thesis using CBU8_NEXT_sound [OF True j character_codepoint] c(1)
      by (intro exI [of _ "c # cs"]) auto
  qed
qed

subsection \<open>The properties\<close>

lemma UTF8ToWide_loop: "UTF8ToWide_success b = Convert8to16_loop b 0 True []" "UTF8ToWide b = snd (UTF8ToWide_success b)"
proof -
  show 1: "UTF8ToWide_success b = Convert8to16_loop b 0 True []"
  proof (cases "is_ascii b")
    case True
    then have a: "b = encode8 (map scast b)" "map scast b = encode16 (map scast b)" "list_all IsValidCodepoint (map scast b)"
      using ascii_encode8 by blast+
    have "Convert8to16_loop b 0 True [] = (True, encode16 (map scast b))"
      using Convert8to16_encode [OF a(3), of "[]" True "[]"] a(1) by simp
    then show ?thesis using True a(2) by (simp add: UTF8ToWide_success_def)
  qed (simp add: UTF8ToWide_success_def)
  show "UTF8ToWide b = snd (UTF8ToWide_success b)"
    by (simp add: UTF8ToWide_def UTF8ToWide_success_def)
qed

lemma WideToUTF8_loop: "WideToUTF8_success w = Convert16to8_loop w 0 True []" "WideToUTF8 w = snd (WideToUTF8_success w)"
proof -
  show 1: "WideToUTF8_success w = Convert16to8_loop w 0 True []"
  proof (cases "is_ascii w")
    case True
    then have a: "w = encode16 (map ucast w)" "map ucast w = encode8 (map ucast w)" "list_all IsValidCodepoint (map ucast w)"
      using ascii_encode by blast+
    have "Convert16to8_loop w 0 True [] = (True, encode8 (map ucast w))"
      using Convert16to8_encode [OF a(3), of "[]" True "[]"] a(1) by simp
    then show ?thesis using True a(2) by (simp add: WideToUTF8_success_def)
  qed (simp add: WideToUTF8_success_def)
  show "WideToUTF8 w = snd (WideToUTF8_success w)"
    by (simp add: WideToUTF8_def WideToUTF8_success_def)
qed

lemma UTF8ToWide_encode:
  "list_all IsValidCodepoint cs \<Longrightarrow> UTF8ToWide_success (encode8 cs) = (True, encode16 cs)"
  using Convert8to16_encode [of cs "[]" True "[]"] by (simp add: UTF8ToWide_loop(1))

lemma WideToUTF8_encode:
  "list_all IsValidCodepoint cs \<Longrightarrow> WideToUTF8_success (encode16 cs) = (True, encode8 cs)"
  using Convert16to8_encode [of cs "[]" True "[]"] by (simp add: WideToUTF8_loop(1))

text \<open>
  C23: on the encodings of a sequence of valid code points the two conversions are inverse to each
  other and report success, through the ASCII path or not.
\<close>

theorem utf_roundtrip:
  assumes "list_all IsValidCodepoint cs"
  shows "UTF8ToWide_success (encode8 cs) = (True, encode16 cs) \<and> WideToUTF8_success (encode16 cs) = (True, encode8 cs) \<and>
    WideToUTF8 (UTF8ToWide (encode8 cs)) = encode8 cs \<and> UTF8ToWide (WideToUTF8 (encode16 cs)) = encode16 cs"
  using UTF8ToWide_encode [OF assms] WideToUTF8_encode [OF assms]
  by (simp add: UTF8ToWide_loop(2) WideToUTF8_loop(2))

theorem utf_roundtrip_witness:
  "UTF8ToWide_success [0x41, 0xE2, 0x82, 0xAC, 0xF0, 0x9F, 0x98, 0x80] = (True, [0x41, 0x20AC, 0xD83D, 0xDE00])"
proof -
  have "encode8 [0x41, 0x20AC, 0x1F600] = [0x41, 0xE2, 0x82, 0xAC, 0xF0, 0x9F, 0x98, 0x80]"
    "encode16 [0x41, 0x20AC, 0x1F600] = [0x41, 0x20AC, 0xD83D, 0xDE00]"
    "list_all IsValidCodepoint [0x41, 0x20AC, 0x1F600]" by code_simp+
  then show ?thesis using utf_roundtrip [of "[0x41, 0x20AC, 0x1F600]"] by simp
qed

text \<open>
  C22: the conversions report success exactly on well-formed input (so overlong forms, encoded
  surrogates, truncated sequences and unpaired surrogates are refused), and whatever the input they
  write well-formed output, which a conversion back and forth leaves as it is; \<^verbatim>\<open>IsStringUTF8\<close>
  accepts exactly the well-formed encodings without non-characters.
\<close>

theorem utf_rejects_illformed:
  "(fst (UTF8ToWide_success b) \<longleftrightarrow> (\<exists>cs. list_all IsValidCodepoint cs \<and> b = encode8 cs)) \<and>
   (fst (WideToUTF8_success w) \<longleftrightarrow> (\<exists>cs. list_all IsValidCodepoint cs \<and> w = encode16 cs)) \<and>
   (IsStringUTF8 b \<longleftrightarrow> (\<exists>cs. list_all IsValidCharacter cs \<and> b = encode8 cs)) \<and>
   (\<exists>cs. list_all IsValidCodepoint cs \<and> UTF8ToWide b = encode16 cs) \<and>
   (\<exists>cs. list_all IsValidCodepoint cs \<and> WideToUTF8 w = encode8 cs) \<and>
   UTF8ToWide (WideToUTF8 (UTF8ToWide b)) = UTF8ToWide b \<and> WideToUTF8 (UTF8ToWide (WideToUTF8 w)) = WideToUTF8 w"
proof -
  obtain ok out where b: "Convert8to16_loop b 0 True [] = (ok, out)" by fastforce
  obtain ok' out' where w: "Convert16to8_loop w 0 True [] = (ok', out')" by fastforce
  obtain cs where cs: "list_all IsValidCodepoint cs" "UTF8ToWide b = encode16 cs"
    using Convert8to16_wellformed [OF b] b by (auto simp: UTF8ToWide_loop)
  obtain ds where ds: "list_all IsValidCodepoint ds" "WideToUTF8 w = encode8 ds"
    using Convert16to8_wellformed [OF w] w by (auto simp: WideToUTF8_loop)
  have "fst (UTF8ToWide_success b) \<longleftrightarrow> (\<exists>cs. list_all IsValidCodepoint cs \<and> b = encode8 cs)"
    using Convert8to16_sound [of b 0 True "[]" out] b UTF8ToWide_encode by (auto simp: UTF8ToWide_loop(1))
  moreover have "fst (WideToUTF8_success w) \<longleftrightarrow> (\<exists>cs. list_all IsValidCodepoint cs \<and> w = encode16 cs)"
    using Convert16to8_sound [of w 0 True "[]" out'] w WideToUTF8_encode by (auto simp: WideToUTF8_loop(1))
  moreover have "UTF8ToWide (WideToUTF8 (UTF8ToWide b)) = UTF8ToWide b" "WideToUTF8 (UTF8ToWide (WideToUTF8 w)) = WideToUTF8 w"
    using UTF8ToWide_encode WideToUTF8_encode cs ds by (simp_all add: UTF8ToWide_loop(2) WideToUTF8_loop(2))
  moreover have "IsStringUTF8 b \<longleftrightarrow> (\<exists>cs. list_all IsValidCharacter cs \<and> b = encode8 cs)"
    using IsStringUTF8_sound [of b 0] IsStringUTF8_encode [of _ "[]"] by (auto simp: IsStringUTF8_def)
  ultimately show ?thesis using cs ds by blast
qed

text \<open>
  \<^verbatim>\<open>DoIsStringASCII\<close>, which reads a word at a time and masks, tells whether every character is
  below \<^verbatim>\<open>0x80\<close>, for either character type and wherever the string lies in memory.
\<close>

theorem DoIsStringASCII_correct:
  "(DoIsStringASCII align (b :: byte list) \<longleftrightarrow> list_all (\<lambda>c. unat c < 128) b) \<and>
   (DoIsStringASCII align' (w :: char16 list) \<longleftrightarrow> list_all (\<lambda>c. unat c < 128) w)"
  by (simp add: IsStringASCII8 IsStringASCII16 is_ascii_def word_less_nat_alt list_all_iff)

end
