(* ===== verification/Command_Line.thy ===== *)
theory Command_Line
  imports String_Split Utf_Conversions
begin

text \<open>
  The command line of the process (\<^verbatim>\<open>base/command_line.cc\<close>, \<^verbatim>\<open>command_line.h\<close>): parsing into switches
  and arguments, the operations that add to it, and printing it for another process.

  The build is Windows, so the native strings are lists of 16-bit words and switch names narrow
  strings in lower case. \<^verbatim>\<open>switch_prefix_count\<close>, a variable of the process, is an argument \<open>n\<close> of the
  operations that read it. \<^verbatim>\<open>CommandLineToArgvW\<close> is Windows and the parameter \<open>to_argv\<close> (\<open>None\<close> is NULL).
\<close>

type_synonym wstring = "char16 list"

subsection \<open>Characters\<close>

definition kWhitespaceUTF16 :: wstring where
  "kWhitespaceUTF16 = [0x0009, 0x000A, 0x000B, 0x000C, 0x000D, 0x0020, 0x0085, 0x00A0, 0x1680, 0x2000, 0x2001,
     0x2002, 0x2003, 0x2004, 0x2005, 0x2006, 0x2007, 0x2008, 0x2009, 0x200A, 0x2028, 0x2029, 0x202F, 0x205F, 0x3000]"

definition ToLowerASCII :: "byte \<Rightarrow> byte" where
  "ToLowerASCII c = (if c \<ge> 0x41 \<and> c \<le> 0x5A then c + (0x61 - 0x41) else c)"

definition LowerASCIIOnWindows :: "byte list \<Rightarrow> byte list" where
  "LowerASCIIOnWindows s = map ToLowerASCII s"

text \<open>\<^verbatim>\<open>FilePath\<close> cuts what follows a terminator.\<close>

definition FilePath :: "wstring \<Rightarrow> wstring" where
  "FilePath path = (case str_find path [0] 0 of None \<Rightarrow> path | Some nul_pos \<Rightarrow> take nul_pos path)"

subsection \<open>Switches\<close>

definition kSwitchTerminator :: wstring where "kSwitchTerminator = [0x2D, 0x2D]"
definition kSwitchValueSeparator :: wstring where "kSwitchValueSeparator = [0x3D]"
definition kSwitchPrefixes :: "wstring list" where "kSwitchPrefixes = [[0x2D, 0x2D], [0x2D], [0x2F]]"

fun prefix_length :: "wstring list \<Rightarrow> wstring \<Rightarrow> nat" where
  "prefix_length [] str = 0"
| "prefix_length (p # ps) str = (if take (length p) str = p then length p else prefix_length ps str)"

definition GetSwitchPrefixLength :: "nat \<Rightarrow> wstring \<Rightarrow> nat" where
  "GetSwitchPrefixLength n str = prefix_length (take n kSwitchPrefixes) str"

definition IsSwitch :: "nat \<Rightarrow> wstring \<Rightarrow> bool \<times> wstring \<times> wstring" where
  "IsSwitch n str =
     (let k = GetSwitchPrefixLength n str
      in if k = 0 \<or> k = length str then (False, [], [])
         else case str_find str kSwitchValueSeparator 0 of
                None \<Rightarrow> (True, str, [])
              | Some equals_position \<Rightarrow> (True, take equals_position str, drop (equals_position + 1) str))"

record command_line =
  argv :: "wstring list"
  switches :: "byte list \<rightharpoonup> wstring"
  begin_args :: nat

definition no_program :: command_line where
  "no_program = \<lparr>argv = [[]], switches = Map.empty, begin_args = 1\<rparr>"

subsection \<open>Operations\<close>

definition GetProgram :: "command_line \<Rightarrow> wstring" where
  "GetProgram cl = FilePath (argv cl ! 0)"

definition SetProgram :: "wstring \<Rightarrow> command_line \<Rightarrow> command_line" where
  "SetProgram program cl = cl\<lparr>argv := (argv cl)[0 := TrimAll kWhitespaceUTF16 program]\<rparr>"

definition with_program :: "wstring \<Rightarrow> command_line" where
  "with_program program = SetProgram program no_program"

definition HasSwitch :: "command_line \<Rightarrow> byte list \<Rightarrow> bool" where
  "HasSwitch cl switch_string \<longleftrightarrow> switches cl (LowerASCIIOnWindows switch_string) \<noteq> None"

definition GetSwitchValueNative :: "command_line \<Rightarrow> byte list \<Rightarrow> wstring" where
  "GetSwitchValueNative cl switch_string =
     (case switches cl (LowerASCIIOnWindows switch_string) of None \<Rightarrow> [] | Some v \<Rightarrow> v)"

definition GetSwitchValuePath :: "command_line \<Rightarrow> byte list \<Rightarrow> wstring" where
  "GetSwitchValuePath cl switch_string = FilePath (GetSwitchValueNative cl switch_string)"

definition GetSwitchValueASCII :: "command_line \<Rightarrow> byte list \<Rightarrow> byte list result" where
  "GetSwitchValueASCII cl switch_string =
     (let value = GetSwitchValueNative cl switch_string
      in if \<not> IsStringASCII value then Inr [] else UTF16ToASCII value)"

definition AppendSwitchNative :: "nat \<Rightarrow> byte list \<Rightarrow> wstring \<Rightarrow> command_line \<Rightarrow> command_line result" where
  "AppendSwitchNative n switch_string value cl =
     (let switch_key = LowerASCIIOnWindows switch_string
      in rbind (ASCIIToUTF16 switch_key) (\<lambda>combined.
        let k = GetSwitchPrefixLength n combined;
            switches1 = (switches cl)(drop k switch_key \<mapsto> value);
            combined1 = (if k = 0 then kSwitchPrefixes ! 0 @ combined else combined);
            combined2 = (if value \<noteq> [] then combined1 @ kSwitchValueSeparator @ value else combined1)
        in Inr (cl\<lparr>switches := switches1,
                   argv := take (begin_args cl) (argv cl) @ combined2 # drop (begin_args cl) (argv cl),
                   begin_args := begin_args cl + 1\<rparr>)))"

definition AppendSwitch :: "nat \<Rightarrow> byte list \<Rightarrow> command_line \<Rightarrow> command_line result" where
  "AppendSwitch n switch_string cl = AppendSwitchNative n switch_string [] cl"

definition AppendSwitchPath :: "nat \<Rightarrow> byte list \<Rightarrow> wstring \<Rightarrow> command_line \<Rightarrow> command_line result" where
  "AppendSwitchPath n switch_string path cl = AppendSwitchNative n switch_string path cl"

definition AppendSwitchASCII :: "nat \<Rightarrow> byte list \<Rightarrow> byte list \<Rightarrow> command_line \<Rightarrow> command_line result" where
  "AppendSwitchASCII n switch_string value_string cl =
     rbind (ASCIIToUTF16 value_string) (\<lambda>v. AppendSwitchNative n switch_string v cl)"

fun CopySwitchesFrom :: "nat \<Rightarrow> command_line \<Rightarrow> byte list list \<Rightarrow> command_line \<Rightarrow> command_line result" where
  "CopySwitchesFrom n src [] cl = Inr cl"
| "CopySwitchesFrom n src (s # ss) cl =
     rbind (if HasSwitch src s then AppendSwitchNative n s (GetSwitchValueNative src s) cl else Inr cl)
       (CopySwitchesFrom n src ss)"

definition GetArgs :: "command_line \<Rightarrow> wstring list" where
  "GetArgs cl = remove1 kSwitchTerminator (drop (begin_args cl) (argv cl))"

definition AppendArgNative :: "wstring \<Rightarrow> command_line \<Rightarrow> command_line" where
  "AppendArgNative value cl = cl\<lparr>argv := argv cl @ [value]\<rparr>"

definition AppendArgPath :: "wstring \<Rightarrow> command_line \<Rightarrow> command_line" where
  "AppendArgPath path cl = AppendArgNative path cl"

definition AppendArg :: "byte list \<Rightarrow> command_line \<Rightarrow> command_line result" where
  "AppendArg value cl = require (IsStringUTF8 value) (Dcheck ''IsStringUTF8(value)'')
     (Inr (AppendArgNative (UTF8ToWide value) cl))"

text \<open>The loop over the arguments, from index 1.\<close>

fun append_all :: "nat \<Rightarrow> bool \<Rightarrow> wstring list \<Rightarrow> command_line \<Rightarrow> command_line result" where
  "append_all n parse_switches [] cl = Inr cl"
| "append_all n parse_switches (a # as) cl =
     (let arg = TrimAll kWhitespaceUTF16 a;
          parse_switches1 = (parse_switches \<and> arg \<noteq> kSwitchTerminator);
          (is_switch, switch_string, switch_value) = IsSwitch n arg
      in if parse_switches1 \<and> is_switch then
           rbind (UTF16ToASCII switch_string) (\<lambda>s.
             rbind (AppendSwitchNative n s switch_value cl) (append_all n parse_switches1 as))
         else append_all n parse_switches1 as (AppendArgNative arg cl))"

definition AppendSwitchesAndArguments :: "nat \<Rightarrow> wstring list \<Rightarrow> command_line \<Rightarrow> command_line result" where
  "AppendSwitchesAndArguments n args cl = append_all n True (drop 1 args) cl"

definition InitFromArgv :: "nat \<Rightarrow> wstring list \<Rightarrow> command_line \<Rightarrow> command_line result" where
  "InitFromArgv n args cl =
     AppendSwitchesAndArguments n args
       (SetProgram (if args = [] then [] else FilePath (args ! 0))
         (cl\<lparr>argv := [[]], switches := Map.empty, begin_args := 1\<rparr>))"

definition AppendArguments :: "nat \<Rightarrow> command_line \<Rightarrow> bool \<Rightarrow> command_line \<Rightarrow> command_line result" where
  "AppendArguments n other include_program cl =
     AppendSwitchesAndArguments n (argv other) (if include_program then SetProgram (GetProgram other) cl else cl)"

definition PrependWrapper :: "wstring \<Rightarrow> command_line \<Rightarrow> command_line" where
  "PrependWrapper wrapper cl =
     (if wrapper = [] then cl
      else let wrapper_argv = SplitString kWhitespaceUTF16 wrapper 0x20
        in cl\<lparr>argv := wrapper_argv @ argv cl, begin_args := begin_args cl + length wrapper_argv\<rparr>)"

definition ParseFromString ::
  "nat \<Rightarrow> (wstring \<Rightarrow> wstring list option) \<Rightarrow> wstring \<Rightarrow> command_line \<Rightarrow> command_line result"
where
  "ParseFromString n to_argv str cl =
     (let command_line_string = TrimAll kWhitespaceUTF16 str
      in if command_line_string = [] then Inr cl
         else case to_argv command_line_string of
                None \<Rightarrow> Inl (Fatal ''CommandLineToArgvW failed'')
              | Some args \<Rightarrow> InitFromArgv n args cl)"

definition FromString :: "nat \<Rightarrow> (wstring \<Rightarrow> wstring list option) \<Rightarrow> wstring \<Rightarrow> command_line result" where
  "FromString n to_argv str = ParseFromString n to_argv str no_program"

subsection \<open>The command line of the process\<close>

record process_command_line =
  switch_prefix_count :: nat
  current :: "command_line option"

definition set_slash_is_not_a_switch :: "process_command_line \<Rightarrow> process_command_line" where
  "set_slash_is_not_a_switch p = p\<lparr>switch_prefix_count := length kSwitchPrefixes - 1\<rparr>"

text \<open>\<open>line\<close> is what \<^verbatim>\<open>GetCommandLineW\<close> returns.\<close>

definition Init ::
  "(wstring \<Rightarrow> wstring list option) \<Rightarrow> wstring \<Rightarrow> process_command_line \<Rightarrow> (bool \<times> process_command_line) result"
where
  "Init to_argv line p =
     (case current p of
        Some _ \<Rightarrow> Inr (False, p)
      | None \<Rightarrow> rbind (ParseFromString (switch_prefix_count p) to_argv line no_program)
          (\<lambda>cl. Inr (True, p\<lparr>current := Some cl\<rparr>)))"

definition ResetCommandLine :: "process_command_line \<Rightarrow> process_command_line result" where
  "ResetCommandLine p = require (current p \<noteq> None) (Dcheck ''current_process_commandline_'') (Inr (p\<lparr>current := None\<rparr>))"

definition ForCurrentProcess :: "process_command_line \<Rightarrow> command_line result" where
  "ForCurrentProcess p =
     (case current p of None \<Rightarrow> Inl (Dcheck ''current_process_commandline_'') | Some cl \<Rightarrow> Inr cl)"

definition InitializedForCurrentProcess :: "process_command_line \<Rightarrow> bool" where
  "InitializedForCurrentProcess p \<longleftrightarrow> current p \<noteq> None"

subsection \<open>Printing\<close>

text \<open>The loop over the argument: a run of backslashes is doubled before a quote and at the end.\<close>

function quote_loop :: "wstring \<Rightarrow> wstring" where
  "quote_loop [] = []"
| "quote_loop (c # cs) =
     (if c = 0x5C then
        let backslash_count = Suc (length (takeWhile (\<lambda>x. x = 0x5C) cs));
            rest = dropWhile (\<lambda>x. x = 0x5C) cs;
            written = (if rest = [] \<or> hd rest = 0x22 then backslash_count * 2 else backslash_count)
        in replicate written 0x5C @ quote_loop rest
      else if c = 0x22 then 0x5C # 0x22 # quote_loop cs
      else c # quote_loop cs)"
  by pat_completeness auto

termination
  by (relation "measure length") (auto simp: le_imp_less_Suc length_dropWhile_le)

definition QuoteForCommandLineToArgvW :: "bool \<Rightarrow> wstring \<Rightarrow> wstring" where
  "QuoteForCommandLineToArgvW quote_placeholders arg =
     (let quotable_chars = [0x20, 0x5C, 0x22] @ (if quote_placeholders then [0x25] else [])
      in if find_first_of arg quotable_chars 0 = None then arg
         else [0x22] @ quote_loop arg @ [0x22])"

text \<open>The loop of \<^verbatim>\<open>GetArgumentsStringInternal\<close>: \<open>first\<close> is \<open>i = 1\<close>.\<close>

fun arguments_loop :: "nat \<Rightarrow> bool \<Rightarrow> bool \<Rightarrow> bool \<Rightarrow> wstring list \<Rightarrow> wstring" where
  "arguments_loop n quote_placeholders first parse_switches [] = []"
| "arguments_loop n quote_placeholders first parse_switches (arg # args) =
     (let parse_switches1 = (parse_switches \<and> arg \<noteq> kSwitchTerminator);
          (is_switch, switch_string, switch_value) = IsSwitch n arg;
          param =
            (if parse_switches1 \<and> is_switch then
               switch_string @
                 (if switch_value \<noteq> [] then
                    kSwitchValueSeparator @ QuoteForCommandLineToArgvW quote_placeholders switch_value
                  else [])
             else QuoteForCommandLineToArgvW quote_placeholders arg)
      in (if first then [] else [0x20]) @ param @ arguments_loop n quote_placeholders False parse_switches1 args)"

definition GetArgumentsStringInternal :: "nat \<Rightarrow> bool \<Rightarrow> command_line \<Rightarrow> wstring" where
  "GetArgumentsStringInternal n quote_placeholders cl =
     arguments_loop n quote_placeholders True True (drop 1 (argv cl))"

definition GetCommandLineStringInternal :: "nat \<Rightarrow> bool \<Rightarrow> command_line \<Rightarrow> wstring" where
  "GetCommandLineStringInternal n quote_placeholders cl =
     (let str = QuoteForCommandLineToArgvW quote_placeholders (argv cl ! 0);
          params = GetArgumentsStringInternal n quote_placeholders cl
      in if params \<noteq> [] then str @ [0x20] @ params else str)"

definition GetCommandLineString :: "nat \<Rightarrow> command_line \<Rightarrow> wstring" where
  "GetCommandLineString n cl = GetCommandLineStringInternal n False cl"

definition GetCommandLineStringWithPlaceholders :: "nat \<Rightarrow> command_line \<Rightarrow> wstring" where
  "GetCommandLineStringWithPlaceholders n cl = GetCommandLineStringInternal n True cl"

definition GetArgumentsString :: "nat \<Rightarrow> command_line \<Rightarrow> wstring" where
  "GetArgumentsString n cl = GetArgumentsStringInternal n False cl"

definition GetArgumentsStringWithPlaceholders :: "nat \<Rightarrow> command_line \<Rightarrow> wstring" where
  "GetArgumentsStringWithPlaceholders n cl = GetArgumentsStringInternal n True cl"


subsection \<open>Well-formedness\<close>

text \<open>
  There is always a program element, and the place where the next switch is inserted lies after it
  and within the vector.
\<close>

definition cl_wf :: "command_line \<Rightarrow> bool" where
  "cl_wf cl \<longleftrightarrow> 0 < begin_args cl \<and> begin_args cl \<le> length (argv cl)"

named_theorems wfs \<open>operations that keep a command line well formed\<close>

lemma no_program_wf [wfs]: "cl_wf no_program" by (simp add: cl_wf_def no_program_def)
lemma SetProgram_wf [wfs]: "cl_wf cl \<Longrightarrow> cl_wf (SetProgram p cl)" by (simp add: cl_wf_def SetProgram_def)
lemma AppendArgNative_wf [wfs]: "cl_wf cl \<Longrightarrow> cl_wf (AppendArgNative v cl)" by (simp add: cl_wf_def AppendArgNative_def)
lemma PrependWrapper_wf [wfs]: "cl_wf cl \<Longrightarrow> cl_wf (PrependWrapper w cl)"
  by (simp add: cl_wf_def PrependWrapper_def Let_def)

lemma AppendSwitchNative_wf [wfs]: "cl_wf cl \<Longrightarrow> AppendSwitchNative n s v cl = Inr cl' \<Longrightarrow> cl_wf cl'"
  by (auto simp: cl_wf_def AppendSwitchNative_def Let_def rsimps)

lemma append_all_wf [wfs]: "cl_wf cl \<Longrightarrow> append_all n ps as cl = Inr cl' \<Longrightarrow> cl_wf cl'"
proof (induction as arbitrary: ps cl)
  case (Cons a as)
  show ?case using Cons.prems
    by (auto simp: Let_def rsimps split: prod.splits if_splits
        intro: Cons.IH [rotated] AppendArgNative_wf AppendSwitchNative_wf)
qed simp

lemma CopySwitchesFrom_wf [wfs]: "cl_wf cl \<Longrightarrow> CopySwitchesFrom n src ss cl = Inr cl' \<Longrightarrow> cl_wf cl'"
  by (induction n src ss cl rule: CopySwitchesFrom.induct) (auto simp: rsimps split: if_splits intro: wfs)

lemma InitFromArgv_wf [wfs]: "InitFromArgv n args cl = Inr cl' \<Longrightarrow> cl_wf cl'"
  unfolding InitFromArgv_def AppendSwitchesAndArguments_def
  by (erule append_all_wf [rotated]) (auto simp: cl_wf_def SetProgram_def)

lemma AppendArguments_wf [wfs]: "cl_wf cl \<Longrightarrow> AppendArguments n other b cl = Inr cl' \<Longrightarrow> cl_wf cl'"
  unfolding AppendArguments_def AppendSwitchesAndArguments_def
  by (erule append_all_wf [rotated]) (auto intro: wfs)

lemma ParseFromString_wf [wfs]: "cl_wf cl \<Longrightarrow> ParseFromString n to_argv str cl = Inr cl' \<Longrightarrow> cl_wf cl'"
  by (auto simp: ParseFromString_def Let_def split: if_splits option.splits intro: wfs)

subsection \<open>What parsing yields\<close>

definition is_switch :: "nat \<Rightarrow> wstring \<Rightarrow> bool" where "is_switch n a = fst (IsSwitch n a)"
definition switch_name :: "nat \<Rightarrow> wstring \<Rightarrow> wstring" where "switch_name n a = fst (snd (IsSwitch n a))"
definition switch_value :: "nat \<Rightarrow> wstring \<Rightarrow> wstring" where "switch_value n a = snd (snd (IsSwitch n a))"

definition lower16 :: "char16 \<Rightarrow> char16" where
  "lower16 c = (if 0x41 \<le> c \<and> c \<le> 0x5A then c + 0x20 else c)"

text \<open>The key of a switch, and the form in which it is kept: its name in lower case.\<close>

definition switch_key :: "nat \<Rightarrow> wstring \<Rightarrow> byte list" where
  "switch_key n a = drop (GetSwitchPrefixLength n a) (LowerASCIIOnWindows (map ucast (switch_name n a)))"

definition canonical :: "nat \<Rightarrow> wstring \<Rightarrow> wstring" where
  "canonical n a = map lower16 (switch_name n a) @ (if switch_value n a \<noteq> [] then 0x3D # switch_value n a else [])"

lemma IsSwitch_parts: "IsSwitch n a = (is_switch n a, switch_name n a, switch_value n a)"
  by (simp add: is_switch_def switch_name_def switch_value_def)

lemma ascii16:
  fixes c :: char16
  assumes "c < 0x80"
  shows "scast (ToLowerASCII (ucast c)) = lower16 c" "lower16 c < 0x80"
    "lower16 c = 0x2D \<longleftrightarrow> c = 0x2D" "lower16 c = 0x2F \<longleftrightarrow> c = 0x2F" "ToLowerASCII (ucast c) < 0x80"
proof -
  let ?b = "ucast c :: byte"
  have c: "unat c < 128" using assms by (simp add: word_less_nat_alt)
  have b: "unat ?b = unat c" using c by (simp add: unsigned_ucast_eq take_bit_nat_eq_self)
  have l: "unat (lower16 c) = (if 65 \<le> unat c \<and> unat c \<le> 90 then unat c + 32 else unat c)"
    using c by (simp add: lower16_def word_le_nat_alt unat_word_ariths)
  have t: "unat (ToLowerASCII ?b) = (if 65 \<le> unat c \<and> unat c \<le> 90 then unat c + 32 else unat c)"
    using c b by (simp add: ToLowerASCII_def word_le_nat_alt unat_word_ariths)
  show small: "ToLowerASCII ?b < 0x80" using t c by (auto simp: word_less_nat_alt split: if_splits)
  have "scast (ToLowerASCII ?b) = (ucast (ToLowerASCII ?b) :: char16)" using small by (rule scast_ascii)
  moreover have "unat (ucast (ToLowerASCII ?b) :: char16) = unat (ToLowerASCII ?b)"
    using small by (simp add: unsigned_ucast_eq take_bit_nat_eq_self word_less_nat_alt)
  ultimately show "scast (ToLowerASCII ?b) = lower16 c" using l t by (simp add: word_unat_eq_iff)
  show "lower16 c < 0x80" using l c by (auto simp: word_less_nat_alt split: if_splits)
  show "lower16 c = 0x2D \<longleftrightarrow> c = 0x2D" "lower16 c = 0x2F \<longleftrightarrow> c = 0x2F"
    using l c by (auto simp: word_unat_eq_iff split: if_splits)
qed


lemma lower_map:
  "is_ascii s \<Longrightarrow> map (scast \<circ> ToLowerASCII \<circ> ucast) s = map lower16 s"
  "is_ascii s \<Longrightarrow> is_ascii (LowerASCIIOnWindows (map ucast s))"
  for s :: wstring
  by (auto simp: is_ascii_def LowerASCIIOnWindows_def ascii16)

text \<open>The first \<^verbatim>\<open>=\<close> cuts off the name, which keeps the prefix.\<close>

lemma find_sub_single: "find_sub [c] s = find_index (\<lambda>x. x = c) s"
  by (induction s) auto

lemma IsSwitch_def2:
  "IsSwitch n a =
     (let k = GetSwitchPrefixLength n a
      in if k = 0 \<or> k = length a then (False, [], [])
         else (True, takeWhile (\<lambda>x. x \<noteq> 0x3D) a, drop 1 (dropWhile (\<lambda>x. x \<noteq> 0x3D) a)))"
proof (cases "find_index (\<lambda>x. x = 0x3D) a")
  case None
  then have "takeWhile (\<lambda>x. x \<noteq> 0x3D) a = a" "dropWhile (\<lambda>x. x \<noteq> 0x3D) a = []"
    by (auto simp: find_index_None takeWhile_eq_all_conv dropWhile_eq_Nil_conv)
  then have "IsSwitch n a = (let k = GetSwitchPrefixLength n a in
      if k = 0 \<or> k = length a then (False, [], []) else (True, a, []))" "takeWhile (\<lambda>x. x \<noteq> 0x3D) a = a"
    "dropWhile (\<lambda>x. x \<noteq> 0x3D) a = []" using None
    by (simp_all add: IsSwitch_def Let_def str_find_def kSwitchValueSeparator_def find_sub_single)
  then show ?thesis by (simp add: Let_def del: takeWhile_eq_all_conv dropWhile_eq_Nil_conv)
next
  case (Some i)
  then show ?thesis using find_index_take [OF Some]
    by (simp add: IsSwitch_def Let_def str_find_def kSwitchValueSeparator_def find_sub_single)
qed

lemma GetSwitchPrefixLength_Cons:
  "GetSwitchPrefixLength n [] = 0"
  "GetSwitchPrefixLength n (c # s) =
     (if n \<ge> 1 \<and> c = 0x2D \<and> s \<noteq> [] \<and> hd s = 0x2D then 2 else if n \<ge> 2 \<and> c = 0x2D then 1
      else if n \<ge> 3 \<and> c = 0x2F then 1 else 0)"
proof -
  consider "n = 0" | "n = 1" | "n = 2" | "n \<ge> 3" by linarith
  then have "take n kSwitchPrefixes = (if n \<ge> 1 then [[0x2D, 0x2D]] else []) @
      (if n \<ge> 2 then [[0x2D]] else []) @ (if n \<ge> 3 then [[0x2F]] else [])"
    by cases (simp_all add: kSwitchPrefixes_def)
  moreover have "take 2 (c # s) = [0x2D, 0x2D] \<longleftrightarrow> c = 0x2D \<and> s \<noteq> [] \<and> hd s = 0x2D"
    by (cases s) (auto simp: numeral_2_eq_2)
  ultimately show "GetSwitchPrefixLength n [] = 0" "GetSwitchPrefixLength n (c # s) =
     (if n \<ge> 1 \<and> c = 0x2D \<and> s \<noteq> [] \<and> hd s = 0x2D then 2 else if n \<ge> 2 \<and> c = 0x2D then 1
      else if n \<ge> 3 \<and> c = 0x2F then 1 else 0)"
    by (auto simp: GetSwitchPrefixLength_def numeral_2_eq_2)
qed

lemma GetSwitchPrefixLength_name:
  "GetSwitchPrefixLength n (takeWhile (\<lambda>x. x \<noteq> 0x3D) a) = GetSwitchPrefixLength n a"
  by (cases a; cases "tl a") (auto simp: GetSwitchPrefixLength_Cons)

lemma GetSwitchPrefixLength_lower:
  "is_ascii a \<Longrightarrow> GetSwitchPrefixLength n (map lower16 a) = GetSwitchPrefixLength n a"
  by (cases a; cases "tl a") (auto simp: GetSwitchPrefixLength_Cons is_ascii_def ascii16)


lemma switch_parts:
  assumes "is_switch n a"
  shows "switch_name n a = takeWhile (\<lambda>x. x \<noteq> 0x3D) a" "0 < GetSwitchPrefixLength n a"
  using assms by (auto simp: is_switch_def switch_name_def IsSwitch_def2 Let_def split: if_splits)

definition insert_switch :: "nat \<Rightarrow> wstring \<Rightarrow> command_line \<Rightarrow> command_line" where
  "insert_switch n a cl =
     cl\<lparr>switches := (switches cl)(switch_key n a \<mapsto> switch_value n a),
        argv := take (begin_args cl) (argv cl) @ canonical n a # drop (begin_args cl) (argv cl),
        begin_args := begin_args cl + 1\<rparr>"

lemma AppendSwitch_parsed:
  assumes "is_switch n a" "is_ascii (switch_name n a)"
  shows "UTF16ToASCII (switch_name n a) = Inr (map ucast (switch_name n a))"
    "AppendSwitchNative n (map ucast (switch_name n a)) (switch_value n a) cl = Inr (insert_switch n a cl)"
proof -
  let ?name = "switch_name n a"
  show "UTF16ToASCII ?name = Inr (map ucast ?name)" using assms(2) by (simp add: UTF16ToASCII_def)
  have ascii: "ASCIIToUTF16 (LowerASCIIOnWindows (map ucast ?name)) = Inr (map lower16 ?name)"
    using lower_map [OF assms(2)] by (simp add: ASCIIToUTF16_def LowerASCIIOnWindows_def)
  have k: "GetSwitchPrefixLength n (map lower16 ?name) = GetSwitchPrefixLength n a" "0 < GetSwitchPrefixLength n a"
    using assms(2) switch_parts [OF assms(1)] GetSwitchPrefixLength_name [of n a]
    by (simp_all add: GetSwitchPrefixLength_lower)
  then show "AppendSwitchNative n (map ucast ?name) (switch_value n a) cl = Inr (insert_switch n a cl)"
    by (simp add: AppendSwitchNative_def ascii Let_def insert_switch_def switch_key_def canonical_def kSwitchValueSeparator_def)
qed

text \<open>The trimmed arguments before the terminator that are switches, and all the others in order.\<close>

definition parsed_switches :: "nat \<Rightarrow> wstring list \<Rightarrow> wstring list" where
  "parsed_switches n as = filter (is_switch n) (takeWhile (\<lambda>a. a \<noteq> kSwitchTerminator) as)"

definition parsed_args :: "nat \<Rightarrow> wstring list \<Rightarrow> wstring list" where
  "parsed_args n as = filter (\<lambda>a. \<not> is_switch n a) (takeWhile (\<lambda>a. a \<noteq> kSwitchTerminator) as) @
     dropWhile (\<lambda>a. a \<noteq> kSwitchTerminator) as"

definition switch_map :: "nat \<Rightarrow> wstring list \<Rightarrow> byte list \<rightharpoonup> wstring" where
  "switch_map n sws = map_of (rev (map (\<lambda>a. (switch_key n a, switch_value n a)) sws))"

lemma append_all_args:
  "append_all n False as cl = Inr (cl\<lparr>argv := argv cl @ map (TrimAll kWhitespaceUTF16) as\<rparr>)"
  by (induction as arbitrary: cl) (auto simp: Let_def AppendArgNative_def split: prod.splits)

lemma parsed_simps:
  "parsed_switches n [] = []" "parsed_args n [] = []"
  "a = kSwitchTerminator \<Longrightarrow> parsed_switches n (a # as) = []" "a = kSwitchTerminator \<Longrightarrow> parsed_args n (a # as) = a # as"
  "a \<noteq> kSwitchTerminator \<Longrightarrow> is_switch n a \<Longrightarrow> parsed_switches n (a # as) = a # parsed_switches n as"
  "a \<noteq> kSwitchTerminator \<Longrightarrow> is_switch n a \<Longrightarrow> parsed_args n (a # as) = parsed_args n as"
  "a \<noteq> kSwitchTerminator \<Longrightarrow> \<not> is_switch n a \<Longrightarrow> parsed_switches n (a # as) = parsed_switches n as"
  "a \<noteq> kSwitchTerminator \<Longrightarrow> \<not> is_switch n a \<Longrightarrow> parsed_args n (a # as) = a # parsed_args n as"
  by (simp_all add: parsed_switches_def parsed_args_def)

lemma switch_map_Nil: "switch_map n [] = Map.empty"
  by (simp add: switch_map_def)

lemma switch_map_Cons: "m(switch_key n a \<mapsto> switch_value n a) ++ switch_map n sws = m ++ switch_map n (a # sws)"
  by (simp add: switch_map_def)

definition append_parsed :: "nat \<Rightarrow> wstring list \<Rightarrow> wstring list \<Rightarrow> command_line \<Rightarrow> command_line" where
  "append_parsed n sws others cl =
     \<lparr>argv = take (begin_args cl) (argv cl) @ map (canonical n) sws @ drop (begin_args cl) (argv cl) @ others,
      switches = switches cl ++ switch_map n sws,
      begin_args = begin_args cl + length sws\<rparr>"

lemma append_parsed_simps:
  assumes "cl_wf cl"
  shows "append_parsed n [] [] cl = cl" "append_parsed n sws others (AppendArgNative a cl) = append_parsed n sws (a # others) cl"
    "append_parsed n sws others (insert_switch n a cl) = append_parsed n (a # sws) others cl"
    "append_parsed n [] others cl = cl\<lparr>argv := argv cl @ others\<rparr>"
  using assms
  by (cases cl; simp add: append_parsed_def AppendArgNative_def insert_switch_def switch_map_Cons switch_map_Nil cl_wf_def)+

lemma append_all_spec:
  fixes as :: "wstring list"
  assumes "cl_wf cl" "list_all (\<lambda>a. is_ascii (switch_name n a)) (parsed_switches n (map (TrimAll kWhitespaceUTF16) as))"
  shows "append_all n True as cl = Inr (append_parsed n (parsed_switches n (map (TrimAll kWhitespaceUTF16) as))
    (parsed_args n (map (TrimAll kWhitespaceUTF16) as)) cl)"
  using assms
proof (induction as arbitrary: cl)
  case Nil
  then show ?case by (simp add: parsed_simps append_parsed_simps)
next
  case (Cons a as)
  let ?a = "TrimAll kWhitespaceUTF16 a"
  consider "?a = kSwitchTerminator" | "?a \<noteq> kSwitchTerminator" "\<not> is_switch n ?a" | "?a \<noteq> kSwitchTerminator" "is_switch n ?a"
    by blast
  then show ?case
  proof cases
    case 1
    then have "append_all n True (a # as) cl = append_all n False as (AppendArgNative ?a cl)"
      by (simp add: IsSwitch_parts)
    then show ?thesis using 1 Cons.prems(1)
      by (simp add: parsed_simps append_parsed_simps append_all_args AppendArgNative_def)
  next
    case 2
    then have "append_all n True (a # as) cl = append_all n True as (AppendArgNative ?a cl)"
      by (simp add: IsSwitch_parts)
    then show ?thesis using Cons.IH [OF AppendArgNative_wf [OF Cons.prems(1)]] Cons.prems 2
      by (simp add: parsed_simps append_parsed_simps)
  next
    case 3
    then have "is_ascii (switch_name n ?a)" using Cons.prems(2) by (simp add: parsed_simps)
    note sw = AppendSwitch_parsed [OF 3(2) this]
    have "append_all n True (a # as) cl = append_all n True as (insert_switch n ?a cl)"
      using 3 by (simp add: IsSwitch_parts sw)
    moreover have "cl_wf (insert_switch n ?a cl)" using sw(2) Cons.prems(1) by (rule AppendSwitchNative_wf [rotated])
    ultimately show ?thesis using Cons.IH [of "insert_switch n ?a cl"] Cons.prems 3
      by (simp add: parsed_simps append_parsed_simps)
  qed
qed

text \<open>
  C20: parsing an argument vector whose switch names are ASCII gives the trimmed program, then the
  switches before the terminator in order (names in lower case), then every other argument in order;
  a switch is found under any case of its name and has the value of its last occurrence.
\<close>

theorem InitFromArgv_correct:
  assumes "list_all (\<lambda>a. is_ascii (switch_name n a)) (parsed_switches n (map (TrimAll kWhitespaceUTF16) (drop 1 args)))"
  defines "sws \<equiv> parsed_switches n (map (TrimAll kWhitespaceUTF16) (drop 1 args))"
    and "others \<equiv> parsed_args n (map (TrimAll kWhitespaceUTF16) (drop 1 args))"
  shows "\<exists>cl. InitFromArgv n args cl0 = Inr cl \<and>
    argv cl = TrimAll kWhitespaceUTF16 (if args = [] then [] else FilePath (args ! 0)) # map (canonical n) sws @ others \<and>
    begin_args cl = Suc (length sws) \<and> GetArgs cl = remove1 kSwitchTerminator others \<and>
    (HasSwitch cl name \<longleftrightarrow> LowerASCIIOnWindows name \<in> set (map (switch_key n) sws)) \<and>
    (HasSwitch cl name \<longrightarrow> GetSwitchValueNative cl name =
       switch_value n (last (filter (\<lambda>a. switch_key n a = LowerASCIIOnWindows name) sws)))"
proof -
  let ?p = "TrimAll kWhitespaceUTF16 (if args = [] then [] else FilePath (args ! 0))"
  let ?cl = "\<lparr>argv = [?p], switches = Map.empty, begin_args = 1\<rparr>"
  let ?m = "switch_map n sws"
  have "InitFromArgv n args cl0 = append_all n True (drop 1 args) ?cl"
    by (cases cl0) (simp add: InitFromArgv_def AppendSwitchesAndArguments_def SetProgram_def)
  also have "\<dots> = Inr \<lparr>argv = ?p # map (canonical n) sws @ others, switches = ?m, begin_args = Suc (length sws)\<rparr>"
    using append_all_spec [of ?cl n "drop 1 args"] assms(1) by (simp add: cl_wf_def sws_def others_def append_parsed_def)
  finally have init: "InitFromArgv n args cl0 =
    Inr \<lparr>argv = ?p # map (canonical n) sws @ others, switches = ?m, begin_args = Suc (length sws)\<rparr>" .
  have dom: "?m k \<noteq> None \<longleftrightarrow> k \<in> set (map (switch_key n) sws)" for k
    by (auto simp: switch_map_def map_of_eq_None_iff image_image)
  have val: "?m k \<noteq> None \<Longrightarrow> ?m k = Some (switch_value n (last (filter (\<lambda>a. switch_key n a = k) sws)))" for k
  proof (induction sws rule: rev_induct)
    case (snoc a sws)
    then show ?case by (auto simp: switch_map_def)
  qed (simp add: switch_map_def)
  show ?thesis
    by (intro exI conjI, rule init)
      (use val [of "LowerASCIIOnWindows name"] dom [of "LowerASCIIOnWindows name"]
        in \<open>auto simp: GetArgs_def HasSwitch_def GetSwitchValueNative_def\<close>)
qed


text \<open>\<^verbatim>\<open>prog --Foo=1 x -- --y\<close>, with the name asked for as \<^verbatim>\<open>FOO\<close>.\<close>

theorem InitFromArgv_correct_witness:
  "\<exists>cl. InitFromArgv 3 [[0x70], [0x2D, 0x2D, 0x46, 0x3D, 0x31], [0x78], [0x2D, 0x2D], [0x2D, 0x2D, 0x79]] no_program = Inr cl \<and>
    argv cl = [[0x70], [0x2D, 0x2D, 0x66, 0x3D, 0x31], [0x78], [0x2D, 0x2D], [0x2D, 0x2D, 0x79]] \<and>
    GetArgs cl = [[0x78], [0x2D, 0x2D, 0x79]] \<and> GetSwitchValueNative cl [0x46] = [0x31]"
proof -
  let ?args = "[[0x70], [0x2D, 0x2D, 0x46, 0x3D, 0x31], [0x78], [0x2D, 0x2D], [0x2D, 0x2D, 0x79]] :: wstring list"
  have sw: "parsed_switches 3 (map (TrimAll kWhitespaceUTF16) (drop 1 ?args)) = [[0x2D, 0x2D, 0x46, 0x3D, 0x31]]"
    "parsed_args 3 (map (TrimAll kWhitespaceUTF16) (drop 1 ?args)) = [[0x78], [0x2D, 0x2D], [0x2D, 0x2D, 0x79]]"
    "is_ascii (switch_name 3 [0x2D, 0x2D, 0x46, 0x3D, 0x31])"
    "map (canonical 3) [[0x2D, 0x2D, 0x46, 0x3D, 0x31]] = [[0x2D, 0x2D, 0x66, 0x3D, 0x31]]"
    "switch_key 3 [0x2D, 0x2D, 0x46, 0x3D, 0x31] = LowerASCIIOnWindows [0x46]"
    "switch_value 3 [0x2D, 0x2D, 0x46, 0x3D, 0x31] = [0x31]"
    "TrimAll kWhitespaceUTF16 (FilePath [0x70]) = [0x70]"
    "remove1 kSwitchTerminator [[0x78], [0x2D, 0x2D], [0x2D, 0x2D, 0x79]] = [[0x78], [0x2D, 0x2D, 0x79]]"
    by code_simp+
  then show ?thesis using InitFromArgv_correct [of 3 ?args no_program "[0x46]"]
    by (auto simp: sw simp del: list.map drop_Suc_Cons)
qed


subsection \<open>Printing and the documented rules of \<^verbatim>\<open>CommandLineToArgvW\<close>\<close>

text \<open>
  The documentation the code refers to: arguments are delimited by spaces and tabs; a part between
  double quotes is taken as it is; backslashes are literal unless a run of them precedes a quote,
  and then an even run of \<open>2 * k\<close> gives \<open>k\<close> backslashes before a delimiting quote and an odd run
  \<open>2 * k + 1\<close> gives \<open>k\<close> backslashes and a literal quote. The program name has no escapes: it ends at
  the closing quote, or without quotes at a blank. These definitions state what is assumed of
  \<open>to_argv\<close> on a printed line; they are no model of it elsewhere.
\<close>

definition blank :: "char16 \<Rightarrow> bool" where "blank c \<longleftrightarrow> c = 0x20 \<or> c = 0x09"

text \<open>One argument: inside quotes or not, and the backslashes read just before.\<close>

fun read_arg :: "bool \<Rightarrow> nat \<Rightarrow> wstring \<Rightarrow> wstring \<times> wstring" where
  "read_arg quoted k [] = (replicate k 0x5C, [])"
| "read_arg quoted k (c # cs) =
     (if c = 0x5C then read_arg quoted (Suc k) cs
      else if c = 0x22 then
        if even k then apfst ((@) (replicate (k div 2) 0x5C)) (read_arg (\<not> quoted) 0 cs)
        else apfst ((@) (replicate (k div 2) 0x5C @ [0x22])) (read_arg quoted 0 cs)
      else if \<not> quoted \<and> blank c then (replicate k 0x5C, c # cs)
      else apfst ((@) (replicate k 0x5C @ [c])) (read_arg quoted 0 cs))"

lemma read_arg_length: "length (snd (read_arg q k s)) \<le> length s"
  by (induction q k s rule: read_arg.induct) auto

lemma read_arg_less: "\<not> blank c \<Longrightarrow> length (snd (read_arg q k (c # cs))) \<le> length cs"
  using read_arg_length by auto

function documented_args :: "wstring \<Rightarrow> wstring list" where
  "documented_args s =
     (case dropWhile blank s of [] \<Rightarrow> []
      | c # cs \<Rightarrow> fst (read_arg False 0 (c # cs)) # documented_args (snd (read_arg False 0 (c # cs))))"
  by pat_completeness auto

termination
proof (relation "measure length")
  fix s :: wstring and c cs
  assume s: "dropWhile blank s = c # cs"
  then have "\<not> blank c" "length (c # cs) \<le> length s"
    using hd_dropWhile [of blank s] length_dropWhile_le [of blank s] by auto
  then show "(snd (read_arg False 0 (c # cs)), s) \<in> measure length"
    using read_arg_less [of c False 0 cs] by (simp del: read_arg.simps)
qed simp

declare documented_args.simps [simp del]

definition documented_argv :: "wstring \<Rightarrow> wstring list" where
  "documented_argv line =
     (if line \<noteq> [] \<and> hd line = 0x22 then
        takeWhile (\<lambda>c. c \<noteq> 0x22) (tl line) # documented_args (drop 1 (dropWhile (\<lambda>c. c \<noteq> 0x22) (tl line)))
      else takeWhile (\<lambda>c. \<not> blank c) line # documented_args (dropWhile (\<lambda>c. \<not> blank c) line))"

text \<open>Reading a run of backslashes.\<close>

lemma read_arg_run: "read_arg q k (replicate j 0x5C @ s) = read_arg q (k + j) s"
  by (induction j arbitrary: k) simp_all

lemma run_split: "s = replicate (length (takeWhile (\<lambda>x. x = c) s)) c @ dropWhile (\<lambda>x. x = c) s"
  by (induction s) auto

declare quote_loop.simps [simp del]

lemma quote_loop_simps [simp]:
  "quote_loop [] = []"
  "c \<noteq> 0x5C \<Longrightarrow> quote_loop (c # cs) = (if c = 0x22 then [0x5C, 0x22] else [c]) @ quote_loop cs"
  by (simp_all add: quote_loop.simps)

lemma quote_loop_run:
  assumes "0 < k" "r = [] \<or> hd r \<noteq> 0x5C"
  shows "quote_loop (replicate k 0x5C @ r) = replicate (if r = [] \<or> hd r = 0x22 then k * 2 else k) 0x5C @ quote_loop r"
proof -
  obtain j where k: "k = Suc j" using assms(1) by (cases k) auto
  have "takeWhile (\<lambda>x. x = 0x5C) (replicate j 0x5C @ r) = replicate j 0x5C" "dropWhile (\<lambda>x. x = 0x5C) (replicate j 0x5C @ r) = r"
    using assms(2) by (cases r; simp add: takeWhile_append dropWhile_append)+
  then show ?thesis by (simp add: k quote_loop.simps(2) [of "0x5C"] Let_def)
qed

lemma read_quoted:
  "read_arg True 0 (quote_loop a @ 0x22 # rest) = apfst ((@) a) (read_arg False 0 rest)"
proof (induction "length a" arbitrary: a rule: less_induct)
  case less
  show ?case
  proof (cases a)
    case (Cons c cs)
    show ?thesis
    proof (cases "c = 0x5C")
      case False
      then show ?thesis using less [of cs] Cons by (simp add: apfst_compose)
    next
      case True
      let ?k = "Suc (length (takeWhile (\<lambda>x. x = 0x5C) cs))" let ?r = "dropWhile (\<lambda>x. x = 0x5C) cs"
      have a: "a = replicate ?k 0x5C @ ?r" using run_split [of cs "0x5C"] True Cons by simp
      have r: "?r = [] \<or> hd ?r \<noteq> 0x5C" using hd_dropWhile [of "\<lambda>x. x = 0x5C" cs] by auto
      have q: "quote_loop a = replicate (if ?r = [] \<or> hd ?r = 0x22 then ?k * 2 else ?k) 0x5C @ quote_loop ?r"
        by (subst a, rule quote_loop_run) (use r in simp_all)
      show ?thesis
      proof (cases ?r)
        case Nil
        have "read_arg True 0 (quote_loop a @ 0x22 # rest) = apfst ((@) (replicate ?k 0x5C)) (read_arg False 0 rest)"
          by (simp add: q Nil read_arg_run del: replicate.simps)
        then show ?thesis using a Nil by (simp del: replicate.simps)
      next
        case (Cons d ds)
        then have d: "d \<noteq> 0x5C" using r by simp
        have "length ds < length a" using arg_cong [OF a, of length] Cons by simp
        note IH = less [OF this]
        have "read_arg True 0 (quote_loop a @ 0x22 # rest) =
            apfst ((@) (replicate ?k 0x5C @ [d])) (read_arg True 0 (quote_loop ds @ 0x22 # rest))"
          using d by (cases "d = 0x22") (simp_all add: q Cons read_arg_run del: replicate.simps)
        then show ?thesis using a Cons IH by (simp add: apfst_compose del: replicate.simps)
      qed
    qed
  qed simp
qed


definition ends_arg :: "wstring \<Rightarrow> bool" where "ends_arg rest \<longleftrightarrow> rest = [] \<or> blank (hd rest)"

definition plain :: "wstring \<Rightarrow> bool" where "plain t \<longleftrightarrow> (\<forall>c \<in> set t. \<not> blank c \<and> c \<noteq> 0x22)"

lemma read_end: "ends_arg rest \<Longrightarrow> read_arg False k rest = (replicate k 0x5C, rest)"
  by (cases rest) (auto simp: ends_arg_def blank_def)

lemma read_plain: "plain t \<Longrightarrow> ends_arg rest \<Longrightarrow> read_arg False k (t @ rest) = (replicate k 0x5C @ t, rest)"
proof (induction t arbitrary: k)
  case (Cons c t)
  then show ?case by (auto simp: plain_def replicate_app_Cons_same)
qed (simp add: read_end)

lemma read_name:
  "plain t \<Longrightarrow> read_arg False k (t @ 0x3D # rest) = apfst ((@) (replicate k 0x5C @ t @ [0x3D])) (read_arg False 0 rest)"
proof (induction t arbitrary: k)
  case (Cons c t)
  then show ?case by (auto simp: plain_def replicate_app_Cons_same apfst_compose comp_def)
qed (simp add: blank_def)

lemma Quote_cases:
  obtains "QuoteForCommandLineToArgvW qp a = a" "0x20 \<notin> set a" "0x5C \<notin> set a" "0x22 \<notin> set a"
  | "QuoteForCommandLineToArgvW qp a = 0x22 # quote_loop a @ [0x22]"
proof (cases "find_first_of a ([0x20, 0x5C, 0x22] @ (if qp then [0x25] else [])) 0 = None")
  case True
  then have "c \<notin> {0x20, 0x5C, 0x22}" if "c \<in> set a" for c
    using that by (auto simp: find_first_of_def find_first_def find_index_None split: if_splits)
  then show ?thesis using that(1) True by (simp add: QuoteForCommandLineToArgvW_def) blast
next
  case False
  then have "QuoteForCommandLineToArgvW qp a = 0x22 # quote_loop a @ [0x22]"
    by (simp only: QuoteForCommandLineToArgvW_def Let_def) simp
  then show ?thesis by (rule that(2))
qed

text \<open>Quoting preserves every argument that is not empty and has no tab.\<close>

lemma read_Quote:
  assumes "0x09 \<notin> set a" "ends_arg rest"
  shows "read_arg False 0 (QuoteForCommandLineToArgvW qp a @ rest) = (a, rest)"
proof (cases rule: Quote_cases [of qp a])
  case 1
  then have "plain a" using assms(1) by (auto simp: plain_def blank_def)
  then show ?thesis using 1(1) assms(2) read_plain [of a rest 0] by simp
next
  case 2
  then show ?thesis using read_quoted [of a rest] read_end [OF assms(2), of 0] by simp
qed

lemma Quote_first:
  assumes "a \<noteq> []" "0x09 \<notin> set a"
  shows "QuoteForCommandLineToArgvW qp a \<noteq> [] \<and> \<not> blank (hd (QuoteForCommandLineToArgvW qp a))"
proof (cases rule: Quote_cases [of qp a])
  case 1
  have "hd a \<noteq> 0x20" "hd a \<noteq> 0x09" using 1 assms by (metis hd_in_set)+
  then show ?thesis using 1(1) assms(1) by (simp add: blank_def)
next
  case 2
  then show ?thesis by (simp add: blank_def)
qed

text \<open>What the printer handles: a switch name is printed without quotes, the rest is quoted.\<close>

fun printable :: "nat \<Rightarrow> bool \<Rightarrow> wstring list \<Rightarrow> bool" where
  "printable n ps [] = True"
| "printable n ps (a # as) =
     (let ps1 = (ps \<and> a \<noteq> kSwitchTerminator)
      in (if ps1 \<and> is_switch n a then plain (switch_name n a) \<and>
            a = switch_name n a @ (if switch_value n a \<noteq> [] then 0x3D # switch_value n a else [])
          else a \<noteq> []) \<and> 0x09 \<notin> set a \<and> printable n ps1 as)"

lemma read_switch:
  assumes "plain name" "0x09 \<notin> set v" "ends_arg rest"
  shows "read_arg False 0 (name @ (if v \<noteq> [] then 0x3D # QuoteForCommandLineToArgvW qp v else []) @ rest) =
    (name @ (if v \<noteq> [] then 0x3D # v else []), rest)"
  using read_name [OF assms(1), of 0 "QuoteForCommandLineToArgvW qp v @ rest"] read_Quote [OF assms(2,3), of qp]
    read_plain [OF assms(1,3), of 0]
  by auto

lemma arguments_loop_ends: "ends_arg (arguments_loop n qp False ps as)"
  by (cases as) (simp_all add: ends_arg_def blank_def Let_def split: prod.splits)

lemma documented_args_Cons:
  assumes "p \<noteq> []" "\<not> blank (hd p)" "read_arg False 0 (p @ rest) = (a, rest)" "list_all blank sep"
  shows "documented_args (sep @ p @ rest) = a # documented_args rest"
proof -
  obtain c cs where p: "p = c # cs" using assms(1) by (cases p) auto
  have "dropWhile blank (sep @ p @ rest) = p @ rest"
    using assms(2,4) p by (induction sep) auto
  then show ?thesis using assms(3) p by (subst documented_args.simps) simp
qed

lemma documented_args_loop:
  "printable n ps as \<Longrightarrow> documented_args (arguments_loop n qp first ps as) = as"
proof (induction as arbitrary: ps first)
  case Nil
  show ?case by (simp add: documented_args.simps)
next
  case (Cons a as)
  let ?ps = "ps \<and> a \<noteq> kSwitchTerminator" let ?rest = "arguments_loop n qp False ?ps as"
  let ?sep = "if first then [] else [0x20 :: char16]"
  define p where "p = (if ?ps \<and> is_switch n a then switch_name n a @
      (if switch_value n a \<noteq> [] then 0x3D # QuoteForCommandLineToArgvW qp (switch_value n a) else [])
    else QuoteForCommandLineToArgvW qp a)"
  have loop: "arguments_loop n qp first ps (a # as) = ?sep @ p @ ?rest"
    by (simp add: p_def IsSwitch_parts kSwitchValueSeparator_def Let_def)
  have rest: "documented_args ?rest = as" using Cons by (auto simp: Let_def)
  have "p \<noteq> [] \<and> \<not> blank (hd p) \<and> read_arg False 0 (p @ ?rest) = (a, ?rest)"
  proof (cases "?ps \<and> is_switch n a")
    case True
    then have pr: "plain (switch_name n a)" "0x09 \<notin> set (switch_value n a)"
      "a = switch_name n a @ (if switch_value n a \<noteq> [] then 0x3D # switch_value n a else [])"
    proof -
      have "plain (switch_name n a) \<and> a = switch_name n a @ (if switch_value n a \<noteq> [] then 0x3D # switch_value n a else [])"
        "0x09 \<notin> set a"
        using Cons.prems True by (simp_all add: Let_def)
      moreover from this have "set (switch_value n a) \<subseteq> set a"
        by (cases "switch_value n a = []") (auto, metis UnI2 list.set_intros(2) set_append)
      ultimately show "plain (switch_name n a)" "0x09 \<notin> set (switch_value n a)"
        "a = switch_name n a @ (if switch_value n a \<noteq> [] then 0x3D # switch_value n a else [])" by blast+
    qed
    have name: "switch_name n a \<noteq> []" using switch_parts [of n a] GetSwitchPrefixLength_name [of n a] True
      by (auto simp: GetSwitchPrefixLength_Cons)
    then have "\<not> blank (hd (switch_name n a))" using pr(1) by (simp add: plain_def)
    then show ?thesis using name read_switch [OF pr(1,2) arguments_loop_ends, of qp] True pr(3) by (simp add: p_def)
  next
    case False
    then have "a \<noteq> []" "0x09 \<notin> set a" using Cons.prems by (auto simp: Let_def)
    moreover have "p = QuoteForCommandLineToArgvW qp a" unfolding p_def using False by (rule if_not_P)
    ultimately show ?thesis using Quote_first [of a qp] read_Quote [OF _ arguments_loop_ends] by simp
  qed
  moreover have "list_all blank ?sep" by (simp add: blank_def)
  ultimately show ?case using documented_args_Cons [of p ?rest a ?sep] rest loop by simp
qed

lemma quote_loop_id: "0x22 \<notin> set p \<Longrightarrow> p = [] \<or> last p \<noteq> 0x5C \<Longrightarrow> quote_loop p = p"
proof (induction "length p" arbitrary: p rule: less_induct)
  case less
  show ?case
  proof (cases p)
    case (Cons c cs)
    show ?thesis
    proof (cases "c = 0x5C")
      case False
      then show ?thesis using less Cons by (cases cs) auto
    next
      case True
      define k where "k = Suc (length (takeWhile (\<lambda>x. x = 0x5C) cs))"
      define r where "r = dropWhile (\<lambda>x. x = 0x5C) cs"
      have p: "p = replicate k 0x5C @ r" using run_split [of cs "0x5C"] True Cons by (simp add: k_def r_def)
      have len: "length r < length p" "0 < k" using arg_cong [OF p, of length] by (simp_all add: k_def)
      have r: "r \<noteq> []"
      proof
        assume "r = []"
        then have "last p = 0x5C" using p len(2) by (simp add: last_replicate)
        then show False using less.prems(2) Cons by simp
      qed
      then have "hd r \<noteq> 0x5C" unfolding r_def using hd_dropWhile by blast
      moreover have "0x22 \<notin> set r" "last r \<noteq> 0x5C" using less.prems p r Cons by auto
      moreover from this r have "hd r \<noteq> 0x22" by (metis hd_in_set)
      ultimately have "quote_loop p = replicate k 0x5C @ quote_loop r" "quote_loop r = r"
        using quote_loop_run [OF len(2), of r] less.hyps [OF len(1)] p r by simp_all
      then show ?thesis using p by simp
    qed
  qed simp
qed


definition program_printable :: "wstring \<Rightarrow> bool" where
  "program_printable p \<longleftrightarrow> p \<noteq> [] \<and> plain (filter (\<lambda>c. c \<noteq> 0x20) p) \<and> last p \<noteq> 0x5C"

lemma documented_argv_program:
  assumes "program_printable p" "rest = [] \<or> hd rest = 0x20"
  shows "documented_argv (QuoteForCommandLineToArgvW qp p @ rest) = p # documented_args rest"
proof -
  have p: "0x22 \<notin> set p" "0x09 \<notin> set p" "p \<noteq> []" "last p \<noteq> 0x5C"
    using assms(1) by (auto simp: program_printable_def plain_def blank_def)
  have tw: "takeWhile P (p @ s) = p \<and> dropWhile P (p @ s) = s" if "\<forall>c \<in> set p. P c" "s = [] \<or> \<not> P (hd s)" for P and s :: wstring
    using that by (cases s) (auto simp: takeWhile_append dropWhile_append)
  show ?thesis
  proof (cases rule: Quote_cases [of qp p])
    case 1
    then have "\<forall>c \<in> set p. \<not> blank c" using p(2) by (auto simp: blank_def)
    moreover have "hd p \<noteq> 0x22" using p(1,3) by (metis hd_in_set)
    ultimately show ?thesis using tw [of "\<lambda>c. \<not> blank c" rest] 1(1) p(3) assms(2)
      by (auto simp: documented_argv_def blank_def)
  next
    case 2
    have "\<forall>c \<in> set p. c \<noteq> 0x22" using p(1) by auto
    then show ?thesis using tw [of "\<lambda>c. c \<noteq> 0x22" "0x22 # rest"] 2 quote_loop_id [OF p(1)] p(4)
      by (simp add: documented_argv_def)
  qed
qed

text \<open>
  C21: where \<open>to_argv\<close> follows the documented rules, reading the printed command line gives back the
  argument vector it was printed from (so parsing it gives the same switches and arguments), if the
  program has no quote, no tab and no final backslash, no argument is empty or has a tab, and no
  switch name has a blank or a quote. The quoting does not cover those: an argument with a tab, and
  a switch name with a space, are read back as two arguments, and an empty argument is lost.
\<close>

theorem command_line_roundtrip:
  assumes "cl_wf cl" "program_printable (argv cl ! 0)" "printable n True (drop 1 (argv cl))"
    and "TrimAll kWhitespaceUTF16 (GetCommandLineStringInternal n qp cl) = GetCommandLineStringInternal n qp cl"
    and "to_argv (GetCommandLineStringInternal n qp cl) = Some (documented_argv (GetCommandLineStringInternal n qp cl))"
  shows "FromString n to_argv (GetCommandLineStringInternal n qp cl) = InitFromArgv n (argv cl) no_program \<and>
    documented_argv (GetCommandLineString 3 \<lparr>argv = [[0x70], [0x61, 0x09, 0x62]], switches = Map.empty, begin_args = 1\<rparr>) =
      [[0x70], [0x61], [0x62]] \<and>
    documented_argv (GetCommandLineString 3 \<lparr>argv = [[0x70], [], [0x61]], switches = Map.empty, begin_args = 1\<rparr>) =
      [[0x70], [0x61]] \<and>
    documented_argv (GetCommandLineString 3
      \<lparr>argv = [[0x70], [0x2D, 0x61, 0x20, 0x62]], switches = [[0x61, 0x20, 0x62] \<mapsto> []], begin_args = 2\<rparr>) =
      [[0x70], [0x2D, 0x61], [0x62]]"
proof (intro conjI)
  let ?line = "GetCommandLineStringInternal n qp cl"
  obtain p as where cl: "argv cl = p # as" using assms(1) by (cases "argv cl") (auto simp: cl_wf_def)
  have "documented_argv ?line = p # as"
  proof (cases "GetArgumentsStringInternal n qp cl = []")
    case True
    then have "arguments_loop n qp True True as = []" by (simp add: GetArgumentsStringInternal_def cl)
    then have "as = documented_args []" using documented_args_loop [of n True as qp True] assms(3) cl by simp
    then show ?thesis using True documented_argv_program [of p "[]" qp] assms(2) cl
      by (simp add: GetCommandLineStringInternal_def)
  next
    case False
    have "documented_args ([0x20] @ arguments_loop n qp True True as) = as"
    proof -
      have "documented_args ([0x20] @ s) = documented_args s" for s
        by (simp add: documented_args.simps [of "0x20 # s"] documented_args.simps [of s] blank_def)
      then show ?thesis using documented_args_loop [of n True as qp True] assms(3) cl by simp
    qed
    then show ?thesis
      using False documented_argv_program [of p "[0x20] @ arguments_loop n qp True True as" qp] assms(2) cl
      by (simp add: GetCommandLineStringInternal_def GetArgumentsStringInternal_def Let_def)
  qed
  moreover from this have "?line \<noteq> []" using assms(2) cl by (auto simp: documented_argv_def program_printable_def)
  ultimately show "FromString n to_argv ?line = InitFromArgv n (argv cl) no_program"
    using assms(4,5) cl by (simp add: FromString_def ParseFromString_def)
qed (code_simp+)

theorem command_line_roundtrip_witness:
  "FromString 3 (\<lambda>s. Some (documented_argv s))
     (GetCommandLineString 3 \<lparr>argv = [[0x70, 0x20, 0x71], [0x2D, 0x61, 0x3D, 0x22], [0x62, 0x5C]],
        switches = [[0x61] \<mapsto> [0x22]], begin_args = 2\<rparr>) =
   InitFromArgv 3 [[0x70, 0x20, 0x71], [0x2D, 0x61, 0x3D, 0x22], [0x62, 0x5C]] no_program"
proof -
  let ?cl = "\<lparr>argv = [[0x70, 0x20, 0x71], [0x2D, 0x61, 0x3D, 0x22], [0x62, 0x5C]],
        switches = [[0x61] \<mapsto> [0x22]], begin_args = 2\<rparr> :: command_line"
  have "cl_wf ?cl" by (simp add: cl_wf_def)
  moreover have "program_printable (argv ?cl ! 0)" by (simp add: program_printable_def plain_def blank_def)
  moreover have "printable 3 True (drop 1 (argv ?cl))" by code_simp
  moreover have "TrimAll kWhitespaceUTF16 (GetCommandLineStringInternal 3 False ?cl) = GetCommandLineStringInternal 3 False ?cl"
    by code_simp
  ultimately show ?thesis
    using command_line_roundtrip [of ?cl 3 False "\<lambda>s. Some (documented_argv s)"] by (simp add: GetCommandLineString_def)
qed

end
