(* ===== verification/Number_Conversions.thy ===== *)
theory Number_Conversions
  imports Safe_Math
begin

text \<open>
  Strings and integers (\<^verbatim>\<open>base/strings/string_number_conversions.cc\<close>). The templates over the integer type
  become functions of its descriptor \<open>T\<close>, those over the character type are polymorphic in the width of
  the word; \<open>is_space\<close> is the library's \<^verbatim>\<open>isspace\<close> or \<^verbatim>\<open>iswspace\<close>. The conversions of floating-point numbers
  call code outside the repository's sources and are left out.
\<close>

unbundle bit_operations_syntax

subsection \<open>From integers\<close>

definition ToUnsigned :: "int_type \<Rightarrow> int \<Rightarrow> nat" where
  "ToUnsigned T v =
     nat (if is_signed T then static_cast (T\<lparr>is_signed := False\<rparr>) (if v < 0 then static_cast T (- v) else v)
          else static_cast T v)"

definition TestNeg :: "int_type \<Rightarrow> int \<Rightarrow> bool" where
  "TestNeg T v \<longleftrightarrow> (if is_signed T then v < 0 else False)"

text \<open>The buffer is filled from its end; \<open>it\<close> is the number of characters before the iterator.\<close>

function digits_loop :: "nat \<Rightarrow> nat \<Rightarrow> 'a::len word list \<Rightarrow> (nat \<times> 'a word list) result" where
  "digits_loop it res out =
     require (it - 1 \<noteq> 0) (Dcheck ''it != outbuf.begin()'')
       (let out1 = of_nat (res mod 10 + 0x30) # out; res1 = res div 10
        in if res1 \<noteq> 0 then digits_loop (it - 1) res1 out1 else Inr (it - 1, out1))"
  by pat_completeness auto

termination by (relation "measure (\<lambda>(_, res, _). res)") auto

declare digits_loop.simps [simp del]

definition IntToStringT :: "int_type \<Rightarrow> int \<Rightarrow> 'a::len word list result" where
  "IntToStringT T v =
     (let kOutputBufSize = 3 * (width T div 8) + 1; is_neg = TestNeg T v
      in rbind (digits_loop kOutputBufSize (ToUnsigned T v) []) (\<lambda>(it, out).
           if is_neg then require (it - 1 \<noteq> 0) (Dcheck ''it != outbuf.begin()'') (Inr (0x2D # out))
           else Inr out))"

definition IntToString :: "int \<Rightarrow> byte list result" where "IntToString = IntToStringT int32_t"
definition IntToString16 :: "int \<Rightarrow> 16 word list result" where "IntToString16 = IntToStringT int32_t"
definition UintToString :: "int \<Rightarrow> byte list result" where "UintToString = IntToStringT uint32_t"
definition UintToString16 :: "int \<Rightarrow> 16 word list result" where "UintToString16 = IntToStringT uint32_t"
definition Int64ToString :: "int \<Rightarrow> byte list result" where "Int64ToString = IntToStringT int64_t"
definition Int64ToString16 :: "int \<Rightarrow> 16 word list result" where "Int64ToString16 = IntToStringT int64_t"
definition Uint64ToString :: "int \<Rightarrow> byte list result" where "Uint64ToString = IntToStringT uint64_t"
definition Uint64ToString16 :: "int \<Rightarrow> 16 word list result" where "Uint64ToString16 = IntToStringT uint64_t"

subsection \<open>To integers\<close>

definition CharToDigit :: "nat \<Rightarrow> 'a::len word \<Rightarrow> nat option" where
  "CharToDigit base ch =
     (let c = unat ch
      in if base \<le> 10 then (if 0x30 \<le> c \<and> c < 0x30 + base then Some (c - 0x30) else None)
         else if 0x30 \<le> c \<and> c \<le> 0x39 then Some (c - 0x30)
         else if 0x61 \<le> c \<and> c < 0x61 + base - 10 then Some (c - 0x61 + 10)
         else if 0x41 \<le> c \<and> c < 0x41 + base - 10 then Some (c - 0x41 + 10)
         else None)"

text \<open>\<open>CheckBounds\<close> gives the output to leave when the next digit does not fit.\<close>

definition Positive_CheckBounds :: "int_type \<Rightarrow> nat \<Rightarrow> int \<Rightarrow> nat \<Rightarrow> int option" where
  "Positive_CheckBounds T base out new_digit =
     (if out > limits_max T sdiv int base \<or>
         out = limits_max T sdiv int base \<and> int new_digit > limits_max T smod int base
      then Some (limits_max T) else None)"

definition Positive_Increment :: "nat \<Rightarrow> int \<Rightarrow> int" where
  "Positive_Increment increment out = out + int increment"

definition Negative_CheckBounds :: "int_type \<Rightarrow> nat \<Rightarrow> int \<Rightarrow> nat \<Rightarrow> int option" where
  "Negative_CheckBounds T base out new_digit =
     (if out < limits_min T sdiv int base \<or>
         out = limits_min T sdiv int base \<and> int new_digit > 0 - limits_min T smod int base
      then Some (limits_min T) else None)"

definition Negative_Increment :: "nat \<Rightarrow> int \<Rightarrow> int" where
  "Negative_Increment increment out = out - int increment"

text \<open>The loop of \<^verbatim>\<open>Base::Invoke\<close>, for either sign; \<open>first\<close> is \<^verbatim>\<open>current == begin\<close>.\<close>

fun Invoke_loop ::
  "(int \<Rightarrow> nat \<Rightarrow> int option) \<Rightarrow> (nat \<Rightarrow> int \<Rightarrow> int) \<Rightarrow> nat \<Rightarrow> bool \<Rightarrow> int \<Rightarrow> 'a::len word list \<Rightarrow> bool \<times> int"
where
  "Invoke_loop CheckBounds Increment base first out [] = (True, out)"
| "Invoke_loop CheckBounds Increment base first out (c # cs) =
     (case CharToDigit base c of
        None \<Rightarrow> (False, out)
      | Some new_digit \<Rightarrow>
          (case if \<not> first then CheckBounds out new_digit else None of
             Some limit \<Rightarrow> (False, limit)
           | None \<Rightarrow>
               let out1 = (if \<not> first then out * int base else out)
               in Invoke_loop CheckBounds Increment base False (Increment new_digit out1) cs))"

definition Base_Invoke ::
  "(int \<Rightarrow> nat \<Rightarrow> int option) \<Rightarrow> (nat \<Rightarrow> int \<Rightarrow> int) \<Rightarrow> nat \<Rightarrow> 'a::len word list \<Rightarrow> bool \<times> int"
where
  "Base_Invoke CheckBounds Increment base s =
     (if s = [] then (False, 0)
      else
        let begin = (if base = 16 \<and> length s > 2 \<and> s ! 0 = 0x30 \<and> (s ! 1 = 0x78 \<or> s ! 1 = 0x58) then drop 2 s else s)
        in Invoke_loop CheckBounds Increment base True 0 begin)"

text \<open>The output is \<open>None\<close> when nothing is stored.\<close>

fun skip_space :: "('a \<Rightarrow> bool) \<Rightarrow> bool \<Rightarrow> 'a list \<Rightarrow> bool \<times> 'a list" where
  "skip_space is_space valid [] = (valid, [])"
| "skip_space is_space valid (c # cs) = (if is_space c then skip_space is_space False cs else (valid, c # cs))"

definition IteratorRangeToNumber ::
  "int_type \<Rightarrow> nat \<Rightarrow> ('a::len word \<Rightarrow> bool) \<Rightarrow> 'a word list \<Rightarrow> bool \<times> int option"
where
  "IteratorRangeToNumber T base is_space input =
     (let (valid, s) = skip_space is_space True input
      in if s \<noteq> [] \<and> hd s = 0x2D then
           (if \<not> is_signed T then (False, None)
            else
              let (ok, out) = Base_Invoke (Negative_CheckBounds T base) Negative_Increment base (tl s)
              in (valid \<and> ok, Some out))
         else
           let t = (if s \<noteq> [] \<and> hd s = 0x2B then tl s else s);
               (ok, out) = Base_Invoke (Positive_CheckBounds T base) Positive_Increment base t
           in (valid \<and> ok, Some out))"

definition StringToIntImpl :: "int_type \<Rightarrow> ('a::len word \<Rightarrow> bool) \<Rightarrow> 'a word list \<Rightarrow> bool \<times> int option" where
  "StringToIntImpl T = IteratorRangeToNumber T 10"

definition StringToInt :: "('a::len word \<Rightarrow> bool) \<Rightarrow> 'a word list \<Rightarrow> bool \<times> int option" where
  "StringToInt = StringToIntImpl int32_t"
definition StringToUint :: "('a::len word \<Rightarrow> bool) \<Rightarrow> 'a word list \<Rightarrow> bool \<times> int option" where
  "StringToUint = StringToIntImpl uint32_t"
definition StringToInt64 :: "('a::len word \<Rightarrow> bool) \<Rightarrow> 'a word list \<Rightarrow> bool \<times> int option" where
  "StringToInt64 = StringToIntImpl int64_t"
definition StringToUint64 :: "('a::len word \<Rightarrow> bool) \<Rightarrow> 'a word list \<Rightarrow> bool \<times> int option" where
  "StringToUint64 = StringToIntImpl uint64_t"
definition HexStringToInt :: "(byte \<Rightarrow> bool) \<Rightarrow> byte list \<Rightarrow> bool \<times> int option" where
  "HexStringToInt = IteratorRangeToNumber int32_t 16"
definition HexStringToUInt :: "(byte \<Rightarrow> bool) \<Rightarrow> byte list \<Rightarrow> bool \<times> int option" where
  "HexStringToUInt = IteratorRangeToNumber uint32_t 16"
definition HexStringToInt64 :: "(byte \<Rightarrow> bool) \<Rightarrow> byte list \<Rightarrow> bool \<times> int option" where
  "HexStringToInt64 = IteratorRangeToNumber int64_t 16"
definition HexStringToUInt64 :: "(byte \<Rightarrow> bool) \<Rightarrow> byte list \<Rightarrow> bool \<times> int option" where
  "HexStringToUInt64 = IteratorRangeToNumber uint64_t 16"

subsection \<open>Bytes in hexadecimal\<close>

definition kHexChars :: "byte list" where
  "kHexChars = map of_nat ([0x30..<0x3A] @ [0x41..<0x47])"

fun HexEncode :: "byte list \<Rightarrow> byte list" where
  "HexEncode [] = []"
| "HexEncode (b # bs) = kHexChars ! unat (drop_bit 4 b AND 0xf) # kHexChars ! unat (b AND 0xf) # HexEncode bs"

fun hex_bytes :: "'a::len word list \<Rightarrow> byte list \<Rightarrow> bool \<times> byte list" where
  "hex_bytes (x # y # s) output =
     (case (CharToDigit 16 x, CharToDigit 16 y) of
        (Some msb, Some lsb) \<Rightarrow> hex_bytes s (output @ [push_bit 4 (of_nat msb) OR of_nat lsb])
      | _ \<Rightarrow> (False, output))"
| "hex_bytes _ output = (True, output)"

definition HexStringToBytesT :: "'a::len word list \<Rightarrow> byte list \<Rightarrow> (bool \<times> byte list) result" where
  "HexStringToBytesT input output =
     require (length output = 0) (Dcheck ''output->size() == 0u'')
       (let count = length input
        in Inr (if count = 0 \<or> count mod 2 \<noteq> 0 then (False, output) else hex_bytes input output))"

definition HexStringToBytes :: "byte list \<Rightarrow> byte list \<Rightarrow> (bool \<times> byte list) result" where
  "HexStringToBytes = HexStringToBytesT"

subsection \<open>What a string says\<close>

text \<open>The digits at its start, their number, and the rest of the vocabulary of the results.\<close>

definition digits :: "nat \<Rightarrow> 'a::len word list \<Rightarrow> nat list" where
  "digits base s = map (\<lambda>c. the (CharToDigit base c)) (takeWhile (\<lambda>c. CharToDigit base c \<noteq> None) s)"

definition all_digits :: "nat \<Rightarrow> 'a::len word list \<Rightarrow> bool" where
  "all_digits base s \<longleftrightarrow> list_all (\<lambda>c. CharToDigit base c \<noteq> None) s"

fun number_from :: "nat \<Rightarrow> nat \<Rightarrow> nat list \<Rightarrow> nat" where
  "number_from base n [] = n"
| "number_from base n (d # ds) = number_from base (n * base + d) ds"

lemma number_from_le: "0 < base \<Longrightarrow> n \<le> number_from base n ds"
proof (induction base n ds rule: number_from.induct)
  case (2 base n d ds)
  then have "n * base + d \<le> number_from base (n * base + d) ds" by simp
  moreover have "n \<le> n * base" using 2(2) by (cases base) auto
  ultimately have "n \<le> number_from base (n * base + d) ds" by linarith
  then show ?case by simp
qed simp

lemma number_from_append: "number_from base n (ds @ es) = number_from base (number_from base n ds) es"
  by (induction base n ds rule: number_from.induct) simp_all

lemma CharToDigit_less: "base \<le> 36 \<Longrightarrow> CharToDigit base c = Some d \<Longrightarrow> d < base"
  by (auto simp: CharToDigit_def Let_def split: if_splits)

text \<open>Either sign: the check compares with the bound of the sign, the increment moves away from zero.\<close>

lemma Invoke_loop_spec:
  assumes check: "\<And>n d. d < base \<Longrightarrow> check (sg * int n) d = (if n * base + d > bound then Some (sg * int bound) else None)"
    and inc: "\<And>d x. inc d x = x + sg * int d"
    and base: "base \<le> Suc bound" "0 < base" "base \<le> 36"
  shows "n \<le> bound \<Longrightarrow> (first \<Longrightarrow> n = 0) \<Longrightarrow>
    Invoke_loop check inc base first (sg * int n) s =
      (let v = number_from base n (digits base s)
       in if v \<le> bound then (all_digits base s, sg * int v) else (False, sg * int bound))"
proof (induction s arbitrary: n first)
  case (Cons c s)
  show ?case
  proof (cases "CharToDigit base c")
    case None
    then show ?thesis using Cons.prems by (simp add: digits_def all_digits_def)
  next
    case (Some d)
    have d: "d < base" using CharToDigit_less [OF base(3) Some] .
    have ds: "digits base (c # s) = d # digits base s" "all_digits base (c # s) = all_digits base s"
      using Some by (simp_all add: digits_def all_digits_def)
    show ?thesis
    proof (cases "n * base + d > bound")
      case True
      have "\<not> first"
      proof
        assume first
        then have "n = 0" by (rule Cons.prems(2))
        then show False using True d base(1) by simp
      qed
      moreover have "number_from base (n * base + d) (digits base s) > bound"
        using True number_from_le [OF base(2), of "n * base + d" "digits base s"] by simp
      ultimately show ?thesis using Some check [OF d, of n] True ds by simp
    next
      case False
      have "inc d (if \<not> first then sg * int n * int base else sg * int n) = sg * int (n * base + d)"
        using Cons.prems(2) by (cases first) (auto simp: inc algebra_simps)
      moreover have "(if \<not> first then check (sg * int n) d else None) = None" using check [OF d, of n] False by simp
      moreover have "Invoke_loop check inc base False (sg * int (n * base + d)) s =
          (let v = number_from base (n * base + d) (digits base s)
           in if v \<le> bound then (all_digits base s, sg * int v) else (False, sg * int bound))"
        using False by (intro Cons.IH) simp_all
      ultimately show ?thesis using Some ds by (simp only: Invoke_loop.simps option.case Let_def number_from.simps)
    qed
  qed
qed (simp add: digits_def all_digits_def)

lemma digit_bound:
  assumes d: "d < base"
  shows "n > bound div base \<or> n = bound div base \<and> d > bound mod base \<longleftrightarrow> n * base + d > (bound :: nat)"
proof -
  have b: "bound = bound div base * base + bound mod base" "bound mod base < base" using d by simp_all
  consider "n < bound div base" | "n = bound div base" | "n > bound div base" by linarith
  then show ?thesis
  proof cases
    case 1
    then have "n * base + base \<le> bound div base * base" using mult_le_mono1 [of "Suc n" "bound div base" base] by simp
    then have "n * base + d \<le> bound" using b d by linarith
    then show ?thesis using 1 by simp
  next
    case 2
    then have "n * base + bound mod base = bound" by simp
    then have "n * base + d > bound \<longleftrightarrow> d > bound mod base" by linarith
    then show ?thesis using 2 by simp
  next
    case 3
    then have "bound div base * base + base \<le> n * base" using mult_le_mono1 [of "Suc (bound div base)" n base] by simp
    then have "n * base + d > bound" using b by linarith
    then show ?thesis using 3 by simp
  qed
qed

lemma smod_int: "0 < base \<Longrightarrow> int bound smod int base = int (bound mod base)"
  by (cases "bound = 0") (simp_all add: signed_modulo_int_def zmod_int)

lemma sdiv_int: "0 < base \<Longrightarrow> int bound sdiv int base = int (bound div base)"
  by (cases "bound = 0") (simp_all add: signed_divide_int_def zdiv_int)

lemma Positive_check:
  assumes "d < base" "0 < base" "limits_max T = int bound"
  shows "Positive_CheckBounds T base (int n) d = (if n * base + d > bound then Some (int bound) else None)"
  using digit_bound [OF assms(1), of bound n]
  by (simp only: Positive_CheckBounds_def assms(3) sdiv_int [OF assms(2)] smod_int [OF assms(2)] of_nat_less_iff of_nat_eq_iff)

lemma Negative_check:
  assumes "d < base" "0 < base" "limits_min T = - int bound"
  shows "Negative_CheckBounds T base (- int n) d = (if n * base + d > bound then Some (- int bound) else None)"
proof -
  have q: "- int bound sdiv int base = - int (bound div base)" "0 - - int bound smod int base = int (bound mod base)"
    using sdiv_int [OF assms(2), of bound] smod_int [OF assms(2), of bound]
    by (simp_all add: signed_divide_int_def signed_modulo_int_def)
  show ?thesis using digit_bound [OF assms(1), of bound n]
    by (simp only: Negative_CheckBounds_def assms(3) q neg_less_iff_less neg_equal_iff_equal of_nat_less_iff of_nat_eq_iff)
qed

text \<open>The digits a number is written with, after the prefix of hexadecimal numbers, and their value cut at a bound.\<close>

definition digit_part :: "nat \<Rightarrow> 'a::len word list \<Rightarrow> 'a word list" where
  "digit_part base s =
     (if base = 16 \<and> length s > 2 \<and> s ! 0 = 0x30 \<and> (s ! 1 = 0x78 \<or> s ! 1 = 0x58) then drop 2 s else s)"

definition number_value :: "nat \<Rightarrow> 'a::len word list \<Rightarrow> nat" where
  "number_value base s = number_from base 0 (digits base (digit_part base s))"

definition well_formed :: "nat \<Rightarrow> 'a::len word list \<Rightarrow> bool" where
  "well_formed base s \<longleftrightarrow> s \<noteq> [] \<and> all_digits base (digit_part base s)"

lemma Base_Invoke_spec:
  assumes "\<And>n d. d < base \<Longrightarrow> check (sg * int n) d = (if n * base + d > bound then Some (sg * int bound) else None)"
    and "\<And>d x. inc d x = x + sg * int d" and "base \<le> Suc bound" "0 < base" "base \<le> 36"
  shows "Base_Invoke check inc base s =
    (well_formed base s \<and> number_value base s \<le> bound, sg * int (min (number_value base s) bound))"
proof (cases "s = []")
  case True
  then show ?thesis by (simp add: Base_Invoke_def well_formed_def number_value_def digit_part_def digits_def)
next
  case False
  have "Base_Invoke check inc base s = Invoke_loop check inc base True (sg * int 0) (digit_part base s)"
    using False by (simp add: Base_Invoke_def digit_part_def)
  also have "\<dots> = (let v = number_from base 0 (digits base (digit_part base s))
       in if v \<le> bound then (all_digits base (digit_part base s), sg * int v) else (False, sg * int bound))"
    by (rule Invoke_loop_spec [OF assms]) simp_all
  finally show ?thesis using False by (simp add: Let_def number_value_def well_formed_def min_def)
qed

lemma skip_space_eq: "skip_space sp valid s = (valid \<and> (s = [] \<or> \<not> sp (hd s)), dropWhile sp s)"
  by (induction sp valid s rule: skip_space.induct) auto

lemma standard_limits:
  assumes "T \<in> {int32_t, uint32_t, int64_t, uint64_t}"
  shows "limits_max T = int (nat (limits_max T))" "36 \<le> Suc (nat (limits_max T))"
    "is_signed T \<Longrightarrow> limits_min T = - int (nat (- limits_min T))"
    "is_signed T \<Longrightarrow> 36 \<le> Suc (nat (- limits_min T))"
  using assms by (auto simp: limits_max_def limits_min_def int32_t_def uint32_t_def int64_t_def uint64_t_def)

lemma IteratorRangeToNumber_eq:
  assumes T: "T \<in> {int32_t, uint32_t, int64_t, uint64_t}" and base: "base \<in> {10, 16}"
  shows "IteratorRangeToNumber T base sp s =
    (let t = dropWhile sp s; spaceless = (s = [] \<or> \<not> sp (hd s))
     in if t \<noteq> [] \<and> hd t = 0x2D then
          (if is_signed T then
             (spaceless \<and> well_formed base (tl t) \<and> - int (number_value base (tl t)) \<ge> limits_min T,
              Some (max (- int (number_value base (tl t))) (limits_min T)))
           else (False, None))
        else
          let u = (if t \<noteq> [] \<and> hd t = 0x2B then tl t else t)
          in (spaceless \<and> well_formed base u \<and> int (number_value base u) \<le> limits_max T,
              Some (min (int (number_value base u)) (limits_max T))))"
proof -
  note lim = standard_limits [OF T]
  have b: "0 < base" "base \<le> 36" using base by auto
  have pos: "Base_Invoke (Positive_CheckBounds T base) Positive_Increment base u =
      (well_formed base u \<and> int (number_value base u) \<le> limits_max T, min (int (number_value base u)) (limits_max T))" for u :: "'a word list"
  proof -
    have "Base_Invoke (Positive_CheckBounds T base) Positive_Increment base u =
       (well_formed base u \<and> number_value base u \<le> nat (limits_max T), 1 * int (min (number_value base u) (nat (limits_max T))))"
      using lim(2) b Positive_check [OF _ b(1) lim(1)]
      by (intro Base_Invoke_spec) (simp_all add: Positive_Increment_def)
    then show ?thesis using lim(1) by (simp add: of_nat_min le_nat_iff)
  qed
  have neg: "Base_Invoke (Negative_CheckBounds T base) Negative_Increment base u =
      (well_formed base u \<and> - int (number_value base u) \<ge> limits_min T, max (- int (number_value base u)) (limits_min T))"
    if sg: "is_signed T" for u :: "'a word list"
  proof -
    have "Base_Invoke (Negative_CheckBounds T base) Negative_Increment base u =
       (well_formed base u \<and> number_value base u \<le> nat (- limits_min T), - 1 * int (min (number_value base u) (nat (- limits_min T))))"
      using lim(4) [OF sg] b Negative_check [OF _ b(1) lim(3) [OF sg]]
      by (intro Base_Invoke_spec) (simp_all add: Negative_Increment_def)
    then show ?thesis using lim(3) [OF sg] by (simp add: of_nat_min le_nat_iff max_def min_def)
  qed
  show ?thesis by (simp add: IteratorRangeToNumber_def skip_space_eq pos neg Let_def)
qed

text \<open>
  C39: for the integer types of the interface, in base 10 and 16, the digit-by-digit conversion with its
  division-based overflow test stores the number the string is written as, cut at the limit of the sign,
  and succeeds exactly on an optional sign and digits, with no space in front, within the limits; a
  minus sign before an unsigned number fails and stores nothing.
\<close>

theorem IteratorRangeToNumber_correct:
  assumes T: "T \<in> {int32_t, uint32_t, int64_t, uint64_t}" and base: "base \<in> {10, 16}"
  shows "IteratorRangeToNumber T base sp s =
    (let t = dropWhile sp s; spaceless = (s = [] \<or> \<not> sp (hd s))
     in if t \<noteq> [] \<and> hd t = 0x2D then
          (if is_signed T then
             (spaceless \<and> well_formed base (tl t) \<and> - int (number_value base (tl t)) \<ge> limits_min T,
              Some (max (- int (number_value base (tl t))) (limits_min T)))
           else (False, None))
        else
          let u = (if t \<noteq> [] \<and> hd t = 0x2B then tl t else t)
          in (spaceless \<and> well_formed base u \<and> int (number_value base u) \<le> limits_max T,
              Some (min (int (number_value base u)) (limits_max T))))"
  by (rule IteratorRangeToNumber_eq [OF assms])

theorem IteratorRangeToNumber_correct_witness:
  "HexStringToUInt (\<lambda>c. c = 0x20) (map of_nat [0x20, 0x30, 0x78, 0x66, 0x46, 0x67]) = (False, Some 255) \<and>
   StringToInt (\<lambda>c. c = 0x20) (map of_nat [0x2D, 0x39, 0x39, 0x39, 0x39, 0x39, 0x39, 0x39, 0x39, 0x39, 0x39] :: byte list)
     = (False, Some (- 2147483648))"
  unfolding HexStringToUInt_def StringToInt_def StringToIntImpl_def
  by (subst (1 2) IteratorRangeToNumber_correct)
    (simp_all add: Let_def well_formed_def number_value_def digit_part_def all_digits_def digits_def CharToDigit_def
      limits_max_def limits_min_def uint32_t_def int32_t_def)

subsection \<open>Writing a number and reading it back\<close>

fun dec_digits :: "nat \<Rightarrow> nat list" where
  "dec_digits n = (if n div 10 \<noteq> 0 then dec_digits (n div 10) else []) @ [n mod 10]"

declare dec_digits.simps [simp del]

lemma dec_digits_less: "d \<in> set (dec_digits n) \<Longrightarrow> d < 10"
proof (induction n rule: dec_digits.induct)
  case (1 n)
  then show ?case by (subst (asm) (2) dec_digits.simps) (auto split: if_splits)
qed

lemma dec_digits_not_Nil: "dec_digits n \<noteq> []"
  by (subst dec_digits.simps) simp

lemma number_from_dec_digits: "number_from 10 0 (dec_digits n) = n"
proof (induction n rule: dec_digits.induct)
  case (1 n)
  then show ?case by (subst dec_digits.simps) (simp add: number_from_append)
qed

lemma digits_loop_eq:
  "n < 10 ^ Suc k \<Longrightarrow> Suc k < it \<Longrightarrow>
    \<exists>j. it \<le> j + Suc k \<and> digits_loop it n out = Inr (j, map (\<lambda>d. of_nat (d + 0x30)) (dec_digits n) @ out)"
proof (induction k arbitrary: it n out)
  case 0
  then show ?case by (subst digits_loop.simps, subst dec_digits.simps) (auto simp: require_def Let_def)
next
  case (Suc k)
  show ?case
  proof (cases "n div 10 = 0")
    case True
    then show ?thesis using Suc.prems by (subst digits_loop.simps, subst dec_digits.simps) (auto simp: require_def Let_def)
  next
    case False
    have n: "n div 10 < 10 ^ Suc k" "Suc k < it - 1" using Suc.prems by (simp_all add: less_mult_imp_div_less mult.commute)
    then obtain j where "it - 1 \<le> j + Suc k"
      "digits_loop (it - 1) (n div 10) (of_nat (n mod 10 + 0x30) # out) =
        Inr (j, map (\<lambda>d. of_nat (d + 0x30)) (dec_digits (n div 10)) @ of_nat (n mod 10 + 0x30) # out)"
      using Suc.IH [OF n] by blast
    then show ?thesis using False Suc.prems(2)
      by (subst digits_loop.simps, subst dec_digits.simps) (auto simp: require_def Let_def)
  qed
qed

lemma unat_char: "8 \<le> LENGTH('a) \<Longrightarrow> n < 256 \<Longrightarrow> unat (of_nat n :: 'a::len word) = n"
proof -
  assume "8 \<le> LENGTH('a)" "n < 256"
  moreover then have "(2 :: nat) ^ 8 \<le> 2 ^ LENGTH('a)" by (intro power_increasing) simp_all
  ultimately show ?thesis by (simp add: unat_of_nat take_bit_nat_eq_self)
qed

lemma char_eq_iff:
  "8 \<le> LENGTH('a) \<Longrightarrow> m < 256 \<Longrightarrow> n < 256 \<Longrightarrow> (of_nat m :: 'a::len word) = of_nat n \<longleftrightarrow> m = n"
  by (metis unat_char)

lemma digit_not_sign:
  assumes "8 \<le> LENGTH('a)" "d < 10"
  shows "(of_nat (d + 0x30) :: 'a::len word) \<noteq> 0x2D" "(of_nat (d + 0x30) :: 'a word) \<noteq> 0x2B"
    "(of_nat (d + 0x30) :: 'a word) \<noteq> 0x20"
  using char_eq_iff [OF assms(1), of "d + 0x30" "0x2D"] char_eq_iff [OF assms(1), of "d + 0x30" "0x2B"]
    char_eq_iff [OF assms(1), of "d + 0x30" "0x20"] assms(2) by (simp_all only: of_nat_numeral)

lemma CharToDigit_digit:
  "8 \<le> LENGTH('a) \<Longrightarrow> d < 10 \<Longrightarrow> CharToDigit 10 (of_nat (d + 0x30) :: 'a::len word) = Some d"
  by (subst CharToDigit_def, subst unat_char) simp_all

text \<open>The digits, as characters.\<close>

definition dec_string :: "nat \<Rightarrow> 'a::len word list" where
  "dec_string n = map (\<lambda>d. of_nat (d + 0x30)) (dec_digits n)"

lemma dec_string_reads:
  assumes "8 \<le> LENGTH('a)"
  shows "well_formed 10 (dec_string n :: 'a::len word list)" "number_value 10 (dec_string n :: 'a word list) = n"
proof -
  have d: "list_all (\<lambda>c. CharToDigit 10 c \<noteq> None) (map (\<lambda>d. of_nat (d + 0x30)) ds :: 'a word list)"
    "digits 10 (map (\<lambda>d. of_nat (d + 0x30)) ds :: 'a word list) = ds" if "\<forall>d \<in> set ds. d < 10" for ds
    using that CharToDigit_digit [OF assms] by (induction ds) (simp_all add: digits_def)
  note d = d [of "dec_digits n"]
  show "well_formed 10 (dec_string n :: 'a::len word list)"
    using d(1) dec_digits_less dec_digits_not_Nil by (auto simp: well_formed_def digit_part_def all_digits_def dec_string_def)
  show "number_value 10 (dec_string n :: 'a word list) = n"
    using d(2) dec_digits_less number_from_dec_digits by (auto simp: number_value_def digit_part_def dec_string_def)
qed

lemma dec_string_hd:
  assumes "8 \<le> LENGTH('a)"
  shows "\<exists>d < 10. hd (dec_string n :: 'a::len word list) = of_nat (d + 0x30)" "(dec_string n :: 'a word list) \<noteq> []"
  using dec_digits_not_Nil [of n] dec_digits_less [of "hd (dec_digits n)" n] by (auto simp: dec_string_def hd_map)

lemma ToUnsigned_abs:
  assumes "T \<in> {int32_t, uint32_t, int64_t, uint64_t}" "in_type T v"
  shows "ToUnsigned T v = nat \<bar>v\<bar>" "nat \<bar>v\<bar> < 10 ^ (3 * (width T div 8) - 1)"
  using assms
  by (auto simp: ToUnsigned_def in_type_def limits_max_def limits_min_def static_cast_def
      int32_t_def uint32_t_def int64_t_def uint64_t_def nat_less_iff mod_diff_left_eq)

lemma IntToStringT_eq:
  assumes T: "T \<in> {int32_t, uint32_t, int64_t, uint64_t}" and v: "in_type T v"
  shows "(IntToStringT T v :: 'a::len word list result) = Inr ((if v < 0 then [0x2D] else []) @ dec_string (nat \<bar>v\<bar>))"
proof -
  define k where "k = 3 * (width T div 8) - 2"
  have k: "3 * (width T div 8) + 1 = k + 3" "3 * (width T div 8) - 1 = Suc k"
    using T by (auto simp: k_def int32_t_def uint32_t_def int64_t_def uint64_t_def)
  have neg: "TestNeg T v \<longleftrightarrow> v < 0"
    using T v by (auto simp: TestNeg_def in_type_def limits_min_def uint32_t_def uint64_t_def int32_t_def int64_t_def)
  obtain j where j: "k + 3 \<le> j + Suc k"
    "digits_loop (k + 3) (nat \<bar>v\<bar>) ([] :: 'a word list) = Inr (j, map (\<lambda>d. of_nat (d + 0x30)) (dec_digits (nat \<bar>v\<bar>)) @ [])"
    using digits_loop_eq [of "nat \<bar>v\<bar>" k "k + 3" "[]"] ToUnsigned_abs(2) [OF T v] unfolding k(2) by fastforce
  show ?thesis
    by (simp only: IntToStringT_def Let_def k(1) neg ToUnsigned_abs(1) [OF T v] j(2) rbind_simps) (use j(1) in \<open>auto simp: require_def dec_string_def\<close>)
qed

lemma IntToString_roundtrip':
  fixes sp :: "'a::len word \<Rightarrow> bool"
  assumes "T \<in> {int32_t, uint32_t, int64_t, uint64_t}" "in_type T v"
    and w: "8 \<le> LENGTH('a)" and sp: "\<And>d. d < 10 \<Longrightarrow> \<not> sp (of_nat (d + 0x30))" "\<not> sp 0x2D"
  shows "\<exists>s. IntToStringT T v = Inr s \<and> StringToIntImpl T sp s = (True, Some v)"
proof (intro exI conjI)
  show "IntToStringT T v = Inr ((if v < 0 then [0x2D] else []) @ dec_string (nat \<bar>v\<bar>))"
    by (rule IntToStringT_eq [OF assms(1,2)])
  have sg: "is_signed T" if "v < 0"
    using assms(1,2) that by (auto simp: in_type_def limits_min_def uint32_t_def uint64_t_def int32_t_def int64_t_def)
  obtain d where d: "d < 10" "hd (dec_string (nat \<bar>v\<bar>) :: 'a word list) = of_nat (d + 0x30)"
    using dec_string_hd [OF w] by blast
  have hd: "\<not> sp (hd (dec_string (nat \<bar>v\<bar>)))" "hd (dec_string (nat \<bar>v\<bar>)) \<noteq> (0x2D :: 'a word)"
    "hd (dec_string (nat \<bar>v\<bar>)) \<noteq> (0x2B :: 'a word)"
    using d sp(1) digit_not_sign [OF w] by metis+
  have dw: "dropWhile sp (dec_string n) = dec_string n" if "\<not> sp (hd (dec_string n))" for n
    using that by (cases "dec_string n :: 'a word list") simp_all
  show "StringToIntImpl T sp ((if v < 0 then [0x2D] else []) @ dec_string (nat \<bar>v\<bar>)) = (True, Some v)"
    using assms(2) hd sp(2) sg dec_string_hd(2) [OF w] dw dec_string_reads [OF w, of "nat \<bar>v\<bar>"]
    by (cases "v < 0") (simp_all add: StringToIntImpl_def IteratorRangeToNumber_eq [OF assms(1)] Let_def in_type_def)
qed

text \<open>
  C40: a value of each integer type of the interface is written without overrunning the buffer, and
  reading the string back as that type is a perfect conversion to the same value. Needed of the
  library's classification of characters: neither digits nor the minus sign are space.
\<close>

theorem IntToString_roundtrip:
  fixes sp :: "'a::len word \<Rightarrow> bool"
  assumes "T \<in> {int32_t, uint32_t, int64_t, uint64_t}" "in_type T v"
    and w: "8 \<le> LENGTH('a)" and sp: "\<And>d. d < 10 \<Longrightarrow> \<not> sp (of_nat (d + 0x30))" "\<not> sp 0x2D"
  shows "\<exists>s. IntToStringT T v = Inr s \<and> StringToIntImpl T sp s = (True, Some v)"
  using assms by (rule IntToString_roundtrip')

theorem IntToString_roundtrip_witness:
  "\<exists>s :: byte list. IntToString (- 2147483648) = Inr s \<and> StringToInt (\<lambda>c. c = 0x20) s = (True, Some (- 2147483648))"
proof -
  have "\<not> (\<lambda>c. c = 0x20) (of_nat (d + 0x30) :: byte)" if "d < 10" for d
    using that by (intro digit_not_sign(3)) simp_all
  then show ?thesis unfolding IntToString_def StringToInt_def
    by (intro IntToString_roundtrip) (simp_all add: in_type_def limits_max_def limits_min_def int32_t_def)
qed

lemma kHexChars_digit: "n < 16 \<Longrightarrow> CharToDigit 16 (kHexChars ! n) = Some n"
proof -
  have "\<forall>n \<in> set [0..<16]. CharToDigit 16 (kHexChars ! n) = Some n" by code_simp
  then show "n < 16 \<Longrightarrow> ?thesis" by simp
qed

lemma nibble_less: "unat (x AND 0xf :: byte) < 16"
proof -
  have "x AND 0xf = take_bit 4 x" by (simp add: take_bit_eq_mask mask_numeral)
  then show ?thesis using take_bit_nat_less_exp [of 4 "unat x"] by (simp add: unsigned_take_bit_eq)
qed

lemma nibbles: "push_bit 4 (drop_bit 4 b AND 0xf) OR (b AND 0xf) = (b :: byte)"
proof -
  have m: "(0xf :: byte) = mask 4" by (simp add: mask_numeral)
  show ?thesis unfolding m by (rule bit_word_eqI) (auto simp: bit_simps)
qed

lemma hex_bytes_HexEncode: "hex_bytes (HexEncode bs) out = (True, out @ bs)"
proof (induction bs arbitrary: out)
  case (Cons b bs)
  have "CharToDigit 16 (kHexChars ! unat (b AND 0xf)) = Some (unat (b AND 0xf))"
    "CharToDigit 16 (kHexChars ! unat (drop_bit 4 b AND 0xf)) = Some (unat (drop_bit 4 b AND 0xf))"
    by (rule kHexChars_digit, rule nibble_less)+
  then show ?case by (simp only: HexEncode.simps hex_bytes.simps option.case prod.case of_nat_unat ucast_id nibbles Cons.IH) simp
qed simp

lemma length_HexEncode: "length (HexEncode bs) = 2 * length bs"
  by (induction bs) simp_all

text \<open>Reading back the hexadecimal text of a non-empty buffer gives its bytes.\<close>

theorem HexEncode_roundtrip:
  "HexStringToBytes (HexEncode bs) [] = Inr (bs \<noteq> [], bs)"
  by (cases bs) (simp_all add: HexStringToBytes_def HexStringToBytesT_def require_def length_HexEncode hex_bytes_HexEncode Let_def
      del: HexEncode.simps(2))

end
