(* ===== verification/File_Path.thy ===== *)
theory File_Path
  imports Command_Line
begin

text \<open>
  File paths (\<^verbatim>\<open>base/files/file_path.cc\<close>, Windows): a path is its string, \<^verbatim>\<open>FilePath\<close> the constructor
  that cuts at a terminator. Positions that can be \<^verbatim>\<open>npos\<close> are options; where the code adds to
  \<^verbatim>\<open>npos\<close>, the sum wraps, so \<open>past_letter\<close> is \<^verbatim>\<open>FindDriveLetter(path) + 1\<close>: 2 after a drive letter,
  0 without one.
\<close>

subsection \<open>Characters and positions\<close>

definition kSeparators :: wstring where "kSeparators = [0x5C, 0x2F]"
definition kCurrentDirectory :: wstring where "kCurrentDirectory = [0x2E]"
definition kParentDirectory :: wstring where "kParentDirectory = [0x2E, 0x2E]"
definition kExtensionSeparator :: char16 where "kExtensionSeparator = 0x2E"

definition IsSeparator :: "char16 \<Rightarrow> bool" where
  "IsSeparator c \<longleftrightarrow> c \<in> set kSeparators"

definition FindDriveLetter :: "wstring \<Rightarrow> nat option" where
  "FindDriveLetter path =
     (if length path \<ge> 2 \<and> path ! 1 = 0x3A \<and>
         (0x41 \<le> path ! 0 \<and> path ! 0 \<le> 0x5A \<or> 0x61 \<le> path ! 0 \<and> path ! 0 \<le> 0x7A)
      then Some 1 else None)"

definition past_letter :: "wstring \<Rightarrow> nat" where
  "past_letter path = (case FindDriveLetter path of None \<Rightarrow> 0 | Some letter \<Rightarrow> letter + 1)"

definition EqualDriveLetterCaseInsensitive :: "wstring \<Rightarrow> wstring \<Rightarrow> bool" where
  "EqualDriveLetterCaseInsensitive a b =
     (case (FindDriveLetter a, FindDriveLetter b) of
        (Some a_letter_pos, Some b_letter_pos) \<Rightarrow>
          (if \<not> StartsWithT lower16 (substr a 0 (a_letter_pos + 1)) (substr b 0 (b_letter_pos + 1)) False then False
           else drop (a_letter_pos + 1) a = drop (b_letter_pos + 1) b)
      | _ \<Rightarrow> a = b)"

definition IsPathAbsolute :: "wstring \<Rightarrow> bool" where
  "IsPathAbsolute path =
     (case FindDriveLetter path of
        Some letter \<Rightarrow> length path > letter + 1 \<and> IsSeparator (path ! (letter + 1))
      | None \<Rightarrow> length path > 1 \<and> IsSeparator (path ! 0) \<and> IsSeparator (path ! 1))"

fun AreAllSeparators :: "wstring \<Rightarrow> bool" where
  "AreAllSeparators [] = True"
| "AreAllSeparators (c # cs) = (if \<not> IsSeparator c then False else AreAllSeparators cs)"

definition IsEmptyOrSpecialCase :: "wstring \<Rightarrow> bool" where
  "IsEmptyOrSpecialCase path =
     (if path = [] \<or> path = kCurrentDirectory \<or> path = kParentDirectory then True else False)"

subsection \<open>Trailing separators\<close>

text \<open>The loop; the position is a number of characters, \<open>last_stripped\<close> is \<open>None\<close> for \<^verbatim>\<open>npos\<close>.\<close>

fun strip_loop :: "nat \<Rightarrow> nat \<Rightarrow> nat option \<Rightarrow> wstring \<Rightarrow> wstring" where
  "strip_loop start 0 last_stripped path = path"
| "strip_loop start (Suc n) last_stripped path =
     (if Suc n > start \<and> IsSeparator (path ! n) then
        (if Suc n \<noteq> start + 1 \<or> last_stripped = Some (start + 2) \<or> \<not> IsSeparator (path ! (start - 1))
         then strip_loop start n (Some (Suc n)) (take n path)
         else strip_loop start n last_stripped path)
      else path)"

definition StripTrailingSeparators :: "wstring \<Rightarrow> wstring" where
  "StripTrailingSeparators path = strip_loop (past_letter path + 1) (length path) None path"

subsection \<open>Directory and base name\<close>

definition DirName :: "wstring \<Rightarrow> wstring" where
  "DirName path =
     (let p = StripTrailingSeparators path;
          letter1 = past_letter p;
          q = (case find_last_of p kSeparators of
                 None \<Rightarrow> take letter1 p
               | Some last_separator \<Rightarrow>
                   if last_separator = letter1 then take (letter1 + 1) p
                   else if last_separator = letter1 + 1 \<and> IsSeparator (p ! letter1) then take (letter1 + 2) p
                   else if last_separator \<noteq> 0 then take last_separator p
                   else p);
          r = StripTrailingSeparators q
      in if length r = 0 then kCurrentDirectory else r)"

definition BaseName :: "wstring \<Rightarrow> wstring" where
  "BaseName path =
     (let p = StripTrailingSeparators path;
          q = (case FindDriveLetter p of None \<Rightarrow> p | Some letter \<Rightarrow> drop (letter + 1) p)
      in case find_last_of q kSeparators of
           None \<Rightarrow> q
         | Some last_separator \<Rightarrow> if last_separator < length q - 1 then drop (last_separator + 1) q else q)"

subsection \<open>Extensions\<close>

definition kCommonDoubleExtensionSuffixes :: "wstring list" where
  "kCommonDoubleExtensionSuffixes = [[0x67, 0x7A], [0x7A], [0x62, 0x7A, 0x32], [0x62, 0x7A]]"

definition kCommonDoubleExtensions :: "wstring list" where
  "kCommonDoubleExtensions = [[0x75, 0x73, 0x65, 0x72, 0x2E, 0x6A, 0x73]]"

definition FinalExtensionSeparatorPosition :: "wstring \<Rightarrow> nat option" where
  "FinalExtensionSeparatorPosition path =
     (if path = kCurrentDirectory \<or> path = kParentDirectory then None
      else str_rfind path [kExtensionSeparator] (length path))"

definition ExtensionSeparatorPosition :: "wstring \<Rightarrow> nat option" where
  "ExtensionSeparatorPosition path =
     (case FinalExtensionSeparatorPosition path of
        None \<Rightarrow> None
      | Some last_dot \<Rightarrow>
          if last_dot = 0 then Some last_dot
          else case str_rfind path [kExtensionSeparator] (last_dot - 1) of
            None \<Rightarrow> Some last_dot
          | Some penultimate_dot \<Rightarrow>
              if (case find_last_of (take last_dot path) kSeparators of
                    None \<Rightarrow> False | Some last_separator \<Rightarrow> penultimate_dot < last_separator)
              then Some last_dot
              else if list_ex (DoLowerCaseEqualsASCII lower16 (drop (penultimate_dot + 1) path)) kCommonDoubleExtensions
              then Some penultimate_dot
              else if list_ex (DoLowerCaseEqualsASCII lower16 (drop (last_dot + 1) path)) kCommonDoubleExtensionSuffixes \<and>
                last_dot - penultimate_dot \<le> 5 \<and> last_dot - penultimate_dot > 1
              then Some penultimate_dot
              else Some last_dot)"

definition Extension :: "wstring \<Rightarrow> wstring" where
  "Extension path =
     (let base = BaseName path
      in case ExtensionSeparatorPosition base of None \<Rightarrow> [] | Some dot \<Rightarrow> drop dot base)"

definition FinalExtension :: "wstring \<Rightarrow> wstring" where
  "FinalExtension path =
     (let base = BaseName path
      in case FinalExtensionSeparatorPosition base of None \<Rightarrow> [] | Some dot \<Rightarrow> drop dot base)"

definition RemoveExtension :: "wstring \<Rightarrow> wstring" where
  "RemoveExtension path =
     (if Extension path = [] then path
      else case ExtensionSeparatorPosition path of None \<Rightarrow> path | Some dot \<Rightarrow> FilePath (substr path 0 dot))"

definition RemoveFinalExtension :: "wstring \<Rightarrow> wstring" where
  "RemoveFinalExtension path =
     (if FinalExtension path = [] then path
      else case FinalExtensionSeparatorPosition path of None \<Rightarrow> path | Some dot \<Rightarrow> FilePath (substr path 0 dot))"

definition InsertBeforeExtension :: "wstring \<Rightarrow> wstring \<Rightarrow> wstring" where
  "InsertBeforeExtension path suff =
     (if suff = [] then FilePath path
      else if IsEmptyOrSpecialCase (BaseName path) then []
      else let ext = Extension path; ret = RemoveExtension path in FilePath (ret @ suff @ ext))"

definition InsertBeforeExtensionASCII :: "wstring \<Rightarrow> byte list \<Rightarrow> wstring result" where
  "InsertBeforeExtensionASCII path suff =
     require (IsStringASCII suff) (Dcheck ''IsStringASCII(suff)'')
       (rbind (ASCIIToUTF16 suff) (\<lambda>s. Inr (InsertBeforeExtension path s)))"

definition AddExtension :: "wstring \<Rightarrow> wstring \<Rightarrow> wstring" where
  "AddExtension path extension =
     (if IsEmptyOrSpecialCase (BaseName path) then []
      else if extension = [] \<or> extension = [kExtensionSeparator] then path
      else FilePath ((if extension ! 0 \<noteq> kExtensionSeparator \<and> last path \<noteq> kExtensionSeparator
                      then path @ [kExtensionSeparator] else path) @ extension))"

definition ReplaceExtension :: "wstring \<Rightarrow> wstring \<Rightarrow> wstring" where
  "ReplaceExtension path extension =
     (if IsEmptyOrSpecialCase (BaseName path) then []
      else let no_ext = RemoveExtension path
        in if extension = [] \<or> extension = [kExtensionSeparator] then no_ext
           else FilePath ((if extension ! 0 \<noteq> kExtensionSeparator then no_ext @ [kExtensionSeparator] else no_ext) @ extension))"

text \<open>\<^verbatim>\<open>CharUpperW\<close> of Windows is the argument \<open>upper\<close>.\<close>

fun CompareIgnoreCase :: "(char16 \<Rightarrow> char16) \<Rightarrow> wstring \<Rightarrow> wstring \<Rightarrow> int" where
  "CompareIgnoreCase upper [] [] = 0"
| "CompareIgnoreCase upper (a # as) [] = 1"
| "CompareIgnoreCase upper [] (b # bs) = -1"
| "CompareIgnoreCase upper (a # as) (b # bs) =
     (if upper a < upper b then -1 else if upper a > upper b then 1 else CompareIgnoreCase upper as bs)"

definition MatchesExtension :: "(char16 \<Rightarrow> char16) \<Rightarrow> wstring \<Rightarrow> wstring \<Rightarrow> bool result" where
  "MatchesExtension upper path extension =
     require (extension = [] \<or> extension ! 0 = kExtensionSeparator) (Dcheck ''extension'')
       (Inr (if length (Extension path) \<noteq> length extension then False
             else CompareIgnoreCase upper extension (Extension path) = 0))"

subsection \<open>Appending\<close>

definition Append :: "wstring \<Rightarrow> wstring \<Rightarrow> wstring result" where
  "Append path component =
     (let appended = (case str_find component [0] 0 of None \<Rightarrow> component | Some nul_pos \<Rightarrow> substr component 0 nul_pos)
      in require (\<not> IsPathAbsolute appended) (Dcheck ''!IsPathAbsolute(*appended)'')
        (if path = kCurrentDirectory then Inr (FilePath appended)
         else
           let new_path = StripTrailingSeparators path;
               with_separator =
                 (if length appended > 0 \<and> length new_path > 0 then
                    (if \<not> IsSeparator (new_path ! (length new_path - 1)) then
                       (if past_letter new_path \<noteq> length new_path then new_path @ [kSeparators ! 0] else new_path)
                     else new_path)
                  else new_path)
           in Inr (with_separator @ appended)))"

definition AppendASCII :: "wstring \<Rightarrow> byte list \<Rightarrow> wstring result" where
  "AppendASCII path component =
     require (IsStringASCII component) (Dcheck ''IsStringASCII(component)'')
       (rbind (ASCIIToUTF16 component) (Append path))"

definition IsAbsolute :: "wstring \<Rightarrow> bool" where "IsAbsolute path = IsPathAbsolute path"

definition EndsWithSeparator :: "wstring \<Rightarrow> bool" where
  "EndsWithSeparator path = (if path = [] then False else IsSeparator (path ! (length path - 1)))"

definition AsEndingWithSeparator :: "wstring \<Rightarrow> wstring" where
  "AsEndingWithSeparator path =
     (if EndsWithSeparator path \<or> path = [] then path else FilePath (path @ take 1 kSeparators))"

definition NormalizePathSeparatorsTo :: "char16 \<Rightarrow> wstring \<Rightarrow> wstring result" where
  "NormalizePathSeparatorsTo separator path =
     require (separator \<in> set (kSeparators @ [0])) (Dcheck ''separator'')
       (Inr (FilePath (fold (\<lambda>s. map (\<lambda>c. if c = s then separator else c)) (kSeparators @ [0]) path)))"

definition NormalizePathSeparators :: "wstring \<Rightarrow> wstring result" where
  "NormalizePathSeparators path = NormalizePathSeparatorsTo (kSeparators ! 0) path"

subsection \<open>The drive letter and the rest\<close>

text \<open>
  A path is its drive letter, possibly none, and the rest; the operations act on the rest. What
  stripping leaves of it: no trailing separator, except the two of an alternate root and the one of a
  root.
\<close>

definition letter_of :: "wstring \<Rightarrow> wstring" where "letter_of p = take (past_letter p) p"
definition rest_of :: "wstring \<Rightarrow> wstring" where "rest_of p = drop (past_letter p) p"

definition rstrip :: "wstring \<Rightarrow> wstring" where "rstrip r = rev (dropWhile IsSeparator (rev r))"

definition strip_rest :: "wstring \<Rightarrow> wstring" where
  "strip_rest r = (if rstrip r \<noteq> [] then rstrip r else if length r \<le> 2 then r else take 1 r)"

lemma rstrip_Nil [simp]: "rstrip [] = []" by (simp add: rstrip_def)

lemma rstrip_snoc [simp]: "rstrip (r @ [c]) = (if IsSeparator c then rstrip r else r @ [c])"
  by (simp add: rstrip_def)

lemma rstrip_single [simp]: "rstrip [c] = (if IsSeparator c then [] else [c])"
  using rstrip_snoc [of "[]" c] by simp

lemma rstrip_append: "rstrip (a @ b) = (if rstrip b = [] then rstrip a else a @ rstrip b)"
  by (induction b rule: rev_induct) (auto simp flip: append_assoc)

lemma rstrip_empty: "rstrip r = [] \<longleftrightarrow> (\<forall>c \<in> set r. IsSeparator c)"
  by (simp add: rstrip_def)

lemma rstrip_last: "rstrip r \<noteq> [] \<Longrightarrow> \<not> IsSeparator (last (rstrip r))"
  by (metis hd_dropWhile last_rev rev_is_Nil_conv rstrip_def)

lemma rstrip_prefix: "prefix (rstrip r) r"
  by (induction r rule: rev_induct) (auto simp: prefix_append)

lemma rstrip_idem [simp]: "rstrip (rstrip r) = rstrip r"
  by (simp add: rstrip_def dropWhile_idem)

lemma past_letter_cases: "past_letter p = 0 \<or> past_letter p = 2 \<and> 2 \<le> length p"
  by (auto simp: past_letter_def FindDriveLetter_def)

lemma letter_rest: "p = letter_of p @ rest_of p" by (simp add: letter_of_def rest_of_def)

lemma FindDriveLetter_prefix:
  "length p \<ge> 2 \<Longrightarrow> FindDriveLetter (take 2 p @ q) = FindDriveLetter p"
  by (auto simp: FindDriveLetter_def nth_append)

text \<open>Keeping the letter and a prefix of the rest, whatever follows, keeps the letter.\<close>

lemma FindDriveLetter_take:
  assumes "past_letter p \<le> n"
  shows "FindDriveLetter (take n p) = FindDriveLetter p"
proof (cases "n \<ge> 2 \<or> n \<ge> length p")
  case True
  then show ?thesis by (auto simp: FindDriveLetter_def min_def)
next
  case False
  then have "past_letter p = 0" using assms past_letter_cases [of p] by auto
  then have "FindDriveLetter p = None" by (simp add: past_letter_def split: option.splits)
  then show ?thesis using False by (auto simp: FindDriveLetter_def min_def)
qed

lemma past_letter_take: "past_letter p \<le> n \<Longrightarrow> past_letter (take n p) = past_letter p"
  by (simp add: past_letter_def FindDriveLetter_take)

lemma prefix_parts:
  assumes "prefix r (rest_of p)"
  shows "past_letter (letter_of p @ r) = past_letter p" "letter_of (letter_of p @ r) = letter_of p"
    "rest_of (letter_of p @ r) = r"
proof -
  have l: "length (letter_of p) = past_letter p" using past_letter_cases [of p] by (auto simp: letter_of_def)
  obtain u where "rest_of p = r @ u" using assms by (auto simp: prefix_def)
  then have p: "p = letter_of p @ r @ u" using letter_rest [of p] by simp
  have "take (past_letter p + length r) p = letter_of p @ r" using l by (subst p) simp
  then show *: "past_letter (letter_of p @ r) = past_letter p"
    using past_letter_take [of p "past_letter p + length r"] by simp
  then show "letter_of (letter_of p @ r) = letter_of p" "rest_of (letter_of p @ r) = r"
    using l by (auto simp: letter_of_def [of "letter_of p @ r"] rest_of_def)
qed

lemma strip_loop_stop: "n \<le> start \<Longrightarrow> strip_loop start n last_stripped path = path"
  by (cases n) auto

lemma strip_loop_spec:
  "strip_loop (length l + 1) (length (l @ r)) last_stripped (l @ r) =
     l @ (if last_stripped = Some (length (l @ r) + 1) \<and> length r = 2 \<and> rstrip r = [] then take 1 r else strip_rest r)"
proof (induction r arbitrary: last_stripped rule: rev_induct)
  case (snoc c s)
  consider "s = []" | "s \<noteq> []" "\<not> IsSeparator c" | d where "s = [d]" "IsSeparator c" | "length s \<ge> 2" "IsSeparator c"
    by (metis One_nat_def Suc_1 Suc_leI le_neq_implies_less length_0_conv length_Suc_conv length_greater_0_conv not_less_eq_eq)
  then show ?case
  proof cases
    case 1
    then show ?thesis by (simp add: strip_loop_stop strip_rest_def)
  next
    case 2
    then show ?thesis by (simp add: nth_append strip_rest_def)
  next
    case (3 d)
    have "rstrip [d, c] = rstrip [d]" using 3(2) rstrip_snoc [of "[d]" c] by simp
    then show ?thesis using 3 by (simp add: nth_append strip_rest_def strip_loop_stop)
  next
    case 4
    have "strip_loop (length l + 1) (length (l @ s @ [c])) last_stripped (l @ s @ [c]) =
        strip_loop (length l + 1) (length (l @ s)) (Some (length (l @ s) + 1)) (l @ s)"
      using 4 by (auto simp: nth_append)
    also have "\<dots> = l @ (if length s = 2 \<and> rstrip s = [] then take 1 s else strip_rest s)"
      using snoc [of "Some (length (l @ s) + 1)"] by simp
    finally show ?thesis using 4 by (auto simp: strip_rest_def)
  qed
qed (simp add: strip_loop_stop strip_rest_def)

lemma letter_length: "length (letter_of p) = past_letter p"
  using past_letter_cases [of p] by (auto simp: letter_of_def)

lemma Strip_spec: "StripTrailingSeparators p = letter_of p @ strip_rest (rest_of p)"
  using strip_loop_spec [of "letter_of p" "rest_of p" None]
  by (simp add: StripTrailingSeparators_def letter_length flip: letter_rest)

lemma strip_rest_prefix: "prefix (strip_rest r) r"
  using rstrip_prefix [of r] by (auto simp: strip_rest_def take_is_prefix)

lemmas Strip_parts = prefix_parts [OF strip_rest_prefix, folded Strip_spec]

lemma strip_rest_idem [simp]: "strip_rest (strip_rest r) = strip_rest r"
proof (cases "rstrip r = []")
  case True
  then have "rstrip (take 1 r) = []" by (auto simp: rstrip_empty dest: in_set_takeD)
  then show ?thesis using True by (simp add: strip_rest_def)
qed (simp add: strip_rest_def)


lemma EndsWithSeparator_last: "EndsWithSeparator q \<longleftrightarrow> q \<noteq> [] \<and> IsSeparator (last q)"
  by (simp add: EndsWithSeparator_def last_conv_nth)

lemma letter_no_separator: "c \<in> set (letter_of p) \<Longrightarrow> \<not> IsSeparator c"
proof -
  assume c: "c \<in> set (letter_of p)"
  then obtain l where l: "FindDriveLetter p = Some l" by (auto simp: letter_of_def past_letter_def split: option.splits)
  then have "2 \<le> length p" "p ! 1 = 0x3A" "p ! 0 \<noteq> 0x5C" "p ! 0 \<noteq> 0x2F" "past_letter p = 2"
    by (auto simp: FindDriveLetter_def past_letter_def split: if_splits)
  moreover from this have "letter_of p = [p ! 0, p ! 1]" by (cases p; cases "tl p") (auto simp: letter_of_def)
  ultimately show ?thesis using c by (auto simp: IsSeparator_def kSeparators_def)
qed

lemma EndsWithSeparator_Strip:
  "EndsWithSeparator (StripTrailingSeparators p) \<longleftrightarrow> rest_of p \<noteq> [] \<and> rstrip (rest_of p) = []"
proof (cases "rest_of p = []")
  case True
  then show ?thesis using letter_no_separator [of _ p]
    by (auto simp: Strip_spec strip_rest_def EndsWithSeparator_last)
next
  case False
  then have "strip_rest (rest_of p) \<noteq> []" by (simp add: strip_rest_def)
  moreover have "IsSeparator (last (strip_rest (rest_of p))) \<longleftrightarrow> rstrip (rest_of p) = []"
  proof (cases "rstrip (rest_of p) = []")
    case True
    then have "last (strip_rest (rest_of p)) \<in> set (rest_of p)"
      using False set_mono_prefix [OF strip_rest_prefix] last_in_set [OF \<open>strip_rest (rest_of p) \<noteq> []\<close>] by blast
    then show ?thesis using True by (simp add: rstrip_empty)
  qed (use rstrip_last in \<open>simp add: strip_rest_def\<close>)
  ultimately show ?thesis using False by (simp add: Strip_spec EndsWithSeparator_last)
qed

lemma Strip_cut: "\<exists>seps. p = StripTrailingSeparators p @ seps \<and> list_all IsSeparator seps"
proof -
  obtain seps where r: "rest_of p = strip_rest (rest_of p) @ seps" using strip_rest_prefix by (metis prefix_def)
  have "list_all IsSeparator seps"
  proof (cases "rstrip (rest_of p) = []")
    case True
    then have "\<forall>c \<in> set (strip_rest (rest_of p) @ seps). IsSeparator c" using r by (simp add: rstrip_empty)
    then show ?thesis by (auto simp: list_all_iff)
  next
    case False
    then have f: "rstrip (rest_of p) @ seps = rest_of p" using r by (simp add: strip_rest_def)
    have "rstrip (rstrip (rest_of p) @ seps) = rstrip (rest_of p)" by (simp add: f)
    then have "rstrip seps = []" by (subst (asm) rstrip_append) (auto split: if_splits)
    then show ?thesis by (simp add: rstrip_empty list_all_iff)
  qed
  moreover have "p = StripTrailingSeparators p @ seps" using letter_rest [of p] r by (simp add: Strip_spec)
  ultimately show ?thesis by blast
qed

text \<open>
  \<^verbatim>\<open>StripTrailingSeparators\<close> keeps the drive letter, is idempotent, cuts off separators only, and
  leaves one at the end only when the rest of the path is a root: of two separators both, otherwise one.
\<close>

theorem StripTrailingSeparators_correct:
  "StripTrailingSeparators (StripTrailingSeparators p) = StripTrailingSeparators p \<and>
   letter_of (StripTrailingSeparators p) = letter_of p \<and>
   (\<exists>seps. p = StripTrailingSeparators p @ seps \<and> list_all IsSeparator seps) \<and>
   (if rest_of p \<noteq> [] \<and> list_all IsSeparator (rest_of p)
    then rest_of (StripTrailingSeparators p) = (if length (rest_of p) = 2 then rest_of p else take 1 (rest_of p))
    else \<not> EndsWithSeparator (StripTrailingSeparators p))"
proof -
  let ?s = "StripTrailingSeparators p"
  have "StripTrailingSeparators ?s = ?s" by (simp add: Strip_spec [of ?s] Strip_parts) (simp add: Strip_spec)
  moreover have "rest_of ?s = (if length (rest_of p) = 2 then rest_of p else take 1 (rest_of p))"
    if "rest_of p \<noteq> []" "list_all IsSeparator (rest_of p)"
  proof -
    have "rstrip (rest_of p) = []" using that(2) by (simp add: rstrip_empty list_all_iff)
    then show ?thesis using that(1) by (auto simp: Strip_parts strip_rest_def intro!: take_all [symmetric])
  qed
  ultimately show ?thesis using Strip_parts(2) Strip_cut EndsWithSeparator_Strip [of p]
    by (simp add: rstrip_empty list_all_iff)
qed


subsection \<open>Directory and base name of the rest\<close>

text \<open>The rest up to its last separator, and what follows it.\<close>

definition split_last :: "wstring \<Rightarrow> wstring \<times> wstring" where
  "split_last r = (rev (dropWhile (\<lambda>c. \<not> IsSeparator c) (rev r)), rev (takeWhile (\<lambda>c. \<not> IsSeparator c) (rev r)))"

lemma split_last_append: "fst (split_last r) @ snd (split_last r) = r"
  by (simp add: split_last_def flip: rev_append)

lemma split_last_snd: "list_all (\<lambda>c. \<not> IsSeparator c) (snd (split_last r))"
  by (auto simp: split_last_def list_all_iff dest: set_takeWhileD)

lemma split_last_fst: "fst (split_last r) = [] \<or> IsSeparator (last (fst (split_last r)))"
  by (metis (mono_tags) fst_conv hd_dropWhile last_rev rev_is_Nil_conv split_last_def)

lemma find_last_of_split:
  "find_last_of p kSeparators =
     (if fst (split_last p) = [] then None else Some (length (fst (split_last p)) - 1))"
proof (cases "find_index (\<lambda>c. c \<in> set kSeparators) (rev p)")
  case None
  then have "\<forall>c \<in> set p. \<not> IsSeparator c" by (simp add: find_index_None IsSeparator_def)
  then show ?thesis using None by (simp add: find_last_of_def split_last_def)
next
  case (Some i)
  have d: "dropWhile (\<lambda>c. \<not> IsSeparator c) (rev p) = drop i (rev p)"
    using find_index_take [OF Some] by (simp add: IsSeparator_def)
  moreover have "i < length p" using Some by (simp add: find_index_Some)
  ultimately show ?thesis using Some by (simp add: find_last_of_def split_last_def)
qed

lemma split_last_letter:
  "split_last (letter_of p @ r) = (if fst (split_last r) = [] then ([], letter_of p @ r) else (letter_of p @ fst (split_last r), snd (split_last r)))"
proof -
  let ?l = "letter_of p"
  have t: "takeWhile (\<lambda>c. \<not> IsSeparator c) (rev ?l) = rev ?l" "dropWhile (\<lambda>c. \<not> IsSeparator c) (rev ?l) = []"
    using letter_no_separator [of _ p] by (auto simp: takeWhile_eq_all_conv)
  show ?thesis
  proof (cases "fst (split_last r) = []")
    case True
    then have "\<forall>c \<in> set r. \<not> IsSeparator c" by (simp add: split_last_def)
    then have w: "dropWhile (\<lambda>c. \<not> IsSeparator c) (rev r @ rev ?l) = []"
      "takeWhile (\<lambda>c. \<not> IsSeparator c) (rev r @ rev ?l) = rev r @ rev ?l"
      using letter_no_separator [of _ p] by (auto simp: takeWhile_eq_all_conv)
    show ?thesis using True unfolding split_last_def rev_append w by simp
  next
    case False
    then obtain c where "c \<in> set (rev r)" "IsSeparator c" by (auto simp: split_last_def)
    then show ?thesis using False by (auto simp: split_last_def dropWhile_append1 takeWhile_append1)
  qed
qed

definition dir_rest :: "wstring \<Rightarrow> wstring" where
  "dir_rest r =
     (let d = fst (split_last (strip_rest r))
      in strip_rest (if length d \<le> 1 \<or> length d = 2 \<and> IsSeparator (d ! 0) then d else butlast d))"

definition base_rest :: "wstring \<Rightarrow> wstring" where
  "base_rest r = (let s = strip_rest r in if snd (split_last s) = [] then s else snd (split_last s))"

lemma dir_rest_prefix: "prefix (dir_rest r) r"
proof -
  let ?d = "fst (split_last (strip_rest r))"
  let ?x = "if length ?d \<le> 1 \<or> length ?d = 2 \<and> IsSeparator (?d ! 0) then ?d else butlast ?d"
  have "prefix (strip_rest ?x) ?x" by (rule strip_rest_prefix)
  also have "prefix ?x ?d" by (simp add: prefixeq_butlast)
  also have "prefix ?d (strip_rest r)" by (metis prefix_def split_last_append)
  also have "prefix (strip_rest r) r" by (rule strip_rest_prefix)
  finally show ?thesis unfolding dir_rest_def Let_def .
qed

lemma DirName_spec:
  "DirName p = (if letter_of p = [] \<and> dir_rest (rest_of p) = [] then kCurrentDirectory else letter_of p @ dir_rest (rest_of p))"
proof -
  let ?l = "letter_of p" let ?s = "strip_rest (rest_of p)" let ?d = "fst (split_last ?s)"
  let ?x = "if length ?d \<le> 1 \<or> length ?d = 2 \<and> IsSeparator (?d ! 0) then ?d else butlast ?d"
  have strip: "StripTrailingSeparators p = ?l @ ?s" "past_letter (?l @ ?s) = past_letter p"
    using Strip_spec Strip_parts by (simp_all add: Strip_spec)
  have s: "?s = ?d @ snd (split_last ?s)" by (simp add: split_last_append)
  have "prefix ?d (rest_of p)" using strip_rest_prefix [of "rest_of p"] s by (metis prefix_def append_assoc)
  moreover have "prefix ?x ?d" by (simp add: prefixeq_butlast)
  ultimately have "prefix ?x (rest_of p)" using prefix_order.trans by blast
  then have x: "StripTrailingSeparators (?l @ ?x) = ?l @ strip_rest ?x"
    by (simp only: Strip_spec prefix_parts)
  have q: "(case find_last_of (?l @ ?s) kSeparators of
          None \<Rightarrow> take (past_letter p) (?l @ ?s)
        | Some last_separator \<Rightarrow>
            if last_separator = past_letter p then take (past_letter p + 1) (?l @ ?s)
            else if last_separator = past_letter p + 1 \<and> IsSeparator ((?l @ ?s) ! past_letter p) then take (past_letter p + 2) (?l @ ?s)
            else if last_separator \<noteq> 0 then take last_separator (?l @ ?s)
            else ?l @ ?s) = ?l @ ?x"
  proof (cases "?d = []")
    case True
    then show ?thesis by (simp add: find_last_of_split split_last_letter letter_length)
  next
    case False
    have f: "find_last_of (?l @ ?s) kSeparators = Some (past_letter p + (length ?d - 1))"
      using False by (simp add: find_last_of_split split_last_letter letter_length Suc_le_eq add_diff_assoc)
    have t: "take (past_letter p + n) (?l @ ?s) = ?l @ take n ?s" for n by (simp add: letter_length)
    have n: "take n ?s = take n ?d" if "n \<le> length ?d" for n using that s by (metis append_Nil2 diff_is_0_eq take0 take_append)
    have "?s ! 0 = ?d ! 0" using False s by (metis length_greater_0_conv nth_append)
    then have h: "(?l @ ?s) ! past_letter p = ?d ! 0" by (simp add: nth_append letter_length)
    consider "length ?d = 1" | "length ?d = 2" | "length ?d \<ge> 3" proof -
      have "length ?d \<noteq> 0" using False by simp
      then show thesis using that by linarith
    qed
    then show ?thesis
    proof cases
      case 1
      then show ?thesis using t [of 1] n [of 1] by (simp add: f)
    next
      case 2
      then show ?thesis using t [of 1] t [of 2] n [of 1] n [of 2] by (simp add: f h butlast_conv_take)
    next
      case 3
      then have "past_letter p + (length ?d - 1) \<noteq> past_letter p" "past_letter p + (length ?d - 1) \<noteq> past_letter p + 1" by linarith+
      then show ?thesis using 3 t [of "length ?d - 1"] n [of "length ?d - 1"] by (simp add: f butlast_conv_take)
    qed
  qed
  have d: "dir_rest (rest_of p) = strip_rest ?x" by (simp only: dir_rest_def Let_def)
  show ?thesis unfolding DirName_def Let_def strip q x d by (simp only: length_0_conv append_is_Nil_conv)
qed


lemma BaseName_spec: "BaseName p = base_rest (rest_of p)"
proof -
  let ?l = "letter_of p" let ?s = "strip_rest (rest_of p)"
  have strip: "StripTrailingSeparators p = ?l @ ?s" "past_letter (?l @ ?s) = past_letter p"
    using Strip_spec Strip_parts by (simp_all add: Strip_spec)
  have q: "(case FindDriveLetter (?l @ ?s) of None \<Rightarrow> ?l @ ?s | Some letter \<Rightarrow> drop (letter + 1) (?l @ ?s)) = ?s"
    using strip(2) letter_length [of p] by (auto simp: past_letter_def split: option.splits)
  have s: "?s = fst (split_last ?s) @ snd (split_last ?s)" by (simp add: split_last_append)
  have b: "(case find_last_of ?s kSeparators of None \<Rightarrow> ?s
      | Some last_separator \<Rightarrow> if last_separator < length ?s - 1 then drop (last_separator + 1) ?s else ?s) = base_rest (rest_of p)"
  proof (cases "fst (split_last ?s) = []")
    case True
    then have "snd (split_last ?s) = ?s" using s by simp
    then show ?thesis using True by (simp add: find_last_of_split base_rest_def Let_def)
  next
    case False
    let ?n = "length (fst (split_last ?s))"
    have n: "?n - 1 + 1 = ?n" using False by simp
    have "length ?s = ?n + length (snd (split_last ?s))" by (metis length_append s)
    moreover have "length (snd (split_last ?s)) = 0 \<longleftrightarrow> snd (split_last ?s) = []" by simp
    ultimately have "?n - 1 < length ?s - 1 \<longleftrightarrow> snd (split_last ?s) \<noteq> []" using n by linarith
    moreover have "drop ?n ?s = snd (split_last ?s)" by (metis append_eq_conv_conj s)
    ultimately show ?thesis using False n by (simp add: find_last_of_split base_rest_def Let_def)
  qed
  show ?thesis unfolding BaseName_def Let_def strip q b ..
qed

lemma rstrip_length: "length (rstrip r) \<le> length r"
  using rstrip_prefix by (metis prefix_length_le)

text \<open>\<^verbatim>\<open>DirName\<close> gives a shorter path, the current directory, or the path itself, a root.\<close>

lemma DirName_shrinks: "DirName p \<noteq> p \<Longrightarrow> DirName p = kCurrentDirectory \<or> length (DirName p) < length p"
proof -
  assume ne: "DirName p \<noteq> p"
  have l: "p = letter_of p @ rest_of p" by (rule letter_rest)
  obtain u where u: "rest_of p = dir_rest (rest_of p) @ u" using dir_rest_prefix by (metis prefix_def)
  show ?thesis
  proof (cases "letter_of p = [] \<and> dir_rest (rest_of p) = []")
    case False
    then have d: "DirName p = letter_of p @ dir_rest (rest_of p)" by (auto simp: DirName_spec)
    then have "u \<noteq> []" using ne u l by auto
    then have "length (dir_rest (rest_of p)) < length (rest_of p)"
      by (metis u length_append length_greater_0_conv less_add_same_cancel1)
    then show ?thesis using d l by (metis length_append nat_add_left_cancel_less)
  qed (simp add: DirName_spec)
qed

lemma DirName_current [simp]: "DirName kCurrentDirectory = kCurrentDirectory"
  by (simp add: DirName_spec kCurrentDirectory_def rest_of_def letter_of_def past_letter_def FindDriveLetter_def
      dir_rest_def strip_rest_def split_last_def IsSeparator_def kSeparators_def)

lemma EqualDriveLetter_refl: "EqualDriveLetterCaseInsensitive p p"
  by (auto simp: EqualDriveLetterCaseInsensitive_def StartsWithT_def list_all2_same split: option.split)

subsection \<open>Components\<close>

function components_loop :: "wstring \<Rightarrow> wstring list \<Rightarrow> wstring \<times> wstring list" where
  "components_loop here ret_val =
     (if \<not> EqualDriveLetterCaseInsensitive here (DirName here) then
        components_loop (DirName here)
          (if \<not> AreAllSeparators (BaseName here) then ret_val @ [BaseName here] else ret_val)
      else (here, ret_val))"
  by pat_completeness auto

termination
proof (relation "measure (\<lambda>(p, _). if p = kCurrentDirectory then 0 else Suc (length p))")
  fix here :: wstring and ret_val :: "wstring list"
  assume "\<not> EqualDriveLetterCaseInsensitive here (DirName here)"
  then have ne: "DirName here \<noteq> here" "here \<noteq> kCurrentDirectory"
    using EqualDriveLetter_refl by (metis, metis DirName_current EqualDriveLetter_refl)
  then show "((DirName here, if \<not> AreAllSeparators (BaseName here) then ret_val @ [BaseName here] else ret_val),
      here, ret_val) \<in> measure (\<lambda>(p, _). if p = kCurrentDirectory then 0 else Suc (length p))"
    using DirName_shrinks [OF ne(1)] by auto
qed simp

declare components_loop.simps [simp del]

definition GetComponents :: "wstring \<Rightarrow> wstring list" where
  "GetComponents path =
     (if path = [] then []
      else let (here, ret_val) = components_loop path [];
               base = BaseName here;
               ret_val1 = (if base \<noteq> [] \<and> base \<noteq> kCurrentDirectory then ret_val @ [BaseName here] else ret_val);
               dir = DirName here
        in rev (case FindDriveLetter dir of None \<Rightarrow> ret_val1 | Some letter \<Rightarrow> ret_val1 @ [substr dir 0 (letter + 1)]))"

text \<open>The two iterators run over what is left of the two lists; \<open>None\<close> is a difference.\<close>

fun skip_parent :: "wstring list \<Rightarrow> wstring list \<Rightarrow> wstring list option" where
  "skip_parent [] child = Some child"
| "skip_parent (p # ps) [] = None"
| "skip_parent (p # ps) (c # cs) = (if p \<noteq> c then None else skip_parent ps cs)"

fun append_components :: "wstring list \<Rightarrow> wstring \<Rightarrow> wstring result" where
  "append_components [] path = Inr path"
| "append_components (c # cs) path = rbind (Append path c) (append_components cs)"

text \<open>The path grown is \<open>None\<close> for a null pointer; the result \<open>None\<close> is \<^verbatim>\<open>false\<close>.\<close>

definition AppendRelativePath :: "wstring \<Rightarrow> wstring \<Rightarrow> wstring option \<Rightarrow> wstring option option result" where
  "AppendRelativePath self child path =
     (let parent_components = GetComponents self; child_components = GetComponents child
      in if parent_components = [] \<or> length parent_components \<ge> length child_components then Inr None
         else
           let (mismatch, ps, cs) =
             (if FindDriveLetter (hd parent_components) \<noteq> None \<and> FindDriveLetter (hd child_components) \<noteq> None then
                (\<not> StartsWithT lower16 (hd parent_components) (hd child_components) False, tl parent_components, tl child_components)
              else (False, parent_components, child_components))
           in if mismatch then Inr None
              else case skip_parent ps cs of
                None \<Rightarrow> Inr None
              | Some left \<Rightarrow> (case path of None \<Rightarrow> Inr (Some None)
                  | Some p \<Rightarrow> rbind (append_components left p) (\<lambda>r. Inr (Some (Some r)))))"

definition IsParent :: "wstring \<Rightarrow> wstring \<Rightarrow> bool result" where
  "IsParent self child = rbind (AppendRelativePath self child None) (\<lambda>r. Inr (r \<noteq> None))"

definition ReferencesParent :: "wstring \<Rightarrow> bool" where
  "ReferencesParent path =
     list_ex (\<lambda>component. find_first_not_of component [0x2E, 0x20, 0x0A, 0x0D, 0x09] 0 = None \<and>
       str_find component kParentDirectory 0 \<noteq> None) (GetComponents path)"


end
