(* ===== verification/File_Path_Props.thy ===== *)
theory File_Path_Props
  imports File_Path
begin

text \<open>
  What the operations on paths promise: appending is undone by \<^verbatim>\<open>DirName\<close> and \<^verbatim>\<open>BaseName\<close> and adds one
  component, and a path is its name and its extension put together, unless it ends with a separator.
\<close>

subsection \<open>Appending a component\<close>

text \<open>A component: not empty, no separator, no terminator, no drive letter.\<close>

definition is_component :: "wstring \<Rightarrow> bool" where
  "is_component c \<longleftrightarrow> c \<noteq> [] \<and> list_all (\<lambda>x. \<not> IsSeparator x \<and> x \<noteq> 0) c \<and> FindDriveLetter c = None"

lemma no_terminator:
  assumes "0 \<notin> set p" shows "str_find p [0] 0 = None" "FilePath p = p"
proof -
  have "take 1 (drop j p) \<noteq> [0]" for j using assms by (metis in_set_dropD in_set_takeD list.set_intros(1))
  then show f: "str_find p [0] 0 = None" by (simp add: str_find_def find_sub_None)
  then show "FilePath p = p" by (simp add: FilePath_def)
qed

lemma component_parts:
  assumes "is_component c"
  shows "c \<noteq> []" "\<forall>x \<in> set c. \<not> IsSeparator x" "0 \<notin> set c" "FilePath c = c" "\<not> IsPathAbsolute c"
    "letter_of c = []" "rest_of c = c" "rstrip c = c" "str_find c [0] 0 = None"
proof -
  show c: "c \<noteq> []" "\<forall>x \<in> set c. \<not> IsSeparator x" "0 \<notin> set c" using assms by (auto simp: is_component_def list_all_iff)
  have l: "past_letter c = 0" using assms by (simp add: is_component_def past_letter_def)
  then show "letter_of c = []" "rest_of c = c" by (simp_all add: letter_of_def rest_of_def)
  show "\<not> IsPathAbsolute c" using assms c by (auto simp: IsPathAbsolute_def is_component_def)
  show "rstrip c = c" using c by (induction c rule: rev_induct) auto
  show "str_find c [0] 0 = None" "FilePath c = c" using no_terminator [OF c(3)] .
qed

text \<open>The separator that \<^verbatim>\<open>Append\<close> puts after what stripping leaves of the path's rest.\<close>

definition joiner :: "wstring \<Rightarrow> wstring" where
  "joiner s = (if s = [] \<or> IsSeparator (last s) then [] else [0x5C])"

lemma Append_unfold:
  assumes "str_find c [0] 0 = None" "\<not> IsPathAbsolute c" "c \<noteq> []" "p \<noteq> kCurrentDirectory"
  shows "Append p c = Inr ((if StripTrailingSeparators p \<noteq> [] \<and> \<not> IsSeparator (last (StripTrailingSeparators p)) \<and>
      past_letter (StripTrailingSeparators p) \<noteq> length (StripTrailingSeparators p)
    then StripTrailingSeparators p @ [0x5C] else StripTrailingSeparators p) @ c)"
  using assms by (simp add: Append_def Let_def last_conv_nth kSeparators_def)

lemma Append_parts:
  assumes "is_component c" "p \<noteq> []" "p \<noteq> kCurrentDirectory"
  defines "s \<equiv> strip_rest (rest_of p)"
  shows "Append p c = Inr (letter_of p @ s @ joiner s @ c)"
    "letter_of (letter_of p @ s @ joiner s @ c) = letter_of p"
    "rest_of (letter_of p @ s @ joiner s @ c) = s @ joiner s @ c"
proof -
  let ?l = "letter_of p" let ?q = "?l @ s @ joiner s @ c"
  note c = component_parts [OF assms(1)]
  have strip: "StripTrailingSeparators p = ?l @ s" by (simp add: Strip_spec s_def)
  have pl: "past_letter (?l @ s) = past_letter p" using Strip_parts(1) [of p] strip by simp
  have ne: "?l @ s \<noteq> []" using assms(2) letter_rest [of p] by (auto simp: s_def strip_rest_def split: if_splits)
  have l: "\<not> IsSeparator (last (?l @ s)) \<or> s \<noteq> [] \<and> IsSeparator (last s)"
    using ne letter_no_separator [of "last ?l" p] by (cases "s = []") auto
  have "Append p c = Inr ((if \<not> IsSeparator (last (?l @ s)) \<and> s \<noteq> [] then (?l @ s) @ [0x5C] else ?l @ s) @ c)"
  proof -
    have "past_letter (?l @ s) \<noteq> length (?l @ s) \<longleftrightarrow> s \<noteq> []" using pl letter_length [of p] by simp
    then show ?thesis
      using Append_unfold [OF c(9,5,1) assms(3)] ne unfolding strip by (simp only: simp_thms if_True)
  qed
  also have "(if \<not> IsSeparator (last (?l @ s)) \<and> s \<noteq> [] then (?l @ s) @ [0x5C] else ?l @ s) = ?l @ s @ joiner s"
    using l by (cases "s = []"; cases "IsSeparator (last s)") (simp_all add: joiner_def)
  finally show "Append p c = Inr ?q" by simp
  have "past_letter ?q = past_letter p"
  proof (cases "?l = []")
    case True
    then have n: "FindDriveLetter p = None" using letter_length [of p] by (simp add: past_letter_def split: option.splits)
    have s: "s \<noteq> []" "prefix s p" using ne True letter_rest [of p] strip_rest_prefix [of "rest_of p"] by (simp_all add: s_def)
    have "FindDriveLetter ?q = None"
    proof (cases "length s \<ge> 2")
      case long: True
      have "FindDriveLetter s = None"
        using s(2) n FindDriveLetter_take [of p "length s"] letter_length [of p] True by (auto simp: prefix_def)
      then show ?thesis using True long by (auto simp: FindDriveLetter_def nth_append split: if_splits)
    next
      case False
      then obtain x where "s = [x]" using s(1) by (cases s; cases "tl s") auto
      then show ?thesis using True by (auto simp: joiner_def FindDriveLetter_def IsSeparator_def kSeparators_def)
    qed
    then show ?thesis using n by (simp add: past_letter_def)
  next
    case False
    then have two: "length ?l = 2" "past_letter p = 2" using letter_length [of p] past_letter_cases [of p] by auto
    then have "take 2 ?q = take 2 p" by (simp add: letter_of_def)
    then have "?q = take 2 p @ drop 2 ?q" by (metis append_take_drop_id)
    moreover have "2 \<le> length p" using two(2) past_letter_cases [of p] by auto
    ultimately have "FindDriveLetter ?q = FindDriveLetter p" by (metis FindDriveLetter_prefix)
    then show ?thesis by (simp add: past_letter_def)
  qed
  then show "letter_of ?q = ?l" "rest_of ?q = s @ joiner s @ c"
    using letter_length [of p] by (simp_all add: letter_of_def [of ?q] rest_of_def)
qed

lemma split_last_component: "is_component c \<Longrightarrow> a = [] \<or> IsSeparator (last a) \<Longrightarrow> split_last (a @ c) = (a, c)"
proof -
  assume c: "is_component c" and a: "a = [] \<or> IsSeparator (last a)"
  have "\<forall>x \<in> set (rev c). \<not> IsSeparator x" using component_parts(2) [OF c] by simp
  then have "takeWhile (\<lambda>x. \<not> IsSeparator x) (rev c @ rev a) = rev c @ takeWhile (\<lambda>x. \<not> IsSeparator x) (rev a)"
    "dropWhile (\<lambda>x. \<not> IsSeparator x) (rev c @ rev a) = dropWhile (\<lambda>x. \<not> IsSeparator x) (rev a)"
    by (subst takeWhile_append2 dropWhile_append2; auto)+
  moreover have "takeWhile (\<lambda>x. \<not> IsSeparator x) (rev a) = []" "dropWhile (\<lambda>x. \<not> IsSeparator x) (rev a) = rev a"
    using a by (cases a rule: rev_cases; simp)+
  ultimately show ?thesis by (simp add: split_last_def)
qed

lemma joiner_end: "s @ joiner s = [] \<or> IsSeparator (last (s @ joiner s))"
  by (auto simp: joiner_def IsSeparator_def kSeparators_def)

lemma strip_rest_component: "is_component c \<Longrightarrow> strip_rest (a @ c) = a @ c"
  using component_parts(1,8) [of c] by (simp add: strip_rest_def rstrip_append)

lemma dir_rest_component:
  assumes "is_component c"
  shows "dir_rest (strip_rest r @ joiner (strip_rest r) @ c) = strip_rest r"
proof -
  let ?s = "strip_rest r" let ?d = "?s @ joiner ?s"
  have d: "fst (split_last (strip_rest (?d @ c))) = ?d"
    using strip_rest_component [OF assms, of ?d] split_last_component [OF assms joiner_end, of ?s] by simp
  have root: "IsSeparator (last ?s) \<Longrightarrow> ?s \<noteq> [] \<Longrightarrow> length ?s = 1 \<or> length ?s = 2 \<and> IsSeparator (?s ! 0)"
    using rstrip_last [of r] rstrip_empty [of r]
    by (cases r) (auto simp: strip_rest_def le_Suc_eq split: if_splits)
  have "strip_rest (if length ?d \<le> 1 \<or> length ?d = 2 \<and> IsSeparator (?d ! 0) then ?d else butlast ?d) = ?s"
  proof (cases "?s = [] \<or> IsSeparator (last ?s)")
    case True
    then have "?d = ?s" by (simp add: joiner_def)
    moreover have "length ?s \<le> 1 \<or> length ?s = 2 \<and> IsSeparator (?s ! 0)" using True root by (cases "?s = []") auto
    ultimately show ?thesis by simp
  next
    case False
    then have j: "?d = ?s @ [0x5C]" by (simp add: joiner_def)
    have "\<not> (length ?d \<le> 1 \<or> length ?d = 2 \<and> IsSeparator (?d ! 0))" using False unfolding j by (cases "?s") auto
    then show ?thesis unfolding j by (simp only: if_False butlast_snoc strip_rest_idem)
  qed
  then show ?thesis using d by (simp add: dir_rest_def Let_def)
qed

lemma base_rest_component: "is_component c \<Longrightarrow> base_rest (s @ joiner s @ c) = c"
  using split_last_component [of c "s @ joiner s"] strip_rest_component [of c "s @ joiner s"] joiner_end [of s] component_parts(1) [of c]
  by (simp add: base_rest_def Let_def)

lemma Append_DirName_BaseName':
  assumes "is_component c" "p \<noteq> []"
  shows "\<exists>q. Append p c = Inr q \<and> BaseName q = c \<and> DirName q = StripTrailingSeparators p"
proof (cases "p = kCurrentDirectory")
  case True
  note c = component_parts [OF assms(1)]
  have "Append p c = Inr c" using True c by (simp add: Append_def)
  moreover have "BaseName c = c" using base_rest_component [OF assms(1), of "[]"] c by (simp add: BaseName_spec joiner_def)
  moreover have "DirName c = kCurrentDirectory"
    using dir_rest_component [OF assms(1), of "[]"] c by (simp add: DirName_spec joiner_def strip_rest_def)
  moreover have "StripTrailingSeparators kCurrentDirectory = kCurrentDirectory" by code_simp
  ultimately show ?thesis using True by simp
next
  case False
  note q = Append_parts [OF assms False]
  have ne: "letter_of p \<noteq> [] \<or> strip_rest (rest_of p) \<noteq> []"
    using assms(2) letter_rest [of p] by (auto simp: strip_rest_def split: if_splits)
  have "BaseName (letter_of p @ strip_rest (rest_of p) @ joiner (strip_rest (rest_of p)) @ c) = c"
    by (simp only: BaseName_spec q(3) base_rest_component [OF assms(1)])
  moreover have "DirName (letter_of p @ strip_rest (rest_of p) @ joiner (strip_rest (rest_of p)) @ c) = StripTrailingSeparators p"
    by (simp only: DirName_spec q(2,3) dir_rest_component [OF assms(1)] Strip_spec) (use ne in auto)
  ultimately show ?thesis using q(1) by blast
qed

text \<open>
  C37: a component appended to a path is its base name, and the directory of the result is the path
  without its trailing separators.
\<close>

theorem Append_DirName_BaseName:
  assumes "is_component c" "p \<noteq> []"
  shows "\<exists>q. Append p c = Inr q \<and> BaseName q = c \<and> DirName q = StripTrailingSeparators p"
  using assms by (rule Append_DirName_BaseName')

theorem Append_DirName_BaseName_witness:
  "\<exists>q. Append [0x43, 0x3A, 0x2F] [0x61] = Inr q \<and> BaseName q = [0x61] \<and> DirName q = StripTrailingSeparators [0x43, 0x3A, 0x2F]"
  by (rule Append_DirName_BaseName) (simp_all add: is_component_def IsSeparator_def kSeparators_def FindDriveLetter_def)


subsection \<open>Components\<close>

lemma Strip_idem [simp]: "StripTrailingSeparators (StripTrailingSeparators p) = StripTrailingSeparators p"
  by (simp add: Strip_spec [of "StripTrailingSeparators p"] Strip_parts) (simp add: Strip_spec)

lemma DirName_Strip: "DirName (StripTrailingSeparators p) = DirName p"
  by (simp add: DirName_def Let_def)

lemma BaseName_Strip: "BaseName (StripTrailingSeparators p) = BaseName p"
  by (simp add: BaseName_def Let_def)

lemma Equal_drive_lengths: "EqualDriveLetterCaseInsensitive a b \<Longrightarrow> length a = length b"
  by (auto simp: EqualDriveLetterCaseInsensitive_def FindDriveLetter_def split: option.splits if_splits
      dest: arg_cong [where f = length])

text \<open>A path and the same path without trailing separators have the same components.\<close>

lemma Equal_DirName: "EqualDriveLetterCaseInsensitive p (DirName p) \<longleftrightarrow> DirName p = p"
proof
  assume "EqualDriveLetterCaseInsensitive p (DirName p)"
  then have "length p = length (DirName p)" by (rule Equal_drive_lengths)
  show "DirName p = p"
  proof (rule ccontr)
    assume ne: "DirName p \<noteq> p"
    then have "DirName p = kCurrentDirectory" using DirName_shrinks [OF ne] \<open>length p = length (DirName p)\<close> by (metis less_irrefl)
    then show False using \<open>EqualDriveLetterCaseInsensitive p (DirName p)\<close> ne
      by (simp add: EqualDriveLetterCaseInsensitive_def FindDriveLetter_def kCurrentDirectory_def split: option.splits)
  qed
qed (metis EqualDriveLetter_refl)

lemma components_loop_step:
  "DirName p \<noteq> p \<Longrightarrow> components_loop p cs = components_loop (DirName p) (if \<not> AreAllSeparators (BaseName p) then cs @ [BaseName p] else cs)"
  "DirName p = p \<Longrightarrow> components_loop p cs = (p, cs)"
  by (subst components_loop.simps [of p cs], simp only: Equal_DirName EqualDriveLetter_refl not_False_eq_True if_True if_False simp_thms)+


lemma components_loop_append:
  "components_loop p (as @ cs) = (fst (components_loop p cs), as @ snd (components_loop p cs))"
proof (induction p cs rule: components_loop.induct)
  case (1 p cs)
  show ?case
  proof (cases "DirName p = p")
    case False
    let ?c = "\<lambda>cs. if \<not> AreAllSeparators (BaseName p) then cs @ [BaseName p] else cs"
    have "components_loop (DirName p) (as @ ?c cs) =
        (fst (components_loop (DirName p) (?c cs)), as @ snd (components_loop (DirName p) (?c cs)))"
      by (rule 1) (simp add: Equal_DirName False)
    moreover have "?c (as @ cs) = as @ ?c cs" by simp
    ultimately show ?thesis by (simp only: components_loop_step(1) [OF False])
  qed (simp add: components_loop_step(2))
qed

text \<open>The end of \<^verbatim>\<open>GetComponents\<close>: the root and the drive letter of where the loop stopped.\<close>

definition root_components :: "wstring \<Rightarrow> wstring list" where
  "root_components p =
     (case FindDriveLetter (DirName p) of None \<Rightarrow> [] | Some letter \<Rightarrow> [substr (DirName p) 0 (letter + 1)]) @
     (if BaseName p \<noteq> [] \<and> BaseName p \<noteq> kCurrentDirectory then [BaseName p] else [])"

lemma GetComponents_loop:
  "p \<noteq> [] \<Longrightarrow> GetComponents p = root_components (fst (components_loop p [])) @ rev (snd (components_loop p []))"
  by (simp add: GetComponents_def root_components_def Let_def split: prod.split option.split)

lemma AreAllSeparators_all: "AreAllSeparators r \<longleftrightarrow> (\<forall>c \<in> set r. IsSeparator c)"
  by (induction r) auto

lemma DirName_letter: "letter_of p \<noteq> [] \<or> dir_rest (rest_of p) \<noteq> [] \<Longrightarrow> DirName p = letter_of p @ dir_rest (rest_of p)"
  by (auto simp: DirName_spec)

text \<open>The paths \<^verbatim>\<open>DirName\<close> stops at: the current directory, and the roots.\<close>

lemma DirName_fixed: "DirName p = p \<Longrightarrow> p = kCurrentDirectory \<or> AreAllSeparators (BaseName p)"
proof (rule disjCI)
  assume f: "DirName p = p" and "\<not> AreAllSeparators (BaseName p)"
  then have b: "\<not> (\<forall>c \<in> set (base_rest (rest_of p)). IsSeparator c)" by (simp add: BaseName_spec AreAllSeparators_all)
  let ?s = "strip_rest (rest_of p)" let ?d = "fst (split_last ?s)"
  let ?x = "if length ?d \<le> 1 \<or> length ?d = 2 \<and> IsSeparator (?d ! 0) then ?d else butlast ?d"
  show "p = kCurrentDirectory"
  proof (rule ccontr)
    assume "p \<noteq> kCurrentDirectory"
    then have "letter_of p @ dir_rest (rest_of p) = letter_of p @ rest_of p"
      using f letter_rest [of p] DirName_spec [of p] by (auto split: if_splits)
    then have r: "strip_rest ?x = rest_of p" by (simp add: dir_rest_def Let_def)
    then have "?s = rest_of p" by (metis strip_rest_idem)
    moreover have "prefix (strip_rest ?x) ?d"
      using strip_rest_prefix [of ?x] prefixeq_butlast [of ?d] prefix_order.trans by auto
    ultimately have "prefix ?s ?d" using r by simp
    then have "snd (split_last ?s) = []" using split_last_append [of ?s] by (metis append_self_conv prefixI prefix_order.antisym)
    then have d: "?d = ?s" "base_rest (rest_of p) = ?s" using split_last_append [of ?s] by (simp_all add: base_rest_def Let_def)
    then have "?s \<noteq> []" using b by auto
    then have "IsSeparator (last ?s)" using d(1) split_last_fst [of ?s] by simp
    then have "rstrip (rest_of p) = []" using rstrip_last [of "rest_of p"] by (auto simp: strip_rest_def split: if_splits)
    then show False using b d(2) \<open>?s = rest_of p\<close> by (simp add: rstrip_empty)
  qed
qed

lemma kCurrentDirectory_strip: "StripTrailingSeparators kCurrentDirectory = kCurrentDirectory" by code_simp

lemma GetComponents_Strip:
  assumes "p \<noteq> []" "StripTrailingSeparators p \<noteq> kCurrentDirectory \<or> p = kCurrentDirectory"
  shows "GetComponents (StripTrailingSeparators p) = GetComponents p"
proof (cases "StripTrailingSeparators p = p")
  case False
  let ?s = "StripTrailingSeparators p"
  let ?c = "if \<not> AreAllSeparators (BaseName p) then [BaseName p] else []"
  have ne: "?s \<noteq> []" using assms letter_rest [of p] by (auto simp: Strip_spec strip_rest_def split: if_splits)
  have "StripTrailingSeparators (DirName p) = DirName p" by (simp add: DirName_def Let_def kCurrentDirectory_strip)
  then have "DirName p \<noteq> p" using False by metis
  then have l: "components_loop p [] = components_loop (DirName p) ?c" using components_loop_step(1) [of p "[]"] by simp
  have "components_loop ?s [] = components_loop p []"
  proof (cases "DirName ?s = ?s")
    case True
    then have "?c = []" using DirName_fixed [OF True] assms(2) False by (auto simp: BaseName_Strip)
    then show ?thesis using l True components_loop_step(2) [OF True] by (simp add: DirName_Strip)
  next
    case f: False
    then show ?thesis using l components_loop_step(1) [OF f] by (simp add: DirName_Strip BaseName_Strip)
  qed
  then show ?thesis using ne assms(1) by (simp add: GetComponents_loop)
qed simp

lemma GetComponents_Append:
  assumes "is_component c" "p \<noteq> []" "StripTrailingSeparators p \<noteq> kCurrentDirectory \<or> p = kCurrentDirectory" "Append p c = Inr q"
    "c \<noteq> kCurrentDirectory"
  shows "GetComponents q = GetComponents p @ [c]"
proof -
  let ?s = "StripTrailingSeparators p"
  have q: "BaseName q = c" "DirName q = ?s" using Append_DirName_BaseName' [OF assms(1,2)] assms(4) by auto
  have "\<not> AreAllSeparators c" using component_parts(1,2) [OF assms(1)] by (cases c) (auto simp: AreAllSeparators_all)
  have ne: "?s \<noteq> []" using assms(2) letter_rest [of p] by (auto simp: Strip_spec strip_rest_def split: if_splits)
  have "DirName q \<noteq> q \<and> q \<noteq> []"
  proof
    show "q \<noteq> []"
    proof
      assume "q = []"
      moreover have "BaseName [] = []" by code_simp
      ultimately show False using q(1) component_parts(1) [OF assms(1)] by simp
    qed
    show "DirName q \<noteq> q"
    proof
      assume f: "DirName q = q"
      then have "q = kCurrentDirectory" using DirName_fixed [OF f] q(1) \<open>\<not> AreAllSeparators c\<close> by simp
      moreover have "BaseName kCurrentDirectory = kCurrentDirectory" by code_simp
      ultimately show False using q(1) assms(5) by simp
    qed
  qed
  then have "components_loop q [] = components_loop ?s ([c] @ [])"
    using components_loop_step(1) [of q "[]"] q \<open>\<not> AreAllSeparators c\<close> by simp
  then have "GetComponents q = GetComponents ?s @ [c]"
    using \<open>DirName q \<noteq> q \<and> q \<noteq> []\<close> ne unfolding components_loop_append by (simp add: GetComponents_loop)
  then show ?thesis using GetComponents_Strip [OF assms(2,3)] by simp
qed

lemma skip_parent_prefix: "skip_parent ps (ps @ cs) = Some cs"
  by (induction ps) auto

lemma drive_letter_matches: "StartsWithT lower16 a a False"
  by (simp add: StartsWithT_def list_all2_same)

text \<open>
  Appending a component to a path adds it to the path's components, so the path is a parent of the
  result and the component is the result relative to it.
\<close>

theorem Append_components:
  assumes "is_component c" "c \<noteq> kCurrentDirectory" "GetComponents p \<noteq> []" "StripTrailingSeparators p \<noteq> kCurrentDirectory"
  shows "\<exists>q. Append p c = Inr q \<and> GetComponents q = GetComponents p @ [c] \<and> IsParent p q = Inr True \<and>
    AppendRelativePath p q (Some r) = rbind (Append r c) (\<lambda>s. Inr (Some (Some s)))"
proof -
  have p: "p \<noteq> []" using assms(3) by (auto simp: GetComponents_def)
  obtain q where q: "Append p c = Inr q" using Append_DirName_BaseName' [OF assms(1) p] by blast
  have g: "GetComponents q = GetComponents p @ [c]" using GetComponents_Append [OF assms(1) p _ q assms(2)] assms(4) by simp
  have "hd (GetComponents p @ [c]) = hd (GetComponents p)" "tl (GetComponents p @ [c]) = tl (GetComponents p) @ [c]"
    using assms(3) by simp_all
  then have "AppendRelativePath p q path = (case path of None \<Rightarrow> Inr (Some None)
      | Some t \<Rightarrow> rbind (append_components [c] t) (\<lambda>r. Inr (Some (Some r))))" for path
    using assms(3) by (simp add: AppendRelativePath_def g Let_def drive_letter_matches skip_parent_prefix)
  then show ?thesis using q g by (simp add: IsParent_def rbind_assoc)
qed

theorem Append_components_witness:
  "\<exists>q. Append [0x43, 0x3A, 0x5C] [0x61] = Inr q \<and> GetComponents q = GetComponents [0x43, 0x3A, 0x5C] @ [[0x61]] \<and>
     IsParent [0x43, 0x3A, 0x5C] q = Inr True \<and>
     AppendRelativePath [0x43, 0x3A, 0x5C] q (Some []) = rbind (Append [] [0x61]) (\<lambda>s. Inr (Some (Some s)))"
proof (rule Append_components)
  have "GetComponents [0x43, 0x3A, 0x5C] = [[0x43, 0x3A], [0x5C]]" by code_simp
  then show "GetComponents [0x43, 0x3A, 0x5C] \<noteq> []" by simp
  show "StripTrailingSeparators [0x43, 0x3A, 0x5C] \<noteq> kCurrentDirectory" by code_simp
qed (simp_all add: is_component_def IsSeparator_def kSeparators_def FindDriveLetter_def kCurrentDirectory_def)


subsection \<open>Extensions\<close>

text \<open>The last of a character up to a position: in the first part of a string, and in the second.\<close>

lemma take_one: "take (length [x]) (drop i s) = [x] \<longleftrightarrow> i < length s \<and> s ! i = x"
  by (cases "i < length s") (simp_all add: Cons_nth_drop_Suc [symmetric])

lemma rfind_one:
  "str_rfind s [x] 0 = (if 0 < length s \<and> s ! 0 = x then Some 0 else None)"
  "str_rfind s [x] (Suc n) = (if Suc n < length s \<and> s ! Suc n = x then Some (Suc n) else str_rfind s [x] n)"
proof -
  show "str_rfind s [x] 0 = (if 0 < length s \<and> s ! 0 = x then Some 0 else None)"
    using take_one [of x 0 s] by simp
  show "str_rfind s [x] (Suc n) = (if Suc n < length s \<and> s ! Suc n = x then Some (Suc n) else str_rfind s [x] n)"
    by (simp only: str_rfind.simps take_one) auto
qed

lemma str_rfind_first: "n < length a \<Longrightarrow> str_rfind (a @ b) [x] n = str_rfind a [x] n"
  by (induction n) (auto simp: rfind_one nth_append simp del: str_rfind.simps)

lemma str_rfind_second:
  "str_rfind (a @ b) [x] (length a + n) =
     (case str_rfind b [x] n of Some i \<Rightarrow> Some (length a + i)
      | None \<Rightarrow> if a = [] then None else str_rfind a [x] (length a - 1))"
proof (induction n)
  case 0
  show ?case
  proof (cases a)
    case Nil
    then show ?thesis by (simp split: option.split)
  next
    case (Cons y ys)
    then have "str_rfind (a @ b) [x] (Suc (length ys)) =
        (if length a < length (a @ b) \<and> (a @ b) ! length a = x then Some (length a) else str_rfind a [x] (length ys))"
      using str_rfind_first [of "length ys" a b x] take_one [of x "Suc (length ys)" "a @ b"] by simp
    then show ?thesis using Cons take_one [of x 0 b] by (simp add: nth_append)
  qed
next
  case (Suc n)
  have "take (length [x]) (drop (Suc (length a + n)) (a @ b)) = [x] \<longleftrightarrow> take (length [x]) (drop (Suc n) b) = [x]"
    by simp
  then show ?case using Suc by (auto split: option.splits)
qed

lemma str_rfind_at: "str_rfind s [x] n = Some i \<Longrightarrow> i \<le> n \<and> i < length s \<and> s ! i = x"
  by (induction n) (auto simp: rfind_one simp del: str_rfind.simps split: if_splits)

lemma str_rfind_None_iff: "length s \<le> Suc n \<Longrightarrow> str_rfind s [x] n = None \<longleftrightarrow> x \<notin> set s"
  using str_rfind_single [of s x n] str_rfind_at [of s x n]
  by (cases "str_rfind s [x] n") (auto simp: in_set_conv_nth)

lemma split_last_fst_append:
  "\<forall>x \<in> set c. \<not> IsSeparator x \<Longrightarrow> fst (split_last (a @ c)) = fst (split_last a)"
proof -
  assume "\<forall>x \<in> set c. \<not> IsSeparator x"
  then have "dropWhile (\<lambda>x. \<not> IsSeparator x) (rev c @ rev a) = dropWhile (\<lambda>x. \<not> IsSeparator x) (rev a)"
    by (subst dropWhile_append2; auto)
  then show ?thesis by (simp add: split_last_def)
qed

lemma find_last_of_append:
  "\<forall>x \<in> set c. \<not> IsSeparator x \<Longrightarrow> find_last_of (a @ c) kSeparators = find_last_of a kSeparators"
  by (simp add: find_last_of_split split_last_fst_append)

lemma find_last_of_bound: "find_last_of a kSeparators = Some i \<Longrightarrow> i < length a"
  using split_last_append [of a] by (auto simp: find_last_of_split split: if_splits)
    (metis One_nat_def diff_less length_append length_greater_0_conv less_le_trans le_add1 zero_less_one)

lemma find_last_of_end: "a \<noteq> [] \<Longrightarrow> IsSeparator (last a) \<Longrightarrow> find_last_of a kSeparators = Some (length a - 1)"
  by (cases a rule: rev_cases) (simp_all add: find_last_of_split split_last_def)

text \<open>What can stand before the base name: a drive letter, or something that ends with a separator.\<close>

definition before_base :: "wstring \<Rightarrow> bool" where
  "before_base a \<longleftrightarrow> kExtensionSeparator \<notin> set a \<or> IsSeparator (last a)"

lemma dot_no_separator: "\<not> IsSeparator kExtensionSeparator"
  by (simp add: IsSeparator_def kSeparators_def kExtensionSeparator_def)

lemma FinalExtensionSeparatorPosition_base:
  assumes "kExtensionSeparator \<in> set b" "b \<noteq> kCurrentDirectory" "b \<noteq> kParentDirectory"
    "a @ b \<noteq> kCurrentDirectory" "a @ b \<noteq> kParentDirectory"
  shows "FinalExtensionSeparatorPosition (a @ b) = map_option ((+) (length a)) (FinalExtensionSeparatorPosition b)"
  using assms str_rfind_None_iff [of b "length b" kExtensionSeparator]
  by (auto simp: FinalExtensionSeparatorPosition_def str_rfind_second split: option.split)

lemma ExtensionSeparatorPosition_base:
  assumes "kExtensionSeparator \<in> set b" "b \<noteq> kCurrentDirectory" "b \<noteq> kParentDirectory"
    "a @ b \<noteq> kCurrentDirectory" "a @ b \<noteq> kParentDirectory" "before_base a" "\<forall>x \<in> set b. \<not> IsSeparator x"
  shows "ExtensionSeparatorPosition (a @ b) = map_option ((+) (length a)) (ExtensionSeparatorPosition b)"
proof -
  obtain d where d: "FinalExtensionSeparatorPosition b = Some d"
    using assms(1-3) str_rfind_None_iff [of b "length b" kExtensionSeparator] by (auto simp: FinalExtensionSeparatorPosition_def)
  then have dl: "d < length b"
    using str_rfind_at [of b kExtensionSeparator "length b" d] by (simp add: FinalExtensionSeparatorPosition_def split: if_splits)
  have p: "FinalExtensionSeparatorPosition (a @ b) = Some (length a + d)"
    using FinalExtensionSeparatorPosition_base [OF assms(1-5)] d by simp
  have seps: "find_last_of (take (length a + d) (a @ b)) kSeparators = find_last_of a kSeparators"
    "find_last_of (take d b) kSeparators = None"
    using find_last_of_append [of "take d b" a] find_last_of_append [of "take d b" "[]"] assms(7)
    by (auto simp: find_last_of_def dest: in_set_takeD)
  have before: "(case find_last_of a kSeparators of None \<Rightarrow> False | Some l \<Rightarrow> m < l)"
    if m: "str_rfind a [kExtensionSeparator] (length a - 1) = Some m" for m
  proof -
    have m': "m < length a" "a ! m = kExtensionSeparator" using str_rfind_at [OF m] by auto
    then have s: "IsSeparator (last a)" "a \<noteq> []" using assms(6) nth_mem [of m a] by (auto simp: before_base_def)
    then have "m \<noteq> length a - 1" using m' dot_no_separator by (auto simp: last_conv_nth)
    then show ?thesis using find_last_of_end [OF s(2,1)] m'(1) by simp
  qed
  have none: "ExtensionSeparatorPosition (a @ b) = Some (length a + d)"
    if z: "length a + d \<noteq> 0" and r: "str_rfind (a @ b) [kExtensionSeparator] (length a + d - 1) =
      (if a = [] then None else str_rfind a [kExtensionSeparator] (length a - 1))"
  proof (cases "if a = [] then None else str_rfind a [kExtensionSeparator] (length a - 1)")
    case None
    then show ?thesis using z r by (simp only: ExtensionSeparatorPosition_def p option.case if_False)
  next
    case (Some m)
    then have "case find_last_of a kSeparators of None \<Rightarrow> False | Some l \<Rightarrow> m < l" using before by (simp split: if_splits)
    then show ?thesis using z r Some by (simp only: ExtensionSeparatorPosition_def p option.case seps if_False if_True)
  qed
  show ?thesis
  proof (cases d)
    case 0
    have "str_rfind (a @ b) [kExtensionSeparator] (length a - 1) = str_rfind a [kExtensionSeparator] (length a - 1)" if "a \<noteq> []"
      using that by (intro str_rfind_first) simp
    then show ?thesis using none 0 d p by (cases "a = []") (auto simp: ExtensionSeparatorPosition_def)
  next
    case (Suc e)
    have r: "str_rfind (a @ b) [kExtensionSeparator] (length a + d - 1) =
        (case str_rfind b [kExtensionSeparator] e of Some i \<Rightarrow> Some (length a + i)
         | None \<Rightarrow> if a = [] then None else str_rfind a [kExtensionSeparator] (length a - 1))"
      using str_rfind_second [of a b kExtensionSeparator e] Suc by simp
    show ?thesis
    proof (cases "str_rfind b [kExtensionSeparator] e")
      case None
      then show ?thesis using none r Suc d by (simp add: ExtensionSeparatorPosition_def)
    next
      case (Some j)
      have "\<not> (case find_last_of a kSeparators of None \<Rightarrow> False | Some l \<Rightarrow> length a + j < l)"
        using find_last_of_bound by (fastforce split: option.splits)
      then show ?thesis using Some r Suc d p seps by (auto simp: ExtensionSeparatorPosition_def)
    qed
  qed
qed


text \<open>A path without trailing separators is what precedes its base name and the base name.\<close>

lemma BaseName_cut:
  assumes "StripTrailingSeparators p = p" "kExtensionSeparator \<in> set (BaseName p)"
  shows "\<exists>a. p = a @ BaseName p \<and> before_base a \<and> (\<forall>x \<in> set (BaseName p). \<not> IsSeparator x)"
proof -
  let ?r = "rest_of p" let ?d = "fst (split_last ?r)" let ?b = "snd (split_last ?r)"
  have "letter_of p @ strip_rest ?r = letter_of p @ ?r" using assms(1) letter_rest [of p] by (simp add: Strip_spec)
  then have s: "strip_rest ?r = ?r" by simp
  have "?b \<noteq> []"
  proof
    assume b: "?b = []"
    then have "BaseName p = ?r" "?d = ?r" using s split_last_append [of ?r] by (simp_all add: BaseName_spec base_rest_def Let_def)
    moreover from this have "?r \<noteq> []" using assms(2) by auto
    ultimately have "IsSeparator (last ?r)" using split_last_fst [of ?r] by simp
    then have "rstrip ?r = []" using rstrip_last [of ?r] s by (auto simp: strip_rest_def split: if_splits)
    then show False using assms(2) \<open>BaseName p = ?r\<close> dot_no_separator by (auto simp: rstrip_empty)
  qed
  then have b: "BaseName p = ?b" using s by (simp add: BaseName_spec base_rest_def Let_def)
  have "p = (letter_of p @ ?d) @ ?b" using letter_rest [of p] split_last_append [of ?r] by simp
  moreover have "before_base (letter_of p @ ?d)"
  proof (cases "?d = []")
    case True
    have "FindDriveLetter p \<noteq> None \<Longrightarrow> letter_of p = [p ! 0, p ! 1]"
      by (cases p; cases "tl p") (auto simp: letter_of_def past_letter_def FindDriveLetter_def split: if_splits)
    moreover have "FindDriveLetter p = None \<Longrightarrow> letter_of p = []" by (simp add: letter_of_def past_letter_def)
    ultimately have "kExtensionSeparator \<notin> set (letter_of p)"
      by (cases "FindDriveLetter p") (auto simp: FindDriveLetter_def kExtensionSeparator_def split: if_splits)
    then show ?thesis using True by (simp add: before_base_def)
  next
    case False
    then show ?thesis using split_last_fst [of ?r] by (simp add: before_base_def)
  qed
  moreover have "\<forall>x \<in> set ?b. \<not> IsSeparator x" using split_last_snd [of ?r] by (simp add: list_all_iff)
  ultimately show ?thesis unfolding b by blast
qed

lemma FinalExtensionSeparatorPosition_dot:
  "FinalExtensionSeparatorPosition b = Some d \<Longrightarrow> d < length b \<and> kExtensionSeparator \<in> set b \<and> b \<noteq> kCurrentDirectory \<and> b \<noteq> kParentDirectory"
  using str_rfind_at [of b kExtensionSeparator "length b" d]
  by (auto simp: in_set_conv_nth FinalExtensionSeparatorPosition_def split: if_splits)

lemma ExtensionSeparatorPosition_dot:
  assumes "ExtensionSeparatorPosition b = Some d"
  shows "d < length b \<and> kExtensionSeparator \<in> set b \<and> b \<noteq> kCurrentDirectory \<and> b \<noteq> kParentDirectory"
proof -
  obtain e where e: "FinalExtensionSeparatorPosition b = Some e"
    using assms by (auto simp: ExtensionSeparatorPosition_def split: option.splits)
  have "d \<le> e"
  proof (cases "e = 0")
    case False
    have "m \<le> e" if "str_rfind b [kExtensionSeparator] (e - 1) = Some m" for m using str_rfind_at [OF that] by linarith
    then show ?thesis using assms e False by (auto simp: ExtensionSeparatorPosition_def split: option.splits if_splits)
  qed (use assms e in \<open>simp add: ExtensionSeparatorPosition_def\<close>)
  then show ?thesis using FinalExtensionSeparatorPosition_dot [OF e] by auto
qed

text \<open>The two ways of cutting an extension share this shape, with the position as parameter.\<close>

lemma cut_extension:
  assumes p: "StripTrailingSeparators p = p" "0 \<notin> set p"
    and dot: "\<And>b d. pos b = Some d \<Longrightarrow> d < length b \<and> kExtensionSeparator \<in> set b \<and> b \<noteq> kCurrentDirectory \<and> b \<noteq> kParentDirectory"
    and shift: "\<And>a b. \<lbrakk>kExtensionSeparator \<in> set b; b \<noteq> kCurrentDirectory; b \<noteq> kParentDirectory; a @ b \<noteq> kCurrentDirectory;
      a @ b \<noteq> kParentDirectory; before_base a; \<forall>x \<in> set b. \<not> IsSeparator x\<rbrakk> \<Longrightarrow> pos (a @ b) = map_option ((+) (length a)) (pos b)"
  defines "ext \<equiv> (case pos (BaseName p) of None \<Rightarrow> [] | Some d \<Rightarrow> drop d (BaseName p))"
  shows "(if ext = [] then p else case pos p of None \<Rightarrow> p | Some d \<Rightarrow> FilePath (substr p 0 d)) @ ext = p"
proof (cases "pos (BaseName p)")
  case (Some d)
  let ?b = "BaseName p"
  note b = dot [OF Some]
  then obtain a where a: "p = a @ ?b" "before_base a" "\<forall>x \<in> set ?b. \<not> IsSeparator x" using BaseName_cut [OF p(1)] by blast
  have "a @ ?b \<noteq> kCurrentDirectory \<and> a @ ?b \<noteq> kParentDirectory"
    using b by (auto simp: kCurrentDirectory_def kParentDirectory_def Cons_eq_append_conv append_eq_Cons_conv)
  then have "pos p = Some (length a + d)" using shift [of ?b a] a b Some by simp
  moreover have "ext = drop d ?b" "ext \<noteq> []" using Some b by (simp_all add: ext_def)
  moreover have "substr p 0 (length a + d) = a @ take d ?b" by (subst a(1)) (simp add: substr_def)
  moreover have "0 \<notin> set (a @ take d ?b)" using p(2) a(1) by (metis Un_iff in_set_takeD set_append)
  moreover from this have "FilePath (a @ take d ?b) = a @ take d ?b" by (rule no_terminator(2))
  ultimately show ?thesis using a(1) by simp
qed (simp add: ext_def)

text \<open>
  A path without trailing separators is its name and its extension put together, for the final
  extension and for the one that may be double.
\<close>

theorem RemoveExtension_Extension:
  assumes "StripTrailingSeparators p = p" "0 \<notin> set p"
  shows "RemoveExtension p @ Extension p = p \<and> RemoveFinalExtension p @ FinalExtension p = p"
proof
  have e: "Extension p = (case ExtensionSeparatorPosition (BaseName p) of None \<Rightarrow> [] | Some d \<Rightarrow> drop d (BaseName p))"
    by (simp add: Extension_def Let_def)
  show "RemoveExtension p @ Extension p = p" unfolding RemoveExtension_def e
    by (rule cut_extension [OF assms]) (fact ExtensionSeparatorPosition_dot ExtensionSeparatorPosition_base)+
  have f: "FinalExtension p = (case FinalExtensionSeparatorPosition (BaseName p) of None \<Rightarrow> [] | Some d \<Rightarrow> drop d (BaseName p))"
    by (simp add: FinalExtension_def Let_def)
  show "RemoveFinalExtension p @ FinalExtension p = p" unfolding RemoveFinalExtension_def f
    by (rule cut_extension [OF assms]) (fact FinalExtensionSeparatorPosition_dot, rule FinalExtensionSeparatorPosition_base)
qed

theorem RemoveExtension_Extension_witness:
  "RemoveExtension [0x61, 0x2E, 0x62] @ Extension [0x61, 0x2E, 0x62] = [0x61, 0x2E, 0x62] \<and>
   RemoveFinalExtension [0x61, 0x2E, 0x62] @ FinalExtension [0x61, 0x2E, 0x62] = [0x61, 0x2E, 0x62]"
proof (rule RemoveExtension_Extension)
  show "StripTrailingSeparators [0x61, 0x2E, 0x62] = [0x61, 0x2E, 0x62]" by code_simp
qed simp

text \<open>
  With a trailing separator it is not: \<^verbatim>\<open>Extension\<close> looks at the base name, \<^verbatim>\<open>RemoveExtension\<close> at the whole
  string, in which the separator hides the double extension.
\<close>

theorem RemoveExtension_trailing_separator:
  "let p = [0x78, 0x2E, 0x74, 0x61, 0x72, 0x2E, 0x67, 0x7A, 0x5C]
   in RemoveExtension p = [0x78, 0x2E, 0x74, 0x61, 0x72] \<and> Extension p = [0x2E, 0x74, 0x61, 0x72, 0x2E, 0x67, 0x7A] \<and>
      InsertBeforeExtension p [0x31] =
        [0x78, 0x2E, 0x74, 0x61, 0x72, 0x31, 0x2E, 0x74, 0x61, 0x72, 0x2E, 0x67, 0x7A]"
  by code_simp

end
