(* ===== verification/Environment.thy ===== *)
theory Environment
  imports Command_Line
begin

text \<open>
  Environment variables (\<^verbatim>\<open>base/environment.cc\<close>, Windows). The two calls of Windows are the parameter
  \<open>api\<close>, and the environment they work on, of any type, is the state.
\<close>

subsection \<open>Variables\<close>

text \<open>The value is \<open>None\<close> for a name that is not set, the result of the setter whether it succeeded.\<close>

record 'e environment_api =
  GetEnvironmentVariable :: "wstring \<Rightarrow> 'e \<Rightarrow> wstring option"
  SetEnvironmentVariable :: "wstring \<Rightarrow> wstring option \<Rightarrow> 'e \<Rightarrow> bool \<times> 'e"

text \<open>What a callee sees of a string given as a pointer.\<close>

definition c_str :: "'a::zero list \<Rightarrow> 'a list" where
  "c_str s = takeWhile (\<lambda>c. c \<noteq> 0) s"

definition ToUpperASCII :: "byte \<Rightarrow> byte" where
  "ToUpperASCII c = (if c \<ge> 0x61 \<and> c \<le> 0x7A then c + (0x41 - 0x61) else c)"

definition StringToUpperASCII :: "byte list \<Rightarrow> byte list" where
  "StringToUpperASCII s = map ToUpperASCII s"

definition StringToLowerASCII :: "byte list \<Rightarrow> byte list" where
  "StringToLowerASCII s = map ToLowerASCII s"

text \<open>Without a buffer the call returns the size of the value with its terminator, 0 for no variable.\<close>

definition GetVarImpl :: "'e environment_api \<Rightarrow> byte list \<Rightarrow> 'e \<Rightarrow> byte list option" where
  "GetVarImpl api variable_name env =
     (let found = GetEnvironmentVariable api (c_str (UTF8ToWide variable_name)) env;
          value_length = (case found of None \<Rightarrow> 0 | Some v \<Rightarrow> length v + 1)
      in if value_length = 0 then None else map_option (\<lambda>v. WideToUTF8 (c_str v)) found)"

text \<open>The first character of an empty name is the terminator.\<close>

definition GetVar :: "'e environment_api \<Rightarrow> byte list \<Rightarrow> 'e \<Rightarrow> byte list option" where
  "GetVar api variable_name env =
     (case GetVarImpl api variable_name env of
        Some result \<Rightarrow> Some result
      | None \<Rightarrow>
          let first_char = (variable_name @ [0]) ! 0
          in if first_char \<ge> 0x61 \<and> first_char \<le> 0x7A then
               GetVarImpl api (c_str (StringToUpperASCII variable_name)) env
             else if first_char \<ge> 0x41 \<and> first_char \<le> 0x5A then
               GetVarImpl api (c_str (StringToLowerASCII variable_name)) env
             else None)"

definition HasVar :: "'e environment_api \<Rightarrow> byte list \<Rightarrow> 'e \<Rightarrow> bool" where
  "HasVar api variable_name env \<longleftrightarrow> GetVar api variable_name env \<noteq> None"

definition SetVarImpl :: "'e environment_api \<Rightarrow> byte list \<Rightarrow> byte list \<Rightarrow> 'e \<Rightarrow> bool \<times> 'e" where
  "SetVarImpl api variable_name new_value env =
     SetEnvironmentVariable api (c_str (UTF8ToWide variable_name)) (Some (c_str (UTF8ToWide new_value))) env"

definition SetVar :: "'e environment_api \<Rightarrow> byte list \<Rightarrow> byte list \<Rightarrow> 'e \<Rightarrow> bool \<times> 'e" where
  "SetVar api variable_name new_value env = SetVarImpl api variable_name new_value env"

definition UnSetVarImpl :: "'e environment_api \<Rightarrow> byte list \<Rightarrow> 'e \<Rightarrow> bool \<times> 'e" where
  "UnSetVarImpl api variable_name env = SetEnvironmentVariable api (c_str (UTF8ToWide variable_name)) None env"

definition UnSetVar :: "'e environment_api \<Rightarrow> byte list \<Rightarrow> 'e \<Rightarrow> bool \<times> 'e" where
  "UnSetVar api variable_name env = UnSetVarImpl api variable_name env"

subsection \<open>Environment blocks\<close>

text \<open>
  Two scans over the memory behind a pointer, the list; reading past its end is a failure. The changes
  are a \<^verbatim>\<open>std::map\<close>, listed in the order of its keys.
\<close>

fun key_end :: "wstring \<Rightarrow> nat result" where
  "key_end [] = Inl (Fatal ''input'')"
| "key_end (c # cs) = (if c \<noteq> 0 \<and> c \<noteq> 0x3D then rbind (key_end cs) (\<lambda>cur. Inr (cur + 1)) else Inr 0)"

fun line_end :: "wstring \<Rightarrow> nat result" where
  "line_end [] = Inl (Fatal ''input'')"
| "line_end (c # cs) = (if c \<noteq> 0 then rbind (line_end cs) (\<lambda>cur. Inr (cur + 1)) else Inr 0)"

definition ParseEnvLine :: "wstring \<Rightarrow> (nat \<times> wstring) result" where
  "ParseEnvLine input =
     rbind (key_end input) (\<lambda>cur.
       rbind (line_end (drop cur input)) (\<lambda>n. Inr (cur + n + 1, take cur input)))"

function alter_loop :: "wstring \<Rightarrow> (wstring \<times> wstring) list \<Rightarrow> nat \<Rightarrow> wstring \<Rightarrow> wstring result" where
  "alter_loop env changes cur_env result =
     (if cur_env \<ge> length env then Inl (Fatal ''env'')
      else if env ! cur_env = 0 then Inr result
      else rbind (ParseEnvLine (drop cur_env env)) (\<lambda>line.
        alter_loop env changes (cur_env + fst line)
          (if map_of changes (snd line) = None then result @ take (fst line) (drop cur_env env) else result)))"
  by pat_completeness auto

termination
  by (relation "measure (\<lambda>(env, _, cur_env, _). length env - cur_env)") (auto simp: ParseEnvLine_def rsimps)

declare alter_loop.simps [simp del]

fun append_changes :: "(wstring \<times> wstring) list \<Rightarrow> wstring \<Rightarrow> wstring" where
  "append_changes [] result = result"
| "append_changes ((k, v) # cs) result =
     append_changes cs (if v \<noteq> [] then result @ k @ [0x3D] @ v @ [0] else result)"

definition AlterEnvironment :: "wstring \<Rightarrow> (wstring \<times> wstring) list \<Rightarrow> wstring result" where
  "AlterEnvironment env changes =
     rbind (alter_loop env changes 0 []) (\<lambda>kept.
       let result = append_changes changes kept;
           result1 = (if result = [] then result @ [0] else result)
       in Inr (result1 @ [0]))"

subsection \<open>What altering a block does\<close>

text \<open>A block of lines, the name of a line, and what a block says of a variable.\<close>

definition block :: "wstring list \<Rightarrow> wstring" where
  "block ls = concat (map (\<lambda>l. l @ [0]) ls) @ [0]"

definition line_key :: "wstring \<Rightarrow> wstring" where
  "line_key l = takeWhile (\<lambda>c. c \<noteq> 0x3D) l"

definition is_line :: "wstring \<Rightarrow> bool" where
  "is_line l \<longleftrightarrow> l \<noteq> [] \<and> 0 \<notin> set l"

definition variable :: "wstring list \<Rightarrow> wstring \<Rightarrow> wstring option" where
  "variable ls k = map_option (drop (length k + 1)) (find (\<lambda>l. line_key l = k \<and> 0x3D \<in> set l) ls)"

lemma key_end_line: "0 \<notin> set l \<Longrightarrow> key_end (l @ 0 # t) = Inr (length (line_key l))"
  by (induction l) (auto simp: line_key_def)

lemma line_end_line: "0 \<notin> set l \<Longrightarrow> line_end (l @ 0 # t) = Inr (length l)"
  by (induction l) auto

lemma ParseEnvLine_line: "0 \<notin> set l \<Longrightarrow> ParseEnvLine (l @ 0 # t) = Inr (length l + 1, line_key l)"
proof -
  assume l: "0 \<notin> set l"
  let ?n = "length (line_key l)"
  have n: "?n \<le> length l" "take ?n l = line_key l"
    by (simp_all add: line_key_def length_takeWhile_le flip: takeWhile_eq_take)
  then have "drop ?n (l @ 0 # t) = drop ?n l @ 0 # t" "take ?n (l @ 0 # t) = line_key l" by simp_all
  moreover have "line_end (drop ?n l @ 0 # t) = Inr (length l - ?n)"
    using line_end_line [of "drop ?n l" t] l by (auto dest: in_set_dropD)
  ultimately show ?thesis using n by (simp add: ParseEnvLine_def key_end_line [OF l])
qed

lemma alter_loop_line:
  assumes "drop n env = l @ 0 # t" "is_line l"
  shows "alter_loop env changes n result =
    alter_loop env changes (n + (length l + 1)) (if map_of changes (line_key l) = None then result @ l @ [0] else result)"
proof -
  have n: "n < length env" using assms(1) by (metis append_is_Nil_conv drop_all leI list.distinct(1))
  moreover have "env ! n = l ! 0" using assms n hd_drop_conv_nth [OF n] by (simp add: is_line_def hd_append hd_conv_nth)
  moreover have "l ! 0 \<noteq> 0" using assms(2) by (metis is_line_def length_greater_0_conv nth_mem)
  ultimately show ?thesis using assms
    by (subst alter_loop.simps) (simp add: ParseEnvLine_line is_line_def)
qed

lemma alter_loop_block:
  "list_all is_line ls \<Longrightarrow>
   alter_loop (pre @ block ls) changes (length pre) result =
     Inr (result @ concat (map (\<lambda>l. l @ [0]) (filter (\<lambda>l. map_of changes (line_key l) = None) ls)))"
proof (induction ls arbitrary: pre result)
  case Nil
  show ?case by (subst alter_loop.simps) (simp add: block_def)
next
  case (Cons l ls)
  have "alter_loop (pre @ block (l # ls)) changes (length pre) result =
      alter_loop ((pre @ l @ [0]) @ block ls) changes (length (pre @ l @ [0]))
        (if map_of changes (line_key l) = None then result @ l @ [0] else result)"
    using alter_loop_line [of "length pre" "pre @ block (l # ls)" l "block ls"] Cons.prems by (simp add: block_def)
  also have "\<dots> = Inr (result @ concat (map (\<lambda>l. l @ [0]) (filter (\<lambda>l. map_of changes (line_key l) = None) (l # ls))))"
    using Cons by (subst Cons.IH) simp_all
  finally show ?case .
qed

definition new_lines :: "(wstring \<times> wstring) list \<Rightarrow> wstring list" where
  "new_lines changes = map (\<lambda>(k, v). k @ [0x3D] @ v) (filter (\<lambda>(k, v). v \<noteq> []) changes)"

lemma append_changes_lines:
  "append_changes changes result = result @ concat (map (\<lambda>l. l @ [0]) (new_lines changes))"
  by (induction changes result rule: append_changes.induct) (simp_all add: new_lines_def)

text \<open>What the caller of \<^verbatim>\<open>AlterEnvironment\<close> asks of a variable.\<close>

definition changed :: "(wstring \<times> wstring) list \<Rightarrow> wstring list \<Rightarrow> wstring \<Rightarrow> wstring option" where
  "changed changes ls k =
     (case map_of changes k of None \<Rightarrow> variable ls k | Some v \<Rightarrow> if v = [] then None else Some v)"

lemma line_key_new: "0x3D \<notin> set k \<Longrightarrow> line_key (k @ 0x3D # v) = k"
  by (induction k) (auto simp: line_key_def)

lemma variable_append:
  "variable (as @ bs) k = (case variable as k of None \<Rightarrow> variable bs k | Some v \<Rightarrow> Some v)"
  by (induction as) (auto simp: variable_def)

lemma variable_kept:
  "variable (filter (\<lambda>l. map_of changes (line_key l) = None) ls) k = (if map_of changes k = None then variable ls k else None)"
  by (induction ls) (auto simp: variable_def)

lemma variable_new:
  "\<forall>(k, v) \<in> set changes. 0x3D \<notin> set k \<Longrightarrow> distinct (map fst changes) \<Longrightarrow>
   variable (new_lines changes) k = (case map_of changes k of None \<Rightarrow> None | Some v \<Rightarrow> if v = [] then None else Some v)"
proof (induction changes)
  case (Cons c changes)
  obtain k' v where c: "c = (k', v)" by fastforce
  have "map_of changes k' = None" using Cons.prems(2) by (simp add: c map_of_eq_None_iff)
  moreover have "line_key (k' @ 0x3D # v) = k'" using Cons.prems(1) by (intro line_key_new) (simp add: c)
  ultimately show ?case using Cons by (auto simp: c new_lines_def variable_def)
qed (simp add: new_lines_def variable_def)

text \<open>
  C32: on an environment block, \<^verbatim>\<open>AlterEnvironment\<close> reads no further than the block and returns a block
  again, terminated twice even when it is empty, whose variables are those of the block with the
  changes applied, an empty value removing the variable.
\<close>

theorem AlterEnvironment_correct:
  assumes "list_all is_line ls" "list_all (\<lambda>(k, v). 0x3D \<notin> set k \<and> 0 \<notin> set k \<and> 0 \<notin> set v) changes" "distinct (map fst changes)"
  shows "\<exists>out. AlterEnvironment (block ls) changes = Inr (if out = [] then [0, 0] else block out) \<and> list_all is_line out \<and>
    variable out = changed changes ls"
proof -
  let ?kept = "filter (\<lambda>l. map_of changes (line_key l) = None) ls" and ?new = "new_lines changes"
  have "AlterEnvironment (block ls) changes = Inr (if ?kept @ ?new = [] then [0, 0] else block (?kept @ ?new))"
  proof -
    have "alter_loop (block ls) changes 0 [] = Inr (concat (map (\<lambda>l. l @ [0]) ?kept))"
      using alter_loop_block [OF assms(1), of "[]"] by simp
    moreover have "concat (map (\<lambda>l. l @ [0]) ?kept) @ concat (map (\<lambda>l. l @ [0]) ?new) = concat (map (\<lambda>l. l @ [0]) (?kept @ ?new))"
      by (simp only: map_append concat_append)
    moreover have "concat (map (\<lambda>l. l @ [0]) out) = [] \<longleftrightarrow> out = []" for out :: "wstring list" by (cases out) auto
    ultimately show ?thesis by (simp only: AlterEnvironment_def rbind_simps append_changes_lines Let_def) (simp add: block_def)
  qed
  moreover have "list_all is_line (?kept @ ?new)"
    using assms(1,2) by (auto simp: list_all_iff is_line_def new_lines_def)
  moreover have "variable (?kept @ ?new) k = changed changes ls k" for k
  proof -
    have "\<forall>(k, v) \<in> set changes. 0x3D \<notin> set k" using assms(2) by (auto simp: list_all_iff)
    then show ?thesis using variable_new [OF _ assms(3), of k]
      by (simp add: variable_append variable_kept changed_def split: option.split)
  qed
  then have "variable (?kept @ ?new) = changed changes ls" by (rule ext)
  ultimately show ?thesis by blast
qed

text \<open>Changing \<^verbatim>\<open>A\<close> and removing \<^verbatim>\<open>B\<close>; removing the only variable.\<close>

theorem AlterEnvironment_correct_witness:
  "AlterEnvironment (block [[0x41, 0x3D, 0x31], [0x42, 0x3D, 0x32]]) [([0x41], [0x33]), ([0x42], [])] = Inr (block [[0x41, 0x3D, 0x33]]) \<and>
   (\<exists>out. AlterEnvironment (block [[0x41, 0x3D, 0x31]]) [([0x41], [])] = Inr (if out = [] then [0, 0] else block out) \<and>
     list_all is_line out \<and> variable out = changed [([0x41], [])] [[0x41, 0x3D, 0x31]])"
proof
  show "AlterEnvironment (block [[0x41, 0x3D, 0x31], [0x42, 0x3D, 0x32]]) [([0x41], [0x33]), ([0x42], [])] = Inr (block [[0x41, 0x3D, 0x33]])"
    by code_simp
  show "\<exists>out. AlterEnvironment (block [[0x41, 0x3D, 0x31]]) [([0x41], [])] = Inr (if out = [] then [0, 0] else block out) \<and>
     list_all is_line out \<and> variable out = changed [([0x41], [])] [[0x41, 0x3D, 0x31]]"
    by (rule AlterEnvironment_correct) (simp_all add: is_line_def)
qed

end
