(* ===== verification/Values.thy ===== *)
theory Values
  imports Complex_Main String_Util Utf_Conversions "HOL-Library.List_Lexorder"
begin

text \<open>
  Generic values (\<^verbatim>\<open>base/values.cc\<close>): trees of dictionaries and lists over scalars. A dictionary is a
  \<^verbatim>\<open>std::map\<close> from narrow strings, a list of entries in increasing order of the keys (compared byte
  by byte). Values own their children and are never shared, so an operation on a child found in a
  dictionary is the operation on the child, put back; deleting and handing over are the value's
  disappearance from the tree. A finite double is its real value; a \<^verbatim>\<open>false\<close> result with an output
  parameter is \<open>None\<close>.
\<close>

datatype val =
    NullValue
  | BooleanValue bool
  | IntegerValue int
  | DoubleValue real
  | StringValue str
  | BinaryValue "byte list"
  | DictionaryValue "(str \<times> val) list"
  | ListValue "val list"

type_synonym dict = "(str \<times> val) list"

datatype Type = TYPE_NULL | TYPE_BOOLEAN | TYPE_INTEGER | TYPE_DOUBLE | TYPE_STRING | TYPE_BINARY | TYPE_DICTIONARY | TYPE_LIST

fun GetType :: "val \<Rightarrow> Type" where
  "GetType NullValue = TYPE_NULL"
| "GetType (BooleanValue b) = TYPE_BOOLEAN"
| "GetType (IntegerValue i) = TYPE_INTEGER"
| "GetType (DoubleValue x) = TYPE_DOUBLE"
| "GetType (StringValue s) = TYPE_STRING"
| "GetType (BinaryValue b) = TYPE_BINARY"
| "GetType (DictionaryValue d) = TYPE_DICTIONARY"
| "GetType (ListValue xs) = TYPE_LIST"

definition IsType :: "val \<Rightarrow> Type \<Rightarrow> bool" where "IsType v t \<longleftrightarrow> GetType v = t"

subsection \<open>Scalars\<close>

text \<open>A double that is not finite is \<open>None\<close>.\<close>

definition new_FundamentalValue :: "real option \<Rightarrow> val result" where
  "new_FundamentalValue x = (case x of None \<Rightarrow> Inl (Dcheck ''NOTREACHED'') | Some r \<Rightarrow> Inr (DoubleValue r))"

definition new_StringValue :: "str \<Rightarrow> val result" where
  "new_StringValue s = require (IsStringUTF8 s) (Dcheck ''IsStringUTF8(in_value)'') (Inr (StringValue s))"

definition new_StringValue16 :: "char16 list \<Rightarrow> val" where
  "new_StringValue16 s = StringValue (WideToUTF8 s)"

fun GetAsBoolean :: "val \<Rightarrow> bool option" where
  "GetAsBoolean (BooleanValue b) = Some b"
| "GetAsBoolean _ = None"

fun GetAsInteger :: "val \<Rightarrow> int option" where
  "GetAsInteger (IntegerValue i) = Some i"
| "GetAsInteger _ = None"

fun GetAsDouble :: "val \<Rightarrow> real option" where
  "GetAsDouble (DoubleValue x) = Some x"
| "GetAsDouble (IntegerValue i) = Some (of_int i)"
| "GetAsDouble _ = None"

fun GetAsString :: "val \<Rightarrow> str option" where
  "GetAsString (StringValue s) = Some s"
| "GetAsString _ = None"

fun GetAsString16 :: "val \<Rightarrow> char16 list option" where
  "GetAsString16 (StringValue s) = Some (UTF8ToWide s)"
| "GetAsString16 _ = None"

fun GetAsBinary :: "val \<Rightarrow> byte list option" where
  "GetAsBinary (BinaryValue b) = Some b"
| "GetAsBinary _ = None"

fun GetAsDictionary :: "val \<Rightarrow> dict option" where
  "GetAsDictionary (DictionaryValue d) = Some d"
| "GetAsDictionary _ = None"

fun GetAsList :: "val \<Rightarrow> val list option" where
  "GetAsList (ListValue xs) = Some xs"
| "GetAsList _ = None"

subsection \<open>Comparing and copying\<close>

fun Equals :: "val \<Rightarrow> val \<Rightarrow> bool" and dict_Equals :: "dict \<Rightarrow> dict \<Rightarrow> bool" and
  list_Equals :: "val list \<Rightarrow> val list \<Rightarrow> bool" where
  "Equals NullValue other = IsType other TYPE_NULL"
| "Equals (BooleanValue b) other =
     (if GetType other \<noteq> TYPE_BOOLEAN then False
      else (case GetAsBoolean other of None \<Rightarrow> False | Some rhs \<Rightarrow> b = rhs))"
| "Equals (IntegerValue i) other =
     (if GetType other \<noteq> TYPE_INTEGER then False
      else (case GetAsInteger other of None \<Rightarrow> False | Some rhs \<Rightarrow> i = rhs))"
| "Equals (DoubleValue x) other =
     (if GetType other \<noteq> TYPE_DOUBLE then False
      else (case GetAsDouble other of None \<Rightarrow> False | Some rhs \<Rightarrow> x = rhs))"
| "Equals (StringValue s) other =
     (if GetType other \<noteq> TYPE_STRING then False
      else (case GetAsString other of None \<Rightarrow> False | Some rhs \<Rightarrow> s = rhs))"
| "Equals (BinaryValue b) other =
     (case other of BinaryValue b' \<Rightarrow> if length b' \<noteq> length b then False else b = b' | _ \<Rightarrow> False)"
| "Equals (DictionaryValue d) other = (case other of DictionaryValue d' \<Rightarrow> dict_Equals d d' | _ \<Rightarrow> False)"
| "Equals (ListValue xs) other = (case other of ListValue ys \<Rightarrow> list_Equals xs ys | _ \<Rightarrow> False)"
| "dict_Equals ((k, v) # d) ((k', v') # d') = (if k \<noteq> k' \<or> \<not> Equals v v' then False else dict_Equals d d')"
| "dict_Equals [] [] = True"
| "dict_Equals _ _ = False"
| "list_Equals (x # xs) (y # ys) = (if \<not> Equals x y then False else list_Equals xs ys)"
| "list_Equals [] [] = True"
| "list_Equals _ _ = False"

text \<open>\<^verbatim>\<open>Value::Equals\<close> of two pointers, either of them possibly NULL.\<close>

definition Value_Equals :: "val option \<Rightarrow> val option \<Rightarrow> bool" where
  "Value_Equals a b =
     (if a = None \<and> b = None then True
      else if (a = None) \<noteq> (b = None) then False
      else (case (a, b) of (Some v, Some w) \<Rightarrow> Equals v w | _ \<Rightarrow> True))"

text \<open>\<^verbatim>\<open>std::map\<close>: \<^verbatim>\<open>insert\<close> that replaces, \<^verbatim>\<open>find\<close> (\<^const>\<open>map_of\<close>) and \<^verbatim>\<open>erase\<close>.\<close>

fun SetWithoutPathExpansion :: "str \<Rightarrow> val \<Rightarrow> dict \<Rightarrow> dict" where
  "SetWithoutPathExpansion key v [] = [(key, v)]"
| "SetWithoutPathExpansion key v ((k, w) # d) =
     (if key = k then (key, v) # d else if key < k then (key, v) # (k, w) # d
      else (k, w) # SetWithoutPathExpansion key v d)"

fun erase_key :: "str \<Rightarrow> dict \<Rightarrow> dict" where
  "erase_key key [] = []"
| "erase_key key ((k, w) # d) = (if key = k then d else (k, w) # erase_key key d)"

fun DeepCopy :: "val \<Rightarrow> val result" and dict_DeepCopy :: "dict \<Rightarrow> dict \<Rightarrow> dict result" and
  list_DeepCopy :: "val list \<Rightarrow> val list \<Rightarrow> val list result" where
  "DeepCopy NullValue = Inr NullValue"
| "DeepCopy (BooleanValue b) = Inr (BooleanValue b)"
| "DeepCopy (IntegerValue i) = Inr (IntegerValue i)"
| "DeepCopy (DoubleValue x) = new_FundamentalValue (Some x)"
| "DeepCopy (StringValue s) = new_StringValue s"
| "DeepCopy (BinaryValue b) = Inr (BinaryValue b)"
| "DeepCopy (DictionaryValue d) = rbind (dict_DeepCopy d []) (\<lambda>r. Inr (DictionaryValue r))"
| "DeepCopy (ListValue xs) = rbind (list_DeepCopy xs []) (\<lambda>r. Inr (ListValue r))"
| "dict_DeepCopy [] r = Inr r"
| "dict_DeepCopy ((k, v) # d) r = rbind (DeepCopy v) (\<lambda>c. dict_DeepCopy d (SetWithoutPathExpansion k c r))"
| "list_DeepCopy [] r = Inr r"
| "list_DeepCopy (v # xs) r = rbind (DeepCopy v) (\<lambda>c. list_DeepCopy xs (r @ [c]))"

text \<open>\<^verbatim>\<open>CopyWithoutEmptyChildren\<close>; \<open>None\<close> is NULL.\<close>

fun CopyWithoutEmptyChildren :: "val \<Rightarrow> val option result" and
  dict_CopyWithout :: "dict \<Rightarrow> dict \<Rightarrow> dict result" and
  list_CopyWithout :: "val list \<Rightarrow> val list \<Rightarrow> val list result" where
  "CopyWithoutEmptyChildren (ListValue xs) =
     rbind (list_CopyWithout xs []) (\<lambda>copy. Inr (if copy \<noteq> [] then Some (ListValue copy) else None))"
| "CopyWithoutEmptyChildren (DictionaryValue d) =
     rbind (dict_CopyWithout d []) (\<lambda>copy. Inr (if copy \<noteq> [] then Some (DictionaryValue copy) else None))"
| "CopyWithoutEmptyChildren NullValue = rbind (DeepCopy NullValue) (\<lambda>c. Inr (Some c))"
| "CopyWithoutEmptyChildren (BooleanValue b) = rbind (DeepCopy (BooleanValue b)) (\<lambda>c. Inr (Some c))"
| "CopyWithoutEmptyChildren (IntegerValue i) = rbind (DeepCopy (IntegerValue i)) (\<lambda>c. Inr (Some c))"
| "CopyWithoutEmptyChildren (DoubleValue x) = rbind (DeepCopy (DoubleValue x)) (\<lambda>c. Inr (Some c))"
| "CopyWithoutEmptyChildren (StringValue s) = rbind (DeepCopy (StringValue s)) (\<lambda>c. Inr (Some c))"
| "CopyWithoutEmptyChildren (BinaryValue b) = rbind (DeepCopy (BinaryValue b)) (\<lambda>c. Inr (Some c))"
| "dict_CopyWithout [] copy = Inr copy"
| "dict_CopyWithout ((k, v) # d) copy =
     rbind (CopyWithoutEmptyChildren v) (\<lambda>c. dict_CopyWithout d
       (case c of None \<Rightarrow> copy | Some child \<Rightarrow> SetWithoutPathExpansion k child copy))"
| "list_CopyWithout [] copy = Inr copy"
| "list_CopyWithout (v # xs) copy =
     rbind (CopyWithoutEmptyChildren v) (\<lambda>c. list_CopyWithout xs
       (case c of None \<Rightarrow> copy | Some child \<Rightarrow> copy @ [child]))"

definition DeepCopyWithoutEmptyChildren :: "dict \<Rightarrow> dict result" where
  "DeepCopyWithoutEmptyChildren d =
     rbind (CopyWithoutEmptyChildren (DictionaryValue d)) (\<lambda>copy.
       Inr (case copy of Some (DictionaryValue c) \<Rightarrow> c | _ \<Rightarrow> []))"


subsection \<open>Dictionaries\<close>

definition utf8_check :: "str \<Rightarrow> 'a result \<Rightarrow> 'a result" where
  "utf8_check s k = require (IsStringUTF8 s) (Dcheck ''IsStringUTF8'') k"

definition HasKey :: "str \<Rightarrow> dict \<Rightarrow> bool result" where
  "HasKey key d = utf8_check key (Inr (map_of d key \<noteq> None))"

definition GetWithoutPathExpansion :: "str \<Rightarrow> dict \<Rightarrow> val option result" where
  "GetWithoutPathExpansion key d = utf8_check key (Inr (map_of d key))"

text \<open>A getter of a type: the entry, then the conversion.\<close>

definition get_as :: "(val \<Rightarrow> 'a option) \<Rightarrow> val option result \<Rightarrow> 'a option result" where
  "get_as conv r = rbind r (\<lambda>v. Inr (case v of None \<Rightarrow> None | Some w \<Rightarrow> conv w))"

definition GetDictionaryWithoutPathExpansion :: "str \<Rightarrow> dict \<Rightarrow> dict option result" where
  "GetDictionaryWithoutPathExpansion key d = get_as GetAsDictionary (GetWithoutPathExpansion key d)"

definition delimiter :: str where "delimiter = [0x2E]"

lemma str_find_delimiter: "str_find path delimiter 0 = Some p \<Longrightarrow> p < length path"
proof -
  assume "str_find path delimiter 0 = Some p"
  then have "find_sub delimiter path = Some p" by (simp add: str_find_def)
  then have "length (take (length delimiter) (drop p path)) = length delimiter"
    by (subst (asm) find_sub_Some) (auto simp: delimiter_def)
  then show "p < length path" by (simp add: delimiter_def)
qed

text \<open>
  \<^verbatim>\<open>Get\<close> of a path and \<^verbatim>\<open>GetDictionary\<close> of a path call each other; on a key without a delimiter, as the
  loop passes it, \<^verbatim>\<open>GetDictionary\<close> is \<open>GetDictionaryWithoutPathExpansion\<close> after one more test.
\<close>

function Get_loop :: "str \<Rightarrow> dict \<Rightarrow> val option result" where
  "Get_loop current_path current_dictionary =
     (case str_find current_path delimiter 0 of
        None \<Rightarrow> GetWithoutPathExpansion current_path current_dictionary
      | Some p \<Rightarrow>
          let key = take p current_path
          in utf8_check key (rbind (GetDictionaryWithoutPathExpansion key current_dictionary) (\<lambda>child.
               case child of None \<Rightarrow> Inr None | Some c \<Rightarrow> Get_loop (drop (p + 1) current_path) c)))"
  by pat_completeness auto

termination
  by (relation "measure (\<lambda>(path, _). length path)") (auto dest!: str_find_delimiter)

declare Get_loop.simps [simp del]

definition Get :: "str \<Rightarrow> dict \<Rightarrow> val option result" where
  "Get path d = utf8_check path (Get_loop path d)"

definition GetBoolean :: "str \<Rightarrow> dict \<Rightarrow> bool option result" where
  "GetBoolean path d = get_as GetAsBoolean (Get path d)"
definition GetInteger :: "str \<Rightarrow> dict \<Rightarrow> int option result" where
  "GetInteger path d = get_as GetAsInteger (Get path d)"
definition GetDouble :: "str \<Rightarrow> dict \<Rightarrow> real option result" where
  "GetDouble path d = get_as GetAsDouble (Get path d)"
definition GetString :: "str \<Rightarrow> dict \<Rightarrow> str option result" where
  "GetString path d = get_as GetAsString (Get path d)"
definition GetString16 :: "str \<Rightarrow> dict \<Rightarrow> char16 list option result" where
  "GetString16 path d = get_as GetAsString16 (Get path d)"
definition GetBinary :: "str \<Rightarrow> dict \<Rightarrow> byte list option result" where
  "GetBinary path d = get_as GetAsBinary (Get path d)"
definition GetDictionary :: "str \<Rightarrow> dict \<Rightarrow> dict option result" where
  "GetDictionary path d = get_as GetAsDictionary (Get path d)"
definition GetList :: "str \<Rightarrow> dict \<Rightarrow> val list option result" where
  "GetList path d = get_as GetAsList (Get path d)"

definition GetStringASCII :: "str \<Rightarrow> dict \<Rightarrow> str option result" where
  "GetStringASCII path d =
     rbind (GetString path d) (\<lambda>r. case r of None \<Rightarrow> Inr None
       | Some out \<Rightarrow> if \<not> IsStringASCII out then Inl (Dcheck ''NOTREACHED'') else Inr (Some out))"

definition GetBooleanWithoutPathExpansion :: "str \<Rightarrow> dict \<Rightarrow> bool option result" where
  "GetBooleanWithoutPathExpansion key d = get_as GetAsBoolean (GetWithoutPathExpansion key d)"
definition GetIntegerWithoutPathExpansion :: "str \<Rightarrow> dict \<Rightarrow> int option result" where
  "GetIntegerWithoutPathExpansion key d = get_as GetAsInteger (GetWithoutPathExpansion key d)"
definition GetDoubleWithoutPathExpansion :: "str \<Rightarrow> dict \<Rightarrow> real option result" where
  "GetDoubleWithoutPathExpansion key d = get_as GetAsDouble (GetWithoutPathExpansion key d)"
definition GetStringWithoutPathExpansion :: "str \<Rightarrow> dict \<Rightarrow> str option result" where
  "GetStringWithoutPathExpansion key d = get_as GetAsString (GetWithoutPathExpansion key d)"
definition GetString16WithoutPathExpansion :: "str \<Rightarrow> dict \<Rightarrow> char16 list option result" where
  "GetString16WithoutPathExpansion key d = get_as GetAsString16 (GetWithoutPathExpansion key d)"
definition GetListWithoutPathExpansion :: "str \<Rightarrow> dict \<Rightarrow> val list option result" where
  "GetListWithoutPathExpansion key d = get_as GetAsList (GetWithoutPathExpansion key d)"

text \<open>\<^verbatim>\<open>Set\<close>: a missing child, or one that is no dictionary, is replaced by an empty dictionary.\<close>

function Set_loop :: "str \<Rightarrow> val \<Rightarrow> dict \<Rightarrow> dict result" where
  "Set_loop current_path v current_dictionary =
     (case str_find current_path delimiter 0 of
        None \<Rightarrow> Inr (SetWithoutPathExpansion current_path v current_dictionary)
      | Some p \<Rightarrow>
          let key = take p current_path
          in utf8_check key (rbind (GetDictionaryWithoutPathExpansion key current_dictionary) (\<lambda>child.
               rbind (Set_loop (drop (p + 1) current_path) v (case child of None \<Rightarrow> [] | Some c \<Rightarrow> c)) (\<lambda>c.
                 Inr (SetWithoutPathExpansion key (DictionaryValue c) current_dictionary)))))"
  by pat_completeness auto

termination
  by (relation "measure (\<lambda>(path, _, _). length path)") (auto dest!: str_find_delimiter)

declare Set_loop.simps [simp del]

definition dict_Set :: "str \<Rightarrow> val \<Rightarrow> dict \<Rightarrow> dict result" where
  "dict_Set path v d = utf8_check path (Set_loop path v d)"

definition SetBoolean :: "str \<Rightarrow> bool \<Rightarrow> dict \<Rightarrow> dict result" where
  "SetBoolean path b d = dict_Set path (BooleanValue b) d"
definition SetInteger :: "str \<Rightarrow> int \<Rightarrow> dict \<Rightarrow> dict result" where
  "SetInteger path i d = dict_Set path (IntegerValue i) d"
definition SetDouble :: "str \<Rightarrow> real option \<Rightarrow> dict \<Rightarrow> dict result" where
  "SetDouble path x d = rbind (new_FundamentalValue x) (\<lambda>v. dict_Set path v d)"
definition SetString :: "str \<Rightarrow> str \<Rightarrow> dict \<Rightarrow> dict result" where
  "SetString path s d = rbind (new_StringValue s) (\<lambda>v. dict_Set path v d)"
definition SetString16 :: "str \<Rightarrow> char16 list \<Rightarrow> dict \<Rightarrow> dict result" where
  "SetString16 path s d = dict_Set path (new_StringValue16 s) d"

definition SetBooleanWithoutPathExpansion :: "str \<Rightarrow> bool \<Rightarrow> dict \<Rightarrow> dict" where
  "SetBooleanWithoutPathExpansion path b d = SetWithoutPathExpansion path (BooleanValue b) d"
definition SetIntegerWithoutPathExpansion :: "str \<Rightarrow> int \<Rightarrow> dict \<Rightarrow> dict" where
  "SetIntegerWithoutPathExpansion path i d = SetWithoutPathExpansion path (IntegerValue i) d"
definition SetDoubleWithoutPathExpansion :: "str \<Rightarrow> real option \<Rightarrow> dict \<Rightarrow> dict result" where
  "SetDoubleWithoutPathExpansion path x d = rbind (new_FundamentalValue x) (\<lambda>v. Inr (SetWithoutPathExpansion path v d))"
definition SetStringWithoutPathExpansion :: "str \<Rightarrow> str \<Rightarrow> dict \<Rightarrow> dict result" where
  "SetStringWithoutPathExpansion path s d = rbind (new_StringValue s) (\<lambda>v. Inr (SetWithoutPathExpansion path v d))"
definition SetString16WithoutPathExpansion :: "str \<Rightarrow> char16 list \<Rightarrow> dict \<Rightarrow> dict" where
  "SetString16WithoutPathExpansion path s d = SetWithoutPathExpansion path (new_StringValue16 s) d"

text \<open>Removal gives the removed value and the dictionary left.\<close>

definition RemoveWithoutPathExpansion :: "str \<Rightarrow> dict \<Rightarrow> (val option \<times> dict) result" where
  "RemoveWithoutPathExpansion key d =
     utf8_check key (Inr (case map_of d key of None \<Rightarrow> (None, d) | Some v \<Rightarrow> (Some v, erase_key key d)))"

text \<open>
  \<^verbatim>\<open>Remove\<close> changes the dictionary found at the path up to the last delimiter; \<open>put_dictionary\<close> is that
  change through the pointer.
\<close>

function put_dictionary :: "str \<Rightarrow> dict \<Rightarrow> dict \<Rightarrow> dict" where
  "put_dictionary path c d =
     (case str_find path delimiter 0 of
        None \<Rightarrow> SetWithoutPathExpansion path (DictionaryValue c) d
      | Some p \<Rightarrow> (case map_of d (take p path) of
            Some (DictionaryValue e) \<Rightarrow>
              SetWithoutPathExpansion (take p path) (DictionaryValue (put_dictionary (drop (p + 1) path) c e)) d
          | _ \<Rightarrow> d))"
  by pat_completeness auto

termination
  by (relation "measure (\<lambda>(path, _, _). length path)") (auto dest!: str_find_delimiter)

declare put_dictionary.simps [simp del]

definition Remove :: "str \<Rightarrow> dict \<Rightarrow> (val option \<times> dict) result" where
  "Remove path d = utf8_check path
     (case str_rfind path delimiter (length path) of
        None \<Rightarrow> RemoveWithoutPathExpansion path d
      | Some p \<Rightarrow> rbind (GetDictionary (take p path) d) (\<lambda>child.
          case child of None \<Rightarrow> Inr (None, d)
          | Some c \<Rightarrow> rbind (RemoveWithoutPathExpansion (drop (p + 1) path) c) (\<lambda>(v, c').
              Inr (v, put_dictionary (take p path) c' d))))"

function RemovePath :: "str \<Rightarrow> dict \<Rightarrow> (val option \<times> dict) result" where
  "RemovePath path d =
     (case str_find path delimiter 0 of
        None \<Rightarrow> RemoveWithoutPathExpansion path d
      | Some p \<Rightarrow>
          let subdict_path = take p path
          in rbind (GetDictionary subdict_path d) (\<lambda>child. case child of None \<Rightarrow> Inr (None, d)
             | Some subdict \<Rightarrow> rbind (RemovePath (drop (p + 1) path) subdict) (\<lambda>(v, subdict').
                 let d' = SetWithoutPathExpansion subdict_path (DictionaryValue subdict') d
                 in if v \<noteq> None \<and> subdict' = [] then
                      rbind (RemoveWithoutPathExpansion subdict_path d') (\<lambda>(_, d''). Inr (v, d''))
                    else Inr (v, d'))))"
  by pat_completeness auto

termination
  by (relation "measure (\<lambda>(path, _). length path)") (auto dest!: str_find_delimiter)

declare RemovePath.simps [simp del]

text \<open>\<^verbatim>\<open>MergeDictionary\<close> iterates over the other dictionary's entries.\<close>

fun MergeDictionary :: "dict \<Rightarrow> dict \<Rightarrow> dict result" where
  "MergeDictionary [] d = Inr d"
| "MergeDictionary ((k, v) # other) d =
     (case v of
        DictionaryValue sub \<Rightarrow>
          rbind (GetDictionaryWithoutPathExpansion k d) (\<lambda>r. case r of
            Some sub_dict \<Rightarrow> rbind (MergeDictionary sub sub_dict) (\<lambda>m.
              MergeDictionary other (SetWithoutPathExpansion k (DictionaryValue m) d))
          | None \<Rightarrow> rbind (DeepCopy v) (\<lambda>c. MergeDictionary other (SetWithoutPathExpansion k c d)))
      | _ \<Rightarrow> rbind (DeepCopy v) (\<lambda>c. MergeDictionary other (SetWithoutPathExpansion k c d)))"

text \<open>\<^verbatim>\<open>Clear\<close> deletes entry after entry, then empties the map.\<close>

fun delete_entries :: "dict \<Rightarrow> dict" where
  "delete_entries [] = []"
| "delete_entries (e # d) = delete_entries d"

definition dict_Clear :: "dict \<Rightarrow> dict" where "dict_Clear d = delete_entries d"

definition dict_Swap :: "dict \<Rightarrow> dict \<Rightarrow> dict \<times> dict" where "dict_Swap d other = (other, d)"

subsection \<open>Lists\<close>

fun list_Clear :: "val list \<Rightarrow> val list" where
  "list_Clear [] = []"
| "list_Clear (v # xs) = list_Clear xs"

definition list_Swap :: "val list \<Rightarrow> val list \<Rightarrow> val list \<times> val list" where "list_Swap xs other = (other, xs)"

definition list_Append :: "val \<Rightarrow> val list \<Rightarrow> val list" where "list_Append v xs = xs @ [v]"

function pad_to :: "nat \<Rightarrow> val list \<Rightarrow> val list" where
  "pad_to index xs = (if index > length xs then pad_to index (list_Append NullValue xs) else xs)"
  by pat_completeness auto

termination
  by (relation "measure (\<lambda>(index, xs). index - length xs)") (auto simp: list_Append_def)

declare pad_to.simps [simp del]

text \<open>\<open>None\<close> is a null pointer.\<close>

definition list_Set :: "nat \<Rightarrow> val option \<Rightarrow> val list \<Rightarrow> bool \<times> val list" where
  "list_Set index in_value xs =
     (case in_value of None \<Rightarrow> (False, xs)
      | Some v \<Rightarrow> if index \<ge> length xs then (True, list_Append v (pad_to index xs)) else (True, xs[index := v]))"

definition list_Get :: "nat \<Rightarrow> val list \<Rightarrow> val option" where
  "list_Get index xs = (if index \<ge> length xs then None else Some (xs ! index))"

definition list_get_as :: "(val \<Rightarrow> 'a option) \<Rightarrow> nat \<Rightarrow> val list \<Rightarrow> 'a option" where
  "list_get_as conv index xs = (case list_Get index xs of None \<Rightarrow> None | Some v \<Rightarrow> conv v)"

definition list_GetBoolean :: "nat \<Rightarrow> val list \<Rightarrow> bool option" where "list_GetBoolean = list_get_as GetAsBoolean"
definition list_GetInteger :: "nat \<Rightarrow> val list \<Rightarrow> int option" where "list_GetInteger = list_get_as GetAsInteger"
definition list_GetDouble :: "nat \<Rightarrow> val list \<Rightarrow> real option" where "list_GetDouble = list_get_as GetAsDouble"
definition list_GetString :: "nat \<Rightarrow> val list \<Rightarrow> str option" where "list_GetString = list_get_as GetAsString"
definition list_GetString16 :: "nat \<Rightarrow> val list \<Rightarrow> char16 list option" where "list_GetString16 = list_get_as GetAsString16"
definition list_GetBinary :: "nat \<Rightarrow> val list \<Rightarrow> byte list option" where "list_GetBinary = list_get_as GetAsBinary"
definition list_GetDictionary :: "nat \<Rightarrow> val list \<Rightarrow> dict option" where "list_GetDictionary = list_get_as GetAsDictionary"
definition list_GetList :: "nat \<Rightarrow> val list \<Rightarrow> val list option" where "list_GetList = list_get_as GetAsList"

definition list_RemoveAt :: "nat \<Rightarrow> val list \<Rightarrow> val option \<times> val list" where
  "list_RemoveAt index xs =
     (if index \<ge> length xs then (None, xs) else (Some (xs ! index), take index xs @ drop (index + 1) xs))"

text \<open>The index of the removed element.\<close>

fun list_Remove :: "val \<Rightarrow> val list \<Rightarrow> nat option \<times> val list" where
  "list_Remove v [] = (None, [])"
| "list_Remove v (x # xs) =
     (if Equals x v then (Some 0, xs) else (let (i, ys) = list_Remove v xs in (map_option Suc i, x # ys)))"

text \<open>\<^verbatim>\<open>Erase\<close> takes an iterator of the list, so a position below its length.\<close>

definition list_Erase :: "nat \<Rightarrow> val list \<Rightarrow> val \<times> val list" where
  "list_Erase iter xs = (xs ! iter, take iter xs @ drop (iter + 1) xs)"

definition AppendBoolean :: "bool \<Rightarrow> val list \<Rightarrow> val list" where "AppendBoolean b = list_Append (BooleanValue b)"
definition AppendInteger :: "int \<Rightarrow> val list \<Rightarrow> val list" where "AppendInteger i = list_Append (IntegerValue i)"
definition AppendDouble :: "real option \<Rightarrow> val list \<Rightarrow> val list result" where
  "AppendDouble x xs = rbind (new_FundamentalValue x) (\<lambda>v. Inr (list_Append v xs))"
definition AppendString :: "str \<Rightarrow> val list \<Rightarrow> val list result" where
  "AppendString s xs = rbind (new_StringValue s) (\<lambda>v. Inr (list_Append v xs))"
definition AppendString16 :: "char16 list \<Rightarrow> val list \<Rightarrow> val list" where
  "AppendString16 s = list_Append (new_StringValue16 s)"

fun AppendStrings :: "str list \<Rightarrow> val list \<Rightarrow> val list result" where
  "AppendStrings [] xs = Inr xs"
| "AppendStrings (s # ss) xs = rbind (AppendString s xs) (AppendStrings ss)"

fun AppendStrings16 :: "char16 list list \<Rightarrow> val list \<Rightarrow> val list" where
  "AppendStrings16 [] xs = xs"
| "AppendStrings16 (s # ss) xs = AppendStrings16 ss (AppendString16 s xs)"

fun list_Find :: "val \<Rightarrow> val list \<Rightarrow> nat" where
  "list_Find v [] = 0"
| "list_Find v (x # xs) = (if Equals v x then 0 else Suc (list_Find v xs))"

fun any_equal :: "val \<Rightarrow> val list \<Rightarrow> bool" where
  "any_equal v [] = False"
| "any_equal v (x # xs) = (if Equals x v then True else any_equal v xs)"

definition AppendIfNotPresent :: "val \<Rightarrow> val list \<Rightarrow> bool \<times> val list" where
  "AppendIfNotPresent v xs = (if any_equal v xs then (False, xs) else (True, xs @ [v]))"

definition list_Insert :: "nat \<Rightarrow> val \<Rightarrow> val list \<Rightarrow> bool \<times> val list" where
  "list_Insert index v xs = (if index > length xs then (False, xs) else (True, take index xs @ v # drop index xs))"

subsection \<open>The dictionary as a map\<close>

lemma map_of_Set [simp]: "map_of (SetWithoutPathExpansion key v d) k = (if k = key then Some v else map_of d k)"
  by (induction key v d rule: SetWithoutPathExpansion.induct) auto

lemma set_keys: "fst ` set (SetWithoutPathExpansion key v d) = insert key (fst ` set d)"
  by (induction key v d rule: SetWithoutPathExpansion.induct) auto

abbreviation keys_sorted :: "dict \<Rightarrow> bool" where "keys_sorted d \<equiv> sorted_wrt (<) (map fst d)"

lemma keys_sorted_Set: "keys_sorted d \<Longrightarrow> keys_sorted (SetWithoutPathExpansion key v d)"
  using set_keys [of key v] by (induction key v d rule: SetWithoutPathExpansion.induct) auto

lemma keys_distinct: "keys_sorted d \<Longrightarrow> distinct (map fst d)"
  by (simp add: strict_sorted_iff)

lemma set_Set_subset: "set (SetWithoutPathExpansion key v d) \<subseteq> insert (key, v) (set d)"
  by (induction key v d rule: SetWithoutPathExpansion.induct) auto

lemma erase_key_filter: "keys_sorted d \<Longrightarrow> erase_key key d = filter (\<lambda>e. fst e \<noteq> key) d"
proof (induction d)
  case (Cons e d)
  moreover have "filter (\<lambda>x. fst x \<noteq> fst e) d = d" using Cons.prems by (auto simp: filter_id_conv)
  ultimately show ?case by (cases e) auto
qed simp

lemma map_of_erase: "keys_sorted d \<Longrightarrow> map_of (erase_key key d) k = (if k = key then None else map_of d k)"
proof (induction d)
  case (Cons e d)
  moreover have "map_of d (fst e) = None" using Cons.prems by (auto simp: map_of_eq_None_iff)
  ultimately show ?case by (cases e) auto
qed simp

lemma keys_sorted_erase: "keys_sorted d \<Longrightarrow> keys_sorted (erase_key key d)"
  by (simp add: erase_key_filter sorted_wrt_map sorted_wrt_filter)

lemma keys_sorted_eqI:
  assumes "keys_sorted d" "keys_sorted e" "\<And>k. map_of d k = map_of e k"
  shows "d = e"
proof (rule map_sorted_distinct_set_unique [where f = fst])
  have "map_of d = map_of e" using assms(3) by auto
  then show s: "set d = set e" using assms(1,2) by (simp add: map_of_inject_set keys_distinct)
  show "inj_on fst (set d \<union> set e)" using keys_distinct [OF assms(1)] by (simp add: s [symmetric] distinct_map)
qed (use assms in \<open>auto simp: strict_sorted_iff\<close>)

end
