(* ===== verification/Value_Paths.thy ===== *)
theory Value_Paths
  imports Values "HOL-Library.Sublist"
begin

text \<open>
  Dictionaries along a path: the keys of a path, what \<^verbatim>\<open>Get\<close>, \<^verbatim>\<open>Set\<close>, \<^verbatim>\<open>Remove\<close> and
  \<^verbatim>\<open>RemovePath\<close> promise over them, the proof that the loops of \<^verbatim>\<open>values.cc\<close> do that, and the
  well-formedness of values.
\<close>

subsection \<open>Paths\<close>

text \<open>A path is the list of its keys, the parts between the delimiters.\<close>

fun path_keys :: "str \<Rightarrow> str list" where
  "path_keys [] = [[]]"
| "path_keys (c # cs) = (if c = 0x2E then [] # path_keys cs else (c # hd (path_keys cs)) # tl (path_keys cs))"

lemma path_keys_nonempty [simp]: "path_keys path \<noteq> []"
  by (cases path) auto

lemma path_keys_no_delimiter: "0x2E \<notin> set k \<Longrightarrow> path_keys k = [k]"
  by (induction k) auto

lemma path_keys_delimiter: "0x2E \<notin> set k \<Longrightarrow> path_keys (k @ 0x2E # rest) = k # path_keys rest"
  by (induction k) auto

lemma str_find_delimiter_None: "str_find path delimiter 0 = None \<longleftrightarrow> 0x2E \<notin> set path"
proof -
  have "(\<forall>j. take 1 (drop j path) \<noteq> [0x2E]) \<longleftrightarrow> 0x2E \<notin> set path"
    by (metis (no_types) append_take_drop_id in_set_conv_nth in_set_dropD list.set_intros(1) take_Suc_conv_app_nth
        set_take_subset subsetD take_0 append_Nil Cons_nth_drop_Suc take_Suc_Cons One_nat_def)
  then show ?thesis by (simp add: str_find_def find_sub_None delimiter_def)
qed

lemma str_find_delimiter_Some:
  assumes "str_find path delimiter 0 = Some p"
  shows "path = take p path @ 0x2E # drop (p + 1) path" "0x2E \<notin> set (take p path)"
proof -
  have f: "take 1 (drop p path) = [0x2E]" "\<And>j. j < p \<Longrightarrow> take 1 (drop j path) \<noteq> [0x2E]"
    using assms by (auto simp: str_find_def find_sub_Some delimiter_def)
  have p: "p < length path" using str_find_delimiter [OF assms] .
  then have "path ! p = 0x2E" using f(1) by (simp add: Cons_nth_drop_Suc [symmetric])
  then show "path = take p path @ 0x2E # drop (p + 1) path"
    using id_take_nth_drop [OF p] by simp
  show "0x2E \<notin> set (take p path)"
  proof
    assume "0x2E \<in> set (take p path)"
    then obtain j where "j < p" "path ! j = 0x2E" using p by (auto simp: in_set_conv_nth)
    then show False using f(2) [of j] p by (simp add: Cons_nth_drop_Suc [symmetric])
  qed
qed

lemma path_cases:
  obtains (key) "str_find path delimiter 0 = None" "path_keys path = [path]"
  | (child) p where "str_find path delimiter 0 = Some p" "path_keys path = take p path # path_keys (drop (p + 1) path)"
      "path = take p path @ 0x2E # drop (p + 1) path" "path_keys (take p path) = [take p path]"
      "0x2E \<notin> set (take p path)"
proof (cases "str_find path delimiter 0")
  case None
  then show ?thesis using key path_keys_no_delimiter str_find_delimiter_None by blast
next
  case (Some p)
  note s = str_find_delimiter_Some [OF Some]
  then show ?thesis using child [OF Some] path_keys_delimiter [OF s(2)] path_keys_no_delimiter [OF s(2)] by metis
qed


text \<open>An ASCII byte stands for itself in UTF-8, so a delimiter cuts a valid path into valid parts.\<close>

lemma IsStringUTF8_iff: "IsStringUTF8 s \<longleftrightarrow> (\<exists>cs. list_all IsValidCharacter cs \<and> s = encode8 cs)"
  using IsStringUTF8_sound [of s 0] IsStringUTF8_encode [of _ "[]"] by (auto simp: IsStringUTF8_def)

lemma ascii_UTF8: "is_ascii s \<Longrightarrow> IsStringUTF8 s"
proof -
  assume a: "is_ascii s"
  have "IsValidCharacter (ucast x) \<and> CBU8_APPEND_UNSAFE (ucast x) = [x]" if "x \<in> set s" for x
  proof -
    have "unat (ucast x :: code_point) = unat x" "unat x < 128"
      using that a unsigned_less [where w = x and 'a = nat]
      by (simp_all add: is_ascii_def unsigned_ucast_eq take_bit_nat_eq_self word_less_nat_alt)
    then show ?thesis
      by (simp add: IsValidCharacter_def CBU8_APPEND_UNSAFE_def word_le_nat_alt word_less_nat_alt)
  qed
  then have "list_all IsValidCharacter (map ucast s)" "encode8 (map ucast s) = s"
    by (induction s) auto
  then show ?thesis unfolding IsStringUTF8_iff by metis
qed

lemma APPEND_ascii:
  assumes "IsValidCharacter c" "x \<in> set (CBU8_APPEND_UNSAFE c)" "x < 0x80"
  shows "CBU8_APPEND_UNSAFE c = [x]"
proof -
  have "unat x < 2 ^ 7" using assms(3) by (simp add: word_less_nat_alt)
  then have "unat x = take_bit 7 (unat x)" by (simp only: take_bit_nat_eq_self)
  then have "\<not> bit (unat x) 7" by (metis bit_take_bit_iff less_irrefl)
  then have "\<not> bit x 7" by (simp add: bit_unsigned_iff)
  then show ?thesis using assms(2) by (auto simp: CBU8_APPEND_UNSAFE_def bit_simps utf split: if_splits)
qed

lemma encode8_ascii:
  "list_all IsValidCharacter cs \<Longrightarrow> encode8 cs = a @ x # b \<Longrightarrow> x < 0x80 \<Longrightarrow>
     \<exists>ds es. list_all IsValidCharacter (ds @ es) \<and> a = encode8 ds \<and> b = encode8 es"
proof (induction cs arbitrary: a)
  case (Cons c cs)
  from Cons.prems(2) consider u where "CBU8_APPEND_UNSAFE c = a @ x # u"
    | u where "a = CBU8_APPEND_UNSAFE c @ u" "encode8 cs = u @ x # b"
    by (auto simp: append_eq_append_conv2) (metis append_Nil append_eq_Cons_conv append_Nil2 that)
  then show ?case
  proof cases
    case 1
    then have "CBU8_APPEND_UNSAFE c = [x]" using Cons.prems(1,3) by (intro APPEND_ascii) auto
    moreover from this have "a = []" "u = []" using 1 by (cases a; simp)+
    ultimately show ?thesis using Cons.prems by (intro exI [of _ "[]"] exI [of _ cs]) auto
  next
    case 2
    obtain ds es where "list_all IsValidCharacter (ds @ es)" "u = encode8 ds" "b = encode8 es"
      using Cons.IH [OF _ 2(2)] Cons.prems(1,3) by auto
    then show ?thesis using 2(1) Cons.prems(1) by (intro exI [of _ "c # ds"] exI [of _ es]) auto
  qed
qed simp

lemma IsStringUTF8_ascii: "x < 0x80 \<Longrightarrow> IsStringUTF8 (a @ x # b) \<longleftrightarrow> IsStringUTF8 a \<and> IsStringUTF8 b"
proof
  assume x: "x < 0x80" and "IsStringUTF8 (a @ x # b)"
  then obtain cs where "list_all IsValidCharacter cs" "encode8 cs = a @ x # b"
    by (auto simp: IsStringUTF8_iff)
  from encode8_ascii [OF this x] show "IsStringUTF8 a \<and> IsStringUTF8 b"
    by (auto simp: IsStringUTF8_iff)
next
  assume x: "x < 0x80" and ab: "IsStringUTF8 a \<and> IsStringUTF8 b"
  have "IsStringUTF8 [x]" using x by (intro ascii_UTF8) (simp add: is_ascii_def)
  with ab obtain ds cs es where "list_all IsValidCharacter ds" "a = encode8 ds" "list_all IsValidCharacter es" "b = encode8 es"
    "list_all IsValidCharacter cs" "[x] = encode8 cs"
    by (auto simp: IsStringUTF8_iff)
  then show "IsStringUTF8 (a @ x # b)"
    by (auto simp: IsStringUTF8_iff intro!: exI [of _ "ds @ cs @ es"])
qed

lemma IsStringUTF8_delimiter: "IsStringUTF8 (a @ 0x2E # b) \<longleftrightarrow> IsStringUTF8 a \<and> IsStringUTF8 b"
  by (simp add: IsStringUTF8_ascii)

lemma IsStringUTF8_keys: "IsStringUTF8 path \<longleftrightarrow> list_all IsStringUTF8 (path_keys path)"
proof (induction "length path" arbitrary: path rule: less_induct)
  case less
  show ?case
  proof (cases path rule: path_cases)
    case (child p)
    then show ?thesis using less [of "drop (p + 1) path"] str_find_delimiter [OF child(1)]
      by (metis IsStringUTF8_delimiter diff_less length_drop less_nat_zero_code list.pred_inject(2) not_gr_zero zero_less_Suc Suc_eq_plus1)
  qed simp
qed

subsection \<open>Getting and setting along a path\<close>

text \<open>What \<^verbatim>\<open>Get\<close> and \<^verbatim>\<open>Set\<close> promise, over the keys of the path.\<close>

fun subdict :: "str \<Rightarrow> dict \<Rightarrow> dict option" where
  "subdict k d = (case map_of d k of Some (DictionaryValue c) \<Rightarrow> Some c | _ \<Rightarrow> None)"

fun lookup :: "str list \<Rightarrow> dict \<Rightarrow> val option" where
  "lookup [] d = Some (DictionaryValue d)"
| "lookup [k] d = map_of d k"
| "lookup (k # ks) d = (case subdict k d of None \<Rightarrow> None | Some c \<Rightarrow> lookup ks c)"

fun update :: "str list \<Rightarrow> val \<Rightarrow> dict \<Rightarrow> dict" where
  "update [] v d = d"
| "update [k] v d = SetWithoutPathExpansion k v d"
| "update (k # ks) v d =
     SetWithoutPathExpansion k (DictionaryValue (update ks v (case subdict k d of None \<Rightarrow> [] | Some c \<Rightarrow> c))) d"

lemma get_subdict: "IsStringUTF8 k \<Longrightarrow> GetDictionaryWithoutPathExpansion k d = Inr (subdict k d)"
  by (auto simp: GetDictionaryWithoutPathExpansion_def GetWithoutPathExpansion_def utf8_check_def get_as_def
      split: option.split val.split)

lemma Get_loop_lookup: "IsStringUTF8 path \<Longrightarrow> Get_loop path d = Inr (lookup (path_keys path) d)"
proof (induction path d rule: Get_loop.induct)
  case (1 path d)
  show ?case
  proof (cases path rule: path_cases)
    case key
    then show ?thesis using 1(2)
      by (simp add: Get_loop.simps [of path] GetWithoutPathExpansion_def utf8_check_def)
  next
    case (child p)
    then have u: "IsStringUTF8 (take p path)" "IsStringUTF8 (drop (p + 1) path)"
      using 1(2) IsStringUTF8_delimiter by metis+
    then show ?thesis
      using child(1,2) 1(1) [OF child(1) refl] get_subdict [OF u(1)]
      by (cases "path_keys (drop (p + 1) path)")
        (auto simp: Get_loop.simps [of path] utf8_check_def get_as_def simp del: subdict.simps split: option.split)
  qed
qed

lemma Get_lookup: "Get path d = utf8_check path (Inr (lookup (path_keys path) d))"
  by (cases "IsStringUTF8 path") (simp_all add: Get_def utf8_check_def Get_loop_lookup)

lemma Set_loop_update: "IsStringUTF8 path \<Longrightarrow> Set_loop path v d = Inr (update (path_keys path) v d)"
proof (induction path v d rule: Set_loop.induct)
  case (1 path v d)
  show ?case
  proof (cases path rule: path_cases)
    case key
    then show ?thesis by (simp add: Set_loop.simps [of path])
  next
    case (child p)
    then have u: "IsStringUTF8 (take p path)" "IsStringUTF8 (drop (p + 1) path)"
      using 1(2) IsStringUTF8_delimiter by metis+
    then show ?thesis
      using child(1,2) 1(1) [OF child(1) refl] get_subdict [OF u(1)]
      by (cases "path_keys (drop (p + 1) path)")
        (auto simp: Set_loop.simps [of path] utf8_check_def get_as_def simp del: subdict.simps split: option.split)
  qed
qed

lemma Set_update: "dict_Set path v d = utf8_check path (Inr (update (path_keys path) v d))"
  by (cases "IsStringUTF8 path") (simp_all add: dict_Set_def utf8_check_def Set_loop_update)

lemma lookup_Cons: "ks \<noteq> [] \<Longrightarrow> lookup (k # ks) d = (case subdict k d of None \<Rightarrow> None | Some c \<Rightarrow> lookup ks c)"
  by (cases ks) (auto simp del: subdict.simps split: option.split)

lemma update_Cons:
  "ks \<noteq> [] \<Longrightarrow> update (k # ks) v d =
     SetWithoutPathExpansion k (DictionaryValue (update ks v (case subdict k d of None \<Rightarrow> [] | Some c \<Rightarrow> c))) d"
  by (cases ks) simp_all

lemma lookup_update_same: "ks \<noteq> [] \<Longrightarrow> lookup ks (update ks v d) = Some v"
  by (induction ks v d rule: update.induct) auto

lemma lookup_empty: "ks \<noteq> [] \<Longrightarrow> lookup ks [] = None"
  by (induction ks "[] :: dict" rule: lookup.induct) auto

lemma lookup_update_other:
  "\<not> prefix ks ls \<Longrightarrow> \<not> prefix ls ks \<Longrightarrow> lookup ls (update ks v d) = lookup ls d"
proof (induction ks arbitrary: ls d)
  case (Cons k ks)
  obtain l ls' where l: "ls = l # ls'" using Cons.prems by (cases ls) auto
  show ?case
  proof (cases "l = k")
    case True
    then have n: "\<not> prefix ks ls'" "\<not> prefix ls' ks" using Cons.prems l by auto
    then have "ks \<noteq> []" "ls' \<noteq> []" by auto
    then show ?thesis using Cons.IH [OF n] True l
      by (auto simp: lookup_Cons update_Cons lookup_empty split: option.split val.split)
  next
    case False
    then show ?thesis using l by (cases ks; cases ls') (auto simp: update_Cons)
  qed
qed simp


text \<open>
  C33: setting a value at a UTF-8 path succeeds, whatever stands in the way; \<^verbatim>\<open>Get\<close> of that path then
  gives the value, and \<^verbatim>\<open>Get\<close> of a path that neither extends it nor is extended by it gives what it gave
  before.
\<close>

theorem Get_after_Set:
  assumes "IsStringUTF8 path" "path_keys path \<parallel> path_keys other"
  shows "\<exists>d'. dict_Set path v d = Inr d' \<and> Get path d' = Inr (Some v) \<and> Get other d' = Get other d"
  using assms by (simp add: Set_update Get_lookup lookup_update_same lookup_update_other utf8_check_def parallel_def)

theorem Get_after_Set_witness:
  "\<exists>d'. dict_Set [0x61, 0x2E, 0x62] (IntegerValue 7) [([0x61], NullValue), ([0x63], NullValue)] = Inr d' \<and>
     Get [0x61, 0x2E, 0x62] d' = Inr (Some (IntegerValue 7)) \<and> Get [0x63] d' = Get [0x63] [([0x61], NullValue), ([0x63], NullValue)]"
  by (rule Get_after_Set) (simp_all add: ascii_UTF8 is_ascii_def parallel_def)

subsection \<open>Well-formed values\<close>

text \<open>
  The type invariant: keys in order and UTF-8, strings UTF-8, integers in their 32 bits.
\<close>

fun wf_val :: "val \<Rightarrow> bool" and wf_entries :: "dict \<Rightarrow> bool" and wf_vals :: "val list \<Rightarrow> bool" where
  "wf_val (IntegerValue i) = is_int32 i"
| "wf_val (StringValue s) = IsStringUTF8 s"
| "wf_val (DictionaryValue d) = (keys_sorted d \<and> wf_entries d)"
| "wf_val (ListValue xs) = wf_vals xs"
| "wf_val _ = True"
| "wf_entries [] = True"
| "wf_entries ((k, v) # d) = (IsStringUTF8 k \<and> wf_val v \<and> wf_entries d)"
| "wf_vals [] = True"
| "wf_vals (v # xs) = (wf_val v \<and> wf_vals xs)"

abbreviation wf_dict :: "dict \<Rightarrow> bool" where "wf_dict d \<equiv> keys_sorted d \<and> wf_entries d"

lemma wf_entries_iff: "wf_entries d \<longleftrightarrow> (\<forall>(k, v) \<in> set d. IsStringUTF8 k \<and> wf_val v)"
  by (induction d) auto

lemma wf_vals_iff: "wf_vals xs \<longleftrightarrow> (\<forall>v \<in> set xs. wf_val v)"
  by (induction xs) auto

lemma wf_entries_map_of: "wf_entries d \<Longrightarrow> map_of d k = Some v \<Longrightarrow> IsStringUTF8 k \<and> wf_val v"
  by (induction d) (auto split: if_splits)

lemma wf_subdict: "wf_entries d \<Longrightarrow> subdict k d = Some c \<Longrightarrow> wf_dict c"
  by (auto split: option.splits val.splits dest: wf_entries_map_of)

lemma wf_Set: "wf_dict d \<Longrightarrow> IsStringUTF8 k \<Longrightarrow> wf_val v \<Longrightarrow> wf_dict (SetWithoutPathExpansion k v d)"
  using set_Set_subset [of k v d] by (fastforce simp: wf_entries_iff intro: keys_sorted_Set)

lemma wf_erase: "wf_dict d \<Longrightarrow> wf_dict (erase_key k d)"
  by (auto simp: wf_entries_iff erase_key_filter sorted_wrt_map sorted_wrt_filter)

lemma wf_update: "wf_dict d \<Longrightarrow> list_all IsStringUTF8 ks \<Longrightarrow> wf_val v \<Longrightarrow> wf_dict (update ks v d)"
proof (induction ks arbitrary: d)
  case (Cons k ks)
  have "wf_dict (case subdict k d of None \<Rightarrow> [] | Some c \<Rightarrow> c)"
    using Cons.prems(1) wf_subdict [of d k] by (auto simp del: subdict.simps split: option.split)
  then show ?case using Cons wf_Set by (cases "ks = []") (simp_all add: update_Cons del: subdict.simps)
qed simp

subsection \<open>Removing\<close>

fun delete :: "str list \<Rightarrow> dict \<Rightarrow> dict" where
  "delete [] d = d"
| "delete [k] d = erase_key k d"
| "delete (k # ks) d = (case subdict k d of None \<Rightarrow> d | Some c \<Rightarrow> SetWithoutPathExpansion k (DictionaryValue (delete ks c)) d)"

lemma delete_Cons:
  "ks \<noteq> [] \<Longrightarrow> delete (k # ks) d =
     (case subdict k d of None \<Rightarrow> d | Some c \<Rightarrow> SetWithoutPathExpansion k (DictionaryValue (delete ks c)) d)"
  by (cases ks) (auto simp del: subdict.simps split: option.split)

lemma wf_delete: "wf_dict d \<Longrightarrow> wf_dict (delete ks d)"
proof (induction ks d rule: delete.induct)
  case (3 k k' ks d)
  show ?case
  proof (cases "subdict k d")
    case (Some c)
    then have "IsStringUTF8 k" "wf_dict c"
      using 3(2) wf_subdict [of d k c] by (auto split: option.splits val.splits dest: wf_entries_map_of)
    then show ?thesis using 3(1) [OF Some] 3(2) Some wf_Set
      by (simp add: delete_Cons del: subdict.simps)
  qed (use 3(2) in \<open>simp del: subdict.simps\<close>)
qed (auto simp: wf_erase)

lemma lookup_delete:
  "ks \<noteq> [] \<Longrightarrow> wf_dict d \<Longrightarrow> lookup ks (delete ks d) = None"
proof (induction ks d rule: delete.induct)
  case (3 k k' ks d)
  then show ?case using wf_subdict [of d k]
    by (cases "subdict k d") (auto simp: lookup_Cons split: option.splits val.splits)
qed (auto simp: map_of_erase)

lemma lookup_delete_other:
  "wf_dict d \<Longrightarrow> \<not> prefix ks ls \<Longrightarrow> \<not> prefix ls ks \<Longrightarrow> lookup ls (delete ks d) = lookup ls d"
proof (induction ks d arbitrary: ls rule: delete.induct)
  case (2 k d)
  then obtain l ls' where "ls = l # ls'" "l \<noteq> k" by (cases ls) auto
  then show ?case using 2 by (cases ls') (auto simp: map_of_erase)
next
  case (3 k k' ks d)
  obtain l ls' where l: "ls = l # ls'" using 3(4) by (cases ls) auto
  show ?case
  proof (cases "subdict k d")
    case (Some c)
    show ?thesis
    proof (cases "l = k")
      case True
      then have n: "\<not> prefix (k' # ks) ls'" "\<not> prefix ls' (k' # ks)" using 3(3,4) l by auto
      then have "lookup ls' (delete (k' # ks) c) = lookup ls' c"
        using 3(1) [OF Some _ n] wf_subdict Some 3(2) by blast
      then show ?thesis using n True l Some by (cases ls') (auto split: option.splits val.splits)
    next
      case False
      then show ?thesis using l Some by (cases ls') (auto split: option.splits val.splits)
    qed
  qed (simp del: subdict.simps)
qed auto

lemma Set_same: "keys_sorted d \<Longrightarrow> map_of d k = Some v \<Longrightarrow> SetWithoutPathExpansion k v d = d"
  by (intro keys_sorted_eqI keys_sorted_Set) auto

lemma erase_absent: "map_of d k = None \<Longrightarrow> erase_key k d = d"
  by (induction k d rule: erase_key.induct) (auto split: if_splits)

lemma put_dictionary_update:
  "lookup (path_keys path) d = Some (DictionaryValue c0) \<Longrightarrow>
     put_dictionary path c d = update (path_keys path) (DictionaryValue c) d"
proof (induction path c d rule: put_dictionary.induct)
  case (1 path c d)
  show ?case
  proof (cases path rule: path_cases)
    case key
    then show ?thesis by (simp add: put_dictionary.simps [of path])
  next
    case (child p)
    then obtain e where "map_of d (take p path) = Some (DictionaryValue e)" "lookup (path_keys (drop (p + 1) path)) e = Some (DictionaryValue c0)"
      using 1(2) by (auto simp: lookup_Cons split: option.splits val.splits)
    then show ?thesis using 1(1) [OF child(1)] child(1,2)
      by (simp add: put_dictionary.simps [of path] update_Cons)
  qed
qed

lemma lookup_snoc:
  "lookup (ks @ [l]) d = (case lookup ks d of Some (DictionaryValue c) \<Rightarrow> map_of c l | _ \<Rightarrow> None)"
proof (induction ks arbitrary: d)
  case (Cons k ks)
  then show ?case by (cases "ks = []") (auto simp: lookup_Cons split: option.splits val.splits)
qed simp

lemma delete_snoc:
  "wf_dict d \<Longrightarrow> ks \<noteq> [] \<Longrightarrow> delete (ks @ [l]) d =
     (case lookup ks d of Some (DictionaryValue c) \<Rightarrow> update ks (DictionaryValue (erase_key l c)) d | _ \<Rightarrow> d)"
proof (induction ks arbitrary: d)
  case (Cons k ks)
  show ?case
  proof (cases "subdict k d")
    case None
    then show ?thesis
      by (cases "ks = []") (auto simp: lookup_Cons delete_Cons split: option.splits val.splits)
  next
    case (Some c)
    then have m: "map_of d k = Some (DictionaryValue c)" by (auto split: option.splits val.splits)
    have "wf_dict c" using Some Cons.prems(1) wf_subdict by blast
    note IH = Cons.IH [OF this]
    show ?thesis
    proof (cases "ks = []")
      case False
      then show ?thesis using IH m Cons.prems(1)
        by (auto simp: lookup_Cons delete_Cons update_Cons Set_same split: option.split val.split)
    qed (use m in \<open>simp add: delete_Cons\<close>)
  qed
qed simp

lemmas str_rfind_delimiter = str_rfind_single [where x = "0x2E :: byte", folded delimiter_def]

lemma path_keys_append: "path_keys (a @ 0x2E # b) = path_keys a @ path_keys b"
  by (induction a) auto

lemma Remove_delete:
  assumes "IsStringUTF8 path" "wf_dict d"
  shows "Remove path d = Inr (lookup (path_keys path) d, delete (path_keys path) d)"
proof (cases "str_rfind path delimiter (length path)")
  case None
  then have "path_keys path = [path]" using str_rfind_delimiter(1) [of path] path_keys_no_delimiter by simp
  then show ?thesis using None assms
    by (auto simp: Remove_def RemoveWithoutPathExpansion_def utf8_check_def erase_absent split: option.split)
next
  case (Some p)
  let ?a = "take p path" let ?b = "drop (p + 1) path"
  have s: "path = ?a @ 0x2E # ?b" "0x2E \<notin> set ?b" using str_rfind_delimiter(2) [OF Some] by auto
  have u: "IsStringUTF8 ?a" "IsStringUTF8 ?b" using assms(1) s(1) IsStringUTF8_delimiter by metis+
  have k: "path_keys path = path_keys ?a @ [?b]" using s path_keys_append [of ?a ?b] path_keys_no_delimiter [of ?b] by simp
  show ?thesis
  proof (cases "GetDictionary ?a d = Inr None")
    case True
    then have "\<And>c. lookup (path_keys ?a) d \<noteq> Some (DictionaryValue c)"
      using u by (auto simp: GetDictionary_def Get_lookup get_as_def utf8_check_def)
    then show ?thesis using Some assms True unfolding k
      by (auto simp: Remove_def utf8_check_def lookup_snoc delete_snoc split: option.split val.split)
  next
    case False
    then obtain c where c: "lookup (path_keys ?a) d = Some (DictionaryValue c)" "GetDictionary ?a d = Inr (Some c)"
      using u by (auto simp: GetDictionary_def Get_lookup get_as_def utf8_check_def split: option.splits elim!: GetAsDictionary.elims)
    then show ?thesis using Some assms u put_dictionary_update [OF c(1)] unfolding k
      by (auto simp: Remove_def RemoveWithoutPathExpansion_def utf8_check_def lookup_snoc delete_snoc erase_absent split: option.split)
  qed
qed


text \<open>What \<^verbatim>\<open>RemovePath\<close> leaves: a dictionary emptied by the removal goes too.\<close>

fun delete_path :: "str list \<Rightarrow> dict \<Rightarrow> dict" where
  "delete_path [] d = d"
| "delete_path [k] d = erase_key k d"
| "delete_path (k # ks) d =
     (case subdict k d of None \<Rightarrow> d
      | Some c \<Rightarrow> if lookup ks c \<noteq> None \<and> delete_path ks c = [] then erase_key k d
                  else SetWithoutPathExpansion k (DictionaryValue (delete_path ks c)) d)"

lemma delete_path_Cons:
  "ks \<noteq> [] \<Longrightarrow> delete_path (k # ks) d =
     (case subdict k d of None \<Rightarrow> d
      | Some c \<Rightarrow> if lookup ks c \<noteq> None \<and> delete_path ks c = [] then erase_key k d
                  else SetWithoutPathExpansion k (DictionaryValue (delete_path ks c)) d)"
  by (cases ks) (auto simp del: subdict.simps split: option.split)

lemma erase_Set: "keys_sorted d \<Longrightarrow> erase_key k (SetWithoutPathExpansion k v d) = erase_key k d"
  by (intro keys_sorted_eqI keys_sorted_erase keys_sorted_Set) (auto simp: map_of_erase keys_sorted_Set)

lemma RemovePath_delete:
  "IsStringUTF8 path \<Longrightarrow> wf_dict d \<Longrightarrow>
     RemovePath path d = Inr (lookup (path_keys path) d, delete_path (path_keys path) d)"
proof (induction path d rule: RemovePath.induct)
  case (1 path d)
  show ?case
  proof (cases path rule: path_cases)
    case key
    then show ?thesis using 1(2)
      by (auto simp: RemovePath.simps [of path] RemoveWithoutPathExpansion_def utf8_check_def erase_absent split: option.split)
  next
    case (child p)
    let ?k = "take p path" let ?b = "drop (p + 1) path"
    have u: "IsStringUTF8 ?k" "IsStringUTF8 ?b" using 1(2) child(3) IsStringUTF8_delimiter by metis+
    have g: "GetDictionary ?k d = Inr (subdict ?k d)"
      using u child(4) by (auto simp: GetDictionary_def Get_lookup get_as_def utf8_check_def split: option.split val.split)
    show ?thesis
    proof (cases "subdict ?k d")
      case None
      then show ?thesis using child g
        by (simp add: RemovePath.simps [of path] lookup_Cons delete_path_Cons del: subdict.simps)
    next
      case (Some c)
      have "RemovePath ?b c = Inr (lookup (path_keys ?b) c, delete_path (path_keys ?b) c)"
        using 1(1) [OF child(1) refl g Some u(2)] wf_subdict [OF _ Some] 1(3) by blast
      then show ?thesis using child g Some u 1(3)
        by (auto simp: RemovePath.simps [of path] lookup_Cons delete_path_Cons RemoveWithoutPathExpansion_def
            utf8_check_def erase_Set simp del: subdict.simps)
    qed
  qed
qed

lemma wf_subdict_key: "wf_dict d \<Longrightarrow> subdict k d = Some c \<Longrightarrow> IsStringUTF8 k \<and> wf_dict c \<and> map_of d k = Some (DictionaryValue c)"
  using wf_subdict [of d k c] by (auto split: option.splits val.splits dest: wf_entries_map_of)

lemma wf_delete_path: "wf_dict d \<Longrightarrow> wf_dict (delete_path ks d)"
proof (induction ks arbitrary: d)
  case (Cons k ks)
  show ?case
  proof (cases "ks = []")
    case False
    show ?thesis
    proof (cases "subdict k d")
      case (Some c)
      note c = wf_subdict_key [OF Cons.prems Some]
      then show ?thesis using Cons Some wf_Set [of d k] wf_erase [of d k] False
        by (simp add: delete_path_Cons del: subdict.simps)
    qed (use Cons.prems False in \<open>simp add: delete_path_Cons del: subdict.simps\<close>)
  qed (use Cons.prems wf_erase in simp)
qed simp

lemma lookup_delete_path: "ks \<noteq> [] \<Longrightarrow> wf_dict d \<Longrightarrow> lookup ks (delete_path ks d) = None"
proof (induction ks arbitrary: d)
  case (Cons k ks)
  show ?case
  proof (cases "ks = []")
    case False
    show ?thesis
    proof (cases "subdict k d")
      case (Some c)
      note c = wf_subdict_key [OF Cons.prems(2) Some]
      then have "lookup ks (delete_path ks c) = None" using Cons.IH False by blast
      then show ?thesis using Cons.prems Some False c
        by (simp add: delete_path_Cons lookup_Cons map_of_erase)
    qed (use False in \<open>simp add: delete_path_Cons lookup_Cons del: subdict.simps\<close>)
  qed (use Cons.prems in \<open>simp add: map_of_erase\<close>)
qed simp

lemma lookup_delete_path_other:
  "wf_dict d \<Longrightarrow> \<not> prefix ks ls \<Longrightarrow> \<not> prefix ls ks \<Longrightarrow> lookup ls (delete_path ks d) = lookup ls d"
proof (induction ks arbitrary: d ls)
  case (Cons k ks)
  obtain l ls' where l: "ls = l # ls'" using Cons.prems by (cases ls) auto
  show ?case
  proof (cases "l = k")
    case False
    then show ?thesis using l Cons.prems(1)
      by (cases "ks = []"; cases ls') (auto simp: delete_path_Cons map_of_erase split: option.split val.split)
  next
    case True
    then have n: "\<not> prefix ks ls'" "\<not> prefix ls' ks" "ks \<noteq> []" "ls' \<noteq> []" using Cons.prems l by auto
    show ?thesis
    proof (cases "subdict k d")
      case (Some c)
      note c = wf_subdict_key [OF Cons.prems(1) Some]
      then have "lookup ls' (delete_path ks c) = lookup ls' c" using Cons.IH n by blast
      then show ?thesis using True l c Cons.prems(1) n lookup_empty [of ls']
        by (auto simp: lookup_Cons delete_path_Cons map_of_erase)
    qed (use n in \<open>simp add: delete_path_Cons del: subdict.simps\<close>)
  qed
qed simp

lemma delete_path_no_empty:
  "wf_dict d \<Longrightarrow> lookup ks d \<noteq> None \<Longrightarrow> strict_prefix ls ks \<Longrightarrow> ls \<noteq> [] \<Longrightarrow>
     lookup ls (delete_path ks d) \<noteq> Some (DictionaryValue [])"
proof (induction ks arbitrary: d ls)
  case (Cons k ks)
  obtain ls' where l: "ls = k # ls'" "strict_prefix ls' ks" using Cons.prems by (cases ls) auto
  then have ks: "ks \<noteq> []" by auto
  obtain c where c: "subdict k d = Some c" "lookup ks c \<noteq> None"
    using Cons.prems(2) ks by (auto simp: lookup_Cons simp del: subdict.simps split: option.splits)
  note w = wf_subdict_key [OF Cons.prems(1) c(1)]
  then have "ls' \<noteq> [] \<Longrightarrow> lookup ls' (delete_path ks c) \<noteq> Some (DictionaryValue [])"
    using Cons.IH [OF _ c(2) l(2)] by blast
  then show ?case using l(1) ks c(2) w Cons.prems(1)
    by (cases "ls' = []") (auto simp: lookup_Cons delete_path_Cons map_of_erase)
qed simp

text \<open>
  C34: for every path, with or without a delimiter, \<^verbatim>\<open>Remove\<close> and \<^verbatim>\<open>RemovePath\<close> hand over what stood at the path, leave nothing
  there and change nothing at the paths beside it; after \<^verbatim>\<open>RemovePath\<close> removed something, no dictionary on the way to it is
  empty.
\<close>

theorem Remove_correct:
  assumes "IsStringUTF8 path" "wf_val (DictionaryValue d)"
  shows "\<exists>v d1 d2. Get path d = Inr v \<and>
     Remove path d = Inr (v, d1) \<and> Get path d1 = Inr None \<and> wf_val (DictionaryValue d1) \<and>
     RemovePath path d = Inr (v, d2) \<and> Get path d2 = Inr None \<and> wf_val (DictionaryValue d2) \<and>
     (\<forall>other. path_keys path \<parallel> path_keys other \<longrightarrow> Get other d1 = Get other d \<and> Get other d2 = Get other d) \<and>
     (\<forall>ancestor. strict_prefix (path_keys ancestor) (path_keys path) \<longrightarrow>
       v = None \<or> Get ancestor d2 \<noteq> Inr (Some (DictionaryValue [])))"
proof -
  have "lookup (path_keys ancestor) (delete_path (path_keys path) d) \<noteq> Some (DictionaryValue [])"
    if "strict_prefix (path_keys ancestor) (path_keys path)" "lookup (path_keys path) d \<noteq> None" for ancestor
    using that assms delete_path_no_empty [of d "path_keys path" "path_keys ancestor"] by auto
  then show ?thesis
    using assms wf_delete [of d "path_keys path"] wf_delete_path [of d "path_keys path"]
    by (auto simp: rsimps parallel_def Remove_delete RemovePath_delete Get_lookup utf8_check_def lookup_delete lookup_delete_path
        lookup_delete_other lookup_delete_path_other)
qed

theorem Remove_correct_witness:
  "\<exists>v d1 d2. Remove [0x61] [([0x61], IntegerValue 1), ([0x63], NullValue)] = Inr (v, d1) \<and>
     Get [0x61] [([0x61], IntegerValue 1), ([0x63], NullValue)] = Inr v \<and> Get [0x61] d1 = Inr None \<and>
     Get [0x63] d1 = Get [0x63] [([0x61], IntegerValue 1), ([0x63], NullValue)] \<and>
     RemovePath [0x61] [([0x61], IntegerValue 1), ([0x63], NullValue)] = Inr (v, d2) \<and> Get [0x61] d2 = Inr None"
proof -
  let ?d = "[([0x61], IntegerValue 1), ([0x63], NullValue)] :: dict"
  have "wf_val (DictionaryValue ?d)" "IsStringUTF8 [0x61]" by (simp_all add: ascii_UTF8 is_ascii_def is_int32_def)
  moreover have "path_keys [0x61] \<parallel> path_keys [0x63]" by (simp add: parallel_def)
  ultimately show ?thesis using Remove_correct [of "[0x61]" ?d] by blast
qed

end
