(* ===== verification/Value_Trees.thy ===== *)
theory Value_Trees
  imports Value_Paths
begin

text \<open>
  Values as trees: \<^verbatim>\<open>Equals\<close> and \<^verbatim>\<open>DeepCopy\<close>, copies without empty children, merging, the invariant
  of every value a client can build, and lists.
\<close>

subsection \<open>Comparing\<close>

text \<open>\<^verbatim>\<open>Equals\<close> is equality.\<close>

lemma Equals_eq:
  "Equals v w \<longleftrightarrow> v = w"
  "dict_Equals d e \<longleftrightarrow> d = e"
  "list_Equals xs ys \<longleftrightarrow> xs = ys"
  by (induction v w and d e and xs ys rule: Equals_dict_Equals_list_Equals.induct)
    (auto simp: IsType_def split: val.splits elim: GetType.elims)


subsection \<open>Copies\<close>

lemma Set_last: "\<forall>k \<in> fst ` set d. k < key \<Longrightarrow> SetWithoutPathExpansion key v d = d @ [(key, v)]"
  by (induction key v d rule: SetWithoutPathExpansion.induct) auto

lemma DeepCopy_id:
  "wf_val v \<Longrightarrow> DeepCopy v = Inr v"
  "wf_entries d \<Longrightarrow> keys_sorted (r @ d) \<Longrightarrow> dict_DeepCopy d r = Inr (r @ d)"
  "wf_vals xs \<Longrightarrow> list_DeepCopy xs ys = Inr (ys @ xs)"
proof (induction v and d r and xs ys rule: DeepCopy_dict_DeepCopy_list_DeepCopy.induct)
  case (10 k v d r)
  then show ?case by (auto simp: sorted_wrt_append Set_last)
qed (auto simp: new_FundamentalValue_def new_StringValue_def)

text \<open>
  \<^verbatim>\<open>DeepCopy\<close> of a well-formed value is a value \<^verbatim>\<open>Equals\<close> to it, and \<^verbatim>\<open>Equals\<close>, which walks the two
  trees in step, holds of equal trees only.
\<close>

theorem DeepCopy_Equals:
  assumes "wf_val v"
  shows "\<exists>c. DeepCopy v = Inr c \<and> Equals v c \<and> (\<forall>w. Equals c w \<longleftrightarrow> Value_Equals (Some w) (Some v)) \<and> (Equals v w \<longleftrightarrow> v = w)"
  using assms by (auto simp: DeepCopy_id Equals_eq Value_Equals_def)

theorem DeepCopy_Equals_witness:
  "\<exists>c. DeepCopy (ListValue [NullValue, DictionaryValue [([0x61], DoubleValue 1)]]) = Inr c \<and>
     Equals (ListValue [NullValue, DictionaryValue [([0x61], DoubleValue 1)]]) c \<and>
     (\<forall>w. Equals c w \<longleftrightarrow> Value_Equals (Some w) (Some (ListValue [NullValue, DictionaryValue [([0x61], DoubleValue 1)]]))) \<and>
     (Equals (ListValue [NullValue, DictionaryValue [([0x61], DoubleValue 1)]]) NullValue \<longleftrightarrow>
        ListValue [NullValue, DictionaryValue [([0x61], DoubleValue 1)]] = NullValue)"
  by (rule DeepCopy_Equals) (simp add: ascii_UTF8 is_ascii_def)

text \<open>The scalars of a value, each with the keys that lead to it.\<close>

fun leaves :: "val \<Rightarrow> (str list \<times> val) list" and dict_leaves :: "dict \<Rightarrow> (str list \<times> val) list" and
  list_leaves :: "val list \<Rightarrow> (str list \<times> val) list" where
  "leaves (DictionaryValue d) = dict_leaves d"
| "leaves (ListValue xs) = list_leaves xs"
| "leaves v = [([], v)]"
| "dict_leaves [] = []"
| "dict_leaves ((k, v) # d) = map (\<lambda>(ks, w). (k # ks, w)) (leaves v) @ dict_leaves d"
| "list_leaves [] = []"
| "list_leaves (v # xs) = leaves v @ list_leaves xs"

text \<open>No dictionary and no list in the value, itself included, is empty.\<close>

fun no_empty :: "val \<Rightarrow> bool" and dict_no_empty :: "dict \<Rightarrow> bool" and list_no_empty :: "val list \<Rightarrow> bool" where
  "no_empty (DictionaryValue d) = (d \<noteq> [] \<and> dict_no_empty d)"
| "no_empty (ListValue xs) = (xs \<noteq> [] \<and> list_no_empty xs)"
| "no_empty v = True"
| "dict_no_empty [] = True"
| "dict_no_empty ((k, v) # d) = (no_empty v \<and> dict_no_empty d)"
| "list_no_empty [] = True"
| "list_no_empty (v # xs) = (no_empty v \<and> list_no_empty xs)"

lemma dict_append [simp]:
  "dict_leaves (d @ e) = dict_leaves d @ dict_leaves e"
  "dict_no_empty (d @ e) \<longleftrightarrow> dict_no_empty d \<and> dict_no_empty e"
  "wf_entries (d @ e) \<longleftrightarrow> wf_entries d \<and> wf_entries e"
  by (induction d) auto

lemma list_append [simp]:
  "list_leaves (xs @ ys) = list_leaves xs @ list_leaves ys"
  "list_no_empty (xs @ ys) \<longleftrightarrow> list_no_empty xs \<and> list_no_empty ys"
  "wf_vals (xs @ ys) \<longleftrightarrow> wf_vals xs \<and> wf_vals ys"
  by (induction xs) auto

lemma no_empty_leaves:
  "no_empty v \<Longrightarrow> leaves v \<noteq> []"
  "dict_no_empty d \<Longrightarrow> d \<noteq> [] \<Longrightarrow> dict_leaves d \<noteq> []"
  "list_no_empty xs \<Longrightarrow> xs \<noteq> [] \<Longrightarrow> list_leaves xs \<noteq> []"
  by (induction v and d and xs rule: leaves_dict_leaves_list_leaves.induct) auto

lemma CopyWithoutEmptyChildren_leaves:
  "wf_val v \<Longrightarrow> \<exists>c. CopyWithoutEmptyChildren v = Inr c \<and>
     (case c of None \<Rightarrow> leaves v = [] | Some w \<Rightarrow> wf_val w \<and> no_empty w \<and> leaves w = leaves v)"
  "wf_entries d \<Longrightarrow> keys_sorted (r @ d) \<Longrightarrow> wf_entries r \<Longrightarrow> dict_no_empty r \<Longrightarrow>
     \<exists>c. dict_CopyWithout d r = Inr c \<and> wf_dict c \<and> dict_no_empty c \<and> dict_leaves c = dict_leaves (r @ d)"
  "wf_vals xs \<Longrightarrow> wf_vals ys \<Longrightarrow> list_no_empty ys \<Longrightarrow>
     \<exists>c. list_CopyWithout xs ys = Inr c \<and> wf_vals c \<and> list_no_empty c \<and> list_leaves c = list_leaves (ys @ xs)"
proof (induction v and d r and xs ys rule: CopyWithoutEmptyChildren_dict_CopyWithout_list_CopyWithout.induct)
  case (1 xs)
  then obtain c where "list_CopyWithout xs [] = Inr c" "wf_vals c" "list_no_empty c" "list_leaves c = list_leaves xs"
    by auto
  then show ?case using no_empty_leaves(3) [of c] by (cases "c = []") auto
next
  case (2 d)
  then obtain c where "dict_CopyWithout d [] = Inr c" "wf_dict c" "dict_no_empty c" "dict_leaves c = dict_leaves d"
    by auto
  then show ?case using no_empty_leaves(2) [of c] by (cases "c = []") auto
next
  case (10 k v d r)
  obtain c where c: "CopyWithoutEmptyChildren v = Inr c"
    "case c of None \<Rightarrow> leaves v = [] | Some w \<Rightarrow> wf_val w \<and> no_empty w \<and> leaves w = leaves v"
    using "10.IH"(1) "10.prems"(1) by auto
  have k: "\<forall>x \<in> fst ` set r. x < k"
    using "10.prems"(2) by (auto simp: sorted_wrt_append)
  show ?case
  proof (cases c)
    case None
    have "keys_sorted (r @ d)" using "10.prems"(2) by (auto simp: sorted_wrt_append)
    with "10.IH"(2) [OF c(1)] obtain e where "dict_CopyWithout d r = Inr e" "wf_dict e" "dict_no_empty e"
      "dict_leaves e = dict_leaves (r @ d)"
      using "10.prems" None by auto
    then show ?thesis using c None by simp
  next
    case (Some w)
    have "keys_sorted ((r @ [(k, w)]) @ d)" using "10.prems"(2) by (auto simp: sorted_wrt_append)
    with "10.IH"(2) [OF c(1)] obtain e where "dict_CopyWithout d (r @ [(k, w)]) = Inr e" "wf_dict e" "dict_no_empty e"
      "dict_leaves e = dict_leaves ((r @ [(k, w)]) @ d)"
      using "10.prems" Some c(2) Set_last [OF k] by auto
    then show ?thesis using c Some Set_last [OF k] by simp
  qed
next
  case (12 v xs ys)
  obtain c where c: "CopyWithoutEmptyChildren v = Inr c"
    "case c of None \<Rightarrow> leaves v = [] | Some w \<Rightarrow> wf_val w \<and> no_empty w \<and> leaves w = leaves v"
    using "12.IH"(1) "12.prems"(1) by auto
  then show ?case using "12.IH"(2) [of c] "12.prems" by (cases c) auto
qed (auto simp: new_FundamentalValue_def new_StringValue_def)

text \<open>
  \<^verbatim>\<open>DeepCopyWithoutEmptyChildren\<close> keeps exactly the scalars, under the keys and in the order they
  had, and leaves no empty dictionary or list below the dictionary it returns.
\<close>

theorem DeepCopyWithoutEmptyChildren_correct:
  assumes "wf_val (DictionaryValue d)"
  shows "\<exists>c. DeepCopyWithoutEmptyChildren d = Inr c \<and> wf_val (DictionaryValue c) \<and> dict_no_empty c \<and>
    leaves (DictionaryValue c) = leaves (DictionaryValue d)"
proof -
  obtain c where "dict_CopyWithout d [] = Inr c" "wf_dict c" "dict_no_empty c" "dict_leaves c = dict_leaves d"
    using CopyWithoutEmptyChildren_leaves(2) [of d "[]"] assms by auto
  then show ?thesis by (cases c) (simp_all add: DeepCopyWithoutEmptyChildren_def)
qed

theorem DeepCopyWithoutEmptyChildren_witness:
  "\<exists>c. DeepCopyWithoutEmptyChildren [([0x61], ListValue [DictionaryValue []]), ([0x62], NullValue)] = Inr c \<and>
     wf_val (DictionaryValue c) \<and> dict_no_empty c \<and>
     leaves (DictionaryValue c) = leaves (DictionaryValue [([0x61], ListValue [DictionaryValue []]), ([0x62], NullValue)])"
  by (rule DeepCopyWithoutEmptyChildren_correct) (simp add: ascii_UTF8 is_ascii_def)


subsection \<open>Merging\<close>

text \<open>What stands at a key after a merge, by what stood there in the other dictionary and in this one.\<close>

fun merged_at :: "val option \<Rightarrow> val option \<Rightarrow> val option \<Rightarrow> bool" where
  "merged_at None x y = (y = x)"
| "merged_at (Some (DictionaryValue s)) (Some (DictionaryValue t)) y =
     (\<exists>u. MergeDictionary s t = Inr u \<and> y = Some (DictionaryValue u))"
| "merged_at (Some v) x y = (y = Some v)"

lemma MergeDictionary_step:
  assumes "wf_val v" "wf_dict d" "IsStringUTF8 k"
    "\<And>s t. v = DictionaryValue s \<Longrightarrow> map_of d k = Some (DictionaryValue t) \<Longrightarrow> \<exists>u. MergeDictionary s t = Inr u \<and> wf_dict u"
  obtains w where "MergeDictionary ((k, v) # other) d = MergeDictionary other (SetWithoutPathExpansion k w d)"
    "wf_dict (SetWithoutPathExpansion k w d)" "merged_at (Some v) (map_of d k) (Some w)"
proof (cases "\<exists>s t. v = DictionaryValue s \<and> map_of d k = Some (DictionaryValue t)")
  case True
  then obtain s t where v: "v = DictionaryValue s" "map_of d k = Some (DictionaryValue t)" by blast
  then obtain u where u: "MergeDictionary s t = Inr u" "wf_dict u" using assms(4) by blast
  show ?thesis
  proof (rule that [of "DictionaryValue u"])
    show "wf_dict (SetWithoutPathExpansion k (DictionaryValue u) d)" using wf_Set [OF assms(2,3)] u(2) by simp
  qed (use v u get_subdict [OF assms(3), of d] in simp_all)
next
  case False
  show ?thesis
  proof (rule that [of v])
    show "MergeDictionary ((k, v) # other) d = MergeDictionary other (SetWithoutPathExpansion k v d)"
      using False DeepCopy_id(1) [OF assms(1)] get_subdict [OF assms(3), of d]
      by (cases v) (auto split: option.split val.split)
    show "wf_dict (SetWithoutPathExpansion k v d)" using wf_Set [OF assms(2,3,1)] .
    show "merged_at (Some v) (map_of d k) (Some v)"
      using False by (cases "(Some v, map_of d k, Some v)" rule: merged_at.cases) auto
  qed
qed

lemma MergeDictionary_merged:
  "wf_dict other \<Longrightarrow> wf_dict d \<Longrightarrow>
     \<exists>m. MergeDictionary other d = Inr m \<and> wf_dict m \<and> (\<forall>k. merged_at (map_of other k) (map_of d k) (map_of m k))"
proof (induction "size (DictionaryValue other)" arbitrary: other d rule: less_induct)
  case less
  show ?case
  proof (cases other)
    case (Cons e rest)
    obtain k v where e: "e = (k, v)" by fastforce
    have w: "wf_val v" "IsStringUTF8 k" "wf_dict rest" "map_of rest k = None"
      using less.prems(1) Cons e keys_distinct [of other] by (auto simp: map_of_eq_None_iff)
    have "\<exists>u. MergeDictionary s t = Inr u \<and> wf_dict u" if "v = DictionaryValue s" "map_of d k = Some (DictionaryValue t)" for s t
    proof -
      have "size (DictionaryValue s) < size (DictionaryValue other)" using that(1) Cons e by simp
      moreover have "wf_dict s" "wf_dict t" using that w(1) less.prems(2) wf_entries_map_of [of d k] by auto
      ultimately show ?thesis using less.hyps by blast
    qed
    then obtain x where x: "MergeDictionary other d = MergeDictionary rest (SetWithoutPathExpansion k x d)"
        "wf_dict (SetWithoutPathExpansion k x d)" "merged_at (Some v) (map_of d k) (Some x)"
      using MergeDictionary_step [OF w(1) less.prems(2) w(2)] unfolding Cons e by metis
    have "size (DictionaryValue rest) < size (DictionaryValue other)" using Cons e by simp
    from less.hyps [OF this w(3) x(2)] obtain m where m: "MergeDictionary rest (SetWithoutPathExpansion k x d) = Inr m" "wf_dict m"
      "\<And>l. merged_at (map_of rest l) (map_of (SetWithoutPathExpansion k x d) l) (map_of m l)" by blast
    have "merged_at (map_of other l) (map_of d l) (map_of m l)" for l
      using m(3) [of l] x(3) w(4) by (cases "l = k") (auto simp: Cons e)
    then show ?thesis using x(1) m(1,2) by auto
  qed (use less.prems(2) in simp)
qed

text \<open>
  \<^verbatim>\<open>MergeDictionary\<close> succeeds and stays well formed: under a key the other dictionary lacks the value
  stays, under a key where both hold dictionaries these are merged in turn, and under any other key of
  the other dictionary its value replaces what was there.
\<close>

theorem MergeDictionary_correct:
  assumes "wf_val (DictionaryValue other)" "wf_val (DictionaryValue d)"
  shows "\<exists>m. MergeDictionary other d = Inr m \<and> wf_val (DictionaryValue m) \<and>
    (\<forall>k. merged_at (map_of other k) (map_of d k) (map_of m k))"
  using MergeDictionary_merged [of other d] assms by simp

theorem MergeDictionary_correct_witness:
  "\<exists>m. MergeDictionary [([0x61], DictionaryValue [([0x62], NullValue)])] [([0x61], DictionaryValue []), ([0x63], NullValue)] = Inr m \<and>
     wf_val (DictionaryValue m) \<and>
     (\<forall>k. merged_at (map_of [([0x61], DictionaryValue [([0x62], NullValue)])] k)
            (map_of [([0x61], DictionaryValue []), ([0x63], NullValue)] k) (map_of m k))"
  by (rule MergeDictionary_correct) (simp_all add: ascii_UTF8 is_ascii_def)

lemma MergeDictionary_self: "wf_dict d \<Longrightarrow> MergeDictionary d d = Inr d"
proof (induction "size (DictionaryValue d)" arbitrary: d rule: less_induct)
  case less
  obtain m where m: "MergeDictionary d d = Inr m" "wf_dict m" "\<And>k. merged_at (map_of d k) (map_of d k) (map_of m k)"
    using MergeDictionary_merged [OF less.prems less.prems] by blast
  have "map_of m k = map_of d k" for k
  proof (cases "\<exists>s. map_of d k = Some (DictionaryValue s)")
    case True
    then obtain s where s: "map_of d k = Some (DictionaryValue s)" by blast
    then have e: "(k, DictionaryValue s) \<in> set d" by (rule map_of_SomeD)
    then have "size (DictionaryValue s) < size (DictionaryValue d)"
      using size_list_estimation' [OF e, of "size (DictionaryValue s)" "size_prod (\<lambda>_. 0) size"] by simp
    moreover have "wf_dict s" using wf_entries_map_of [of d k] s less.prems by fastforce
    ultimately show ?thesis using less.hyps m(3) [of k] s by simp
  next
    case False
    then show ?thesis using m(3) [of k]
      by (cases "(map_of d k, map_of d k, map_of m k)" rule: merged_at.cases) auto
  qed
  then have "m = d" using m(2) less.prems by (intro keys_sorted_eqI) auto
  then show ?case using m(1) by simp
qed

text \<open>
  Merging a well-formed dictionary into itself, or into the empty dictionary, gives that dictionary.
\<close>

theorem MergeDictionary_idempotent:
  assumes "wf_val (DictionaryValue d)"
  shows "MergeDictionary d d = Inr d \<and> MergeDictionary d [] = Inr d \<and> MergeDictionary [] d = Inr d"
proof -
  obtain m where m: "MergeDictionary d [] = Inr m" "wf_dict m" "\<And>k. merged_at (map_of d k) None (map_of m k)"
    using MergeDictionary_merged [of d "[]"] assms by auto
  have "map_of m k = map_of d k" for k
    using m(3) [of k] by (cases "map_of d k"; cases "the (map_of d k)") auto
  then have "m = d" using m(2) assms by (intro keys_sorted_eqI) auto
  then show ?thesis using m(1) MergeDictionary_self assms by simp
qed

theorem MergeDictionary_idempotent_witness:
  "MergeDictionary [([0x61], DictionaryValue [([0x62], NullValue)])] [([0x61], DictionaryValue [([0x62], NullValue)])] =
     Inr [([0x61], DictionaryValue [([0x62], NullValue)])] \<and>
   MergeDictionary [([0x61], DictionaryValue [([0x62], NullValue)])] [] = Inr [([0x61], DictionaryValue [([0x62], NullValue)])] \<and>
   MergeDictionary [] [([0x61], DictionaryValue [([0x62], NullValue)])] = Inr [([0x61], DictionaryValue [([0x62], NullValue)])]"
  by (rule MergeDictionary_idempotent) (simp add: ascii_UTF8 is_ascii_def)

subsection \<open>The invariant under every operation\<close>




lemma pad_to_replicate: "pad_to n xs = xs @ replicate (n - length xs) NullValue"
proof (induction n xs rule: pad_to.induct)
  case (1 index xs)
  show ?case
  proof (cases "length xs < index")
    case True
    then have "index - length xs = Suc (index - length (list_Append NullValue xs))" by (simp add: list_Append_def)
    then show ?thesis using 1 True by (simp add: pad_to.simps [of index xs] list_Append_def)
  qed (simp add: pad_to.simps [of index xs])
qed


































text \<open>
  The 16-bit constructor accepts text that \<^verbatim>\<open>IsStringUTF8\<close> rejects: a noncharacter such as U+FFFE
  is encoded and stored, and \<^verbatim>\<open>DeepCopy\<close> of that value then stops at the assertion of the narrow
  constructor; with characters only the copy goes through.
\<close>

theorem new_StringValue16_copy:
  assumes "list_all IsValidCodepoint cs"
  shows "DeepCopy (new_StringValue16 (encode16 cs)) =
    (if IsStringUTF8 (encode8 cs) then Inr (StringValue (encode8 cs)) else Inl (Dcheck ''IsStringUTF8(in_value)''))"
  using WideToUTF8_encode [OF assms] by (simp add: new_StringValue16_def WideToUTF8_loop new_StringValue_def)

theorem new_StringValue16_copy_witness:
  "DeepCopy (new_StringValue16 (encode16 [0xFFFE])) = (if IsStringUTF8 (encode8 [0xFFFE]) then Inr (StringValue (encode8 [0xFFFE]))
     else Inl (Dcheck ''IsStringUTF8(in_value)'')) \<and> \<not> IsStringUTF8 (encode8 [0xFFFE])"
  using new_StringValue16_copy [of "[0xFFFE]"] by (simp add: IsValidCodepoint_def) code_simp


text \<open>
  \<^verbatim>\<open>ListValue::Set\<close> beyond the end fills the gap with nulls; every other index keeps what it held.
  \<^verbatim>\<open>Remove\<close> takes out the first equal element, the one \<^verbatim>\<open>Find\<close> points to, \<^verbatim>\<open>AppendIfNotPresent\<close> adds to a
  list without one, and \<^verbatim>\<open>Insert\<close> fails beyond the end and is undone by \<^verbatim>\<open>Remove\<close> of its index.
\<close>

theorem ListValue_operations:
  "list_Set n (Some v) xs = (True, ys) \<Longrightarrow>
   list_Get i ys = (if i = n then Some v else if i < length xs then Some (xs ! i) else if i < n then Some NullValue else None) \<and>
   list_Remove v xs = (if v \<in> set xs then (Some (list_Find v xs), snd (list_Erase (list_Find v xs) xs)) else (None, xs)) \<and>
   (v \<in> set xs \<longleftrightarrow> list_Find v xs < length xs) \<and>
   AppendIfNotPresent v xs = (if v \<in> set xs then (False, xs) else (True, xs @ [v])) \<and>
   (if n \<le> length xs then fst (list_Insert n v xs) \<and> list_RemoveAt n (snd (list_Insert n v xs)) = (Some v, xs)
    else list_Insert n v xs = (False, xs) \<and> list_RemoveAt n xs = (None, xs))"
proof -
  assume set: "list_Set n (Some v) xs = (True, ys)"
  have "list_Get i ys = (if i = n then Some v else if i < length xs then Some (xs ! i) else if i < n then Some NullValue else None)"
    using set by (auto simp: list_Set_def list_Get_def pad_to_replicate list_Append_def nth_append split: if_splits)
  moreover have "list_Remove v xs = (if v \<in> set xs then (Some (list_Find v xs), snd (list_Erase (list_Find v xs) xs)) else (None, xs))"
    by (induction xs) (auto simp: Equals_eq list_Erase_def)
  moreover have "v \<in> set xs \<longleftrightarrow> list_Find v xs < length xs" by (induction xs) (auto simp: Equals_eq)
  moreover have "any_equal v xs \<longleftrightarrow> v \<in> set xs" by (induction v xs rule: any_equal.induct) (auto simp: Equals_eq)
  ultimately show ?thesis
    by (auto simp: AppendIfNotPresent_def list_Insert_def list_RemoveAt_def nth_append)
qed

theorem ListValue_operations_witness:
  "list_Get 1 [NullValue, NullValue, BooleanValue True] =
     (if (1::nat) = 2 then Some (BooleanValue True) else if 1 < length [NullValue] then Some ([NullValue] ! 1)
      else if (1::nat) < 2 then Some NullValue else None)"
  using ListValue_operations [of 2 "BooleanValue True" "[NullValue]" "[NullValue, NullValue, BooleanValue True]" 1]
  by (simp add: list_Set_def pad_to_replicate list_Append_def numeral_2_eq_2)

end
