(* ===== verification/Ini_Parser.thy ===== *)
theory Ini_Parser
  imports Value_Trees String_Split
begin

text \<open>
  The configuration file of the application (\<^verbatim>\<open>chrome/app/ini_parser.cc\<close> and \<^verbatim>\<open>GetAppConfig\<close> of
  \<^verbatim>\<open>chrome/app/client_util.cc\<close>): a tokenizer cuts the content into lines, each line is a comment, a
  section header or an assignment, and the assignments go into a dictionary under \<^verbatim>\<open>section.key\<close>.
\<close>

subsection \<open>The parser\<close>

record ini_parser =
  used :: bool
  root :: dict

definition DictionaryValueINIParser :: ini_parser where
  "DictionaryValueINIParser = \<lparr>used = False, root = []\<rparr>"

definition HandleTriplet :: "str \<Rightarrow> str \<Rightarrow> str \<Rightarrow> dict \<Rightarrow> dict result" where
  "HandleTriplet section_name key val r =
     (if str_find section_name delimiter 0 = None \<and> str_find key delimiter 0 = None
      then SetString (section_name @ delimiter @ key) val r else Inr r)"

text \<open>The body of the loop: the section the next line is in, and the dictionary.\<close>

definition parse_line :: "str \<Rightarrow> str \<Rightarrow> dict \<Rightarrow> (str \<times> dict) result" where
  "parse_line line current_section r =
     (if line = [] then Inr (current_section, r)
      else if line ! 0 = 0x23 \<or> line ! 0 = 0x3B then Inr (current_section, r)
      else if line ! 0 = 0x5B then
        (let sec = drop 1 line
         in Inr (case str_rfind sec [0x5D] (length sec) of None \<Rightarrow> sec | Some e \<Rightarrow> take e sec, r))
      else (case str_find line [0x3D] 0 of
          None \<Rightarrow> Inr (current_section, r)
        | Some equal \<Rightarrow>
            rbind (HandleTriplet current_section (substr line 0 equal) (drop (equal + 1) line) r) (\<lambda>r'.
              Inr (current_section, r'))))"

function Parse_loop :: "tokenizer \<Rightarrow> str \<Rightarrow> dict \<Rightarrow> dict result" where
  "Parse_loop t current_section r =
     (let (ok, t') = GetNext t
      in if \<not> ok then Inr r
         else rbind (parse_line (token t') current_section r) (\<lambda>sr. Parse_loop t' (fst sr) (snd sr)))"
  by pat_completeness auto

termination
  by (relation "measure (\<lambda>(t, _). length (source t) - token_end t)") (auto dest!: GetNext_progress [OF sym])

declare Parse_loop.simps [simp del]

definition Parse :: "str \<Rightarrow> ini_parser \<Rightarrow> ini_parser result" where
  "Parse content p =
     require (\<not> used p) (Dcheck ''!used_'')
       (rbind (Parse_loop (StringTokenizer content [0x0D, 0x0A]) [] (root p)) (\<lambda>r. Inr \<lparr>used = True, root = r\<rparr>))"

text \<open>The content of the file, empty when it cannot be read, is an argument.\<close>

definition GetAppConfig :: "str \<Rightarrow> str \<Rightarrow> char16 list \<Rightarrow> char16 list result" where
  "GetAppConfig ini_content key default_val =
     rbind (Parse ini_content DictionaryValueINIParser) (\<lambda>ini_parser.
       rbind (GetString16 key (root ini_parser)) (\<lambda>found.
         let val = (case found of None \<Rightarrow> [] | Some s \<Rightarrow> s) in Inr (if val = [] then default_val else val)))"

subsection \<open>What a configuration file says\<close>

text \<open>The assignments of a list of lines, in order, with their sections.\<close>

definition header_name :: "str \<Rightarrow> str" where
  "header_name line = (if 0x5D \<in> set line then rev (tl (dropWhile (\<lambda>c. c \<noteq> 0x5D) (rev (tl line)))) else tl line)"

fun triplets :: "str \<Rightarrow> str list \<Rightarrow> (str \<times> str \<times> str) list" where
  "triplets s [] = []"
| "triplets s (line # ls) =
     (if line = [] \<or> hd line \<in> {0x23, 0x3B} then triplets s ls
      else if hd line = 0x5B then triplets (header_name line) ls
      else if 0x3D \<in> set line then
        (s, takeWhile (\<lambda>c. c \<noteq> 0x3D) line, tl (dropWhile (\<lambda>c. c \<noteq> 0x3D) line)) # triplets s ls
      else triplets s ls)"

definition entries :: "str \<Rightarrow> (str \<times> str \<times> str) list" where
  "entries content = filter (\<lambda>(s, k, v). 0x2E \<notin> set s \<and> 0x2E \<notin> set k)
     (triplets [] (words (\<lambda>c. c \<in> {0x0D, 0x0A}) content))"

text \<open>The last assignment to a key of a section counts.\<close>

definition config :: "(str \<times> str \<times> str) list \<Rightarrow> str \<Rightarrow> str \<Rightarrow> str option" where
  "config es s k = map_of (rev (map (\<lambda>(s, k, v). ((s, k), v)) es)) (s, k)"

fun utf8_triplet :: "str \<times> str \<times> str \<Rightarrow> bool" where
  "utf8_triplet (s, k, v) \<longleftrightarrow> IsStringUTF8 s \<and> IsStringUTF8 k \<and> IsStringUTF8 v"

fun store :: "(str \<times> str \<times> str) list \<Rightarrow> dict \<Rightarrow> dict" where
  "store [] r = r"
| "store ((s, k, v) # es) r = store es (update [s, k] (StringValue v) r)"

subsection \<open>The parser does that\<close>

lemma header_name_rfind:
  "(case str_rfind sec [0x5D] (length sec) of None \<Rightarrow> sec | Some e \<Rightarrow> take e sec) =
     (if 0x5D \<in> set sec then rev (tl (dropWhile (\<lambda>c. c \<noteq> 0x5D) (rev sec))) else sec)"
  for sec :: str
proof (cases "str_rfind sec [0x5D] (length sec)")
  case None
  then show ?thesis using str_rfind_single(1) [of sec "0x5D"] by simp
next
  case (Some e)
  have r: "sec = take e sec @ 0x5D # drop (e + 1) sec" "0x5D \<notin> set (drop (e + 1) sec)"
    using str_rfind_single(2) [OF Some] by simp_all
  have "rev sec = rev (drop (e + 1) sec) @ 0x5D # rev (take e sec)"
    by (subst r(1)) simp
  then have "dropWhile (\<lambda>c. c \<noteq> 0x5D) (rev sec) = 0x5D # rev (take e sec)"
    using r(2) by (simp add: dropWhile_append)
  moreover have "0x5D \<in> set sec" by (subst r(1)) simp
  ultimately show ?thesis using Some by simp
qed

lemma parse_line_triplets:
  "parse_line line s r =
     (case triplets s [line] of
        [] \<Rightarrow> Inr (if line \<noteq> [] \<and> hd line = 0x5B then header_name line else s, r)
      | (s', k, v) # _ \<Rightarrow> rbind (HandleTriplet s k v r) (\<lambda>r'. Inr (s, r')))"
proof (cases line)
  case (Cons c cs)
  show ?thesis
  proof (cases "c = 0x5B")
    case True
    then show ?thesis using header_name_rfind [of cs] Cons
      by (simp add: parse_line_def header_name_def Let_def)
  next
    case False
    then show ?thesis using Cons
      by (auto simp: parse_line_def str_find_single substr_def takeWhile_eq_take [symmetric] dropWhile_eq_drop tl_drop drop_Suc)
  qed
qed (simp add: parse_line_def)

lemma HandleTriplet_update:
  "HandleTriplet s k v r =
     (if 0x2E \<notin> set s \<and> 0x2E \<notin> set k
      then require (utf8_triplet (s, k, v)) (Dcheck (if IsStringUTF8 v then ''IsStringUTF8'' else ''IsStringUTF8(in_value)''))
             (Inr (update [s, k] (StringValue v) r))
      else Inr r)"
proof (cases "0x2E \<notin> set s \<and> 0x2E \<notin> set k")
  case True
  then have "path_keys (s @ 0x2E # k) = [s, k]" by (simp add: path_keys_delimiter path_keys_no_delimiter)
  then show ?thesis using True
    by (simp add: HandleTriplet_def str_find_delimiter_None SetString_def new_StringValue_def Set_update utf8_check_def
        IsStringUTF8_delimiter require_def del: update.simps)
      (auto simp: delimiter_def IsStringUTF8_delimiter simp del: update.simps)
next
  case False
  then show ?thesis by (auto simp: HandleTriplet_def str_find_delimiter_None)
qed

abbreviation section_after :: "str \<Rightarrow> str \<Rightarrow> str" where
  "section_after s line \<equiv> (if line \<noteq> [] \<and> hd line = 0x5B then header_name line else s)"

abbreviation no_delimiter :: "str \<times> str \<times> str \<Rightarrow> bool" where
  "no_delimiter \<equiv> (\<lambda>(s, k, v). 0x2E \<notin> set s \<and> 0x2E \<notin> set k)"

lemma triplets_Cons: "triplets s (l # ls) = triplets s [l] @ triplets (section_after s l) ls"
  by (cases l) auto

lemma triplets_single:
  "triplets s [l] = [] \<or> (\<exists>k v. triplets s [l] = [(s, k, v)] \<and> section_after s l = s)"
  by auto

lemma parse_line_store:
  "parse_line l s r = Inr (s', r') \<longleftrightarrow>
     (let es = filter no_delimiter (triplets s [l])
      in list_all utf8_triplet es \<and> r' = store es r \<and> s' = section_after s l)"
  using triplets_single [of s l]
  by (elim disjE exE conjE)
    (auto simp: parse_line_triplets HandleTriplet_update rsimps Let_def simp del: triplets.simps update.simps utf8_triplet.simps)

lemma store_append: "store (es @ fs) r = store fs (store es r)"
  by (induction es r rule: store.induct) auto

lemma Parse_loop_store:
  assumes "quotes t = []" "\<not> return_delims t" "token_end t \<le> length (source t)"
  shows "Parse_loop t s r = Inr x \<longleftrightarrow>
    (let es = filter no_delimiter (triplets s (words (\<lambda>c. c \<in> set (delims t)) (drop (token_end t) (source t))))
     in list_all utf8_triplet es \<and> x = store es r)"
  using assms
proof (induction t s r rule: Parse_loop.induct)
  case (1 t s r)
  have g: "GetNext t = QuickGetNext_loop (t\<lparr>token_is_delim := False\<rparr>)"
    using "1.prems" by (simp add: GetNext_def QuickGetNext_def)
  note w = QuickGetNext_loop_words [of "t\<lparr>token_is_delim := False\<rparr>", folded g]
  obtain ok t1 where n: "GetNext t = (ok, t1)" by fastforce
  let ?P = "\<lambda>c. c \<in> set (delims t)"
  show ?case
  proof (cases ok)
    case True
    let ?l = "token t1" let ?ls = "words ?P (drop (token_end t1) (source t))"
    have t1: "quotes t1 = []" "\<not> return_delims t1" "token_end t1 \<le> length (source t1)" "source t1 = source t" "delims t1 = delims t"
      "words ?P (drop (token_end t) (source t)) = ?l # ?ls"
      using w n True "1.prems" by auto
    have "Parse_loop t s r = Inr x \<longleftrightarrow>
        (\<exists>s' r'. parse_line ?l s r = Inr (s', r') \<and> Parse_loop t1 s' r' = Inr x)"
      using n True by (simp add: Parse_loop.simps [of t] rsimps)
    also have "\<dots> \<longleftrightarrow> (\<exists>s' r'. parse_line ?l s r = Inr (s', r') \<and>
        (let es = filter no_delimiter (triplets s' ?ls) in list_all utf8_triplet es \<and> x = store es r'))"
      using "1.IH" [OF n [symmetric] refl _ _ t1(1-3)] True t1(4,5) by fastforce
    also have "\<dots> \<longleftrightarrow> (let es = filter no_delimiter (triplets s (?l # ?ls)) in list_all utf8_triplet es \<and> x = store es r)"
      by (subst triplets_Cons) (auto simp: parse_line_store Let_def store_append simp del: triplets.simps)
    finally show ?thesis using t1(6) by simp
  next
    case False
    then show ?thesis using w n "1.prems" by (auto simp: Parse_loop.simps [of t])
  qed
qed

lemma Parse_store:
  "Parse content DictionaryValueINIParser = Inr p \<longleftrightarrow>
     list_all utf8_triplet (entries content) \<and> p = \<lparr>used = True, root = store (entries content) []\<rparr>"
  using Parse_loop_store [of "StringTokenizer content [0x0D, 0x0A]" "[]" "[]"]
  by (auto simp: Parse_def DictionaryValueINIParser_def StringTokenizer_def entries_def rsimps Let_def)

text \<open>The dictionary holds the assignments made so far and nothing else.\<close>

fun holds_section :: "val option \<Rightarrow> (str \<Rightarrow> str option) \<Rightarrow> bool" where
  "holds_section None g \<longleftrightarrow> (\<forall>k. g k = None)"
| "holds_section (Some v) g \<longleftrightarrow> (\<exists>c. v = DictionaryValue c \<and> (\<forall>k. map_of c k = map_option StringValue (g k)))"

definition holds_config :: "dict \<Rightarrow> (str \<Rightarrow> str \<Rightarrow> str option) \<Rightarrow> bool" where
  "holds_config r f \<longleftrightarrow> (\<forall>s. holds_section (map_of r s) (f s))"

lemma holds_config_update:
  assumes "holds_config r f"
  shows "holds_config (update [s, k] (StringValue v) r) (\<lambda>s' k'. if s' = s \<and> k' = k then Some v else f s' k')"
proof -
  have h: "holds_section (map_of r s') (f s')" for s' using assms by (simp add: holds_config_def)
  let ?c = "case subdict s r of None \<Rightarrow> [] | Some c \<Rightarrow> c"
  have "map_of ?c k' = map_option StringValue (f s k')" for k'
    using h [of s] by (cases "map_of r s") auto
  then show ?thesis using h by (auto simp: holds_config_def simp del: subdict.simps)
qed

lemma config_Cons:
  "config ((s, k, v) # es) s' k' = (case config es s' k' of None \<Rightarrow> if s' = s \<and> k' = k then Some v else None | Some w \<Rightarrow> Some w)"
  by (auto simp: config_def map_add_def split: option.split)

lemma holds_config_store:
  "holds_config r f \<Longrightarrow>
     holds_config (store es r) (\<lambda>s k. case config es s k of None \<Rightarrow> f s k | Some v \<Rightarrow> Some v)"
proof (induction es r arbitrary: f rule: store.induct)
  case (2 s k v es r)
  have e: "(\<lambda>s' k'. case config ((s, k, v) # es) s' k' of None \<Rightarrow> f s' k' | Some w \<Rightarrow> Some w) =
      (\<lambda>s' k'. case config es s' k' of None \<Rightarrow> (if s' = s \<and> k' = k then Some v else f s' k') | Some w \<Rightarrow> Some w)"
    by (auto simp: config_Cons fun_eq_iff split: option.split)
  show ?case unfolding e store.simps using 2(1) [OF holds_config_update [OF 2(2)]] .
qed (simp add: config_def)

lemma lookup_store:
  "(case lookup ks (store es []) of Some (StringValue v) \<Rightarrow> Some v | _ \<Rightarrow> None) =
     (case ks of [s, k] \<Rightarrow> config es s k | _ \<Rightarrow> None)"
proof -
  have "(\<lambda>s k. case config es s k of None \<Rightarrow> None | Some v \<Rightarrow> Some v) = config es"
    by (auto simp: fun_eq_iff split: option.split)
  then have h: "holds_section (map_of (store es []) s) (config es s)" for s
    using holds_config_store [of "[]" "\<lambda>_ _. None" es] by (simp add: holds_config_def)
  consider "ks = []" | s where "ks = [s]" | s k where "ks = [s, k]" | s k k' ls where "ks = s # k # k' # ls"
    by (metis neq_Nil_conv)
  then show ?thesis
  proof cases
    case (2 s)
    then show ?thesis using h [of s] by (cases "map_of (store es []) s") auto
  next
    case (3 s k)
    then show ?thesis using h [of s] by (cases "map_of (store es []) s"; cases "config es s k") auto
  next
    case (4 s k k' ls)
    then show ?thesis using h [of s] by (cases "map_of (store es []) s"; cases "config es s k") auto
  qed simp
qed

text \<open>
  C36: parsing a file ends normally exactly when every assignment that goes into the dictionary is
  UTF-8; then a configuration value is the last assignment to the key in its section, and the default
  when there is none, when it is empty, or when the key does not name a section and a key.
\<close>

theorem GetAppConfig_correct:
  assumes "IsStringUTF8 key"
  shows "GetAppConfig content key default_val = Inr val \<longleftrightarrow>
    list_all utf8_triplet (entries content) \<and>
    val = (case path_keys key of
        [s, k] \<Rightarrow> (case config (entries content) s k of
            None \<Rightarrow> default_val | Some v \<Rightarrow> if UTF8ToWide v = [] then default_val else UTF8ToWide v)
      | _ \<Rightarrow> default_val)"
proof -
  let ?l = "\<lambda>r. lookup (path_keys key) r" and ?r = "store (entries content) []"
  let ?v = "case ?l ?r of Some (StringValue v) \<Rightarrow> Some v | _ \<Rightarrow> None"
  have "GetString16 key ?r = Inr (map_option UTF8ToWide ?v)"
    using assms by (auto simp: GetString16_def Get_lookup utf8_check_def get_as_def split: option.split val.split)
  moreover have "?v = (case path_keys key of [s, k] \<Rightarrow> config (entries content) s k | _ \<Rightarrow> None)"
    by (rule lookup_store)
  ultimately have "GetAppConfig content key default_val = Inr val \<longleftrightarrow> list_all utf8_triplet (entries content) \<and>
      val = (case (case path_keys key of [s, k] \<Rightarrow> config (entries content) s k | _ \<Rightarrow> None) of
          None \<Rightarrow> default_val | Some v \<Rightarrow> if UTF8ToWide v = [] then default_val else UTF8ToWide v)"
    by (auto simp: GetAppConfig_def Parse_store rsimps Let_def option.case_eq_if split: if_splits)
  then show ?thesis by (auto split: list.splits)
qed

subsection \<open>A UTF-8 file\<close>

lemma IsStringUTF8_Nil: "IsStringUTF8 []"
  by (intro ascii_UTF8) (simp add: is_ascii_def)

lemma IsStringUTF8_cut:
  assumes "IsStringUTF8 s" "\<And>c. P c \<Longrightarrow> c < 0x80"
  shows "IsStringUTF8 (takeWhile (\<lambda>c. \<not> P c) s)" "IsStringUTF8 (dropWhile (\<lambda>c. \<not> P c) s)"
    "IsStringUTF8 (tl (dropWhile (\<lambda>c. \<not> P c) s))"
proof (atomize (full), cases "dropWhile (\<lambda>c. \<not> P c) s")
  case Nil
  then have "takeWhile (\<lambda>c. \<not> P c) s = s" by (metis append_Nil2 takeWhile_dropWhile_id)
  then show "IsStringUTF8 (takeWhile (\<lambda>c. \<not> P c) s) \<and> IsStringUTF8 (dropWhile (\<lambda>c. \<not> P c) s) \<and> IsStringUTF8 (tl (dropWhile (\<lambda>c. \<not> P c) s))"
    using assms(1) Nil by (metis IsStringUTF8_Nil list.sel(2))
next
  case (Cons y ys)
  then have "P y" by (metis dropWhile_eq_Cons_conv)
  then have y: "y < 0x80" using assms(2) by blast
  have "s = takeWhile (\<lambda>c. \<not> P c) s @ y # ys" using Cons by (metis takeWhile_dropWhile_id)
  then have "IsStringUTF8 (takeWhile (\<lambda>c. \<not> P c) s)" "IsStringUTF8 ys"
    using assms(1) IsStringUTF8_ascii [OF y] by metis+
  then show "IsStringUTF8 (takeWhile (\<lambda>c. \<not> P c) s) \<and> IsStringUTF8 (dropWhile (\<lambda>c. \<not> P c) s) \<and> IsStringUTF8 (tl (dropWhile (\<lambda>c. \<not> P c) s))"
    using Cons IsStringUTF8_ascii [OF y, of "[]" ys] by (simp add: IsStringUTF8_Nil)
qed

lemma IsStringUTF8_dropWhile:
  "IsStringUTF8 s \<Longrightarrow> (\<And>c. P c \<Longrightarrow> c < 0x80) \<Longrightarrow> IsStringUTF8 (dropWhile P s)"
proof (induction s)
  case (Cons c s)
  show ?case
  proof (cases "P c")
    case True
    then show ?thesis using Cons IsStringUTF8_ascii [of c "[]" s] by simp
  qed (use Cons in simp)
qed simp

lemma IsStringUTF8_words:
  "IsStringUTF8 s \<Longrightarrow> (\<And>c. P c \<Longrightarrow> c < 0x80) \<Longrightarrow> list_all IsStringUTF8 (words P s)"
proof (induction P s rule: words.induct)
  case (1 P s)
  show ?case
  proof (cases "dropWhile P s")
    case (Cons y ys)
    have u: "IsStringUTF8 (y # ys)" using IsStringUTF8_dropWhile [of s P] "1.prems" Cons by simp
    have "\<not> P y" using Cons by (metis dropWhile_eq_Cons_conv)
    then have "IsStringUTF8 (y # takeWhile (\<lambda>c. \<not> P c) ys)" "IsStringUTF8 (dropWhile (\<lambda>c. \<not> P c) ys)"
      using IsStringUTF8_cut [of "y # ys" P] u "1.prems"(2) by simp_all
    then show ?thesis using "1.IH" [OF Cons] "1.prems"(2) Cons by (subst words.simps) simp
  qed (simp add: words.simps [of P s] del: dropWhile_eq_Nil_conv)
qed

lemma IsStringUTF8_tl: "IsStringUTF8 line \<Longrightarrow> hd line < 0x80 \<Longrightarrow> IsStringUTF8 (tl line)"
  using IsStringUTF8_ascii [of "hd line" "[]" "tl line"] by (cases line) auto

lemma IsStringUTF8_header_name: "IsStringUTF8 line \<Longrightarrow> line \<noteq> [] \<Longrightarrow> hd line = 0x5B \<Longrightarrow> IsStringUTF8 (header_name line)"
proof -
  assume l: "IsStringUTF8 line" "line \<noteq> []" "hd line = 0x5B"
  then have t: "IsStringUTF8 (tl line)" by (intro IsStringUTF8_tl) simp_all
  have "header_name line = (case str_rfind (tl line) [0x5D] (length (tl line)) of None \<Rightarrow> tl line | Some e \<Rightarrow> take e (tl line))"
    using l by (subst header_name_rfind) (cases line, auto simp: header_name_def)
  moreover have "IsStringUTF8 (take e (tl line))" if "str_rfind (tl line) [0x5D] (length (tl line)) = Some e" for e
  proof -
    have "tl line = take e (tl line) @ 0x5D # drop (e + 1) (tl line)" using str_rfind_single(2) [OF that] by simp
    then show ?thesis using t IsStringUTF8_ascii [of "0x5D" "take e (tl line)" "drop (e + 1) (tl line)"] by simp
  qed
  ultimately show ?thesis using t by (simp split: option.split)
qed

lemma triplets_UTF8: "list_all IsStringUTF8 ls \<Longrightarrow> IsStringUTF8 s \<Longrightarrow> list_all utf8_triplet (triplets s ls)"
proof (induction s ls rule: triplets.induct)
  case (2 s line ls)
  then show ?case
    using IsStringUTF8_header_name [of line] IsStringUTF8_cut [of line "\<lambda>c. c = 0x3D"] by auto
qed simp

text \<open>
  A UTF-8 configuration file is always read: parsing it ends normally, once per parser, with a
  well-formed dictionary.
\<close>

theorem Parse_UTF8:
  assumes "IsStringUTF8 content"
  shows "\<exists>p. Parse content DictionaryValueINIParser = Inr p \<and> wf_val (DictionaryValue (root p)) \<and>
    Parse other p = Inl (Dcheck ''!used_'')"
proof -
  have "list_all utf8_triplet (triplets [] (words (\<lambda>c. c \<in> {0x0D, 0x0A}) content))"
    by (intro triplets_UTF8 IsStringUTF8_words IsStringUTF8_Nil assms) auto
  then have u: "list_all utf8_triplet (entries content)" by (simp add: entries_def list_all_iff)
  have "wf_dict r \<Longrightarrow> list_all utf8_triplet es \<Longrightarrow> wf_dict (store es r)" for es r
  proof (induction es r rule: store.induct)
    case (2 s k v es r)
    then show ?case using wf_update [of r "[s, k]" "StringValue v"] by (simp del: update.simps)
  qed simp
  then have "wf_dict (store (entries content) [])" using u by simp
  then show ?thesis using u Parse_store [of content] by (simp add: Parse_def)
qed

theorem Parse_UTF8_witness:
  "\<exists>p. Parse [0x5B, 0x61, 0x5D, 0x0A, 0x6B, 0x3D, 0x76] DictionaryValueINIParser = Inr p \<and> wf_val (DictionaryValue (root p)) \<and>
     Parse [] p = Inl (Dcheck ''!used_'')"
  by (rule Parse_UTF8, rule ascii_UTF8) (simp add: is_ascii_def)

text \<open>\<^verbatim>\<open>[a]\<close>, \<^verbatim>\<open>k=v\<close>: the value of \<^verbatim>\<open>a.k\<close> is \<^verbatim>\<open>v\<close>; with the byte 0xB0 of a local encoding instead of \<^verbatim>\<open>v\<close>
  the parser stops at an assertion.\<close>

theorem GetAppConfig_correct_witness:
  "GetAppConfig [0x5B, 0x61, 0x5D, 0x0A, 0x6B, 0x3D, 0x76] [0x61, 0x2E, 0x6B] [] = Inr [0x76] \<and>
   (\<forall>val. GetAppConfig [0x6B, 0x3D, 0xB0] [0x2E, 0x6B] [] \<noteq> Inr val)"
proof -
  have k: "IsStringUTF8 [0x61, 0x2E, 0x6B]" "IsStringUTF8 [0x2E, 0x6B]"
    by (rule ascii_UTF8, simp add: is_ascii_def)+
  have e: "entries [0x5B, 0x61, 0x5D, 0x0A, 0x6B, 0x3D, 0x76] = [([0x61], [0x6B], [0x76])]" "entries [0x6B, 0x3D, 0xB0] = [([], [0x6B], [0xB0])]"
    by (simp_all add: entries_def words.simps header_name_def)
  have u: "utf8_triplet ([0x61], [0x6B], [0x76])" by (simp add: ascii_UTF8 is_ascii_def)
  have n: "\<not> IsStringUTF8 [0xB0]" by code_simp
  have "UTF8ToWide [0x76] = [0x76]" by code_simp
  then show ?thesis
    using GetAppConfig_correct [OF k(1), of "[0x5B, 0x61, 0x5D, 0x0A, 0x6B, 0x3D, 0x76]" "[]"]
      GetAppConfig_correct [OF k(2), of "[0x6B, 0x3D, 0xB0]" "[]"] u n
    by (simp add: e config_def)
qed

end
