(* ===== verification/Utf_Cutting.thy ===== *)
theory Utf_Cutting
  imports Command_Line
begin

text \<open>
  Cutting encoded text at ASCII characters: in both encodings an ASCII character stands for itself and
  occurs in no longer sequence, so splitting and trimming commute with the encodings.
\<close>

text \<open>An ASCII character as a unit of the encoding \<open>'a\<close>, and the encodings of one code point.\<close>

lemma APPEND8_cases:
  assumes "IsValidCodepoint c"
  shows "c < 0x80 \<and> CBU8_APPEND_UNSAFE c = [ucast c] \<or> 0x80 \<le> c \<and> (\<forall>b \<in> set (CBU8_APPEND_UNSAFE c). 0x80 \<le> b)"
proof (cases "c < 0x80")
  case True
  then have "c \<le> 0x7f" by (simp add: word_less_nat_alt word_le_nat_alt)
  then show ?thesis using True by (simp add: CBU8_APPEND_UNSAFE_def)
next
  case False
  then have n: "\<not> c \<le> 0x7f" by (simp add: word_less_nat_alt word_le_nat_alt)
  have b: "0x80 \<le> (x :: byte)" if "bit x 7" for x using that byte_less_0x80 [of x] by (simp add: not_less)
  have "\<forall>b \<in> set (CBU8_APPEND_UNSAFE c). bit b 7"
    using n by (auto simp: CBU8_APPEND_UNSAFE_def bit_simps utf)
  then show ?thesis using False b by auto
qed


lemma APPEND16_cases:
  assumes "IsValidCodepoint c"
  shows "c < 0x80 \<and> CBU16_APPEND_UNSAFE c = [ucast c] \<or> 0x80 \<le> c \<and> (\<forall>u \<in> set (CBU16_APPEND_UNSAFE c). 0x80 \<le> u)"
proof (cases "c \<le> 0xffff")
  case True
  have "unat (ucast c :: char16) = unat c" using True by (simp add: unsigned_ucast_eq take_bit_eq_mod word_le_nat_alt)
  then show ?thesis using True by (auto simp: CBU16_APPEND_UNSAFE_def word_le_nat_alt word_less_nat_alt)
next
  case False
  then have c: "0xffff < c" "c \<le> 0x10ffff" using assms by (auto simp: IsValidCodepoint_def word_less_nat_alt word_le_nat_alt)
  note s = supplementary [OF c]
  have u: "unat c < 0x110000" using c(2) by (simp add: word_le_nat_alt)
  then have "unat c div 1024 < 0x440" by (simp add: div_less_iff_less_mult)
  then have "unat (ucast (drop_bit 10 c + 0xd7c0) :: char16) = unat c div 1024 + 0xd7c0"
    using s(1) by (simp add: unsigned_ucast_eq take_bit_eq_mod)
  moreover have "unat (ucast ((c AND 0x3ff) OR 0xdc00) :: char16) = unat c mod 1024 + 0xdc00"
  proof -
    have "unat c mod 1024 < 1024" by simp
    then show ?thesis using s(2) by (simp add: unsigned_ucast_eq take_bit_eq_mod)
  qed
  ultimately have "0x80 \<le> (ucast (drop_bit 10 c + 0xd7c0) :: char16)" "0x80 \<le> (ucast ((c AND 0x3ff) OR 0xdc00) :: char16)"
    by (simp_all add: word_le_nat_alt)
  moreover have "0x80 \<le> c" using c(1) by (simp add: word_less_nat_alt word_le_nat_alt)
  ultimately show ?thesis using False by (simp add: CBU16_APPEND_UNSAFE_def)
qed

text \<open>
  Either encoding, as a map from code points to units that keeps ASCII and writes ASCII units only for
  ASCII.
\<close>

locale ascii_transparent =
  fixes encode :: "code_point \<Rightarrow> 'a::len word list"
  assumes encode_cases: "IsValidCodepoint c \<Longrightarrow>
    c < 0x80 \<and> encode c = [ucast c] \<or> 0x80 \<le> c \<and> (\<forall>u \<in> set (encode c). 128 \<le> unat u)"
    and encode_nonempty: "encode c \<noteq> []"
    and width: "7 < LENGTH('a)"
begin

text \<open>The encoding of a text.\<close>

definition code :: "code_point list \<Rightarrow> 'a word list" where
  "code cs = concat (map encode cs)"

lemma code_simps [simp]:
  "code [] = []" "code (c # cs) = encode c @ code cs" "code (cs @ ds) = code cs @ code ds"
  by (simp_all add: code_def)

lemma unat_ascii: "a < 0x80 \<Longrightarrow> unat (ucast (a :: code_point) :: 'a word) = unat a"
proof -
  assume "a < 0x80"
  then have "unat a < 128" by (simp add: word_less_nat_alt)
  moreover have "128 \<le> (2 :: nat) ^ LENGTH('a)" using power_increasing [of 7 "LENGTH('a)" "2 :: nat"] width by simp
  ultimately show ?thesis by (simp add: unsigned_ucast_eq take_bit_eq_mod)
qed

lemma encode_ascii: "IsValidCodepoint c \<Longrightarrow> a < 0x80 \<Longrightarrow> ucast a \<in> set (encode c) \<longleftrightarrow> c = a"
  using encode_cases [of c] unat_ascii [of a] unat_ascii [of c]
  by (auto simp: word_less_nat_alt word_le_nat_alt) (metis word_unat_eq_iff)+

lemma encode_self: "IsValidCodepoint a \<Longrightarrow> a < 0x80 \<Longrightarrow> encode a = [ucast a]"
  using encode_cases [of a] by (auto simp: word_less_nat_alt word_le_nat_alt)

lemma code_ascii: "list_all IsValidCodepoint cs \<Longrightarrow> a < 0x80 \<Longrightarrow> ucast a \<in> set (code cs) \<longleftrightarrow> a \<in> set cs"
  by (induction cs) (auto simp: encode_ascii)

lemma code_empty [simp]: "code cs = [] \<longleftrightarrow> cs = []"
  using encode_nonempty by (cases cs) auto

lemma pieces_before: "s \<notin> set xs \<Longrightarrow> pieces s (xs @ ys) = (xs @ hd (pieces s ys)) # tl (pieces s ys)"
  by (induction xs) auto

lemma code_pieces:
  "list_all IsValidCodepoint cs \<Longrightarrow> a < 0x80 \<Longrightarrow> IsValidCodepoint a \<Longrightarrow> pieces (ucast a) (code cs) = map code (pieces a cs)"
proof (induction cs)
  case (Cons c cs)
  have "pieces a cs \<noteq> []" by simp
  then obtain p ps where p: "pieces a cs = p # ps" by (cases "pieces a cs") auto
  show ?case
  proof (cases "c = a")
    case True
    then show ?thesis using Cons by (simp add: encode_self)
  next
    case False
    then have "ucast a \<notin> set (encode c)" using Cons.prems encode_ascii [of c a] by simp
    then show ?thesis using Cons False p by (simp add: pieces_before)
  qed
qed simp

text \<open>Trimming ASCII characters.\<close>

lemma code_dropWhile:
  assumes "list_all IsValidCodepoint cs" "\<And>w. w \<in> ws \<Longrightarrow> w < 0x80"
  shows "dropWhile (\<lambda>u. u \<in> ucast ` ws) (code cs) = code (dropWhile (\<lambda>c. c \<in> ws) cs)"
    "dropWhile (\<lambda>u. u \<in> ucast ` ws) (rev (code cs)) = rev (code (rev (dropWhile (\<lambda>c. c \<in> ws) (rev cs))))"
proof -
  have e: "u \<notin> ucast ` ws" if "IsValidCodepoint c" "c \<notin> ws" "u \<in> set (encode c)" for u c
    using that assms(2) encode_ascii [OF that(1)] by auto
  have s: "encode c = [ucast c]" if "IsValidCodepoint c" "c \<in> ws" for c
    using that assms(2) encode_self [of c] by simp
  have stop: "dropWhile P (xs @ ys) = xs @ ys" if "xs \<noteq> []" "\<forall>x \<in> set xs. \<not> P x" for P and xs ys :: "'a word list"
    using that by (cases xs) auto
  show "dropWhile (\<lambda>u. u \<in> ucast ` ws) (code cs) = code (dropWhile (\<lambda>c. c \<in> ws) cs)"
    using assms(1)
  proof (induction cs)
    case (Cons c cs)
    then show ?case using s [of c] stop [of "encode c" "\<lambda>u. u \<in> ucast ` ws" "code cs"] encode_nonempty e [of c]
      by (cases "c \<in> ws") auto
  qed simp
  show "dropWhile (\<lambda>u. u \<in> ucast ` ws) (rev (code cs)) = rev (code (rev (dropWhile (\<lambda>c. c \<in> ws) (rev cs))))"
    using assms(1)
  proof (induction cs rule: rev_induct)
    case (snoc c cs)
    then show ?case
      using s [of c] stop [of "rev (encode c)" "\<lambda>u. u \<in> ucast ` ws" "rev (code cs)"] encode_nonempty e [of c]
      by (cases "c \<in> ws") auto
  qed simp
qed

lemma code_TrimAll:
  assumes "list_all IsValidCodepoint cs" "\<forall>w \<in> set ws. w < 0x80"
  shows "TrimAll (map ucast ws) (code cs) = code (TrimAll ws cs)"
proof -
  have "list_all IsValidCodepoint (dropWhile (\<lambda>c. c \<in> set ws) cs)"
    using assms(1) by (auto simp: list_all_iff dest: set_dropWhileD)
  then show ?thesis using assms
    by (simp add: TrimAll_dropWhile code_dropWhile)
qed

end

text \<open>UTF-8 and UTF-16 are such encodings.\<close>

interpretation utf8: ascii_transparent CBU8_APPEND_UNSAFE
  by unfold_locales (use APPEND8_cases in \<open>auto simp: word_le_nat_alt\<close>)

interpretation utf16: ascii_transparent CBU16_APPEND_UNSAFE
  by unfold_locales (use APPEND16_cases in \<open>auto simp: word_le_nat_alt\<close>)

lemma code_encode: "utf8.code = encode8" "utf16.code = encode16"
  by (simp_all add: fun_eq_iff utf8.code_def utf16.code_def encode8_def encode16_def)

lemmas encode_ascii_iff = utf8.code_ascii [unfolded code_encode] utf16.code_ascii [unfolded code_encode]
lemmas encode_pieces = utf8.code_pieces [unfolded code_encode] utf16.code_pieces [unfolded code_encode]
lemmas encode_TrimAll = utf8.code_TrimAll [unfolded code_encode] utf16.code_TrimAll [unfolded code_encode]

end
