(* ===== verification/Crash_Client.thy ===== *)
theory Crash_Client
  imports Environment Ini_Parser Utf_Cutting
begin

text \<open>
  The client of the crash reporter (\<^verbatim>\<open>chrome/app/chrome_crash_reporter_client.cc\<close>): before the process
  runs it leaves the text of a dialog in the environment; a process that crashes marks the environment
  and starts a copy of itself, which inherits it and asks the user whether to go on.
\<close>

subsection \<open>Names and texts\<close>

definition kShowRestart :: str where "kShowRestart = text8 ''CHROME_CRASHED''"
definition kRestartInfo :: str where "kRestartInfo = text8 ''CHROME_RESTART''"
definition kRtlLocale :: str where "kRtlLocale = text8 ''RIGHT_TO_LEFT''"
definition kLtrLocale :: str where "kLtrLocale = text8 ''LEFT_TO_RIGHT''"
definition kBrowserCrashTest :: str where "kBrowserCrashTest = text8 ''crash-test''"
definition kNoErrorDialogs :: str where "kNoErrorDialogs = text8 ''noerrdialogs''"

text \<open>The texts of the dialog when the configuration file has none, "Warning" and "The program crashed, it
  has been started again for you, go on?".\<close>

definition default_title :: wstring where
  "default_title = [0x8B66, 0x544A]"

definition default_content :: wstring where
  "default_content = [0x8F6F, 0x4EF6, 0x5D29, 0x6E83, 0x4E86, 0xFF0C, 0x5DF2, 0x5E2E, 0x60A8, 0x91CD, 0x65B0, 0x8FD0, 0x884C,
     0xFF0C, 0x662F, 0x5426, 0x7EE7, 0x7EED, 0xFF1F]"

subsection \<open>The operations\<close>

text \<open>The title, the message and whether they run from right to left; \<open>None\<close> is \<^verbatim>\<open>false\<close>.\<close>

definition ShouldShowRestartDialog :: "'e environment_api \<Rightarrow> 'e \<Rightarrow> (wstring \<times> wstring \<times> bool) option" where
  "ShouldShowRestartDialog api env =
     (if \<not> HasVar api kShowRestart env \<or> \<not> HasVar api kRestartInfo env then None
      else
        let restart_info = (case GetVar api kRestartInfo env of None \<Rightarrow> [] | Some s \<Rightarrow> s);
            dlg_strings = SplitString kWhitespaceASCII restart_info 0x7C
        in if length dlg_strings < 3 then None
           else Some (UTF8ToWide (dlg_strings ! 0), UTF8ToWide (dlg_strings ! 1), dlg_strings ! 2 = kRtlLocale))"

definition AboutToRestart :: "'e environment_api \<Rightarrow> 'e \<Rightarrow> bool \<times> 'e" where
  "AboutToRestart api env =
     (if \<not> HasVar api kRestartInfo env then (False, env)
      else (True, snd (SetVar api kShowRestart (text8 ''1'') env)))"

definition EnableBreakpadForProcess :: "str \<Rightarrow> bool" where
  "EnableBreakpadForProcess process_type \<longleftrightarrow> process_type = text8 ''browser''"

definition GetShouldDumpLargerDumps :: "bool \<Rightarrow> bool" where
  "GetShouldDumpLargerDumps is_per_user_install = True"

definition PrepareRestartOnCrashEnviroment :: "'e environment_api \<Rightarrow> str \<Rightarrow> command_line \<Rightarrow> 'e \<Rightarrow> 'e result" where
  "PrepareRestartOnCrashEnviroment api ini_content parsed_command_line env =
     (let env1 = snd (UnSetVar api kShowRestart env)
      in if HasSwitch parsed_command_line kBrowserCrashTest \<or> HasSwitch parsed_command_line kNoErrorDialogs then Inr env1
         else rbind (GetAppConfig ini_content (text8 ''crash.title'') default_title) (\<lambda>title.
           rbind (GetAppConfig ini_content (text8 ''crash.content'') default_content) (\<lambda>adjusted_string.
             rbind (ASCIIToUTF16 kLtrLocale) (\<lambda>direction.
               let dlg_strings = title @ [0x7C] @ adjusted_string @ [0x7C] @ direction
               in Inr (snd (SetVar api kRestartInfo (WideToUTF8 dlg_strings) env1))))))"

subsection \<open>What Windows promises of the environment\<close>

text \<open>
  Setting a variable to a value within the documented size succeeds and changes this variable only,
  deleting removes it; names are compared without regard to case; a value has no terminator.
\<close>

definition is_name :: "wstring \<Rightarrow> bool" where
  "is_name n \<longleftrightarrow> n \<noteq> [] \<and> 0 \<notin> set n \<and> 0x3D \<notin> set n"

definition documented_environment :: "(wstring \<Rightarrow> wstring \<Rightarrow> bool) \<Rightarrow> 'e environment_api \<Rightarrow> bool" where
  "documented_environment same api \<longleftrightarrow>
     (\<forall>n v e. is_name n \<and> 0 \<notin> set v \<and> length v < 0x7FFF \<longrightarrow>
        fst (SetEnvironmentVariable api n (Some v) e) \<and>
        (\<forall>m. GetEnvironmentVariable api m (snd (SetEnvironmentVariable api n (Some v) e)) =
          (if same m n then Some v else GetEnvironmentVariable api m e))) \<and>
     (\<forall>n e m. is_name n \<longrightarrow> GetEnvironmentVariable api m (snd (SetEnvironmentVariable api n None e)) =
        (if same m n then None else GetEnvironmentVariable api m e)) \<and>
     (\<forall>n v e. GetEnvironmentVariable api n e = Some v \<longrightarrow> 0 \<notin> set v) \<and>
     (\<forall>m n. is_ascii m \<and> is_ascii n \<longrightarrow> (same m n \<longleftrightarrow> map lower16 m = map lower16 n))"

text \<open>Variables with ASCII names.\<close>

definition ascii_name :: "str \<Rightarrow> bool" where
  "ascii_name n \<longleftrightarrow> is_ascii n \<and> is_name (map ucast n)"

lemma UTF8ToWide_ascii: "is_ascii n \<Longrightarrow> UTF8ToWide n = map ucast n"
  by (auto simp: UTF8ToWide_def is_ascii_def scast_ascii)

lemma c_str_id: "0 \<notin> set s \<Longrightarrow> c_str s = s"
  by (auto simp: c_str_def takeWhile_eq_all_conv)

lemma native_name: "ascii_name n \<Longrightarrow> c_str (UTF8ToWide n) = map ucast n"
  by (simp add: ascii_name_def UTF8ToWide_ascii is_name_def c_str_id)

lemma documentedD:
  assumes "documented_environment same api"
  shows "is_name n \<Longrightarrow> 0 \<notin> set v \<Longrightarrow> length v < 0x7FFF \<Longrightarrow>
      GetEnvironmentVariable api m (snd (SetEnvironmentVariable api n (Some v) e)) =
        (if same m n then Some v else GetEnvironmentVariable api m e)"
    "is_name n \<Longrightarrow> GetEnvironmentVariable api m (snd (SetEnvironmentVariable api n None e)) =
        (if same m n then None else GetEnvironmentVariable api m e)"
    "GetEnvironmentVariable api n e = Some v \<Longrightarrow> 0 \<notin> set v"
    "is_ascii m \<Longrightarrow> is_ascii n \<Longrightarrow> same m n \<longleftrightarrow> map lower16 m = map lower16 n"
  using assms unfolding documented_environment_def by blast+

text \<open>The key Windows finds a variable by; the names \<^verbatim>\<open>GetVar\<close> tries have the same.\<close>

definition variable_key :: "str \<Rightarrow> wstring" where
  "variable_key n = map lower16 (map ucast n)"

definition is_variable :: "str \<Rightarrow> bool" where
  "is_variable n \<longleftrightarrow>
     list_all (\<lambda>a. ascii_name a \<and> variable_key a = variable_key n) [n, StringToLowerASCII n, StringToUpperASCII n]"

lemma is_variable_restart: "is_variable kShowRestart" "is_variable kRestartInfo" "variable_key kShowRestart \<noteq> variable_key kRestartInfo"
  by code_simp+

lemma is_ascii_ucast: "is_ascii (n :: str) \<Longrightarrow> is_ascii (map ucast n :: wstring)"
proof -
  have "(ucast c :: char16) < 0x80" if "c < 0x80" for c :: byte
    using that by (simp add: word_less_nat_alt unsigned_ucast_eq take_bit_eq_mod)
  then show "is_ascii n \<Longrightarrow> is_ascii (map ucast n :: wstring)" by (auto simp: is_ascii_def)
qed

lemma same_variable:
  assumes "documented_environment same api" "ascii_name m" "ascii_name n"
  shows "same (map ucast m) (map ucast n) \<longleftrightarrow> variable_key m = variable_key n"
  using documentedD(4) [OF assms(1)] assms(2,3) is_ascii_ucast by (simp add: ascii_name_def variable_key_def)

text \<open>Reading a variable after writing this or another one.\<close>

definition writes :: "(wstring \<Rightarrow> wstring \<Rightarrow> bool) \<Rightarrow> 'e environment_api \<Rightarrow> str \<Rightarrow> wstring option \<Rightarrow> 'e \<Rightarrow> 'e \<Rightarrow> bool" where
  "writes same api n v e e' \<longleftrightarrow>
     (\<forall>m. GetEnvironmentVariable api m e' = (if same m (map ucast n) then v else GetEnvironmentVariable api m e))"

lemma SetVar_writes:
  assumes "documented_environment same api" "ascii_name n" "0 \<notin> set (UTF8ToWide v)" "length (UTF8ToWide v) < 0x7FFF"
  shows "writes same api n (Some (UTF8ToWide v)) e (snd (SetVar api n v e))"
  using documentedD(1) [OF assms(1) _ assms(3,4)] assms(2) native_name [OF assms(2)]
  by (simp add: writes_def SetVar_def SetVarImpl_def c_str_id assms(3) ascii_name_def)

lemma UnSetVar_writes:
  assumes "documented_environment same api" "ascii_name n"
  shows "writes same api n None e (snd (UnSetVar api n e))"
  using documentedD(2) [OF assms(1)] assms(2) native_name [OF assms(2)]
  by (simp add: writes_def UnSetVar_def UnSetVarImpl_def ascii_name_def)

lemma GetVarImpl_get:
  assumes "documented_environment same api" "ascii_name n"
  shows "GetVarImpl api n e = map_option WideToUTF8 (GetEnvironmentVariable api (map ucast n) e)"
  using documentedD(3) [OF assms(1)] native_name [OF assms(2)]
  by (auto simp: GetVarImpl_def Let_def c_str_id split: option.split)

lemma no_terminator_in_name: "ascii_name n \<Longrightarrow> c_str n = n"
proof -
  assume n: "ascii_name n"
  have "0 \<notin> set n"
  proof
    assume "0 \<in> set n"
    then have "ucast (0 :: byte) \<in> set (map ucast n :: wstring)" by (simp only: set_map image_eqI)
    then show False using n by (simp add: ascii_name_def is_name_def)
  qed
  then show ?thesis by (rule c_str_id)
qed

lemma GetVar_writes:
  assumes "documented_environment same api" "is_variable m" "is_variable n" "writes same api n v e e'"
  shows "GetVar api m e' = (if variable_key m = variable_key n then map_option WideToUTF8 v else GetVar api m e)"
proof -
  have n: "ascii_name n" using assms(3) by (simp add: is_variable_def)
  have g: "GetVarImpl api a e' = (if variable_key m = variable_key n then map_option WideToUTF8 v else GetVarImpl api a e)"
    if "ascii_name a" "variable_key a = variable_key m" for a
    using assms(4) same_variable [OF assms(1) that(1) n] that(2) GetVarImpl_get [OF assms(1) that(1)]
    by (simp add: writes_def)
  have a: "ascii_name a \<and> variable_key a = variable_key m" if "a \<in> {m, StringToLowerASCII m, StringToUpperASCII m}" for a
    using that assms(2) by (auto simp: is_variable_def)
  show ?thesis
    using g [of m] g [of "StringToLowerASCII m"] g [of "StringToUpperASCII m"] a [of m] a [of "StringToLowerASCII m"] a [of "StringToUpperASCII m"]
    by (cases "variable_key m = variable_key n"; cases v)
      (simp_all add: GetVar_def Let_def no_terminator_in_name split: option.split)
qed

subsection \<open>From one process to the next\<close>

lemma HasVar_writes:
  assumes "documented_environment same api" "is_variable m" "is_variable n" "writes same api n v e e'"
  shows "HasVar api m e' \<longleftrightarrow> (if variable_key m = variable_key n then v \<noteq> None else HasVar api m e)"
  by (simp add: HasVar_def GetVar_writes [OF assms])

definition whitespace32 :: "code_point list" where
  "whitespace32 = map ucast kWhitespaceASCII"

lemma whitespace32: "kWhitespaceASCII = map ucast whitespace32" "\<forall>w \<in> set whitespace32. w < 0x80"
  by code_simp+

text \<open>The text of a dialog, as code points, and what the next process makes of it.\<close>

definition restart_text :: "code_point list \<Rightarrow> code_point list \<Rightarrow> code_point list" where
  "restart_text title message = title @ [0x7C] @ message @ [0x7C] @ map ucast kLtrLocale"

lemma kLtrLocale_facts:
  "list_all IsValidCodepoint (map ucast kLtrLocale)" "encode8 (map ucast kLtrLocale) = kLtrLocale"
  "encode16 (map ucast kLtrLocale) = map scast kLtrLocale" "is_ascii kLtrLocale" "IsValidCodepoint 0x7C"
  "0 \<notin> set (map ucast kLtrLocale :: code_point list)" "0x7C \<notin> set (map ucast kLtrLocale :: code_point list)" "length kLtrLocale = 13"
  "encode8 (TrimAll whitespace32 (map ucast kLtrLocale)) \<noteq> kRtlLocale" "CBU16_APPEND_UNSAFE 0x7C = [0x7C]"
  by code_simp+

lemma ShouldShowRestartDialog_fields:
  assumes "HasVar api kShowRestart e" "GetVar api kRestartInfo e = Some (encode8 cs)" "list_all IsValidCodepoint cs"
    "length (pieces 0x7C cs) \<ge> 3"
  defines "field \<equiv> \<lambda>i. TrimAll whitespace32 (pieces 0x7C cs ! i)"
  shows "ShouldShowRestartDialog api e = Some (encode16 (field 0), encode16 (field 1), encode8 (field 2) = kRtlLocale)"
proof -
  have p: "list_all (list_all IsValidCodepoint) (pieces 0x7C cs)" using assms(3)
  proof (induction cs)
    case (Cons c cs)
    then show ?case using pieces_not_Nil [of "0x7C" cs] by (cases "pieces 0x7C cs") auto
  qed simp
  have v: "list_all IsValidCodepoint (field i)" if "i < length (pieces 0x7C cs)" for i
  proof -
    have "list_all IsValidCodepoint (pieces 0x7C cs ! i)" using p that by (simp add: list_all_length)
    then show ?thesis unfolding field_def
      by (auto simp: TrimAll_def TrimStringT_spec trimmed_def TRIM_ALL_def list_all_iff dest!: set_dropWhileD)
  qed
  have "(0x7C :: byte) = ucast (0x7C :: code_point)" by simp
  then have "pieces 0x7C (encode8 cs) = map encode8 (pieces 0x7C cs)"
    using encode_pieces(1) [OF assms(3), of "0x7C"] kLtrLocale_facts(5) by simp
  then have "SplitString kWhitespaceASCII (encode8 cs) 0x7C = map (TrimAll kWhitespaceASCII \<circ> encode8) (pieces 0x7C cs)"
    using assms(4) by (auto simp: SplitString_def SplitStringT_pieces Let_def)
  also have "\<dots> = map (encode8 \<circ> TrimAll whitespace32) (pieces 0x7C cs)"
    using p encode_TrimAll(1) [OF _ whitespace32(2)] by (auto simp: list_all_iff simp flip: whitespace32(1))
  finally have s: "SplitString kWhitespaceASCII (encode8 cs) 0x7C = map (encode8 \<circ> TrimAll whitespace32) (pieces 0x7C cs)" .
  have "UTF8ToWide (encode8 (field i)) = encode16 (field i)" if "i < length (pieces 0x7C cs)" for i
    using UTF8ToWide_encode [OF v [OF that]] by (simp add: UTF8ToWide_loop(2))
  then show ?thesis using assms(1,2,4)
    by (simp add: ShouldShowRestartDialog_def HasVar_def s Let_def field_def)
qed

lemma Prepare_restart:
  assumes d: "documented_environment same api"
    and no_switch: "\<not> HasSwitch cl kBrowserCrashTest" "\<not> HasSwitch cl kNoErrorDialogs"
    and config: "GetAppConfig ini (text8 ''crash.title'') default_title = Inr (encode16 ts)"
      "GetAppConfig ini (text8 ''crash.content'') default_content = Inr (encode16 ms)"
    and valid: "list_all IsValidCodepoint (ts @ ms)" "0 \<notin> set (ts @ ms)"
    and fits: "length (encode16 ts) + length (encode16 ms) < 0x7FF0"
  shows "\<exists>e1. PrepareRestartOnCrashEnviroment api ini cl e = Inr e1 \<and> \<not> HasVar api kShowRestart e1 \<and>
    GetVar api kRestartInfo e1 = Some (encode8 (restart_text ts ms))"
proof -
  let ?e0 = "snd (UnSetVar api kShowRestart e)" let ?cs = "restart_text ts ms"
  let ?e1 = "snd (SetVar api kRestartInfo (encode8 ?cs) ?e0)"
  have names: "ascii_name kShowRestart" "ascii_name kRestartInfo" using is_variable_restart by (simp_all add: is_variable_def)
  have cs: "list_all IsValidCodepoint ?cs" "0 \<notin> set ?cs"
    using valid kLtrLocale_facts(1,5,6) by (simp_all add: restart_text_def)
  have w: "encode16 ?cs = encode16 ts @ [0x7C] @ encode16 ms @ [0x7C] @ map scast kLtrLocale"
    by (simp add: restart_text_def kLtrLocale_facts(3,10))
  have wide: "UTF8ToWide (encode8 ?cs) = encode16 ?cs" "WideToUTF8 (encode16 ?cs) = encode8 ?cs"
    using UTF8ToWide_encode [OF cs(1)] WideToUTF8_encode [OF cs(1)] by (simp_all add: UTF8ToWide_loop(2) WideToUTF8_loop(2))
  have zero: "0 \<notin> set (encode16 ?cs)" using encode_ascii_iff(2) [OF cs(1), of 0] cs(2) by simp
  have "length (encode16 ?cs) < 0x7FFF" using fits by (simp add: w kLtrLocale_facts(8))
  then have set1: "writes same api kRestartInfo (Some (encode16 ?cs)) ?e0 ?e1"
    using SetVar_writes [OF d names(2), of "encode8 ?cs"] zero by (simp add: wide)
  have unset: "writes same api kShowRestart None e ?e0" by (rule UnSetVar_writes [OF d names(1)])
  note var = is_variable_restart(1,2)
  have "\<not> HasVar api kShowRestart ?e1"
    using HasVar_writes [OF d var(1) var(2) set1] HasVar_writes [OF d var(1) var(1) unset] is_variable_restart(3) by simp
  moreover have "GetVar api kRestartInfo ?e1 = Some (encode8 ?cs)"
    using GetVar_writes [OF d var(2) var(2) set1] wide(2) by simp
  moreover have "ASCIIToUTF16 kLtrLocale = Inr (map scast kLtrLocale)"
    using kLtrLocale_facts(4) by (simp add: ASCIIToUTF16_def)
  then have "PrepareRestartOnCrashEnviroment api ini cl e = Inr ?e1"
    using no_switch wide(2) unfolding w by (simp add: PrepareRestartOnCrashEnviroment_def config Let_def)
  ultimately show ?thesis by blast
qed

lemma AboutToRestart_marks:
  assumes "documented_environment same api"
  shows "\<exists>e'. AboutToRestart api e = (HasVar api kRestartInfo e, e') \<and> (HasVar api kRestartInfo e \<longrightarrow> HasVar api kShowRestart e') \<and>
    GetVar api kRestartInfo e' = GetVar api kRestartInfo e"
proof (cases "HasVar api kRestartInfo e")
  case True
  have n: "ascii_name kShowRestart" using is_variable_restart by (simp add: is_variable_def)
  have u: "UTF8ToWide (text8 ''1'') = [0x31]" by code_simp
  have w: "writes same api kShowRestart (Some [0x31]) e (snd (SetVar api kShowRestart (text8 ''1'') e))"
    using SetVar_writes [OF assms n, of "text8 ''1''"] by (simp add: u)
  then show ?thesis
    using True HasVar_writes [OF assms is_variable_restart(1,1) w] GetVar_writes [OF assms is_variable_restart(2,1) w] is_variable_restart(3)
    by (simp add: AboutToRestart_def)
qed (simp add: AboutToRestart_def)

lemma AboutToRestart_info:
  assumes "documented_environment same api" "GetVar api kRestartInfo e = Some info"
  shows "\<exists>e'. AboutToRestart api e = (True, e') \<and> HasVar api kShowRestart e' \<and> GetVar api kRestartInfo e' = Some info"
  using AboutToRestart_marks [OF assms(1), of e] assms(2) by (auto simp: HasVar_def)

lemma ShouldShow_not: "\<not> HasVar api kShowRestart e \<Longrightarrow> ShouldShowRestartDialog api e = None"
  by (simp add: ShouldShowRestartDialog_def)

lemma ShouldShowRestartDialog_plain:
  assumes "HasVar api kShowRestart e" "GetVar api kRestartInfo e = Some (encode8 (restart_text ts ms))"
    "list_all IsValidCodepoint (ts @ ms)" "0x7C \<notin> set (ts @ ms)"
  shows "ShouldShowRestartDialog api e = Some (encode16 (TrimAll whitespace32 ts), encode16 (TrimAll whitespace32 ms), False)"
proof -
  have p: "pieces 0x7C (restart_text ts ms) = [ts, ms, map ucast kLtrLocale]"
    using assms(4) kLtrLocale_facts(7) by (simp add: restart_text_def pieces_append_sep pieces_no_sep)
  have v: "list_all IsValidCodepoint (restart_text ts ms)" using assms(3) kLtrLocale_facts(1,5) by (simp add: restart_text_def)
  show ?thesis using ShouldShowRestartDialog_fields [OF assms(1,2) v] kLtrLocale_facts(9) by (simp add: p)
qed

lemma trimmed_no_terminator:
  assumes "list_all IsValidCodepoint cs" "0 \<notin> set cs"
  shows "c_str (encode16 (TrimAll whitespace32 cs)) = encode16 (TrimAll whitespace32 cs)"
proof -
  have "set (TrimAll whitespace32 cs) \<subseteq> set cs"
    by (auto simp: TrimAll_def TrimStringT_spec trimmed_def TRIM_ALL_def dest!: set_dropWhileD)
  then have "list_all IsValidCodepoint (TrimAll whitespace32 cs)" "0 \<notin> set (TrimAll whitespace32 cs)"
    using assms by (auto simp: list_all_iff)
  then have "0 \<notin> set (encode16 (TrimAll whitespace32 cs))" using encode_ascii_iff(2) [of "TrimAll whitespace32 cs" 0] by simp
  then show ?thesis by (rule c_str_id)
qed

text \<open>Configured texts are well formed, as the parser's conversion is and the defaults are.\<close>

lemma GetAsString16_wide: "GetAsString16 v = Some x \<Longrightarrow> \<exists>b. x = UTF8ToWide b"
  by (cases v) auto

lemma GetAppConfig_wellformed:
  assumes "GetAppConfig ini key default_val = Inr v" "\<exists>cs. list_all IsValidCodepoint cs \<and> default_val = encode16 cs"
  shows "\<exists>cs. list_all IsValidCodepoint cs \<and> v = encode16 cs"
proof -
  have u: "\<exists>cs. list_all IsValidCodepoint cs \<and> UTF8ToWide b = encode16 cs" for b
  proof -
    obtain ok out where b: "Convert8to16_loop b 0 True [] = (ok, out)" by fastforce
    then show ?thesis using Convert8to16_wellformed [OF b] by (auto simp: UTF8ToWide_loop)
  qed
  have "v = default_val \<or> (\<exists>r. GetString16 key r = Inr (Some v))"
    using assms(1) by (auto simp: GetAppConfig_def rsimps Let_def split: option.splits if_splits)
  moreover have "GetString16 key r = Inr (Some x) \<Longrightarrow> \<exists>b. x = UTF8ToWide b" for x r
    by (auto simp: GetString16_def get_as_def rsimps split: option.splits dest!: GetAsString16_wide)
  ultimately show ?thesis using assms(2) u by blast
qed

text \<open>
  What a process says in the environment reaches the process started after its crash. A process
  that has prepared its environment shows no dialog; after \<^verbatim>\<open>AboutToRestart\<close> the process that inherits
  the environment shows the configured texts, trimmed, from left to right, when they contain no \<^verbatim>\<open>|\<close>; once
  that process has prepared the environment in its turn there is no dialog again.
\<close>

theorem restart_dialog_roundtrip:
  assumes "documented_environment same api" "\<not> HasSwitch cl kBrowserCrashTest" "\<not> HasSwitch cl kNoErrorDialogs"
    "GetAppConfig ini (text8 ''crash.title'') default_title = Inr (encode16 ts)"
    "GetAppConfig ini (text8 ''crash.content'') default_content = Inr (encode16 ms)"
    "list_all IsValidCodepoint (ts @ ms)" "0 \<notin> set (ts @ ms)" "length (encode16 ts) + length (encode16 ms) < 0x7FF0"
    "0x7C \<notin> set (ts @ ms)"
  shows "\<exists>e1 e2 e3. PrepareRestartOnCrashEnviroment api ini cl e = Inr e1 \<and> ShouldShowRestartDialog api e1 = None \<and>
    AboutToRestart api e1 = (True, e2) \<and>
    ShouldShowRestartDialog api e2 = Some (encode16 (TrimAll whitespace32 ts), encode16 (TrimAll whitespace32 ms), False) \<and>
    PrepareRestartOnCrashEnviroment api ini cl e2 = Inr e3 \<and> ShouldShowRestartDialog api e3 = None"
proof -
  note prepare = Prepare_restart [OF assms(1-8)]
  obtain e1 where e1: "PrepareRestartOnCrashEnviroment api ini cl e = Inr e1" "\<not> HasVar api kShowRestart e1"
    "GetVar api kRestartInfo e1 = Some (encode8 (restart_text ts ms))" using prepare by blast
  obtain e2 where e2: "AboutToRestart api e1 = (True, e2)" "HasVar api kShowRestart e2"
    "GetVar api kRestartInfo e2 = Some (encode8 (restart_text ts ms))"
    using AboutToRestart_info [OF assms(1) e1(3)] by blast
  obtain e3 where e3: "PrepareRestartOnCrashEnviroment api ini cl e2 = Inr e3" "\<not> HasVar api kShowRestart e3" using prepare by blast
  have "ShouldShowRestartDialog api e2 = Some (encode16 (TrimAll whitespace32 ts), encode16 (TrimAll whitespace32 ms), False)"
    by (rule ShouldShowRestartDialog_plain [OF e2(2,3) assms(6,9)])
  then show ?thesis using e1(1) ShouldShow_not [OF e1(2)] e2(1) e3(1) ShouldShow_not [OF e3(2)] by (intro exI conjI)
qed

text \<open>An environment as a list, for concrete runs.\<close>

definition same_name :: "wstring \<Rightarrow> wstring \<Rightarrow> bool" where
  "same_name m n \<longleftrightarrow> map lower16 m = map lower16 n"

definition list_environment :: "(wstring \<times> wstring) list environment_api" where
  "list_environment =
     \<lparr>GetEnvironmentVariable = (\<lambda>n e. map_option (\<lambda>kv. c_str (snd kv)) (find (\<lambda>kv. same_name n (fst kv)) e)),
      SetEnvironmentVariable = (\<lambda>n v e.
        let rest = filter (\<lambda>kv. \<not> same_name n (fst kv)) e
        in (True, case v of None \<Rightarrow> rest | Some w \<Rightarrow> (n, w) # rest))\<rparr>"

lemma find_filter: "find P (filter Q xs) = find (\<lambda>x. P x \<and> Q x) xs"
  by (induction xs) auto

lemma list_environment_documented: "documented_environment same_name list_environment"
proof -
  have other: "find (\<lambda>kv. same_name m (fst kv) \<and> \<not> same_name n (fst kv)) e =
      (if same_name m n then None else find (\<lambda>kv. same_name m (fst kv)) e)"
    for m n and e :: "(wstring \<times> wstring) list"
    by (induction e) (auto simp: same_name_def)
  have z: "0 \<notin> set (c_str v)" for v :: wstring by (auto simp: c_str_def dest: set_takeWhileD)
  show ?thesis unfolding documented_environment_def
  proof (intro conjI allI impI; (elim conjE)?)
    show "same_name m n \<longleftrightarrow> map lower16 m = map lower16 n" for m n by (simp add: same_name_def)
  qed (auto simp: list_environment_def Let_def find_filter other z c_str_id)
qed

text \<open>An empty configuration file; one with a bar in the title.\<close>

theorem restart_dialog_roundtrip_witness:
  "\<exists>e1 e2 e3. PrepareRestartOnCrashEnviroment list_environment [] no_program [] = Inr e1 \<and> ShouldShowRestartDialog list_environment e1 = None \<and>
    AboutToRestart list_environment e1 = (True, e2) \<and>
    ShouldShowRestartDialog list_environment e2 = Some (encode16 (TrimAll whitespace32 (map ucast default_title)),
      encode16 (TrimAll whitespace32 (map ucast default_content)), False) \<and>
    PrepareRestartOnCrashEnviroment list_environment [] no_program e2 = Inr e3 \<and> ShouldShowRestartDialog list_environment e3 = None"
proof (rule restart_dialog_roundtrip [OF list_environment_documented])
  show "GetAppConfig [] (text8 ''crash.title'') default_title = Inr (encode16 (map ucast default_title))"
    "GetAppConfig [] (text8 ''crash.content'') default_content = Inr (encode16 (map ucast default_content))"
    "list_all IsValidCodepoint (map ucast default_title @ map ucast default_content)"
    "0 \<notin> set (map ucast default_title @ map ucast default_content :: code_point list)"
    "0x7C \<notin> set (map ucast default_title @ map ucast default_content :: code_point list)"
    "length (encode16 (map ucast default_title)) + length (encode16 (map ucast default_content)) < 0x7FF0"
    by code_simp+
qed (simp_all add: HasSwitch_def no_program_def)

text \<open>A title with a bar takes the place of the message.\<close>

theorem restart_dialog_separator:
  "\<exists>e1 e2. PrepareRestartOnCrashEnviroment list_environment (text8 (''[crash]'' @ [CHR 0x0A] @ ''title=A|B'')) no_program [] = Inr e1 \<and>
     AboutToRestart list_environment e1 = (True, e2) \<and>
     ShouldShowRestartDialog list_environment e2 = Some ([0x41], [0x42], False)"
proof -
  let ?ini = "text8 (''[crash]'' @ [CHR 0x0A] @ ''title=A|B'')"
  let ?ts = "[0x41, 0x7C, 0x42] :: code_point list" and ?ms = "map ucast default_content :: code_point list"
  have "GetAppConfig ?ini (text8 ''crash.title'') default_title = Inr (encode16 ?ts)"
    "GetAppConfig ?ini (text8 ''crash.content'') default_content = Inr (encode16 ?ms)"
    "list_all IsValidCodepoint (?ts @ ?ms)" "0 \<notin> set (?ts @ ?ms)" "length (encode16 ?ts) + length (encode16 ?ms) < 0x7FF0"
    by code_simp+
  then obtain e1 where e1: "PrepareRestartOnCrashEnviroment list_environment ?ini no_program [] = Inr e1"
    "GetVar list_environment kRestartInfo e1 = Some (encode8 (restart_text ?ts ?ms))"
    using Prepare_restart [OF list_environment_documented, of no_program ?ini ?ts ?ms] by (auto simp: HasSwitch_def no_program_def)
  then obtain e2 where e2: "AboutToRestart list_environment e1 = (True, e2)" "HasVar list_environment kShowRestart e2"
    "GetVar list_environment kRestartInfo e2 = Some (encode8 (restart_text ?ts ?ms))"
    using AboutToRestart_info [OF list_environment_documented e1(2)] by blast
  have p: "pieces 0x7C (restart_text ?ts ?ms) = [[0x41], [0x42], ?ms, map ucast kLtrLocale]"
  proof -
    let ?fs = "[[0x41], [0x42], ?ms, map ucast kLtrLocale] :: code_point list list"
    have "restart_text ?ts ?ms = join [0x7C] ?fs" by (simp add: restart_text_def)
    moreover have "\<forall>p \<in> set ?fs. 0x7C \<notin> set p" using kLtrLocale_facts(7) by (simp add: default_content_def)
    ultimately show ?thesis using pieces_join [of ?fs "0x7C"] by (simp only: list.distinct not_False_eq_True simp_thms)
  qed
  have f: "list_all IsValidCodepoint (restart_text ?ts ?ms)" "encode16 (TrimAll whitespace32 [0x41]) = [0x41]"
    "encode16 (TrimAll whitespace32 [0x42]) = [0x42]" "encode8 (TrimAll whitespace32 ?ms) \<noteq> kRtlLocale"
    by code_simp+
  have "ShouldShowRestartDialog list_environment e2 = Some ([0x41], [0x42], False)"
    using ShouldShowRestartDialog_fields [OF e2(2,3) f(1)] f(2-4) by (simp add: p)
  then show ?thesis using e1(1) e2(1) by (intro exI conjI)
qed

end
