(* ===== verification/Crash_Handler.thy ===== *)
theory Crash_Handler
  imports Crash_Client File_Path
begin

text \<open>
  What happens when the process crashes (\<^verbatim>\<open>chrome/crashreport/breakpad_win.cc\<close>,
  \<^verbatim>\<open>hard_error_handler_win.cc\<close>, \<^verbatim>\<open>crash_reporter_client.cc\<close>, and the exception handler of the crash dump
  library they install, \<^verbatim>\<open>breakpad/src/client/windows/handler/exception_handler.cc\<close>).

  \<^verbatim>\<open>HandleException\<close> holds a critical section from start to end, so crashes of several threads are
  handled one after the other; a thread that is put to sleep keeps the section, and nothing is handled
  any more. Windows, the writing of the dump file included, is the parameter \<open>os\<close>.
\<close>

subsection \<open>Exceptions that a restart does not solve\<close>

record delay_load_info =
  szDll :: "str option"
  fImportByName :: bool
  szProcName :: "str option"

text \<open>The code, and what \<^verbatim>\<open>ExceptionInformation[0]\<close> points to for exceptions of delayed loading.\<close>

record exception_record =
  ExceptionCode :: "32 word"
  delay_load :: delay_load_info

definition VcppException :: "32 word \<Rightarrow> 32 word \<Rightarrow> 32 word" where
  "VcppException sev err = sev OR push_bit 16 0x6D OR err"

definition kExceptionModuleNotFound :: "32 word" where "kExceptionModuleNotFound = VcppException 0xC0000000 126"
definition kExceptionEntryPtNotFound :: "32 word" where "kExceptionEntryPtNotFound = VcppException 0xC0000000 127"
definition FACILITY_GRAPHICS_KERNEL :: "32 word" where "FACILITY_GRAPHICS_KERNEL = 0x1E"
definition NT_STATUS_ENTRYPOINT_NOT_FOUND :: "32 word" where "NT_STATUS_ENTRYPOINT_NOT_FOUND = 0xC0000139"
definition NT_STATUS_DLL_NOT_FOUND :: "32 word" where "NT_STATUS_DLL_NOT_FOUND = 0xC0000135"

definition FacilityFromException :: "32 word \<Rightarrow> 32 word" where
  "FacilityFromException exception_code = drop_bit 16 exception_code AND 0x0FFF"

text \<open>The methods of the client interface that the client of the application does not override.\<close>

definition IsRunningUnattended :: bool where "IsRunningUnattended = True"
definition GetResultCodeRespawnFailed :: int where "GetResultCodeRespawnFailed = 0"
definition GetIsPerUserInstall :: "wstring \<Rightarrow> bool" where "GetIsPerUserInstall exe_path = True"

text \<open>The message box shown, if any: the system's text for the status and the two strings to insert.\<close>

type_synonym hard_error_box = "wstring \<times> str \<times> str"

definition RaiseHardErrorMsg :: "(32 word \<Rightarrow> wstring option) \<Rightarrow> 32 word \<Rightarrow> str \<Rightarrow> str \<Rightarrow> hard_error_box option" where
  "RaiseHardErrorMsg format_message nt_status p1 p2 =
     (if IsRunningUnattended then None
      else case format_message nt_status of None \<Rightarrow> None | Some msg_template \<Rightarrow> Some (msg_template, p1, p2))"

definition ModuleNotFoundHardError :: "(32 word \<Rightarrow> wstring option) \<Rightarrow> exception_record \<Rightarrow> hard_error_box option" where
  "ModuleNotFoundHardError format_message ex_record =
     (case szDll (delay_load ex_record) of
        None \<Rightarrow> None
      | Some dll \<Rightarrow> RaiseHardErrorMsg format_message NT_STATUS_DLL_NOT_FOUND dll [])"

definition EntryPointNotFoundHardError :: "(32 word \<Rightarrow> wstring option) \<Rightarrow> exception_record \<Rightarrow> hard_error_box option" where
  "EntryPointNotFoundHardError format_message ex_record =
     (let dli = delay_load ex_record
      in if \<not> fImportByName dli then None
         else case (szProcName dli, szDll dli) of
           (Some proc, Some dll) \<Rightarrow> RaiseHardErrorMsg format_message NT_STATUS_ENTRYPOINT_NOT_FOUND proc dll
         | _ \<Rightarrow> None)"

text \<open>The two pointers may be null.\<close>

definition HardErrorHandler ::
  "(32 word \<Rightarrow> wstring option) \<Rightarrow> exception_record option option \<Rightarrow> bool \<times> hard_error_box option"
where
  "HardErrorHandler format_message ex_info =
     (case ex_info of
        None \<Rightarrow> (False, None)
      | Some None \<Rightarrow> (False, None)
      | Some (Some rec) \<Rightarrow>
          let exception = ExceptionCode rec
          in if exception = kExceptionModuleNotFound then (True, ModuleNotFoundHardError format_message rec)
             else if exception = kExceptionEntryPtNotFound then (True, EntryPointNotFoundHardError format_message rec)
             else if FacilityFromException exception = FACILITY_GRAPHICS_KERNEL then
               (True, RaiseHardErrorMsg format_message exception [] [])
             else (False, None))"

subsection \<open>State of the process\<close>

datatype minidump_flag =
  MiniDumpWithFullMemory | MiniDumpWithHandleData | MiniDumpWithUnloadedModules
| MiniDumpWithIndirectlyReferencedMemory | MiniDumpWithProcessThreadData

definition kSmallDumpType :: "minidump_flag list" where
  "kSmallDumpType = [MiniDumpWithProcessThreadData, MiniDumpWithHandleData, MiniDumpWithUnloadedModules]"

definition kLargerDumpType :: "minidump_flag list" where
  "kLargerDumpType = [MiniDumpWithProcessThreadData, MiniDumpWithHandleData, MiniDumpWithUnloadedModules,
     MiniDumpWithIndirectlyReferencedMemory]"

definition kFullDumpType :: "minidump_flag list" where
  "kFullDumpType = [MiniDumpWithFullMemory, MiniDumpWithProcessThreadData, MiniDumpWithHandleData, MiniDumpWithUnloadedModules]"

text \<open>The functions given to a handler, the two handler objects, and what a slot of the system for a
  handler function holds.\<close>

datatype filter_function = FilterCallback_function | FilterCallbackWhenNoCrash_function
datatype callback_function = DumpDoneCallback_function | DumpDoneCallbackWhenNoCrash_function
datatype handler_ref = Breakpad_ref | Dumphandler_no_crash_ref
datatype slot = Empty_slot | Foreign | Breakpad

record exception_handler =
  dump_path :: wstring
  handler_filter :: filter_function
  handler_callback :: callback_function
  dump_type :: "minidump_flag list"
  previous_filter :: slot
  previous_iph :: slot
  previous_pch :: slot
  handle_debug_exceptions :: bool
  consume_invalid_handle_exceptions :: bool
  out_of_process :: bool
  handler_thread :: bool

text \<open>
  The variables of the process: those of \<^verbatim>\<open>breakpad_win.cc\<close> (\<open>handlers\<close> holds what \<^verbatim>\<open>g_breakpad\<close> and
  \<^verbatim>\<open>g_dumphandler_no_crash\<close> point to), the static members of the handler class and the slots of the system;
  and what the process did: the environments of the processes it started, the boxes it showed, the dumps
  it tried to write.
\<close>

record 'e process =
  environment :: 'e
  g_client :: bool
  handling_exception :: "32 word"
  handlers :: "handler_ref \<Rightarrow> exception_handler option"
  handler_stack :: "handler_ref list"
  handler_stack_index :: nat
  unhandled_filter :: slot
  invalid_parameter_handler :: slot
  purecall_handler :: slot
  children :: "'e list"
  boxes :: "hard_error_box list"
  dumps :: "handler_ref list"

datatype action = EXCEPTION_EXECUTE_HANDLER | EXCEPTION_CONTINUE_EXECUTION | EXCEPTION_CONTINUE_SEARCH

record 'e crash_os =
  api :: "'e environment_api"
  writes_dump :: "exception_record \<Rightarrow> bool"
  creates_process :: bool
  format_message :: "32 word \<Rightarrow> wstring option"
  registers_client :: bool
  creates_thread :: bool
  foreign_filter :: "exception_record \<Rightarrow> action"
  invalid_parameter_exit :: int
  exe_path :: wstring

text \<open>A call may return, leave its thread asleep for ever, or end the process.\<close>

datatype 'a outcome = Returns 'a | Sleeps | Exits int

definition obind ::
  "('a outcome \<times> 's) result \<Rightarrow> ('a \<Rightarrow> 's \<Rightarrow> ('b outcome \<times> 's) result) \<Rightarrow> ('b outcome \<times> 's) result"
where
  "obind m f = rbind m (\<lambda>(out, s). case out of Returns a \<Rightarrow> f a s | Sleeps \<Rightarrow> Inr (Sleeps, s) | Exits n \<Rightarrow> Inr (Exits n, s))"

lemma obind_simps [simp]:
  "obind (Inl e) f = Inl e" "obind (Inr (Returns a, s)) f = f a s"
  "obind (Inr (Sleeps, s)) f = Inr (Sleeps, s)" "obind (Inr (Exits n, s)) f = Inr (Exits n, s)"
  by (simp_all add: obind_def)

definition SetCrashReporterClient :: "'e process \<Rightarrow> 'e process" where
  "SetCrashReporterClient p = p\<lparr>g_client := True\<rparr>"

definition GetCrashReporterClient :: "'e process \<Rightarrow> unit result" where
  "GetCrashReporterClient p = require (g_client p) (Dcheck ''g_client'') (Inr ())"

subsection \<open>The callbacks\<close>

definition InterlockedCompareExchange :: "32 word \<Rightarrow> 32 word \<Rightarrow> 32 word \<Rightarrow> 32 word \<times> 32 word" where
  "InterlockedCompareExchange destination exchange comparand =
     (destination, if destination = comparand then exchange else destination)"

text \<open>The client's records of dump attempts are empty functions.\<close>

definition FilterCallback :: "'e process \<Rightarrow> (bool outcome \<times> 'e process) result" where
  "FilterCallback p =
     (let (old, new) = InterlockedCompareExchange (handling_exception p) 1 0;
          p1 = p\<lparr>handling_exception := new\<rparr>
      in if old = 1 then Inr (Sleeps, p1)
         else rbind (GetCrashReporterClient p1) (\<lambda>_. Inr (Returns True, p1)))"

definition FilterCallbackWhenNoCrash :: "'e process \<Rightarrow> (bool outcome \<times> 'e process) result" where
  "FilterCallbackWhenNoCrash p = rbind (GetCrashReporterClient p) (\<lambda>_. Inr (Returns True, p))"

definition DumpDoneCallback :: "'e crash_os \<Rightarrow> exception_record \<Rightarrow> bool \<Rightarrow> 'e process \<Rightarrow> (bool outcome \<times> 'e process) result" where
  "DumpDoneCallback os ex_info succeeded p =
     rbind (GetCrashReporterClient p) (\<lambda>_.
       let (hard, box) = HardErrorHandler (format_message os) (Some (Some ex_info));
           p1 = p\<lparr>boxes := boxes p @ (case box of None \<Rightarrow> [] | Some b \<Rightarrow> [b])\<rparr>
       in if hard then Inr (Returns True, p1)
          else
            let (restart, env) = AboutToRestart (api os) (environment p1); p2 = p1\<lparr>environment := env\<rparr>
            in if \<not> restart then Inr (Returns True, p2)
               else Inr (Returns True,
                 if creates_process os then p2\<lparr>children := children p2 @ [environment p2]\<rparr> else p2))"

definition DumpDoneCallbackWhenNoCrash :: "bool \<Rightarrow> 'e process \<Rightarrow> (bool outcome \<times> 'e process) result" where
  "DumpDoneCallbackWhenNoCrash succeeded p = rbind (GetCrashReporterClient p) (\<lambda>_. Inr (Returns True, p))"

subsection \<open>The exception handler\<close>

text \<open>\<^verbatim>\<open>HANDLER_ALL\<close> or \<^verbatim>\<open>HANDLER_NONE\<close> is the argument \<open>handler_types\<close>. The pipe name is a pointer to an
  empty string and so not null: the client is always tried.\<close>

definition new_ExceptionHandler ::
  "'e crash_os \<Rightarrow> handler_ref \<Rightarrow> wstring \<Rightarrow> filter_function \<Rightarrow> callback_function \<Rightarrow> bool \<Rightarrow> minidump_flag list \<Rightarrow> 'e process \<Rightarrow> 'e process"
where
  "new_ExceptionHandler os this path filter_fn callback handler_types type p =
     (let in_process = \<not> registers_client os;
          h = \<lparr>dump_path = (if in_process then path else []), handler_filter = filter_fn, handler_callback = callback, dump_type = type,
               previous_filter = Empty_slot, previous_iph = Empty_slot, previous_pch = Empty_slot,
               handle_debug_exceptions = False, consume_invalid_handle_exceptions = False,
               out_of_process = \<not> in_process, handler_thread = in_process \<and> creates_thread os\<rparr>
      in if handler_types then
           p\<lparr>handlers := (handlers p)(this \<mapsto> h\<lparr>previous_filter := unhandled_filter p,
               previous_iph := invalid_parameter_handler p, previous_pch := purecall_handler p\<rparr>),
             handler_stack := handler_stack p @ [this],
             unhandled_filter := Breakpad, invalid_parameter_handler := Breakpad, purecall_handler := Breakpad\<rparr>
         else p\<lparr>handlers := (handlers p)(this \<mapsto> h)\<rparr>)"

definition handler_of :: "'e process \<Rightarrow> handler_ref \<Rightarrow> exception_handler result" where
  "handler_of p this = (case handlers p this of None \<Rightarrow> Inl (Null_deref ''this'') | Some h \<Rightarrow> Inr h)"

text \<open>Constructing and destroying the object that selects the handler.\<close>

definition AutoExceptionHandler :: "'e process \<Rightarrow> (handler_ref \<times> 'e process) result" where
  "AutoExceptionHandler p =
     (let index = handler_stack_index p + 1
      in if handler_stack p = [] then Inl (Null_deref ''handler_stack_'')
         else if index > length (handler_stack p) then Inl (Fatal ''out_of_range'')
         else
           let this = handler_stack p ! (length (handler_stack p) - index)
           in rbind (handler_of p this) (\<lambda>h.
                Inr (this, p\<lparr>handler_stack_index := index, unhandled_filter := previous_filter h,
                  invalid_parameter_handler := previous_iph h, purecall_handler := previous_pch h\<rparr>)))"

definition AutoExceptionHandler_destroyed :: "'e process \<Rightarrow> 'e process" where
  "AutoExceptionHandler_destroyed p =
     p\<lparr>unhandled_filter := Breakpad, invalid_parameter_handler := Breakpad, purecall_handler := Breakpad,
       handler_stack_index := handler_stack_index p - 1\<rparr>"

fun call_filter :: "filter_function \<Rightarrow> 'e process \<Rightarrow> (bool outcome \<times> 'e process) result" where
  "call_filter FilterCallback_function p = FilterCallback p"
| "call_filter FilterCallbackWhenNoCrash_function p = FilterCallbackWhenNoCrash p"

fun call_callback ::
  "'e crash_os \<Rightarrow> callback_function \<Rightarrow> exception_record \<Rightarrow> bool \<Rightarrow> 'e process \<Rightarrow> (bool outcome \<times> 'e process) result"
where
  "call_callback os DumpDoneCallback_function exinfo success p = DumpDoneCallback os exinfo success p"
| "call_callback os DumpDoneCallbackWhenNoCrash_function exinfo success p = DumpDoneCallbackWhenNoCrash success p"

definition WriteMinidumpWithException ::
  "'e crash_os \<Rightarrow> handler_ref \<Rightarrow> exception_record \<Rightarrow> 'e process \<Rightarrow> (bool outcome \<times> 'e process) result"
where
  "WriteMinidumpWithException os this exinfo p =
     rbind (handler_of p this) (\<lambda>h.
       obind (call_filter (handler_filter h) p) (\<lambda>approved p1.
         if \<not> approved then Inr (Returns False, p1)
         else
           let success = writes_dump os exinfo; p2 = p1\<lparr>dumps := dumps p1 @ [this]\<rparr>
           in call_callback os (handler_callback h) exinfo success p2))"

text \<open>The handler's thread does the work while the requesting thread waits for it.\<close>

definition WriteMinidumpOnHandlerThread ::
  "'e crash_os \<Rightarrow> handler_ref \<Rightarrow> exception_record \<Rightarrow> 'e process \<Rightarrow> (bool outcome \<times> 'e process) result"
where
  "WriteMinidumpOnHandlerThread os this exinfo p =
     rbind (handler_of p this) (\<lambda>h.
       if \<not> handler_thread h then Inr (Returns False, p) else WriteMinidumpWithException os this exinfo p)"

definition write_minidump ::
  "'e crash_os \<Rightarrow> handler_ref \<Rightarrow> exception_record \<Rightarrow> 'e process \<Rightarrow> (bool outcome \<times> 'e process) result"
where
  "write_minidump os this exinfo p =
     rbind (handler_of p this) (\<lambda>h.
       if out_of_process h then WriteMinidumpWithException os this exinfo p
       else WriteMinidumpOnHandlerThread os this exinfo p)"

definition EXCEPTION_BREAKPOINT :: "32 word" where "EXCEPTION_BREAKPOINT = 0x80000003"
definition EXCEPTION_SINGLE_STEP :: "32 word" where "EXCEPTION_SINGLE_STEP = 0x80000004"
definition EXCEPTION_INVALID_HANDLE :: "32 word" where "EXCEPTION_INVALID_HANDLE = 0xC0000008"

text \<open>
  The previous filter can be \<^verbatim>\<open>HandleException\<close> itself, which then takes the next handler of the stack;
  \<open>n\<close> bounds the nesting, and one more than the number of handlers is enough, for the selection fails
  before.
\<close>

fun HandleException ::
  "nat \<Rightarrow> 'e crash_os \<Rightarrow> exception_record \<Rightarrow> 'e process \<Rightarrow> (action outcome \<times> 'e process) result"
where
  "HandleException 0 os exinfo p = Inl (Fatal ''out_of_range'')"
| "HandleException (Suc n) os exinfo p =
     rbind (AutoExceptionHandler p) (\<lambda>(this, p1).
       rbind (handler_of p1 this) (\<lambda>current_handler.
         let code = ExceptionCode exinfo;
             is_debug_exception = (code = EXCEPTION_BREAKPOINT \<or> code = EXCEPTION_SINGLE_STEP)
         in if code = EXCEPTION_INVALID_HANDLE \<and> consume_invalid_handle_exceptions current_handler then
              Inr (Returns EXCEPTION_CONTINUE_EXECUTION, AutoExceptionHandler_destroyed p1)
            else
              obind (if \<not> is_debug_exception \<or> handle_debug_exceptions current_handler
                     then write_minidump os this exinfo p1 else Inr (Returns False, p1)) (\<lambda>success p2.
                obind (if success then Inr (Returns EXCEPTION_EXECUTE_HANDLER, p2)
                       else case previous_filter current_handler of
                         Empty_slot \<Rightarrow> Inr (Returns EXCEPTION_CONTINUE_SEARCH, p2)
                       | Foreign \<Rightarrow> Inr (Returns (foreign_filter os exinfo), p2)
                       | Breakpad \<Rightarrow> HandleException n os exinfo p2) (\<lambda>action p3.
                  Inr (Returns action, AutoExceptionHandler_destroyed p3)))))"

definition no_delay_load :: delay_load_info where
  "no_delay_load = \<lparr>szDll = None, fImportByName = False, szProcName = None\<rparr>"

text \<open>
  An invalid parameter of the C library and the call of a pure virtual function. A previous handler is
  taken to return; the library's own handling of an invalid parameter ends the process with a code of
  its own, \<^verbatim>\<open>exit(0)\<close> with 0.
\<close>

definition HandleInvalidParameter :: "'e crash_os \<Rightarrow> 'e process \<Rightarrow> (unit outcome \<times> 'e process) result" where
  "HandleInvalidParameter os p =
     rbind (AutoExceptionHandler p) (\<lambda>(this, p1).
       rbind (handler_of p1 this) (\<lambda>current_handler.
         let exinfo = \<lparr>ExceptionCode = 0xC000000D, delay_load = no_delay_load\<rparr>
         in obind (write_minidump os this exinfo p1) (\<lambda>success p2.
              Inr (Exits (if \<not> success \<and> previous_iph current_handler = Empty_slot then invalid_parameter_exit os else 0), p2))))"

definition HandlePureVirtualCall :: "'e crash_os \<Rightarrow> 'e process \<Rightarrow> (unit outcome \<times> 'e process) result" where
  "HandlePureVirtualCall os p =
     rbind (AutoExceptionHandler p) (\<lambda>(this, p1).
       rbind (handler_of p1 this) (\<lambda>current_handler.
         let exinfo = \<lparr>ExceptionCode = 0xC0000025, delay_load = no_delay_load\<rparr>
         in obind (write_minidump os this exinfo p1) (\<lambda>success p2.
              if \<not> success \<and> previous_pch current_handler = Empty_slot
              then Inr (Returns (), AutoExceptionHandler_destroyed p2)
              else Inr (Exits 0, p2))))"

definition WriteMinidump :: "'e crash_os \<Rightarrow> handler_ref \<Rightarrow> 'e process \<Rightarrow> (bool outcome \<times> 'e process) result" where
  "WriteMinidump os this p = write_minidump os this \<lparr>ExceptionCode = 0xC0000025, delay_load = no_delay_load\<rparr> p"

subsection \<open>Setting up\<close>

definition DumpProcessWithoutCrash :: "'e crash_os \<Rightarrow> 'e process \<Rightarrow> (unit outcome \<times> 'e process) result" where
  "DumpProcessWithoutCrash os p =
     (if handlers p Dumphandler_no_crash_ref \<noteq> None
      then obind (WriteMinidump os Dumphandler_no_crash_ref p) (\<lambda>_ p1. Inr (Returns (), p1))
      else Inr (Returns (), p))"

definition kDisableBreakpad :: str where "kDisableBreakpad = text8 ''disable-breakpad''"
definition kFullMemoryCrashReport :: str where "kFullMemoryCrashReport = text8 ''full-memory-crash-report''"

text \<open>\<^verbatim>\<open>set_handle_debug_exceptions\<close> and \<^verbatim>\<open>set_consume_invalid_handle_exceptions\<close> on an object.\<close>

definition change_handler :: "(exception_handler \<Rightarrow> exception_handler) \<Rightarrow> handler_ref \<Rightarrow> 'e process \<Rightarrow> 'e process" where
  "change_handler f this p = p\<lparr>handlers := (handlers p)(this := map_option f (handlers p this))\<rparr>"

definition GetExecutableDir :: "wstring \<Rightarrow> wstring" where
  "GetExecutableDir path = DirName (FilePath path)"

definition InitCrashReporter :: "'e crash_os \<Rightarrow> command_line \<Rightarrow> str \<Rightarrow> 'e process \<Rightarrow> 'e process result" where
  "InitCrashReporter os command process_type_switch p =
     (if HasSwitch command kDisableBreakpad then Inr p
      else
        let process_type = (if process_type_switch = [] then text8 ''browser'' else process_type_switch)
        in rbind (GetCrashReporterClient p) (\<lambda>_.
          if \<not> EnableBreakpadForProcess process_type then Inr p
          else
            let is_per_user_install = GetIsPerUserInstall (FilePath (exe_path os));
                type = (if HasSwitch command kFullMemoryCrashReport then kFullDumpType
                        else if GetShouldDumpLargerDumps is_per_user_install then kLargerDumpType else kSmallDumpType)
            in rbind (Append (GetExecutableDir (exe_path os)) [0x64, 0x75, 0x6D, 0x70, 0x73]) (\<lambda>dumps_dir.
                 let p1 = new_ExceptionHandler os Breakpad_ref dumps_dir FilterCallback_function
                            DumpDoneCallback_function True type p;
                     p2 = new_ExceptionHandler os Dumphandler_no_crash_ref dumps_dir FilterCallbackWhenNoCrash_function
                            DumpDoneCallbackWhenNoCrash_function False type p1
                 in Inr (change_handler (\<lambda>h. h\<lparr>handle_debug_exceptions := True\<rparr>) Breakpad_ref p2))))"

definition ConsumeInvalidHandleExceptions :: "'e process \<Rightarrow> 'e process" where
  "ConsumeInvalidHandleExceptions p =
     change_handler (\<lambda>h. h\<lparr>consume_invalid_handle_exceptions := True\<rparr>) Dumphandler_no_crash_ref
       (change_handler (\<lambda>h. h\<lparr>consume_invalid_handle_exceptions := True\<rparr>) Breakpad_ref p)"

end
