(* ===== verification/Crash_Handler_Props.thy ===== *)
theory Crash_Handler_Props
  imports Crash_Handler
begin

text \<open>
  What crash handling promises: one crash is handled, once; it starts at most one process, with the
  environment marked for the dialog.
\<close>

subsection \<open>Handling crashes, one after the other\<close>

text \<open>The exceptions of the process's threads in the order in which they get the critical section; a thread
  that sleeps in its handler keeps it.\<close>

fun crashes :: "'e crash_os \<Rightarrow> exception_record list \<Rightarrow> 'e process \<Rightarrow> 'e process result" where
  "crashes os [] p = Inr p"
| "crashes os (ex # exs) p =
     rbind (HandleException 2 os ex p) (\<lambda>(out, p1). case out of Returns _ \<Rightarrow> crashes os exs p1 | _ \<Rightarrow> Inr p1)"

text \<open>The process between two exceptions once the reporter is set up; \<open>c\<close> is set when invalid handles are
  passed over.\<close>

definition armed :: "'e crash_os \<Rightarrow> bool \<Rightarrow> 'e process \<Rightarrow> bool" where
  "armed os c p \<longleftrightarrow> g_client p \<and> handler_stack p = [Breakpad_ref] \<and> handler_stack_index p = 0 \<and>
     (\<exists>h. handlers p Breakpad_ref = Some h \<and> handler_filter h = FilterCallback_function \<and>
        handler_callback h = DumpDoneCallback_function \<and> handle_debug_exceptions h \<and>
        consume_invalid_handle_exceptions h = c \<and> previous_filter h \<noteq> Breakpad \<and>
        out_of_process h = registers_client os \<and> handler_thread h = (\<not> registers_client os \<and> creates_thread os))"

definition passed_over :: "bool \<Rightarrow> exception_record \<Rightarrow> bool" where
  "passed_over c ex \<longleftrightarrow> c \<and> ExceptionCode ex = EXCEPTION_INVALID_HANDLE"

definition dumps_possible :: "'e crash_os \<Rightarrow> bool" where
  "dumps_possible os \<longleftrightarrow> registers_client os \<or> creates_thread os"

text \<open>The processes a crash starts.\<close>

definition restarts :: "'e crash_os \<Rightarrow> 'e \<Rightarrow> exception_record \<Rightarrow> 'e list" where
  "restarts os env ex =
     (if fst (HardErrorHandler (format_message os) (Some (Some ex))) \<or> \<not> HasVar (api os) kRestartInfo env \<or> \<not> creates_process os
      then [] else [snd (AboutToRestart (api os) env)])"

lemma HardErrorHandler_silent: "snd (HardErrorHandler fm ex_info) = None"
  by (auto simp: HardErrorHandler_def ModuleNotFoundHardError_def EntryPointNotFoundHardError_def RaiseHardErrorMsg_def
      IsRunningUnattended_def Let_def split: option.split)

lemma AboutToRestart_fst: "fst (AboutToRestart a env) = HasVar a kRestartInfo env"
  by (simp add: AboutToRestart_def)

lemma DumpDoneCallback_result:
  assumes "g_client p"
  shows "\<exists>env. DumpDoneCallback os ex succeeded p = Inr (Returns True, p\<lparr>environment := env, children := children p @ restarts os (environment p) ex\<rparr>)"
proof -
  obtain hard where h: "HardErrorHandler (format_message os) (Some (Some ex)) = (hard, None)"
    using HardErrorHandler_silent by (metis prod.collapse)
  obtain restart env where a: "AboutToRestart (api os) (environment p) = (restart, env)" by fastforce
  have r: "restart = HasVar (api os) kRestartInfo (environment p)" using AboutToRestart_fst a by (metis fst_conv)
  have "DumpDoneCallback os ex succeeded p = Inr (Returns True, p\<lparr>environment := (if hard then environment p else env), children := children p @ restarts os (environment p) ex\<rparr>)"
    using assms r by (auto simp: DumpDoneCallback_def GetCrashReporterClient_def h a restarts_def Let_def)
  then show ?thesis by blast
qed

text \<open>What one exception does in an armed process.\<close>

lemma HandleException_armed:
  assumes "armed os c p"
  shows "if passed_over c ex \<or> \<not> dumps_possible os then
      \<exists>action p'. HandleException (Suc n) os ex p = Inr (Returns action, p') \<and> armed os c p' \<and> handling_exception p' = handling_exception p \<and>
        environment p' = environment p \<and> children p' = children p \<and> boxes p' = boxes p \<and> dumps p' = dumps p
    else if handling_exception p = 1 then
      \<exists>p'. HandleException (Suc n) os ex p = Inr (Sleeps, p') \<and> children p' = children p \<and> boxes p' = boxes p \<and> dumps p' = dumps p
    else handling_exception p = 0 \<longrightarrow>
      (\<exists>p'. HandleException (Suc n) os ex p = Inr (Returns EXCEPTION_EXECUTE_HANDLER, p') \<and> armed os c p' \<and> handling_exception p' = 1 \<and>
        children p' = children p @ restarts os (environment p) ex \<and> boxes p' = boxes p \<and> dumps p' = dumps p @ [Breakpad_ref])"
proof -
  obtain h where h: "handlers p Breakpad_ref = Some h" "handler_filter h = FilterCallback_function"
    "handler_callback h = DumpDoneCallback_function" "handle_debug_exceptions h" "consume_invalid_handle_exceptions h = c"
    "previous_filter h \<noteq> Breakpad" "out_of_process h = registers_client os"
    "handler_thread h = (\<not> registers_client os \<and> creates_thread os)"
    and p: "g_client p" "handler_stack p = [Breakpad_ref]" "handler_stack_index p = 0"
    using assms by (auto simp: armed_def)
  let ?p1 = "p\<lparr>handler_stack_index := Suc 0, unhandled_filter := previous_filter h, invalid_parameter_handler := previous_iph h,
    purecall_handler := previous_pch h\<rparr>"
  have auto: "AutoExceptionHandler p = Inr (Breakpad_ref, ?p1)"
    by (simp add: AutoExceptionHandler_def handler_of_def Let_def p h(1))
  have of1: "handler_of ?p1 Breakpad_ref = Inr h" by (simp add: handler_of_def h(1))
  show ?thesis
  proof (cases "passed_over c ex")
    case True
    then have "HandleException (Suc n) os ex p = Inr (Returns EXCEPTION_CONTINUE_EXECUTION, AutoExceptionHandler_destroyed ?p1)"
      by (simp add: auto of1 passed_over_def h(5) Let_def)
    then show ?thesis using True h p by (simp add: AutoExceptionHandler_destroyed_def armed_def)
  next
    case f: False
    then have e: "HandleException (Suc n) os ex p =
        obind (write_minidump os Breakpad_ref ex ?p1) (\<lambda>success p2.
          obind (if success then Inr (Returns EXCEPTION_EXECUTE_HANDLER, p2)
                 else case previous_filter h of Empty_slot \<Rightarrow> Inr (Returns EXCEPTION_CONTINUE_SEARCH, p2)
                   | Foreign \<Rightarrow> Inr (Returns (foreign_filter os ex), p2) | Breakpad \<Rightarrow> HandleException n os ex p2) (\<lambda>action p3.
            Inr (Returns action, AutoExceptionHandler_destroyed p3)))"
      by (auto simp: auto of1 passed_over_def h(4,5) Let_def)
    show ?thesis
    proof (cases "dumps_possible os")
      case False
      then have "write_minidump os Breakpad_ref ex ?p1 = Inr (Returns False, ?p1)"
        by (simp add: write_minidump_def WriteMinidumpOnHandlerThread_def of1 h dumps_possible_def)
      then show ?thesis using e f False h p
        by (cases "previous_filter h") (simp_all add: AutoExceptionHandler_destroyed_def armed_def)
    next
      case True
      then have w: "write_minidump os Breakpad_ref ex ?p1 = WriteMinidumpWithException os Breakpad_ref ex ?p1"
        by (auto simp: write_minidump_def WriteMinidumpOnHandlerThread_def of1 h dumps_possible_def)
      show ?thesis
      proof (cases "handling_exception p = 1")
        case one: True
        then have "WriteMinidumpWithException os Breakpad_ref ex ?p1 = Inr (Sleeps, ?p1)"
          by (simp add: WriteMinidumpWithException_def of1 h FilterCallback_def InterlockedCompareExchange_def)
        then show ?thesis using e f True one by (simp add: w)
      next
        case ne: False
        have "\<exists>p'. HandleException (Suc n) os ex p = Inr (Returns EXCEPTION_EXECUTE_HANDLER, p') \<and> armed os c p' \<and> handling_exception p' = 1 \<and>
          children p' = children p @ restarts os (environment p) ex \<and> boxes p' = boxes p \<and> dumps p' = dumps p @ [Breakpad_ref]"
          if z: "handling_exception p = 0"
        proof -
          let ?p2 = "?p1\<lparr>handling_exception := 1, dumps := dumps p @ [Breakpad_ref]\<rparr>"
          obtain env where d: "DumpDoneCallback os ex (writes_dump os ex) ?p2 =
              Inr (Returns True, ?p2\<lparr>environment := env, children := children p @ restarts os (environment p) ex\<rparr>)"
            using DumpDoneCallback_result [of ?p2 os ex "writes_dump os ex"] p(1) by auto
          have "WriteMinidumpWithException os Breakpad_ref ex ?p1 = DumpDoneCallback os ex (writes_dump os ex) ?p2"
            using z p(1) by (simp add: WriteMinidumpWithException_def of1 h FilterCallback_def InterlockedCompareExchange_def
                GetCrashReporterClient_def Let_def)
          then show ?thesis using e w d h p by (simp add: AutoExceptionHandler_destroyed_def armed_def)
        qed
        then show ?thesis using f True ne by simp
      qed
    qed
  qed
qed

lemma crashes_handled:
  "armed os c p \<Longrightarrow> handling_exception p = 1 \<Longrightarrow>
     \<exists>p'. crashes os exs p = Inr p' \<and> children p' = children p \<and> boxes p' = boxes p \<and> dumps p' = dumps p"
proof (induction exs arbitrary: p)
  case (Cons ex exs)
  show ?case
  proof (cases "passed_over c ex \<or> \<not> dumps_possible os")
    case True
    then obtain action p1 where "HandleException 2 os ex p = Inr (Returns action, p1)" "armed os c p1" "handling_exception p1 = 1"
      "children p1 = children p" "boxes p1 = boxes p" "dumps p1 = dumps p"
      using HandleException_armed [OF Cons.prems(1), of ex 1] Cons.prems(2) by (auto simp: numeral_2_eq_2)
    then show ?thesis using Cons.IH [of p1] by auto
  next
    case False
    then obtain p1 where "HandleException 2 os ex p = Inr (Sleeps, p1)" "children p1 = children p" "boxes p1 = boxes p" "dumps p1 = dumps p"
      using HandleException_armed [OF Cons.prems(1), of ex 1] Cons.prems(2) by (auto simp: numeral_2_eq_2)
    then show ?thesis by simp
  qed
qed simp

lemma crashes_fresh:
  "armed os c p \<Longrightarrow> handling_exception p = 0 \<Longrightarrow>
     \<exists>p'. crashes os exs p = Inr p' \<and> boxes p' = boxes p \<and>
       (case find (\<lambda>ex. \<not> passed_over c ex \<and> dumps_possible os) exs of
          None \<Rightarrow> children p' = children p \<and> dumps p' = dumps p
        | Some ex \<Rightarrow> children p' = children p @ restarts os (environment p) ex \<and> dumps p' = dumps p @ [Breakpad_ref])"
proof (induction exs arbitrary: p)
  case (Cons ex exs)
  show ?case
  proof (cases "passed_over c ex \<or> \<not> dumps_possible os")
    case True
    then obtain action p1 where p1: "HandleException 2 os ex p = Inr (Returns action, p1)" "armed os c p1" "handling_exception p1 = 0"
      "environment p1 = environment p" "children p1 = children p" "boxes p1 = boxes p" "dumps p1 = dumps p"
      using HandleException_armed [OF Cons.prems(1), of ex 1] Cons.prems(2) by (auto simp: numeral_2_eq_2)
    moreover have f: "find (\<lambda>ex. \<not> passed_over c ex \<and> dumps_possible os) (ex # exs) =
        find (\<lambda>ex. \<not> passed_over c ex \<and> dumps_possible os) exs" using True by auto
    ultimately show ?thesis using Cons.IH [OF p1(2,3), unfolded p1(4-7)] unfolding f by simp
  next
    case False
    then obtain p1 where p1: "HandleException 2 os ex p = Inr (Returns EXCEPTION_EXECUTE_HANDLER, p1)" "armed os c p1"
      "handling_exception p1 = 1" "children p1 = children p @ restarts os (environment p) ex" "boxes p1 = boxes p"
      "dumps p1 = dumps p @ [Breakpad_ref]"
      using HandleException_armed [OF Cons.prems(1), of ex 1] Cons.prems(2) by (auto simp: numeral_2_eq_2)
    then show ?thesis using crashes_handled [OF p1(2,3), of exs] False by auto
  qed
qed simp

subsection \<open>Setting up\<close>

definition no_reporter :: "'e process \<Rightarrow> bool" where
  "no_reporter p \<longleftrightarrow> g_client p \<and> handling_exception p = 0 \<and> handler_stack p = [] \<and> handler_stack_index p = 0 \<and>
     unhandled_filter p \<noteq> Breakpad \<and> children p = [] \<and> boxes p = [] \<and> dumps p = []"

lemma Append_dumps: "\<exists>d. Append p [0x64, 0x75, 0x6D, 0x70, 0x73] = Inr d"
proof -
  have "\<not> IsPathAbsolute [0x64, 0x75, 0x6D, 0x70, 0x73]" "str_find ([0x64, 0x75, 0x6D, 0x70, 0x73] :: wstring) [0] 0 = None"
    by code_simp+
  then show ?thesis by (simp add: Append_def Let_def)
qed

lemma InitCrashReporter_armed:
  assumes "no_reporter p" "\<not> HasSwitch cl kDisableBreakpad" "process_type = [] \<or> process_type = text8 ''browser''"
  shows "\<exists>q. InitCrashReporter os cl process_type p = Inr q \<and> armed os False q \<and> armed os True (ConsumeInvalidHandleExceptions q) \<and>
    environment q = environment p \<and> children q = [] \<and> boxes q = [] \<and> dumps q = [] \<and> handling_exception q = 0"
proof -
  obtain d where "Append (GetExecutableDir (exe_path os)) [0x64, 0x75, 0x6D, 0x70, 0x73] = Inr d" using Append_dumps by blast
  moreover have "EnableBreakpadForProcess (if process_type = [] then text8 ''browser'' else process_type)"
    using assms(3) by (auto simp: EnableBreakpadForProcess_def)
  ultimately show ?thesis using assms(1,2)
    by (auto simp: InitCrashReporter_def GetCrashReporterClient_def Let_def no_reporter_def armed_def
        new_ExceptionHandler_def change_handler_def ConsumeInvalidHandleExceptions_def)
qed

lemma Consume_simps [simp]:
  "environment (ConsumeInvalidHandleExceptions q) = environment q" "children (ConsumeInvalidHandleExceptions q) = children q"
  "boxes (ConsumeInvalidHandleExceptions q) = boxes q" "dumps (ConsumeInvalidHandleExceptions q) = dumps q"
  "handling_exception (ConsumeInvalidHandleExceptions q) = handling_exception q"
  by (simp_all add: ConsumeInvalidHandleExceptions_def change_handler_def)

text \<open>
  C31: once the reporter is set up, however many exceptions the threads raise and whatever they are, no
  assertion fails, at most one dump is written and at most one process is started: by the first
  exception that is not passed over, if a dump can be written at all, a restart can help and the environment
  has the text of the dialog. The new process inherits the environment marked for the dialog. No box is ever
  shown for a hard error.
\<close>

theorem one_crash_one_restart:
  assumes "no_reporter p" "\<not> HasSwitch cl kDisableBreakpad" "process_type = [] \<or> process_type = text8 ''browser''"
  shows "\<exists>q p'. InitCrashReporter os cl process_type p = Inr q \<and>
    crashes os exs (if c then ConsumeInvalidHandleExceptions q else q) = Inr p' \<and> boxes p' = [] \<and>
    (case find (\<lambda>ex. \<not> passed_over c ex \<and> dumps_possible os) exs of
       None \<Rightarrow> children p' = [] \<and> dumps p' = []
     | Some ex \<Rightarrow> children p' = restarts os (environment p) ex \<and> dumps p' = [Breakpad_ref])"
proof -
  obtain q where q: "InitCrashReporter os cl process_type p = Inr q" "armed os False q" "armed os True (ConsumeInvalidHandleExceptions q)"
    "environment q = environment p" "children q = []" "boxes q = []" "dumps q = []" "handling_exception q = 0"
    using InitCrashReporter_armed [OF assms] by blast
  let ?r = "if c then ConsumeInvalidHandleExceptions q else q"
  have r: "armed os c ?r" "handling_exception ?r = 0" using q by simp_all
  have f: "environment ?r = environment p" "children ?r = []" "boxes ?r = []" "dumps ?r = []" using q by simp_all
  obtain p' where "crashes os exs ?r = Inr p'" "boxes p' = []"
    "case find (\<lambda>ex. \<not> passed_over c ex \<and> dumps_possible os) exs of None \<Rightarrow> children p' = [] \<and> dumps p' = []
     | Some ex \<Rightarrow> children p' = restarts os (environment p) ex \<and> dumps p' = [Breakpad_ref]"
    using crashes_fresh [OF r, of exs] unfolding f append_Nil by blast
  then show ?thesis using q(1) by blast
qed

text \<open>A process whose environment is prepared, on a system where everything works; two access violations.\<close>

definition working_os :: "(wstring \<times> wstring) list crash_os" where
  "working_os = \<lparr>api = list_environment, writes_dump = (\<lambda>_. True), creates_process = True, format_message = (\<lambda>_. None),
     registers_client = False, creates_thread = True, foreign_filter = (\<lambda>_. EXCEPTION_CONTINUE_SEARCH),
     invalid_parameter_exit = 0, exe_path = [0x43, 0x3A, 0x5C, 0x61]\<rparr>"

definition new_process :: "'e \<Rightarrow> 'e process" where
  "new_process env = \<lparr>environment = env, g_client = True, handling_exception = 0, handlers = Map.empty, handler_stack = [],
     handler_stack_index = 0, unhandled_filter = Foreign, invalid_parameter_handler = Empty_slot, purecall_handler = Empty_slot,
     children = [], boxes = [], dumps = []\<rparr>"

definition access_violation :: exception_record where
  "access_violation = \<lparr>ExceptionCode = 0xC0000005, delay_load = no_delay_load\<rparr>"

lemma no_reporter_new: "no_reporter (new_process env)"
  by (simp add: no_reporter_def new_process_def)

theorem one_crash_one_restart_witness:
  "\<exists>q p'. InitCrashReporter working_os no_program [] (new_process [(map ucast kRestartInfo, [0x61])]) = Inr q \<and>
    crashes working_os [access_violation, access_violation] (if True then ConsumeInvalidHandleExceptions q else q) = Inr p' \<and> boxes p' = [] \<and>
    children p' = [(map ucast kShowRestart, [0x31]) # [(map ucast kRestartInfo, [0x61])]] \<and> dumps p' = [Breakpad_ref]"
proof -
  let ?env = "[(map ucast kRestartInfo, [0x61])] :: (wstring \<times> wstring) list"
  have "find (\<lambda>ex. \<not> passed_over True ex \<and> dumps_possible working_os) [access_violation, access_violation] = Some access_violation"
    by (simp add: passed_over_def access_violation_def EXCEPTION_INVALID_HANDLE_def dumps_possible_def working_os_def)
  moreover have "restarts working_os ?env access_violation = [(map ucast kShowRestart, [0x31]) # ?env]"
    by code_simp
  moreover have "environment (new_process ?env) = ?env" by (simp add: new_process_def)
  moreover have "\<not> HasSwitch no_program kDisableBreakpad" by (simp add: HasSwitch_def no_program_def)
  ultimately show ?thesis
    using one_crash_one_restart [where p = "new_process ?env" and cl = no_program and process_type = "[]" and os = working_os and exs = "[access_violation, access_violation]" and c = True, OF no_reporter_new]
    by simp
qed

end
