(* ===== verification/Launch.thy ===== *)
theory Launch
  imports Crash_Handler_Props
begin

text \<open>
  Starting the program (\<^verbatim>\<open>MainDllLoader\<close> of \<^verbatim>\<open>chrome/app/client_util.cc\<close> and the restart dialog of
  \<^verbatim>\<open>chrome/crashreport/breakpad_win.cc\<close>): the executable asks whether to go on after a crash, prepares
  the environment for the next one, sets up the crash reporter, and loads and calls the library that
  holds the application.
\<close>

subsection \<open>The restart dialog\<close>

text \<open>A message box returns the button pressed or crashes, which ends the process.\<close>

datatype message_result = Pressed "32 word" | Box_crashed

text \<open>What the dialog comes to: \<^verbatim>\<open>false\<close>, or \<^verbatim>\<open>true\<close> with \<^verbatim>\<open>*exit_now\<close>, or no return.\<close>

datatype restart_dialog = Not_shown | Shown bool | Terminated int

record 'e launch_os =
  crash :: "'e crash_os"
  IsMetroProcess :: bool
  MessageBoxW :: "wstring \<Rightarrow> wstring \<Rightarrow> 32 word \<Rightarrow> message_result"
  ini_content :: str
  load_library :: "wstring \<Rightarrow> bool"
  current_module_version :: wstring
  is_win10 :: bool
  ChromeMain :: "'e process \<Rightarrow> int \<times> 'e process"

definition MB_OKCANCEL :: "32 word" where "MB_OKCANCEL = 0x1"
definition MB_ICONWARNING :: "32 word" where "MB_ICONWARNING = 0x30"
definition MB_RIGHT :: "32 word" where "MB_RIGHT = 0x80000"
definition MB_RTLREADING :: "32 word" where "MB_RTLREADING = 0x100000"
definition IDOK :: "32 word" where "IDOK = 1"

definition WrapMessageBoxWithSEH :: "'e launch_os \<Rightarrow> wstring \<Rightarrow> wstring \<Rightarrow> 32 word \<Rightarrow> 'e process \<Rightarrow> restart_dialog result" where
  "WrapMessageBoxWithSEH os text caption flags p =
     (case MessageBoxW os text caption flags of
        Pressed button \<Rightarrow> Inr (Shown (IDOK \<noteq> button))
      | Box_crashed \<Rightarrow> rbind (GetCrashReporterClient p) (\<lambda>_. Inr (Terminated GetResultCodeRespawnFailed)))"

definition ShowRestartDialogIfCrashed :: "'e launch_os \<Rightarrow> 'e process \<Rightarrow> restart_dialog result" where
  "ShowRestartDialogIfCrashed os p =
     (if IsMetroProcess os then Inr Not_shown
      else rbind (GetCrashReporterClient p) (\<lambda>_.
        case ShouldShowRestartDialog (api (crash os)) (environment p) of
          None \<Rightarrow> Inr Not_shown
        | Some (title, message, is_rtl_locale) \<Rightarrow>
            let flags = MB_OKCANCEL OR MB_ICONWARNING;
                flags1 = (if is_rtl_locale then flags OR (MB_RIGHT OR MB_RTLREADING) else flags)
            in WrapMessageBoxWithSEH os (c_str message) (c_str title) flags1 p))"

subsection \<open>Loading the library\<close>

text \<open>The loader: its process, the current directory, and the libraries it tried to load.\<close>

record 'e loader =
  process :: "'e process"
  cwd :: wstring
  tried :: "wstring list"

definition kProcessType :: str where "kProcessType = text8 ''type''"
definition chrome_dll :: wstring where "chrome_dll = map ucast (text8 ''chrome.dll'')"

definition LoadModuleWithDirectory :: "'e launch_os \<Rightarrow> wstring \<Rightarrow> 'e loader \<Rightarrow> bool \<times> 'e loader" where
  "LoadModuleWithDirectory os module_path s =
     (load_library os (c_str module_path), s\<lparr>cwd := c_str (DirName module_path), tried := tried s @ [c_str module_path]\<rparr>)"

text \<open>The version and the path of the library loaded; \<open>None\<close> is a null handle.\<close>

definition Load :: "'e launch_os \<Rightarrow> 'e loader \<Rightarrow> ((wstring \<times> wstring) option \<times> 'e loader) result" where
  "Load os s =
     rbind (GetAppConfig (ini_content os) (text8 ''dll.name'') chrome_dll) (\<lambda>dll_name.
       let module_dir = GetExecutableDir (exe_path (crash os))
       in rbind (Append module_dir dll_name) (\<lambda>module_path.
         let (dll, s1) = LoadModuleWithDirectory os module_path s
         in if \<not> dll then
              let version_string = current_module_version os
              in if version_string = [] then Inr (None, s1)
                 else rbind (Append module_dir version_string) (\<lambda>version_dir.
                   rbind (Append version_dir dll_name) (\<lambda>module2.
                     let (dll2, s2) = LoadModuleWithDirectory os module2 s1
                     in Inr (if \<not> dll2 then None else Some (version_string, module2), s2)))
            else Inr (Some ([], module_path), s1)))"

text \<open>\<^verbatim>\<open>Launch\<close> after the dialog.\<close>

definition Launch_program :: "'e launch_os \<Rightarrow> command_line \<Rightarrow> str \<Rightarrow> 'e loader \<Rightarrow> (int outcome \<times> 'e loader) result" where
  "Launch_program os cmd_line process_type s =
     rbind (PrepareRestartOnCrashEnviroment (api (crash os)) (ini_content os) cmd_line (environment (process s))) (\<lambda>env.
       rbind (InitCrashReporter (crash os) cmd_line process_type ((process s)\<lparr>environment := env\<rparr>)) (\<lambda>p.
         rbind (Load os (s\<lparr>process := p\<rparr>)) (\<lambda>(loaded, s1).
           if loaded = None then Inr (Returns RESULT_CODE_MISSING_DATA, s1)
           else
             let (rc, p1) = ChromeMain os (process s1)
             in Inr (Returns rc, s1\<lparr>process := (if is_win10 os then ConsumeInvalidHandleExceptions p1 else p1)\<rparr>))))"

definition MainDllLoader_Launch :: "'e launch_os \<Rightarrow> command_line \<Rightarrow> 'e loader \<Rightarrow> (int outcome \<times> 'e loader) result" where
  "MainDllLoader_Launch os cmd_line s =
     rbind (GetSwitchValueASCII cmd_line kProcessType) (\<lambda>process_type.
       let s1 = s\<lparr>process := SetCrashReporterClient (process s)\<rparr>
       in rbind (if process_type = [] then ShowRestartDialogIfCrashed os (process s1) else Inr Not_shown) (\<lambda>dialog.
            case dialog of
              Terminated code \<Rightarrow> Inr (Exits code, s1)
            | Shown exit_now \<Rightarrow>
                (if exit_now then Inr (Returns RESULT_CODE_NORMAL_EXIT, s1) else Launch_program os cmd_line process_type s1)
            | Not_shown \<Rightarrow> Launch_program os cmd_line process_type s1))"

subsection \<open>From one start to the next\<close>

text \<open>
  C30: a crash and the start after it, end to end. A process that has set up the reporter in an environment
  prepared from a configuration without \<^verbatim>\<open>|\<close> starts, at its first exception that a restart can help with, exactly
  one process; started there, the program asks with the configured texts, ends normally without
  loading anything when the answer is not OK, and otherwise starts the application.
\<close>

theorem crash_restart_cycle:
  assumes "documented_environment same (api (crash os))" "\<not> HasSwitch cl kBrowserCrashTest" "\<not> HasSwitch cl kNoErrorDialogs"
    "GetAppConfig (ini_content os) (text8 ''crash.title'') default_title = Inr (encode16 ts)"
    "GetAppConfig (ini_content os) (text8 ''crash.content'') default_content = Inr (encode16 ms)"
    "list_all IsValidCodepoint (ts @ ms)" "0 \<notin> set (ts @ ms)" "length (encode16 ts) + length (encode16 ms) < 0x7FF0"
    "0x7C \<notin> set (ts @ ms)"
    and "GetSwitchValueASCII cl kProcessType = Inr []" "\<not> HasSwitch cl kDisableBreakpad" "\<not> IsMetroProcess os"
    and "no_reporter p" "PrepareRestartOnCrashEnviroment (api (crash os)) (ini_content os) cl e = Inr (environment p)"
    and "dumps_possible (crash os)" "creates_process (crash os)"
    and "\<not> fst (HardErrorHandler (format_message (crash os)) (Some (Some ex)))"
  defines "title \<equiv> encode16 (TrimAll whitespace32 ts)" and "message \<equiv> encode16 (TrimAll whitespace32 ms)"
  shows "\<exists>q p' e2. InitCrashReporter (crash os) cl [] p = Inr q \<and> crashes (crash os) (ex # exs) q = Inr p' \<and> children p' = [e2] \<and>
    (\<forall>s. environment (process s) = e2 \<longrightarrow>
       MainDllLoader_Launch os cl s =
         (let s1 = s\<lparr>process := SetCrashReporterClient (process s)\<rparr>
          in case MessageBoxW os message title (MB_OKCANCEL OR MB_ICONWARNING) of
               Box_crashed \<Rightarrow> Inr (Exits 0, s1)
             | Pressed button \<Rightarrow> if button = IDOK then Launch_program os cl [] s1 else Inr (Returns 0, s1)))"
proof -
  let ?env = "environment p" and ?c = "crash os"
  obtain e1 where "PrepareRestartOnCrashEnviroment (api ?c) (ini_content os) cl e = Inr e1"
    "GetVar (api ?c) kRestartInfo e1 = Some (encode8 (restart_text ts ms))" using Prepare_restart [OF assms(1-8)] by blast
  then have info: "GetVar (api ?c) kRestartInfo ?env = Some (encode8 (restart_text ts ms))" using assms(14) by simp
  obtain e2 where e2: "AboutToRestart (api ?c) ?env = (True, e2)" "HasVar (api ?c) kShowRestart e2"
    "GetVar (api ?c) kRestartInfo e2 = Some (encode8 (restart_text ts ms))"
    using AboutToRestart_info [OF assms(1) info] by blast
  have r: "restarts ?c ?env ex = [e2]" using assms(16,17) info e2(1) by (simp add: restarts_def HasVar_def)
  obtain q where q: "InitCrashReporter ?c cl [] p = Inr q" "armed ?c False q" "environment q = ?env" "children q = []" "handling_exception q = 0"
    using InitCrashReporter_armed [OF assms(13,11), of "[]" ?c] by blast
  have "find (\<lambda>ex. \<not> passed_over False ex \<and> dumps_possible ?c) (ex # exs) = Some ex" using assms(15) by (simp add: passed_over_def)
  then obtain p' where p': "crashes ?c (ex # exs) q = Inr p'" "children p' = [e2]"
    using crashes_fresh [OF q(2,5), of "ex # exs"] q(3,4) r by auto
  have shown: "ShouldShowRestartDialog (api ?c) e2 = Some (title, message, False)"
    unfolding title_def message_def by (rule ShouldShowRestartDialog_plain [OF e2(2,3) assms(6,9)])
  have cut: "c_str title = title" "c_str message = message"
    unfolding title_def message_def using trimmed_no_terminator [of ts] trimmed_no_terminator [of ms] assms(6,7) by auto
  have "MainDllLoader_Launch os cl s =
         (let s1 = s\<lparr>process := SetCrashReporterClient (process s)\<rparr>
          in case MessageBoxW os message title (MB_OKCANCEL OR MB_ICONWARNING) of
               Box_crashed \<Rightarrow> Inr (Exits 0, s1)
             | Pressed button \<Rightarrow> if button = IDOK then Launch_program os cl [] s1 else Inr (Returns 0, s1))"
    if "environment (process s) = e2" for s
    using that shown assms(10,12) cut
    by (auto simp: MainDllLoader_Launch_def ShowRestartDialogIfCrashed_def SetCrashReporterClient_def GetCrashReporterClient_def
        WrapMessageBoxWithSEH_def GetResultCodeRespawnFailed_def RESULT_CODE_NORMAL_EXIT_def Let_def split: message_result.split)
  then show ?thesis using q(1) p' by blast
qed

text \<open>A user who declines.\<close>

definition declining_os :: "(wstring \<times> wstring) list launch_os" where
  "declining_os = \<lparr>crash = working_os, IsMetroProcess = False, MessageBoxW = (\<lambda>_ _ _. Pressed 2), ini_content = [],
     load_library = (\<lambda>_. True), current_module_version = [], is_win10 = True, ChromeMain = (\<lambda>p. (0, p))\<rparr>"

theorem crash_restart_cycle_witness:
  "\<exists>e1 q p' e2. InitCrashReporter working_os no_program [] (new_process e1) = Inr q \<and>
    crashes working_os [access_violation] q = Inr p' \<and> children p' = [e2] \<and>
    (\<forall>s. environment (process s) = e2 \<longrightarrow>
       MainDllLoader_Launch declining_os no_program s = Inr (Returns 0, s\<lparr>process := SetCrashReporterClient (process s)\<rparr>))"
proof -
  let ?ts = "map ucast default_title :: code_point list" and ?ms = "map ucast default_content :: code_point list"
  have os: "api working_os = list_environment" "ini_content declining_os = []" "crash declining_os = working_os"
    by (simp_all add: declining_os_def working_os_def)
  have config: "GetAppConfig [] (text8 ''crash.title'') default_title = Inr (encode16 ?ts)"
    "GetAppConfig [] (text8 ''crash.content'') default_content = Inr (encode16 ?ms)"
    "list_all IsValidCodepoint (?ts @ ?ms)" "0 \<notin> set (?ts @ ?ms)" "length (encode16 ?ts) + length (encode16 ?ms) < 0x7FF0"
    "0x7C \<notin> set (?ts @ ?ms)" "GetSwitchValueASCII no_program kProcessType = Inr []"
    by code_simp+
  have no_switch: "\<not> HasSwitch no_program s" for s by (simp add: HasSwitch_def no_program_def)
  obtain e1 where e1: "PrepareRestartOnCrashEnviroment list_environment [] no_program [] = Inr e1"
    using Prepare_restart [OF list_environment_documented no_switch no_switch config(1-5), of "[]"] by blast
  have c: "dumps_possible working_os" "creates_process working_os"
    "\<not> fst (HardErrorHandler (format_message working_os) (Some (Some access_violation)))" "\<not> IsMetroProcess declining_os"
    by (simp add: dumps_possible_def working_os_def, simp add: working_os_def, code_simp, simp add: declining_os_def)
  have e: "environment (new_process e1) = e1" by (simp add: new_process_def)
  show ?thesis
    using crash_restart_cycle [of same_name declining_os no_program ?ts ?ms "new_process e1" "[]" access_violation "[]",
        unfolded os e, OF list_environment_documented no_switch no_switch config(1-7) no_switch c(4) no_reporter_new e1 c(1-3)]
    by (simp add: declining_os_def IDOK_def Let_def) blast
qed

end
