(* ===== verification/Vlog.thy ===== *)
theory Vlog
  imports String_Split Number_Conversions
begin

text \<open>
  Verbosity of log messages by module (\<^verbatim>\<open>base/vlog.cc\<close>): the switches \<^verbatim>\<open>--v\<close> and \<^verbatim>\<open>--vmodule\<close> are read into
  patterns with levels, and a source file has the level of the first pattern that matches its path or
  its module. \<open>is_space\<close> is the library's \<^verbatim>\<open>isspace\<close>.
\<close>

subsection \<open>Patterns\<close>

datatype match_target = MATCH_MODULE | MATCH_FILE

record vmodule_pattern =
  pattern :: str
  vlog_level :: int
  match_target :: match_target

definition kDefaultVlogLevel :: int where "kDefaultVlogLevel = 0"

definition slashes :: str where "slashes = [0x5C, 0x2F]"

definition VmodulePattern :: "str \<Rightarrow> vmodule_pattern" where
  "VmodulePattern p =
     \<lparr>pattern = p, vlog_level = kDefaultVlogLevel,
      match_target = (if find_first_of p slashes 0 \<noteq> None then MATCH_FILE else MATCH_MODULE)\<rparr>"

text \<open>The first loop: up to the next star, what is left of pattern and string, \<open>None\<close> for a mismatch.\<close>

fun match_characters :: "str \<Rightarrow> str \<Rightarrow> (str \<times> str) option" where
  "match_characters (p # ps) (s # ss) =
     (if p = 0x2A then Some (p # ps, s # ss)
      else if p = 0x2F \<or> p = 0x5C then (if s \<noteq> 0x2F \<and> s \<noteq> 0x5C then None else match_characters ps ss)
      else if p = 0x3F then match_characters ps ss
      else if p \<noteq> s then None else match_characters ps ss)"
| "match_characters p s = Some (p, s)"

lemma match_characters_Some:
  "match_characters p s = Some (p', s') \<Longrightarrow>
    length p' \<le> length p \<and> length s' \<le> length s \<and> (p' \<noteq> [] \<longrightarrow> hd p' \<noteq> 0x2A \<longrightarrow> s' = [])"
  by (induction p s rule: match_characters.induct) (force split: if_splits)+

text \<open>The size of a call of the two functions below.\<close>

definition match_measure :: "str \<times> str + str \<times> str \<Rightarrow> nat" where
  "match_measure x =
     (case x of Inl (s, p) \<Rightarrow> 2 * (length s + length p)
      | Inr (s, p) \<Rightarrow> if s = [] then 0 else 2 * (length s + length p) + 1)"

lemma match_measure_less:
  assumes "match_characters pat string = Some (p, s)" "p \<noteq> []" "dropWhile (\<lambda>c. c = 0x2A) p \<noteq> []"
  shows "match_measure (Inr (s, dropWhile (\<lambda>c. c = 0x2A) p)) < match_measure (Inl (string, pat))"
proof (cases "hd p = 0x2A")
  case True
  then have "length (dropWhile (\<lambda>c. c = 0x2A) p) < length p"
    using assms(2) length_dropWhile_le [of "\<lambda>c. c = 0x2A" "tl p"] by (cases p) auto
  then show ?thesis using match_characters_Some [OF assms(1)] by (auto simp: match_measure_def)
next
  case False
  then show ?thesis using match_characters_Some [OF assms(1)] assms(2) by (auto simp: match_measure_def)
qed

text \<open>\<open>match_from\<close> is the last loop, which tries the rest of the pattern on the non-empty rests of the string.\<close>

function MatchVlogPattern :: "str \<Rightarrow> str \<Rightarrow> bool" and match_from :: "str \<Rightarrow> str \<Rightarrow> bool" where
  "MatchVlogPattern string vlog_pattern =
     (case match_characters vlog_pattern string of
        None \<Rightarrow> False
      | Some (p, s) \<Rightarrow>
          if p = [] then s = []
          else let p1 = dropWhile (\<lambda>c. c = 0x2A) p in if p1 = [] then True else match_from s p1)"
| "match_from s p = (if s = [] then False else if MatchVlogPattern s p then True else match_from (tl s) p)"
  by pat_completeness auto

termination
  by (relation "measure match_measure") (auto simp: match_measure_less, auto simp: match_measure_def)

declare MatchVlogPattern.simps [simp del] match_from.simps [simp del]

subsection \<open>Modules and levels\<close>

definition kInlSuffix :: str where "kInlSuffix = text8 ''-inl''"

definition GetModule :: "str \<Rightarrow> str" where
  "GetModule file =
     (let module1 = (case find_last_of file slashes of None \<Rightarrow> file | Some last_slash_pos \<Rightarrow> drop (last_slash_pos + 1) file);
          module2 = (case str_rfind module1 [0x2E] (length module1) of None \<Rightarrow> module1 | Some extension_start \<Rightarrow> take extension_start module1)
      in if length kInlSuffix \<le> length module2 \<and> drop (length module2 - length kInlSuffix) module2 = kInlSuffix
         then take (length module2 - length kInlSuffix) module2 else module2)"

text \<open>The constructor stores the level of \<^verbatim>\<open>--v\<close> in \<^verbatim>\<open>*min_log_level_\<close>, the negative verbosity.\<close>

definition SetMaxVlogLevel :: "int \<Rightarrow> int" where "SetMaxVlogLevel level = wrap32 (- level)"
definition GetMaxVlogLevel :: "int \<Rightarrow> int" where "GetMaxVlogLevel min_log_level = wrap32 (- min_log_level)"

definition read_pattern :: "(byte \<Rightarrow> bool) \<Rightarrow> str \<times> str \<Rightarrow> vmodule_pattern" where
  "read_pattern is_space kv =
     (let p = VmodulePattern (fst kv)
      in case snd (StringToInt is_space (snd kv)) of None \<Rightarrow> p | Some level \<Rightarrow> p\<lparr>vlog_level := level\<rparr>)"

definition VlogInfo :: "(byte \<Rightarrow> bool) \<Rightarrow> str \<Rightarrow> str \<Rightarrow> int \<Rightarrow> vmodule_pattern list \<times> int" where
  "VlogInfo is_space v_switch vmodule_switch min_log_level =
     (let min1 = (if v_switch \<noteq> [] then
                    (case StringToInt is_space v_switch of
                       (True, Some level) \<Rightarrow> SetMaxVlogLevel level | _ \<Rightarrow> min_log_level)
                  else min_log_level);
          kv_pairs = snd (SplitStringIntoKeyValuePairs kWhitespaceASCII vmodule_switch 0x3D 0x2C)
      in (map (read_pattern is_space) kv_pairs, min1))"

text \<open>The lines logged on the way: file, line, severity (negative for verbose lines) and text.\<close>

type_synonym log_line = "str \<times> int \<times> int \<times> str"

definition key_value_lines :: "str \<Rightarrow> log_line list" where
  "key_value_lines line =
     (let f = text8 ''base/strings/string_split.cc''
      in if line = [] then []
         else case SplitStringIntoKeyValue line 0x3D of
           (True, _) \<Rightarrow> []
         | (False, _) \<Rightarrow>
             if find_first_of line [0x3D] 0 = None then [(f, 48, -1, text8 ''cannot find delimiter in: '' @ line)]
             else [(f, 57, -1, text8 ''cannot parse value from line: '' @ line)])"

definition int_string :: "int \<Rightarrow> str" where
  "int_string l = (if l < 0 then [0x2D] else []) @ dec_string (nat \<bar>l\<bar>)"

definition VlogInfo_lines :: "(byte \<Rightarrow> bool) \<Rightarrow> str \<Rightarrow> str \<Rightarrow> log_line list" where
  "VlogInfo_lines is_space v_switch vmodule_switch =
     (let f = text8 ''base/vlog.cc'';
          (complete, kv_pairs) = SplitStringIntoKeyValuePairs kWhitespaceASCII vmodule_switch 0x3D 0x2C
      in (if v_switch \<noteq> [] \<and> \<not> fst (StringToInt is_space v_switch)
          then [(f, 59, 1, text8 ''Could not parse v switch \"'' @ v_switch @ text8 ''\"'')] else []) @
         concat (map key_value_lines (SplitString kWhitespaceASCII vmodule_switch 0x2C)) @
         (if \<not> complete then [(f, 66, 1, text8 ''Could not fully parse vmodule switch \"'' @ vmodule_switch @ text8 ''\"'')] else []) @
         concat (map (\<lambda>kv. if fst (StringToInt is_space (snd kv)) then []
           else [(f, 73, 1, text8 ''Parsed vlog level for \"'' @ fst kv @ text8 ''='' @ snd kv @ text8 ''\" as '' @
             int_string (vlog_level (read_pattern is_space kv)))]) kv_pairs))"

fun first_level :: "vmodule_pattern list \<Rightarrow> str \<Rightarrow> str \<Rightarrow> int option" where
  "first_level [] file module_name = None"
| "first_level (p # ps) file module_name =
     (if MatchVlogPattern (if match_target p = MATCH_FILE then file else module_name) (pattern p) then Some (vlog_level p)
      else first_level ps file module_name)"

definition GetVlogLevel :: "vmodule_pattern list \<Rightarrow> int \<Rightarrow> str \<Rightarrow> int" where
  "GetVlogLevel vmodule_levels min_log_level file =
     (case (if vmodule_levels \<noteq> [] then first_level vmodule_levels file (GetModule file) else None) of
        Some level \<Rightarrow> level | None \<Rightarrow> GetMaxVlogLevel min_log_level)"

subsection \<open>What a pattern matches\<close>

text \<open>Each character of the pattern stands for a piece of the string.\<close>

definition is_slash :: "byte \<Rightarrow> bool" where "is_slash c \<longleftrightarrow> c = 0x2F \<or> c = 0x5C"

definition stands_for :: "byte \<Rightarrow> str \<Rightarrow> bool" where
  "stands_for c t \<longleftrightarrow>
     (if c = 0x2A then True
      else length t = 1 \<and> (if is_slash c then is_slash (hd t) else c = 0x3F \<or> hd t = c))"

definition wildcard_match :: "str \<Rightarrow> str \<Rightarrow> bool" where
  "wildcard_match p s \<longleftrightarrow> (\<exists>ts. s = concat ts \<and> list_all2 stands_for p ts)"

lemma wildcard_Nil [simp]: "wildcard_match [] s \<longleftrightarrow> s = []"
  by (auto simp: wildcard_match_def)

lemma wildcard_Cons: "wildcard_match (c # p) s \<longleftrightarrow> (\<exists>t u. s = t @ u \<and> stands_for c t \<and> wildcard_match p u)"
proof
  assume "wildcard_match (c # p) s"
  then obtain ts where "s = concat ts" "list_all2 stands_for (c # p) ts" by (auto simp: wildcard_match_def)
  then show "\<exists>t u. s = t @ u \<and> stands_for c t \<and> wildcard_match p u"
    by (cases ts) (auto simp: wildcard_match_def)
next
  assume "\<exists>t u. s = t @ u \<and> stands_for c t \<and> wildcard_match p u"
  then obtain t ts where "s = concat (t # ts)" "list_all2 stands_for (c # p) (t # ts)" by (auto simp: wildcard_match_def)
  then show "wildcard_match (c # p) s" unfolding wildcard_match_def by blast
qed

lemma wildcard_star: "wildcard_match (0x2A # p) s \<longleftrightarrow> (\<exists>t u. s = t @ u \<and> wildcard_match p u)"
  by (simp add: wildcard_Cons stands_for_def)

lemma wildcard_char:
  assumes "c \<noteq> 0x2A"
  shows "\<not> wildcard_match (c # p) []" "wildcard_match (c # p) (x # s) \<longleftrightarrow> stands_for c [x] \<and> wildcard_match p s"
proof -
  have one: "\<exists>y. t = [y]" if "stands_for c t" for t
    using that assms by (auto simp: stands_for_def length_Suc_conv)
  show "\<not> wildcard_match (c # p) []" unfolding wildcard_Cons using one by auto
  show "wildcard_match (c # p) (x # s) \<longleftrightarrow> stands_for c [x] \<and> wildcard_match p s"
  proof
    assume "wildcard_match (c # p) (x # s)"
    then obtain t u where t: "x # s = t @ u" "stands_for c t" "wildcard_match p u" unfolding wildcard_Cons by blast
    then show "stands_for c [x] \<and> wildcard_match p s" using one [OF t(2)] by auto
  next
    assume "stands_for c [x] \<and> wildcard_match p s"
    then have "x # s = [x] @ s \<and> stands_for c [x] \<and> wildcard_match p s" by simp
    then show "wildcard_match (c # p) (x # s)" unfolding wildcard_Cons by blast
  qed
qed

lemma match_characters_wildcard:
  "case match_characters p s of None \<Rightarrow> \<not> wildcard_match p s
   | Some (p', s') \<Rightarrow> wildcard_match p s \<longleftrightarrow> wildcard_match p' s'"
proof (induction p s rule: match_characters.induct)
  case (1 p ps s ss)
  show ?case
  proof (cases "p = 0x2A")
    case False
    have m: "match_characters (p # ps) (s # ss) = (if stands_for p [s] then match_characters ps ss else None)"
      using False by (auto simp: stands_for_def is_slash_def)
    have "case match_characters ps ss of None \<Rightarrow> \<not> wildcard_match ps ss | Some (p', s') \<Rightarrow> wildcard_match ps ss \<longleftrightarrow> wildcard_match p' s'"
      if "stands_for p [s]"
      using that 1 False by (cases "is_slash p"; cases "p = 0x3F") (auto simp: stands_for_def is_slash_def)
    then show ?thesis unfolding m wildcard_char(2) [OF False] by (auto split: option.splits)
  qed simp
qed simp_all

lemma wildcard_stars:
  "p \<noteq> [] \<Longrightarrow> hd p = 0x2A \<Longrightarrow>
    wildcard_match p s \<longleftrightarrow> (\<exists>t u. s = t @ u \<and> wildcard_match (dropWhile (\<lambda>c. c = 0x2A) p) u)"
proof (induction p arbitrary: s)
  case (Cons c p)
  show ?case
  proof (cases "p \<noteq> [] \<and> hd p = 0x2A")
    case True
    let ?W = "wildcard_match (dropWhile (\<lambda>c. c = 0x2A) p)"
    have "(\<exists>t u. s = t @ u \<and> wildcard_match p u) \<longleftrightarrow> (\<exists>t u v. s = t @ u @ v \<and> ?W v)"
      using Cons.IH True by auto
    also have "\<dots> \<longleftrightarrow> (\<exists>t v. s = t @ v \<and> ?W v)" by (metis append.assoc append_Nil)
    finally show ?thesis using Cons.prems by (simp add: wildcard_star)
  next
    case False
    then have "dropWhile (\<lambda>c. c = 0x2A) p = p" by (cases p) auto
    then show ?thesis using Cons by (simp add: wildcard_star)
  qed
qed simp

lemma wildcard_not_empty: "p \<noteq> [] \<Longrightarrow> hd p \<noteq> 0x2A \<Longrightarrow> \<not> wildcard_match p []"
  by (cases p) (simp_all add: wildcard_char)

lemma dropWhile_star: "dropWhile (\<lambda>c. c = (0x2A :: byte)) p \<noteq> [] \<Longrightarrow> hd (dropWhile (\<lambda>c. c = 0x2A) p) \<noteq> 0x2A"
  using hd_dropWhile by blast

lemma match_wildcard:
  "MatchVlogPattern s p \<longleftrightarrow> wildcard_match p s"
  "p' \<noteq> [] \<Longrightarrow> hd p' \<noteq> 0x2A \<Longrightarrow> match_from s' p' \<longleftrightarrow> (\<exists>t u. s' = t @ u \<and> wildcard_match p' u)"
proof (induction s p and s' p' rule: MatchVlogPattern_match_from.induct)
  case (1 string pat)
  show ?case
  proof (cases "match_characters pat string")
    case None
    then show ?thesis using match_characters_wildcard [of pat string] by (simp add: MatchVlogPattern.simps)
  next
    case (Some ps)
    obtain p s where ps: "ps = (p, s)" by (cases ps)
    have eq: "wildcard_match pat string \<longleftrightarrow> wildcard_match p s"
      using match_characters_wildcard [of pat string] Some ps by simp
    note unfold = MatchVlogPattern.simps [of string pat] Some ps Let_def
    consider "p = []" | "p \<noteq> []" "hd p = 0x2A" | "p \<noteq> []" "hd p \<noteq> 0x2A" by blast
    then show ?thesis
    proof cases
      case 1
      then show ?thesis by (simp add: unfold eq)
    next
      case 2
      show ?thesis
      proof (cases "dropWhile (\<lambda>c. c = 0x2A) p = []")
        case True
        have "wildcard_match p s"
          unfolding wildcard_stars [OF 2] True by (intro exI [of _ s] exI [of _ "[]"]) simp
        then show ?thesis using 2 True by (simp add: unfold eq)
      next
        case False
        have "match_from s (dropWhile (\<lambda>c. c = 0x2A) p) \<longleftrightarrow> (\<exists>t u. s = t @ u \<and> wildcard_match (dropWhile (\<lambda>c. c = 0x2A) p) u)"
          using 1 [OF Some [unfolded ps] refl 2(1) refl False False dropWhile_star [OF False]] .
        then show ?thesis using False 2 wildcard_stars [OF 2, of s] by (auto simp: unfold eq)
      qed
    next
      case 3
      then have "s = []" "dropWhile (\<lambda>c. c = 0x2A) p = p"
        using match_characters_Some [OF Some [unfolded ps]] by (simp_all, cases p) auto
      then show ?thesis using 3 wildcard_not_empty [OF 3] by (simp add: unfold eq match_from.simps)
    qed
  qed
next
  case (2 s p)
  show ?case
  proof (cases s)
    case Nil
    then show ?thesis using wildcard_not_empty [OF 2(3,4)] by (simp add: match_from.simps)
  next
    case (Cons c cs)
    have "MatchVlogPattern s p \<longleftrightarrow> wildcard_match p s" using 2(1) Cons by simp
    moreover have "match_from cs p \<longleftrightarrow> (\<exists>t u. cs = t @ u \<and> wildcard_match p u)" if "\<not> wildcard_match p s"
      using 2(2) 2(3,4) Cons that calculation by simp
    moreover have "(\<exists>t u. s = t @ u \<and> wildcard_match p u) \<longleftrightarrow> wildcard_match p s \<or> (\<exists>t u. cs = t @ u \<and> wildcard_match p u)"
      unfolding Cons by (simp only: Cons_eq_append_conv) auto
    ultimately show ?thesis using Cons by (subst match_from.simps) auto
  qed
qed


subsection \<open>From the switches to the level of a file\<close>

text \<open>A setting of \<^verbatim>\<open>--vmodule\<close>: a pattern and its level, written as \<^verbatim>\<open>pattern=level\<close>.\<close>

lemma IntToString_int_string: "is_int32 l \<Longrightarrow> IntToString l = Inr (int_string l)"
  unfolding IntToString_def int_string_def
  by (rule IntToStringT_eq) (simp_all add: in_type_def is_int32_def limits_min_def limits_max_def int32_t_def)

definition setting :: "str \<times> int \<Rightarrow> str" where
  "setting kl = fst kl @ 0x3D # int_string (snd kl)"

definition is_setting :: "str \<times> int \<Rightarrow> bool" where
  "is_setting kl \<longleftrightarrow> is_int32 (snd kl) \<and> 0x3D \<notin> set (fst kl) \<and> 0x2C \<notin> set (fst kl) \<and>
     (fst kl = [] \<or> hd (fst kl) \<notin> set kWhitespaceASCII)"

definition reads_numbers :: "(byte \<Rightarrow> bool) \<Rightarrow> bool" where
  "reads_numbers sp \<longleftrightarrow> \<not> sp 0x2D \<and> (\<forall>d < 10. \<not> sp (of_nat (d + 0x30)))"

lemma int_string_chars:
  "c \<in> set (int_string l) \<Longrightarrow> c = 0x2D \<or> (\<exists>d < 10. c = of_nat (d + 0x30))"
  using dec_digits_less by (auto simp: int_string_def dec_string_def split: if_splits)

lemma int_string_plain:
  "c \<in> set (int_string l) \<Longrightarrow> c \<noteq> 0x3D \<and> c \<noteq> 0x2C \<and> c \<notin> set kWhitespaceASCII"
proof -
  have "\<forall>d \<in> set [0..<10]. of_nat (d + 0x30) \<noteq> (0x3D :: byte) \<and> of_nat (d + 0x30) \<noteq> (0x2C :: byte) \<and>
      of_nat (d + 0x30) \<notin> set kWhitespaceASCII" by code_simp
  then show "c \<in> set (int_string l) \<Longrightarrow> ?thesis"
    using int_string_chars [of c l] by (auto simp: kWhitespaceASCII_def)
qed

lemma int_string_not_Nil: "int_string l \<noteq> []"
  using dec_string_hd(2) [where ?'a = 8] by (simp add: int_string_def)

lemma StringToInt_int_string:
  assumes "reads_numbers sp" "is_int32 l"
  shows "StringToInt sp (int_string l) = (True, Some l)"
proof -
  have "\<exists>s. IntToStringT int32_t l = Inr s \<and> StringToIntImpl int32_t sp s = (True, Some l)"
    using assms by (intro IntToString_roundtrip') (simp_all add: reads_numbers_def in_type_def is_int32_def limits_min_def limits_max_def int32_t_def)
  then show ?thesis using IntToString_int_string [OF assms(2)] by (simp add: IntToString_def StringToInt_def)
qed

lemma setting_trimmed: "is_setting kl \<Longrightarrow> TrimAll kWhitespaceASCII (setting kl) = setting kl"
proof -
  assume k: "is_setting kl"
  have "hd (setting kl) \<notin> set kWhitespaceASCII"
    using k by (cases "fst kl") (auto simp: is_setting_def setting_def kWhitespaceASCII_def)
  moreover have "last (setting kl) \<notin> set kWhitespaceASCII"
    using int_string_plain [of "last (int_string (snd kl))" "snd kl"] int_string_not_Nil [of "snd kl"] by (simp add: setting_def)
  moreover have "setting kl \<noteq> []" by (simp add: setting_def)
  ultimately show ?thesis unfolding TrimAll_dropWhile
    by (metis (no_types, lifting) dropWhile_eq_self_iff hd_rev rev_is_Nil_conv rev_rev_ident)
qed

lemma setting_key_value:
  assumes "is_setting kl"
  shows "SplitStringIntoKeyValue (setting kl) 0x3D = (True, fst kl, int_string (snd kl))"
proof -
  have k: "find_first_of (setting kl) [0x3D] 0 = Some (length (fst kl))"
    using assms find_index_skip [of "fst kl" "\<lambda>c. c = 0x3D" "0x3D # int_string (snd kl)"]
    by (auto simp: find_first_of_def find_first_def setting_def is_setting_def)
  obtain c cs where v: "int_string (snd kl) = c # cs" "c \<noteq> 0x3D"
    using int_string_not_Nil [of "snd kl"] int_string_plain [of "hd (int_string (snd kl))" "snd kl"]
    by (cases "int_string (snd kl)") auto
  show ?thesis
    by (simp add: SplitStringIntoKeyValue_def k substr_def Let_def) (simp add: setting_def v find_first_not_of_def find_first_def substr_def)
qed

lemma key_value_pairs_settings:
  "list_all is_setting ps \<Longrightarrow>
    key_value_pairs 0x3D (map setting ps) (b, acc) = (b, acc @ map (\<lambda>kl. (fst kl, int_string (snd kl))) ps)"
  by (induction ps arbitrary: acc) (auto simp: setting_key_value, simp_all add: setting_def)

lemma settings_pairs:
  assumes "list_all is_setting ps"
  shows "snd (SplitStringIntoKeyValuePairs kWhitespaceASCII (JoinStringT (map setting ps) [0x2C]) 0x3D 0x2C) =
    map (\<lambda>kl. (fst kl, int_string (snd kl))) ps"
proof (cases "ps = []")
  case True
  then show ?thesis
    by (simp add: SplitStringIntoKeyValuePairs_def SplitString_def SplitStringT_pieces JoinStringT_join TrimAll_dropWhile)
next
  case False
  have "\<forall>p \<in> set (map setting ps). 0x2C \<notin> set p"
    using assms int_string_plain by (fastforce simp: list_all_iff setting_def is_setting_def)
  then have p: "pieces 0x2C (join [0x2C] (map setting ps)) = map setting ps" using False by (intro pieces_join) simp_all
  have t: "map (TrimAll kWhitespaceASCII) (map setting ps) = map setting ps"
    using assms setting_trimmed by (auto simp: list_all_iff)
  have n: "map setting ps \<noteq> [[]]" using False by (cases ps) (auto simp: setting_def)
  have "SplitString kWhitespaceASCII (JoinStringT (map setting ps) [0x2C]) 0x2C = map setting ps"
    by (simp only: SplitString_def SplitStringT_pieces JoinStringT_join Let_def p t n if_True if_False)
  then show ?thesis using key_value_pairs_settings [OF assms] by (simp add: SplitStringIntoKeyValuePairs_def)
qed

lemma first_level_find:
  "first_level (map (\<lambda>kl. (VmodulePattern (fst kl))\<lparr>vlog_level := snd kl\<rparr>) ps) file module_name =
    map_option snd (find (\<lambda>kl. wildcard_match (fst kl) (if set (fst kl) \<inter> set slashes \<noteq> {} then file else module_name)) ps)"
proof (induction ps)
  case (Cons kl ps)
  have "find_first_of (fst kl) slashes 0 \<noteq> None \<longleftrightarrow> set (fst kl) \<inter> set slashes \<noteq> {}"
    by (auto simp: find_first_of_def find_first_def find_index_None)
  then show ?case using Cons by (auto simp: match_wildcard VmodulePattern_def)
qed simp

lemma wrap32_neg_neg: "is_int32 l \<Longrightarrow> wrap32 (- wrap32 (- l)) = l"
  by (cases "l = - (2 ^ 31)") (auto simp: is_int32_def wrap32_def)

text \<open>
  C38: the level of a source file under \<^verbatim>\<open>--v=level --vmodule=pattern=level,...\<close> is that of the first pattern
  that matches, as a wildcard, the file's path if the pattern has a slash and the file's module otherwise,
  and the level of \<^verbatim>\<open>--v\<close> when none does.
\<close>

theorem vlog_switches_level:
  assumes "reads_numbers sp" "is_int32 level" "list_all is_setting ps"
  shows "(case VlogInfo sp (int_string level) (JoinStringT (map setting ps) [0x2C]) m of
      (levels, min_log_level) \<Rightarrow> GetVlogLevel levels min_log_level path) =
    (case find (\<lambda>kl. wildcard_match (fst kl) (if set (fst kl) \<inter> set slashes \<noteq> {} then path else GetModule path)) ps of
       Some kl \<Rightarrow> snd kl | None \<Rightarrow> level)"
proof -
  have "map (read_pattern sp) (map (\<lambda>kl. (fst kl, int_string (snd kl))) ps) =
      map (\<lambda>kl. (VmodulePattern (fst kl))\<lparr>vlog_level := snd kl\<rparr>) ps"
    using assms StringToInt_int_string by (auto simp: read_pattern_def list_all_iff is_setting_def Let_def)
  then have "VlogInfo sp (int_string level) (JoinStringT (map setting ps) [0x2C]) m =
      (map (\<lambda>kl. (VmodulePattern (fst kl))\<lparr>vlog_level := snd kl\<rparr>) ps, wrap32 (- level))"
    using settings_pairs [OF assms(3)] StringToInt_int_string [OF assms(1,2)] int_string_not_Nil
    by (simp add: VlogInfo_def SetMaxVlogLevel_def)
  then show ?thesis using wrap32_neg_neg [OF assms(2)]
    by (auto simp: GetVlogLevel_def GetMaxVlogLevel_def first_level_find split: option.splits)
qed

theorem vlog_switches_level_witness:
  "(case VlogInfo (\<lambda>c. c = 0x20) (int_string 1) (JoinStringT [setting (text8 ''ini*'', 3)] [0x2C]) 0 of
      (levels, min_log_level) \<Rightarrow> GetVlogLevel levels min_log_level (text8 ''app/ini_parser.cc'')) = 3"
proof -
  have "reads_numbers (\<lambda>c. c = 0x20)"
    using digit_not_sign(3) [where ?'a = 8] by (auto simp: reads_numbers_def)
  moreover have "is_setting (text8 ''ini*'', 3)" "MatchVlogPattern (GetModule (text8 ''app/ini_parser.cc'')) (text8 ''ini*'')"
    "set (text8 ''ini*'') \<inter> set slashes = {}" by code_simp+
  ultimately show ?thesis
    using vlog_switches_level [where sp = "\<lambda>c. c = 0x20" and level = 1 and ps = "[(text8 ''ini*'', 3)]" and m = 0
        and path = "text8 ''app/ini_parser.cc''"]
    by (simp add: is_int32_def match_wildcard)
qed

end
