(* ===== verification/Logging.thy ===== *)
theory Logging
  imports Vlog Environment
begin

text \<open>
  Logging (\<^verbatim>\<open>base/logging.cc\<close>, Windows debug build). The globals of the file are the record \<open>logging\<close>; the
  calls of Windows and of the C library that a log line causes are recorded in order in \<open>os_calls\<close>, what
  they return is the parameter \<open>log_os\<close>. \<open>BreakDebugger\<close> ends the process: nothing follows it in a run.
\<close>

unbundle bit_operations_syntax

subsection \<open>State\<close>

type_synonym log_severity = int

definition LOG_VERBOSE :: log_severity where "LOG_VERBOSE = -1"
definition LOG_INFO :: log_severity where "LOG_INFO = 0"
definition LOG_WARNING :: log_severity where "LOG_WARNING = 1"
definition LOG_ERROR :: log_severity where "LOG_ERROR = 2"
definition LOG_FATAL :: log_severity where "LOG_FATAL = 3"
definition LOG_NUM_SEVERITIES :: log_severity where "LOG_NUM_SEVERITIES = 4"

definition LOG_NONE :: "32 word" where "LOG_NONE = 0"
definition LOG_TO_FILE :: "32 word" where "LOG_TO_FILE = 1"
definition LOG_TO_SYSTEM_DEBUG_LOG :: "32 word" where "LOG_TO_SYSTEM_DEBUG_LOG = 2"
definition LOG_TO_ALL :: "32 word" where "LOG_TO_ALL = LOG_TO_FILE OR LOG_TO_SYSTEM_DEBUG_LOG"
definition LOG_DEFAULT :: "32 word" where "LOG_DEFAULT = LOG_TO_FILE"

datatype log_locking_state = LOCK_LOG_FILE | DONT_LOCK_LOG_FILE
datatype old_file_deletion_state = DELETE_OLD_LOG_FILE | APPEND_TO_OLD_LOG_FILE

text \<open>The mutex is given by whether its handle is not null; file handles are numbers.\<close>

datatype os_call =
    OutputDebugString str
  | Write_stderr str
  | CreateFile wstring "nat option"
  | SetFilePointer_end nat
  | WriteFile nat str
  | CloseHandle nat
  | DeleteFile wstring
  | CreateMutex wstring bool
  | WaitForSingleObject bool
  | ReleaseMutex bool
  | LockImpl_Lock
  | LockImpl_Unlock
  | CreateProcess wstring wstring bool
  | MessageBox wstring wstring
  | BreakDebugger

record logging =
  g_vlog_info :: "vmodule_pattern list option"
  g_vlog_info_prev :: "vmodule_pattern list option"
  min_log_level :: int
  logging_destination :: "32 word"
  log_file_name :: "wstring option"
  log_file :: "nat option"
  log_process_id :: bool
  log_thread_id :: bool
  log_timestamp :: bool
  log_tickcount :: bool
  show_error_dialogs :: bool
  log_assert_handler :: "(str \<Rightarrow> os_call list) option"
  log_message_handler :: "(log_severity \<Rightarrow> str \<Rightarrow> int \<Rightarrow> nat \<Rightarrow> str \<Rightarrow> bool) option"
  lock_initialized :: bool
  lock_log_file :: log_locking_state
  log_mutex :: bool
  log_lock :: bool
  os_calls :: "os_call list"

definition initial_logging :: logging where
  "initial_logging =
     \<lparr>g_vlog_info = None, g_vlog_info_prev = None, min_log_level = 0, logging_destination = LOG_DEFAULT,
      log_file_name = None, log_file = None, log_process_id = False, log_thread_id = False, log_timestamp = True,
      log_tickcount = False, show_error_dialogs = False, log_assert_handler = None, log_message_handler = None,
      lock_initialized = False, lock_log_file = LOCK_LOG_FILE, log_mutex = False, log_lock = False, os_calls = []\<rparr>"

record local_time = tm_mon :: nat  tm_mday :: nat  tm_hour :: nat  tm_min :: nat  tm_sec :: nat

text \<open>What the calls return; opening a file can depend on what has been called before.\<close>

record log_os =
  create_file :: "os_call list \<Rightarrow> wstring \<Rightarrow> nat option"
  create_mutex :: bool
  create_process :: bool
  module_file_name :: wstring
  process_id :: int
  thread_id :: int
  clock :: local_time
  tick_count :: nat
  stack_trace :: str
  is_space :: "byte \<Rightarrow> bool"

definition os_call :: "os_call \<Rightarrow> logging \<Rightarrow> logging" where
  "os_call c s = s\<lparr>os_calls := os_calls s @ [c]\<rparr>"

subsection \<open>The lock\<close>

definition wide :: "string \<Rightarrow> wstring" where "wide s = map ucast (text8 s)"

definition MAX_PATH :: nat where "MAX_PATH = 260"

definition GetDefaultLogFile :: "log_os \<Rightarrow> wstring" where
  "GetDefaultLogFile os =
     (let log_name = module_file_name os
      in (case str_rfind log_name [0x5C] (length log_name) of
            None \<Rightarrow> log_name | Some last_backslash \<Rightarrow> take (last_backslash + 1) log_name) @ wide ''debug.log'')"

definition LoggingLock_Init :: "log_os \<Rightarrow> log_locking_state \<Rightarrow> wstring option \<Rightarrow> logging \<Rightarrow> logging" where
  "LoggingLock_Init os lock_log new_log_file s =
     (if lock_initialized s then s
      else
        let s1 = s\<lparr>lock_log_file := lock_log\<rparr>
        in if lock_log_file s1 = LOCK_LOG_FILE then
             (if \<not> log_mutex s1 then
                let safe_name = (case new_log_file of Some f \<Rightarrow> f | None \<Rightarrow> GetDefaultLogFile os);
                    t = wide ''Global'' @ [0x5C] @ map (\<lambda>c. if c = 0x5C then 0x2F else c) safe_name;
                    s2 = (os_call (CreateMutex t (create_mutex os)) s1)\<lparr>log_mutex := create_mutex os\<rparr>
                in if \<not> log_mutex s2 then s2 else s2\<lparr>lock_initialized := True\<rparr>
              else s1\<lparr>lock_initialized := True\<rparr>)
           else s1\<lparr>log_lock := True, lock_initialized := True\<rparr>)"

definition LockLogging :: "logging \<Rightarrow> logging result" where
  "LockLogging s =
     (if lock_log_file s = LOCK_LOG_FILE then Inr (os_call (WaitForSingleObject (log_mutex s)) s)
      else require (log_lock s) (Null_deref ''log_lock'') (Inr (os_call LockImpl_Lock s)))"

definition UnlockLogging :: "logging \<Rightarrow> logging result" where
  "UnlockLogging s =
     (if lock_log_file s = LOCK_LOG_FILE then Inr (os_call (ReleaseMutex (log_mutex s)) s)
      else require (log_lock s) (Null_deref ''log_lock'') (Inr (os_call LockImpl_Unlock s)))"

text \<open>A block with a local \<^verbatim>\<open>LoggingLock\<close>.\<close>

definition with_logging_lock :: "(logging \<Rightarrow> 'a \<times> logging) \<Rightarrow> logging \<Rightarrow> ('a \<times> logging) result" where
  "with_logging_lock body s =
     rbind (LockLogging s) (\<lambda>s1. let (r, s2) = body s1 in rbind (UnlockLogging s2) (\<lambda>s3. Inr (r, s3)))"

subsection \<open>The file\<close>

definition try_create_file :: "log_os \<Rightarrow> wstring \<Rightarrow> logging \<Rightarrow> logging" where
  "try_create_file os name s =
     (let h = create_file os (os_calls s) name in (os_call (CreateFile name h) s)\<lparr>log_file := h\<rparr>)"

definition InitializeLogFileHandle :: "log_os \<Rightarrow> logging \<Rightarrow> bool \<times> logging" where
  "InitializeLogFileHandle os s =
     (if log_file s \<noteq> None then (True, s)
      else
        let s1 = (if log_file_name s = None then s\<lparr>log_file_name := Some (GetDefaultLogFile os)\<rparr> else s)
        in if logging_destination s1 AND LOG_TO_FILE \<noteq> 0 then
             (let s2 = try_create_file os (c_str (the (log_file_name s1))) s1;
                  s3 = (if log_file s2 = None then try_create_file os (wide ''.'' @ [0x5C] @ wide ''debug.log'') s2 else s2)
              in case log_file s3 of
                   None \<Rightarrow> (False, s3)
                 | Some h \<Rightarrow> (True, os_call (SetFilePointer_end h) s3))
           else (True, s1))"

definition CloseLogFileUnlocked :: "logging \<Rightarrow> logging" where
  "CloseLogFileUnlocked s =
     (case log_file s of None \<Rightarrow> s | Some h \<Rightarrow> (os_call (CloseHandle h) s)\<lparr>log_file := None\<rparr>)"

definition CloseLogFile :: "logging \<Rightarrow> logging result" where
  "CloseLogFile s = rbind (with_logging_lock (\<lambda>s1. ((), CloseLogFileUnlocked s1)) s) (\<lambda>(_, s2). Inr s2)"

subsection \<open>Levels\<close>

definition SetMinLogLevel :: "int \<Rightarrow> logging \<Rightarrow> logging" where
  "SetMinLogLevel level s = s\<lparr>min_log_level := min LOG_FATAL level\<rparr>"

definition GetMinLogLevel :: "logging \<Rightarrow> int" where "GetMinLogLevel s = min_log_level s"

definition GetVlogVerbosity :: "logging \<Rightarrow> int" where
  "GetVlogVerbosity s = max (-1) (LOG_INFO - GetMinLogLevel s)"

definition GetVlogLevelHelper :: "str \<Rightarrow> logging \<Rightarrow> int" where
  "GetVlogLevelHelper file s =
     (case g_vlog_info s of Some levels \<Rightarrow> GetVlogLevel levels (min_log_level s) file | None \<Rightarrow> GetVlogVerbosity s)"

definition LOG_IS_ON :: "log_severity \<Rightarrow> logging \<Rightarrow> bool" where
  "LOG_IS_ON severity s \<longleftrightarrow> severity \<ge> GetMinLogLevel s"

definition VLOG_IS_ON :: "int \<Rightarrow> str \<Rightarrow> logging \<Rightarrow> bool" where
  "VLOG_IS_ON verboselevel file s \<longleftrightarrow> verboselevel \<le> GetVlogLevelHelper file s"

definition SetLogItems :: "bool \<Rightarrow> bool \<Rightarrow> bool \<Rightarrow> bool \<Rightarrow> logging \<Rightarrow> logging" where
  "SetLogItems enable_process_id enable_thread_id enable_timestamp enable_tickcount s =
     s\<lparr>log_process_id := enable_process_id, log_thread_id := enable_thread_id,
       log_timestamp := enable_timestamp, log_tickcount := enable_tickcount\<rparr>"

definition SetShowErrorDialogs :: "bool \<Rightarrow> logging \<Rightarrow> logging" where
  "SetShowErrorDialogs enable_dialogs s = s\<lparr>show_error_dialogs := enable_dialogs\<rparr>"

definition SetLogAssertHandler :: "(str \<Rightarrow> os_call list) option \<Rightarrow> logging \<Rightarrow> logging" where
  "SetLogAssertHandler handler s = s\<lparr>log_assert_handler := handler\<rparr>"

definition SetLogMessageHandler ::
  "(log_severity \<Rightarrow> str \<Rightarrow> int \<Rightarrow> nat \<Rightarrow> str \<Rightarrow> bool) option \<Rightarrow> logging \<Rightarrow> logging" where
  "SetLogMessageHandler handler s = s\<lparr>log_message_handler := handler\<rparr>"

subsection \<open>A message\<close>

definition log_severity_names :: "str list" where
  "log_severity_names = map text8 [''INFO'', ''WARNING'', ''ERROR'', ''FATAL'']"

definition log_severity_name :: "log_severity \<Rightarrow> str" where
  "log_severity_name severity =
     (if severity \<ge> 0 \<and> severity < LOG_NUM_SEVERITIES then log_severity_names ! nat severity else text8 ''UNKNOWN'')"

text \<open>\<^verbatim>\<open>std::setw(2)\<close> with the fill character \<^verbatim>\<open>'0'\<close>.\<close>

definition two_digits :: "nat \<Rightarrow> str" where
  "two_digits n = (let d = dec_string n in if length d < 2 then 0x30 # d else d)"

definition LogMessage_Init :: "log_os \<Rightarrow> logging \<Rightarrow> str \<Rightarrow> int \<Rightarrow> log_severity \<Rightarrow> str" where
  "LogMessage_Init os s file line severity =
     (let filename = (case find_last_of file slashes of None \<Rightarrow> file | Some last_slash_pos \<Rightarrow> drop (last_slash_pos + 1) file);
          t = clock os
      in text8 ''['' @
         (if log_process_id s then int_string (process_id os) @ text8 '':'' else []) @
         (if log_thread_id s then int_string (thread_id os) @ text8 '':'' else []) @
         (if log_timestamp s then
            two_digits (1 + tm_mon t) @ two_digits (tm_mday t) @ text8 ''/'' @
            two_digits (tm_hour t) @ two_digits (tm_min t) @ two_digits (tm_sec t) @ text8 '':'' else []) @
         (if log_tickcount s then dec_string (tick_count os) @ text8 '':'' else []) @
         (if severity \<ge> 0 then log_severity_name severity else text8 ''VERBOSE'' @ int_string (- severity)) @
         text8 '':'' @ filename @ text8 ''('' @ int_string line @ text8 '')] '')"

definition DisplayDebugMessageInDialog :: "log_os \<Rightarrow> str \<Rightarrow> logging \<Rightarrow> logging result" where
  "DisplayDebugMessageInDialog os text s =
     (if text = [] then Inr s
      else if \<not> show_error_dialogs s then Inr s
      else
        let prog_name = (case str_rfind (module_file_name os) [0x5C] (length (module_file_name os)) of
              None \<Rightarrow> module_file_name os | Some backslash \<Rightarrow> take (backslash + 1) (module_file_name os));
            prog_name1 = prog_name @ wide ''debug_message.exe''; cmdline = UTF8ToWide text
        in require (length prog_name1 < MAX_PATH) (Fatal ''wcscat_s'')
             (if cmdline = [] then Inr s
              else if create_process os then Inr (os_call (CreateProcess prog_name1 (c_str cmdline) True) s)
              else Inr (os_call (MessageBox (c_str cmdline) (wide ''Fatal error''))
                          (os_call (CreateProcess prog_name1 (c_str cmdline) False) s))))"

definition kAlwaysPrintErrorLevel :: log_severity where "kAlwaysPrintErrorLevel = LOG_ERROR"

text \<open>The write to the log file, in the destructor.\<close>

definition write_to_log_file :: "log_os \<Rightarrow> str \<Rightarrow> logging \<Rightarrow> logging result" where
  "write_to_log_file os str_newline s =
     rbind (with_logging_lock (\<lambda>s1.
         let (ok, s2) = InitializeLogFileHandle os s1
         in if ok then ((), os_call (WriteFile (the (log_file s2)) str_newline) (os_call (SetFilePointer_end (the (log_file s2))) s2))
            else ((), s2))
       (LoggingLock_Init os LOCK_LOG_FILE None s)) (\<lambda>(_, s3). Inr s3)"

text \<open>The write to the debugger and the console, and the end of a fatal message.\<close>

definition write_to_console :: "log_severity \<Rightarrow> str \<Rightarrow> logging \<Rightarrow> logging" where
  "write_to_console severity str_newline s =
     (if logging_destination s AND LOG_TO_SYSTEM_DEBUG_LOG \<noteq> 0
      then os_call (Write_stderr str_newline) (os_call (OutputDebugString str_newline) s)
      else if severity \<ge> kAlwaysPrintErrorLevel then os_call (Write_stderr str_newline) s
      else s)"

definition fatal_message :: "log_os \<Rightarrow> log_severity \<Rightarrow> str \<Rightarrow> logging \<Rightarrow> logging result" where
  "fatal_message os severity str_newline s =
     (if severity = LOG_FATAL then
        (case log_assert_handler s of
           Some h \<Rightarrow> Inr (s\<lparr>os_calls := os_calls s @ h str_newline\<rparr>)
         | None \<Rightarrow> rbind (DisplayDebugMessageInDialog os str_newline s) (\<lambda>s1. Inr (os_call BreakDebugger s1)))
      else Inr s)"

text \<open>Constructor, the text streamed into the message, and destructor.\<close>

definition message_text :: "log_os \<Rightarrow> logging \<Rightarrow> str \<Rightarrow> int \<Rightarrow> log_severity \<Rightarrow> str \<Rightarrow> str" where
  "message_text os s file line severity text =
     LogMessage_Init os s file line severity @ text @ (if severity = LOG_FATAL then [0x0A] @ stack_trace os else []) @ [0x0A]"

definition LogMessage :: "log_os \<Rightarrow> str \<Rightarrow> int \<Rightarrow> log_severity \<Rightarrow> str \<Rightarrow> logging \<Rightarrow> logging result" where
  "LogMessage os file line severity text s =
     (let message_start = length (LogMessage_Init os s file line severity);
          str_newline = message_text os s file line severity text
      in if (case log_message_handler s of None \<Rightarrow> False | Some h \<Rightarrow> h severity file line message_start str_newline) then Inr s
         else
           let s1 = write_to_console severity str_newline s
           in rbind (if logging_destination s1 AND LOG_TO_FILE \<noteq> 0 then write_to_log_file os str_newline s1 else Inr s1)
                (fatal_message os severity str_newline))"

text \<open>\<^verbatim>\<open>LOG(severity) << text\<close> and \<^verbatim>\<open>VLOG(verboselevel) << text\<close> at a line of a file.\<close>

definition LOG :: "log_os \<Rightarrow> str \<Rightarrow> int \<Rightarrow> log_severity \<Rightarrow> str \<Rightarrow> logging \<Rightarrow> logging result" where
  "LOG os file line severity text s = (if LOG_IS_ON severity s then LogMessage os file line severity text s else Inr s)"

definition VLOG :: "log_os \<Rightarrow> str \<Rightarrow> int \<Rightarrow> int \<Rightarrow> str \<Rightarrow> logging \<Rightarrow> logging result" where
  "VLOG os file line verboselevel text s =
     (if VLOG_IS_ON verboselevel file s then LogMessage os file line (- verboselevel) text s else Inr s)"

fun log_lines :: "log_os \<Rightarrow> log_line list \<Rightarrow> logging \<Rightarrow> logging result" where
  "log_lines os [] s = Inr s"
| "log_lines os ((file, line, severity, text) # ls) s =
     rbind (if severity < 0 then VLOG os file line (- severity) text s else LOG os file line severity text s) (log_lines os ls)"

subsection \<open>Setting it up\<close>

record logging_settings =
  logging_dest :: "32 word"
  settings_log_file :: wstring
  lock_log :: log_locking_state
  delete_old :: old_file_deletion_state

definition kV :: str where "kV = text8 ''v''"
definition kVModule :: str where "kVModule = text8 ''vmodule''"

definition init_vlog_info :: "log_os \<Rightarrow> command_line \<Rightarrow> logging \<Rightarrow> logging result" where
  "init_vlog_info os command_line s =
     (if HasSwitch command_line kV \<or> HasSwitch command_line kVModule then
        require (g_vlog_info_prev s = None) (Check ''!g_vlog_info_prev'')
          (rbind (GetSwitchValueASCII command_line kV) (\<lambda>v_switch.
            rbind (GetSwitchValueASCII command_line kVModule) (\<lambda>vmodule_switch.
              let s1 = s\<lparr>g_vlog_info_prev := g_vlog_info s\<rparr>;
                  (levels, min1) = VlogInfo (is_space os) v_switch vmodule_switch (min_log_level s1)
              in rbind (log_lines os (VlogInfo_lines (is_space os) v_switch vmodule_switch) (s1\<lparr>min_log_level := min1\<rparr>)) (\<lambda>s2.
                   Inr (s2\<lparr>g_vlog_info := Some levels\<rparr>)))))
      else Inr s)"

definition init_log_file :: "log_os \<Rightarrow> logging_settings \<Rightarrow> logging \<Rightarrow> (bool \<times> logging) result" where
  "init_log_file os settings s =
     (let s1 = s\<lparr>logging_destination := logging_dest settings\<rparr>
      in if logging_destination s1 AND LOG_TO_FILE = 0 then Inr (True, s1)
         else with_logging_lock (\<lambda>s2.
                let s3 = (CloseLogFileUnlocked s2)\<lparr>log_file_name := Some (settings_log_file settings)\<rparr>;
                    s4 = (if delete_old settings = DELETE_OLD_LOG_FILE then os_call (DeleteFile (c_str (settings_log_file settings))) s3 else s3)
                in InitializeLogFileHandle os s4)
              (LoggingLock_Init os (lock_log settings) (Some (settings_log_file settings)) s1))"

definition BaseInitLoggingImpl :: "log_os \<Rightarrow> command_line \<Rightarrow> logging_settings \<Rightarrow> logging \<Rightarrow> (bool \<times> logging) result" where
  "BaseInitLoggingImpl os command_line settings s = rbind (init_vlog_info os command_line s) (init_log_file os settings)"

definition GetLogFileFullPath :: "logging \<Rightarrow> wstring" where
  "GetLogFileFullPath s = (case log_file_name s of Some f \<Rightarrow> f | None \<Rightarrow> [])"

end
