(* ===== verification/Logging_Props.thy ===== *)
theory Logging_Props
  imports Logging
begin

text \<open>
  Logging never touches the file outside the lock: the calls of Windows that any sequence of logging
  operations makes follow the protocol of a lock and a file.
\<close>

subsection \<open>The protocol of the lock and the file\<close>

datatype guard = Free | Mutex_held | Lock_held

text \<open>The guard and the open file; \<open>None\<close> for a call that breaks the protocol.\<close>

fun protocol_step :: "os_call \<Rightarrow> guard \<times> nat option \<Rightarrow> (guard \<times> nat option) option" where
  "protocol_step (WaitForSingleObject mutex) (g, f) =
     (if g = Free then Some (if mutex then Mutex_held else Free, f) else None)"
| "protocol_step (ReleaseMutex mutex) (g, f) =
     (if g = (if mutex then Mutex_held else Free) then Some (Free, f) else None)"
| "protocol_step LockImpl_Lock (g, f) = (if g = Free then Some (Lock_held, f) else None)"
| "protocol_step LockImpl_Unlock (g, f) = (if g = Lock_held then Some (Free, f) else None)"
| "protocol_step (CreateMutex name ok) (g, f) = (if g = Free then Some (g, f) else None)"
| "protocol_step (CreateFile name h) (g, f) = (if g \<noteq> Free \<and> f = None then Some (g, h) else None)"
| "protocol_step (SetFilePointer_end h) (g, f) = (if g \<noteq> Free \<and> f = Some h then Some (g, f) else None)"
| "protocol_step (WriteFile h text) (g, f) = (if g \<noteq> Free \<and> f = Some h then Some (g, f) else None)"
| "protocol_step (CloseHandle h) (g, f) = (if g \<noteq> Free \<and> f = Some h then Some (g, None) else None)"
| "protocol_step (DeleteFile name) (g, f) = (if g \<noteq> Free \<and> f = None then Some (g, f) else None)"
| "protocol_step _ (g, f) = Some (g, f)"

definition protocol_state :: "os_call list \<Rightarrow> (guard \<times> nat option) option" where
  "protocol_state calls = foldl (\<lambda>st c. Option.bind st (protocol_step c)) (Some (Free, None)) calls"

lemma protocol_Nil [simp]: "protocol_state [] = Some (Free, None)"
  by (simp add: protocol_state_def)

lemma protocol_append [simp]:
  "protocol_state (calls @ cs) = foldl (\<lambda>st c. Option.bind st (protocol_step c)) (protocol_state calls) cs"
  by (simp add: protocol_state_def)

text \<open>What an assertion handler may call.\<close>

definition outside_file :: "os_call \<Rightarrow> bool" where
  "outside_file c \<longleftrightarrow> (\<forall>g f. protocol_step c (g, f) = Some (g, f))"

lemma protocol_append_outside: "list_all outside_file cs \<Longrightarrow> protocol_state (calls @ cs) = protocol_state calls"
proof (induction cs arbitrary: calls)
  case (Cons c cs)
  then have "protocol_state ((calls @ [c]) @ cs) = protocol_state (calls @ [c])" by (intro Cons.IH) simp
  also have "\<dots> = protocol_state calls" using Cons.prems by (auto simp: outside_file_def split: bind_splits)
  finally show ?case by simp
qed simp

subsection \<open>The invariant\<close>

definition handlers_ok :: "logging \<Rightarrow> bool" where
  "handlers_ok s \<longleftrightarrow> (\<forall>h text. log_assert_handler s = Some h \<longrightarrow> list_all outside_file (h text))"

definition lock_ready :: "logging \<Rightarrow> bool" where
  "lock_ready s \<longleftrightarrow> lock_initialized s \<and> (if lock_log_file s = LOCK_LOG_FILE then log_mutex s else log_lock s)"

definition log_inv :: "logging \<Rightarrow> bool" where
  "log_inv s \<longleftrightarrow> protocol_state (os_calls s) = Some (Free, log_file s) \<and> handlers_ok s \<and>
     (lock_ready s \<or> \<not> lock_initialized s \<and> lock_log_file s = LOCK_LOG_FILE \<and> \<not> log_mutex s \<and> log_file s = None)"

text \<open>Inside the lock; the fields of the lock and the handlers stay.\<close>

definition same_lock :: "logging \<Rightarrow> logging \<Rightarrow> bool" where
  "same_lock s s' \<longleftrightarrow> lock_initialized s' = lock_initialized s \<and> lock_log_file s' = lock_log_file s \<and>
     log_mutex s' = log_mutex s \<and> log_lock s' = log_lock s \<and> log_assert_handler s' = log_assert_handler s \<and>
     logging_destination s' = logging_destination s"

definition locked :: "guard \<Rightarrow> logging \<Rightarrow> bool" where
  "locked g s \<longleftrightarrow> g \<noteq> Free \<and> protocol_state (os_calls s) = Some (g, log_file s)"

definition guarded_body :: "32 word \<Rightarrow> (logging \<Rightarrow> 'a \<times> logging) \<Rightarrow> bool" where
  "guarded_body d body \<longleftrightarrow> (\<forall>g s. locked g s \<longrightarrow> logging_destination s = d \<longrightarrow> locked g (snd (body s)) \<and> same_lock s (snd (body s)))"

lemma with_lock_inv:
  assumes "log_inv s" "lock_ready s" "guarded_body (logging_destination s) body"
  shows "\<exists>r s'. with_logging_lock body s = Inr (r, s') \<and> log_inv s' \<and> lock_ready s' \<and> log_assert_handler s' = log_assert_handler s"
proof -
  let ?m = "lock_log_file s = LOCK_LOG_FILE"
  let ?s1 = "os_call (if ?m then WaitForSingleObject True else LockImpl_Lock) s"
  let ?g = "if ?m then Mutex_held else Lock_held"
  obtain r s2 where b: "body ?s1 = (r, s2)" by fastforce
  have "locked ?g ?s1" using assms(1) by (simp add: locked_def log_inv_def os_call_def)
  moreover have "logging_destination ?s1 = logging_destination s" by (simp add: os_call_def)
  ultimately have l: "locked ?g s2" "same_lock ?s1 s2" using assms(3) b by (metis guarded_body_def snd_conv)+
  have "LockLogging s = Inr ?s1" using assms(2) by (auto simp: LockLogging_def lock_ready_def require_def)
  moreover have "UnlockLogging s2 = Inr (os_call (if ?m then ReleaseMutex True else LockImpl_Unlock) s2)"
    using assms(2) l(2) by (auto simp: UnlockLogging_def lock_ready_def same_lock_def require_def os_call_def)
  ultimately have "with_logging_lock body s = Inr (r, os_call (if ?m then ReleaseMutex True else LockImpl_Unlock) s2)"
    by (simp add: with_logging_lock_def b)
  moreover have "log_inv (os_call (if ?m then ReleaseMutex True else LockImpl_Unlock) s2)"
    "lock_ready (os_call (if ?m then ReleaseMutex True else LockImpl_Unlock) s2)"
    using assms(1,2) l by (auto simp: log_inv_def lock_ready_def same_lock_def locked_def handlers_ok_def os_call_def)
  ultimately show ?thesis using l(2) by (auto simp: same_lock_def os_call_def)
qed

lemma LoggingLock_Init_inv:
  assumes "log_inv s" "create_mutex os"
  shows "log_inv (LoggingLock_Init os lock f s) \<and> lock_ready (LoggingLock_Init os lock f s) \<and>
    log_assert_handler (LoggingLock_Init os lock f s) = log_assert_handler s"
  using assms
  by (cases lock)
    (auto simp: LoggingLock_Init_def log_inv_def lock_ready_def handlers_ok_def os_call_def Let_def)

lemma InitializeLogFileHandle_guarded: "guarded_body d (InitializeLogFileHandle os)"
  unfolding guarded_body_def
proof (intro allI impI)
  fix g s assume l: "locked g s"
  show "locked g (snd (InitializeLogFileHandle os s)) \<and> same_lock s (snd (InitializeLogFileHandle os s))"
    using l by (auto simp: InitializeLogFileHandle_def try_create_file_def locked_def same_lock_def os_call_def Let_def
        split: option.splits)
qed

lemma InitializeLogFileHandle_open: "InitializeLogFileHandle os s = (True, s') \<Longrightarrow>
    logging_destination s AND LOG_TO_FILE \<noteq> 0 \<Longrightarrow> log_file s' \<noteq> None"
  by (auto simp: InitializeLogFileHandle_def try_create_file_def os_call_def Let_def split: if_splits option.splits)


lemma os_call_frame [simp]:
  "log_file (os_call c s) = log_file s" "lock_initialized (os_call c s) = lock_initialized s"
  "lock_log_file (os_call c s) = lock_log_file s" "log_mutex (os_call c s) = log_mutex s" "log_lock (os_call c s) = log_lock s"
  "log_assert_handler (os_call c s) = log_assert_handler s" "os_calls (os_call c s) = os_calls s @ [c]"
  "logging_destination (os_call c s) = logging_destination s"
  by (simp_all add: os_call_def)

lemma os_call_inv: "outside_file c \<Longrightarrow> log_inv s \<Longrightarrow> log_inv (os_call c s)"
  by (auto simp: log_inv_def lock_ready_def handlers_ok_def outside_file_def)

lemma CloseLogFile_inv: "log_inv s \<Longrightarrow> \<exists>s'. CloseLogFile s = Inr s' \<and> log_inv s'"
proof (cases "lock_ready s")
  case True
  have "guarded_body (logging_destination s) (\<lambda>s1. ((), CloseLogFileUnlocked s1))"
    by (auto simp: guarded_body_def locked_def same_lock_def CloseLogFileUnlocked_def os_call_def split: option.splits)
  moreover assume "log_inv s"
  ultimately show ?thesis using with_lock_inv [OF _ True] by (fastforce simp: CloseLogFile_def)
next
  case False
  assume "log_inv s"
  then show ?thesis using False
    by (auto simp: log_inv_def CloseLogFile_def with_logging_lock_def LockLogging_def UnlockLogging_def CloseLogFileUnlocked_def
        lock_ready_def handlers_ok_def)
qed

definition allowed_failure :: "failure \<Rightarrow> bool" where
  "allowed_failure e \<longleftrightarrow> e = Check ''!g_vlog_info_prev'' \<or> e = Fatal ''wcscat_s''"

definition keeps_inv :: "logging result \<Rightarrow> bool" where
  "keeps_inv r \<longleftrightarrow> (case r of Inr s \<Rightarrow> log_inv s | Inl e \<Rightarrow> allowed_failure e)"

lemma keeps_inv_simps [simp]: "keeps_inv (Inr s) = log_inv s" "keeps_inv (Inl e) = allowed_failure e"
  by (simp_all add: keeps_inv_def)

lemma keeps_inv_rbind: "keeps_inv m \<Longrightarrow> (\<And>s. log_inv s \<Longrightarrow> keeps_inv (f s)) \<Longrightarrow> keeps_inv (rbind m f)"
  by (cases m) simp_all

lemma keeps_inv_rbind':
  "keeps_inv m \<Longrightarrow> (\<And>s. m = Inr s \<Longrightarrow> log_inv s \<Longrightarrow> keeps_inv (f s)) \<Longrightarrow> keeps_inv (rbind m f)"
  by (cases m) simp_all

lemma write_to_log_file_inv:
  assumes "log_inv s" "create_mutex os" "logging_destination s AND LOG_TO_FILE \<noteq> 0"
  shows "\<exists>s'. write_to_log_file os text s = Inr s' \<and> log_inv s' \<and> log_assert_handler s' = log_assert_handler s"
proof -
  let ?body = "\<lambda>s1. let (ok, s2) = InitializeLogFileHandle os s1
         in if ok then ((), os_call (WriteFile (the (log_file s2)) text) (os_call (SetFilePointer_end (the (log_file s2))) s2))
            else ((), s2)"
  have "guarded_body (logging_destination s) ?body"
    unfolding guarded_body_def
  proof (intro allI impI)
    fix g s1 assume l: "locked g s1" and d: "logging_destination s1 = logging_destination s"
    obtain ok s2 where i: "InitializeLogFileHandle os s1 = (ok, s2)" by fastforce
    have "locked g s2" "same_lock s1 s2"
      using InitializeLogFileHandle_guarded l i by (metis guarded_body_def snd_conv)+
    moreover have "log_file s2 \<noteq> None" if ok
      using InitializeLogFileHandle_open i that d assms(3) by metis
    ultimately show "locked g (snd (?body s1)) \<and> same_lock s1 (snd (?body s1))"
      by (auto simp: i locked_def same_lock_def)
  qed
  then have "guarded_body (logging_destination (LoggingLock_Init os LOCK_LOG_FILE None s)) ?body"
    by (simp add: LoggingLock_Init_def os_call_def Let_def)
  with LoggingLock_Init_inv [OF assms(1,2)] with_lock_inv
  have "\<exists>r s'. with_logging_lock ?body (LoggingLock_Init os LOCK_LOG_FILE None s) = Inr (r, s') \<and> log_inv s' \<and> lock_ready s' \<and>
      log_assert_handler s' = log_assert_handler (LoggingLock_Init os LOCK_LOG_FILE None s)" by blast
  then show ?thesis using LoggingLock_Init_inv [OF assms(1,2), of LOCK_LOG_FILE None] by (fastforce simp: write_to_log_file_def)
qed

lemma DisplayDebugMessageInDialog_inv: "log_inv s \<Longrightarrow> keeps_inv (DisplayDebugMessageInDialog os text s)"
  by (auto simp: DisplayDebugMessageInDialog_def require_def Let_def allowed_failure_def os_call_inv outside_file_def)

lemma write_to_console_inv: "log_inv s \<Longrightarrow> log_inv (write_to_console severity n s)"
  by (simp add: write_to_console_def os_call_inv outside_file_def)

lemma fatal_message_inv: "log_inv s \<Longrightarrow> keeps_inv (fatal_message os severity n s)"
proof (cases "log_assert_handler s")
  case None
  assume i: "log_inv s"
  have "keeps_inv (rbind (DisplayDebugMessageInDialog os n s) (\<lambda>s3. Inr (os_call BreakDebugger s3)))"
    by (rule keeps_inv_rbind [OF DisplayDebugMessageInDialog_inv [OF i]]) (simp add: os_call_inv outside_file_def)
  then show ?thesis using None i by (simp add: fatal_message_def)
next
  case (Some h)
  assume i: "log_inv s"
  then have "list_all outside_file (h n)" using Some by (auto simp: log_inv_def handlers_ok_def)
  then have "log_inv (s\<lparr>os_calls := os_calls s @ h n\<rparr>)"
    using i protocol_append_outside [of "h n" "os_calls s"]
    by (auto simp: log_inv_def handlers_ok_def lock_ready_def simp del: protocol_append)
  then show ?thesis using Some i by (simp add: fatal_message_def)
qed

lemma LogMessage_inv:
  assumes "log_inv s" "create_mutex os"
  shows "keeps_inv (LogMessage os file_name line severity msg s)"
proof -
  define n where "n = message_text os s file_name line severity msg"
  define s1 where "s1 = write_to_console severity n s"
  have s1: "log_inv s1" using assms(1) by (simp add: s1_def write_to_console_inv)
  have "keeps_inv (if logging_destination s1 AND LOG_TO_FILE \<noteq> 0 then write_to_log_file os n s1 else Inr s1)"
    using s1 write_to_log_file_inv [OF s1 assms(2), of n] by auto
  then have k: "keeps_inv (rbind (if logging_destination s1 AND LOG_TO_FILE \<noteq> 0 then write_to_log_file os n s1 else Inr s1)
      (fatal_message os severity n))"
    by (rule keeps_inv_rbind) (rule fatal_message_inv)
  have "LogMessage os file_name line severity msg s =
    (if (case log_message_handler s of None \<Rightarrow> False
         | Some h \<Rightarrow> h severity file_name line (length (LogMessage_Init os s file_name line severity)) n) then Inr s
     else rbind (if logging_destination s1 AND LOG_TO_FILE \<noteq> 0 then write_to_log_file os n s1 else Inr s1) (fatal_message os severity n))"
    by (simp only: LogMessage_def Let_def n_def s1_def)
  then show ?thesis using k assms(1) by simp
qed

text \<open>A message that is not fatal is always logged.\<close>

lemma LogMessage_ok:
  assumes "log_inv s" "create_mutex os" "severity \<noteq> LOG_FATAL"
  shows "\<exists>s'. LogMessage os file_name line severity msg s = Inr s' \<and> log_inv s'"
proof -
  define n where "n = message_text os s file_name line severity msg"
  define s1 where "s1 = write_to_console severity n s"
  have s1: "log_inv s1" using assms(1) by (simp add: s1_def write_to_console_inv)
  have "\<exists>s2. (if logging_destination s1 AND LOG_TO_FILE \<noteq> 0 then write_to_log_file os n s1 else Inr s1) = Inr s2 \<and> log_inv s2"
    using s1 write_to_log_file_inv [OF s1 assms(2), of n] by auto
  moreover have "LogMessage os file_name line severity msg s =
    (if (case log_message_handler s of None \<Rightarrow> False
         | Some h \<Rightarrow> h severity file_name line (length (LogMessage_Init os s file_name line severity)) n) then Inr s
     else rbind (if logging_destination s1 AND LOG_TO_FILE \<noteq> 0 then write_to_log_file os n s1 else Inr s1) (fatal_message os severity n))"
    by (simp only: LogMessage_def Let_def n_def s1_def)
  ultimately show ?thesis using assms(1,3) by (auto simp: fatal_message_def)
qed

lemma LOG_ok: "log_inv s \<Longrightarrow> create_mutex os \<Longrightarrow> severity \<noteq> LOG_FATAL \<Longrightarrow>
    \<exists>s'. LOG os file_name line severity msg s = Inr s' \<and> log_inv s'"
  by (auto simp: LOG_def LogMessage_ok)

lemma log_lines_inv: "log_inv s \<Longrightarrow> create_mutex os \<Longrightarrow> keeps_inv (log_lines os ls s)"
proof (induction os ls s rule: log_lines.induct)
  case (2 os file_name line severity msg ls s)
  have "keeps_inv (if severity < 0 then VLOG os file_name line (- severity) msg s else LOG os file_name line severity msg s)"
    using 2(2,3) LogMessage_inv by (simp add: VLOG_def LOG_def)
  then show ?case using 2 by (auto intro!: keeps_inv_rbind')
qed simp

lemma log_inv_fields:
  "log_inv (s\<lparr>min_log_level := m\<rparr>) = log_inv s" "log_inv (s\<lparr>g_vlog_info := v\<rparr>) = log_inv s"
  "log_inv (s\<lparr>g_vlog_info_prev := v\<rparr>) = log_inv s" "log_inv (s\<lparr>logging_destination := d\<rparr>) = log_inv s"
  "log_inv (s\<lparr>show_error_dialogs := b\<rparr>) = log_inv s" "log_inv (s\<lparr>log_message_handler := h\<rparr>) = log_inv s"
  "log_inv (SetLogItems p t ts tc s) = log_inv s"
  by (simp_all add: log_inv_def handlers_ok_def lock_ready_def SetLogItems_def)

lemma GetSwitchValueASCII_ok: "\<exists>v. GetSwitchValueASCII cl name = Inr v"
  by (auto simp: GetSwitchValueASCII_def UTF16ToASCII_def require_def Let_def)

lemma init_vlog_info_inv:
  assumes "log_inv s" "create_mutex os"
  shows "keeps_inv (init_vlog_info os cl s)"
proof -
  obtain v where v: "GetSwitchValueASCII cl kV = Inr v" using GetSwitchValueASCII_ok by blast
  obtain vm where vm: "GetSwitchValueASCII cl kVModule = Inr vm" using GetSwitchValueASCII_ok by blast
  show ?thesis
    using assms by (auto simp: init_vlog_info_def v vm require_def allowed_failure_def Let_def log_inv_fields split: prod.splits
        intro!: keeps_inv_rbind log_lines_inv)
qed

lemma init_log_file_inv:
  assumes "log_inv s" "create_mutex os"
  shows "\<exists>r s'. init_log_file os settings s = Inr (r, s') \<and> log_inv s'"
proof -
  let ?body = "\<lambda>s2. let s3 = (CloseLogFileUnlocked s2)\<lparr>log_file_name := Some (settings_log_file settings)\<rparr>;
      s4 = (if delete_old settings = DELETE_OLD_LOG_FILE then os_call (DeleteFile (c_str (settings_log_file settings))) s3 else s3)
    in InitializeLogFileHandle os s4"
  have "guarded_body d ?body" for d
    unfolding guarded_body_def
  proof (intro allI impI)
    fix g s5 assume l: "locked g s5" "logging_destination s5 = d"
    let ?s6 = "(CloseLogFileUnlocked s5)\<lparr>log_file_name := Some (settings_log_file settings)\<rparr>"
    let ?s7 = "if delete_old settings = DELETE_OLD_LOG_FILE then os_call (DeleteFile (c_str (settings_log_file settings))) ?s6 else ?s6"
    have "locked g ?s6" "same_lock s5 ?s6" "log_file ?s6 = None"
      using l by (auto simp: CloseLogFileUnlocked_def locked_def same_lock_def split: option.splits)
    then have s7: "locked g ?s7" "same_lock s5 ?s7" by (auto simp: locked_def same_lock_def)
    then have "locked g (snd (InitializeLogFileHandle os ?s7))" "same_lock ?s7 (snd (InitializeLogFileHandle os ?s7))"
      using InitializeLogFileHandle_guarded by (auto simp: guarded_body_def)
    then show "locked g (snd (?body s5)) \<and> same_lock s5 (snd (?body s5))"
      using s7(2) by (simp add: Let_def same_lock_def)
  qed
  moreover have "log_inv (s\<lparr>logging_destination := logging_dest settings\<rparr>)" using assms(1) by (simp add: log_inv_fields)
  ultimately have "\<exists>r s'. with_logging_lock ?body
      (LoggingLock_Init os (lock_log settings) (Some (settings_log_file settings)) (s\<lparr>logging_destination := logging_dest settings\<rparr>)) =
      Inr (r, s') \<and> log_inv s'"
    using LoggingLock_Init_inv assms(2) with_lock_inv by blast
  then show ?thesis using assms(1) by (auto simp: init_log_file_def log_inv_fields Let_def)
qed

lemma BaseInitLoggingImpl_inv:
  assumes "log_inv s" "create_mutex os"
  shows "keeps_inv (rbind (BaseInitLoggingImpl os cl settings s) (\<lambda>(_, s'). Inr s'))"
proof -
  have "keeps_inv (rbind (init_vlog_info os cl s) (\<lambda>s1. rbind (init_log_file os settings s1) (\<lambda>(_, s'). Inr s')))"
    using init_vlog_info_inv [OF assms]
  proof (rule keeps_inv_rbind)
    fix s1 assume "log_inv s1"
    then obtain r s2 where "init_log_file os settings s1 = Inr (r, s2)" "log_inv s2"
      using init_log_file_inv assms(2) by blast
    then show "keeps_inv (rbind (init_log_file os settings s1) (\<lambda>(_, s'). Inr s'))" by simp
  qed
  then show ?thesis by (simp add: BaseInitLoggingImpl_def rbind_assoc)
qed

subsection \<open>Every sequence of operations\<close>

datatype log_op =
    Log_message str int log_severity str
  | Vlog_message str int int str
  | Init_logging command_line logging_settings
  | Close_log_file
  | Set_min_log_level int
  | Set_log_items bool bool bool bool
  | Set_show_error_dialogs bool
  | Set_assert_handler "(str \<Rightarrow> os_call list) option"
  | Set_message_handler "(log_severity \<Rightarrow> str \<Rightarrow> int \<Rightarrow> nat \<Rightarrow> str \<Rightarrow> bool) option"

fun log_step :: "log_os \<Rightarrow> log_op \<Rightarrow> logging \<Rightarrow> logging result" where
  "log_step os (Log_message file line severity text) s = LOG os file line severity text s"
| "log_step os (Vlog_message file line verboselevel text) s = VLOG os file line verboselevel text s"
| "log_step os (Init_logging cl settings) s = rbind (BaseInitLoggingImpl os cl settings s) (\<lambda>(_, s'). Inr s')"
| "log_step os Close_log_file s = CloseLogFile s"
| "log_step os (Set_min_log_level level) s = Inr (SetMinLogLevel level s)"
| "log_step os (Set_log_items p t ts tc) s = Inr (SetLogItems p t ts tc s)"
| "log_step os (Set_show_error_dialogs b) s = Inr (SetShowErrorDialogs b s)"
| "log_step os (Set_assert_handler h) s = Inr (SetLogAssertHandler h s)"
| "log_step os (Set_message_handler h) s = Inr (SetLogMessageHandler h s)"

text \<open>Each operation finds its own clock, thread and files.\<close>

fun log_run :: "(log_os \<times> log_op) list \<Rightarrow> logging \<Rightarrow> logging result" where
  "log_run [] s = Inr s"
| "log_run ((os, op) # ops) s = rbind (log_step os op s) (log_run ops)"

definition harmless :: "log_os \<times> log_op \<Rightarrow> bool" where
  "harmless x \<longleftrightarrow> create_mutex (fst x) \<and>
     (case snd x of Set_assert_handler (Some h) \<Rightarrow> \<forall>text. list_all outside_file (h text) | _ \<Rightarrow> True)"

lemma log_step_inv: "log_inv s \<Longrightarrow> harmless (os, op) \<Longrightarrow> keeps_inv (log_step os op s)"
proof (cases op)
  case (Close_log_file)
  moreover assume "log_inv s"
  ultimately show ?thesis using CloseLogFile_inv by fastforce
next
  case (Set_assert_handler h)
  moreover assume "log_inv s" "harmless (os, op)"
  ultimately show ?thesis
    by (cases h) (auto simp: SetLogAssertHandler_def log_inv_def handlers_ok_def lock_ready_def harmless_def)
qed (auto simp: LOG_def VLOG_def LogMessage_inv BaseInitLoggingImpl_inv SetMinLogLevel_def SetShowErrorDialogs_def
    SetLogMessageHandler_def log_inv_fields harmless_def)

lemma log_run_inv: "log_inv s \<Longrightarrow> list_all harmless ops \<Longrightarrow> keeps_inv (log_run ops s)"
proof (induction ops arbitrary: s)
  case (Cons x ops)
  obtain os op where x: "x = (os, op)" by (cases x)
  show ?case using Cons.prems Cons.IH unfolding x
    by (auto intro!: keeps_inv_rbind log_step_inv)
qed simp

text \<open>
  C8: whatever is logged, initialised and closed in whatever order and by whichever thread, the calls
  keep to the protocol: the lock is taken and released in turn, the file is opened, written, deleted and
  closed only while the lock is held, at most one file is open, and every write goes to it; no null lock is used,
  and the only failures are a third initialisation with a verbosity switch and a program path that is too long.
  Needed is that the mutex can be created.
\<close>

theorem logging_protocol:
  assumes "list_all harmless ops"
  shows "case log_run ops initial_logging of
      Inr s \<Rightarrow> protocol_state (os_calls s) = Some (Free, log_file s)
    | Inl e \<Rightarrow> e = Check ''!g_vlog_info_prev'' \<or> e = Fatal ''wcscat_s''"
proof -
  have "log_inv initial_logging" by (simp add: log_inv_def initial_logging_def handlers_ok_def)
  then have "keeps_inv (log_run ops initial_logging)" using assms by (rule log_run_inv)
  then show ?thesis by (auto simp: keeps_inv_def allowed_failure_def log_inv_def split: sum.splits)
qed

definition sample_os :: log_os where
  "sample_os = \<lparr>create_file = (\<lambda>_ _. Some 7), create_mutex = True, create_process = True, module_file_name = wide ''a.exe'',
     process_id = 1, thread_id = 2, clock = \<lparr>tm_mon = 0, tm_mday = 2, tm_hour = 3, tm_min = 4, tm_sec = 5\<rparr>,
     tick_count = 6, stack_trace = [], is_space = (\<lambda>c. c = 0x20)\<rparr>"

theorem logging_protocol_witness:
  "case log_run [(sample_os, Log_message (text8 ''a.cc'') 1 LOG_ERROR [0x78]), (sample_os, Close_log_file)] initial_logging of
      Inr s \<Rightarrow> protocol_state (os_calls s) = Some (Free, log_file s)
    | Inl e \<Rightarrow> e = Check ''!g_vlog_info_prev'' \<or> e = Fatal ''wcscat_s''"
  by (rule logging_protocol) (simp add: harmless_def sample_os_def)

end
