(* ===== verification/Chrome_Logging.thy ===== *)
theory Chrome_Logging
  imports Logging_Props Crash_Client File_Path
begin

text \<open>
  The application's logging (\<^verbatim>\<open>policy/app/logging_chrome.cc\<close>): where the log goes is decided by the command line
  and the environment, then \<^verbatim>\<open>base/logging.cc\<close> is set up. The environment is read only: \<open>env\<close>.
\<close>

subsection \<open>State and switches\<close>

record chrome_logging =
  logs :: logging
  dialogs_are_suppressed :: bool
  chrome_logging_initialized :: bool
  chrome_logging_failed :: bool
  chrome_logging_redirected :: bool
  error_mode :: "32 word"

definition no_chrome_logging :: "32 word \<Rightarrow> chrome_logging" where
  "no_chrome_logging mode = \<lparr>logs = initial_logging, dialogs_are_suppressed = False, chrome_logging_initialized = False,
     chrome_logging_failed = False, chrome_logging_redirected = False, error_mode = mode\<rparr>"

definition kEnableLogging :: str where "kEnableLogging = text8 ''enable-logging''"
definition kDisableLogging :: str where "kDisableLogging = text8 ''disable-logging''"
definition kLoggingLevel :: str where "kLoggingLevel = text8 ''log-level''"
definition kHeadless :: str where "kHeadless = text8 ''CHROME_HEADLESS''"
definition kLogFileName :: str where "kLogFileName = text8 ''CHROME_LOG_FILE''"

text \<open>Windows' \<^verbatim>\<open>SetErrorMode\<close> hands back the old mode.\<close>

definition SEM_FAILCRITICALERRORS :: "32 word" where "SEM_FAILCRITICALERRORS = 1"
definition SEM_NOGPFAULTERRORBOX :: "32 word" where "SEM_NOGPFAULTERRORBOX = 2"
definition SEM_NOOPENFILEERRORBOX :: "32 word" where "SEM_NOOPENFILEERRORBOX = 0x8000"

definition SilentRuntimeAssertHandler :: "str \<Rightarrow> os_call list" where
  "SilentRuntimeAssertHandler text = [BreakDebugger]"

definition SuppressDialogs :: "chrome_logging \<Rightarrow> chrome_logging" where
  "SuppressDialogs c =
     (if dialogs_are_suppressed c then c
      else
        let c1 = c\<lparr>logs := SetLogAssertHandler (Some SilentRuntimeAssertHandler) (logs c)\<rparr>;
            new_flags = SEM_FAILCRITICALERRORS OR SEM_NOGPFAULTERRORBOX OR SEM_NOOPENFILEERRORBOX;
            existing_flags = error_mode c1;
            c2 = c1\<lparr>error_mode := new_flags\<rparr>
        in c2\<lparr>error_mode := existing_flags OR new_flags, dialogs_are_suppressed := True\<rparr>)"

subsection \<open>Where the log goes\<close>

definition DetermineLogMode :: "command_line \<Rightarrow> (32 word) result" where
  "DetermineLogMode cl =
     (let enable_logging = True;
          enable_logging1 = (if HasSwitch cl kDisableLogging then \<not> enable_logging else enable_logging)
      in if enable_logging1 then
           rbind (GetSwitchValueASCII cl kEnableLogging) (\<lambda>v.
             if v = text8 ''stderr'' then Inr LOG_TO_SYSTEM_DEBUG_LOG else Inr LOG_TO_ALL)
         else Inr LOG_NONE)"

definition GetLogFileName :: "'e environment_api \<Rightarrow> 'e \<Rightarrow> wstring" where
  "GetLogFileName api env =
     (case GetVar api kLogFileName env of
        Some filename \<Rightarrow> if filename \<noteq> [] then FilePath (UTF8ToWide filename) else FilePath (wide ''chrome_debug.log'')
      | None \<Rightarrow> FilePath (wide ''chrome_debug.log''))"

subsection \<open>Setting up and cleaning up\<close>

text \<open>\<open>error_text\<close> is what \<^verbatim>\<open>DPLOG\<close> adds to a line: a colon and the text of the last error.\<close>

definition this_file :: str where "this_file = text8 ''app/logging_chrome.cc''"

definition set_level_from_switch :: "log_os \<Rightarrow> command_line \<Rightarrow> logging \<Rightarrow> logging result" where
  "set_level_from_switch os cl l =
     (if HasSwitch cl kLoggingLevel then
        rbind (GetSwitchValueASCII cl kLoggingLevel) (\<lambda>log_level.
          case StringToInt (is_space os) log_level of
            (True, Some level) \<Rightarrow>
              if level \<ge> 0 \<and> level < LOG_NUM_SEVERITIES then Inr (SetMinLogLevel level l)
              else LOG os this_file 166 LOG_WARNING (text8 ''Bad log level: '' @ log_level) l
          | _ \<Rightarrow> LOG os this_file 166 LOG_WARNING (text8 ''Bad log level: '' @ log_level) l)
      else Inr l)"

definition InitChromeLogging ::
  "log_os \<Rightarrow> str \<Rightarrow> 'e environment_api \<Rightarrow> 'e \<Rightarrow> command_line \<Rightarrow> command_line \<Rightarrow> old_file_deletion_state \<Rightarrow>
     chrome_logging \<Rightarrow> chrome_logging result"
where
  "InitChromeLogging os error_text api env current_process command_line delete_old_log_file c =
     require (\<not> chrome_logging_initialized c) (Dcheck ''!chrome_logging_initialized_'')
       (rbind (DetermineLogMode command_line) (\<lambda>logging_dest.
         let (log_path, log_locking_state) =
               (if logging_dest AND LOG_TO_FILE \<noteq> 0 then (GetLogFileName api env, LOCK_LOG_FILE) else ([], DONT_LOCK_LOG_FILE));
             settings = \<lparr>logging_dest = logging_dest, settings_log_file = c_str log_path, lock_log = log_locking_state,
                         delete_old = delete_old_log_file\<rparr>
         in rbind (BaseInitLoggingImpl os current_process settings (logs c)) (\<lambda>(success, l).
              if \<not> success then
                rbind (LOG os this_file 130 LOG_ERROR (text8 ''Unable to initialize logging to '' @ WideToUTF8 log_path @ error_text) l)
                  (\<lambda>l1. Inr (c\<lparr>logs := l1, chrome_logging_failed := True\<rparr>))
              else
                let l1 = (if \<not> HasSwitch current_process kNoErrorDialogs then SetShowErrorDialogs True l else l);
                    l2 = SetLogItems True True True False l1;
                    c1 = c\<lparr>logs := l2\<rparr>;
                    c2 = (if HasVar api kHeadless env \<or> HasSwitch command_line kNoErrorDialogs then SuppressDialogs c1 else c1)
                in rbind (set_level_from_switch os command_line (logs c2)) (\<lambda>l3.
                     Inr (c2\<lparr>logs := l3, chrome_logging_initialized := True\<rparr>)))))"

definition CleanupChromeLogging :: "chrome_logging \<Rightarrow> chrome_logging result" where
  "CleanupChromeLogging c =
     (if chrome_logging_failed c then Inr c
      else require (chrome_logging_initialized c) (Dcheck ''chrome_logging_initialized_'')
        (rbind (CloseLogFile (logs c)) (\<lambda>l.
          Inr (c\<lparr>logs := l, chrome_logging_initialized := False, chrome_logging_redirected := False\<rparr>))))"

definition DialogsAreSuppressed :: "chrome_logging \<Rightarrow> bool" where
  "DialogsAreSuppressed c = dialogs_are_suppressed c"

text \<open>The exploded time is what the platform makes of the time stamp; \<^verbatim>\<open>%02d\<close> of a number that is not negative.\<close>

definition GenerateTimestampedName :: "wstring \<Rightarrow> nat \<Rightarrow> nat \<Rightarrow> nat \<Rightarrow> nat \<Rightarrow> nat \<Rightarrow> nat \<Rightarrow> wstring result" where
  "GenerateTimestampedName base_path year month day_of_month hour minute second =
     InsertBeforeExtensionASCII base_path
       (text8 ''_'' @ two_digits year @ two_digits month @ two_digits day_of_month @ text8 ''-'' @
        two_digits hour @ two_digits minute @ two_digits second)"


subsection \<open>A session of logging\<close>

text \<open>A message: what the calls return when it is logged, its file and line, its severity and its text.\<close>

type_synonym message = "log_os \<times> str \<times> int \<times> log_severity \<times> str"

fun run_messages :: "message list \<Rightarrow> logging \<Rightarrow> logging result" where
  "run_messages [] l = Inr l"
| "run_messages ((os, file, line, severity, text) # ms) l = rbind (LOG os file line severity text l) (run_messages ms)"

text \<open>The line of a message as the application sets it up, and the calls that carry it to the debugger, to the
  console and to the file.\<close>

fun message_line :: "message \<Rightarrow> str" where
  "message_line (os, file, line, severity, text) =
     LogMessage_Init os (SetLogItems True True True False initial_logging) file line severity @ text @ [0x0A]"

definition message_calls :: "nat \<Rightarrow> message \<Rightarrow> os_call list" where
  "message_calls h m =
     [OutputDebugString (message_line m), Write_stderr (message_line m), WaitForSingleObject True,
      SetFilePointer_end h, WriteFile h (message_line m), ReleaseMutex True]"

abbreviation message_severity :: "message \<Rightarrow> log_severity" where
  "message_severity m \<equiv> fst (snd (snd (snd m)))"

definition open_for_all :: "nat \<Rightarrow> logging \<Rightarrow> bool" where
  "open_for_all h l \<longleftrightarrow> logging_destination l = LOG_TO_ALL \<and> log_file l = Some h \<and> lock_initialized l \<and>
     lock_log_file l = LOCK_LOG_FILE \<and> log_mutex l \<and> log_message_handler l = None \<and>
     log_process_id l \<and> log_thread_id l \<and> log_timestamp l \<and> \<not> log_tickcount l"

lemma LogMessage_Init_flags:
  assumes "open_for_all h l"
  shows "LogMessage_Init os l = LogMessage_Init os (SetLogItems True True True False initial_logging)"
  using assms by (intro ext) (simp add: LogMessage_Init_def open_for_all_def SetLogItems_def Let_def)

lemma LogMessage_calls:
  assumes "open_for_all h l" "severity \<noteq> LOG_FATAL"
  shows "LogMessage os file_name line severity msg l =
    Inr (l\<lparr>os_calls := os_calls l @ message_calls h (os, file_name, line, severity, msg)\<rparr>)"
proof -
  have d: "LOG_TO_ALL AND LOG_TO_FILE \<noteq> 0" "LOG_TO_ALL AND LOG_TO_SYSTEM_DEBUG_LOG \<noteq> 0"
    by (simp_all add: LOG_TO_ALL_def LOG_TO_FILE_def LOG_TO_SYSTEM_DEBUG_LOG_def)
  have w: "write_to_log_file os n l1 = Inr (l1\<lparr>os_calls := os_calls l1 @
      [WaitForSingleObject True, SetFilePointer_end h, WriteFile h n, ReleaseMutex True]\<rparr>)"
    if "lock_initialized l1" "lock_log_file l1 = LOCK_LOG_FILE" "log_mutex l1" "log_file l1 = Some h" for n l1
    using that by (simp add: write_to_log_file_def with_logging_lock_def LoggingLock_Init_def LockLogging_def UnlockLogging_def
        InitializeLogFileHandle_def os_call_def)
  show ?thesis using assms
    by (simp add: LogMessage_def message_text_def write_to_console_def fatal_message_def d w LogMessage_Init_flags [OF assms(1)]
        open_for_all_def message_calls_def Let_def) (simp add: os_call_def)
qed

lemma run_messages_calls:
  "open_for_all h l \<Longrightarrow> \<forall>m \<in> set ms. message_severity m \<noteq> LOG_FATAL \<Longrightarrow>
    run_messages ms l = Inr (l\<lparr>os_calls := os_calls l @
      concat (map (message_calls h) (filter (\<lambda>m. message_severity m \<ge> min_log_level l) ms))\<rparr>)"
proof (induction ms arbitrary: l)
  case (Cons m ms)
  obtain os f n sev msg where m: "m = (os, f, n, sev, msg)" by (cases m)
  have next_open: "open_for_all h (l\<lparr>os_calls := cs\<rparr>)" for cs using Cons.prems(1) by (simp add: open_for_all_def)
  show ?case
  proof (cases "sev \<ge> min_log_level l")
    case True
    then have "LOG os f n sev msg l = Inr (l\<lparr>os_calls := os_calls l @ message_calls h m\<rparr>)"
      using LogMessage_calls [OF Cons.prems(1)] Cons.prems(2) by (simp add: LOG_def LOG_IS_ON_def GetMinLogLevel_def m)
    then show ?thesis using Cons.IH [OF next_open] Cons.prems(2) True by (simp add: m)
  next
    case False
    then have "LOG os f n sev msg l = Inr l" by (simp add: LOG_def LOG_IS_ON_def GetMinLogLevel_def)
    then show ?thesis using Cons.IH [OF Cons.prems(1)] Cons.prems(2) False by (simp add: m)
  qed
qed simp

text \<open>The level the command line asks for.\<close>

definition level_switch :: "(byte \<Rightarrow> bool) \<Rightarrow> command_line \<Rightarrow> int \<Rightarrow> bool" where
  "level_switch sp cl level \<longleftrightarrow>
     (if HasSwitch cl kLoggingLevel
      then \<exists>v. GetSwitchValueASCII cl kLoggingLevel = Inr v \<and> StringToInt sp v = (True, Some level) \<and> 0 \<le> level \<and> level < LOG_NUM_SEVERITIES
      else level = 0)"

text \<open>The calls that open the log.\<close>

definition opening_calls :: "wstring \<Rightarrow> old_file_deletion_state \<Rightarrow> nat \<Rightarrow> os_call list" where
  "opening_calls path del h =
     [CreateMutex (wide ''Global'' @ [0x5C] @ map (\<lambda>c. if c = 0x5C then 0x2F else c) path) True, WaitForSingleObject True] @
     (if del = DELETE_OLD_LOG_FILE then [DeleteFile path] else []) @
     [CreateFile path (Some h), SetFilePointer_end h, ReleaseMutex True]"

lemma c_str_idem [simp]: "c_str (c_str x) = c_str x"
  by (simp add: c_str_def)

lemma InitChromeLogging_opens:
  assumes "\<not> HasSwitch cl kV" "\<not> HasSwitch cl kVModule" "DetermineLogMode cl = Inr LOG_TO_ALL"
    and "level_switch (is_space os) cl level" "create_mutex os" "create_file os = (\<lambda>_ _. Some h)"
  shows "\<exists>c. InitChromeLogging os error_text api env cl cl del (no_chrome_logging mode) = Inr c \<and>
    open_for_all h (logs c) \<and> min_log_level (logs c) = level \<and> chrome_logging_initialized c \<and> \<not> chrome_logging_failed c \<and>
    (dialogs_are_suppressed c \<longleftrightarrow> HasVar api kHeadless env \<or> HasSwitch cl kNoErrorDialogs) \<and>
    os_calls (logs c) = opening_calls (c_str (GetLogFileName api env)) del h"
proof -
  let ?path = "c_str (GetLogFileName api env)"
  have d: "LOG_TO_ALL AND LOG_TO_FILE \<noteq> 0" by (simp add: LOG_TO_ALL_def LOG_TO_FILE_def LOG_TO_SYSTEM_DEBUG_LOG_def)
  define l where "l = initial_logging\<lparr>logging_destination := LOG_TO_ALL, log_file_name := Some ?path, log_file := Some h,
    lock_initialized := True, lock_log_file := LOCK_LOG_FILE, log_mutex := True, os_calls := opening_calls ?path del h\<rparr>"
  have b: "BaseInitLoggingImpl os cl \<lparr>logging_dest = LOG_TO_ALL, settings_log_file = ?path, lock_log = LOCK_LOG_FILE, delete_old = del\<rparr>
      initial_logging = Inr (True, l)"
    using assms(1,2,5,6) d
    by (simp add: BaseInitLoggingImpl_def init_vlog_info_def init_log_file_def with_logging_lock_def LoggingLock_Init_def LockLogging_def UnlockLogging_def
        InitializeLogFileHandle_def try_create_file_def CloseLogFileUnlocked_def os_call_def initial_logging_def l_def opening_calls_def Let_def)
  let ?l1 = "if \<not> HasSwitch cl kNoErrorDialogs then SetShowErrorDialogs True l else l"
  let ?c1 = "(no_chrome_logging mode)\<lparr>logs := SetLogItems True True True False ?l1\<rparr>"
  let ?c2 = "if HasVar api kHeadless env \<or> HasSwitch cl kNoErrorDialogs then SuppressDialogs ?c1 else ?c1"
  have c2: "open_for_all h (logs ?c2)" "min_log_level (logs ?c2) = 0" "os_calls (logs ?c2) = opening_calls ?path del h"
    "dialogs_are_suppressed ?c2 \<longleftrightarrow> HasVar api kHeadless env \<or> HasSwitch cl kNoErrorDialogs" "\<not> chrome_logging_failed ?c2"
    by (auto simp: l_def open_for_all_def SuppressDialogs_def SetLogItems_def SetShowErrorDialogs_def SetLogAssertHandler_def
        no_chrome_logging_def initial_logging_def Let_def)
  have "\<exists>l3. set_level_from_switch os cl (logs ?c2) = Inr l3 \<and> open_for_all h l3 \<and> min_log_level l3 = level \<and>
      os_calls l3 = os_calls (logs ?c2)"
    using c2(1,2) assms(4)
    by (auto simp: set_level_from_switch_def level_switch_def SetMinLogLevel_def open_for_all_def LOG_FATAL_def LOG_NUM_SEVERITIES_def)
  then obtain l3 where l3: "set_level_from_switch os cl (logs ?c2) = Inr l3" "open_for_all h l3" "min_log_level l3 = level"
    "os_calls l3 = os_calls (logs ?c2)" by blast
  have n: "logs (no_chrome_logging mode) = initial_logging" "chrome_logging_initialized (no_chrome_logging mode) = False"
    by (simp_all add: no_chrome_logging_def)
  have "InitChromeLogging os error_text api env cl cl del (no_chrome_logging mode) =
      Inr (?c2\<lparr>logs := l3, chrome_logging_initialized := True\<rparr>)"
    using d
    by (simp only: InitChromeLogging_def Let_def assms(3) n b l3(1) rbind_simps require_simps prod.case
        not_True_eq_False not_False_eq_True if_True if_False simp_thms)
  then show ?thesis using l3 c2 by (intro exI [of _ "?c2\<lparr>logs := l3, chrome_logging_initialized := True\<rparr>"]) simp
qed


lemma CleanupChromeLogging_closes:
  assumes "open_for_all h (logs c)" "\<not> chrome_logging_failed c" "chrome_logging_initialized c"
  shows "\<exists>c3. CleanupChromeLogging c = Inr c3 \<and>
    os_calls (logs c3) = os_calls (logs c) @ [WaitForSingleObject True, CloseHandle h, ReleaseMutex True] \<and>
    log_file (logs c3) = None \<and> \<not> chrome_logging_initialized c3"
proof -
  let ?l = "(logs c)\<lparr>os_calls := os_calls (logs c) @ [WaitForSingleObject True, CloseHandle h, ReleaseMutex True], log_file := None\<rparr>"
  have "CloseLogFile (logs c) = Inr ?l"
    using assms(1) by (simp add: CloseLogFile_def with_logging_lock_def LockLogging_def UnlockLogging_def
        CloseLogFileUnlocked_def open_for_all_def os_call_def)
  then show ?thesis using assms(2,3) by (simp add: CleanupChromeLogging_def)
qed

text \<open>
  C9: a session of logging that goes to the debugger and to a file: the file named by the environment is
  opened once, after deleting the old one if asked to; of the messages exactly those of the level asked for
  reach the debugger, the console and the file, each as one line in the order logged and under the mutex;
  the clean-up closes the file.
\<close>

theorem chrome_logging_session:
  assumes "\<not> HasSwitch cl kV" "\<not> HasSwitch cl kVModule" "DetermineLogMode cl = Inr LOG_TO_ALL"
    and "level_switch (is_space os) cl level" "create_mutex os" "create_file os = (\<lambda>_ _. Some h)"
    and "\<forall>m \<in> set ms. message_severity m \<noteq> LOG_FATAL"
  shows "\<exists>c1 l2 c3. InitChromeLogging os error_text api env cl cl del (no_chrome_logging mode) = Inr c1 \<and>
    run_messages ms (logs c1) = Inr l2 \<and> CleanupChromeLogging (c1\<lparr>logs := l2\<rparr>) = Inr c3 \<and>
    os_calls (logs c3) = opening_calls (c_str (GetLogFileName api env)) del h @
      concat (map (message_calls h) (filter (\<lambda>m. message_severity m \<ge> level) ms)) @
      [WaitForSingleObject True, CloseHandle h, ReleaseMutex True] \<and>
    log_file (logs c3) = None \<and> \<not> chrome_logging_initialized c3"
proof -
  obtain c where c: "InitChromeLogging os error_text api env cl cl del (no_chrome_logging mode) = Inr c"
    "open_for_all h (logs c)" "min_log_level (logs c) = level" "\<not> chrome_logging_failed c" "chrome_logging_initialized c"
    "os_calls (logs c) = opening_calls (c_str (GetLogFileName api env)) del h"
    using InitChromeLogging_opens [OF assms(1-6), where error_text = error_text and api = api and env = env and del = del
      and mode = mode] by (elim exE conjE) (rule that)
  define l2 where "l2 = (logs c)\<lparr>os_calls := os_calls (logs c) @
    concat (map (message_calls h) (filter (\<lambda>m. message_severity m \<ge> level) ms))\<rparr>"
  have l2: "run_messages ms (logs c) = Inr l2" using run_messages_calls [OF c(2) assms(7)] c(3) by (simp add: l2_def)
  have "open_for_all h l2" using c(2) by (simp add: l2_def open_for_all_def)
  then have "\<exists>c3. CleanupChromeLogging (c\<lparr>logs := l2\<rparr>) = Inr c3 \<and>
    os_calls (logs c3) = os_calls l2 @ [WaitForSingleObject True, CloseHandle h, ReleaseMutex True] \<and>
    log_file (logs c3) = None \<and> \<not> chrome_logging_initialized c3"
    using CleanupChromeLogging_closes [of h "c\<lparr>logs := l2\<rparr>"] c(4,5) by simp
  moreover have "os_calls l2 = opening_calls (c_str (GetLogFileName api env)) del h @
      concat (map (message_calls h) (filter (\<lambda>m. message_severity m \<ge> level) ms))"
    using c(6) by (simp add: l2_def)
  ultimately show ?thesis using c(1) l2 by (metis append.assoc)
qed

definition plain_command_line :: command_line where
  "plain_command_line = \<lparr>argv = [wide ''a.exe''], switches = Map.empty, begin_args = 1\<rparr>"

definition empty_environment :: "unit environment_api" where
  "empty_environment = \<lparr>GetEnvironmentVariable = (\<lambda>_ _. None), SetEnvironmentVariable = (\<lambda>_ _ e. (True, e))\<rparr>"

theorem chrome_logging_session_witness:
  "\<exists>c1 l2 c3. InitChromeLogging sample_os [] empty_environment () plain_command_line plain_command_line DELETE_OLD_LOG_FILE
      (no_chrome_logging 0) = Inr c1 \<and>
    run_messages [(sample_os, text8 ''a.cc'', 1, LOG_WARNING, [0x78])] (logs c1) = Inr l2 \<and>
    CleanupChromeLogging (c1\<lparr>logs := l2\<rparr>) = Inr c3 \<and>
    os_calls (logs c3) = opening_calls (c_str (GetLogFileName empty_environment ())) DELETE_OLD_LOG_FILE 7 @
      concat (map (message_calls 7) (filter (\<lambda>m. message_severity m \<ge> 0) [(sample_os, text8 ''a.cc'', 1, LOG_WARNING, [0x78])])) @
      [WaitForSingleObject True, CloseHandle 7, ReleaseMutex True] \<and>
    log_file (logs c3) = None \<and> \<not> chrome_logging_initialized c3"
  by (rule chrome_logging_session)
    (simp_all add: plain_command_line_def HasSwitch_def DetermineLogMode_def GetSwitchValueASCII_def GetSwitchValueNative_def
      level_switch_def sample_os_def LOG_WARNING_def LOG_FATAL_def text8_def UTF16ToASCII_def)

text \<open>
  \<^verbatim>\<open>--v\<close> stores its level without the cap of \<^verbatim>\<open>SetMinLogLevel\<close>: with \<^verbatim>\<open>--v=-5\<close> fatal messages are off, though
  \<^verbatim>\<open>base/logging.h\<close> assumes that they never are.
\<close>

lemma fatal_messages_off:
  assumes "\<not> HasSwitch cl kVModule" "GetSwitchValueASCII cl kVModule = Inr []" "HasSwitch cl kV"
    "GetSwitchValueASCII cl kV = Inr (int_string (-5))" "reads_numbers (is_space os)" "logging_dest settings = LOG_NONE"
  shows "\<exists>l. BaseInitLoggingImpl os cl settings initial_logging = Inr (True, l) \<and> \<not> LOG_IS_ON LOG_FATAL l"
proof -
  have v: "StringToInt (is_space os) (int_string (-5)) = (True, Some (-5))"
    by (rule StringToInt_int_string [OF assms(5)]) (simp add: is_int32_def)
  have s: "SplitString kWhitespaceASCII ([] :: str) 0x2C = []"
    by (simp add: SplitString_def SplitStringT_pieces TrimAll_dropWhile)
  show ?thesis using assms v s int_string_not_Nil [of "-5"]
    by (simp add: BaseInitLoggingImpl_def init_vlog_info_def init_log_file_def VlogInfo_def VlogInfo_lines_def SplitStringIntoKeyValuePairs_def SetMaxVlogLevel_def
        initial_logging_def LOG_NONE_def LOG_IS_ON_def GetMinLogLevel_def LOG_FATAL_def wrap32_def)
qed

text \<open>A year has four digits in the name, where the header promises two.\<close>

lemma timestamped_name:
  "GenerateTimestampedName (wide ''a.log'') 2015 3 4 5 6 7 = Inr (wide ''a_20150304-050607.log'')"
  by code_simp

end
