(* ===== verification/At_Exit.thy ===== *)
theory At_Exit
  imports P528_Prelude
begin

text \<open>
  Callbacks at exit (\<^verbatim>\<open>base/at_exit.cc\<close>) and the instances they destroy (\<^verbatim>\<open>base/lazy_instance\<close>). The stack of
  managers starts with \<^verbatim>\<open>g_top_manager\<close>, a manager is its stack of callbacks. What a callback does to the
  world, and which callbacks it registers itself, is the parameter \<open>run\<close>: the manager's lock is held while
  a callback runs, so in the debug build registering one then fails the lock's assertion.
\<close>

definition AtExitManager :: "'t list list \<Rightarrow> 't list list result" where
  "AtExitManager managers = require (managers = []) (Dcheck ''!g_top_manager'') (Inr ([] # managers))"

definition AtExitManager_shadow :: "bool \<Rightarrow> 't list list \<Rightarrow> 't list list result" where
  "AtExitManager_shadow shadow managers =
     require (shadow \<or> managers = []) (Dcheck ''shadow || !g_top_manager'') (Inr ([] # managers))"

definition RegisterTask :: "'t \<Rightarrow> 't list list \<Rightarrow> 't list list result" where
  "RegisterTask task managers =
     (case managers of
        [] \<Rightarrow> Inl (Dcheck ''Tried to RegisterCallback without an AtExitManager'')
      | m # rest \<Rightarrow> Inr ((task # m) # rest))"

fun process_stack :: "('t \<Rightarrow> 'w \<Rightarrow> 'w \<times> 't list) \<Rightarrow> 't list \<Rightarrow> 'w \<Rightarrow> 'w result" where
  "process_stack run [] w = Inr w"
| "process_stack run (task # stack) w =
     (let (w1, registered) = run task w
      in require (registered = []) (Dcheck ''owning_thread_ref_.is_null()'') (process_stack run stack w1))"

definition ProcessCallbacksNow ::
  "('t \<Rightarrow> 'w \<Rightarrow> 'w \<times> 't list) \<Rightarrow> 't list list \<Rightarrow> 'w \<Rightarrow> ('t list list \<times> 'w) result"
where
  "ProcessCallbacksNow run managers w =
     (case managers of
        [] \<Rightarrow> Inl (Dcheck ''Tried to ProcessCallbacksNow without an AtExitManager'')
      | m # rest \<Rightarrow> rbind (process_stack run m w) (\<lambda>w1. Inr ([] # rest, w1)))"

definition DestroyAtExitManager ::
  "('t \<Rightarrow> 'w \<Rightarrow> 'w \<times> 't list) \<Rightarrow> 't list list \<Rightarrow> 'w \<Rightarrow> ('t list list \<times> 'w) result"
where
  "DestroyAtExitManager run managers w =
     (case managers of
        [] \<Rightarrow> Inl (Dcheck ''Tried to ~AtExitManager without an AtExitManager'')
      | m # rest \<Rightarrow> rbind (ProcessCallbacksNow run managers w) (\<lambda>(managers1, w1). Inr (rest, w1)))"

text \<open>The instances created so far; the callback of an instance destroys it.\<close>

definition LazyInstance_Pointer :: "'t \<Rightarrow> 't list \<Rightarrow> 't list list \<Rightarrow> ('t list \<times> 't list list) result" where
  "LazyInstance_Pointer i created managers =
     (if i \<in> set created then Inr (created, managers)
      else rbind (RegisterTask i managers) (\<lambda>managers1. Inr (i # created, managers1)))"

definition LazyInstance_OnExit :: "'t \<Rightarrow> 't list \<Rightarrow> 't list \<times> 't list" where
  "LazyInstance_OnExit i created = (remove1 i created, [])"

subsection \<open>Last in, first out\<close>

fun register_all :: "'t list \<Rightarrow> 't list list \<Rightarrow> 't list list result" where
  "register_all [] managers = Inr managers"
| "register_all (t # ts) managers = rbind (RegisterTask t managers) (register_all ts)"

lemma register_all_stack: "register_all ts (m # rest) = Inr ((rev ts @ m) # rest)"
  by (induction ts arbitrary: m) (simp_all add: RegisterTask_def)

lemma process_stack_fold:
  "\<forall>t w. snd (run t w) = [] \<Longrightarrow> process_stack run ts w = Inr (fold (\<lambda>t w. fst (run t w)) ts w)"
  by (induction ts arbitrary: w) (simp_all add: split_beta)

lemma exit_callbacks_lifo:
  "\<forall>t w. snd (run t w) = [] \<Longrightarrow>
    rbind (AtExitManager managers) (\<lambda>ms. rbind (register_all ts ms) (\<lambda>ms1. DestroyAtExitManager run ms1 w)) =
      (if managers = [] then Inr ([], fold (\<lambda>t w. fst (run t w)) (rev ts) w) else Inl (Dcheck ''!g_top_manager''))"
  by (simp add: AtExitManager_def require_def register_all_stack DestroyAtExitManager_def ProcessCallbacksNow_def process_stack_fold)

text \<open>The instances created under a manager are destroyed with it.\<close>

lemma lazy_instances_destroyed:
  "process_stack LazyInstance_OnExit m (m @ created) = Inr created"
  by (induction m) (simp_all add: LazyInstance_OnExit_def)

end
