(* ===== verification/Content_Main.thy ===== *)
theory Content_Main
  imports Chrome_Logging Browser_Main_Loop Browser_Process At_Exit
begin

text \<open>
  From the entry of the library to the main loop (\<^verbatim>\<open>content/content_main.cc\<close>, \<^verbatim>\<open>content_main_runner.cc\<close>,
  \<^verbatim>\<open>content_client.cc\<close>): the runner sets up the process, asks the embedder's delegate which client it has,
  dispatches on the type of the process and tears everything down. The delegate and the main function are
  parameters here; \<open>Chrome_Main\<close> gives the application's. Console, allocator and C run-time setup have no
  effect on this state and are left out.
\<close>

subsection \<open>The process\<close>

text \<open>The content browser clients are two lazy instances; \<open>content_client\<close> is \<^verbatim>\<open>g_client\<close> with its \<^verbatim>\<open>browser_\<close>.\<close>

datatype browser_client = Chrome_browser_client | Empty_browser_client

record 'a content_world =
  process_cl :: process_command_line
  content_client :: "browser_client option option"
  exit_managers :: "browser_client list list"
  lazy_clients :: "browser_client list"
  crash_on_detach :: bool
  app :: 'a

record 'a main_delegate =
  BasicStartupComplete :: "'a content_world \<Rightarrow> (int option \<times> 'a content_world) result"
  CreateContentBrowserClient :: "'a content_world \<Rightarrow> (browser_client \<times> 'a content_world) result"
  RunProcess :: "str \<Rightarrow> 'a content_world \<Rightarrow> (int \<times> 'a content_world) result"
  ProcessExiting :: "str \<Rightarrow> 'a content_world \<Rightarrow> 'a content_world result"

definition SetContentClient :: "browser_client option option \<Rightarrow> 'a content_world \<Rightarrow> 'a content_world" where
  "SetContentClient client w = w\<lparr>content_client := client\<rparr>"

definition GetContentClient :: "'a content_world \<Rightarrow> browser_client option option" where
  "GetContentClient w = content_client w"

definition lazy_client :: "browser_client \<Rightarrow> 'a content_world \<Rightarrow> (browser_client \<times> 'a content_world) result" where
  "lazy_client b w =
     rbind (LazyInstance_Pointer b (lazy_clients w) (exit_managers w)) (\<lambda>(created, managers).
       Inr (b, w\<lparr>lazy_clients := created, exit_managers := managers\<rparr>))"

definition GetProcessType :: "'a content_world \<Rightarrow> str result" where
  "GetProcessType w = rbind (ForCurrentProcess (process_cl w)) (\<lambda>cl. GetSwitchValueASCII cl (text8 ''type''))"

definition ContentClientInitializer_Set :: "str \<Rightarrow> 'a main_delegate option \<Rightarrow> 'a content_world \<Rightarrow> 'a content_world result" where
  "ContentClientInitializer_Set process_type delegate w =
     (if process_type = [] then
        rbind (case delegate of
            Some d \<Rightarrow> rbind (CreateContentBrowserClient d w) (\<lambda>(b, w1). Inr (SetContentClient (Some (Some b)) w1))
          | None \<Rightarrow> Inr w) (\<lambda>w2.
          if GetContentClient w2 = Some None
          then rbind (lazy_client Empty_browser_client w2) (\<lambda>(b, w3). Inr (SetContentClient (Some (Some b)) w3))
          else Inr w2)
      else Inr w)"

subsection \<open>Dispatch\<close>

text \<open>The table of main functions has one entry, for the empty type.\<close>

definition RunNamedProcessTypeMain ::
  "('a content_world \<Rightarrow> (int \<times> 'a content_world) result) \<Rightarrow> str \<Rightarrow> 'a main_delegate option \<Rightarrow> 'a content_world \<Rightarrow>
     (int \<times> 'a content_world) result"
where
  "RunNamedProcessTypeMain browser_main process_type delegate w =
     (if process_type = [] then
        (case delegate of
           Some d \<Rightarrow> rbind (RunProcess d process_type w) (\<lambda>(exit_code, w1).
             if exit_code \<ge> 0 then Inr (exit_code, w1) else browser_main w1)
         | None \<Rightarrow> browser_main w)
      else
        (case delegate of
           Some d \<Rightarrow> RunProcess d process_type w
         | None \<Rightarrow> Inl (Dcheck ''Unknown process type'')))"

subsection \<open>The runner\<close>

record 'a content_runner =
  runner_initialized :: bool
  runner_shutdown :: bool
  completed_basic_startup :: bool
  runner_delegate :: "'a main_delegate option"
  owns_exit_manager :: bool

definition ContentMainRunnerImpl :: "'a content_runner" where
  "ContentMainRunnerImpl = \<lparr>runner_initialized = False, runner_shutdown = False, completed_basic_startup = False,
     runner_delegate = None, owns_exit_manager = False\<rparr>"

definition cmr_Initialize ::
  "(wstring \<Rightarrow> wstring list option) \<Rightarrow> wstring \<Rightarrow> 'a main_delegate option \<Rightarrow> 'a content_runner \<Rightarrow> 'a content_world \<Rightarrow>
     (int \<times> 'a content_runner \<times> 'a content_world) result"
where
  "cmr_Initialize to_argv line delegate r w =
     (let r1 = r\<lparr>runner_initialized := True, runner_delegate := delegate\<rparr>
      in rbind (AtExitManager (exit_managers w)) (\<lambda>managers.
           rbind (Init to_argv line (process_cl w)) (\<lambda>(fresh, p).
             let r2 = r1\<lparr>owns_exit_manager := True\<rparr>;
                 w1 = w\<lparr>exit_managers := managers, process_cl := p\<rparr>
             in rbind (case runner_delegate r2 of Some d \<Rightarrow> BasicStartupComplete d w1 | None \<Rightarrow> Inr (None, w1)) (\<lambda>(early, w2).
                  case early of
                    Some exit_code \<Rightarrow> Inr (exit_code, r2, w2)
                  | None \<Rightarrow>
                      let r3 = r2\<lparr>completed_basic_startup := True\<rparr>
                      in rbind (GetProcessType w2) (\<lambda>process_type.
                           let w3 = (if GetContentClient w2 = None then SetContentClient (Some None) w2 else w2)
                           in rbind (ContentClientInitializer_Set process_type (runner_delegate r3) w3) (\<lambda>w4.
                                Inr (-1, r3, w4)))))))"

definition cmr_Run ::
  "('a content_world \<Rightarrow> (int \<times> 'a content_world) result) \<Rightarrow> 'a content_runner \<Rightarrow> 'a content_world \<Rightarrow> (int \<times> 'a content_world) result"
where
  "cmr_Run browser_main r w =
     require (runner_initialized r) (Dcheck ''is_initialized_'')
       (require (\<not> runner_shutdown r) (Dcheck ''!is_shutdown_'')
         (rbind (GetProcessType w) (\<lambda>process_type. RunNamedProcessTypeMain browser_main process_type (runner_delegate r) w)))"

definition cmr_Shutdown :: "'a content_runner \<Rightarrow> 'a content_world \<Rightarrow> ('a content_runner \<times> 'a content_world) result" where
  "cmr_Shutdown r w =
     require (runner_initialized r) (Dcheck ''is_initialized_'')
       (require (\<not> runner_shutdown r) (Dcheck ''!is_shutdown_'')
         (rbind (case runner_delegate r of
             Some d \<Rightarrow> if completed_basic_startup r then rbind (GetProcessType w) (\<lambda>process_type. ProcessExiting d process_type w) else Inr w
           | None \<Rightarrow> Inr w) (\<lambda>w1.
            rbind (if owns_exit_manager r
                   then rbind (DestroyAtExitManager LazyInstance_OnExit (exit_managers w1) (lazy_clients w1)) (\<lambda>(managers, created).
                          Inr (w1\<lparr>exit_managers := managers, lazy_clients := created\<rparr>))
                   else Inr w1) (\<lambda>w2.
              Inr (r\<lparr>owns_exit_manager := False, runner_delegate := None, runner_shutdown := True\<rparr>, w2)))))"

definition DestroyContentMainRunner :: "'a content_runner \<Rightarrow> 'a content_world \<Rightarrow> 'a content_world result" where
  "DestroyContentMainRunner r w =
     (if runner_initialized r \<and> \<not> runner_shutdown r then rbind (cmr_Shutdown r w) (\<lambda>(r1, w1). Inr w1) else Inr w)"

definition ContentMain ::
  "(wstring \<Rightarrow> wstring list option) \<Rightarrow> wstring \<Rightarrow> ('a content_world \<Rightarrow> (int \<times> 'a content_world) result) \<Rightarrow>
     'a main_delegate option \<Rightarrow> 'a content_world \<Rightarrow> (int \<times> 'a content_world) result"
where
  "ContentMain to_argv line browser_main delegate w =
     rbind (cmr_Initialize to_argv line delegate ContentMainRunnerImpl w) (\<lambda>(exit_code, r, w1).
       if exit_code \<ge> 0 then rbind (DestroyContentMainRunner r w1) (\<lambda>w2. Inr (exit_code, w2))
       else rbind (cmr_Run browser_main r w1) (\<lambda>(exit_code, w2).
              rbind (cmr_Shutdown r w2) (\<lambda>(r1, w3).
                rbind (DestroyContentMainRunner r1 w3) (\<lambda>w4. Inr (exit_code, w4)))))"


subsection \<open>What a delegate promises\<close>

text \<open>
  A call of the embedder keeps the command line and the bottom of the stack of exit managers, and destroys no
  client; clients it creates are registered with the manager.
\<close>

definition registered :: "browser_client list \<Rightarrow> 'a content_world \<Rightarrow> 'a content_world \<Rightarrow> bool" where
  "registered created0 w w' \<longleftrightarrow> process_cl w' = process_cl w \<and> crash_on_detach w' = crash_on_detach w \<and>
     (\<forall>m. exit_managers w = [m] \<longrightarrow> lazy_clients w = m @ created0 \<longrightarrow>
        (\<exists>m'. exit_managers w' = [m'] \<and> lazy_clients w' = m' @ created0))"

lemma registered_refl: "registered created0 w w" by (auto simp: registered_def)

lemma registered_trans: "registered c w w1 \<Longrightarrow> registered c w1 w2 \<Longrightarrow> registered c w w2"
  unfolding registered_def by auto

lemma registered_client: "registered c w (w\<lparr>content_client := x\<rparr>)" by (auto simp: registered_def)

lemma registered_app: "registered c w (w\<lparr>app := x\<rparr>)" by (auto simp: registered_def)

lemma lazy_client_registered:
  assumes "exit_managers w = [m]"
  shows "\<exists>w'. lazy_client b w = Inr (b, w') \<and> registered c w w' \<and> app w' = app w \<and> content_client w' = content_client w"
  using assms by (auto simp: lazy_client_def LazyInstance_Pointer_def RegisterTask_def registered_def)

text \<open>
  The contract: \<open>fresh\<close> holds before the application's startup, \<open>up\<close> between its startup and its exit, and
  \<open>down\<close> of the application after it; every call returns, the startup does not end the process, and the main function and \<^verbatim>\<open>RunProcess\<close> have
  the exit codes given.
\<close>

locale embedder =
  fixes d :: "'a main_delegate"
    and browser_main :: "'a content_world \<Rightarrow> (int \<times> 'a content_world) result"
    and fresh up :: "'a content_world \<Rightarrow> bool" and down :: "'a \<Rightarrow> bool"
    and main_code :: int and other_code :: "str \<Rightarrow> int"
  assumes startup: "fresh w \<Longrightarrow> GetProcessType w = Inr t \<Longrightarrow>
      \<exists>w'. BasicStartupComplete d w = Inr (None, w') \<and> registered c w w' \<and> up w' \<and> content_client w' \<noteq> None"
    and create: "up w \<Longrightarrow> exit_managers w = [m] \<Longrightarrow>
      \<exists>b w'. CreateContentBrowserClient d w = Inr (b, w') \<and> registered c w w' \<and> up (SetContentClient (Some (Some b)) w')"
    and browser: "up w \<Longrightarrow> content_client w = Some (Some b) \<Longrightarrow> \<exists>w'. browser_main w = Inr (main_code, w') \<and> registered c w w' \<and> up w'"
    and process: "up w \<Longrightarrow> \<exists>w'. RunProcess d t w = Inr (other_code t, w') \<and> registered c w w' \<and> up w' \<and> content_client w' = content_client w"
    and exiting: "up w \<Longrightarrow> \<exists>w'. ProcessExiting d t w = Inr w' \<and> registered c w w' \<and> down (app w')"
begin

lemma initialize:
  assumes "exit_managers w = []" "Init to_argv line (process_cl w) = Inr (b, p)" "fresh (w\<lparr>exit_managers := [[]], process_cl := p\<rparr>)"
    and "GetProcessType (w\<lparr>process_cl := p\<rparr>) = Inr t"
  shows "\<exists>w'. cmr_Initialize to_argv line (Some d) ContentMainRunnerImpl w =
      Inr (-1, \<lparr>runner_initialized = True, runner_shutdown = False, completed_basic_startup = True, runner_delegate = Some d,
        owns_exit_manager = True\<rparr>, w') \<and>
    up w' \<and> registered (lazy_clients w) (w\<lparr>exit_managers := [[]], process_cl := p\<rparr>) w' \<and>
    (t = [] \<longrightarrow> (\<exists>b. content_client w' = Some (Some b)))"
proof -
  let ?w1 = "w\<lparr>exit_managers := [[]], process_cl := p\<rparr>" and ?c = "lazy_clients w"
  have t1: "GetProcessType ?w1 = Inr t" using assms(4) by (simp add: GetProcessType_def)
  obtain w2 where w2: "BasicStartupComplete d ?w1 = Inr (None, w2)" "registered ?c ?w1 w2" "up w2" "content_client w2 \<noteq> None"
    using startup [OF assms(3) t1] by blast
  have t2: "GetProcessType w2 = Inr t" using t1 w2(2) by (simp add: GetProcessType_def registered_def)
  obtain m where m: "exit_managers w2 = [m]" using w2(2) by (auto simp: registered_def)
  have "\<exists>w4. ContentClientInitializer_Set t (Some d) w2 = Inr w4 \<and> up w4 \<and> registered ?c w2 w4 \<and>
      (t = [] \<longrightarrow> (\<exists>b. content_client w4 = Some (Some b)))"
  proof (cases "t = []")
    case True
    obtain b w3 where w3: "CreateContentBrowserClient d w2 = Inr (b, w3)" "registered ?c w2 w3" "up (SetContentClient (Some (Some b)) w3)"
      using create [OF w2(3) m] by blast
    then show ?thesis using True registered_trans [OF w3(2) registered_client]
      by (auto simp: ContentClientInitializer_Set_def SetContentClient_def GetContentClient_def)
  qed (use w2(3) registered_refl in \<open>auto simp: ContentClientInitializer_Set_def\<close>)
  then obtain w4 where w4: "ContentClientInitializer_Set t (Some d) w2 = Inr w4" "up w4" "registered ?c w2 w4"
    "t = [] \<longrightarrow> (\<exists>b. content_client w4 = Some (Some b))" by blast
  have "registered ?c ?w1 w4" using registered_trans w2(2) w4(3) by blast
  then show ?thesis using assms(1,2) w2(1,4) t2 w4
    by (auto simp: cmr_Initialize_def ContentMainRunnerImpl_def AtExitManager_def GetContentClient_def Let_def)
qed

lemma content_main:
  assumes "exit_managers w = []" "Init to_argv line (process_cl w) = Inr (b, p)" "fresh (w\<lparr>exit_managers := [[]], process_cl := p\<rparr>)"
    and "GetProcessType (w\<lparr>process_cl := p\<rparr>) = Inr t"
  shows "\<exists>w'. ContentMain to_argv line browser_main (Some d) w =
      Inr (if t = [] \<and> other_code t < 0 then main_code else other_code t, w') \<and>
    exit_managers w' = [] \<and> lazy_clients w' = lazy_clients w \<and> process_cl w' = p \<and> crash_on_detach w' = crash_on_detach w \<and> down (app w')"
proof -
  let ?r = "\<lparr>runner_initialized = True, runner_shutdown = False, completed_basic_startup = True, runner_delegate = Some d,
        owns_exit_manager = True\<rparr>" and ?w1 = "w\<lparr>exit_managers := [[]], process_cl := p\<rparr>" and ?c = "lazy_clients w"
  obtain w4 where w4: "cmr_Initialize to_argv line (Some d) ContentMainRunnerImpl w = Inr (-1, ?r, w4)" "up w4" "registered ?c ?w1 w4"
    "t = [] \<longrightarrow> (\<exists>b. content_client w4 = Some (Some b))"
    using initialize [OF assms] by blast
  have t4: "GetProcessType w' = Inr t" if "registered ?c ?w1 w'" for w'
    using that assms(4) by (simp add: GetProcessType_def registered_def)
  obtain w5 where w5: "RunProcess d t w4 = Inr (other_code t, w5)" "registered ?c w4 w5" "up w5" "content_client w5 = content_client w4"
    using process [OF w4(2)] by blast
  let ?code = "if t = [] \<and> other_code t < 0 then main_code else other_code t"
  have "\<exists>w6. cmr_Run browser_main ?r w4 = Inr (?code, w6) \<and> registered ?c w4 w6 \<and> up w6"
  proof (cases "t = [] \<and> other_code t < 0")
    case True
    then obtain b where "content_client w5 = Some (Some b)" using w4(4) w5(4) by auto
    then obtain w6 where "browser_main w5 = Inr (main_code, w6)" "registered ?c w5 w6" "up w6" using browser [OF w5(3)] by blast
    then show ?thesis using True w5 t4 [OF w4(3)] registered_trans [OF w5(2)]
      by (auto simp: cmr_Run_def RunNamedProcessTypeMain_def)
  next
    case False
    then show ?thesis using w5 t4 [OF w4(3)] by (auto simp: cmr_Run_def RunNamedProcessTypeMain_def)
  qed
  then obtain w6 where w6: "cmr_Run browser_main ?r w4 = Inr (?code, w6)" "registered ?c ?w1 w6" "up w6"
    using registered_trans [OF w4(3)] by blast
  obtain w7 where w7: "ProcessExiting d t w6 = Inr w7" "registered ?c w6 w7" "down (app w7)" using exiting [OF w6(3)] by blast
  have reg: "registered ?c ?w1 w7" using registered_trans [OF w6(2) w7(2)] .
  then obtain m where m: "exit_managers w7 = [m]" "lazy_clients w7 = m @ ?c" by (auto simp: registered_def)
  have "DestroyAtExitManager LazyInstance_OnExit [m] (m @ ?c) = Inr ([], ?c)"
    by (simp add: DestroyAtExitManager_def ProcessCallbacksNow_def lazy_instances_destroyed)
  then have "cmr_Shutdown ?r w6 = Inr (?r\<lparr>owns_exit_manager := False, runner_delegate := None, runner_shutdown := True\<rparr>,
      w7\<lparr>exit_managers := [], lazy_clients := ?c\<rparr>)"
    using t4 [OF w6(2)] w7(1) m by (simp add: cmr_Shutdown_def)
  then have "ContentMain to_argv line browser_main (Some d) w = Inr (?code, w7\<lparr>exit_managers := [], lazy_clients := ?c\<rparr>)"
    using w4(1) w6(1) by (simp add: ContentMain_def DestroyContentMainRunner_def)
  then show ?thesis using reg w7(3) by (auto simp: registered_def)
qed

end

text \<open>A startup that ends the process: its code is returned, and \<^verbatim>\<open>ProcessExiting\<close> is not called.\<close>

lemma content_main_early_exit:
  assumes "exit_managers w = []" "Init to_argv line (process_cl w) = Inr (b, p)"
    and "BasicStartupComplete d (w\<lparr>exit_managers := [[]], process_cl := p\<rparr>) = Inr (Some code, w2)"
    and "registered (lazy_clients w) (w\<lparr>exit_managers := [[]], process_cl := p\<rparr>) w2" "0 \<le> code"
  shows "ContentMain to_argv line browser_main (Some d) w = Inr (code, w2\<lparr>exit_managers := [], lazy_clients := lazy_clients w\<rparr>)"
proof -
  obtain m where m: "exit_managers w2 = [m]" "lazy_clients w2 = m @ lazy_clients w" using assms(4) by (auto simp: registered_def)
  then show ?thesis using assms
    by (simp add: ContentMain_def cmr_Initialize_def ContentMainRunnerImpl_def AtExitManager_def DestroyContentMainRunner_def
        cmr_Shutdown_def DestroyAtExitManager_def ProcessCallbacksNow_def lazy_instances_destroyed)
qed

end
