(* ===== verification/Chrome_Main.thy ===== *)
theory Chrome_Main
  imports Content_Main
begin

text \<open>
  The application on top of \<^verbatim>\<open>content\<close>: the parts of its main loop (\<^verbatim>\<open>policy/browser/chrome_browser_main.cc\<close>),
  its delegate (\<^verbatim>\<open>policy/app/chrome_main_delegate.cc\<close>) and the entry of the library
  (\<^verbatim>\<open>policy/app/chrome_main.cc\<close>). The parts' calls are played along the history of \<open>BrowserMain\<close>, which
  records them in order and depends on none of them beyond their exit codes.
\<close>

subsection \<open>The parts of the main loop\<close>

text \<open>The members of \<^verbatim>\<open>ChromeBrowserMainParts\<close> and the globals its calls change.\<close>

record chrome_parts =
  parts_result_code :: int
  parts_own_process :: bool
  g_browser_process :: "browser_process option"
  qt_app :: bool
  pump_factory_set :: bool
  unit_tests_posted :: nat
  main_windows :: nat

definition ChromeBrowserMainParts :: "chrome_parts \<Rightarrow> chrome_parts" where
  "ChromeBrowserMainParts p = p\<lparr>parts_result_code := RESULT_CODE_NORMAL_EXIT, parts_own_process := False\<rparr>"

text \<open>\<open>qt_argv\<close> is what \<^verbatim>\<open>CommandLineToArgvW\<close> returns; Qt's copy of it is not modelled.\<close>

definition QtInit :: "wstring list option \<Rightarrow> chrome_parts \<Rightarrow> chrome_parts result" where
  "QtInit qt_argv p = require (qt_argv \<noteq> None) (Check ''!!argvW'') (Inr (p\<lparr>qt_app := True\<rparr>))"

definition QtFini :: "chrome_parts \<Rightarrow> chrome_parts result" where
  "QtFini p = require (qt_app p) (Check ''qt_app_'') (Inr (p\<lparr>qt_app := False\<rparr>))"

definition InitMessagePumpForUIFactory :: "chrome_parts \<Rightarrow> bool \<times> chrome_parts" where
  "InitMessagePumpForUIFactory p = (if pump_factory_set p then (False, p) else (True, p\<lparr>pump_factory_set := True\<rparr>))"

definition parts_PreCreateThreads :: "nat \<Rightarrow> chrome_parts \<Rightarrow> int \<times> chrome_parts" where
  "parts_PreCreateThreads cur p =
     (let p1 = p\<lparr>parts_own_process := True, g_browser_process := Some (BrowserProcessImpl cur),
                 parts_result_code := RESULT_CODE_NORMAL_EXIT\<rparr>
      in (parts_result_code p1, p1))"

definition parts_PreMainMessageLoopRun :: "chrome_parts \<Rightarrow> chrome_parts result" where
  "parts_PreMainMessageLoopRun p =
     require (parts_own_process p) (Null_deref ''browser_process_'')
       (Inr (p\<lparr>unit_tests_posted := unit_tests_posted p + 1, main_windows := main_windows p + 1\<rparr>))"

definition parts_MainMessageLoopRun :: "chrome_parts \<Rightarrow> bool \<times> int" where
  "parts_MainMessageLoopRun p = (False, parts_result_code p)"

definition parts_PostMainMessageLoopRun :: "chrome_parts \<Rightarrow> chrome_parts result" where
  "parts_PostMainMessageLoopRun p = require (parts_own_process p) (Null_deref ''browser_process_'') (Inr p)"

text \<open>\<^verbatim>\<open>delete\<close> of a null pointer does nothing.\<close>

definition parts_PostDestroyThreads :: "nat \<Rightarrow> chrome_parts \<Rightarrow> chrome_parts result" where
  "parts_PostDestroyThreads cur p =
     require (parts_own_process p) (Null_deref ''browser_process_'')
       (rbind (case g_browser_process p of Some b \<Rightarrow> DestroyBrowserProcess cur b | None \<Rightarrow> Inr ()) (\<lambda>_.
         QtFini (p\<lparr>parts_own_process := False, g_browser_process := None\<rparr>)))"

text \<open>One event of the main loop, and its history.\<close>

fun chrome_part :: "wstring list option \<Rightarrow> nat \<Rightarrow> main_event \<Rightarrow> chrome_parts \<Rightarrow> chrome_parts result" where
  "chrome_part qt_argv cur Part_ToolkitInitialized p = QtInit qt_argv p"
| "chrome_part qt_argv cur Part_PreMainMessageLoopStart p = Inr (snd (InitMessagePumpForUIFactory p))"
| "chrome_part qt_argv cur Part_PreCreateThreads p = Inr (snd (parts_PreCreateThreads cur p))"
| "chrome_part qt_argv cur Part_PreMainMessageLoopRun p = parts_PreMainMessageLoopRun p"
| "chrome_part qt_argv cur Part_PostMainMessageLoopRun p = parts_PostMainMessageLoopRun p"
| "chrome_part qt_argv cur Part_PostDestroyThreads p = parts_PostDestroyThreads cur p"
| "chrome_part qt_argv cur _ p = Inr p"

fun run_parts :: "wstring list option \<Rightarrow> nat \<Rightarrow> main_event list \<Rightarrow> chrome_parts \<Rightarrow> chrome_parts result" where
  "run_parts qt_argv cur [] p = Inr p"
| "run_parts qt_argv cur (e # es) p = rbind (chrome_part qt_argv cur e p) (run_parts qt_argv cur es)"

subsection \<open>The delegate\<close>

record 'c chrome_app =
  clog :: chrome_logging
  browser_threads :: "'c bt_globals"
  chrome_parts_state :: chrome_parts

text \<open>What the platform answers: \<^verbatim>\<open>content/browser_main_loop\<close>'s environment without the parts.\<close>

record ('e, 'c) chrome_platform =
  plat_log :: log_os
  plat_error_text :: str
  plat_env_api :: "'e environment_api"
  plat_env :: 'e
  plat_main :: "'c main_env"
  plat_ui_thread :: nat
  plat_qt_argv :: "wstring list option"

definition delegate_file :: str where "delegate_file = text8 ''app/chrome_main_delegate.cc''"

definition chrome_BasicStartupComplete ::
  "('e, 'c) chrome_platform \<Rightarrow> 'c chrome_app content_world \<Rightarrow> (int option \<times> 'c chrome_app content_world) result"
where
  "chrome_BasicStartupComplete P w =
     rbind (ForCurrentProcess (process_cl w)) (\<lambda>command_line.
     rbind (GetSwitchValueASCII command_line (text8 ''type'')) (\<lambda>process_type.
       let w1 = SetContentClient (Some None) w;
           file_state = APPEND_TO_OLD_LOG_FILE;
           file_state1 = (if process_type = [] then DELETE_OLD_LOG_FILE else file_state)
       in rbind (InitChromeLogging (plat_log P) (plat_error_text P) (plat_env_api P) (plat_env P) command_line command_line
                   file_state1 (clog (app w1))) (\<lambda>c.
          rbind (LOG (plat_log P) delegate_file 49 LOG_INFO (text8 ''logging::InitChromeLogging'') (logs c)) (\<lambda>l.
            Inr (None, w1\<lparr>app := (app w1)\<lparr>clog := c\<lparr>logs := l\<rparr>\<rparr>\<rparr>)))))"

definition chrome_RunProcess :: "str \<Rightarrow> 'c chrome_app content_world \<Rightarrow> (int \<times> 'c chrome_app content_world) result" where
  "chrome_RunProcess process_type w = Inr (-1, w)"

definition chrome_ProcessExiting ::
  "('e, 'c) chrome_platform \<Rightarrow> str \<Rightarrow> 'c chrome_app content_world \<Rightarrow> 'c chrome_app content_world result"
where
  "chrome_ProcessExiting P process_type w =
     (let c = clog (app w)
      in rbind (LOG (plat_log P) delegate_file 62 LOG_INFO (text8 ''logging::CleanupChromeLogging'') (logs c)) (\<lambda>l.
         rbind (CleanupChromeLogging (c\<lparr>logs := l\<rparr>)) (\<lambda>c1. Inr (w\<lparr>app := (app w)\<lparr>clog := c1\<rparr>\<rparr>))))"

definition ChromeMainDelegate :: "('e, 'c) chrome_platform \<Rightarrow> 'c chrome_app main_delegate" where
  "ChromeMainDelegate P =
     \<lparr>BasicStartupComplete = chrome_BasicStartupComplete P,
      CreateContentBrowserClient = lazy_client Chrome_browser_client,
      RunProcess = chrome_RunProcess, ProcessExiting = chrome_ProcessExiting P\<rparr>"

subsection \<open>The main function and the entry\<close>

text \<open>
  \<^verbatim>\<open>BrowserMainLoop::Init\<close> asks the content client for the parts; the empty client has none.
\<close>

definition chrome_main_env :: "browser_client \<Rightarrow> chrome_parts \<Rightarrow> nat \<Rightarrow> 'c main_env \<Rightarrow> 'c main_env" where
  "chrome_main_env client p cur env =
     env\<lparr>has_parts := (client = Chrome_browser_client),
         pre_create_threads_result := fst (parts_PreCreateThreads cur p),
         parts_run_loop := (\<lambda>_. parts_MainMessageLoopRun (snd (parts_PreCreateThreads cur p)))\<rparr>"

definition chrome_BrowserMain ::
  "('e, 'c) chrome_platform \<Rightarrow> 'c chrome_app content_world \<Rightarrow> (int \<times> 'c chrome_app content_world) result"
where
  "chrome_BrowserMain P w =
     (case GetContentClient w of
        Some (Some client) \<Rightarrow>
          (let a = app w; p = ChromeBrowserMainParts (chrome_parts_state a)
           in rbind (BrowserMain (chrome_main_env client p (plat_ui_thread P) (plat_main P)) (browser_threads a)) (\<lambda>(exit_code, r).
              rbind (run_parts (plat_qt_argv P) (plat_ui_thread P) (history r) p) (\<lambda>p1.
                Inr (exit_code, w\<lparr>app := a\<lparr>browser_threads := bmr_registry r, chrome_parts_state := p1\<rparr>\<rparr>))))
      | _ \<Rightarrow> Inl (Null_deref ''GetContentClient()->browser()''))"

definition ChromeMain ::
  "('e, 'c) chrome_platform \<Rightarrow> (wstring \<Rightarrow> wstring list option) \<Rightarrow> wstring \<Rightarrow> 'c chrome_app content_world \<Rightarrow>
     (int \<times> 'c chrome_app content_world) result"
where
  "ChromeMain P to_argv line w =
     rbind (ContentMain to_argv line (chrome_BrowserMain P) (Some (ChromeMainDelegate P)) (w\<lparr>crash_on_detach := True\<rparr>))
       (\<lambda>(rv, w1). Inr (rv, w1\<lparr>crash_on_detach := False\<rparr>))"


subsection \<open>A run of the application\<close>

definition platform_ok :: "('e, 'c) chrome_platform \<Rightarrow> bool" where
  "platform_ok P \<longleftrightarrow> create_mutex (plat_log P) \<and> plat_qt_argv P \<noteq> None \<and> toolkit_ok (plat_main P) \<and>
     (\<forall>i. thread_created (plat_main P) i) \<and> posts_keep_threads (main_loop_effect (plat_main P)) \<and>
     (\<forall>i. quits_properly i (loop_to_quit (plat_main P) i))"

definition parts_down :: "chrome_parts \<Rightarrow> bool" where
  "parts_down p \<longleftrightarrow> g_browser_process p = None \<and> \<not> qt_app p"

definition chrome_fresh :: "'c chrome_app content_world \<Rightarrow> bool" where
  "chrome_fresh w \<longleftrightarrow> (\<exists>mode. clog (app w) = no_chrome_logging mode) \<and> threads (browser_threads (app w)) = (\<lambda>_. None) \<and>
     parts_down (chrome_parts_state (app w))"

definition log_usable :: "chrome_logging \<Rightarrow> bool" where
  "log_usable c \<longleftrightarrow> log_inv (logs c) \<and> (chrome_logging_initialized c \<or> chrome_logging_failed c)"

definition chrome_up :: "'c chrome_app content_world \<Rightarrow> bool" where
  "chrome_up w \<longleftrightarrow> log_usable (clog (app w)) \<and>
     threads (browser_threads (app w)) = (\<lambda>_. None) \<and> parts_down (chrome_parts_state (app w)) \<and>
     (content_client w = Some None \<or> content_client w = Some (Some Chrome_browser_client))"

definition chrome_down :: "'c chrome_app \<Rightarrow> bool" where
  "chrome_down a \<longleftrightarrow> (chrome_logging_failed (clog a) \<or> log_file (logs (clog a)) = None) \<and>
     threads (browser_threads a) = (\<lambda>_. None) \<and> parts_down (chrome_parts_state a)"


lemma log_lines_ok:
  "log_inv s \<Longrightarrow> create_mutex os \<Longrightarrow> list_all (\<lambda>(_, _, severity, _). severity \<noteq> LOG_FATAL) ls \<Longrightarrow>
    \<exists>s'. log_lines os ls s = Inr s' \<and> log_inv s'"
proof (induction os ls s rule: log_lines.induct)
  case (2 os f n severity msg ls s)
  have "\<exists>s1. (if severity < 0 then VLOG os f n (- severity) msg s else LOG os f n severity msg s) = Inr s1 \<and> log_inv s1"
    using 2(2-4) LogMessage_ok [OF 2(2,3), of severity f n msg] LOG_ok [OF 2(2,3), of severity f n msg]
    by (auto simp: VLOG_def)
  then obtain s1 where s1: "(if severity < 0 then VLOG os f n (- severity) msg s else LOG os f n severity msg s) = Inr s1" "log_inv s1"
    by blast
  then show ?case using 2(1) [OF s1(1,2) 2(3)] 2(4) by simp
qed simp

lemma VlogInfo_lines_not_fatal: "list_all (\<lambda>(_, _, severity, _). severity \<noteq> LOG_FATAL) (VlogInfo_lines sp v vm)"
proof -
  have k: "fst (snd (snd x)) \<noteq> 3" if "x \<in> set (key_value_lines l)" for x l
    using that by (auto simp: key_value_lines_def Let_def split: prod.splits bool.splits if_splits)
  have "fst (snd (snd x)) \<noteq> 3" if "x \<in> set (VlogInfo_lines sp v vm)" for x
    using that k [of x] by (auto simp: VlogInfo_lines_def Let_def split: prod.splits if_splits)
  then show ?thesis by (fastforce simp: LOG_FATAL_def list_all_iff)
qed

lemma BaseInitLoggingImpl_ok:
  assumes "log_inv s" "create_mutex os" "g_vlog_info_prev s = None"
  shows "\<exists>b s'. BaseInitLoggingImpl os cl settings s = Inr (b, s') \<and> log_inv s'"
proof -
  obtain v where v: "GetSwitchValueASCII cl kV = Inr v" using GetSwitchValueASCII_ok by blast
  obtain vm where vm: "GetSwitchValueASCII cl kVModule = Inr vm" using GetSwitchValueASCII_ok by blast
  obtain levels m where m: "VlogInfo (is_space os) v vm (min_log_level s) = (levels, m)" by (meson surj_pair)
  let ?s0 = "s\<lparr>g_vlog_info_prev := g_vlog_info s, min_log_level := m\<rparr>"
  obtain s1 where s1: "log_lines os (VlogInfo_lines (is_space os) v vm) ?s0 = Inr s1" "log_inv s1"
    using log_lines_ok [OF _ assms(2) VlogInfo_lines_not_fatal, of ?s0 "is_space os" v vm] assms(1) by (auto simp: log_inv_fields)
  then have "\<exists>s2. init_vlog_info os cl s = Inr s2 \<and> log_inv s2"
    using assms m by (simp add: init_vlog_info_def v vm Let_def log_inv_fields)
  then obtain s2 where s2: "init_vlog_info os cl s = Inr s2" "log_inv s2" by blast
  then show ?thesis using init_log_file_inv [OF s2(2) assms(2), of settings] by (auto simp: BaseInitLoggingImpl_def)
qed

lemma set_level_from_switch_ok:
  assumes "log_inv l" "create_mutex os"
  shows "\<exists>l'. set_level_from_switch os cl l = Inr l' \<and> log_inv l'"
proof -
  obtain v where v: "GetSwitchValueASCII cl kLoggingLevel = Inr v" using GetSwitchValueASCII_ok by blast
  have w: "\<exists>l'. LOG os this_file 166 LOG_WARNING msg l = Inr l' \<and> log_inv l'" for msg
    using LOG_ok [OF assms] by (simp add: LOG_WARNING_def LOG_FATAL_def)
  show ?thesis using assms(1) w
    by (auto simp: set_level_from_switch_def v SetMinLogLevel_def log_inv_fields split: prod.splits bool.splits option.splits)
qed

lemma SuppressDialogs_inv: "log_inv (logs c) \<Longrightarrow> log_inv (logs (SuppressDialogs c))"
  by (auto simp: SuppressDialogs_def SetLogAssertHandler_def SilentRuntimeAssertHandler_def log_inv_def handlers_ok_def
      lock_ready_def outside_file_def Let_def)

lemma SuppressDialogs_frame: "chrome_logging_failed (SuppressDialogs c) = chrome_logging_failed c"
  by (simp add: SuppressDialogs_def Let_def)

lemma log_inv_initial: "log_inv initial_logging"
  by (simp add: log_inv_def initial_logging_def handlers_ok_def)

lemma InitChromeLogging_ok:
  assumes "create_mutex os"
  shows "\<exists>c. InitChromeLogging os error_text api env cl cl del (no_chrome_logging mode) = Inr c \<and> log_usable c"
proof -
  let ?c = "no_chrome_logging mode"
  have c: "logs ?c = initial_logging" "\<not> chrome_logging_initialized ?c" "g_vlog_info_prev initial_logging = None"
    by (simp_all add: no_chrome_logging_def initial_logging_def)
  obtain v where "GetSwitchValueASCII cl kEnableLogging = Inr v" using GetSwitchValueASCII_ok by blast
  then have "\<exists>dest. DetermineLogMode cl = Inr dest" by (simp add: DetermineLogMode_def)
  then obtain dest where dest: "DetermineLogMode cl = Inr dest" by blast
  obtain path lock where pl: "(if dest AND LOG_TO_FILE \<noteq> 0 then (GetLogFileName api env, LOCK_LOG_FILE) else ([], DONT_LOCK_LOG_FILE)) = (path, lock)"
    by (meson surj_pair)
  let ?settings = "\<lparr>logging_dest = dest, settings_log_file = c_str path, lock_log = lock, delete_old = del\<rparr>"
  obtain success l where l: "BaseInitLoggingImpl os cl ?settings initial_logging = Inr (success, l)" "log_inv l"
    using BaseInitLoggingImpl_ok [OF log_inv_initial assms c(3)] by blast
  show ?thesis
  proof (cases success)
    case False
    obtain l1 where l1: "LOG os this_file 130 LOG_ERROR (text8 ''Unable to initialize logging to '' @ WideToUTF8 path @ error_text) l = Inr l1"
      "log_inv l1"
      using LOG_ok [OF l(2) assms, of LOG_ERROR this_file 130] by (metis LOG_ERROR_def LOG_FATAL_def numeral_eq_iff semiring_norm(88))
    have "InitChromeLogging os error_text api env cl cl del ?c = Inr (?c\<lparr>logs := l1, chrome_logging_failed := True\<rparr>)"
      using False
      by (simp only: InitChromeLogging_def Let_def dest c pl l(1) l1(1) rbind_simps require_simps prod.case
          not_True_eq_False not_False_eq_True if_True if_False simp_thms)
    then show ?thesis using l1(2) by (auto simp: log_usable_def)
  next
    case True
    let ?l1 = "if \<not> HasSwitch cl kNoErrorDialogs then SetShowErrorDialogs True l else l"
    let ?c1 = "?c\<lparr>logs := SetLogItems True True True False ?l1\<rparr>"
    let ?c2 = "if HasVar api kHeadless env \<or> HasSwitch cl kNoErrorDialogs then SuppressDialogs ?c1 else ?c1"
    have "log_inv (logs ?c1)" using l(2) by (simp add: log_inv_fields SetShowErrorDialogs_def)
    then have "log_inv (logs ?c2)" using SuppressDialogs_inv [of ?c1] by presburger
    then obtain l3 where l3: "set_level_from_switch os cl (logs ?c2) = Inr l3" "log_inv l3"
      using set_level_from_switch_ok assms by blast
    have "InitChromeLogging os error_text api env cl cl del ?c = Inr (?c2\<lparr>logs := l3, chrome_logging_initialized := True\<rparr>)"
      using True
      by (simp only: InitChromeLogging_def Let_def dest c pl l(1) l3(1) rbind_simps require_simps prod.case
          not_True_eq_False not_False_eq_True if_True if_False simp_thms)
    then show ?thesis using l3(2) by (auto simp: log_usable_def)
  qed
qed

lemma CloseLogFile_none: "CloseLogFile s = Inr s' \<Longrightarrow> log_file s' = None"
  by (auto simp: CloseLogFile_def with_logging_lock_def LockLogging_def UnlockLogging_def CloseLogFileUnlocked_def require_def
      split: if_splits option.splits simp: rbind_eq_Inr)

lemma CleanupChromeLogging_ok:
  assumes "log_usable c"
  shows "\<exists>c'. CleanupChromeLogging c = Inr c' \<and> (chrome_logging_failed c' \<or> log_file (logs c') = None)"
proof -
  obtain l where l: "CloseLogFile (logs c) = Inr l" using assms CloseLogFile_inv by (auto simp: log_usable_def)
  then show ?thesis using assms CloseLogFile_none [OF l] by (auto simp: CleanupChromeLogging_def log_usable_def)
qed


subsection \<open>The parts along the history\<close>

lemma run_parts_append: "run_parts a cur (xs @ ys) p = rbind (run_parts a cur xs p) (run_parts a cur ys)"
  by (induction xs arbitrary: p) (auto simp: rbind_assoc intro!: rbind_cong)

lemma run_parts_threads: "run_parts a cur (map Thread_Started is) p = Inr p" "run_parts a cur (map Thread_Reset is) p = Inr p"
  by (induction "is") simp_all

definition normal_history :: "main_event list" where
  "normal_history = early_events @ [Part_PreCreateThreads] @ map Thread_Started (tl all_ids) @
      [Part_PreMainMessageLoopRun, Part_MainMessageLoopRun, Default_MainMessageLoopRun] @
      [Part_PostMainMessageLoopRun] @ map Thread_Reset (rev (tl all_ids)) @ [Pool_Shutdown, Part_PostDestroyThreads]"

lemma own_browser_process: "DestroyBrowserProcess cur (BrowserProcessImpl cur) = Inr ()"
  by (simp add: DestroyBrowserProcess_def BrowserProcessImpl_def CalledOnValidThread_def ThreadCheckerImpl_def
      EnsureThreadIdAssigned_def)

lemma run_parts_normal:
  "\<exists>p'. run_parts (Some v) cur normal_history p = Inr p' \<and> parts_down p' \<and> main_windows p' = main_windows p + 1"
  by (simp add: normal_history_def early_events_def run_parts_append run_parts_threads QtInit_def QtFini_def
      InitMessagePumpForUIFactory_def parts_PreCreateThreads_def parts_PreMainMessageLoopRun_def
      parts_PostMainMessageLoopRun_def parts_PostDestroyThreads_def own_browser_process parts_down_def Let_def)

lemma chrome_BrowserMain_ok:
  assumes "platform_ok P" "chrome_up w" "content_client w = Some (Some b)"
  shows "\<exists>w'. chrome_BrowserMain P w = Inr (0, w') \<and> registered c w w' \<and> chrome_up w'"
proof -
  define p where "p = ChromeBrowserMainParts (chrome_parts_state (app w))"
  define env where "env = chrome_main_env b p (plat_ui_thread P) (plat_main P)"
  have b: "b = Chrome_browser_client" using assms(2,3) by (auto simp: chrome_up_def)
  have e: "has_parts env" "toolkit_ok env" "pre_create_threads_result env = 0" "\<forall>i. thread_created env i"
    "posts_keep_threads (main_loop_effect env)" "\<forall>i. quits_properly i (loop_to_quit env i)"
    "parts_run_loop env 0 = (False, 0)"
    using assms(1) b
    by (simp_all add: platform_ok_def env_def chrome_main_env_def parts_PreCreateThreads_def parts_MainMessageLoopRun_def
        RESULT_CODE_NORMAL_EXIT_def)
  have t: "threads (browser_threads (app w)) = (\<lambda>_. None)" using assms(2) by (simp add: chrome_up_def)
  obtain r where r: "BrowserMain env (browser_threads (app w)) = Inr (0, r)" "threads (bmr_registry r) = (\<lambda>_. None)"
    "history r = normal_history"
    using BrowserMain_normal_run' [OF e(1,2) t _ e(4-6)] e(3,7) by (auto simp: normal_history_def)
  obtain v where v: "plat_qt_argv P = Some v" using assms(1) by (auto simp: platform_ok_def)
  obtain p1 where p1: "run_parts (Some v) (plat_ui_thread P) normal_history p = Inr p1" "parts_down p1"
    using run_parts_normal by blast
  let ?w = "w\<lparr>app := (app w)\<lparr>browser_threads := bmr_registry r, chrome_parts_state := p1\<rparr>\<rparr>"
  have "chrome_BrowserMain P w = Inr (0, ?w)"
    by (simp only: chrome_BrowserMain_def GetContentClient_def assms(3) Let_def option.case v p_def [symmetric] env_def [symmetric]
        r(1,3) p1(1) rbind_simps prod.case)
  moreover have "chrome_up ?w" using assms(2) r(2) p1(2) by (simp add: chrome_up_def)
  ultimately show ?thesis by (intro exI [of _ ?w] conjI registered_app)
qed

subsection \<open>The delegate keeps its contract\<close>

lemma LOG_INFO_ok: "log_inv l \<Longrightarrow> create_mutex os \<Longrightarrow> \<exists>l'. LOG os f n LOG_INFO msg l = Inr l' \<and> log_inv l'"
  by (rule LOG_ok) (simp_all add: LOG_INFO_def LOG_FATAL_def)

lemma chrome_startup_ok:
  assumes "platform_ok P" "chrome_fresh w" "GetProcessType w = Inr t"
  shows "\<exists>w'. chrome_BasicStartupComplete P w = Inr (None, w') \<and> registered c w w' \<and> chrome_up w' \<and> content_client w' = Some None"
proof -
  have m: "create_mutex (plat_log P)" using assms(1) by (simp add: platform_ok_def)
  obtain mode where mode: "clog (app w) = no_chrome_logging mode" using assms(2) by (auto simp: chrome_fresh_def)
  obtain cl where cl: "ForCurrentProcess (process_cl w) = Inr cl" "GetSwitchValueASCII cl (text8 ''type'') = Inr t"
    using assms(3) by (auto simp: GetProcessType_def rbind_eq_Inr)
  let ?del = "if t = [] then DELETE_OLD_LOG_FILE else APPEND_TO_OLD_LOG_FILE"
  obtain d where d: "InitChromeLogging (plat_log P) (plat_error_text P) (plat_env_api P) (plat_env P) cl cl ?del (no_chrome_logging mode) = Inr d"
    "log_usable d"
    using InitChromeLogging_ok [OF m, where error_text = "plat_error_text P" and api = "plat_env_api P" and env = "plat_env P"
      and cl = cl and del = ?del and mode = mode] by (elim exE conjE) (rule that)
  obtain l where l: "LOG (plat_log P) delegate_file 49 LOG_INFO (text8 ''logging::InitChromeLogging'') (logs d) = Inr l" "log_inv l"
    using LOG_INFO_ok [OF _ m] d(2) unfolding log_usable_def by blast
  let ?w = "(w\<lparr>content_client := Some None\<rparr>)\<lparr>app := (app w)\<lparr>clog := d\<lparr>logs := l\<rparr>\<rparr>\<rparr>"
  have "chrome_BasicStartupComplete P w = Inr (None, ?w)"
    using d(1) l(1) cl mode by (simp add: chrome_BasicStartupComplete_def SetContentClient_def Let_def)
  moreover have "chrome_up ?w" using assms(2) d(2) l(2) by (auto simp: chrome_up_def chrome_fresh_def log_usable_def)
  moreover have "registered c w ?w" by (rule registered_trans [OF registered_client registered_app])
  ultimately show ?thesis by (intro exI [of _ ?w] conjI) simp_all
qed

lemma chrome_exiting_ok:
  assumes "platform_ok P" "chrome_up w"
  shows "\<exists>w'. chrome_ProcessExiting P t w = Inr w' \<and> registered c w w' \<and> chrome_down (app w')"
proof -
  have m: "create_mutex (plat_log P)" using assms(1) by (simp add: platform_ok_def)
  have u: "log_usable (clog (app w))" using assms(2) by (simp add: chrome_up_def)
  obtain l where l: "LOG (plat_log P) delegate_file 62 LOG_INFO (text8 ''logging::CleanupChromeLogging'') (logs (clog (app w))) = Inr l" "log_inv l"
    using LOG_INFO_ok [OF _ m] u unfolding log_usable_def by blast
  have "log_usable ((clog (app w))\<lparr>logs := l\<rparr>)" using u l(2) by (simp add: log_usable_def)
  then obtain d where d: "CleanupChromeLogging ((clog (app w))\<lparr>logs := l\<rparr>) = Inr d" "chrome_logging_failed d \<or> log_file (logs d) = None"
    using CleanupChromeLogging_ok by blast
  let ?w = "w\<lparr>app := (app w)\<lparr>clog := d\<rparr>\<rparr>"
  have "chrome_ProcessExiting P t w = Inr ?w" using l(1) d(1) by (simp add: chrome_ProcessExiting_def Let_def)
  moreover have "chrome_down (app ?w)" using assms(2) d(2) by (simp add: chrome_down_def chrome_up_def)
  ultimately show ?thesis by (intro exI [of _ ?w] conjI registered_app)
qed

lemma chrome_create_ok:
  assumes "chrome_up w" "exit_managers w = [m]"
  shows "\<exists>w'. lazy_client Chrome_browser_client w = Inr (Chrome_browser_client, w') \<and> registered c w w' \<and>
    chrome_up (SetContentClient (Some (Some Chrome_browser_client)) w')"
proof -
  obtain w' where w': "lazy_client Chrome_browser_client w = Inr (Chrome_browser_client, w')" "registered c w w'" "app w' = app w"
    using lazy_client_registered [OF assms(2), where c = c and b = Chrome_browser_client] by (elim exE conjE) (rule that)
  then show ?thesis using assms(1) by (intro exI [of _ w'] conjI) (simp_all add: chrome_up_def SetContentClient_def)
qed

interpretation chrome: embedder "ChromeMainDelegate P" "chrome_BrowserMain P" "\<lambda>w. platform_ok P \<and> chrome_fresh w"
    "\<lambda>w. platform_ok P \<and> chrome_up w" chrome_down 0 "\<lambda>_. -1" for P
proof
  fix w :: "'b chrome_app content_world" and t c
  assume "platform_ok P \<and> chrome_fresh w" "GetProcessType w = Inr t"
  then show "\<exists>w'. BasicStartupComplete (ChromeMainDelegate P) w = Inr (None, w') \<and> registered c w w' \<and>
      (platform_ok P \<and> chrome_up w') \<and> content_client w' \<noteq> None"
    using chrome_startup_ok [of P w t c] by (auto simp: ChromeMainDelegate_def)
next
  fix w :: "'b chrome_app content_world" and m c
  assume "platform_ok P \<and> chrome_up w" "exit_managers w = [m]"
  then show "\<exists>b w'. CreateContentBrowserClient (ChromeMainDelegate P) w = Inr (b, w') \<and> registered c w w' \<and>
      (platform_ok P \<and> chrome_up (SetContentClient (Some (Some b)) w'))"
    using chrome_create_ok [of w m c] by (auto simp: ChromeMainDelegate_def)
next
  fix w :: "'b chrome_app content_world" and b c
  assume "platform_ok P \<and> chrome_up w" "content_client w = Some (Some b)"
  then show "\<exists>w'. chrome_BrowserMain P w = Inr (0, w') \<and> registered c w w' \<and> (platform_ok P \<and> chrome_up w')"
    using chrome_BrowserMain_ok [of P w b c] by auto
next
  fix w :: "'b chrome_app content_world" and t c
  assume "platform_ok P \<and> chrome_up w"
  then show "\<exists>w'. RunProcess (ChromeMainDelegate P) t w = Inr (-1, w') \<and> registered c w w' \<and> (platform_ok P \<and> chrome_up w') \<and>
      content_client w' = content_client w"
    by (simp add: ChromeMainDelegate_def chrome_RunProcess_def registered_refl)
next
  fix w :: "'b chrome_app content_world" and t c
  assume "platform_ok P \<and> chrome_up w"
  then show "\<exists>w'. ProcessExiting (ChromeMainDelegate P) t w = Inr w' \<and> registered c w w' \<and> chrome_down (app w')"
    using chrome_exiting_ok [of P w t c] by (auto simp: ChromeMainDelegate_def)
qed

text \<open>
  C7: a run of the application from its entry to its end. With a platform that creates what is asked of it, the
  entry returns: 0 from the browser process after its whole life, -1 from a process of any other type, which the
  delegate does not know. Nothing is left over: no exit manager, no content client the run made, no thread, no
  \<^verbatim>\<open>QApplication\<close>, no browser process object, the log file closed unless logging could not be set up, and the
  crash check for an early exit switched off again.
\<close>

theorem chrome_main_run:
  assumes "platform_ok P" "exit_managers w = []" "Init to_argv line (process_cl w) = Inr (b, p)"
    and "chrome_fresh w" "GetProcessType (w\<lparr>process_cl := p\<rparr>) = Inr t"
  shows "\<exists>w'. ChromeMain P to_argv line w = Inr (if t = [] then 0 else -1, w') \<and>
    exit_managers w' = [] \<and> lazy_clients w' = lazy_clients w \<and> \<not> crash_on_detach w' \<and> chrome_down (app w')"
proof -
  let ?w = "w\<lparr>crash_on_detach := True\<rparr>"
  have "platform_ok P \<and> chrome_fresh (?w\<lparr>exit_managers := [[]], process_cl := p\<rparr>)"
    using assms(1,4) by (simp add: chrome_fresh_def)
  moreover have "GetProcessType (?w\<lparr>process_cl := p\<rparr>) = Inr t" using assms(5) by (simp add: GetProcessType_def)
  ultimately obtain w1 where "ContentMain to_argv line (chrome_BrowserMain P) (Some (ChromeMainDelegate P)) ?w =
      Inr (if t = [] then 0 else -1, w1)" "exit_managers w1 = []" "lazy_clients w1 = lazy_clients w" "chrome_down (app w1)"
    using chrome.content_main [of ?w to_argv line b p P t] assms(2,3) by auto
  then show ?thesis by (intro exI [of _ "w1\<lparr>crash_on_detach := False\<rparr>"]) (simp add: ChromeMain_def)
qed

text \<open>A platform and a process before its start.\<close>

definition demo_platform :: "(unit, nat) chrome_platform" where
  "demo_platform = \<lparr>plat_log = sample_os, plat_error_text = [], plat_env_api = empty_environment, plat_env = (),
     plat_main = demo_env 0, plat_ui_thread = 1, plat_qt_argv = Some [wide ''a'']\<rparr>"

definition demo_process :: "nat chrome_app content_world" where
  "demo_process = \<lparr>process_cl = \<lparr>switch_prefix_count = 3, current = None\<rparr>, content_client = None, exit_managers = [],
     lazy_clients = [], crash_on_detach = False,
     app = \<lparr>clog = no_chrome_logging 0, browser_threads = no_threads,
            chrome_parts_state = \<lparr>parts_result_code = 0, parts_own_process = False, g_browser_process = None, qt_app = False,
              pump_factory_set = False, unit_tests_posted = 0, main_windows = 0\<rparr>\<rparr>\<rparr>"

lemma demo_Init:
  "Init (\<lambda>_. Some [wide ''a'']) (wide ''a'') (process_cl demo_process) =
    Inr (True, \<lparr>switch_prefix_count = 3, current = Some \<lparr>argv = [wide ''a''], switches = Map.empty, begin_args = 1\<rparr>\<rparr>)"
proof -
  have "TrimAll kWhitespaceUTF16 (wide ''a'') = wide ''a''" "TrimAll kWhitespaceUTF16 (FilePath (wide ''a'')) = wide ''a''"
    "wide ''a'' \<noteq> []" by code_simp+
  then show ?thesis
    by (simp add: demo_process_def Init_def ParseFromString_def InitFromArgv_def AppendSwitchesAndArguments_def SetProgram_def
        no_program_def)
qed

theorem chrome_main_run_witness:
  "\<exists>w'. ChromeMain demo_platform (\<lambda>_. Some [wide ''a'']) (wide ''a'') demo_process = Inr (0, w') \<and>
    exit_managers w' = [] \<and> lazy_clients w' = [] \<and> \<not> crash_on_detach w' \<and> chrome_down (app w')"
proof -
  have p: "platform_ok demo_platform"
    using demo_quits by (simp add: platform_ok_def demo_platform_def sample_os_def) (simp add: demo_env_def posts_keep_threads_def)
  have f: "chrome_fresh demo_process"
    by (auto simp: chrome_fresh_def demo_process_def no_threads_def parts_down_def)
  have t: "GetProcessType (demo_process\<lparr>process_cl := \<lparr>switch_prefix_count = 3,
      current = Some \<lparr>argv = [wide ''a''], switches = Map.empty, begin_args = 1\<rparr>\<rparr>\<rparr>) = Inr []"
    by (simp add: GetProcessType_def ForCurrentProcess_def GetSwitchValueASCII_def GetSwitchValueNative_def UTF16ToASCII_def)
  show ?thesis using chrome_main_run [OF p _ demo_Init f t] by (simp add: demo_process_def)
qed

end
