(* ===== verification/File_Util.thy ===== *)
theory File_Util
  imports File_Path_Props Number_Conversions
begin

text \<open>
  Files (\<^verbatim>\<open>base/files/file_util.cc\<close>, \<^verbatim>\<open>file_util_win.cc\<close>, the error codes of \<^verbatim>\<open>file_win.cc\<close>) and the restrictions
  of threads (\<^verbatim>\<open>base/threading/thread_restrictions.cc\<close>). The calls of Windows and of the C library are parameters over a
  state \<open>'f\<close> of the file system, which every call may change. Handles and streams are numbers; an invalid handle and a
  null stream are \<open>None\<close>. Log messages are left out.
\<close>

subsection \<open>What a thread may do\<close>

record thread_restrictions =
  io_disallowed :: bool
  singleton_disallowed :: bool
  wait_disallowed :: bool

definition SetIOAllowed :: "bool \<Rightarrow> thread_restrictions \<Rightarrow> bool \<times> thread_restrictions" where
  "SetIOAllowed allowed T = (\<not> io_disallowed T, T\<lparr>io_disallowed := \<not> allowed\<rparr>)"

definition AssertIOAllowed :: "thread_restrictions \<Rightarrow> 'a result \<Rightarrow> 'a result" where
  "AssertIOAllowed T k = require (\<not> io_disallowed T) (Fatal ''IO-only function called from a thread that disallows IO'') k"

definition SetSingletonAllowed :: "bool \<Rightarrow> thread_restrictions \<Rightarrow> bool \<times> thread_restrictions" where
  "SetSingletonAllowed allowed T = (\<not> singleton_disallowed T, T\<lparr>singleton_disallowed := \<not> allowed\<rparr>)"

definition AssertSingletonAllowed :: "thread_restrictions \<Rightarrow> 'a result \<Rightarrow> 'a result" where
  "AssertSingletonAllowed T k = require (\<not> singleton_disallowed T) (Fatal ''LazyInstance/Singleton is not allowed'') k"

definition DisallowWaiting :: "thread_restrictions \<Rightarrow> thread_restrictions" where
  "DisallowWaiting T = T\<lparr>wait_disallowed := True\<rparr>"

definition AssertWaitAllowed :: "thread_restrictions \<Rightarrow> 'a result \<Rightarrow> 'a result" where
  "AssertWaitAllowed T k = require (\<not> wait_disallowed T) (Fatal ''Waiting is not allowed'') k"

definition SetWaitAllowed :: "bool \<Rightarrow> thread_restrictions \<Rightarrow> bool \<times> thread_restrictions" where
  "SetWaitAllowed allowed T = (\<not> wait_disallowed T, T\<lparr>wait_disallowed := \<not> allowed\<rparr>)"

subsection \<open>The calls of the system\<close>

text \<open>
  Opening gives a handle or a stream when it succeeds; \<open>fs_write\<close> is the result of \<^verbatim>\<open>::WriteFile\<close> and the number of
  bytes written; \<open>fs_fread\<close> takes the size of the buffer and returns the bytes and the error flag of the stream. The sizes of
  Windows calls, \<^verbatim>\<open>int\<close> or \<^verbatim>\<open>DWORD\<close>, are 32-bit words.
\<close>

record 'f file_system =
  fs_attributes :: "wstring \<Rightarrow> 'f \<Rightarrow> 32 word option \<times> 'f"
  fs_CreateDirectory :: "wstring \<Rightarrow> 'f \<Rightarrow> bool \<times> 'f"
  fs_last_error :: "'f \<Rightarrow> 32 word"
  fs_open_new :: "wstring \<Rightarrow> 'f \<Rightarrow> nat option \<times> 'f"
  fs_open_append :: "wstring \<Rightarrow> 'f \<Rightarrow> nat option \<times> 'f"
  fs_open_existing :: "wstring \<Rightarrow> 'f \<Rightarrow> nat option \<times> 'f"
  fs_read :: "nat \<Rightarrow> 32 word \<Rightarrow> 'f \<Rightarrow> str option \<times> 'f"
  fs_write :: "nat \<Rightarrow> str \<Rightarrow> 'f \<Rightarrow> (bool \<times> 32 word) \<times> 'f"
  fs_close :: "nat \<Rightarrow> 'f \<Rightarrow> 'f"
  fs_fopen :: "wstring \<Rightarrow> 'f \<Rightarrow> nat option \<times> 'f"
  fs_fread :: "nat \<Rightarrow> nat \<Rightarrow> 'f \<Rightarrow> (str \<times> bool) \<times> 'f"
  fs_fclose :: "nat \<Rightarrow> 'f \<Rightarrow> bool \<times> 'f"

definition FILE_ATTRIBUTE_DIRECTORY :: "32 word" where "FILE_ATTRIBUTE_DIRECTORY = 0x10"
definition ERROR_ACCESS_DENIED :: "32 word" where "ERROR_ACCESS_DENIED = 5"
definition ERROR_SHARING_VIOLATION :: "32 word" where "ERROR_SHARING_VIOLATION = 32"
definition ERROR_LOCK_VIOLATION :: "32 word" where "ERROR_LOCK_VIOLATION = 33"
definition ERROR_ALREADY_EXISTS :: "32 word" where "ERROR_ALREADY_EXISTS = 183"

datatype File_Error =
    FILE_OK | FILE_ERROR_FAILED | FILE_ERROR_IN_USE | FILE_ERROR_EXISTS | FILE_ERROR_NOT_FOUND | FILE_ERROR_ACCESS_DENIED
  | FILE_ERROR_TOO_MANY_OPENED | FILE_ERROR_NO_MEMORY | FILE_ERROR_NO_SPACE | FILE_ERROR_NOT_A_DIRECTORY
  | FILE_ERROR_INVALID_OPERATION | FILE_ERROR_SECURITY | FILE_ERROR_ABORT | FILE_ERROR_NOT_A_FILE | FILE_ERROR_NOT_EMPTY
  | FILE_ERROR_INVALID_URL | FILE_ERROR_IO | FILE_ERROR_MAX

definition OSErrorToFileError :: "32 word \<Rightarrow> File_Error" where
  "OSErrorToFileError last_error =
     (if last_error = ERROR_SHARING_VIOLATION then FILE_ERROR_IN_USE
      else if last_error = 80 then FILE_ERROR_EXISTS
      else if last_error = 2 \<or> last_error = 3 then FILE_ERROR_NOT_FOUND
      else if last_error = ERROR_ACCESS_DENIED then FILE_ERROR_ACCESS_DENIED
      else if last_error = 4 then FILE_ERROR_TOO_MANY_OPENED
      else if last_error = 14 \<or> last_error = 8 then FILE_ERROR_NO_MEMORY
      else if last_error = 39 \<or> last_error = 112 \<or> last_error = 314 then FILE_ERROR_NO_SPACE
      else if last_error = 1224 then FILE_ERROR_INVALID_OPERATION
      else if last_error = 21 \<or> last_error = 27 \<or> last_error = 55 \<or> last_error = 1117 \<or> last_error = 1392 \<or> last_error = 1393
      then FILE_ERROR_IO
      else FILE_ERROR_FAILED)"

subsection \<open>Asking\<close>

definition PathExists :: "'f file_system \<Rightarrow> thread_restrictions \<Rightarrow> wstring \<Rightarrow> 'f \<Rightarrow> (bool \<times> 'f) result" where
  "PathExists F T path f = AssertIOAllowed T (let (fileattr, f1) = fs_attributes F path f in Inr (fileattr \<noteq> None, f1))"

definition DirectoryExists :: "'f file_system \<Rightarrow> thread_restrictions \<Rightarrow> wstring \<Rightarrow> 'f \<Rightarrow> (bool \<times> 'f) result" where
  "DirectoryExists F T path f =
     AssertIOAllowed T
       (case fs_attributes F path f of
          (Some fileattr, f1) \<Rightarrow> Inr (fileattr AND FILE_ATTRIBUTE_DIRECTORY \<noteq> 0, f1) | (None, f1) \<Rightarrow> Inr (False, f1))"

definition kMaxUniqueFiles :: nat where "kMaxUniqueFiles = 100"

text \<open>Whether neither the path nor the path with the suffix exists.\<close>

definition unused :: "'f file_system \<Rightarrow> thread_restrictions \<Rightarrow> wstring \<Rightarrow> wstring \<Rightarrow> 'f \<Rightarrow> (bool \<times> 'f) result" where
  "unused F T path suff f =
     rbind (PathExists F T path f) (\<lambda>(ex, f1).
       if ex then Inr (False, f1)
       else if suff = [] then Inr (True, f1)
       else rbind (PathExists F T (path @ suff) f1) (\<lambda>(ex1, f2). Inr (\<not> ex1, f2)))"

fun unique_loop ::
  "'f file_system \<Rightarrow> thread_restrictions \<Rightarrow> wstring \<Rightarrow> wstring \<Rightarrow> nat list \<Rightarrow> 'f \<Rightarrow> (int \<times> 'f) result"
where
  "unique_loop F T path suff [] f = Inr (- 1, f)"
| "unique_loop F T path suff (n # ns) f =
     rbind (IntToString (int n)) (\<lambda>digits.
     rbind (InsertBeforeExtensionASCII path (text8 '' ('' @ digits @ text8 '')'')) (\<lambda>new_path.
     rbind (unused F T new_path suff f) (\<lambda>(ok, f1).
       if ok then Inr (int n, f1) else unique_loop F T path suff ns f1)))"

definition GetUniquePathNumber ::
  "'f file_system \<Rightarrow> thread_restrictions \<Rightarrow> wstring \<Rightarrow> wstring \<Rightarrow> 'f \<Rightarrow> (int \<times> 'f) result"
where
  "GetUniquePathNumber F T path suff f =
     rbind (unused F T path suff f) (\<lambda>(ok, f1).
       if ok then Inr (0, f1) else unique_loop F T path suff [1..<kMaxUniqueFiles + 1] f1)"

subsection \<open>Reading and writing\<close>

definition kBufferSize :: nat where "kBufferSize = 65536"

definition OpenFile_read :: "'f file_system \<Rightarrow> thread_restrictions \<Rightarrow> wstring \<Rightarrow> 'f \<Rightarrow> (nat option \<times> 'f) result" where
  "OpenFile_read F T filename f = AssertIOAllowed T (Inr (fs_fopen F filename f))"

definition CloseFile :: "'f file_system \<Rightarrow> nat \<Rightarrow> 'f \<Rightarrow> bool \<times> 'f" where
  "CloseFile F stream f = fs_fclose F stream f"

text \<open>The loop ends even on a file without end, as \<open>sz\<close> stays below \<open>max_size\<close>.\<close>

function read_loop ::
  "'f file_system \<Rightarrow> nat \<Rightarrow> nat \<Rightarrow> nat \<Rightarrow> str \<Rightarrow> 'f \<Rightarrow> bool \<times> str \<times> 'f"
where
  "read_loop F stream max_size sz contents f =
     (case fs_fread F stream kBufferSize f of
        ((buf, ferror), f1) \<Rightarrow>
          if length buf > 0 then
            let contents1 = contents @ take (min (length buf) (max_size - sz)) buf
            in if max_size - sz < length buf then (False, contents1, f1)
               else read_loop F stream max_size (sz + length buf) contents1 f1
          else (\<not> ferror, contents, f1))"
  by pat_completeness auto
termination
  by (relation "measure (\<lambda>(F, stream, max_size, sz, contents, f). max_size - sz)") (auto simp del: length_greater_0_conv)

declare read_loop.simps [simp del]

definition ReadFileToString_max ::
  "'f file_system \<Rightarrow> thread_restrictions \<Rightarrow> wstring \<Rightarrow> nat \<Rightarrow> 'f \<Rightarrow> (bool \<times> str \<times> 'f) result"
where
  "ReadFileToString_max F T path max_size f =
     (if ReferencesParent path then Inr (False, [], f)
      else rbind (OpenFile_read F T path f) (\<lambda>(opened, f1). case opened of
          None \<Rightarrow> Inr (False, [], f1)
        | Some stream \<Rightarrow>
            let (read_status, contents, f2) = read_loop F stream max_size 0 [] f1
            in Inr (read_status, contents, snd (CloseFile F stream f2))))"

definition ReadFileToString ::
  "'f file_system \<Rightarrow> thread_restrictions \<Rightarrow> wstring \<Rightarrow> 'f \<Rightarrow> (bool \<times> str \<times> 'f) result"
where
  "ReadFileToString F T path f = ReadFileToString_max F T path (2 ^ 32 - 1) f"

text \<open>The handles close at the end of the function.\<close>

definition File_ReadFile ::
  "'f file_system \<Rightarrow> thread_restrictions \<Rightarrow> wstring \<Rightarrow> 32 word \<Rightarrow> 'f \<Rightarrow> (str option \<times> 'f) result"
where
  "File_ReadFile F T filename max_size f =
     AssertIOAllowed T
       (case fs_open_existing F filename f of
          (None, f1) \<Rightarrow> Inr (None, f1)
        | (Some h, f1) \<Rightarrow> let (data, f2) = fs_read F h max_size f1 in Inr (data, fs_close F h f2))"

definition File_WriteFile ::
  "'f file_system \<Rightarrow> thread_restrictions \<Rightarrow> wstring \<Rightarrow> str \<Rightarrow> 32 word \<Rightarrow> 'f \<Rightarrow> (32 word \<times> 'f) result"
where
  "File_WriteFile F T filename data len f =
     AssertIOAllowed T
       (case fs_open_new F filename f of
          (None, f1) \<Rightarrow> Inr (- 1, f1)
        | (Some h, f1) \<Rightarrow>
            let ((ok, written), f2) = fs_write F h (take (unat len) data) f1
            in Inr (if ok \<and> written = len then written else - 1, fs_close F h f2))"

definition AppendToFile ::
  "'f file_system \<Rightarrow> thread_restrictions \<Rightarrow> wstring \<Rightarrow> str \<Rightarrow> 32 word \<Rightarrow> 'f \<Rightarrow> (bool \<times> 'f) result"
where
  "AppendToFile F T filename data len f =
     AssertIOAllowed T
       (case fs_open_append F filename f of
          (None, f1) \<Rightarrow> Inr (False, f1)
        | (Some h, f1) \<Rightarrow>
            let ((ok, written), f2) = fs_write F h (take (unat len) data) f1
            in Inr (ok \<and> written = len, fs_close F h f2))"

subsection \<open>Creating a directory\<close>

text \<open>The error goes to the caller's variable when there is one.\<close>

definition set_error :: "File_Error \<Rightarrow> File_Error option \<Rightarrow> File_Error option" where
  "set_error e error = map_option (\<lambda>_. e) error"

text \<open>After the parent exists: the directory itself, which another process may have created meanwhile.\<close>

definition create_leaf ::
  "'f file_system \<Rightarrow> thread_restrictions \<Rightarrow> wstring \<Rightarrow> File_Error option \<Rightarrow> 'f \<Rightarrow> (bool \<times> File_Error option \<times> 'f) result"
where
  "create_leaf F T full_path error f =
     (case fs_CreateDirectory F full_path f of
        (True, f1) \<Rightarrow> Inr (True, error, f1)
      | (False, f1) \<Rightarrow>
          let error_code = fs_last_error F f1
          in rbind (if error_code = ERROR_ALREADY_EXISTS then DirectoryExists F T full_path f1 else Inr (False, f1))
               (\<lambda>(ex, f2). if ex then Inr (True, error, f2) else Inr (False, set_error (OSErrorToFileError error_code) error, f2)))"

function CreateDirectoryAndGetError ::
  "'f file_system \<Rightarrow> thread_restrictions \<Rightarrow> wstring \<Rightarrow> File_Error option \<Rightarrow> 'f \<Rightarrow> (bool \<times> File_Error option \<times> 'f) result"
where
  "CreateDirectoryAndGetError F T full_path error f =
     AssertIOAllowed T
       (case fs_attributes F full_path f of
          (Some fileattr, f1) \<Rightarrow>
            if fileattr AND FILE_ATTRIBUTE_DIRECTORY \<noteq> 0 then Inr (True, error, f1)
            else Inr (False, set_error FILE_ERROR_NOT_A_DIRECTORY error, f1)
        | (None, f1) \<Rightarrow>
            if DirName full_path = full_path then Inr (False, set_error FILE_ERROR_NOT_FOUND error, f1)
            else rbind (CreateDirectoryAndGetError F T (DirName full_path) error f1) (\<lambda>(ok, error1, f2).
              if \<not> ok then require (error1 \<noteq> Some FILE_OK) (Dcheck ''*error != File::FILE_OK'') (Inr (False, error1, f2))
              else create_leaf F T full_path error1 f2))"
  by pat_completeness auto
termination
  by (relation "measure (\<lambda>(F, T, p, error, f). if p = kCurrentDirectory then 0 else Suc (length p))")
    (use DirName_shrinks DirName_current in \<open>auto simp: AssertIOAllowed_def require_def\<close>)

declare CreateDirectoryAndGetError.simps [simp del]

definition CreateDirectory_path :: "'f file_system \<Rightarrow> thread_restrictions \<Rightarrow> wstring \<Rightarrow> 'f \<Rightarrow> (bool \<times> 'f) result" where
  "CreateDirectory_path F T full_path f =
     rbind (CreateDirectoryAndGetError F T full_path None f) (\<lambda>(ok, _, f1). Inr (ok, f1))"

subsection \<open>The directory and its missing parents are created\<close>

text \<open>
  The hypothesis on Windows, while other processes run. \<open>K\<close> gives the entry that a path names, so that two spellings may
  name one entry; \<open>A\<close> is what the attributes of the entries are. Between and within the calls, other processes may
  create the entries of \<open>R\<close>, as files or as directories; an entry that exists stays as it is. A directory is created only at
  an entry that does not exist. When creating fails below a directory, the entry exists and the error is
  \<^verbatim>\<open>ERROR_ALREADY_EXISTS\<close>, or the system denies it with one of the errors \<open>denied\<close> of that entry.
\<close>

definition is_directory :: "32 word option \<Rightarrow> bool" where
  "is_directory a \<longleftrightarrow> (\<exists>x. a = Some x \<and> x AND FILE_ATTRIBUTE_DIRECTORY \<noteq> 0)"

definition grown :: "('f \<Rightarrow> 'k \<Rightarrow> 32 word option) \<Rightarrow> 'k set \<Rightarrow> 'k set \<Rightarrow> 'f \<Rightarrow> 'f \<Rightarrow> bool" where
  "grown A R N f f' \<longleftrightarrow> (\<forall>k. A f' k = A f k \<or> A f k = None \<and> (k \<in> R \<or> k \<in> N \<and> is_directory (A f' k)))"

definition directory_calls ::
  "'f file_system \<Rightarrow> (wstring \<Rightarrow> 'k) \<Rightarrow> ('f \<Rightarrow> 'k \<Rightarrow> 32 word option) \<Rightarrow> 'k set \<Rightarrow> ('k \<Rightarrow> 32 word set) \<Rightarrow> bool"
where
  "directory_calls F K A R denied \<longleftrightarrow>
     (\<forall>p f a f'. fs_attributes F p f = (a, f') \<longrightarrow> a = A f' (K p) \<and> grown A R {} f f') \<and>
     (\<forall>p f f'. fs_CreateDirectory F p f = (True, f') \<longrightarrow>
        A f (K p) = None \<and> is_directory (A f' (K p)) \<and> grown A R {K p} f f') \<and>
     (\<forall>p f f'. fs_CreateDirectory F p f = (False, f') \<longrightarrow> grown A R {} f f' \<and>
        (DirName p \<noteq> p \<longrightarrow> is_directory (A f (K (DirName p))) \<longrightarrow>
           A f' (K p) \<noteq> None \<and> fs_last_error F f' = ERROR_ALREADY_EXISTS \<or> fs_last_error F f' \<in> denied (K p)))"

lemma directory_callsD:
  assumes "directory_calls F K A R denied"
  shows attributesD: "fs_attributes F p f = (a, f') \<Longrightarrow> a = A f' (K p) \<and> grown A R {} f f'"
    and makeD: "fs_CreateDirectory F p f = (True, f') \<Longrightarrow> is_directory (A f' (K p)) \<and> grown A R {K p} f f'"
    and refuseD: "fs_CreateDirectory F p f = (False, f') \<Longrightarrow> grown A R {} f f'"
    and refuse_reasonD: "fs_CreateDirectory F p f = (False, f') \<Longrightarrow> DirName p \<noteq> p \<Longrightarrow> is_directory (A f (K (DirName p))) \<Longrightarrow>
      A f' (K p) \<noteq> None \<and> fs_last_error F f' = ERROR_ALREADY_EXISTS \<or> fs_last_error F f' \<in> denied (K p)"
  using assms unfolding directory_calls_def by blast+

lemma grown_refl: "grown A R N f f"
  by (simp add: grown_def)

lemma grown_trans: "grown A R N f f1 \<Longrightarrow> grown A R N f1 f2 \<Longrightarrow> grown A R N f f2"
  unfolding grown_def by (metis)

lemma grown_before: "grown A R {} f f1 \<Longrightarrow> grown A R N f1 f2 \<Longrightarrow> grown A R N f f2"
  and grown_after: "grown A R N f f1 \<Longrightarrow> grown A R {} f1 f2 \<Longrightarrow> grown A R N f f2"
  unfolding grown_def by (metis empty_iff)+

lemma grown_mono: "grown A R N f f1 \<Longrightarrow> N \<subseteq> N' \<Longrightarrow> grown A R N' f f1"
  unfolding grown_def by blast

lemma grown_more: "grown A R {} f f1 \<Longrightarrow> grown A R N f f1"
  unfolding grown_def by blast

lemma grown_directory: "grown A R N f f' \<Longrightarrow> is_directory (A f k) \<Longrightarrow> is_directory (A f' k)"
  unfolding grown_def is_directory_def by (metis option.distinct(1))

lemma grown_unused: "grown A R N f f' \<Longrightarrow> A f' k = None \<Longrightarrow> A f k = None"
  unfolding grown_def by metis

lemma OSErrorToFileError_fails: "OSErrorToFileError e \<noteq> FILE_OK"
  by (simp add: OSErrorToFileError_def)

text \<open>
  The reasons for which the entry of a path cannot be a directory, and the error of each: it is a file; it is a root or the
  current directory, which is never created, and did not exist; the system denies it; another process has put a file there.
\<close>

definition failure_reason ::
  "(wstring \<Rightarrow> 'k) \<Rightarrow> ('f \<Rightarrow> 'k \<Rightarrow> 32 word option) \<Rightarrow> 'k set \<Rightarrow> ('k \<Rightarrow> 32 word set) \<Rightarrow> 'f \<Rightarrow> 'f \<Rightarrow> wstring \<Rightarrow> File_Error \<Rightarrow> bool"
where
  "failure_reason K A R denied f f' q r \<longleftrightarrow>
     r = FILE_ERROR_NOT_A_DIRECTORY \<and> A f' (K q) \<noteq> None \<and> \<not> is_directory (A f' (K q)) \<or>
     r = FILE_ERROR_NOT_FOUND \<and> DirName q = q \<and> A f (K q) = None \<or>
     r \<in> OSErrorToFileError ` denied (K q) \<or>
     r = FILE_ERROR_FAILED \<and> A f' (K q) \<noteq> None \<and> \<not> is_directory (A f' (K q)) \<and> A f (K q) = None \<and> K q \<in> R"

definition ancestors_of :: "wstring \<Rightarrow> wstring set" where
  "ancestors_of p = range (\<lambda>n. (DirName ^^ n) p)"

text \<open>What a call says: after success and after failure.\<close>

definition directory_result ::
  "(wstring \<Rightarrow> 'k) \<Rightarrow> ('f \<Rightarrow> 'k \<Rightarrow> 32 word option) \<Rightarrow> 'k set \<Rightarrow> ('k \<Rightarrow> 32 word set) \<Rightarrow> wstring \<Rightarrow> File_Error option \<Rightarrow> 'f \<Rightarrow>
    bool \<Rightarrow> File_Error option \<Rightarrow> 'f \<Rightarrow> bool"
where
  "directory_result K A R denied p error f ok e f' \<longleftrightarrow>
     grown A R (K ` ancestors_of p) f f' \<and>
     (if ok then e = error \<and> is_directory (A f' (K p))
      else \<exists>q \<in> ancestors_of p. \<exists>r. failure_reason K A R denied f f' q r \<and> e = map_option (\<lambda>_. r) error)"

lemma ancestors_self [simp]: "p \<in> ancestors_of p"
  unfolding ancestors_of_def by (intro range_eqI [of _ _ 0]) simp

lemma ancestors_up: "ancestors_of (DirName p) \<subseteq> ancestors_of p"
proof
  fix q assume "q \<in> ancestors_of (DirName p)"
  then obtain n where "q = (DirName ^^ Suc n) p" by (auto simp: ancestors_of_def funpow_swap1)
  then show "q \<in> ancestors_of p" unfolding ancestors_of_def by blast
qed

lemma failure_reason_earlier:
  "grown A R N f f1 \<Longrightarrow> failure_reason K A R denied f1 f' q r \<Longrightarrow> failure_reason K A R denied f f' q r"
  using grown_unused [of A R N f f1] unfolding failure_reason_def by blast

lemma failure_reason_error: "failure_reason K A R denied f f' q r \<Longrightarrow> r \<noteq> FILE_OK"
  by (auto simp: failure_reason_def OSErrorToFileError_fails [symmetric])

lemma directory_result_error: "directory_result K A R denied p error f False e f' \<Longrightarrow> e \<noteq> Some FILE_OK"
  unfolding directory_result_def by (auto dest: failure_reason_error)

lemma directory_result_parent:
  assumes "directory_result K A R denied (DirName p) error f1 False e f2" "grown A R {} f f1"
  shows "directory_result K A R denied p error f False e f2"
proof -
  obtain q r where q: "q \<in> ancestors_of (DirName p)" "failure_reason K A R denied f1 f2 q r" "e = map_option (\<lambda>_. r) error"
    and g: "grown A R (K ` ancestors_of (DirName p)) f1 f2"
    using assms(1) by (auto simp: directory_result_def)
  have "grown A R (K ` ancestors_of p) f f2"
    by (rule grown_before [OF assms(2) grown_mono [OF g image_mono [OF ancestors_up]]])
  then show ?thesis using q failure_reason_earlier [OF assms(2) q(2)] ancestors_up [of p] by (auto simp: directory_result_def)
qed

lemma DirectoryExists_runs:
  assumes "directory_calls F K A R denied" "\<not> io_disallowed T"
  shows "\<exists>f'. DirectoryExists F T p f = Inr (is_directory (A f' (K p)), f') \<and> grown A R {} f f'"
proof -
  obtain a f' where a: "fs_attributes F p f = (a, f')" by (cases "fs_attributes F p f")
  then have "DirectoryExists F T p f = Inr (is_directory (A f' (K p)), f')"
    using attributesD [OF assms(1) a] assms(2)
    by (auto simp: DirectoryExists_def AssertIOAllowed_def require_def is_directory_def split: option.split)
  then show ?thesis using attributesD [OF assms(1) a] by blast
qed

text \<open>
  The last step when the parent is a directory: a failure of the system is passed on, unless it is that another process has
  created the directory meanwhile.
\<close>

lemma create_leaf_correct:
  assumes "directory_calls F K A R denied" "\<not> io_disallowed T"
    and "DirName p \<noteq> p" "is_directory (A f (K (DirName p)))"
  shows "\<exists>ok e f'. create_leaf F T p error f = Inr (ok, e, f') \<and> grown A R {K p} f f' \<and>
    (if ok then e = error \<and> is_directory (A f' (K p))
     else \<exists>r. (r \<in> OSErrorToFileError ` denied (K p) \<or> r = FILE_ERROR_FAILED \<and> A f' (K p) \<noteq> None \<and> \<not> is_directory (A f' (K p))) \<and>
       e = map_option (\<lambda>_. r) error)"
proof (cases "fs_CreateDirectory F p f")
  case (Pair made f1)
  show ?thesis
  proof (cases made)
    case True
    then show ?thesis using makeD [OF assms(1), of p f f1] Pair by (auto simp: create_leaf_def)
  next
    case False
    note f1 = refuseD [OF assms(1), of p f f1] refuse_reasonD [OF assms(1) _ assms(3,4), of f1]
    show ?thesis
    proof (cases "fs_last_error F f1 = ERROR_ALREADY_EXISTS")
      case same: True
      obtain f2 where f2: "DirectoryExists F T p f1 = Inr (is_directory (A f2 (K p)), f2)" "grown A R {} f1 f2"
        using DirectoryExists_runs [OF assms(1,2)] by blast
      have "grown A R {K p} f f1" using f1(1) False Pair by (simp add: grown_more)
      then have g: "grown A R {K p} f f2" using f2(2) by (rule grown_after)
      have code: "OSErrorToFileError ERROR_ALREADY_EXISTS = FILE_ERROR_FAILED" by code_simp
      have run: "create_leaf F T p error f =
          Inr (if is_directory (A f2 (K p)) then (True, error, f2) else (False, set_error FILE_ERROR_FAILED error, f2))"
        using False Pair same f2(1) code by (simp add: create_leaf_def Let_def)
      have "A f2 (K p) \<noteq> None \<or> ERROR_ALREADY_EXISTS \<in> denied (K p)"
        using f1(2) False Pair same grown_unused [OF f2(2), of "K p"] by (cases "A f2 (K p)") auto
      then have why: "FILE_ERROR_FAILED \<in> OSErrorToFileError ` denied (K p) \<or> A f2 (K p) \<noteq> None"
        unfolding code [symmetric] by blast
      show ?thesis
      proof (cases "is_directory (A f2 (K p))")
        case True
        then show ?thesis using run g by (intro exI [of _ True] exI [of _ error] exI [of _ f2]) simp
      next
        case False
        then have "\<exists>r. (r \<in> OSErrorToFileError ` denied (K p) \<or> r = FILE_ERROR_FAILED \<and> A f2 (K p) \<noteq> None \<and> \<not> is_directory (A f2 (K p))) \<and>
            set_error FILE_ERROR_FAILED error = map_option (\<lambda>_. r) error"
          using why unfolding set_error_def by (intro exI [of _ FILE_ERROR_FAILED]) blast
        then show ?thesis using False run g by (intro exI [of _ False] exI [of _ "set_error FILE_ERROR_FAILED error"] exI [of _ f2]) simp
      qed
    next
      case other: False
      have "create_leaf F T p error f = Inr (False, set_error (OSErrorToFileError (fs_last_error F f1)) error, f1)"
        using False Pair other by (simp add: create_leaf_def Let_def)
      moreover have "fs_last_error F f1 \<in> denied (K p)" using f1(2) False Pair other by auto
      moreover have "grown A R {K p} f f1" using f1(1) False Pair by (simp add: grown_more)
      ultimately show ?thesis by (auto simp: set_error_def)
    qed
  qed
qed

text \<open>
  C17: \<^verbatim>\<open>CreateDirectoryAndGetError\<close> returns for every path without failing an assertion, also when other processes create
  entries at the same time. When it returns true, the path is a directory, which it or another process may have created, and
  the caller's error variable is as it was. When it returns false, the error variable holds the error of a true reason for which
  the path or one of its parents is no directory (\<open>failure_reason\<close>). In both cases it has created directories only,
  and those only at the path and its parents; what had existed is as it was.
\<close>

theorem CreateDirectoryAndGetError_correct:
  assumes "directory_calls F K A R denied" "\<not> io_disallowed T"
  shows "\<exists>ok e f'. CreateDirectoryAndGetError F T p error f = Inr (ok, e, f') \<and> directory_result K A R denied p error f ok e f'"
  using assms
proof (induction F T p error f rule: CreateDirectoryAndGetError.induct)
  case (1 F T p error f)
  note laws = 1(2) and io = 1(3)
  obtain a f1 where a: "fs_attributes F p f = (a, f1)" by (cases "fs_attributes F p f")
  note seen = attributesD [OF laws a, THEN conjunct1] and g1 = attributesD [OF laws a, THEN conjunct2]
  have unseen: "grown A R (K ` ancestors_of p) f f1" using g1 by (rule grown_more)
  show ?case
  proof (cases a)
    case (Some attributes)
    have "CreateDirectoryAndGetError F T p error f =
        (if is_directory a then Inr (True, error, f1) else Inr (False, set_error FILE_ERROR_NOT_A_DIRECTORY error, f1))"
      using Some a io by (subst CreateDirectoryAndGetError.simps) (simp add: AssertIOAllowed_def require_def is_directory_def)
    moreover have "directory_result K A R denied p error f True error f1" if "is_directory a"
      using that seen unseen by (simp add: directory_result_def)
    moreover have "failure_reason K A R denied f f1 p FILE_ERROR_NOT_A_DIRECTORY" if "\<not> is_directory a"
      using that seen Some unfolding failure_reason_def by (metis option.distinct(1))
    then have "directory_result K A R denied p error f False (set_error FILE_ERROR_NOT_A_DIRECTORY error) f1" if "\<not> is_directory a"
      using that unseen unfolding directory_result_def set_error_def by (auto intro: bexI [of _ p])
    ultimately show ?thesis by (cases "is_directory a") auto
  next
    case None
    then have absent: "A f1 (K p) = None" "A f (K p) = None" using seen grown_unused [OF g1] by auto
    show ?thesis
    proof (cases "DirName p = p")
      case True
      then have "CreateDirectoryAndGetError F T p error f = Inr (False, set_error FILE_ERROR_NOT_FOUND error, f1)"
        using None a io by (subst CreateDirectoryAndGetError.simps) (simp add: AssertIOAllowed_def require_def)
      moreover have "failure_reason K A R denied f f1 p FILE_ERROR_NOT_FOUND" using True absent by (simp add: failure_reason_def)
      then have "directory_result K A R denied p error f False (set_error FILE_ERROR_NOT_FOUND error) f1"
        using unseen unfolding directory_result_def set_error_def by (auto intro: bexI [of _ p])
      ultimately show ?thesis by blast
    next
      case below: False
      obtain ok e f2 where parent: "CreateDirectoryAndGetError F T (DirName p) error f1 = Inr (ok, e, f2)"
        and made: "directory_result K A R denied (DirName p) error f1 ok e f2"
        using 1(1) [OF a [unfolded None, symmetric] refl below laws io] by blast
      have run: "CreateDirectoryAndGetError F T p error f =
          (if \<not> ok then require (e \<noteq> Some FILE_OK) (Dcheck ''*error != File::FILE_OK'') (Inr (False, e, f2))
           else create_leaf F T p e f2)"
        using None a below io parent by (subst CreateDirectoryAndGetError.simps) (simp add: AssertIOAllowed_def require_def)
      show ?thesis
      proof (cases ok)
        case False
        then have failed: "directory_result K A R denied (DirName p) error f1 False e f2" using made by simp
        show ?thesis using False run directory_result_error [OF failed] directory_result_parent [OF failed g1] by (simp, blast)
      next
        case True
        have up: "e = error" "is_directory (A f2 (K (DirName p)))" and g2: "grown A R (K ` ancestors_of (DirName p)) f1 f2"
          using made True by (auto simp: directory_result_def)
        obtain leaf e2 f3 where leaf: "create_leaf F T p e f2 = Inr (leaf, e2, f3)" "grown A R {K p} f2 f3"
          "if leaf then e2 = e \<and> is_directory (A f3 (K p))
           else \<exists>r. (r \<in> OSErrorToFileError ` denied (K p) \<or> r = FILE_ERROR_FAILED \<and> A f3 (K p) \<noteq> None \<and> \<not> is_directory (A f3 (K p))) \<and>
             e2 = map_option (\<lambda>_. r) e"
          using create_leaf_correct [OF laws io below up(2)] by blast
        have "grown A R (K ` ancestors_of p) f1 f2" by (rule grown_mono [OF g2 image_mono [OF ancestors_up]])
        moreover have "grown A R (K ` ancestors_of p) f2 f3" by (rule grown_mono [OF leaf(2)]) simp
        ultimately have g: "grown A R (K ` ancestors_of p) f f3" using unseen grown_trans by metis
        have "K p \<in> R" if "A f3 (K p) \<noteq> None" "\<not> is_directory (A f3 (K p))"
          using that g absent(2) unfolding grown_def by metis
        then have "directory_result K A R denied p error f leaf e2 f3"
          using leaf(3) g up(1) absent(2) unfolding directory_result_def failure_reason_def
          by (auto split: if_splits intro!: bexI [of _ p])
        then show ?thesis using True leaf(1) run by simp
      qed
    qed
  qed
qed

subsection \<open>What is written is read\<close>

text \<open>
  The hypothesis on the calls that open, read, write and close, while no other process changes the files. \<open>K\<close> gives the
  file that a path names, \<open>C\<close> the contents of the files, \<open>H\<close> the open handles and streams. A file opened with share
  mode 0 is held by that handle alone: it is opened only when nothing holds the file, and nothing opens it until it is
  closed. A write puts a beginning of the data behind the contents, all of it when it reports its length. The files of
  \<open>readable\<close> are those that this process may open for reading, with a stream for it, and that read without an error.
\<close>

datatype 'k open_file = Exclusive 'k | Shared_Reader 'k nat

primrec held_file :: "'k open_file \<Rightarrow> 'k" where
  "held_file (Exclusive k) = k"
| "held_file (Shared_Reader k pos) = k"

definition opens_alone ::
  "(wstring \<Rightarrow> 'f \<Rightarrow> nat option \<times> 'f) \<Rightarrow> (wstring \<Rightarrow> 'k) \<Rightarrow> ('f \<Rightarrow> 'k \<Rightarrow> str option) \<Rightarrow> ('f \<Rightarrow> nat \<Rightarrow> 'k open_file option) \<Rightarrow> bool \<Rightarrow> bool"
where
  "opens_alone opener K C H create \<longleftrightarrow>
     (\<forall>p f f'. opener p f = (None, f') \<longrightarrow> C f' = C f \<and> H f' = H f) \<and>
     (\<forall>p f h f'. opener p f = (Some h, f') \<longrightarrow>
        H f h = None \<and> (\<forall>x \<in> ran (H f). held_file x \<noteq> K p) \<and> H f' = (H f)(h \<mapsto> Exclusive (K p)) \<and>
        (if create then C f' = (C f)(K p \<mapsto> []) else C f' = C f \<and> C f (K p) \<noteq> None))"

definition writes :: "'f file_system \<Rightarrow> ('f \<Rightarrow> 'k \<Rightarrow> str option) \<Rightarrow> ('f \<Rightarrow> nat \<Rightarrow> 'k open_file option) \<Rightarrow> bool" where
  "writes F C H \<longleftrightarrow>
     (\<forall>h data f k old ok n f'. H f h = Some (Exclusive k) \<longrightarrow> C f k = Some old \<longrightarrow> fs_write F h data f = ((ok, n), f') \<longrightarrow>
        H f' = H f \<and> (\<exists>m \<le> length data. C f' = (C f)(k \<mapsto> old @ take m data) \<and> (ok \<longrightarrow> unat n = m))) \<and>
     (\<forall>h f k. H f h = Some (Exclusive k) \<longrightarrow> C (fs_close F h f) = C f \<and> H (fs_close F h f) = (H f)(h := None))"

definition reads ::
  "'f file_system \<Rightarrow> (wstring \<Rightarrow> 'k) \<Rightarrow> ('f \<Rightarrow> 'k \<Rightarrow> str option) \<Rightarrow> ('f \<Rightarrow> nat \<Rightarrow> 'k open_file option) \<Rightarrow> 'k set \<Rightarrow> bool"
where
  "reads F K C H readable \<longleftrightarrow>
     (\<forall>p f f'. fs_fopen F p f = (None, f') \<longrightarrow>
        C f' = C f \<and> H f' = H f \<and> (K p \<notin> readable \<or> C f (K p) = None \<or> Exclusive (K p) \<in> ran (H f))) \<and>
     (\<forall>p f s f'. fs_fopen F p f = (Some s, f') \<longrightarrow>
        C f' = C f \<and> H f s = None \<and> C f (K p) \<noteq> None \<and> Exclusive (K p) \<notin> ran (H f) \<and>
        H f' = (H f)(s \<mapsto> Shared_Reader (K p) 0)) \<and>
     (\<forall>s n f k pos data r f'. H f s = Some (Shared_Reader k pos) \<longrightarrow> C f k = Some data \<longrightarrow> k \<in> readable \<longrightarrow> fs_fread F s n f = (r, f') \<longrightarrow>
        r = (take n (drop pos data), False) \<and> C f' = C f \<and> H f' = (H f)(s \<mapsto> Shared_Reader k (min (pos + n) (length data)))) \<and>
     (\<forall>s f k pos. H f s = Some (Shared_Reader k pos) \<longrightarrow>
        C (snd (fs_fclose F s f)) = C f \<and> H (snd (fs_fclose F s f)) = (H f)(s := None))"

definition file_calls ::
  "'f file_system \<Rightarrow> (wstring \<Rightarrow> 'k) \<Rightarrow> ('f \<Rightarrow> 'k \<Rightarrow> str option) \<Rightarrow> ('f \<Rightarrow> nat \<Rightarrow> 'k open_file option) \<Rightarrow> 'k set \<Rightarrow> bool"
where
  "file_calls F K C H readable \<longleftrightarrow>
     opens_alone (fs_open_new F) K C H True \<and> opens_alone (fs_open_append F) K C H False \<and> writes F C H \<and> reads F K C H readable"

lemma opens_aloneD:
  assumes "opens_alone opener K C H create"
  shows refusedD: "opener p f = (None, f') \<Longrightarrow> C f' = C f \<and> H f' = H f"
    and openedD: "opener p f = (Some h, f') \<Longrightarrow> H f h = None \<and> (\<forall>x \<in> ran (H f). held_file x \<noteq> K p) \<and>
      H f' = (H f)(h \<mapsto> Exclusive (K p)) \<and> (if create then C f' = (C f)(K p \<mapsto> []) else C f' = C f \<and> C f (K p) \<noteq> None)"
  using assms unfolding opens_alone_def by blast+

lemma file_callsD:
  assumes "file_calls F K C H readable"
  shows open_newD: "opens_alone (fs_open_new F) K C H True" and open_appendD: "opens_alone (fs_open_append F) K C H False"
    and writesD: "writes F C H" and readsD: "reads F K C H readable"
  using assms by (simp_all add: file_calls_def)

lemma writeD:
  "writes F C H \<Longrightarrow> H f h = Some (Exclusive k) \<Longrightarrow> C f k = Some old \<Longrightarrow> fs_write F h data f = ((ok, n), f') \<Longrightarrow>
     H f' = H f \<and> (\<exists>m \<le> length data. C f' = (C f)(k \<mapsto> old @ take m data) \<and> (ok \<longrightarrow> unat n = m))"
  unfolding writes_def by blast

lemma closeD:
  "writes F C H \<Longrightarrow> H f h = Some (Exclusive k) \<Longrightarrow> C (fs_close F h f) = C f \<and> H (fs_close F h f) = (H f)(h := None)"
  unfolding writes_def by blast

lemma fopen_refusedD:
  "reads F K C H readable \<Longrightarrow> fs_fopen F p f = (None, f') \<Longrightarrow> K p \<notin> readable \<or> C f (K p) = None \<or> Exclusive (K p) \<in> ran (H f)"
  unfolding reads_def by blast

lemma fopen_openedD:
  "reads F K C H readable \<Longrightarrow> fs_fopen F p f = (Some s, f') \<Longrightarrow>
     C f' = C f \<and> H f s = None \<and> H f' = (H f)(s \<mapsto> Shared_Reader (K p) 0)"
  unfolding reads_def by blast

lemma fopenD:
  assumes "reads F K C H readable" "C f (K p) \<noteq> None" "K p \<in> readable" "Exclusive (K p) \<notin> ran (H f)"
  shows "\<exists>s f'. fs_fopen F p f = (Some s, f') \<and> C f' = C f \<and> H f s = None \<and> H f' = (H f)(s \<mapsto> Shared_Reader (K p) 0)"
proof -
  obtain opened f' where o: "fs_fopen F p f = (opened, f')" by (cases "fs_fopen F p f")
  show ?thesis
  proof (cases opened)
    case None
    then show ?thesis using fopen_refusedD [OF assms(1) o [unfolded None]] assms(2-4) by blast
  next
    case (Some s)
    then show ?thesis using fopen_openedD [OF assms(1)] o by blast
  qed
qed

lemma freadD:
  "reads F K C H readable \<Longrightarrow> H f s = Some (Shared_Reader k pos) \<Longrightarrow> C f k = Some data \<Longrightarrow> k \<in> readable \<Longrightarrow>
     fs_fread F s sz f = (r, f') \<Longrightarrow>
     r = (take sz (drop pos data), False) \<and> C f' = C f \<and> H f' = (H f)(s \<mapsto> Shared_Reader k (min (pos + sz) (length data)))"
  unfolding reads_def by blast

lemma fcloseD:
  "reads F K C H readable \<Longrightarrow> H f s = Some (Shared_Reader k pos) \<Longrightarrow>
     C (snd (fs_fclose F s f)) = C f \<and> H (snd (fs_fclose F s f)) = (H f)(s := None)"
  unfolding reads_def by blast

lemma read_loop_reads:
  assumes "reads F K C H readable" "H f s = Some (Shared_Reader k sz)" "C f k = Some data" "k \<in> readable"
    and "sz \<le> length data" "sz \<le> max_size"
  shows "\<exists>f' pos. read_loop F s max_size sz (take sz data) f = (length data \<le> max_size, take max_size data, f') \<and> C f' = C f \<and>
    H f' = (H f)(s \<mapsto> Shared_Reader k pos)"
  using assms
proof (induction "length data - sz" arbitrary: sz f rule: less_induct)
  case less
  obtain f1 where r: "fs_fread F s kBufferSize f = ((take kBufferSize (drop sz data), False), f1)" "C f1 = C f"
    "H f1 = (H f)(s \<mapsto> Shared_Reader k (min (sz + kBufferSize) (length data)))"
    using freadD [OF less.prems(1-4)] by (metis prod.exhaust)
  define buf where "buf = take kBufferSize (drop sz data)"
  have size: "length buf = min kBufferSize (length data - sz)" by (simp add: buf_def)
  have at: "min (sz + kBufferSize) (length data) = sz + length buf" using size less.prems(5) by simp
  have more: "take sz data @ take n buf = take (sz + n) data" if "n \<le> length buf" for n
    using that by (simp add: buf_def take_add min_absorb1)
  show ?case
  proof (cases "sz = length data")
    case True
    then show ?thesis using r less.prems(6)
      by (intro exI [of _ f1] exI [of _ "min (sz + kBufferSize) (length data)"]) (subst read_loop.simps, simp)
  next
    case False
    then have pos: "0 < length buf" using size less.prems(5) by (simp add: kBufferSize_def)
    show ?thesis
    proof (cases "max_size - sz < length buf")
      case True
      then have "max_size < length data" "take sz data @ take (min (length buf) (max_size - sz)) buf = take max_size data"
        using size less.prems(5,6) more [of "max_size - sz"] by auto
      then have "read_loop F s max_size sz (take sz data) f = (length data \<le> max_size, take max_size data, f1)"
        using True r(1) pos by (subst read_loop.simps) (simp add: Let_def flip: buf_def)
      then show ?thesis using r(2,3) by blast
    next
      case False
      then have n: "sz + length buf \<le> length data" "sz + length buf \<le> max_size" using size less.prems(5,6) by auto
      have step: "read_loop F s max_size sz (take sz data) f =
          read_loop F s max_size (sz + length buf) (take (sz + length buf) data) f1"
        using False r(1) pos more [of "length buf"] by (subst read_loop.simps) (simp add: Let_def min_absorb1 flip: buf_def)
      have "\<exists>f' pos. read_loop F s max_size (sz + length buf) (take (sz + length buf) data) f1 =
          (length data \<le> max_size, take max_size data, f') \<and> C f' = C f1 \<and> H f' = (H f1)(s \<mapsto> Shared_Reader k pos)"
        using less.prems(1,3,4) n pos r(2,3) less.prems(5) at by (intro less.hyps) (auto simp del: length_greater_0_conv)
      then show ?thesis unfolding step using r(2,3) by auto
    qed
  qed
qed

text \<open>
  \<^verbatim>\<open>ReadFileToString\<close> reads a file in pieces of 64 KB: all of it, or its first \<open>max_size\<close> bytes, and only then returns
  false. The file is closed on both ways.
\<close>

theorem ReadFileToString_max_reads:
  assumes "file_calls F K C H readable" "\<not> io_disallowed T" "\<not> ReferencesParent path"
    and "C f (K path) = Some data" "K path \<in> readable" "Exclusive (K path) \<notin> ran (H f)"
  shows "\<exists>f'. ReadFileToString_max F T path max_size f = Inr (length data \<le> max_size, take max_size data, f') \<and> C f' = C f \<and> H f' = H f"
proof -
  note calls = readsD [OF assms(1)]
  obtain s f1 where s: "fs_fopen F path f = (Some s, f1)" "C f1 = C f" "H f s = None" "H f1 = (H f)(s \<mapsto> Shared_Reader (K path) 0)"
    using fopenD [OF calls _ assms(5,6)] assms(4) by auto
  then obtain f2 pos where f2: "read_loop F s max_size 0 [] f1 = (length data \<le> max_size, take max_size data, f2)" "C f2 = C f"
      "H f2 = (H f)(s \<mapsto> Shared_Reader (K path) pos)"
    using read_loop_reads [OF calls, of f1 s "K path" 0 data max_size] assms(4,5) by auto
  have "H (snd (fs_fclose F s f2)) = H f" "C (snd (fs_fclose F s f2)) = C f"
    using fcloseD [OF calls, of f2 s "K path" pos] f2(2,3) s(3) by (auto simp: fun_eq_iff)
  then show ?thesis using s(1) f2(1) assms(2,3)
    by (simp add: ReadFileToString_max_def OpenFile_read_def AssertIOAllowed_def require_def CloseFile_def)
qed

lemma ReadFileToString_reads:
  assumes "file_calls F K C H readable" "\<not> io_disallowed T" "\<not> ReferencesParent path"
    and "C f (K path) = Some data" "K path \<in> readable" "Exclusive (K path) \<notin> ran (H f)" "length data < 2 ^ 32"
  shows "\<exists>f'. ReadFileToString F T path f = Inr (True, data, f') \<and> C f' = C f \<and> H f' = H f"
  using ReadFileToString_max_reads [OF assms(1-6), of "2 ^ 32 - 1"] assms(7) by (simp add: ReadFileToString_def)

text \<open>Whether the system opens the file and takes all of the data.\<close>

definition system_takes :: "(wstring \<Rightarrow> 'f \<Rightarrow> nat option \<times> 'f) \<Rightarrow> 'f file_system \<Rightarrow> wstring \<Rightarrow> str \<Rightarrow> 'f \<Rightarrow> bool" where
  "system_takes opener F path data f \<longleftrightarrow>
     (\<exists>h f1 f2. opener path f = (Some h, f1) \<and> fs_write F h data f1 = ((True, of_nat (length data)), f2))"

lemma written_and_closed:
  assumes "file_calls F K C H readable" "opens_alone opener K C H create" "opener path f = (Some h, f1)"
    and "C f1 (K path) = Some old" "fs_write F h data f1 = ((ok, n), f2)" "length data < 2 ^ 32"
  shows "H (fs_close F h f2) = H f" "\<exists>m. C (fs_close F h f2) = (C f1)(K path \<mapsto> old @ take m data)"
    "ok \<Longrightarrow> n = of_nat (length data) \<Longrightarrow> C (fs_close F h f2) = (C f1)(K path \<mapsto> old @ data)"
    "system_takes opener F path data f \<longleftrightarrow> ok \<and> n = of_nat (length data)"
proof -
  note o = openedD [OF assms(2,3)]
  have h: "H f1 h = Some (Exclusive (K path))" using o by simp
  obtain m where m: "H f2 = H f1" "m \<le> length data" "C f2 = (C f1)(K path \<mapsto> old @ take m data)" "ok \<longrightarrow> unat n = m"
    using writeD [OF writesD [OF assms(1)] h assms(4,5)] by blast
  have c: "C (fs_close F h f2) = C f2" "H (fs_close F h f2) = (H f2)(h := None)"
    using closeD [OF writesD [OF assms(1)], of f2 h "K path"] h m(1) by auto
  show "H (fs_close F h f2) = H f" using c(2) m(1) o by (auto simp: fun_eq_iff)
  show "\<exists>m. C (fs_close F h f2) = (C f1)(K path \<mapsto> old @ take m data)" using c(1) m(3) by auto
  show "C (fs_close F h f2) = (C f1)(K path \<mapsto> old @ data)" if "ok" "n = of_nat (length data)"
  proof -
    have "m = length data" using that m(4) assms(6) by (simp add: unat_of_nat take_bit_nat_eq_self)
    then show ?thesis using c(1) m(3) by simp
  qed
  show "system_takes opener F path data f \<longleftrightarrow> ok \<and> n = of_nat (length data)"
    using assms(3,5) by (auto simp: system_takes_def)
qed

text \<open>
  \<^verbatim>\<open>WriteFile\<close> tells by its result whether the file holds exactly the data; other files are as they were, and no handle is
  left open.
\<close>

lemma File_WriteFile_writes:
  assumes "file_calls F K C H readable" "\<not> io_disallowed T" "unat len = length data" "len \<noteq> - 1"
  shows "\<exists>r f'. File_WriteFile F T path data len f = Inr (r, f') \<and> H f' = H f \<and> (\<forall>k. k \<noteq> K path \<longrightarrow> C f' k = C f k) \<and>
    r = (if system_takes (fs_open_new F) F path data f then len else - 1) \<and>
    (r = len \<longrightarrow> C f' = (C f)(K path \<mapsto> data) \<and> (\<forall>x \<in> ran (H f). held_file x \<noteq> K path))"
proof (cases "fs_open_new F path f")
  case (Pair opened f1)
  note opens = open_newD [OF assms(1)]
  show ?thesis
  proof (cases opened)
    case None
    then have "File_WriteFile F T path data len f = Inr (- 1, f1)"
      using Pair assms(2) by (simp add: File_WriteFile_def AssertIOAllowed_def require_def)
    moreover have "\<not> system_takes (fs_open_new F) F path data f" using Pair None by (simp add: system_takes_def)
    ultimately show ?thesis using refusedD [OF opens, of path f f1] Pair None assms(4) by simp
  next
    case (Some h)
    note o = openedD [OF opens Pair [unfolded Some]]
    have len: "len = of_nat (length data)" "length data < 2 ^ 32"
      using assms(3) unsigned_less [of len] by (simp_all flip: assms(3))
    obtain ok written f2 where w: "fs_write F h data f1 = ((ok, written), f2)" by (metis prod.exhaust)
    have empty: "C f1 (K path) = Some []" using o by simp
    note wc = written_and_closed [OF assms(1) opens Pair [unfolded Some] empty w len(2)]
    have run: "File_WriteFile F T path data len f = Inr (if ok \<and> written = len then written else - 1, fs_close F h f2)"
      using Some Pair w assms(2,3) by (simp add: File_WriteFile_def AssertIOAllowed_def require_def)
    have "\<forall>k. k \<noteq> K path \<longrightarrow> C (fs_close F h f2) k = C f k" using wc(2) o by auto
    moreover have "C (fs_close F h f2) = (C f)(K path \<mapsto> data)" if "ok" "written = len" using wc(3) that len(1) o by (auto simp: fun_eq_iff)
    ultimately show ?thesis unfolding run using wc(1,4) o len(1) assms(4) by auto
  qed
qed

text \<open>\<^verbatim>\<open>AppendToFile\<close> tells by its result whether the data has been put behind the contents of an existing file.\<close>

lemma AppendToFile_appends:
  assumes "file_calls F K C H readable" "\<not> io_disallowed T" "unat len = length data"
  shows "\<exists>ok f'. AppendToFile F T path data len f = Inr (ok, f') \<and> H f' = H f \<and> (\<forall>k. k \<noteq> K path \<longrightarrow> C f' k = C f k) \<and>
    ok = system_takes (fs_open_append F) F path data f \<and> (ok \<longrightarrow> (\<exists>old. C f (K path) = Some old \<and> C f' = (C f)(K path \<mapsto> old @ data)))"
proof (cases "fs_open_append F path f")
  case (Pair opened f1)
  note opens = open_appendD [OF assms(1)]
  show ?thesis
  proof (cases opened)
    case None
    then have "AppendToFile F T path data len f = Inr (False, f1)"
      using Pair assms(2) by (simp add: AppendToFile_def AssertIOAllowed_def require_def)
    moreover have "\<not> system_takes (fs_open_append F) F path data f" using Pair None by (simp add: system_takes_def)
    ultimately show ?thesis using refusedD [OF opens, of path f f1] Pair None by (intro exI [of _ False] exI [of _ f1]) simp
  next
    case (Some h)
    note o = openedD [OF opens Pair [unfolded Some]]
    then obtain old where old: "C f (K path) = Some old" "C f1 = C f" by auto
    have len: "len = of_nat (length data)" "length data < 2 ^ 32"
      using assms(3) unsigned_less [of len] by (simp_all flip: assms(3))
    obtain ok written f2 where w: "fs_write F h data f1 = ((ok, written), f2)" by (metis prod.exhaust)
    note wc = written_and_closed [OF assms(1) opens Pair [unfolded Some] _ w len(2), of old]
    have run: "AppendToFile F T path data len f = Inr (ok \<and> written = len, fs_close F h f2)"
      using Some Pair w assms(2,3) by (simp add: AppendToFile_def AssertIOAllowed_def require_def)
    have "\<forall>k. k \<noteq> K path \<longrightarrow> C (fs_close F h f2) k = C f k" using wc(2) old by auto
    then show ?thesis unfolding run using wc(1,3,4) old len(1) by auto
  qed
qed

subsection \<open>A file system that keeps the hypotheses\<close>

text \<open>
  Attributes and contents by the name of the entry, which is the same for both separators and both cases of a letter; the
  open handles in the order of opening; the last error. A rival creates the directories of \<open>rivals\<close> just before anyone else
  does, and nothing can be created at \<open>sealed\<close>.
\<close>

record disk =
  entries :: "wstring \<Rightarrow> (32 word \<times> str) option"
  handles :: "wstring open_file option list"
  disk_error :: "32 word"

definition entry_name :: "wstring \<Rightarrow> wstring" where
  "entry_name p = map (\<lambda>c. if c = 0x2F then 0x5C else if 0x41 \<le> c \<and> c \<le> 0x5A then c + 0x20 else c) p"

definition attributes_of :: "disk \<Rightarrow> wstring \<Rightarrow> 32 word option" where
  "attributes_of d k = map_option fst (entries d k)"

definition contents_of :: "disk \<Rightarrow> wstring \<Rightarrow> str option" where
  "contents_of d k = (case entries d k of None \<Rightarrow> None | Some (a, data) \<Rightarrow> if is_directory (Some a) then None else Some data)"

definition handle_of :: "disk \<Rightarrow> nat \<Rightarrow> wstring open_file option" where
  "handle_of d h = (if h < length (handles d) then handles d ! h else None)"

definition put_entry :: "wstring \<Rightarrow> 32 word \<Rightarrow> str \<Rightarrow> disk \<Rightarrow> disk" where
  "put_entry k a data d = d\<lparr>entries := (entries d)(k \<mapsto> (a, data))\<rparr>"

definition open_entry :: "wstring open_file \<Rightarrow> disk \<Rightarrow> nat option \<times> disk" where
  "open_entry x d = (Some (length (handles d)), d\<lparr>handles := handles d @ [Some x]\<rparr>)"

definition set_handle :: "nat \<Rightarrow> wstring open_file option \<Rightarrow> disk \<Rightarrow> disk" where
  "set_handle h x d = d\<lparr>handles := (handles d)[h := x]\<rparr>"

definition is_held :: "wstring \<Rightarrow> disk \<Rightarrow> bool" where
  "is_held k d = list_ex (\<lambda>x. case x of None \<Rightarrow> False | Some x \<Rightarrow> held_file x = k) (handles d)"

definition is_held_alone :: "wstring \<Rightarrow> disk \<Rightarrow> bool" where
  "is_held_alone k d = list_ex (\<lambda>x. x = Some (Exclusive k)) (handles d)"

definition disk_make :: "wstring set \<Rightarrow> wstring set \<Rightarrow> wstring \<Rightarrow> disk \<Rightarrow> bool \<times> disk" where
  "disk_make rivals sealed p d =
     (let k = entry_name p; d1 = (if k \<in> rivals \<and> entries d k = None then put_entry k FILE_ATTRIBUTE_DIRECTORY [] d else d)
      in if k \<in> sealed then (False, d\<lparr>disk_error := ERROR_ACCESS_DENIED\<rparr>)
         else if entries d1 k \<noteq> None then (False, d1\<lparr>disk_error := ERROR_ALREADY_EXISTS\<rparr>)
         else if is_directory (attributes_of d1 (entry_name (DirName p))) then (True, put_entry k FILE_ATTRIBUTE_DIRECTORY [] d1)
         else (False, d1\<lparr>disk_error := 3\<rparr>))"

definition disk_write :: "nat \<Rightarrow> str \<Rightarrow> disk \<Rightarrow> (bool \<times> 32 word) \<times> disk" where
  "disk_write h data d =
     (case handle_of d h of
        Some (Exclusive k) \<Rightarrow>
          (case entries d k of
             Some (a, old) \<Rightarrow>
               let part = take (2 ^ 32 - 1) data
               in ((True, of_nat (length part)), put_entry k a (old @ part) d)
           | None \<Rightarrow> ((False, 0), d))
      | _ \<Rightarrow> ((False, 0), d))"

definition disk_fread :: "nat \<Rightarrow> nat \<Rightarrow> disk \<Rightarrow> (str \<times> bool) \<times> disk" where
  "disk_fread s n d =
     (case handle_of d s of
        Some (Shared_Reader k pos) \<Rightarrow>
          (case contents_of d k of
             Some data \<Rightarrow> ((take n (drop pos data), False), set_handle s (Some (Shared_Reader k (min (pos + n) (length data)))) d)
           | None \<Rightarrow> (([], True), d))
      | _ \<Rightarrow> (([], True), d))"

definition disk_system :: "wstring set \<Rightarrow> wstring set \<Rightarrow> disk file_system" where
  "disk_system rivals sealed = \<lparr>
     fs_attributes = (\<lambda>p d. (attributes_of d (entry_name p), d)),
     fs_CreateDirectory = disk_make rivals sealed,
     fs_last_error = disk_error,
     fs_open_new = (\<lambda>p d. let k = entry_name p in
       if is_directory (attributes_of d k) \<or> is_held k d then (None, d) else open_entry (Exclusive k) (put_entry k 0 [] d)),
     fs_open_append = (\<lambda>p d. let k = entry_name p in
       if contents_of d k = None \<or> is_held k d then (None, d) else open_entry (Exclusive k) d),
     fs_open_existing = (\<lambda>p d. let k = entry_name p in
       if contents_of d k = None \<or> is_held_alone k d then (None, d) else open_entry (Shared_Reader k 0) d),
     fs_read = (\<lambda>h n d. let ((buf, err), d1) = disk_fread h (unat n) d in (if err then None else Some buf, d1)),
     fs_write = disk_write,
     fs_close = (\<lambda>h d. set_handle h None d),
     fs_fopen = (\<lambda>p d. let k = entry_name p in
       if contents_of d k = None \<or> is_held_alone k d then (None, d) else open_entry (Shared_Reader k 0) d),
     fs_fread = disk_fread,
     fs_fclose = (\<lambda>s d. (True, set_handle s None d))\<rparr>"

lemma disk_entries [simp]:
  "attributes_of (put_entry k a data d) = (attributes_of d)(k \<mapsto> a)" "entries (put_entry k a data d) = (entries d)(k \<mapsto> (a, data))"
  "handle_of (put_entry k a data d) = handle_of d" "handles (put_entry k a data d) = handles d"
  "\<not> is_directory (Some a) \<Longrightarrow> contents_of (put_entry k a data d) = (contents_of d)(k \<mapsto> data)"
  "attributes_of (d\<lparr>disk_error := e\<rparr>) = attributes_of d" "attributes_of d k = None \<longleftrightarrow> entries d k = None"
  "contents_of (set_handle h x d) = contents_of d"
  by (auto simp: attributes_of_def put_entry_def handle_of_def contents_of_def set_handle_def)

lemma handle_of_set: "handle_of d h \<noteq> None \<Longrightarrow> handle_of (set_handle h x d) = (handle_of d)(h := x)"
  by (auto simp: handle_of_def set_handle_def fun_eq_iff split: if_splits)

lemma open_entry_Some:
  "open_entry x d = (Some h, d') \<longleftrightarrow> h = length (handles d) \<and> d' = d\<lparr>handles := handles d @ [Some x]\<rparr>" "open_entry x d \<noteq> (None, d')"
  by (auto simp: open_entry_def)

lemma handle_of_append: "handle_of (d'\<lparr>handles := handles d @ [x]\<rparr>) = (handle_of d)(length (handles d) := x)"
  by (auto simp: handle_of_def fun_eq_iff nth_append)

lemma handle_of_length [simp]: "handle_of d (length (handles d)) = None"
  by (simp add: handle_of_def)

lemma contents_of_handles [simp]: "contents_of (d\<lparr>handles := hs\<rparr>) = contents_of d"
  by (simp add: contents_of_def fun_eq_iff)

lemma ran_handle_of: "x \<in> ran (handle_of d) \<longleftrightarrow> Some x \<in> set (handles d)"
  by (auto simp: ran_def handle_of_def in_set_conv_nth split: if_splits)

lemma is_held_iff: "is_held k d \<longleftrightarrow> (\<exists>x \<in> ran (handle_of d). held_file x = k)"
  by (auto simp: is_held_def list_ex_iff ran_handle_of split: option.splits)

lemma is_held_alone_iff: "is_held_alone k d \<longleftrightarrow> Exclusive k \<in> ran (handle_of d)"
  by (auto simp: is_held_alone_def list_ex_iff ran_handle_of)

lemma directory_attribute: "is_directory (Some FILE_ATTRIBUTE_DIRECTORY)" "\<not> is_directory (Some 0)" "\<not> is_directory None"
  by (simp_all add: is_directory_def FILE_ATTRIBUTE_DIRECTORY_def)

lemma disk_directory_calls:
  "directory_calls (disk_system rivals sealed) entry_name attributes_of rivals (\<lambda>k. if k \<in> sealed then {ERROR_ACCESS_DENIED} else {})"
  unfolding directory_calls_def
  by (intro conjI allI impI)
    (auto simp: disk_system_def disk_make_def Let_def grown_def directory_attribute simp del: not_None_eq split: if_splits)

lemma disk_opens_alone:
  "opens_alone (fs_open_new (disk_system rivals sealed)) entry_name contents_of handle_of True"
  "opens_alone (fs_open_append (disk_system rivals sealed)) entry_name contents_of handle_of False"
  by (auto simp: opens_alone_def disk_system_def Let_def is_held_iff open_entry_Some handle_of_append directory_attribute
      simp del: not_None_eq split: if_splits)

lemma disk_writes: "writes (disk_system rivals sealed) contents_of handle_of"
proof -
  have "handle_of d' = handle_of d \<and> (\<exists>m \<le> length data. contents_of d' = (contents_of d)(k \<mapsto> old @ take m data) \<and> (ok \<longrightarrow> unat n = m))"
    if "handle_of d h = Some (Exclusive k)" "contents_of d k = Some old" "disk_write h data d = ((ok, n), d')" for h data d k old ok n d'
  proof -
    note prems = that
    obtain a where a: "entries d k = Some (a, old)" "\<not> is_directory (Some a)"
      using prems(2) by (auto simp: contents_of_def split: option.splits if_splits)
    define m where "m = min (length data) (2 ^ 32 - 1)"
    have "n = of_nat m" "d' = put_entry k a (old @ take m data) d" "m < 2 ^ 32"
      using prems(1,3) a(1) by (auto simp: disk_write_def Let_def m_def min_def)
    then show ?thesis using a(2) by (intro conjI exI [of _ m]) (simp_all add: m_def unat_of_nat)
  qed
  then show ?thesis by (auto simp: writes_def disk_system_def handle_of_set)
qed

lemma disk_reads: "reads (disk_system rivals sealed) entry_name contents_of handle_of UNIV"
proof -
  have "r = (take n (drop pos data), False) \<and> contents_of d' = contents_of d \<and>
      handle_of d' = (handle_of d)(s \<mapsto> Shared_Reader k (min (pos + n) (length data)))"
    if "handle_of d s = Some (Shared_Reader k pos)" "contents_of d k = Some data" "disk_fread s n d = (r, d')" for s n d k pos data r d'
    using that by (auto simp: disk_fread_def handle_of_set)
  note read = this
  show ?thesis unfolding reads_def
    by (intro conjI allI impI)
      (auto simp: disk_system_def Let_def is_held_alone_iff open_entry_Some handle_of_append handle_of_set simp del: not_None_eq
        split: if_splits dest: read)
qed

lemma disk_file_calls: "file_calls (disk_system rivals sealed) entry_name contents_of handle_of UNIV"
  by (simp add: file_calls_def disk_opens_alone disk_writes disk_reads)

definition everything_allowed :: thread_restrictions where
  "everything_allowed = \<lparr>io_disallowed = False, singleton_disallowed = False, wait_disallowed = False\<rparr>"

definition wide :: "string \<Rightarrow> wstring" where
  "wide = map (\<lambda>c. of_char c)"

definition new_disk :: disk where
  "new_disk = \<lparr>entries = [entry_name (wide ''C:/'') \<mapsto> (FILE_ATTRIBUTE_DIRECTORY, []), entry_name (wide ''C:/a.txt'') \<mapsto> (0, [])],
     handles = [], disk_error = 0\<rparr>"

theorem CreateDirectoryAndGetError_correct_witness:
  "\<exists>ok e f'. CreateDirectoryAndGetError (disk_system {entry_name (wide ''C:/new'')} {}) everything_allowed (wide ''C:/New/er'')
      (Some FILE_OK) new_disk = Inr (ok, e, f') \<and>
    directory_result entry_name attributes_of {entry_name (wide ''C:/new'')} (\<lambda>k. if k \<in> {} then {ERROR_ACCESS_DENIED} else {})
      (wide ''C:/New/er'') (Some FILE_OK) new_disk ok e f'"
  by (rule CreateDirectoryAndGetError_correct [OF disk_directory_calls]) (simp add: everything_allowed_def)

end
