(* ===== verification/Json_Parser.thy ===== *)
theory Json_Parser
  imports Value_Trees Number_Conversions
begin

text \<open>
  Reading JSON (\<^verbatim>\<open>base/json/json_parser.cc\<close>, \<^verbatim>\<open>json_reader.cc\<close>). The parser walks over the text with a position
  and an index that the code keeps in step by hand; both are kept here. Reading at the end of the text is
  legal for the model and gives \<open>behind\<close>, the byte the memory has there: 0 for the copy the parser makes, any
  byte when it reads the caller's text. The nesting and the loops over elements are recursions with fuel;
  \<open>Json_Parser_Props\<close> shows that it is never used up.
\<close>

subsection \<open>The parser\<close>

datatype JsonParseError =
    JSON_NO_ERROR | JSON_INVALID_ESCAPE | JSON_SYNTAX_ERROR | JSON_UNEXPECTED_TOKEN | JSON_TRAILING_COMMA
  | JSON_TOO_MUCH_NESTING | JSON_UNEXPECTED_DATA_AFTER_ROOT | JSON_UNSUPPORTED_ENCODING | JSON_UNQUOTED_DICTIONARY_KEY

datatype Token =
    T_OBJECT_BEGIN | T_OBJECT_END | T_ARRAY_BEGIN | T_ARRAY_END | T_STRING | T_NUMBER | T_BOOL_TRUE | T_BOOL_FALSE | T_NULL
  | T_LIST_SEPARATOR | T_OBJECT_PAIR_SEPARATOR | T_END_OF_INPUT | T_INVALID_TOKEN

record json_parser =
  json_text :: str
  behind :: byte
  allow_trailing_commas :: bool
  detachable_children :: bool
  pos :: nat
  index :: nat
  stack_depth :: nat
  line_number :: nat
  index_last_line :: nat
  error_code :: JsonParseError
  error_line :: nat
  error_column :: int

definition kStackMaxDepth :: nat where "kStackMaxDepth = 100"

text \<open>The byte at a position, and \<^verbatim>\<open>*pos_\<close>.\<close>

definition byte_at :: "json_parser \<Rightarrow> nat \<Rightarrow> byte" where
  "byte_at p k = (if k < length (json_text p) then json_text p ! k else behind p)"

definition cur :: "json_parser \<Rightarrow> byte" where "cur p = byte_at p (pos p)"

definition advance :: "nat \<Rightarrow> json_parser \<Rightarrow> json_parser" where
  "advance n p = p\<lparr>pos := pos p + n, index := index p + n\<rparr>"

definition CanConsume :: "nat \<Rightarrow> json_parser \<Rightarrow> bool" where
  "CanConsume n p \<longleftrightarrow> pos p + n \<le> length (json_text p)"

definition NextNChars :: "nat \<Rightarrow> json_parser \<Rightarrow> json_parser result" where
  "NextNChars n p = require (CanConsume n p) (Dcheck ''CanConsume(n)'') (Inr (advance n p))"

definition NextChar :: "json_parser \<Rightarrow> json_parser result" where
  "NextChar p = require (CanConsume 1 p) (Dcheck ''CanConsume(1)'') (Inr (advance 1 p))"

definition ReportError :: "JsonParseError \<Rightarrow> int \<Rightarrow> json_parser \<Rightarrow> json_parser" where
  "ReportError code column_adjust p =
     p\<lparr>error_code := code, error_line := line_number p,
       error_column := int (index p) - int (index_last_line p) + column_adjust\<rparr>"

subsection \<open>Spaces, comments, tokens\<close>

text \<open>The two loops of \<^verbatim>\<open>EatComment\<close>; in them \<^verbatim>\<open>CanConsume(1)\<close> has just been tested.\<close>

function eat_line :: "json_parser \<Rightarrow> bool \<times> json_parser" where
  "eat_line p =
     (if CanConsume 1 p then
        (let p1 = advance 1 p in if cur p1 = 0x0A \<or> cur p1 = 0x0D then (True, p1) else eat_line p1)
      else (False, p))"
  by pat_completeness auto
termination
  by (relation "measure (\<lambda>p. length (json_text p) - pos p)") (auto simp: CanConsume_def advance_def)

function eat_block :: "byte \<Rightarrow> json_parser \<Rightarrow> (bool \<times> json_parser) result" where
  "eat_block previous_char p =
     (if CanConsume 1 p then
        (let p1 = advance 1 p
         in if previous_char = 0x2A \<and> cur p1 = 0x2F then rbind (NextChar p1) (\<lambda>p2. Inr (True, p2))
            else eat_block (cur p1) p1)
      else Inr (False, p))"
  by pat_completeness auto
termination
  by (relation "measure (\<lambda>(c, p). length (json_text p) - pos p)") (auto simp: CanConsume_def advance_def)

declare eat_line.simps [simp del] eat_block.simps [simp del]

definition EatComment :: "json_parser \<Rightarrow> (bool \<times> json_parser) result" where
  "EatComment p =
     (if cur p \<noteq> 0x2F \<or> \<not> CanConsume 1 p then Inr (False, p)
      else let p1 = advance 1 p
           in if cur p1 = 0x2F then Inr (eat_line p1)
              else if cur p1 = 0x2A then eat_block 0 p1
              else Inr (False, p1))"

definition count_line :: "json_parser \<Rightarrow> json_parser" where
  "count_line p =
     (let p1 = p\<lparr>index_last_line := index p\<rparr>
      in if \<not> (cur p = 0x0A \<and> 0 < pos p \<and> byte_at p (pos p - 1) = 0x0D)
         then p1\<lparr>line_number := line_number p1 + 1\<rparr> else p1)"

lemma eat_line_moves: "pos p \<le> pos (snd (eat_line p)) \<and> json_text (snd (eat_line p)) = json_text p"
proof (induction p rule: eat_line.induct)
  case (1 p)
  show ?case using 1 by (subst (1 2) eat_line.simps) (auto simp: Let_def advance_def)
qed

lemma eat_block_moves: "eat_block c p = Inr (b, p') \<Longrightarrow> pos p \<le> pos p' \<and> json_text p' = json_text p"
proof (induction c p rule: eat_block.induct)
  case (1 c p)
  show ?case using 1(2) 1(1) [OF _ refl]
    by (subst (asm) eat_block.simps) (auto simp: Let_def advance_def NextChar_def rsimps split: if_splits)
qed

lemma EatComment_moves:
  "EatComment p = Inr (b, p') \<Longrightarrow> pos p \<le> pos p' \<and> json_text p' = json_text p \<and> (b \<longrightarrow> pos p < pos p')"
proof -
  assume a: "EatComment p = Inr (b, p')"
  have "pos (advance 1 p) = Suc (pos p)" "json_text (advance 1 p) = json_text p" by (simp_all add: advance_def)
  then show ?thesis using a eat_line_moves [of "advance 1 p"] eat_block_moves [of 0 "advance 1 p" b p']
    by (auto simp: EatComment_def Let_def split: if_splits)
qed

function EatWhitespaceAndComments :: "json_parser \<Rightarrow> json_parser result" where
  "EatWhitespaceAndComments p =
     (if pos p < length (json_text p) then
        if cur p = 0x0D \<or> cur p = 0x0A then EatWhitespaceAndComments (advance 1 (count_line p))
        else if cur p = 0x20 \<or> cur p = 0x09 then EatWhitespaceAndComments (advance 1 p)
        else if cur p = 0x2F then
          rbind (EatComment p) (\<lambda>(eaten, p1). if \<not> eaten then Inr p1 else EatWhitespaceAndComments p1)
        else Inr p
      else Inr p)"
  by pat_completeness auto
termination
  by (relation "measure (\<lambda>p. length (json_text p) - pos p)")
    (auto simp: advance_def count_line_def Let_def dest!: EatComment_moves)

declare EatWhitespaceAndComments.simps [simp del]

definition token_of :: "byte \<Rightarrow> Token" where
  "token_of c =
     (if c = 0x7B then T_OBJECT_BEGIN else if c = 0x7D then T_OBJECT_END
      else if c = 0x5B then T_ARRAY_BEGIN else if c = 0x5D then T_ARRAY_END
      else if c = 0x22 then T_STRING
      else if 0x30 \<le> c \<and> c \<le> 0x39 \<or> c = 0x2D then T_NUMBER
      else if c = 0x74 then T_BOOL_TRUE else if c = 0x66 then T_BOOL_FALSE else if c = 0x6E then T_NULL
      else if c = 0x2C then T_LIST_SEPARATOR else if c = 0x3A then T_OBJECT_PAIR_SEPARATOR
      else T_INVALID_TOKEN)"

definition GetNextToken :: "json_parser \<Rightarrow> (Token \<times> json_parser) result" where
  "GetNextToken p =
     rbind (EatWhitespaceAndComments p) (\<lambda>p1.
       Inr (if \<not> CanConsume 1 p1 then T_END_OF_INPUT else token_of (cur p1), p1))"

subsection \<open>Strings\<close>

text \<open>The C library's \<^verbatim>\<open>isspace\<close> and the \<^verbatim>\<open>strtod\<close> of \<open>StringToDouble\<close>.\<close>

record json_env =
  isspace8 :: "byte \<Rightarrow> bool"
  strtod :: "str \<Rightarrow> real option \<times> nat \<times> bool"

text \<open>A builder is a piece of the text until it is converted to a string of its own.\<close>

record string_builder =
  sb_pos :: nat
  sb_length :: nat
  sb_string :: "str option"

definition bytes_at :: "json_parser \<Rightarrow> nat \<Rightarrow> nat \<Rightarrow> str" where
  "bytes_at p k n = map (byte_at p) [k..<k + n]"

definition StringBuilder :: "nat \<Rightarrow> string_builder" where
  "StringBuilder k = \<lparr>sb_pos = k, sb_length = 0, sb_string = None\<rparr>"

definition sb_Append :: "byte \<Rightarrow> string_builder \<Rightarrow> string_builder result" where
  "sb_Append c sb =
     require (c < 128) (Dcheck ''c >= 0 && c < 128'')
       (Inr (case sb_string sb of
          Some t \<Rightarrow> sb\<lparr>sb_string := Some (t @ [c])\<rparr> | None \<Rightarrow> sb\<lparr>sb_length := sb_length sb + 1\<rparr>))"

definition sb_AppendString :: "str \<Rightarrow> string_builder \<Rightarrow> string_builder result" where
  "sb_AppendString s sb =
     (case sb_string sb of None \<Rightarrow> Inl (Dcheck ''string_'') | Some t \<Rightarrow> Inr (sb\<lparr>sb_string := Some (t @ s)\<rparr>))"

definition sb_AsString :: "json_parser \<Rightarrow> string_builder \<Rightarrow> str" where
  "sb_AsString p sb = (case sb_string sb of Some t \<Rightarrow> t | None \<Rightarrow> bytes_at p (sb_pos sb) (sb_length sb))"

definition sb_Convert :: "json_parser \<Rightarrow> string_builder \<Rightarrow> string_builder" where
  "sb_Convert p sb = (if sb_string sb = None then sb\<lparr>sb_string := Some (sb_AsString p sb)\<rparr> else sb)"

definition DecodeUTF8 :: "json_parser \<Rightarrow> code_point \<Rightarrow> string_builder \<Rightarrow> string_builder result" where
  "DecodeUTF8 p point dest =
     (if sint point < 0x80 then sb_Append (ucast point) dest
      else sb_AppendString (CBU8_APPEND_UNSAFE point) (sb_Convert p dest))"

text \<open>The units are appended as a string that ends at the first zero byte.\<close>

definition c_string :: "str \<Rightarrow> str" where "c_string s = takeWhile (\<lambda>c. c \<noteq> 0) s"

definition DecodeUTF16_low :: "json_env \<Rightarrow> code_point \<Rightarrow> json_parser \<Rightarrow> (str option \<times> json_parser) result" where
  "DecodeUTF16_low E code_unit16_high p =
     (if \<not> CanConsume 6 p then Inr (None, p)
      else rbind (NextChar p) (\<lambda>p1.
        if cur p1 \<noteq> 0x5C then Inr (None, p1)
        else rbind (NextChar p1) (\<lambda>p2.
          if cur p2 \<noteq> 0x75 then Inr (None, p2)
          else rbind (NextChar p2) (\<lambda>p3.
            case HexStringToInt (isspace8 E) (bytes_at p3 (pos p3) 4) of
              (True, Some low) \<Rightarrow>
                rbind (NextNChars 3 p3) (\<lambda>p4.
                  let code_unit16_low = word_of_int low :: code_point
                  in if code_unit16_low AND 0xfffffc00 \<noteq> 0xdc00 then Inr (None, p4)
                     else Inr (Some (c_string (CBU8_APPEND_UNSAFE
                            (CBU16_GET_SUPPLEMENTARY (ucast code_unit16_high) (ucast code_unit16_low)))), p4))
            | _ \<Rightarrow> Inr (None, p3)))))"

definition DecodeUTF16 :: "json_env \<Rightarrow> json_parser \<Rightarrow> (str option \<times> json_parser) result" where
  "DecodeUTF16 E p =
     (if \<not> CanConsume 4 p then Inr (None, p)
      else case HexStringToInt (isspace8 E) (bytes_at p (pos p) 4) of
          (True, Some high) \<Rightarrow>
            rbind (NextNChars 3 p) (\<lambda>p1.
              let code_unit16_high = word_of_int high :: code_point
              in if CBU_IS_SURROGATE code_unit16_high then
                   (if code_unit16_high AND 0x400 \<noteq> 0 then Inr (None, p1) else DecodeUTF16_low E code_unit16_high p1)
                 else Inr (Some (c_string (CBU8_APPEND_UNSAFE code_unit16_high)), p1))
        | _ \<Rightarrow> Inr (None, p))"

definition simple_escape :: "byte \<Rightarrow> byte option" where
  "simple_escape c =
     (if c = 0x22 then Some 0x22 else if c = 0x5C then Some 0x5C else if c = 0x2F then Some 0x2F
      else if c = 0x62 then Some 0x08 else if c = 0x66 then Some 0x0C else if c = 0x6E then Some 0x0A
      else if c = 0x72 then Some 0x0D else if c = 0x74 then Some 0x09 else if c = 0x76 then Some 0x0B else None)"

text \<open>The three kinds of escapes, at the character after the backslash.\<close>

definition hex_escape :: "json_env \<Rightarrow> string_builder \<Rightarrow> json_parser \<Rightarrow> (string_builder option \<times> json_parser) result" where
  "hex_escape E sb p =
     (if \<not> CanConsume 2 p then Inr (None, ReportError JSON_INVALID_ESCAPE 1 p)
      else rbind (NextChar p) (\<lambda>p1.
        case HexStringToInt (isspace8 E) (bytes_at p1 (pos p1) 2) of
          (True, Some hex_digit) \<Rightarrow>
            rbind (NextChar p1) (\<lambda>p2.
              rbind (if hex_digit < 0x80 then sb_Append (word_of_int hex_digit) sb
                     else DecodeUTF8 p2 (word_of_int hex_digit) sb) (\<lambda>sb1. Inr (Some sb1, p2)))
        | _ \<Rightarrow> Inr (None, ReportError JSON_INVALID_ESCAPE (- 1) p1)))"

definition unit_escape :: "json_env \<Rightarrow> string_builder \<Rightarrow> json_parser \<Rightarrow> (string_builder option \<times> json_parser) result" where
  "unit_escape E sb p =
     (if \<not> CanConsume 5 p then Inr (None, ReportError JSON_INVALID_ESCAPE 0 p)
      else rbind (NextChar p) (\<lambda>p1.
        rbind (DecodeUTF16 E p1) (\<lambda>(utf8_units, p2).
          case utf8_units of
            None \<Rightarrow> Inr (None, ReportError JSON_INVALID_ESCAPE (- 1) p2)
          | Some units \<Rightarrow> rbind (sb_AppendString units sb) (\<lambda>sb1. Inr (Some sb1, p2)))))"

definition ConsumeEscape :: "json_env \<Rightarrow> string_builder \<Rightarrow> json_parser \<Rightarrow> (string_builder option \<times> json_parser) result" where
  "ConsumeEscape E sb p =
     (let sb1 = sb_Convert p sb
      in if \<not> CanConsume 1 p then Inr (None, ReportError JSON_INVALID_ESCAPE 0 p)
         else rbind (NextChar p) (\<lambda>p1.
           if cur p1 = 0x78 then hex_escape E sb1 p1
           else if cur p1 = 0x75 then unit_escape E sb1 p1
           else case simple_escape (cur p1) of
                  Some c \<Rightarrow> rbind (sb_Append c sb1) (\<lambda>sb2. Inr (Some sb2, p1))
                | None \<Rightarrow> Inr (None, ReportError JSON_INVALID_ESCAPE 0 p1)))"

lemma advance_simps [simp]:
  "pos (advance n p) = pos p + n" "index (advance n p) = index p + n" "json_text (advance n p) = json_text p"
  "behind (advance n p) = behind p" "allow_trailing_commas (advance n p) = allow_trailing_commas p"
  "detachable_children (advance n p) = detachable_children p" "stack_depth (advance n p) = stack_depth p"
  "line_number (advance n p) = line_number p" "index_last_line (advance n p) = index_last_line p"
  "error_code (advance n p) = error_code p" "advance n (advance m p) = advance (m + n) p" "advance 0 p = p"
  by (simp_all add: advance_def)

lemma NextChar_advance: "NextChar p = Inr p' \<longleftrightarrow> CanConsume 1 p \<and> p' = advance 1 p"
  by (auto simp: NextChar_def require_def)

lemma NextNChars_advance: "NextNChars n p = Inr p' \<longleftrightarrow> CanConsume n p \<and> p' = advance n p"
  by (auto simp: NextNChars_def require_def)

definition onward :: "json_parser \<Rightarrow> json_parser \<Rightarrow> bool" where
  "onward p p' \<longleftrightarrow> (\<exists>n. p' = advance n p)"

lemma onward_simps [simp]: "onward p p" "onward p (advance n p)"
  by (auto simp: onward_def intro: exI [of _ 0])

lemma onward_trans: "onward (advance n p) p' \<Longrightarrow> onward p p'"
  by (auto simp: onward_def)

lemma DecodeUTF16_low_onward: "DecodeUTF16_low E c p = Inr (r, p') \<Longrightarrow> onward p p'"
  by (auto simp: DecodeUTF16_low_def Let_def rbind_eq_Inr NextChar_advance NextNChars_advance
      split: if_splits prod.splits bool.splits option.splits)

lemma DecodeUTF16_onward: "DecodeUTF16 E p = Inr (r, p') \<Longrightarrow> onward p p'"
  by (auto simp: DecodeUTF16_def Let_def rbind_eq_Inr NextNChars_advance
      split: if_splits prod.splits bool.splits option.splits dest!: DecodeUTF16_low_onward dest: onward_trans)

lemma ConsumeEscape_onward: "ConsumeEscape E sb p = Inr (Some sb', p') \<Longrightarrow> onward p p'"
  by (auto simp: ConsumeEscape_def hex_escape_def unit_escape_def Let_def rbind_eq_Inr NextChar_advance
      split: if_splits prod.splits bool.splits option.splits dest!: DecodeUTF16_onward dest: onward_trans)

definition read_character :: "json_parser \<Rightarrow> code_point \<times> json_parser" where
  "read_character p =
     (let p1 = p\<lparr>pos := index p\<rparr>; (i, next_char) = CBU8_NEXT (json_text p @ [behind p]) (index p) (length (json_text p))
      in (next_char, p1\<lparr>index := i\<rparr>))"

lemma read_character_moves:
  "read_character p = (c, p') \<Longrightarrow>
    json_text p' = json_text p \<and> behind p' = behind p \<and> pos p' = index p \<and> index p < index p'"
  by (auto simp: read_character_def Let_def split: prod.splits dest: CBU8_NEXT_less)

definition append_character :: "json_parser \<Rightarrow> code_point \<Rightarrow> string_builder \<Rightarrow> string_builder result" where
  "append_character p next_char sb =
     (if sint next_char < 0x80 then sb_Append (ucast next_char) sb else DecodeUTF8 p next_char sb)"

function string_loop :: "json_env \<Rightarrow> string_builder \<Rightarrow> json_parser \<Rightarrow> (string_builder option \<times> json_parser) result" where
  "string_loop E sb p =
     (if \<not> CanConsume 1 p then Inr (None, ReportError JSON_SYNTAX_ERROR 0 p)
      else
        case read_character p of
          (next_char, p1) \<Rightarrow>
            if sint next_char < 0 \<or> \<not> IsValidCharacter next_char then Inr (None, ReportError JSON_UNSUPPORTED_ENCODING 1 p1)
            else if next_char = 0x5C then
              rbind (ConsumeEscape E sb p1) (\<lambda>x.
                case x of (None, p2) \<Rightarrow> Inr (None, p2) | (Some sb1, p2) \<Rightarrow> string_loop E sb1 p2)
            else if next_char = 0x22 then Inr (Some sb, p1\<lparr>index := index p1 - 1\<rparr>)
            else rbind (append_character p1 next_char sb) (\<lambda>sb1. string_loop E sb1 p1))"
  by pat_completeness auto
termination
proof (relation "measure (\<lambda>(E, sb, p). if pos p < length (json_text p) then Suc (length (json_text p) - index p) else 0)",
    simp, goal_cases)
  case 1
  then show ?case by (auto simp: CanConsume_def onward_def dest!: ConsumeEscape_onward read_character_moves [OF sym])
next
  case 2
  then show ?case by (auto simp: CanConsume_def dest!: read_character_moves [OF sym])
qed

declare string_loop.simps [simp del]

definition ConsumeStringRaw :: "json_env \<Rightarrow> json_parser \<Rightarrow> (string_builder option \<times> json_parser) result" where
  "ConsumeStringRaw E p =
     (if cur p \<noteq> 0x22 then Inr (None, ReportError JSON_UNEXPECTED_TOKEN 1 p)
      else rbind (NextChar p) (\<lambda>p1. string_loop E (StringBuilder (pos p1)) p1))"

definition ConsumeString :: "json_env \<Rightarrow> json_parser \<Rightarrow> (val option \<times> json_parser) result" where
  "ConsumeString E p =
     rbind (ConsumeStringRaw E p) (\<lambda>(string, p1).
       case string of
         None \<Rightarrow> Inr (None, p1)
       | Some sb \<Rightarrow>
           if sb_string sb = None \<and> \<not> detachable_children p1 then Inr (Some (StringValue (sb_AsString p1 sb)), p1)
           else rbind (new_StringValue (sb_AsString p1 sb)) (\<lambda>v. Inr (Some v, p1)))"

subsection \<open>Numbers and literals\<close>

definition IsAsciiDigit :: "byte \<Rightarrow> bool" where "IsAsciiDigit c \<longleftrightarrow> 0x30 \<le> c \<and> c \<le> 0x39"

function read_digits :: "byte \<Rightarrow> nat \<Rightarrow> json_parser \<Rightarrow> nat \<times> json_parser" where
  "read_digits c len p =
     (if CanConsume 1 p \<and> IsAsciiDigit c then (let p1 = advance 1 p in read_digits (cur p1) (len + 1) p1) else (len, p))"
  by pat_completeness auto
termination
  by (relation "measure (\<lambda>(c, len, p). length (json_text p) - pos p)") (auto simp: CanConsume_def)

declare read_digits.simps [simp del]

definition ReadInt :: "bool \<Rightarrow> json_parser \<Rightarrow> bool \<times> json_parser" where
  "ReadInt allow_leading_zeros p =
     (let first = cur p; (len, p1) = read_digits first 0 p
      in if len = 0 then (False, p1)
         else if \<not> allow_leading_zeros \<and> len > 1 \<and> first = 0x30 then (False, p1)
         else (True, p1))"

text \<open>One part of a number; \<open>end_index\<close> is the index after it.\<close>

definition number_part :: "bool \<Rightarrow> json_parser \<Rightarrow> nat option \<times> json_parser" where
  "number_part allow_leading_zeros p =
     (case ReadInt allow_leading_zeros p of
        (False, p1) \<Rightarrow> (None, ReportError JSON_SYNTAX_ERROR 1 p1) | (True, p1) \<Rightarrow> (Some (index p1), p1))"

definition fraction :: "nat \<Rightarrow> json_parser \<Rightarrow> (nat option \<times> json_parser) result" where
  "fraction end_index p =
     (if cur p = 0x2E then
        if \<not> CanConsume 1 p then Inr (None, ReportError JSON_SYNTAX_ERROR 1 p)
        else rbind (NextChar p) (\<lambda>p1. Inr (number_part True p1))
      else Inr (Some end_index, p))"

definition exponent :: "nat \<Rightarrow> json_parser \<Rightarrow> (nat option \<times> json_parser) result" where
  "exponent end_index p =
     (if cur p = 0x65 \<or> cur p = 0x45 then
        rbind (NextChar p) (\<lambda>p1.
          rbind (if cur p1 = 0x2D \<or> cur p1 = 0x2B then NextChar p1 else Inr p1) (\<lambda>p2. Inr (number_part True p2)))
      else Inr (Some end_index, p))"

text \<open>
  \<^verbatim>\<open>StringToDouble\<close> over the third-party \<^verbatim>\<open>dmg_fp::strtod\<close>, a parameter: for the string up to its terminator it gives the
  double, \<open>None\<close> for an infinite one, the length of the text it has read and whether it has set \<^verbatim>\<open>errno\<close>.
\<close>

definition StringToDouble ::
  "(byte \<Rightarrow> bool) \<Rightarrow> (byte list \<Rightarrow> real option \<times> nat \<times> bool) \<Rightarrow> byte list \<Rightarrow> bool \<times> real option"
where
  "StringToDouble isspace strtod' input =
     (let (output, endptr, errno) = strtod' (takeWhile (\<lambda>c. c \<noteq> 0) input)
      in (\<not> errno \<and> input \<noteq> [] \<and> length input = endptr \<and> \<not> isspace (hd input), output))"

text \<open>\<^verbatim>\<open>StringToDouble\<close> followed by the test for a finite value.\<close>

definition finite_double :: "json_env \<Rightarrow> str \<Rightarrow> real option" where
  "finite_double E num_string =
     (case StringToDouble (isspace8 E) (strtod E) num_string of (True, num_double) \<Rightarrow> num_double | (False, _) \<Rightarrow> None)"

definition number_value_of :: "json_env \<Rightarrow> str \<Rightarrow> val option" where
  "number_value_of E num_string =
     (case StringToInt (isspace8 E) num_string of
        (True, Some num_int) \<Rightarrow> Some (IntegerValue num_int)
      | _ \<Rightarrow> map_option DoubleValue (finite_double E num_string))"

text \<open>The parser looks for the next token and goes back, but not with its count of lines.\<close>

definition end_of_number ::
  "json_env \<Rightarrow> nat \<Rightarrow> nat \<Rightarrow> nat \<Rightarrow> json_parser \<Rightarrow> (val option \<times> json_parser) result"
where
  "end_of_number E num_start start_index end_index p =
     (let exit_pos = pos p - 1; exit_index = index p - 1
      in rbind (GetNextToken p) (\<lambda>(token, p1).
           if token \<in> {T_OBJECT_END, T_ARRAY_END, T_LIST_SEPARATOR, T_END_OF_INPUT} then
             let p2 = p1\<lparr>pos := exit_pos, index := exit_index\<rparr>
             in Inr (number_value_of E (bytes_at p2 num_start (end_index - start_index)), p2)
           else Inr (None, ReportError JSON_SYNTAX_ERROR 1 p1)))"

definition ConsumeNumber :: "json_env \<Rightarrow> json_parser \<Rightarrow> (val option \<times> json_parser) result" where
  "ConsumeNumber E p =
     rbind (if cur p = 0x2D then NextChar p else Inr p) (\<lambda>p1.
       case number_part False p1 of
         (None, p2) \<Rightarrow> Inr (None, p2)
       | (Some end1, p2) \<Rightarrow>
           rbind (fraction end1 p2) (\<lambda>(r, p3).
             case r of
               None \<Rightarrow> Inr (None, p3)
             | Some end2 \<Rightarrow>
                 rbind (exponent end2 p3) (\<lambda>(r, p4).
                   case r of
                     None \<Rightarrow> Inr (None, p4)
                   | Some end3 \<Rightarrow> end_of_number E (pos p) (index p) end3 p4)))"

definition literal :: "str \<Rightarrow> val \<Rightarrow> json_parser \<Rightarrow> (val option \<times> json_parser) result" where
  "literal kLiteral v p =
     (let kLen = length kLiteral
      in if \<not> CanConsume (kLen - 1) p \<or> bytes_at p (pos p) kLen \<noteq> kLiteral
         then Inr (None, ReportError JSON_SYNTAX_ERROR 1 p)
         else rbind (NextNChars (kLen - 1) p) (\<lambda>p1. Inr (Some v, p1)))"

definition ConsumeLiteral :: "json_parser \<Rightarrow> (val option \<times> json_parser) result" where
  "ConsumeLiteral p =
     (if cur p = 0x74 then literal (text8 ''true'') (BooleanValue True) p
      else if cur p = 0x66 then literal (text8 ''false'') (BooleanValue False) p
      else if cur p = 0x6E then literal (text8 ''null'') NullValue p
      else Inr (None, ReportError JSON_UNEXPECTED_TOKEN 1 p))"

subsection \<open>Lists and dictionaries\<close>

type_synonym parse_value = "Token \<Rightarrow> json_parser \<Rightarrow> (val option \<times> json_parser) result"

text \<open>\<^verbatim>\<open>StackMarker\<close>: the depth while the body runs.\<close>

definition with_stack :: "(json_parser \<Rightarrow> (val option \<times> json_parser) result) \<Rightarrow> json_parser \<Rightarrow> (val option \<times> json_parser) result" where
  "with_stack body p =
     (let p1 = p\<lparr>stack_depth := stack_depth p + 1\<rparr>
      in require (stack_depth p1 \<le> kStackMaxDepth) (Dcheck ''*depth_ <= kStackMaxDepth'')
           (rbind (if stack_depth p1 \<ge> kStackMaxDepth then Inr (None, ReportError JSON_TOO_MUCH_NESTING 1 p1) else body p1)
             (\<lambda>(v, p2). Inr (v, p2\<lparr>stack_depth := stack_depth p2 - 1\<rparr>))))"

text \<open>After an element: the token that follows it and its comma.\<close>

definition after_element :: "Token \<Rightarrow> int \<Rightarrow> json_parser \<Rightarrow> (Token option \<times> json_parser) result" where
  "after_element close column_adjust p =
     rbind (NextChar p) (\<lambda>p1.
     rbind (GetNextToken p1) (\<lambda>(token, p2).
       if token = T_LIST_SEPARATOR then
         rbind (NextChar p2) (\<lambda>p3.
         rbind (GetNextToken p3) (\<lambda>(token1, p4).
           if token1 = close \<and> \<not> allow_trailing_commas p4 then Inr (None, ReportError JSON_TRAILING_COMMA 1 p4)
           else Inr (Some token1, p4)))
       else if token \<noteq> close then Inr (None, ReportError JSON_SYNTAX_ERROR column_adjust p2)
       else Inr (Some token, p2)))"

definition no_fuel :: failure where "no_fuel = Fatal ''out of fuel''"

fun list_loop :: "parse_value \<Rightarrow> nat \<Rightarrow> Token \<Rightarrow> val list \<Rightarrow> json_parser \<Rightarrow> (val option \<times> json_parser) result" where
  "list_loop parse 0 token xs p = Inl no_fuel"
| "list_loop parse (Suc n) token xs p =
     (if token = T_ARRAY_END then Inr (Some (ListValue xs), p)
      else rbind (parse token p) (\<lambda>(item, p1).
             case item of
               None \<Rightarrow> Inr (None, p1)
             | Some v \<Rightarrow>
                 rbind (after_element T_ARRAY_END 1 p1) (\<lambda>(token1, p2).
                   case token1 of None \<Rightarrow> Inr (None, p2) | Some t \<Rightarrow> list_loop parse n t (xs @ [v]) p2)))"

text \<open>A key with its separator, up to the token of the value.\<close>

definition ConsumeKey :: "json_env \<Rightarrow> json_parser \<Rightarrow> ((str \<times> Token) option \<times> json_parser) result" where
  "ConsumeKey E p =
     rbind (ConsumeStringRaw E p) (\<lambda>(key, p1).
       case key of
         None \<Rightarrow> Inr (None, p1)
       | Some sb \<Rightarrow>
           rbind (NextChar p1) (\<lambda>p2.
           rbind (GetNextToken p2) (\<lambda>(token, p3).
             if token \<noteq> T_OBJECT_PAIR_SEPARATOR then Inr (None, ReportError JSON_SYNTAX_ERROR 1 p3)
             else rbind (NextChar p3) (\<lambda>p4.
                  rbind (GetNextToken p4) (\<lambda>(token1, p5). Inr (Some (sb_AsString p5 sb, token1), p5))))))"

fun dictionary_loop ::
  "json_env \<Rightarrow> parse_value \<Rightarrow> nat \<Rightarrow> Token \<Rightarrow> dict \<Rightarrow> json_parser \<Rightarrow> (val option \<times> json_parser) result"
where
  "dictionary_loop E parse 0 token d p = Inl no_fuel"
| "dictionary_loop E parse (Suc n) token d p =
     (if token = T_OBJECT_END then Inr (Some (DictionaryValue d), p)
      else if token \<noteq> T_STRING then Inr (None, ReportError JSON_UNQUOTED_DICTIONARY_KEY 1 p)
      else rbind (ConsumeKey E p) (\<lambda>(key, p1).
             case key of
               None \<Rightarrow> Inr (None, p1)
             | Some (k, t) \<Rightarrow>
                 rbind (parse t p1) (\<lambda>(item, p2).
                   case item of
                     None \<Rightarrow> Inr (None, p2)
                   | Some v \<Rightarrow>
                       rbind (after_element T_OBJECT_END 0 p2) (\<lambda>(token1, p3).
                         case token1 of
                           None \<Rightarrow> Inr (None, p3)
                         | Some t1 \<Rightarrow> dictionary_loop E parse n t1 (SetWithoutPathExpansion k v d) p3))))"

definition ConsumeList :: "parse_value \<Rightarrow> json_parser \<Rightarrow> (val option \<times> json_parser) result" where
  "ConsumeList parse p =
     (if cur p \<noteq> 0x5B then Inr (None, ReportError JSON_UNEXPECTED_TOKEN 1 p)
      else with_stack (\<lambda>p1.
             rbind (NextChar p1) (\<lambda>p2.
             rbind (GetNextToken p2) (\<lambda>(token, p3). list_loop parse (length (json_text p) + 2) token [] p3))) p)"

definition ConsumeDictionary :: "json_env \<Rightarrow> parse_value \<Rightarrow> json_parser \<Rightarrow> (val option \<times> json_parser) result" where
  "ConsumeDictionary E parse p =
     (if cur p \<noteq> 0x7B then Inr (None, ReportError JSON_UNEXPECTED_TOKEN 1 p)
      else with_stack (\<lambda>p1.
             rbind (NextChar p1) (\<lambda>p2.
             rbind (GetNextToken p2) (\<lambda>(token, p3). dictionary_loop E parse (length (json_text p) + 2) token [] p3))) p)"

fun ParseToken :: "json_env \<Rightarrow> nat \<Rightarrow> parse_value" where
  "ParseToken E 0 token p = Inl no_fuel"
| "ParseToken E (Suc n) token p =
     (if token = T_OBJECT_BEGIN then ConsumeDictionary E (ParseToken E n) p
      else if token = T_ARRAY_BEGIN then ConsumeList (ParseToken E n) p
      else if token = T_STRING then ConsumeString E p
      else if token = T_NUMBER then ConsumeNumber E p
      else if token \<in> {T_BOOL_TRUE, T_BOOL_FALSE, T_NULL} then ConsumeLiteral p
      else Inr (None, ReportError JSON_UNEXPECTED_TOKEN 1 p))"

subsection \<open>The whole text\<close>

definition JSON_ALLOW_TRAILING_COMMAS :: "32 word" where "JSON_ALLOW_TRAILING_COMMAS = 1"
definition JSON_DETACHABLE_CHILDREN :: "32 word" where "JSON_DETACHABLE_CHILDREN = 2"

definition JSONParser :: "32 word \<Rightarrow> json_parser" where
  "JSONParser options =
     \<lparr>json_text = [], behind = 0, allow_trailing_commas = (options AND JSON_ALLOW_TRAILING_COMMAS \<noteq> 0),
      detachable_children = (options AND JSON_DETACHABLE_CHILDREN \<noteq> 0), pos = 0, index = 0, stack_depth = 0,
      line_number = 0, index_last_line = 0, error_code = JSON_NO_ERROR, error_line = 0, error_column = 0\<rparr>"

definition skip_bom :: "json_parser \<Rightarrow> json_parser result" where
  "skip_bom p =
     (if CanConsume 3 p \<and> bytes_at p (pos p) 3 = [0xEF, 0xBB, 0xBF] then NextNChars 3 p else Inr p)"

definition ends_after_root :: "json_parser \<Rightarrow> (bool \<times> json_parser) result" where
  "ends_after_root p =
     rbind (GetNextToken p) (\<lambda>(token, p1).
       if token \<noteq> T_END_OF_INPUT then
         if \<not> CanConsume 1 p1 then Inr (False, p1)
         else rbind (NextChar p1) (\<lambda>p2. rbind (GetNextToken p2) (\<lambda>(token1, p3). Inr (token1 = T_END_OF_INPUT, p3)))
       else Inr (True, p1))"

text \<open>\<open>memory\<close> is the byte behind the caller's text.\<close>

definition Parse_json :: "json_env \<Rightarrow> byte \<Rightarrow> str \<Rightarrow> json_parser \<Rightarrow> (val option \<times> json_parser) result" where
  "Parse_json E memory input p =
     (let p1 = p\<lparr>json_text := input, behind := (if detachable_children p then memory else 0), pos := 0, index := 0,
                 line_number := 1, index_last_line := 0, error_code := JSON_NO_ERROR, error_line := 0, error_column := 0\<rparr>
      in rbind (skip_bom p1) (\<lambda>p2.
         rbind (GetNextToken p2) (\<lambda>(token, p3).
         rbind (ParseToken E (kStackMaxDepth + 1) token p3) (\<lambda>(root, p4).
           case root of
             None \<Rightarrow> Inr (None, p4)
           | Some v \<Rightarrow>
               rbind (ends_after_root p4) (\<lambda>(ends, p5).
                 if \<not> ends then Inr (None, ReportError JSON_UNEXPECTED_DATA_AFTER_ROOT 1 p5)
                 else if \<not> detachable_children p5 \<and> IsType v TYPE_STRING
                 then rbind (DeepCopy v) (\<lambda>v1. Inr (Some v1, p5))
                 else Inr (Some v, p5))))))"

end
