(* ===== verification/Json_Writer.thy ===== *)
theory Json_Writer
  imports Value_Trees Number_Conversions
begin

text \<open>
  Writing values as JSON (\<^verbatim>\<open>base/json/string_escape.cc\<close>, \<^verbatim>\<open>json_writer.cc\<close>). What is written is appended to the
  string handed in. How a double is printed (\<^verbatim>\<open>dmg_fp\<close>) is a parameter; the messages about binary values are left out.
\<close>

subsection \<open>Escaping\<close>

definition kReplacementCodePoint :: code_point where "kReplacementCodePoint = 0xFFFD"

definition EscapeSpecialCodePoint :: "code_point \<Rightarrow> str \<Rightarrow> str option" where
  "EscapeSpecialCodePoint code_point dest =
     (if code_point = 0x08 then Some (dest @ [0x5C, 0x62])
      else if code_point = 0x0C then Some (dest @ [0x5C, 0x66])
      else if code_point = 0x0A then Some (dest @ [0x5C, 0x6E])
      else if code_point = 0x0D then Some (dest @ [0x5C, 0x72])
      else if code_point = 0x09 then Some (dest @ [0x5C, 0x74])
      else if code_point = 0x5C then Some (dest @ [0x5C, 0x5C])
      else if code_point = 0x22 then Some (dest @ [0x5C, 0x22])
      else if code_point = 0x3C then Some (dest @ [0x5C] @ text8 ''u003C'')
      else None)"

text \<open>\<^verbatim>\<open>\u%04X\<close> of a number below \<^verbatim>\<open>2^16\<close>.\<close>

definition u16_escape :: "code_point \<Rightarrow> str" where
  "u16_escape c = [0x5C, 0x75] @ map (\<lambda>k. kHexChars ! (unat c div k mod 16)) [4096, 256, 16, 1]"

definition escape_code_point :: "code_point \<Rightarrow> str \<Rightarrow> str" where
  "escape_code_point code_point dest =
     (case EscapeSpecialCodePoint code_point dest of
        Some d \<Rightarrow> d
      | None \<Rightarrow> if code_point < 32 then dest @ u16_escape code_point else fst (WriteUnicodeCharacter8 code_point dest))"

function escape_loop8 :: "str \<Rightarrow> nat \<Rightarrow> bool \<Rightarrow> str \<Rightarrow> bool \<times> str" where
  "escape_loop8 s i did_replacement dest =
     (if i < length s then
        case ReadUnicodeCharacter8 s (length s) i of
          (j, Some code_point) \<Rightarrow> escape_loop8 s (j + 1) did_replacement (escape_code_point code_point dest)
        | (j, None) \<Rightarrow> escape_loop8 s (j + 1) True (escape_code_point kReplacementCodePoint dest)
      else (did_replacement, dest))"
  by pat_completeness auto
termination
  by (relation "measure (\<lambda>(s, i, b, dest). length s - i)") (auto dest!: ReadUnicodeCharacter8_le [OF sym])

function escape_loop16 :: "char16 list \<Rightarrow> nat \<Rightarrow> bool \<Rightarrow> str \<Rightarrow> bool \<times> str" where
  "escape_loop16 s i did_replacement dest =
     (if i < length s then
        case ReadUnicodeCharacter16 s (length s) i of
          (j, Some code_point) \<Rightarrow> escape_loop16 s (j + 1) did_replacement (escape_code_point code_point dest)
        | (j, None) \<Rightarrow> escape_loop16 s (j + 1) True (escape_code_point kReplacementCodePoint dest)
      else (did_replacement, dest))"
  by pat_completeness auto
termination
  by (relation "measure (\<lambda>(s, i, b, dest). length s - i)") (auto dest!: ReadUnicodeCharacter16_le [OF sym])

declare escape_loop8.simps [simp del] escape_loop16.simps [simp del]

definition EscapeJSONStringImpl ::
  "('s list \<Rightarrow> nat \<Rightarrow> bool \<Rightarrow> str \<Rightarrow> bool \<times> str) \<Rightarrow> 's list \<Rightarrow> bool \<Rightarrow> str \<Rightarrow> (bool \<times> str) result"
where
  "EscapeJSONStringImpl escape_loop s put_in_quotes dest =
     require (int (length s) \<le> 2147483647) (Check ''str.length() <= kint32max'')
       (let dest1 = (if put_in_quotes then dest @ [0x22] else dest);
            (did_replacement, dest2) = escape_loop s 0 False dest1
        in Inr (\<not> did_replacement, if put_in_quotes then dest2 @ [0x22] else dest2))"

definition EscapeJSONString :: "str \<Rightarrow> bool \<Rightarrow> str \<Rightarrow> (bool \<times> str) result" where
  "EscapeJSONString = EscapeJSONStringImpl escape_loop8"

definition EscapeJSONString16 :: "char16 list \<Rightarrow> bool \<Rightarrow> str \<Rightarrow> (bool \<times> str) result" where
  "EscapeJSONString16 = EscapeJSONStringImpl escape_loop16"

definition GetQuotedJSONString :: "str \<Rightarrow> str result" where
  "GetQuotedJSONString s = rbind (EscapeJSONString s True []) (\<lambda>(ok, dest). require ok (Dcheck ''ok'') (Inr dest))"

definition GetQuotedJSONString16 :: "char16 list \<Rightarrow> str result" where
  "GetQuotedJSONString16 s = rbind (EscapeJSONString16 s True []) (\<lambda>(ok, dest). require ok (Dcheck ''ok'') (Inr dest))"

fun escape_bytes :: "str \<Rightarrow> str \<Rightarrow> str" where
  "escape_bytes [] dest = dest"
| "escape_bytes (c # cs) dest =
     (case EscapeSpecialCodePoint (ucast c) dest of
        Some d \<Rightarrow> escape_bytes cs d
      | None \<Rightarrow> escape_bytes cs (if c < 32 \<or> c > 126 then dest @ u16_escape (ucast c) else dest @ [c]))"

definition EscapeBytesAsInvalidJSONString :: "str \<Rightarrow> bool \<Rightarrow> str" where
  "EscapeBytesAsInvalidJSONString s put_in_quotes =
     (let dest = (if put_in_quotes then [0x22] else []); dest1 = escape_bytes s dest
      in if put_in_quotes then dest1 @ [0x22] else dest1)"

subsection \<open>The writer\<close>

text \<open>The options; \<open>dts\<close> below is \<^verbatim>\<open>DoubleToString\<close>.\<close>

record json_writer =
  omit_binary_values :: bool
  omit_double_type_preservation :: bool
  pretty_print :: bool

definition OPTIONS_OMIT_BINARY_VALUES :: "32 word" where "OPTIONS_OMIT_BINARY_VALUES = 1"
definition OPTIONS_OMIT_DOUBLE_TYPE_PRESERVATION :: "32 word" where "OPTIONS_OMIT_DOUBLE_TYPE_PRESERVATION = 2"
definition OPTIONS_PRETTY_PRINT :: "32 word" where "OPTIONS_PRETTY_PRINT = 4"

definition JSONWriter :: "32 word \<Rightarrow> json_writer" where
  "JSONWriter options =
     \<lparr>omit_binary_values = (options AND OPTIONS_OMIT_BINARY_VALUES \<noteq> 0),
      omit_double_type_preservation = (options AND OPTIONS_OMIT_DOUBLE_TYPE_PRESERVATION \<noteq> 0),
      pretty_print = (options AND OPTIONS_PRETTY_PRINT \<noteq> 0)\<rparr>"

definition kPrettyPrintLineEnding :: str where "kPrettyPrintLineEnding = [0x0D, 0x0A]"

definition IndentLine :: "nat \<Rightarrow> str \<Rightarrow> str" where
  "IndentLine depth json = json @ replicate (depth * 3) 0x20"

text \<open>
  The test compares with \<^verbatim>\<open>kint64max\<close> rounded to a double, which is \<^verbatim>\<open>2^63\<close>; the cast of \<^verbatim>\<open>2^63\<close> itself is
  undefined.
\<close>

definition write_double :: "json_writer \<Rightarrow> (real \<Rightarrow> str) \<Rightarrow> real \<Rightarrow> str result" where
  "write_double W dts x =
     (if omit_double_type_preservation W \<and> x \<le> 2 ^ 63 \<and> x \<ge> - (2 ^ 63) \<and> of_int \<lfloor>x\<rfloor> = x then
        require (\<lfloor>x\<rfloor> < 2 ^ 63) (Fatal ''static_cast<int64> out of range'') (Int64ToString \<lfloor>x\<rfloor>)
      else
        let real = dts x;
            real1 = (if 0x2E \<notin> set real \<and> 0x65 \<notin> set real \<and> 0x45 \<notin> set real then real @ text8 ''.0'' else real);
            real2 = (if real1 \<noteq> [] \<and> hd real1 = 0x2E then 0x30 # real1
                     else if length real1 > 1 \<and> hd real1 = 0x2D \<and> real1 ! 1 = 0x2E then 0x2D # 0x30 # tl real1
                     else real1)
        in Inr real2)"

definition omitted :: "json_writer \<Rightarrow> val \<Rightarrow> bool" where
  "omitted W v \<longleftrightarrow> omit_binary_values W \<and> GetType v = TYPE_BINARY"

text \<open>What is written before an element of a list, and before a key.\<close>

definition list_separator :: "json_writer \<Rightarrow> bool \<Rightarrow> str \<Rightarrow> str" where
  "list_separator W first_value_has_been_output json =
     (if first_value_has_been_output then
        (let json0 = json @ [0x2C] in if pretty_print W then json0 @ [0x20] else json0)
      else json)"

definition dictionary_separator :: "json_writer \<Rightarrow> nat \<Rightarrow> bool \<Rightarrow> str \<Rightarrow> str" where
  "dictionary_separator W depth first_value_has_been_output json =
     (let json1 = (if first_value_has_been_output then
                     (let json0 = json @ [0x2C] in if pretty_print W then json0 @ kPrettyPrintLineEnding else json0)
                   else json)
      in if pretty_print W then IndentLine (depth + 1) json1 else json1)"

definition write_key :: "json_writer \<Rightarrow> str \<Rightarrow> str \<Rightarrow> str result" where
  "write_key W key json =
     rbind (EscapeJSONString key True json) (\<lambda>(_, json1).
       let json2 = json1 @ [0x3A] in Inr (if pretty_print W then json2 @ [0x20] else json2))"

definition open_list :: "json_writer \<Rightarrow> str \<Rightarrow> str" where
  "open_list W json = (if pretty_print W then json @ [0x5B] @ [0x20] else json @ [0x5B])"

definition close_list :: "json_writer \<Rightarrow> str \<Rightarrow> str" where
  "close_list W json = (if pretty_print W then json @ [0x20] else json) @ [0x5D]"

definition open_dictionary :: "json_writer \<Rightarrow> str \<Rightarrow> str" where
  "open_dictionary W json = (if pretty_print W then json @ [0x7B] @ kPrettyPrintLineEnding else json @ [0x7B])"

definition close_dictionary :: "json_writer \<Rightarrow> nat \<Rightarrow> str \<Rightarrow> str" where
  "close_dictionary W depth json = (if pretty_print W then IndentLine depth (json @ kPrettyPrintLineEnding) else json) @ [0x7D]"

fun BuildJSONString :: "json_writer \<Rightarrow> (real \<Rightarrow> str) \<Rightarrow> val \<Rightarrow> nat \<Rightarrow> str \<Rightarrow> (bool \<times> str) result"
  and write_list :: "json_writer \<Rightarrow> (real \<Rightarrow> str) \<Rightarrow> val list \<Rightarrow> nat \<Rightarrow> bool \<Rightarrow> bool \<Rightarrow> str \<Rightarrow> (bool \<times> str) result"
  and write_dictionary :: "json_writer \<Rightarrow> (real \<Rightarrow> str) \<Rightarrow> dict \<Rightarrow> nat \<Rightarrow> bool \<Rightarrow> bool \<Rightarrow> str \<Rightarrow> (bool \<times> str) result"
where
  "BuildJSONString W dts NullValue depth json = Inr (True, json @ text8 ''null'')"
| "BuildJSONString W dts (BooleanValue b) depth json = Inr (True, json @ (if b then text8 ''true'' else text8 ''false''))"
| "BuildJSONString W dts (IntegerValue i) depth json = rbind (IntToString i) (\<lambda>t. Inr (True, json @ t))"
| "BuildJSONString W dts (DoubleValue x) depth json = rbind (write_double W dts x) (\<lambda>t. Inr (True, json @ t))"
| "BuildJSONString W dts (StringValue s) depth json = rbind (EscapeJSONString s True json) (\<lambda>(_, json1). Inr (True, json1))"
| "BuildJSONString W dts (ListValue xs) depth json =
     rbind (write_list W dts xs depth False True (open_list W json)) (\<lambda>(result, json1). Inr (result, close_list W json1))"
| "BuildJSONString W dts (DictionaryValue d) depth json =
     rbind (write_dictionary W dts d depth False True (open_dictionary W json)) (\<lambda>(result, json1).
       Inr (result, close_dictionary W depth json1))"
| "BuildJSONString W dts (BinaryValue b) depth json = Inr (omit_binary_values W, json)"
| "write_list W dts [] depth first result json = Inr (result, json)"
| "write_list W dts (v # vs) depth first result json =
     (if omitted W v then write_list W dts vs depth first result json
      else rbind (BuildJSONString W dts v depth (list_separator W first json)) (\<lambda>(ok, json1).
             write_list W dts vs depth True (ok \<and> result) json1))"
| "write_dictionary W dts [] depth first result json = Inr (result, json)"
| "write_dictionary W dts ((k, v) # d) depth first result json =
     (if omitted W v then write_dictionary W dts d depth first result json
      else rbind (write_key W k (dictionary_separator W depth first json)) (\<lambda>json1.
             rbind (BuildJSONString W dts v (depth + 1) json1) (\<lambda>(ok, json2).
               write_dictionary W dts d depth True (ok \<and> result) json2)))"

definition WriteWithOptions :: "(real \<Rightarrow> str) \<Rightarrow> val \<Rightarrow> 32 word \<Rightarrow> (bool \<times> str) result" where
  "WriteWithOptions dts node options =
     rbind (BuildJSONString (JSONWriter options) dts node 0 []) (\<lambda>(result, json).
       Inr (result, if options AND OPTIONS_PRETTY_PRINT \<noteq> 0 then json @ kPrettyPrintLineEnding else json))"

definition Write :: "(real \<Rightarrow> str) \<Rightarrow> val \<Rightarrow> (bool \<times> str) result" where
  "Write dts node = WriteWithOptions dts node 0"

end
