(* ===== verification/Json_Reader.thy ===== *)
theory Json_Reader
  imports Json_Parser Json_Writer
begin

text \<open>
  The interface of the parser (\<^verbatim>\<open>base/json/json_reader.cc\<close>) and the serializer over reader and writer
  (\<^verbatim>\<open>base/json/json_string_value_serializer.cc\<close>).
\<close>

subsection \<open>The reader\<close>

definition JSON_PARSE_RFC :: "32 word" where "JSON_PARSE_RFC = 0"

fun ErrorCodeToString :: "JsonParseError \<Rightarrow> str" where
  "ErrorCodeToString JSON_NO_ERROR = []"
| "ErrorCodeToString JSON_INVALID_ESCAPE = text8 ''Invalid escape sequence.''"
| "ErrorCodeToString JSON_SYNTAX_ERROR = text8 ''Syntax error.''"
| "ErrorCodeToString JSON_UNEXPECTED_TOKEN = text8 ''Unexpected token.''"
| "ErrorCodeToString JSON_TRAILING_COMMA = text8 ''Trailing comma not allowed.''"
| "ErrorCodeToString JSON_TOO_MUCH_NESTING = text8 ''Too much nesting.''"
| "ErrorCodeToString JSON_UNEXPECTED_DATA_AFTER_ROOT = text8 ''Unexpected data after root element.''"
| "ErrorCodeToString JSON_UNSUPPORTED_ENCODING = text8 ''Unsupported encoding. JSON must be UTF-8.''"
| "ErrorCodeToString JSON_UNQUOTED_DICTIONARY_KEY = text8 ''Dictionary keys must be quoted.''"

definition FormatErrorMessage :: "int \<Rightarrow> int \<Rightarrow> str \<Rightarrow> str result" where
  "FormatErrorMessage line column description =
     (if line \<noteq> 0 \<or> column \<noteq> 0 then
        rbind (IntToString line) (\<lambda>l. rbind (IntToString column) (\<lambda>c.
          Inr (text8 ''Line: '' @ l @ text8 '', column: '' @ c @ text8 '', '' @ description)))
      else Inr description)"

definition GetErrorMessage :: "json_parser \<Rightarrow> str result" where
  "GetErrorMessage p = FormatErrorMessage (int (error_line p)) (error_column p) (ErrorCodeToString (error_code p))"

definition JSONReader_Read :: "json_env \<Rightarrow> byte \<Rightarrow> str \<Rightarrow> 32 word \<Rightarrow> val option result" where
  "JSONReader_Read E memory json options = rbind (Parse_json E memory json (JSONParser options)) (\<lambda>(root, _). Inr root)"

text \<open>The value, or the error code and its message.\<close>

definition ReadAndReturnError ::
  "json_env \<Rightarrow> byte \<Rightarrow> str \<Rightarrow> 32 word \<Rightarrow> ((JsonParseError \<times> str) + val) result"
where
  "ReadAndReturnError E memory json options =
     rbind (Parse_json E memory json (JSONParser options)) (\<lambda>(root, p).
       case root of
         Some v \<Rightarrow> Inr (Inr v)
       | None \<Rightarrow> rbind (GetErrorMessage p) (\<lambda>msg. Inr (Inl (error_code p, msg))))"

text \<open>A reader object keeps its parser, which keeps the options.\<close>

definition ReadToValue :: "json_env \<Rightarrow> byte \<Rightarrow> str \<Rightarrow> json_parser \<Rightarrow> (val option \<times> json_parser) result" where
  "ReadToValue E memory json parser = Parse_json E memory json parser"

subsection \<open>The serializer\<close>

text \<open>A serializer without a string reports failure.\<close>

record json_serializer =
  json_string :: "str option"
  serializer_pretty_print :: bool

definition SerializeInternal :: "(real \<Rightarrow> str) \<Rightarrow> val \<Rightarrow> bool \<Rightarrow> json_serializer \<Rightarrow> (bool \<times> json_serializer) result" where
  "SerializeInternal dts node omit_binary S =
     (if json_string S = None then Inr (False, S)
      else
        let options = 0;
            options1 = (if omit_binary then options OR OPTIONS_OMIT_BINARY_VALUES else options);
            options2 = (if serializer_pretty_print S then options1 OR OPTIONS_PRETTY_PRINT else options1)
        in rbind (WriteWithOptions dts node options2) (\<lambda>(ok, json). Inr (ok, S\<lparr>json_string := Some json\<rparr>)))"

definition Serialize :: "(real \<Rightarrow> str) \<Rightarrow> val \<Rightarrow> json_serializer \<Rightarrow> (bool \<times> json_serializer) result" where
  "Serialize dts node S = SerializeInternal dts node False S"

definition SerializeAndOmitBinaryValues :: "(real \<Rightarrow> str) \<Rightarrow> val \<Rightarrow> json_serializer \<Rightarrow> (bool \<times> json_serializer) result" where
  "SerializeAndOmitBinaryValues dts node S = SerializeInternal dts node True S"

definition Deserialize :: "json_env \<Rightarrow> byte \<Rightarrow> bool \<Rightarrow> str \<Rightarrow> ((JsonParseError \<times> str) + val) result" where
  "Deserialize E memory allow_trailing_comma json =
     ReadAndReturnError E memory json (if allow_trailing_comma then JSON_ALLOW_TRAILING_COMMAS else JSON_PARSE_RFC)"

end
