(* ===== verification/Json_Parser_Props.thy ===== *)
theory Json_Parser_Props
  imports Json_Reader
begin

text \<open>
  Reading a JSON text always ends: the nesting limit and the moves of the parser bound every recursion. The
  lemmas follow the parser from its moves to its values; each says what a call leaves in place and that it
  does not use up its fuel.
\<close>

subsection \<open>A character is read from the text alone\<close>

lemma next_trail_prefix: "i < length t \<Longrightarrow> next_trail (t @ u) (i, c, ill) = next_trail t (i, c, ill)"
  by (simp add: next_trail.simps nth_append)

lemma next_trail_index: "next_trail s (i, c, ill) = (i', c', ill') \<Longrightarrow> i' = i + 1"
  by (simp add: next_trail.simps)

lemma trail_bytes_prefix:
  assumes "0 < n" "i + n \<le> length t"
  shows "trail_bytes (t @ u) n i c = trail_bytes t n i c"
proof -
  consider "n = 1" | "n = 2" | "n = 3" | "4 \<le> n" using assms(1) by linarith
  then show ?thesis
  proof cases
    case 3
    obtain i1 c1 l1 where 1: "next_trail t (i, c, 0) = (i1, c1, l1)" by (metis prod_cases3)
    obtain i2 c2 l2 where 2: "next_trail t (i1, c1, l1) = (i2, c2, l2)" by (metis prod_cases3)
    show ?thesis using assms 3 1 2 next_trail_index [OF 1] next_trail_index [OF 2] by (simp add: trail_bytes_def next_trail_prefix)
  next
    case 2
    obtain i1 c1 l1 where 1: "next_trail t (i, c, 0) = (i1, c1, l1)" by (metis prod_cases3)
    show ?thesis using assms 2 1 next_trail_index [OF 1] by (simp add: trail_bytes_def next_trail_prefix)
  qed (use assms in \<open>simp_all add: trail_bytes_def next_trail_prefix\<close>)
qed

lemma skip_trail_prefix: "i + n \<le> length t \<Longrightarrow> skip_trail (t @ u) i n = skip_trail t i n"
  by (induction t i n rule: skip_trail.induct) (auto simp: nth_append)

lemma CBU8_NEXT_prefix:
  assumes "i < length t"
  shows "CBU8_NEXT (t @ u) i (length t) = CBU8_NEXT t i (length t)"
proof -
  have "utf8_nextCharSafeBody (t @ u) (i + 1) (length t) c (- 1) = utf8_nextCharSafeBody t (i + 1) (length t) c (- 1)" for c
    using assms by (auto simp: utf8_nextCharSafeBody_def Let_def trail_bytes_prefix skip_trail_prefix split: prod.split)
  then show ?thesis using assms by (simp add: CBU8_NEXT_def nth_append)
qed

text \<open>A quote or a backslash is one byte, and behind the text only an ASCII byte is a character.\<close>

lemma utf8_nextCharSafeBody_end:
  "\<not> IsValidCodepoint (snd (utf8_nextCharSafeBody s (Suc n) n (scast (b :: byte)) (- 1)))"
  using body_inv(2) [of s "Suc n" n b] by (cases "utf8_nextCharSafeBody s (Suc n) n (scast b) (- 1)") fastforce

lemma read_character_valid:
  assumes "read_character p = (c, p')" "IsValidCharacter c" "index p \<le> length (json_text p)"
  obtains "index p < length (json_text p)" "index p' \<le> length (json_text p)"
      "take (index p' - index p) (drop (index p) (json_text p)) = CBU8_APPEND_UNSAFE c" "p' = p\<lparr>pos := index p, index := index p'\<rparr>"
  | "index p = length (json_text p)" "behind p < 0x80" "c = ucast (behind p)" "p' = p\<lparr>pos := index p, index := index p + 1\<rparr>"
proof (cases "index p < length (json_text p)")
  case True
  then have "CBU8_NEXT (json_text p) (index p) (length (json_text p)) = (index p', c)" "p' = p\<lparr>pos := index p, index := index p'\<rparr>"
    using assms(1) by (auto simp: read_character_def CBU8_NEXT_prefix split: prod.splits)
  then show ?thesis using CBU8_NEXT_sound [OF True _ character_codepoint [OF assms(2)]] that(1) True by auto
next
  case False
  then have i: "index p = length (json_text p)" using assms(3) by simp
  have valid: "IsValidCodepoint c" using assms(2) by (rule character_codepoint)
  have b: "behind p < 0x80"
  proof (rule ccontr)
    assume "\<not> behind p < 0x80"
    then show False
      using assms(1) i valid sentinel_invalid
        utf8_nextCharSafeBody_end [of "json_text p @ [behind p]" "length (json_text p)" "behind p"]
      by (auto simp: read_character_def CBU8_NEXT_def nth_append split: if_splits prod.splits)
  qed
  then show ?thesis using assms(1) i that(2) scast_ascii(1) [OF b]
    by (auto simp: read_character_def CBU8_NEXT_def nth_append split: if_splits)
qed

subsection \<open>What a call leaves in place\<close>

definition synced :: "json_parser \<Rightarrow> bool" where
  "synced p \<longleftrightarrow> index p = pos p \<and> pos p \<le> length (json_text p)"

definition same :: "json_parser \<Rightarrow> json_parser \<Rightarrow> bool" where
  "same p p' \<longleftrightarrow> json_text p' = json_text p \<and> behind p' = behind p \<and> allow_trailing_commas p' = allow_trailing_commas p \<and>
     detachable_children p' = detachable_children p \<and> stack_depth p' = stack_depth p"

definition fwd :: "json_parser \<Rightarrow> json_parser \<Rightarrow> bool" where
  "fwd p p' \<longleftrightarrow> same p p' \<and> pos p \<le> pos p' \<and> (synced p \<longrightarrow> synced p')"

lemma same_simps [simp]: "same p p" "same p (advance n p)" "same p (p\<lparr>index := i\<rparr>)" "same p (p\<lparr>pos := k\<rparr>)"
    "same p (p\<lparr>pos := k, index := i\<rparr>)" "same p (count_line p)"
    "same p (p\<lparr>line_number := l\<rparr>)" "same p (p\<lparr>index_last_line := i\<rparr>)"
  by (simp_all add: same_def count_line_def Let_def)

lemma same_advance [simp]: "same (advance n p) q \<longleftrightarrow> same p q"
  by (simp add: same_def)

lemma same_trans [trans]: "same p p' \<Longrightarrow> same p' p'' \<Longrightarrow> same p p''"
  by (simp add: same_def)

lemma fwd_refl [simp]: "fwd p p"
  by (simp add: fwd_def)

lemma fwd_trans [trans]: "fwd p p' \<Longrightarrow> fwd p' p'' \<Longrightarrow> fwd p p''"
  by (auto simp: fwd_def intro: same_trans)

lemma fwd_advance: "CanConsume n p \<Longrightarrow> fwd p (advance n p)"
  by (auto simp: fwd_def synced_def CanConsume_def)

lemma fwd_count_line [simp]: "fwd p (count_line p)"
  by (auto simp: fwd_def same_def synced_def count_line_def Let_def)

text \<open>A call ends and its result has a property.\<close>

definition ends :: "'a result \<Rightarrow> ('a \<Rightarrow> bool) \<Rightarrow> bool" where
  "ends r Q \<longleftrightarrow> (case r of Inl e \<Rightarrow> e \<noteq> no_fuel | Inr x \<Rightarrow> Q x)"

lemma ends_Inr [simp]: "ends (Inr x) Q \<longleftrightarrow> Q x"
  by (simp add: ends_def)

lemma ends_Inl [simp]: "ends (Inl e) Q \<longleftrightarrow> e \<noteq> no_fuel"
  by (simp add: ends_def)

lemma Dcheck_fuel [simp]: "Dcheck s \<noteq> no_fuel" "Check s \<noteq> no_fuel"
  by (simp_all add: no_fuel_def)

lemma ends_rbind: "ends m P \<Longrightarrow> (\<And>x. P x \<Longrightarrow> ends (f x) Q) \<Longrightarrow> ends (rbind m f) Q"
  by (cases m) auto

lemma ends_option:
  fixes m :: "('a option \<times> 'b) result"
  assumes "ends m (\<lambda>(r, p'). r \<noteq> None \<longrightarrow> P p')"
    "\<And>p'. ends (f (None, p')) Q" "\<And>x p'. P p' \<Longrightarrow> ends (f (Some x, p')) Q"
  shows "ends (rbind m f) Q"
proof (cases m)
  case (Inr x)
  show ?thesis using assms Inr by (cases x; cases "fst x") auto
qed (use assms(1) in simp)

lemma ends_mono: "ends m P \<Longrightarrow> (\<And>x. P x \<Longrightarrow> Q x) \<Longrightarrow> ends m Q"
  by (cases m) auto

lemma ends_fwd: "ends r (fwd p1) \<Longrightarrow> fwd p p1 \<Longrightarrow> ends r (fwd p)"
  by (erule ends_mono) (rule fwd_trans)

lemma ends_require: "e \<noteq> no_fuel \<Longrightarrow> (b \<Longrightarrow> ends k Q) \<Longrightarrow> ends (require b e k) Q"
  by (cases b) auto

lemma NextChar_ends: "ends (NextChar p) (\<lambda>p'. fwd p p' \<and> pos p < pos p')"
  by (auto simp: NextChar_def fwd_advance intro!: ends_require)

lemma eat_line_fwd: "fwd p (snd (eat_line p))"
proof (induction p rule: eat_line.induct)
  case (1 p)
  show ?case using 1 fwd_advance [of 1 p] by (subst eat_line.simps) (auto simp: Let_def intro: fwd_trans)
qed

lemma eat_block_ends: "ends (eat_block c p) (\<lambda>(b, p'). fwd p p')"
proof (induction c p rule: eat_block.induct)
  case (1 c p)
  have "ends (rbind (NextChar (advance 1 p)) (\<lambda>p2. Inr (True, p2))) (\<lambda>(b, p'). fwd p p')" if "CanConsume 1 p"
    using NextChar_ends by (rule ends_rbind) (use fwd_advance [OF that] in \<open>auto intro: fwd_trans\<close>)
  moreover have "ends (eat_block (cur (advance 1 p)) (advance 1 p)) (\<lambda>(b, p'). fwd p p')"
    if "CanConsume 1 p" "\<not> (c = 0x2A \<and> cur (advance 1 p) = 0x2F)"
    using 1 [OF that(1) refl that(2)] by (rule ends_mono) (use fwd_advance [OF that(1)] in \<open>auto intro: fwd_trans\<close>)
  ultimately show ?case by (subst eat_block.simps) (auto simp: Let_def)
qed

lemma EatComment_ends: "ends (EatComment p) (\<lambda>(b, p'). fwd p p')"
proof -
  have "ends (eat_block 0 (advance 1 p)) (\<lambda>(b, p'). fwd p p')" if "CanConsume 1 p"
    using eat_block_ends by (rule ends_mono) (use fwd_advance [OF that] in \<open>auto intro: fwd_trans\<close>)
  then show ?thesis using eat_line_fwd [of "advance 1 p"] fwd_advance [of 1 p]
    by (auto simp: EatComment_def Let_def split: prod.split intro: fwd_trans)
qed

lemma EatWhitespaceAndComments_ends: "ends (EatWhitespaceAndComments p) (fwd p)"
proof (induction p rule: EatWhitespaceAndComments.induct)
  case (1 p)
  have step: "fwd p (advance 1 (count_line p))" "fwd p (advance 1 p)" if "pos p < length (json_text p)"
    using that fwd_advance [of 1 p] by (auto simp: CanConsume_def fwd_def same_def synced_def count_line_def Let_def)
  have "ends (rbind (EatComment p) (\<lambda>(eaten, p1). if \<not> eaten then Inr p1 else EatWhitespaceAndComments p1)) (fwd p)"
    if "pos p < length (json_text p)" "\<not> (cur p = 0x0D \<or> cur p = 0x0A)" "\<not> (cur p = 0x20 \<or> cur p = 0x09)" "cur p = 0x2F"
  proof -
    note here = that
    consider e where "EatComment p = Inl e" | b p1 where "EatComment p = Inr (b, p1)" by (cases "EatComment p") auto
    then show ?thesis
    proof cases
      case 2
      have "fwd p p1" using EatComment_ends [of p] 2 by simp
      moreover have "ends (EatWhitespaceAndComments p1) (fwd p1)" if b by (rule 1(3)) (use 2 here that in auto)
      ultimately show ?thesis using 2 by (auto intro: ends_fwd)
    qed (use EatComment_ends [of p] in simp)
  qed
  then show ?case using 1(1,2) step
    by (subst EatWhitespaceAndComments.simps) (auto intro: ends_fwd)
qed

lemma GetNextToken_ends: "ends (GetNextToken p) (\<lambda>(t, p'). fwd p p')"
  unfolding GetNextToken_def by (rule ends_rbind [OF EatWhitespaceAndComments_ends]) simp

subsection \<open>Strings\<close>

definition moved :: "json_parser \<Rightarrow> json_parser \<Rightarrow> bool" where
  "moved p p' \<longleftrightarrow> (\<exists>n. p' = advance n p) \<and> (pos p \<le> length (json_text p) \<longrightarrow> pos p' \<le> length (json_text p))"

lemma moved_refl [simp]: "moved p p"
  by (auto simp: moved_def intro: exI [of _ 0])

lemma moved_trans: "moved p p' \<Longrightarrow> moved p' p'' \<Longrightarrow> moved p p''"
  by (auto simp: moved_def)

lemma moved_advance: "CanConsume n p \<Longrightarrow> moved p (advance n p)"
  by (auto simp: moved_def CanConsume_def)

lemma NextChar_moved: "ends (NextChar p) (moved p)" "ends (NextNChars n p) (moved p)"
  by (auto simp: NextChar_def NextNChars_def moved_advance intro!: ends_require)

lemma NextChar_then: "(\<And>p'. moved p p' \<Longrightarrow> ends (f p') Q) \<Longrightarrow> ends (rbind (NextChar p) f) Q"
  "(\<And>p'. moved p p' \<Longrightarrow> ends (f p') Q) \<Longrightarrow> ends (rbind (NextNChars n p) f) Q"
  using ends_rbind [OF NextChar_moved(1)] ends_rbind [OF NextChar_moved(2)] by blast+

lemma DecodeUTF16_low_ends: "ends (DecodeUTF16_low E c p) (\<lambda>(r, p'). moved p p')"
  by (auto simp: DecodeUTF16_low_def Let_def split: prod.split bool.split option.split
      intro!: NextChar_then) (blast intro: moved_trans)+

lemma DecodeUTF16_ends: "ends (DecodeUTF16 E p) (\<lambda>(r, p'). moved p p')"
  by (auto simp: DecodeUTF16_def Let_def split: prod.split bool.split option.split
      intro!: NextChar_then ends_mono [OF DecodeUTF16_low_ends]) (blast intro: moved_trans)+

lemma sb_ends: "ends (sb_Append b sb) (\<lambda>x. True)" "ends (sb_AppendString s sb) (\<lambda>x. True)" "ends (DecodeUTF8 p c sb) (\<lambda>x. True)"
  by (auto simp: sb_Append_def sb_AppendString_def DecodeUTF8_def split: option.split intro!: ends_require)

lemma hex_escape_ends: "ends (hex_escape E sb p) (\<lambda>(r, p'). r \<noteq> None \<longrightarrow> moved p p')"
  by (auto simp: hex_escape_def split: prod.split bool.split option.split
      intro!: NextChar_then sb_ends [THEN ends_rbind]) (blast intro: moved_trans)+

lemma unit_escape_ends: "ends (unit_escape E sb p) (\<lambda>(r, p'). r \<noteq> None \<longrightarrow> moved p p')"
  by (auto simp: unit_escape_def split: prod.split option.split
      intro!: NextChar_then DecodeUTF16_ends [THEN ends_rbind] sb_ends [THEN ends_rbind]) (blast intro: moved_trans)+

lemma ConsumeEscape_ends: "ends (ConsumeEscape E sb p) (\<lambda>(r, p'). r \<noteq> None \<longrightarrow> moved p p')"
  by (auto simp: ConsumeEscape_def Let_def split: option.split
      intro!: NextChar_then hex_escape_ends [THEN ends_mono] unit_escape_ends [THEN ends_mono] sb_ends [THEN ends_rbind]) (blast intro: moved_trans)+

lemma append_character_ends: "ends (append_character p c sb) (\<lambda>x. True)"
  by (simp add: append_character_def sb_ends)

lemma escape_quote_bytes: "CBU8_APPEND_UNSAFE 0x22 = [0x22]" "CBU8_APPEND_UNSAFE 0x5C = [0x5C]"
  by code_simp+

lemma read_character_facts:
  assumes "read_character p = (c, p')" "IsValidCharacter c" "index p \<le> length (json_text p)"
  shows "same p p'" "pos p' = index p" "index p < index p'"
    "pos p' < length (json_text p') \<longrightarrow> index p' \<le> length (json_text p')"
    "c = 0x22 \<or> c = 0x5C \<Longrightarrow> index p' = index p + 1"
proof -
  note moves = read_character_moves [OF assms(1)]
  show "pos p' = index p" "index p < index p'" using moves by simp_all
  show "same p p'" by (rule read_character_valid [OF assms]) (metis same_simps(5))+
  show "pos p' < length (json_text p') \<longrightarrow> index p' \<le> length (json_text p')"
    by (rule read_character_valid [OF assms]) (use moves in simp_all)
  assume c: "c = 0x22 \<or> c = 0x5C"
  show "index p' = index p + 1"
  proof (rule read_character_valid [OF assms])
    assume "index p < length (json_text p)" "index p' \<le> length (json_text p)"
      "take (index p' - index p) (drop (index p) (json_text p)) = CBU8_APPEND_UNSAFE c"
    moreover from this(3) c have "length (take (index p' - index p) (drop (index p) (json_text p))) = 1"
      by (auto simp: escape_quote_bytes)
    moreover from calculation(2) have "length (take (index p' - index p) (drop (index p) (json_text p))) = index p' - index p"
      by simp
    ultimately show ?thesis using moves by simp
  next
    assume "p' = p\<lparr>pos := index p, index := index p + 1\<rparr>"
    from arg_cong [OF this, of index] show ?thesis by simp
  qed
qed

lemma string_loop_ends:
  assumes "pos p < length (json_text p) \<longrightarrow> index p \<le> length (json_text p)"
  shows "ends (string_loop E sb p) (\<lambda>(r, p'). r \<noteq> None \<longrightarrow> same p p' \<and> synced p' \<and> index p \<le> pos p')"
  using assms
proof (induction E sb p rule: string_loop.induct)
  case (1 E sb p)
  obtain c p1 where r: "read_character p = (c, p1)" by (cases "read_character p")
  show ?case
  proof (cases "CanConsume 1 p \<and> \<not> (sint c < 0 \<or> \<not> IsValidCharacter c)")
    case True
    then have i: "index p \<le> length (json_text p)" and c: "IsValidCharacter c" using 1(3) by (auto simp: CanConsume_def)
    note facts = read_character_facts [OF r c i]
    consider (escape) "c = 0x5C" | (quote) "c = 0x22" | (other) "c \<noteq> 0x5C" "c \<noteq> 0x22" by blast
    then show ?thesis
    proof cases
      case escape
      have "ends (rbind (ConsumeEscape E sb p1) (\<lambda>x. case x of (None, p2) \<Rightarrow> Inr (None, p2) | (Some sb1, p2) \<Rightarrow> string_loop E sb1 p2))
          (\<lambda>(r, p'). r \<noteq> None \<longrightarrow> same p p' \<and> synced p' \<and> index p \<le> pos p')"
      proof (cases "ConsumeEscape E sb p1")
        case (Inr x)
        obtain s p2 where x: "x = (s, p2)" by (cases x)
        show ?thesis
        proof (cases s)
          case (Some sb1)
          then have "moved p1 p2" using ConsumeEscape_ends [of E sb p1] Inr x by simp
          then obtain n where n: "p2 = advance n p1" "pos p2 \<le> length (json_text p1)"
            using facts(1,2) i by (auto simp: moved_def same_def)
          then have "ends (string_loop E sb1 p2) (\<lambda>(r, p'). r \<noteq> None \<longrightarrow> same p2 p' \<and> synced p' \<and> index p2 \<le> pos p')"
            using 1(1) [OF _ r [symmetric] _ escape Inr [unfolded x Some] refl] True facts(2) facts(5) escape by auto
          then show ?thesis unfolding Inr x Some rbind_simps prod.case option.case
            by (rule ends_mono) (use n facts(1,3) in \<open>auto intro: same_trans\<close>)
        qed (use Inr x in simp)
      qed (use ConsumeEscape_ends [of E sb p1] in simp)
      then show ?thesis using True r escape by (subst string_loop.simps) simp
    next
      case quote
      then show ?thesis using True r facts(2,5) i facts(1)
        by (subst string_loop.simps) (auto simp: synced_def same_def)
    next
      case other
      have "ends (rbind (append_character p1 c sb) (\<lambda>sb1. string_loop E sb1 p1))
          (\<lambda>(r, p'). r \<noteq> None \<longrightarrow> same p p' \<and> synced p' \<and> index p \<le> pos p')"
      proof (cases "append_character p1 c sb")
        case (Inr sb1)
        have "ends (string_loop E sb1 p1) (\<lambda>(r, p'). r \<noteq> None \<longrightarrow> same p1 p' \<and> synced p' \<and> index p1 \<le> pos p')"
          using 1(2) [OF _ r [symmetric] _ other Inr] True facts(4) by auto
        then show ?thesis unfolding Inr rbind_simps by (rule ends_mono) (use facts(1,3) in \<open>auto intro: same_trans\<close>)
      qed (use append_character_ends [of p1 c sb] in simp)
      then show ?thesis using True r other by (subst string_loop.simps) simp
    qed
  qed (use r in \<open>subst string_loop.simps, auto\<close>)
qed

lemma ConsumeStringRaw_ends: "synced p \<Longrightarrow> ends (ConsumeStringRaw E p) (\<lambda>(r, p'). r \<noteq> None \<longrightarrow> fwd p p')"
proof -
  assume "synced p"
  then have "ends (string_loop E (StringBuilder (pos p1)) p1) (\<lambda>(r, p'). r \<noteq> None \<longrightarrow> fwd p p')" if "fwd p p1" for p1
    using that string_loop_ends [of p1 E "StringBuilder (pos p1)"]
    by (auto simp: fwd_def synced_def elim!: ends_mono intro: same_trans)
  then show ?thesis unfolding ConsumeStringRaw_def
    by (auto intro!: NextChar_ends [THEN ends_rbind])
qed

lemma new_StringValue_ends: "ends (new_StringValue s) (\<lambda>v. True)"
  by (auto simp: new_StringValue_def intro!: ends_require)

lemma ConsumeString_ends: "synced p \<Longrightarrow> ends (ConsumeString E p) (\<lambda>(v, p'). v \<noteq> None \<longrightarrow> fwd p p')"
  unfolding ConsumeString_def
  by (erule ends_rbind [OF ConsumeStringRaw_ends]) (auto split: option.split intro!: new_StringValue_ends [THEN ends_rbind])

subsection \<open>Numbers and literals\<close>

lemma read_digits_fwd: "read_digits c len p = (l, p') \<Longrightarrow> fwd p p' \<and> len \<le> l \<and> pos p' = pos p + (l - len)"
proof (induction c len p rule: read_digits.induct)
  case (1 c len p)
  show ?case
  proof (cases "CanConsume 1 p \<and> IsAsciiDigit c")
    case True
    then have "read_digits (cur (advance 1 p)) (len + 1) (advance 1 p) = (l, p')"
      using 1(2) by (subst (asm) read_digits.simps) (simp add: Let_def)
    then show ?thesis using 1(1) [OF True refl] fwd_advance [of 1 p] True by (auto intro: fwd_trans)
  next
    case False
    then show ?thesis using 1(2) by (subst (asm) read_digits.simps) auto
  qed
qed

lemma ReadInt_fwd: "ReadInt z p = (b, p') \<Longrightarrow> fwd p p' \<and> (b \<longrightarrow> pos p < pos p')"
  by (auto simp: ReadInt_def Let_def split: prod.splits if_splits dest!: read_digits_fwd)

lemma number_part_fwd: "number_part z p = (Some e, p') \<Longrightarrow> fwd p p' \<and> pos p < pos p'"
  by (auto simp: number_part_def split: prod.splits bool.splits dest: ReadInt_fwd)

lemma NextChar_fwd: "(\<And>p'. fwd p p' \<Longrightarrow> ends (f p') Q) \<Longrightarrow> ends (rbind (NextChar p) f) Q"
  by (rule ends_rbind [OF NextChar_ends]) simp

lemma number_part_trans: "number_part z p = (Some e, p') \<Longrightarrow> fwd q p \<Longrightarrow> fwd q p'"
  using number_part_fwd [of z p e p'] by (blast intro: fwd_trans)

lemma fraction_ends: "ends (fraction e p) (\<lambda>(r, p'). r \<noteq> None \<longrightarrow> fwd p p')"
  by (auto simp: fraction_def intro!: NextChar_fwd intro: number_part_trans)

lemma exponent_ends: "ends (exponent e p) (\<lambda>(r, p'). r \<noteq> None \<longrightarrow> fwd p p')"
proof -
  have "ends (if b then NextChar q else Inr q) (fwd q)" for b q using NextChar_ends [of q] by (auto elim: ends_mono)
  then show ?thesis
    by (auto simp: exponent_def intro!: NextChar_fwd ends_rbind [where P = "fwd _"])
      (blast intro: number_part_trans fwd_trans)+
qed

lemma end_of_number_ends:
  assumes "fwd q p" "pos q < pos p" "synced p"
  shows "ends (end_of_number E a b c p) (\<lambda>(v, p'). v \<noteq> None \<longrightarrow> fwd q p')"
proof -
  have "fwd q (p1\<lparr>pos := pos p - 1, index := index p - 1\<rparr>)" if "fwd p p1" for p1
    using that assms by (auto simp: fwd_def synced_def same_def)
  then show ?thesis unfolding end_of_number_def Let_def
    by (intro ends_rbind [OF GetNextToken_ends]) (auto split: prod.split)
qed

lemma ConsumeNumber_ends:
  assumes "synced p"
  shows "ends (ConsumeNumber E p) (\<lambda>(v, p'). v \<noteq> None \<longrightarrow> fwd p p')"
proof -
  have "ends (if cur p = 0x2D then NextChar p else Inr p) (fwd p)" using NextChar_ends [of p] by (auto elim: ends_mono)
  moreover have "ends (end_of_number E a b c p4) (\<lambda>(v, p'). v \<noteq> None \<longrightarrow> fwd p p')"
    if "fwd p p1" "number_part False p1 = (Some e, p2)" "fwd p2 p3" "fwd p3 p4" for a b c e p1 p2 p3 p4
  proof (rule end_of_number_ends)
    show "fwd p p4" using that number_part_fwd [OF that(2)] by (blast intro: fwd_trans)
    then show "synced p4" using assms by (simp add: fwd_def)
    show "pos p < pos p4" using that number_part_fwd [OF that(2)] by (auto simp: fwd_def)
  qed
  ultimately show ?thesis unfolding ConsumeNumber_def
  proof (elim ends_rbind, goal_cases)
    case (1 p1)
    show ?case
    proof (cases "number_part False p1")
      case (Pair r p2)
      show ?thesis
      proof (cases r)
        case (Some e)
        show ?thesis unfolding Pair Some prod.case option.case
        proof (intro ends_option [OF fraction_ends] , simp, unfold prod.case option.case)
          fix e2 p3 assume "fwd p2 p3"
          then show "ends (rbind (exponent e2 p3) (\<lambda>(r, p4). case r of None \<Rightarrow> Inr (None, p4)
              | Some end3 \<Rightarrow> end_of_number E (pos p) (index p) end3 p4)) (\<lambda>(v, p'). v \<noteq> None \<longrightarrow> fwd p p')"
            by (intro ends_option [OF exponent_ends]) (use 1 Pair Some in auto)
        qed
      qed (use Pair in simp)
    qed
  qed
qed

lemma ConsumeLiteral_ends: "ends (ConsumeLiteral p) (\<lambda>(v, p'). v \<noteq> None \<longrightarrow> fwd p p')"
proof -
  have "ends (literal l v p) (\<lambda>(v, p'). v \<noteq> None \<longrightarrow> fwd p p')" for l v
    by (auto simp: literal_def Let_def NextNChars_def fwd_advance intro!: ends_rbind [where P = "fwd p"] ends_require)
  then show ?thesis by (simp add: ConsumeLiteral_def)
qed

subsection \<open>Lists and dictionaries\<close>

text \<open>What the loops assume of the parser of an element at one nesting depth.\<close>

definition parses :: "nat \<Rightarrow> parse_value \<Rightarrow> bool" where
  "parses d parse \<longleftrightarrow>
     (\<forall>t p. synced p \<and> stack_depth p = d \<longrightarrow> ends (parse t p) (\<lambda>(v, p'). v \<noteq> None \<longrightarrow> fwd p p'))"

lemma parsesD: "parses d parse \<Longrightarrow> synced p \<Longrightarrow> stack_depth p = d \<Longrightarrow> ends (parse t p) (\<lambda>(v, p'). v \<noteq> None \<longrightarrow> fwd p p')"
  by (simp add: parses_def)

lemma fwd_beyond: "fwd p q \<Longrightarrow> pos p < pos q \<Longrightarrow> fwd q r \<Longrightarrow> fwd p r \<and> pos p < pos r"
  by (auto simp: fwd_def intro: same_trans)

lemma after_element_ends: "ends (after_element c a p) (\<lambda>(t, p'). t \<noteq> None \<longrightarrow> fwd p p' \<and> pos p < pos p')"
  unfolding after_element_def
proof (rule ends_rbind [OF NextChar_ends], rule ends_rbind [OF GetNextToken_ends], clarify)
  fix p1 token p2 assume p: "fwd p p1" "pos p < pos p1" "fwd p1 p2"
  note beyond = fwd_beyond [OF p]
  have "ends (rbind (NextChar p2) (\<lambda>p3. rbind (GetNextToken p3) (\<lambda>(token1, p4).
           if token1 = c \<and> \<not> allow_trailing_commas p4 then Inr (None, ReportError JSON_TRAILING_COMMA 1 p4)
           else Inr (Some token1, p4)))) (\<lambda>(t, p'). t \<noteq> None \<longrightarrow> fwd p p' \<and> pos p < pos p')"
  proof (rule NextChar_fwd, rule ends_rbind [OF GetNextToken_ends], clarify)
    fix p3 token1 p4 assume "fwd p2 p3" "fwd p3 p4"
    then have "fwd p p4 \<and> pos p < pos p4" using beyond fwd_beyond [of p p2 p4] fwd_trans by blast
    then show "ends (if token1 = c \<and> \<not> allow_trailing_commas p4 then Inr (None, ReportError JSON_TRAILING_COMMA 1 p4)
        else Inr (Some token1, p4)) (\<lambda>(t, p'). t \<noteq> None \<longrightarrow> fwd p p' \<and> pos p < pos p')" by simp
  qed
  then show "ends (if token = T_LIST_SEPARATOR then
       rbind (NextChar p2) (\<lambda>p3. rbind (GetNextToken p3) (\<lambda>(token1, p4).
         if token1 = c \<and> \<not> allow_trailing_commas p4 then Inr (None, ReportError JSON_TRAILING_COMMA 1 p4)
         else Inr (Some token1, p4)))
     else if token \<noteq> c then Inr (None, ReportError JSON_SYNTAX_ERROR a p2)
     else Inr (Some token, p2)) (\<lambda>(t, p'). t \<noteq> None \<longrightarrow> fwd p p' \<and> pos p < pos p')"
    using beyond by simp
qed

lemma list_loop_ends:
  assumes "parses (stack_depth p) parse" "synced p" "length (json_text p) < pos p + n"
  shows "ends (list_loop parse n token xs p) (\<lambda>(v, p'). v \<noteq> None \<longrightarrow> fwd p p')"
  using assms
proof (induction n arbitrary: token xs p)
  case (Suc n)
  have "ends (rbind (parse token p) (\<lambda>(item, p1). case item of None \<Rightarrow> Inr (None, p1)
       | Some v \<Rightarrow> rbind (after_element T_ARRAY_END 1 p1) (\<lambda>(token1, p2).
           case token1 of None \<Rightarrow> Inr (None, p2) | Some t \<Rightarrow> list_loop parse n t (xs @ [v]) p2)))
     (\<lambda>(v, p'). v \<noteq> None \<longrightarrow> fwd p p')"
  proof (rule ends_option)
    show "ends (parse token p) (\<lambda>(v, p'). v \<noteq> None \<longrightarrow> fwd p p')" using Suc.prems by (simp add: parses_def)
    fix v p1 assume p1: "fwd p p1"
    show "ends (case (Some v, p1) of (item, p1) \<Rightarrow> case item of None \<Rightarrow> Inr (None, p1)
       | Some v \<Rightarrow> rbind (after_element T_ARRAY_END 1 p1) (\<lambda>(token1, p2).
           case token1 of None \<Rightarrow> Inr (None, p2) | Some t \<Rightarrow> list_loop parse n t (xs @ [v]) p2))
       (\<lambda>(v, p'). v \<noteq> None \<longrightarrow> fwd p p')"
      unfolding prod.case option.case
    proof (rule ends_option [OF after_element_ends])
      fix t p2 assume "fwd p1 p2 \<and> pos p1 < pos p2"
      then have p2: "fwd p p2" "pos p < pos p2" using p1 by (auto simp: fwd_def intro: same_trans)
      then have "ends (list_loop parse n t (xs @ [v]) p2) (\<lambda>(v, p'). v \<noteq> None \<longrightarrow> fwd p2 p')"
        using Suc.prems by (intro Suc.IH) (auto simp: fwd_def same_def)
      then show "ends (case (Some t, p2) of (token1, p2) \<Rightarrow>
            case token1 of None \<Rightarrow> Inr (None, p2) | Some t \<Rightarrow> list_loop parse n t (xs @ [v]) p2) (\<lambda>(v, p'). v \<noteq> None \<longrightarrow> fwd p p')"
        unfolding prod.case option.case by (rule ends_mono) (use p2 in \<open>auto intro: fwd_trans\<close>)
    qed simp
  qed simp
  then show ?case by simp
qed (simp add: synced_def)

lemma ConsumeKey_ends:
  assumes "synced p"
  shows "ends (ConsumeKey E p) (\<lambda>(k, p'). k \<noteq> None \<longrightarrow> fwd p p')"
  unfolding ConsumeKey_def
proof (rule ends_option [OF ConsumeStringRaw_ends [OF assms]])
  fix sb p1 assume p1: "fwd p p1"
  show "ends (case (Some sb, p1) of (key, p1) \<Rightarrow> case key of None \<Rightarrow> Inr (None, p1)
       | Some sb \<Rightarrow> rbind (NextChar p1) (\<lambda>p2. rbind (GetNextToken p2) (\<lambda>(token, p3).
           if token \<noteq> T_OBJECT_PAIR_SEPARATOR then Inr (None, ReportError JSON_SYNTAX_ERROR 1 p3)
           else rbind (NextChar p3) (\<lambda>p4. rbind (GetNextToken p4) (\<lambda>(token1, p5).
                  Inr (Some (sb_AsString p5 sb, token1), p5))))))
     (\<lambda>(k, p'). k \<noteq> None \<longrightarrow> fwd p p')"
    using p1 by (auto intro!: NextChar_fwd GetNextToken_ends [THEN ends_rbind]) (meson fwd_trans)
qed simp

lemma dictionary_loop_ends:
  assumes "parses (stack_depth p) parse" "synced p" "length (json_text p) < pos p + n"
  shows "ends (dictionary_loop E parse n token d p) (\<lambda>(v, p'). v \<noteq> None \<longrightarrow> fwd p p')"
  using assms
proof (induction n arbitrary: token d p)
  case (Suc n)
  let ?after = "\<lambda>k v p2. rbind (after_element T_OBJECT_END 0 p2) (\<lambda>(token1, p3). case token1 of None \<Rightarrow> Inr (None, p3)
      | Some t1 \<Rightarrow> dictionary_loop E parse n t1 (SetWithoutPathExpansion k v d) p3)"
  let ?item = "\<lambda>k t p1. rbind (parse t p1) (\<lambda>(item, p2). case item of None \<Rightarrow> Inr (None, p2) | Some v \<Rightarrow> ?after k v p2)"
  have after: "ends (?after k v p2) (\<lambda>(v, p'). v \<noteq> None \<longrightarrow> fwd p p')" if "fwd p p2" for k v p2
  proof (rule ends_option [OF after_element_ends])
    fix t p3 assume "fwd p2 p3 \<and> pos p2 < pos p3"
    then have p3: "fwd p p3" "pos p < pos p3" using that by (auto simp: fwd_def intro: same_trans)
    then have "ends (dictionary_loop E parse n t (SetWithoutPathExpansion k v d) p3) (\<lambda>(v, p'). v \<noteq> None \<longrightarrow> fwd p3 p')"
      using Suc.prems by (intro Suc.IH) (auto simp: fwd_def same_def)
    then show "ends (case (Some t, p3) of (token1, p3) \<Rightarrow> case token1 of None \<Rightarrow> Inr (None, p3)
        | Some t1 \<Rightarrow> dictionary_loop E parse n t1 (SetWithoutPathExpansion k v d) p3) (\<lambda>(v, p'). v \<noteq> None \<longrightarrow> fwd p p')"
      unfolding prod.case option.case by (rule ends_mono) (use p3 in \<open>auto intro: fwd_trans\<close>)
  qed simp
  have item: "ends (?item k t p1) (\<lambda>(v, p'). v \<noteq> None \<longrightarrow> fwd p p')" if "fwd p p1" for k t p1
  proof (rule ends_option)
    show "ends (parse t p1) (\<lambda>(v, p'). v \<noteq> None \<longrightarrow> fwd p1 p')"
      by (rule parsesD [OF Suc.prems(1)]) (use Suc.prems(2) that in \<open>simp_all add: fwd_def same_def\<close>)
    show "ends (case (Some v, p2) of (item, p2) \<Rightarrow> case item of None \<Rightarrow> Inr (None, p2) | Some v \<Rightarrow> ?after k v p2)
        (\<lambda>(v, p'). v \<noteq> None \<longrightarrow> fwd p p')" if "fwd p1 p2" for v p2
      using after [of p2] fwd_trans [OF \<open>fwd p p1\<close> that] by simp
  qed simp
  have "ends (rbind (ConsumeKey E p) (\<lambda>(key, p1). case key of None \<Rightarrow> Inr (None, p1) | Some (k, t) \<Rightarrow> ?item k t p1))
      (\<lambda>(v, p'). v \<noteq> None \<longrightarrow> fwd p p')"
    by (rule ends_option [OF ConsumeKey_ends [OF Suc.prems(2)]]) (use item in \<open>auto split: prod.split\<close>)
  then show ?case by simp
qed (simp add: synced_def)

lemma with_stack_ends:
  assumes "\<And>p1. same (p\<lparr>stack_depth := stack_depth p + 1\<rparr>) p1 \<Longrightarrow> pos p1 = pos p \<Longrightarrow> index p1 = index p \<Longrightarrow>
      stack_depth p1 < kStackMaxDepth \<Longrightarrow> ends (body p1) (\<lambda>(v, p'). v \<noteq> None \<longrightarrow> fwd p1 p')"
  shows "ends (with_stack body p) (\<lambda>(v, p'). v \<noteq> None \<longrightarrow> fwd p p')"
proof -
  let ?p1 = "p\<lparr>stack_depth := stack_depth p + 1\<rparr>"
  have "ends (rbind (body ?p1) (\<lambda>(v, p2). Inr (v, p2\<lparr>stack_depth := stack_depth p2 - 1\<rparr>))) (\<lambda>(v, p'). v \<noteq> None \<longrightarrow> fwd p p')"
    if "stack_depth ?p1 < kStackMaxDepth"
    by (rule ends_option [OF assms]) (use that in \<open>auto simp: fwd_def same_def synced_def\<close>)
  then show ?thesis by (auto simp: with_stack_def Let_def intro!: ends_require)
qed

lemma Consume_container_ends:
  assumes "parses (stack_depth p + 1) parse \<or> kStackMaxDepth \<le> stack_depth p + 1" "synced p"
  shows "ends (ConsumeList parse p) (\<lambda>(v, p'). v \<noteq> None \<longrightarrow> fwd p p')"
    "ends (ConsumeDictionary E parse p) (\<lambda>(v, p'). v \<noteq> None \<longrightarrow> fwd p p')"
proof -
  have start: "parses (stack_depth p3) parse" "synced p3" "length (json_text p3) < pos p3 + (length (json_text p) + 2)"
    if "same (p\<lparr>stack_depth := stack_depth p + 1\<rparr>) p1" "pos p1 = pos p" "index p1 = index p"
      "stack_depth p1 < kStackMaxDepth" "fwd p1 p2" "fwd p2 p3" for p1 p2 p3
    using that assms by (auto simp: fwd_def same_def synced_def)
  show "ends (ConsumeList parse p) (\<lambda>(v, p'). v \<noteq> None \<longrightarrow> fwd p p')"
  proof -
    have "ends (with_stack (\<lambda>p1. rbind (NextChar p1) (\<lambda>p2. rbind (GetNextToken p2) (\<lambda>(token, p3).
        list_loop parse (length (json_text p) + 2) token [] p3))) p) (\<lambda>(v, p'). v \<noteq> None \<longrightarrow> fwd p p')"
    proof (intro with_stack_ends NextChar_fwd ends_rbind [OF GetNextToken_ends], clarify)
      fix p1 p2 token p3
      assume p: "same (p\<lparr>stack_depth := stack_depth p + 1\<rparr>) p1" "pos p1 = pos p" "index p1 = index p"
        "stack_depth p1 < kStackMaxDepth" "fwd p1 p2" "fwd p2 p3"
      from list_loop_ends [OF start [OF p], of token "[]"]
      show "ends (list_loop parse (length (json_text p) + 2) token [] p3) (\<lambda>(v, p'). v \<noteq> None \<longrightarrow> fwd p1 p')"
        by (rule ends_mono) (use fwd_trans [OF p(5,6)] in \<open>auto intro: fwd_trans\<close>)
    qed
    then show ?thesis by (simp add: ConsumeList_def)
  qed
  show "ends (ConsumeDictionary E parse p) (\<lambda>(v, p'). v \<noteq> None \<longrightarrow> fwd p p')"
  proof -
    have "ends (with_stack (\<lambda>p1. rbind (NextChar p1) (\<lambda>p2. rbind (GetNextToken p2) (\<lambda>(token, p3).
        dictionary_loop E parse (length (json_text p) + 2) token [] p3))) p) (\<lambda>(v, p'). v \<noteq> None \<longrightarrow> fwd p p')"
    proof (intro with_stack_ends NextChar_fwd ends_rbind [OF GetNextToken_ends], clarify)
      fix p1 p2 token p3
      assume p: "same (p\<lparr>stack_depth := stack_depth p + 1\<rparr>) p1" "pos p1 = pos p" "index p1 = index p"
        "stack_depth p1 < kStackMaxDepth" "fwd p1 p2" "fwd p2 p3"
      from dictionary_loop_ends [OF start [OF p], of E token "[]"]
      show "ends (dictionary_loop E parse (length (json_text p) + 2) token [] p3) (\<lambda>(v, p'). v \<noteq> None \<longrightarrow> fwd p1 p')"
        by (rule ends_mono) (use fwd_trans [OF p(5,6)] in \<open>auto intro: fwd_trans\<close>)
    qed
    then show ?thesis by (simp add: ConsumeDictionary_def)
  qed
qed

lemma ParseToken_ends: "kStackMaxDepth < n + d \<Longrightarrow> d < kStackMaxDepth \<Longrightarrow> parses d (ParseToken E n)"
proof (induction n arbitrary: d)
  case (Suc n)
  have IH: "parses (d + 1) (ParseToken E n) \<or> kStackMaxDepth \<le> d + 1"
    using Suc.IH [of "d + 1"] Suc.prems by (cases "d + 1 < kStackMaxDepth") auto
  show ?case unfolding parses_def
  proof (intro allI impI)
    fix t p assume "synced p \<and> stack_depth p = d"
    then show "ends (ParseToken E (Suc n) t p) (\<lambda>(v, p'). v \<noteq> None \<longrightarrow> fwd p p')"
      using Consume_container_ends(1) [of p "ParseToken E n"] Consume_container_ends(2) [of p "ParseToken E n" E] ConsumeString_ends [of p E] ConsumeNumber_ends [of p E]
        ConsumeLiteral_ends [of p] IH by auto
  qed
qed simp

subsection \<open>The whole text\<close>

lemma DeepCopy_ends:
  "ends (DeepCopy v) (\<lambda>x. True)" "ends (dict_DeepCopy d r) (\<lambda>x. True)" "ends (list_DeepCopy xs ys) (\<lambda>x. True)"
  by (induction v and d r and xs ys rule: DeepCopy_dict_DeepCopy_list_DeepCopy.induct)
    (auto simp: new_FundamentalValue_def new_StringValue_def require_def no_fuel_def ends_def rbind_def split: sum.splits option.splits)

lemma ends_after_root_ends: "ends (ends_after_root p) (\<lambda>x. True)"
  by (auto simp: ends_after_root_def intro!: GetNextToken_ends [THEN ends_rbind] NextChar_fwd)

lemma Parse_json_ends:
  assumes "stack_depth p = 0"
  shows "ends (Parse_json E memory json p) (\<lambda>x. True)"
proof -
  define q where "q = p\<lparr>json_text := json, behind := (if detachable_children p then memory else 0), pos := 0, index := 0,
    line_number := 1, index_last_line := 0, error_code := JSON_NO_ERROR, error_line := 0, error_column := 0\<rparr>"
  show ?thesis unfolding Parse_json_def Let_def q_def [symmetric]
  proof (rule ends_rbind [where P = "fwd q"], goal_cases)
    case 1
    show ?case by (auto simp: skip_bom_def NextNChars_def intro: fwd_advance)
  next
    case (2 p2)
    show ?case
    proof (rule ends_rbind [OF GetNextToken_ends], clarify)
      fix token p3 assume "fwd p2 p3"
      then have "fwd q p3" using 2 by (rule fwd_trans [rotated])
      then have "synced p3" "stack_depth p3 = 0" using assms by (auto simp: fwd_def synced_def same_def q_def)
      then have "ends (ParseToken E (kStackMaxDepth + 1) token p3) (\<lambda>(v, p'). v \<noteq> None \<longrightarrow> fwd p3 p')"
        using ParseToken_ends [of "kStackMaxDepth + 1" 0 E] by (intro parsesD) (auto simp: kStackMaxDepth_def)
      then show "ends (rbind (ParseToken E (kStackMaxDepth + 1) token p3) (\<lambda>(root, p4). case root of
             None \<Rightarrow> Inr (None, p4)
           | Some v \<Rightarrow>
               rbind (ends_after_root p4) (\<lambda>(ends, p5).
                 if \<not> ends then Inr (None, ReportError JSON_UNEXPECTED_DATA_AFTER_ROOT 1 p5)
                 else if \<not> detachable_children p5 \<and> IsType v TYPE_STRING
                 then rbind (DeepCopy v) (\<lambda>v1. Inr (Some v1, p5)) else Inr (Some v, p5)))) (\<lambda>x. True)"
        by (rule ends_option)
          (auto intro!: ends_rbind [OF ends_after_root_ends] ends_rbind [OF DeepCopy_ends(1)])
    qed
  qed
qed

text \<open>
  C14: reading ends for every text, every byte behind it and all options: the recursion of the values is bounded by
  the nesting limit and each loop over elements by the length of the text, since every element moves the parser on.
\<close>

theorem reading_ends:
  "JSONReader_Read E memory json options \<noteq> Inl no_fuel"
  using Parse_json_ends [of "JSONParser options" E memory json]
  by (cases "Parse_json E memory json (JSONParser options)") (auto simp: JSONReader_Read_def JSONParser_def)

subsection \<open>The text of a number\<close>

text \<open>The numbers of JSON.\<close>

definition digits :: "str \<Rightarrow> bool" where
  "digits s \<longleftrightarrow> s \<noteq> [] \<and> list_all IsAsciiDigit s"

definition json_numeral :: "str \<Rightarrow> bool" where
  "json_numeral s \<longleftrightarrow>
     (\<exists>sign whole frac ex. s = sign @ whole @ frac @ ex \<and> sign \<in> {[], [0x2D]} \<and>
        digits whole \<and> (hd whole = 0x30 \<longrightarrow> length whole = 1) \<and>
        (frac = [] \<or> (\<exists>d. frac = 0x2E # d \<and> digits d)) \<and>
        (ex = [] \<or> (\<exists>e sg d. ex = e # sg @ d \<and> e \<in> {0x65, 0x45} \<and> sg \<in> {[], [0x2D], [0x2B]} \<and> digits d)))"

text \<open>The parser has moved over the piece \<open>s\<close> of its text.\<close>

definition took :: "json_parser \<Rightarrow> json_parser \<Rightarrow> str \<Rightarrow> bool" where
  "took p p' s \<longleftrightarrow> json_text p' = json_text p \<and> pos p' = pos p + length s \<and> index p' = index p + length s \<and>
     drop (pos p) (json_text p) = s @ drop (pos p') (json_text p)"

lemma took_refl [simp]: "took p p []"
  by (simp add: took_def)

lemma took_trans: "took p p' s \<Longrightarrow> took p' p'' t \<Longrightarrow> took p p'' (s @ t)"
  by (simp add: took_def)

lemma took_advance: "CanConsume 1 p \<Longrightarrow> took p (advance 1 p) [cur p]"
  by (simp add: took_def CanConsume_def cur_def byte_at_def Cons_nth_drop_Suc Suc_le_eq)

lemma took_bytes: "took p p' s \<Longrightarrow> json_text q = json_text p \<Longrightarrow> bytes_at q (pos p) (length s) = s \<and> sublist s (json_text p)"
proof -
  assume t: "took p p' s" and q: "json_text q = json_text p"
  let ?T = "json_text p"
  have d: "drop (pos p) ?T = s @ drop (pos p') ?T" using t by (simp add: took_def)
  have "?T = take (pos p) ?T @ s @ drop (pos p') ?T" by (metis append_take_drop_id d)
  then have sub: "sublist s ?T" by (metis sublist_def)
  have "bytes_at q (pos p) (length s) ! k = s ! k" if "k < length s" for k
  proof -
    have l: "length s \<le> length ?T - pos p" using d by (metis length_append length_drop le_add1)
    have "drop (pos p) ?T ! k = s ! k" using d that by (simp add: nth_append)
    moreover have "pos p + k < length ?T" using l that by linarith
    ultimately show ?thesis using that q by (simp add: bytes_at_def byte_at_def)
  qed
  then have "bytes_at q (pos p) (length s) = s" by (intro nth_equalityI) (simp_all add: bytes_at_def)
  then show ?thesis using sub by simp
qed

lemma read_digits_took:
  "read_digits c len p = (n, p') \<Longrightarrow> c = cur p \<Longrightarrow> \<exists>ds. took p p' ds \<and> list_all IsAsciiDigit ds \<and> n = len + length ds \<and> (ds \<noteq> [] \<longrightarrow> hd ds = c)"
proof (induction c len p rule: read_digits.induct)
  case (1 c len p)
  show ?case
  proof (cases "CanConsume 1 p \<and> IsAsciiDigit c")
    case True
    then have "read_digits (cur (advance 1 p)) (len + 1) (advance 1 p) = (n, p')"
      using "1.prems"(1) by (subst (asm) read_digits.simps) (simp add: Let_def)
    from "1.IH" [OF True refl this refl] obtain ds where ds: "took (advance 1 p) p' ds" "list_all IsAsciiDigit ds" "n = len + 1 + length ds"
      by blast
    have "took p p' (c # ds)" using took_trans [OF took_advance ds(1)] True "1.prems"(2) by simp
    then show ?thesis using ds True by (intro exI [of _ "c # ds"]) simp
  next
    case False
    then show ?thesis using "1.prems"(1) by (intro exI [of _ "[]"]) (subst (asm) read_digits.simps, auto)
  qed
qed

lemma number_part_took:
  assumes "number_part z p = (Some e, p')"
  shows "\<exists>ds. took p p' ds \<and> digits ds \<and> e = index p' \<and> (\<not> z \<longrightarrow> hd ds = 0x30 \<longrightarrow> length ds = 1)"
proof -
  obtain n p1 where r: "read_digits (cur p) 0 p = (n, p1)" by fastforce
  obtain ds where ds: "took p p1 ds" "list_all IsAsciiDigit ds" "n = length ds" "ds \<noteq> [] \<longrightarrow> hd ds = cur p"
    using read_digits_took [OF r refl] by auto
  have "n \<noteq> 0" "\<not> (\<not> z \<and> n > 1 \<and> cur p = 0x30)" "e = index p1" "p' = p1"
    using assms r by (auto simp: number_part_def ReadInt_def Let_def split: if_splits bool.splits)
  then show ?thesis using ds by (intro exI [of _ ds]) (auto simp: digits_def not_less le_Suc_eq)
qed

lemma fraction_took:
  assumes "fraction e p = Inr (Some e', p')" "e = index p"
  shows "\<exists>fr. took p p' fr \<and> e' = index p' \<and> (fr = [] \<or> (\<exists>d. fr = 0x2E # d \<and> digits d))"
proof (cases "cur p = 0x2E")
  case True
  then have c: "CanConsume 1 p" and n: "number_part True (advance 1 p) = (Some e', p')"
    using assms(1) by (auto simp: fraction_def rsimps NextChar_advance split: if_splits)
  obtain ds where ds: "took (advance 1 p) p' ds" "digits ds" "e' = index p'" using number_part_took [OF n] by auto
  then show ?thesis using took_trans [OF took_advance [OF c] ds(1)] True by auto
qed (use assms in \<open>auto simp: fraction_def intro: exI [of _ "[]"]\<close>)

lemma exponent_took:
  assumes "exponent e p = Inr (Some e', p')" "e = index p"
  shows "\<exists>ex. took p p' ex \<and> e' = index p' \<and>
    (ex = [] \<or> (\<exists>x sg d. ex = x # sg @ d \<and> x \<in> {0x65, 0x45} \<and> sg \<in> {[], [0x2D], [0x2B]} \<and> digits d))"
proof (cases "cur p = 0x65 \<or> cur p = 0x45")
  case True
  then obtain p2 where c: "CanConsume 1 p" and p2: "(if cur (advance 1 p) = 0x2D \<or> cur (advance 1 p) = 0x2B then NextChar (advance 1 p)
      else Inr (advance 1 p)) = Inr p2" and n: "number_part True p2 = (Some e', p')"
    using assms(1) by (auto simp: exponent_def rsimps NextChar_advance simp del: One_nat_def)
  obtain sg where sg: "took (advance 1 p) p2 sg" "sg \<in> {[], [0x2D], [0x2B]}"
  proof (cases "cur (advance 1 p) = 0x2D \<or> cur (advance 1 p) = 0x2B")
    case True
    then show ?thesis using that [of "[cur (advance 1 p)]"] p2 took_advance [of "advance 1 p"] by (auto simp: NextChar_advance)
  next
    case False
    then show ?thesis using that [of "[]"] p2 by simp
  qed
  obtain ds where ds: "took p2 p' ds" "digits ds" "e' = index p'" using number_part_took [OF n] by auto
  have "took p p' ([cur p] @ sg @ ds)" using took_trans [OF took_advance [OF c] took_trans [OF sg(1) ds(1)]] .
  then show ?thesis using True ds(2,3) sg(2) by (intro exI [of _ "[cur p] @ sg @ ds"]) auto
qed (use assms in \<open>auto simp: exponent_def intro: exI [of _ "[]"]\<close>)

text \<open>All parts of a number.\<close>

lemma number_took:
  assumes "(if cur p = 0x2D then NextChar p else Inr p) = Inr p1" "number_part False p1 = (Some e1, p2)"
    "fraction e1 p2 = Inr (Some e2, p3)" "exponent e2 p3 = Inr (Some e3, p4)"
  shows "\<exists>s. took p p4 s \<and> json_numeral s \<and> e3 = index p4"
proof -
  obtain sign where sign: "took p p1 sign" "sign \<in> {[], [0x2D]}"
  proof (cases "cur p = 0x2D")
    case True
    then show ?thesis using that [of "[0x2D]"] assms(1) took_advance [of p] by (auto simp: NextChar_advance)
  next
    case False
    then show ?thesis using that [of "[]"] assms(1) by simp
  qed
  obtain whole where whole: "took p1 p2 whole" "digits whole" "e1 = index p2" "hd whole = 0x30 \<longrightarrow> length whole = 1"
    using number_part_took [OF assms(2)] by auto
  obtain fr where fr: "took p2 p3 fr" "e2 = index p3" "fr = [] \<or> (\<exists>d. fr = 0x2E # d \<and> digits d)"
    using fraction_took [OF assms(3) whole(3)] by auto
  obtain ex where ex: "took p3 p4 ex" "e3 = index p4"
    "ex = [] \<or> (\<exists>x sg d. ex = x # sg @ d \<and> x \<in> {0x65, 0x45} \<and> sg \<in> {[], [0x2D], [0x2B]} \<and> digits d)"
    using exponent_took [OF assms(4) fr(2)] by auto
  have "took p p4 (sign @ whole @ fr @ ex)"
    using took_trans [OF sign(1) took_trans [OF whole(1) took_trans [OF fr(1) ex(1)]]] .
  moreover have "json_numeral (sign @ whole @ fr @ ex)"
    unfolding json_numeral_def using sign(2) whole(2,4) fr(3) ex(3) by blast
  ultimately show ?thesis using ex(2) by blast
qed

subsection \<open>A failure has a code\<close>

text \<open>The text \<open>T\<close> has a number, by the grammar, that is no \<^verbatim>\<open>int\<close> and that \<^verbatim>\<open>StringToDouble\<close> does not take as finite.\<close>

definition rejected :: "json_env \<Rightarrow> str \<Rightarrow> bool" where
  "rejected E T \<longleftrightarrow> (\<exists>s. sublist s T \<and> json_numeral s \<and> (\<nexists>i. StringToInt (isspace8 E) s = (True, Some i)) \<and> finite_double E s = None)"

definition reports :: "json_env \<Rightarrow> str \<Rightarrow> ('a option \<times> json_parser) result \<Rightarrow> bool" where
  "reports E T r \<longleftrightarrow> (\<forall>v p'. r = Inr (v, p') \<longrightarrow> json_text p' = T \<and> (v = None \<longrightarrow> error_code p' \<noteq> JSON_NO_ERROR \<or> rejected E T))"

lemma ReportError_simps [simp]: "error_code (ReportError code a p) = code" "json_text (ReportError code a p) = json_text p"
  by (simp_all add: ReportError_def)

lemma reports_simps [simp]:
  "reports E T (Inl e)" "reports E T (Inr (Some x, p)) \<longleftrightarrow> json_text p = T"
  "reports E T (Inr (None, p)) \<longleftrightarrow> json_text p = T \<and> (error_code p \<noteq> JSON_NO_ERROR \<or> rejected E T)"
  by (auto simp: reports_def)

lemma reports_rbind: "(\<And>x. m = Inr x \<Longrightarrow> reports E T (f x)) \<Longrightarrow> reports E T (rbind m f)"
  by (cases m) auto

lemma reports_option:
  "reports E T m \<Longrightarrow> (\<And>p'. f (None, p') = Inr (None, p')) \<Longrightarrow> (\<And>x p'. json_text p' = T \<Longrightarrow> reports E T (f (Some x, p'))) \<Longrightarrow>
     reports E T (rbind m f)"
proof (cases m)
  case (Inr x)
  assume "reports E T m" "\<And>p'. f (None, p') = Inr (None, p')" "\<And>x p'. json_text p' = T \<Longrightarrow> reports E T (f (Some x, p'))"
  then show ?thesis using Inr by (cases x; cases "fst x") auto
qed simp

lemma reports_require: "reports E T k \<Longrightarrow> reports E T (require b e k)"
  by (cases b) auto

lemma EatWhitespaceAndComments_text: "EatWhitespaceAndComments p = Inr p' \<Longrightarrow> json_text p' = json_text p"
proof (induction p rule: EatWhitespaceAndComments.induct)
  case (1 p)
  have count: "json_text (count_line p) = json_text p" by (simp add: count_line_def Let_def)
  show ?case
  proof (cases "pos p < length (json_text p) \<and> (cur p = 0x0D \<or> cur p = 0x0A)")
    case True
    then show ?thesis using 1 count by (subst (asm) EatWhitespaceAndComments.simps) auto
  next
    case no_line: False
    show ?thesis
    proof (cases "pos p < length (json_text p) \<and> cur p = 0x2F")
      case True
      then obtain eaten p1 where e: "EatComment p = Inr (eaten, p1)" "(if \<not> eaten then Inr p1 else EatWhitespaceAndComments p1) = Inr p'"
        using "1.prems" by (subst (asm) EatWhitespaceAndComments.simps) (auto simp: rsimps)
      have "json_text p1 = json_text p" using EatComment_moves e(1) by blast
      moreover have "json_text p' = json_text p1" if eaten
        using "1.IH"(3) e True that by auto
      ultimately show ?thesis using e(2) by (cases eaten) auto
    next
      case False
      then show ?thesis using 1 no_line by (subst (asm) EatWhitespaceAndComments.simps) (auto split: if_splits)
    qed
  qed
qed

lemma GetNextToken_text: "GetNextToken p = Inr (t, p') \<Longrightarrow> json_text p' = json_text p"
  using EatWhitespaceAndComments_text by (auto simp: GetNextToken_def rsimps)

lemma reports_GetNextToken:
  "json_text p = T \<Longrightarrow> (\<And>t p'. json_text p' = T \<Longrightarrow> reports E T (f (t, p'))) \<Longrightarrow> reports E T (rbind (GetNextToken p) f)"
  using GetNextToken_text by (intro reports_rbind) auto

lemma reports_NextChar:
  "json_text p = T \<Longrightarrow> (\<And>p'. json_text p' = T \<Longrightarrow> reports E T (f p')) \<Longrightarrow> reports E T (rbind (NextChar p) f)"
  by (intro reports_rbind) (auto simp: NextChar_advance)

lemma reports_NextNChars:
  "json_text p = T \<Longrightarrow> (\<And>p'. json_text p' = T \<Longrightarrow> reports E T (f p')) \<Longrightarrow> reports E T (rbind (NextNChars n p) f)"
  by (intro reports_rbind) (auto simp: NextNChars_advance)

lemma onward_text: "onward p p' \<Longrightarrow> json_text p' = json_text p"
  by (auto simp: onward_def)

lemma ConsumeEscape_reports: "json_text p = T \<Longrightarrow> reports E T (ConsumeEscape E sb p)"
proof -
  have hex: "reports E T (hex_escape E sb p)" if "json_text p = T" for sb p
    using that unfolding hex_escape_def
    by (auto split: prod.split bool.split option.split intro!: reports_NextChar) (rule reports_rbind; simp)+
  have unit: "reports E T (unit_escape E sb p)" if "json_text p = T" for sb p
  proof -
    have "reports E T (rbind (DecodeUTF16 E p1) (\<lambda>(utf8_units, p2). case utf8_units of
            None \<Rightarrow> Inr (None, ReportError JSON_INVALID_ESCAPE (- 1) p2)
          | Some units \<Rightarrow> rbind (sb_AppendString units sb) (\<lambda>sb1. Inr (Some sb1, p2))))" if "json_text p1 = T" for p1
    proof (rule reports_rbind, clarify)
      fix u p2 assume "DecodeUTF16 E p1 = Inr (u, p2)"
      then have "json_text p2 = T" using DecodeUTF16_onward onward_text that by metis
      then show "reports E T (case u of None \<Rightarrow> Inr (None, ReportError JSON_INVALID_ESCAPE (- 1) p2)
          | Some units \<Rightarrow> rbind (sb_AppendString units sb) (\<lambda>sb1. Inr (Some sb1, p2)))"
        by (cases u) (simp, simp, rule reports_rbind, simp)
    qed
    then show ?thesis using that unfolding unit_escape_def by (auto intro!: reports_NextChar)
  qed
  assume p: "json_text p = T"
  have after_next: "reports E T (if cur p1 = 0x78 then hex_escape E sb1 p1
           else if cur p1 = 0x75 then unit_escape E sb1 p1
           else case simple_escape (cur p1) of
                  Some c \<Rightarrow> rbind (sb_Append c sb1) (\<lambda>sb2. Inr (Some sb2, p1))
                | None \<Rightarrow> Inr (None, ReportError JSON_INVALID_ESCAPE 0 p1))" if "json_text p1 = T" for sb1 p1
    using hex [OF that] unit [OF that] by (simp add: reports_rbind that split: option.split)
  show "reports E T (ConsumeEscape E sb p)"
    by (simp add: ConsumeEscape_def Let_def p reports_NextChar [OF p after_next])
qed

lemma string_loop_reports: "json_text p = T \<Longrightarrow> reports E T (string_loop E sb p)"
proof (induction E sb p rule: string_loop.induct)
  case (1 E sb p)
  obtain c p1 where r: "read_character p = (c, p1)" by (cases "read_character p")
  have p1: "json_text p1 = T" using r 1(3) by (auto simp: read_character_def Let_def split: prod.splits)
  have "reports E T (rbind (ConsumeEscape E sb p1) (\<lambda>x. case x of (None, p2) \<Rightarrow> Inr (None, p2) | (Some sb1, p2) \<Rightarrow> string_loop E sb1 p2))"
    if "CanConsume 1 p" "\<not> (sint c < 0 \<or> \<not> IsValidCharacter c)" "c = 0x5C"
  proof (cases "ConsumeEscape E sb p1")
    case (Inr x)
    show ?thesis using ConsumeEscape_reports [OF p1, of E sb] Inr 1(1) [OF _ r [symmetric] that(2,3) Inr] that(1)
      by (cases x; cases "fst x") auto
  qed simp
  moreover have "reports E T (rbind (append_character p1 c sb) (\<lambda>sb1. string_loop E sb1 p1))"
    if "CanConsume 1 p" "\<not> (sint c < 0 \<or> \<not> IsValidCharacter c)" "c \<noteq> 0x5C" "c \<noteq> 0x22"
    by (rule reports_rbind) (rule 1(2) [OF _ r [symmetric] that(2-4)], use that p1 in auto)
  ultimately show ?case using r p1 1(3) by (subst string_loop.simps) auto
qed

lemma ConsumeStringRaw_reports: "json_text p = T \<Longrightarrow> reports E T (ConsumeStringRaw E p)"
  by (auto simp: ConsumeStringRaw_def intro!: reports_NextChar string_loop_reports)

text \<open>A number that no double holds is the exception: it fails without a code.\<close>

lemma part_reports: "json_text p = T \<Longrightarrow> reports E T (Inr (number_part z p))"
proof -
  assume "json_text p = T"
  moreover obtain n p1 where r: "read_digits (cur p) 0 p = (n, p1)" by fastforce
  moreover have "json_text p1 = json_text p" using read_digits_took [OF r refl] by (auto simp: took_def)
  ultimately show ?thesis by (auto simp: number_part_def ReadInt_def Let_def)
qed

lemma fraction_reports: "json_text p = T \<Longrightarrow> reports E T (fraction e p)"
  by (auto simp: fraction_def intro!: reports_NextChar part_reports)

lemma exponent_reports: "json_text p = T \<Longrightarrow> reports E T (exponent e p)"
proof -
  have "reports E T (rbind (if b then NextChar p1 else Inr p1) (\<lambda>p2. Inr (number_part True p2)))" if "json_text p1 = T" for b p1
    using that by (cases b) (auto intro!: reports_NextChar part_reports)
  then show "json_text p = T \<Longrightarrow> reports E T (exponent e p)" by (auto simp: exponent_def intro!: reports_NextChar)
qed

lemma end_of_number_reports:
  assumes "took p q s" "json_numeral s" "json_text p = T"
  shows "reports E T (end_of_number E (pos p) (index p) (index q) q)"
proof -
  have "reports E T (Inr (number_value_of E (bytes_at r (pos p) (index q - index p)), r))" if "json_text r = T" for r
  proof -
    have b: "bytes_at r (pos p) (index q - index p) = s" "sublist s T"
      using took_bytes [OF assms(1), of r] that assms(1,3) by (auto simp: took_def)
    show ?thesis
    proof (cases "number_value_of E s")
      case None
      then have "rejected E T" unfolding rejected_def using b(2) assms(2)
        by (intro exI [of _ s]) (auto simp: number_value_of_def split: prod.splits bool.splits option.splits)
      then show ?thesis using that None b(1) by simp
    qed (use that b(1) in simp)
  qed
  moreover have "json_text q = T" using assms(1,3) by (simp add: took_def)
  ultimately show ?thesis by (auto simp: end_of_number_def Let_def intro!: reports_GetNextToken)
qed

lemma ConsumeNumber_reports:
  assumes "json_text p = T"
  shows "reports E T (ConsumeNumber E p)"
  unfolding ConsumeNumber_def
proof (rule reports_rbind)
  fix p1 assume p1: "(if cur p = 0x2D then NextChar p else Inr p) = Inr p1"
  have t1: "json_text p1 = T" using p1 assms by (auto simp: NextChar_advance split: if_splits)
  show "reports E T (case number_part False p1 of (None, p2) \<Rightarrow> Inr (None, p2)
       | (Some end1, p2) \<Rightarrow> rbind (fraction end1 p2) (\<lambda>(r, p3). case r of None \<Rightarrow> Inr (None, p3)
           | Some end2 \<Rightarrow> rbind (exponent end2 p3) (\<lambda>(r, p4). case r of None \<Rightarrow> Inr (None, p4)
               | Some end3 \<Rightarrow> end_of_number E (pos p) (index p) end3 p4)))"
  proof (cases "number_part False p1")
    case (Pair r p2)
    show ?thesis
    proof (cases r)
      case None
      then show ?thesis using part_reports [OF t1, of E False] Pair by simp
    next
      case (Some e1)
      have t2: "json_text p2 = T" using part_reports [OF t1, of E False] Pair Some by simp
      show ?thesis unfolding Pair Some prod.case option.case
      proof (rule reports_rbind, clarify)
        fix r3 p3 assume f: "fraction e1 p2 = Inr (r3, p3)"
        show "reports E T (case r3 of None \<Rightarrow> Inr (None, p3)
           | Some end2 \<Rightarrow> rbind (exponent end2 p3) (\<lambda>(r, p4). case r of None \<Rightarrow> Inr (None, p4)
               | Some end3 \<Rightarrow> end_of_number E (pos p) (index p) end3 p4))"
        proof (cases r3)
          case None
          then show ?thesis using fraction_reports [OF t2, of E e1] f by simp
        next
          case r3: (Some e2)
          have t3: "json_text p3 = T" using fraction_reports [OF t2, of E e1] f r3 by simp
          show ?thesis unfolding r3 option.case
          proof (rule reports_rbind, clarify)
            fix r4 p4 assume x: "exponent e2 p3 = Inr (r4, p4)"
            show "reports E T (case r4 of None \<Rightarrow> Inr (None, p4) | Some end3 \<Rightarrow> end_of_number E (pos p) (index p) end3 p4)"
            proof (cases r4)
              case None
              then show ?thesis using exponent_reports [OF t3, of E e2] x by simp
            next
              case r4: (Some e3)
              obtain s where "took p p4 s" "json_numeral s" "e3 = index p4"
                using number_took [OF p1 _ _ x [unfolded r4]] Pair Some f r3 by blast
              then show ?thesis using end_of_number_reports assms r4 by simp
            qed
          qed
        qed
      qed
    qed
  qed
qed

lemma literal_reports: "json_text p = T \<Longrightarrow> reports E T (ConsumeLiteral p)"
  by (auto simp: ConsumeLiteral_def literal_def Let_def intro!: reports_NextNChars)

lemma after_element_reports: "json_text p = T \<Longrightarrow> reports E T (after_element c a p)"
  by (auto simp: after_element_def intro!: reports_NextChar reports_GetNextToken)

text \<open>What the loops need of the parser of an element.\<close>

definition parse_reports :: "json_env \<Rightarrow> str \<Rightarrow> parse_value \<Rightarrow> bool" where
  "parse_reports E T parse \<longleftrightarrow> (\<forall>t p. json_text p = T \<longrightarrow> reports E T (parse t p))"

lemma parse_reportsD: "parse_reports E T parse \<Longrightarrow> json_text p = T \<Longrightarrow> reports E T (parse t p)"
  by (simp add: parse_reports_def)

lemma list_loop_reports: "parse_reports E T parse \<Longrightarrow> json_text p = T \<Longrightarrow> reports E T (list_loop parse n t xs p)"
proof (induction n arbitrary: t xs p)
  case (Suc n)
  then show ?case by (auto intro!: reports_option [OF parse_reportsD] reports_option [OF after_element_reports])
qed simp

lemma ConsumeKey_reports: "json_text p = T \<Longrightarrow> reports E T (ConsumeKey E p)"
  unfolding ConsumeKey_def
  by (rule reports_option [OF ConsumeStringRaw_reports]) (auto intro!: reports_NextChar reports_GetNextToken)

lemma dictionary_loop_reports: "parse_reports E T parse \<Longrightarrow> json_text p = T \<Longrightarrow> reports E T (dictionary_loop E parse n t d p)"
proof (induction n arbitrary: t d p)
  case (Suc n)
  then show ?case
    by (auto intro!: reports_option [OF ConsumeKey_reports] reports_option [OF parse_reportsD] reports_option [OF after_element_reports]
        split: prod.split)
qed simp

lemma with_stack_reports:
  assumes "\<And>p. json_text p = T \<Longrightarrow> reports E T (body p)" "json_text p = T"
  shows "reports E T (with_stack body p)"
proof -
  have "reports E T (rbind m (\<lambda>(v, p2). Inr (v, p2\<lparr>stack_depth := stack_depth p2 - 1\<rparr>)))"
    if "reports E T m" for m :: "(val option \<times> json_parser) result"
    using that by (cases m) (auto simp: reports_def)
  then show ?thesis using assms by (auto simp: with_stack_def Let_def intro!: reports_require)
qed

lemma ParseToken_reports: "parse_reports E T (ParseToken E n)"
proof (induction n)
  case (Suc n)
  have "reports E T (ConsumeList (ParseToken E n) p)" if "json_text p = T" for p
  proof (cases "cur p = 0x5B")
    case True
    show ?thesis unfolding ConsumeList_def using True that
      by (simp, intro with_stack_reports reports_NextChar reports_GetNextToken) (simp_all del: list_loop.simps add: list_loop_reports [OF Suc])
  qed (use that in \<open>simp add: ConsumeList_def\<close>)
  moreover have "reports E T (ConsumeDictionary E (ParseToken E n) p)" if "json_text p = T" for p
  proof (cases "cur p = 0x7B")
    case True
    show ?thesis unfolding ConsumeDictionary_def using True that
      by (simp, intro with_stack_reports reports_NextChar reports_GetNextToken) (simp_all del: dictionary_loop.simps add: dictionary_loop_reports [OF Suc])
  qed (use that in \<open>simp add: ConsumeDictionary_def\<close>)
  moreover have "reports E T (ConsumeString E p)" if "json_text p = T" for p
    unfolding ConsumeString_def
    by (rule reports_option [OF ConsumeStringRaw_reports [OF that]]) (auto intro!: reports_rbind)
  ultimately show ?case using ConsumeNumber_reports literal_reports by (simp add: parse_reports_def)
qed (simp add: parse_reports_def)

lemma Parse_json_reports: "reports E json (Parse_json E memory json p)"
proof -
  have after: "reports E json (rbind (ends_after_root p4) (\<lambda>(ends, p5).
                 if \<not> ends then Inr (None, ReportError JSON_UNEXPECTED_DATA_AFTER_ROOT 1 p5)
                 else if \<not> detachable_children p5 \<and> IsType v TYPE_STRING
                 then rbind (DeepCopy v) (\<lambda>v1. Inr (Some v1, p5)) else Inr (Some v, p5)))" if "json_text p4 = json" for v p4
  proof (rule reports_rbind, clarify)
    fix ends p5 assume "ends_after_root p4 = Inr (ends, p5)"
    then have "json_text p5 = json" using that
      by (auto simp: ends_after_root_def rsimps NextChar_advance split: if_splits dest!: GetNextToken_text)
    then show "reports E json (if \<not> ends then Inr (None, ReportError JSON_UNEXPECTED_DATA_AFTER_ROOT 1 p5)
                 else if \<not> detachable_children p5 \<and> IsType v TYPE_STRING
                 then rbind (DeepCopy v) (\<lambda>v1. Inr (Some v1, p5)) else Inr (Some v, p5))"
      by (auto intro!: reports_rbind)
  qed
  have token: "reports E json (rbind (GetNextToken p2) (\<lambda>(token, p3).
         rbind (ParseToken E (kStackMaxDepth + 1) token p3) (\<lambda>(root, p4).
           case root of None \<Rightarrow> Inr (None, p4)
           | Some v \<Rightarrow> rbind (ends_after_root p4) (\<lambda>(ends, p5).
                 if \<not> ends then Inr (None, ReportError JSON_UNEXPECTED_DATA_AFTER_ROOT 1 p5)
                 else if \<not> detachable_children p5 \<and> IsType v TYPE_STRING
                 then rbind (DeepCopy v) (\<lambda>v1. Inr (Some v1, p5)) else Inr (Some v, p5)))))" if "json_text p2 = json" for p2
    unfolding prod.case
    by (rule reports_GetNextToken [OF that], unfold prod.case, rule reports_option [OF parse_reportsD [OF ParseToken_reports]], assumption)
      (simp, simp add: after)
  show ?thesis unfolding Parse_json_def Let_def skip_bom_def
    by (rule reports_rbind) (rule token, auto simp: NextNChars_advance split: if_splits)
qed

text \<open>
  C15: a failed read of a text has an error code, and the message of that code, which is never empty; with one exception:
  without a code and a message a read fails only on a text with a number, by the grammar of JSON, that is no
  \<^verbatim>\<open>int\<close> and that \<^verbatim>\<open>StringToDouble\<close> does not read as a finite double.
\<close>

theorem failed_read_has_code:
  assumes "ReadAndReturnError E memory json options = Inr (Inl (code, msg))"
  shows "code \<noteq> JSON_NO_ERROR \<and> (\<exists>pre. msg = pre @ ErrorCodeToString code) \<and> msg \<noteq> [] \<or>
    (\<exists>s. sublist s json \<and> json_numeral s \<and> (\<nexists>i. StringToInt (isspace8 E) s = (True, Some i)) \<and>
      (\<nexists>x. StringToDouble (isspace8 E) (strtod E) s = (True, Some x)))"
proof -
  obtain p where p: "Parse_json E memory json (JSONParser options) = Inr (None, p)" "code = error_code p" "GetErrorMessage p = Inr msg"
    using assms by (auto simp: ReadAndReturnError_def rsimps split: option.splits)
  then have "code \<noteq> JSON_NO_ERROR \<or> rejected E json"
    using Parse_json_reports [of E json memory "JSONParser options"] by (simp add: reports_def)
  moreover have "\<exists>pre. msg = pre @ ErrorCodeToString code"
    using p(2,3) by (auto simp: GetErrorMessage_def FormatErrorMessage_def rsimps split: if_splits)
  moreover have "ErrorCodeToString code \<noteq> []" if "code \<noteq> JSON_NO_ERROR"
    using that by (cases code) (simp_all add: text8_def)
  moreover have "\<nexists>x. StringToDouble (isspace8 E) (strtod E) s = (True, Some x)" if "finite_double E s = None" for s
    using that by (auto simp: finite_double_def)
  ultimately show ?thesis unfolding rejected_def by (metis append_is_Nil_conv)
qed

definition sample_env :: json_env where
  "sample_env = \<lparr>isspace8 = (\<lambda>c. c = 0x20), strtod = (\<lambda>s. (Some 0, length (takeWhile IsAsciiDigit s), False))\<rparr>"

theorem failed_read_has_code_witness:
  "JSON_TRAILING_COMMA \<noteq> JSON_NO_ERROR \<and>
     (\<exists>pre. text8 ''Line: 1, column: 4, Trailing comma not allowed.'' = pre @ ErrorCodeToString JSON_TRAILING_COMMA) \<and>
     text8 ''Line: 1, column: 4, Trailing comma not allowed.'' \<noteq> [] \<or>
   (\<exists>s. sublist s (text8 ''[1,]'') \<and> json_numeral s \<and> (\<nexists>i. StringToInt (isspace8 sample_env) s = (True, Some i)) \<and>
      (\<nexists>x. StringToDouble (isspace8 sample_env) (strtod sample_env) s = (True, Some x)))"
proof (rule failed_read_has_code)
  show "ReadAndReturnError sample_env 0 (text8 ''[1,]'') 0 =
      Inr (Inl (JSON_TRAILING_COMMA, text8 ''Line: 1, column: 4, Trailing comma not allowed.''))" by code_simp
qed

subsection \<open>Texts on which the reader surprises\<close>

text \<open>The escape the writer makes for a zero character is dropped.\<close>

lemma zero_character_dropped:
  "GetQuotedJSONString [0x61, 0, 0x62] = Inr ([0x22, 0x61, 0x5C] @ text8 ''u0000'' @ [0x62, 0x22])"
  "JSONReader_Read sample_env 0 ([0x22, 0x61, 0x5C] @ text8 ''u0000'' @ [0x62, 0x22]) 0 = Inr (Some (StringValue (text8 ''ab'')))"
  by code_simp+

text \<open>Signs count as hexadecimal digits, and then an assertion fails.\<close>

lemma sign_in_escape:
  "JSONReader_Read sample_env 0 ([0x22, 0x5C] @ text8 ''u-001'' @ [0x22]) 0 = Inl (Dcheck ''IsStringUTF8(in_value)'')"
  "JSONReader_Read sample_env 0 ([0x22, 0x5C] @ text8 ''x-1'' @ [0x22]) 0 = Inl (Dcheck ''c >= 0 && c < 128'')"
  by code_simp+

text \<open>A literal may end in the byte behind the text.\<close>

lemma literal_behind_the_text:
  "JSONReader_Read sample_env 0x65 (text8 ''tru'') JSON_DETACHABLE_CHILDREN = Inr (Some (BooleanValue True))"
  by code_simp

text \<open>The line end after a number counts twice.\<close>

lemma line_counted_twice:
  "ReadAndReturnError sample_env 0 (text8 ''[1'' @ [0x0A] @ text8 '',x]'') 0 =
     Inr (Inl (JSON_UNEXPECTED_TOKEN, text8 ''Line: 3, column: 3, Unexpected token.''))"
  by code_simp

text \<open>A number that is no finite double fails without a code.\<close>

lemma huge_number_without_code:
  "ReadAndReturnError (sample_env\<lparr>strtod := (\<lambda>s. (None, length s, True))\<rparr>) 0 (text8 ''1e999'') 0 = Inr (Inl (JSON_NO_ERROR, []))"
  by code_simp

end
