(* ===== verification/Json_Rendering.thy ===== *)
theory Json_Rendering
  imports Json_Parser_Props
begin

text \<open>
  What the writer writes for a value, as a function of the value alone, and the texts it can write at all: values
  without doubles and binaries, whose strings have no zero character (the reader drops it).
\<close>

subsection \<open>Values that are written faithfully\<close>

definition plain_string :: "str \<Rightarrow> bool" where
  "plain_string s \<longleftrightarrow> 0 \<notin> set s \<and> int (length s) \<le> 2147483647"

fun plain :: "val \<Rightarrow> bool" and plain_entries :: "dict \<Rightarrow> bool" and plain_vals :: "val list \<Rightarrow> bool" where
  "plain (DoubleValue x) = False"
| "plain (BinaryValue b) = False"
| "plain (StringValue s) = plain_string s"
| "plain (DictionaryValue d) = plain_entries d"
| "plain (ListValue xs) = plain_vals xs"
| "plain _ = True"
| "plain_entries [] = True"
| "plain_entries ((k, v) # d) = (plain_string k \<and> plain v \<and> plain_entries d)"
| "plain_vals [] = True"
| "plain_vals (v # xs) = (plain v \<and> plain_vals xs)"

text \<open>How deep dictionaries and lists are nested.\<close>

fun nesting :: "val \<Rightarrow> nat" and nesting_entries :: "dict \<Rightarrow> nat" and nesting_vals :: "val list \<Rightarrow> nat" where
  "nesting (DictionaryValue d) = Suc (nesting_entries d)"
| "nesting (ListValue xs) = Suc (nesting_vals xs)"
| "nesting _ = 0"
| "nesting_entries [] = 0"
| "nesting_entries ((k, v) # d) = max (nesting v) (nesting_entries d)"
| "nesting_vals [] = 0"
| "nesting_vals (v # xs) = max (nesting v) (nesting_vals xs)"

subsection \<open>The text of a string\<close>

definition esc :: "code_point \<Rightarrow> str" where "esc c = escape_code_point c []"

lemma escape_code_point_append: "escape_code_point c dest = dest @ esc c"
  by (simp add: esc_def escape_code_point_def EscapeSpecialCodePoint_def WriteUnicodeCharacter8_def Let_def)

lemma escape_loop8_encode:
  "list_all IsValidCodepoint cs \<Longrightarrow>
    escape_loop8 (pre @ encode8 cs) (length pre) b dest = (b, dest @ concat (map esc cs))"
proof (induction cs arbitrary: pre dest)
  case (Cons c cs)
  let ?src = "pre @ encode8 (c # cs)" let ?a = "CBU8_APPEND_UNSAFE c"
  have "CBU8_NEXT ?src (length pre) (length ?src) = (length pre + length ?a, c)"
    using CBU8_NEXT_APPEND [of c pre "encode8 cs"] Cons.prems by simp
  then have "ReadUnicodeCharacter8 ?src (length ?src) (length pre) = (length pre + length ?a - 1, Some c)"
    using Cons.prems by (simp add: ReadUnicodeCharacter8_def)
  moreover have "escape_loop8 ((pre @ ?a) @ encode8 cs) (length (pre @ ?a)) b (dest @ esc c) =
      (b, (dest @ esc c) @ concat (map esc cs))"
    using Cons.prems by (intro Cons.IH) simp
  moreover have "length pre + length ?a - 1 + 1 = length (pre @ ?a)" "length pre < length ?src"
    by (cases ?a; simp)+
  ultimately show ?case
    by (subst escape_loop8.simps) (simp add: escape_code_point_append del: One_nat_def)
qed (simp add: escape_loop8.simps)

definition quoted :: "str \<Rightarrow> str" where "quoted s = 0x22 # snd (escape_loop8 s 0 False []) @ [0x22]"

lemma quoted_encode8: "list_all IsValidCharacter cs \<Longrightarrow> quoted (encode8 cs) = 0x22 # concat (map esc cs) @ [0x22]"
  using escape_loop8_encode [of cs "[]" False "[]"] character_codepoint by (simp add: quoted_def list_all_iff)

lemma EscapeJSONString_quoted:
  assumes "IsStringUTF8 s" "int (length s) \<le> 2147483647"
  shows "EscapeJSONString s True json = Inr (True, json @ quoted s)"
proof -
  obtain cs where cs: "list_all IsValidCharacter cs" "s = encode8 cs" using assms(1) by (auto simp: IsStringUTF8_iff)
  then have "list_all IsValidCodepoint cs" using character_codepoint by (auto simp: list_all_iff)
  then have "escape_loop8 s 0 False (json @ [0x22]) = (False, (json @ [0x22]) @ concat (map esc cs))"
    using escape_loop8_encode [of cs "[]"] cs(2) by simp
  then show ?thesis using assms(2) cs
    by (simp add: EscapeJSONString_def EscapeJSONStringImpl_def quoted_encode8 require_def)
qed

subsection \<open>The text of a value\<close>

definition int_text :: "int \<Rightarrow> str" where
  "int_text i = (if i < 0 then [0x2D] else []) @ dec_string (nat \<bar>i\<bar>)"

definition spaces :: "bool \<Rightarrow> str" where "spaces pr = (if pr then [0x20] else [])"

definition line :: "bool \<Rightarrow> nat \<Rightarrow> str" where
  "line pr depth = (if pr then [0x0D, 0x0A] @ replicate (depth * 3) 0x20 else [])"

fun render :: "bool \<Rightarrow> nat \<Rightarrow> val \<Rightarrow> str" and
  more_values :: "bool \<Rightarrow> nat \<Rightarrow> val list \<Rightarrow> str" and
  more_entries :: "bool \<Rightarrow> nat \<Rightarrow> dict \<Rightarrow> str"
where
  "render pr depth (BooleanValue b) = (if b then text8 ''true'' else text8 ''false'')"
| "render pr depth (IntegerValue i) = int_text i"
| "render pr depth (StringValue s) = quoted s"
| "render pr depth (ListValue []) = 0x5B # spaces pr @ spaces pr @ [0x5D]"
| "render pr depth (ListValue (v # vs)) = 0x5B # spaces pr @ render pr depth v @ more_values pr depth vs @ spaces pr @ [0x5D]"
| "render pr depth (DictionaryValue []) = 0x7B # (if pr then [0x0D, 0x0A] else []) @ line pr depth @ [0x7D]"
| "render pr depth (DictionaryValue ((k, v) # d)) =
     0x7B # line pr (depth + 1) @ quoted k @ 0x3A # spaces pr @ render pr (depth + 1) v @
     more_entries pr depth d @ line pr depth @ [0x7D]"
| "render pr depth _ = text8 ''null''"
| "more_values pr depth [] = []"
| "more_values pr depth (v # vs) = 0x2C # spaces pr @ render pr depth v @ more_values pr depth vs"
| "more_entries pr depth [] = []"
| "more_entries pr depth ((k, v) # d) =
     0x2C # line pr (depth + 1) @ quoted k @ 0x3A # spaces pr @ render pr (depth + 1) v @ more_entries pr depth d"

lemma plain_written: "plain v \<Longrightarrow> \<not> omitted W v"
  by (cases v) (auto simp: omitted_def)

lemma write_key_quoted:
  assumes "IsStringUTF8 k" "plain_string k"
  shows "write_key W k json = Inr (json @ quoted k @ 0x3A # spaces (pretty_print W))"
  using assms by (simp add: write_key_def EscapeJSONString_quoted plain_string_def spaces_def)

text \<open>The writer, one statement per function of its mutual recursion.\<close>

lemma write_int_text: "is_int32 i \<Longrightarrow> IntToString i = Inr (int_text i :: str)"
  by (simp add: IntToString_def int_text_def IntToStringT_eq in_type_def is_int32_def limits_max_def limits_min_def
      int32_t_def)

lemma writes:
  "wf_val v \<Longrightarrow> plain v \<Longrightarrow> BuildJSONString W dts v depth json = Inr (True, json @ render (pretty_print W) depth v)"
  "wf_vals vs \<Longrightarrow> plain_vals vs \<Longrightarrow> write_list W dts vs depth True True json =
     Inr (True, json @ more_values (pretty_print W) depth vs)"
  "wf_entries d \<Longrightarrow> plain_entries d \<Longrightarrow> write_dictionary W dts d depth True True json =
     Inr (True, json @ more_entries (pretty_print W) depth d)"
proof (induction "pretty_print W" depth v and "pretty_print W" depth vs and "pretty_print W" depth d arbitrary: json and json and json
    rule: render_more_values_more_entries.induct)
qed (auto simp: plain_written write_key_quoted write_int_text EscapeJSONString_quoted plain_string_def spaces_def line_def
    open_list_def close_list_def open_dictionary_def close_dictionary_def list_separator_def dictionary_separator_def
    IndentLine_def kPrettyPrintLineEnding_def Let_def)

end
