(* ===== verification/Json_Strings.thy ===== *)
theory Json_Strings
  imports Json_Rendering
begin

text \<open>
  The parser at a place in the text: what stands before and after its position. On such a view the moves of the
  parser are list operations, and a string the writer wrote is read back character by character.
\<close>

subsection \<open>A place in the text\<close>

definition here :: "str \<Rightarrow> str \<Rightarrow> json_parser \<Rightarrow> bool" where
  "here pre rest p \<longleftrightarrow> json_text p = pre @ rest \<and> pos p = length pre"

lemma here_cur: "here pre (c # rest) p \<Longrightarrow> cur p = c"
  by (simp add: here_def cur_def byte_at_def)

lemma here_CanConsume: "here pre rest p \<Longrightarrow> CanConsume n p \<longleftrightarrow> n \<le> length rest"
  by (auto simp: here_def CanConsume_def)

lemma here_advance: "here pre (s @ rest) p \<Longrightarrow> here (pre @ s) rest (advance (length s) p)"
  by (simp add: here_def)

lemma here_NextChar:
  assumes "here pre (c # rest) p"
  shows "NextChar p = Inr (advance 1 p)" "here (pre @ [c]) rest (advance 1 p)"
  using assms here_advance [of pre "[c]" rest p] by (simp_all add: NextChar_def here_CanConsume)

lemma bytes_at_text: "json_text p = pre @ s @ rest \<Longrightarrow> bytes_at p (length pre) (length s) = s"
  by (rule nth_equalityI) (simp_all add: bytes_at_def byte_at_def nth_append)

lemma here_bytes: "here pre (s @ rest) p \<Longrightarrow> bytes_at p (pos p) (length s) = s"
  using bytes_at_text [of p pre s rest] by (simp add: here_def)

subsection \<open>Strings\<close>

text \<open>
  In the loop of a string the position lags behind the index. The builder holds the text so far, either as
  a string of its own or as the piece of the text before the index.
\<close>

definition scanning :: "nat \<Rightarrow> str \<Rightarrow> str \<Rightarrow> json_parser \<Rightarrow> bool" where
  "scanning d pre rest p \<longleftrightarrow> json_text p = pre @ rest \<and> behind p = 0 \<and> \<not> detachable_children p \<and> stack_depth p = d \<and>
     index p = length pre \<and> pos p \<le> length pre"

definition holds :: "str \<Rightarrow> string_builder \<Rightarrow> str \<Rightarrow> bool" where
  "holds pre sb s \<longleftrightarrow>
     (case sb_string sb of Some t \<Rightarrow> t = s
      | None \<Rightarrow> sb_length sb = length s \<and> (\<exists>pre0. pre = pre0 @ s \<and> sb_pos sb = length pre0))"

lemma holds_AsString: "holds pre sb s \<Longrightarrow> json_text p = pre @ rest \<Longrightarrow> sb_AsString p sb = s"
  by (auto simp: holds_def sb_AsString_def intro: bytes_at_text split: option.splits)

lemma holds_Convert: "holds pre sb s \<Longrightarrow> json_text p = pre @ rest \<Longrightarrow> sb_string (sb_Convert p sb) = Some s"
  using holds_AsString [of pre sb s p rest] by (cases "sb_string sb") (simp_all add: sb_Convert_def holds_def)

lemma holds_Append: "c < 0x80 \<Longrightarrow> holds pre sb s \<Longrightarrow> \<exists>sb'. sb_Append c sb = Inr sb' \<and> holds (pre @ [c]) sb' (s @ [c])"
  by (auto simp: sb_Append_def holds_def split: option.splits)

lemma sint_ascii:
  assumes "IsValidCharacter c"
  shows "0 \<le> sint c" "sint c < 0x80 \<longleftrightarrow> c \<le> 0x7f"
proof -
  have "c < 0x80000000" using assms by (auto simp: IsValidCharacter_def word_less_nat_alt word_le_nat_alt)
  then have "sint c = uint c" by (rule sint_code)
  then show "0 \<le> sint c" "sint c < 0x80 \<longleftrightarrow> c \<le> 0x7f" by (auto simp: word_le_def)
qed

lemma ucast_ascii: "c \<le> 0x7f \<Longrightarrow> (ucast c :: byte) < 0x80" for c :: code_point
  by (simp add: word_less_nat_alt word_le_nat_alt unsigned_ucast_eq take_bit_nat_eq_self)

lemma scanning_read_character:
  assumes "scanning d pre (CBU8_APPEND_UNSAFE c @ rest) p" "IsValidCharacter c"
  obtains p1 where "read_character p = (c, p1)" "scanning d (pre @ CBU8_APPEND_UNSAFE c) rest p1" "pos p1 = length pre"
proof -
  let ?t = "pre @ CBU8_APPEND_UNSAFE c @ rest"
  have "CBU8_NEXT (?t @ [0]) (length pre) (length ?t) = (length pre + length (CBU8_APPEND_UNSAFE c), c)"
    using CBU8_NEXT_prefix [of "length pre" ?t "[0]"] CBU8_NEXT_APPEND [of c pre rest] character_codepoint [OF assms(2)] by simp
  then show ?thesis using assms(1) by (intro that) (auto simp: read_character_def scanning_def Let_def)
qed

lemma scanning_CanConsume: "scanning d pre rest p \<Longrightarrow> rest \<noteq> [] \<Longrightarrow> CanConsume 1 p"
  by (auto simp: scanning_def CanConsume_def Suc_le_eq length_greater_0_conv [symmetric] simp del: length_greater_0_conv)

lemma holds_append_character:
  assumes "holds pre sb s" "json_text p = pre @ rest" "IsValidCharacter c"
  shows "\<exists>sb'. append_character p c sb = Inr sb' \<and> holds (pre @ CBU8_APPEND_UNSAFE c) sb' (s @ CBU8_APPEND_UNSAFE c)"
proof (cases "c \<le> 0x7f")
  case True
  then have "CBU8_APPEND_UNSAFE c = [ucast c]" by (simp add: CBU8_APPEND_UNSAFE_def)
  then show ?thesis using holds_Append [OF ucast_ascii [OF True] assms(1)] sint_ascii [OF assms(3)] True
    by (simp add: append_character_def)
next
  case False
  have "sb_string (sb_Convert p sb) = Some s" using assms(1,2) by (rule holds_Convert)
  then show ?thesis using sint_ascii [OF assms(3)] False
    by (auto simp: append_character_def DecodeUTF8_def sb_AppendString_def holds_def)
qed

subsection \<open>Escapes\<close>

lemma ConsumeEscape_simple:
  assumes "here pre (c # x # rest) p" "simple_escape x = Some b" "x \<noteq> 0x78" "x \<noteq> 0x75" "b < 0x80"
    and "sb_string (sb_Convert p sb) = Some s"
  shows "\<exists>sb'. ConsumeEscape E sb p = Inr (Some sb', advance 1 p) \<and> sb_string sb' = Some (s @ [b])"
  using assms here_CanConsume [OF assms(1)] here_NextChar [OF assms(1)] here_cur [OF here_NextChar(2) [OF assms(1)]]
  by (simp add: ConsumeEscape_def Let_def sb_Append_def)

lemma ConsumeEscape_unit:
  assumes "here pre (x # 0x75 # h @ rest) p" "length h = 4"
    and "HexStringToInt (isspace8 E) h = (True, Some (uint c))" "c < 0x80" "c \<noteq> 0"
    and "sb_string (sb_Convert p sb) = Some s"
  shows "\<exists>sb'. ConsumeEscape E sb p = Inr (Some sb', advance 5 p) \<and> sb_string sb' = Some (s @ CBU8_APPEND_UNSAFE c)"
proof -
  have p1: "NextChar p = Inr (advance 1 p)" "here (pre @ [x]) (0x75 # h @ rest) (advance 1 p)"
    by (rule here_NextChar [OF assms(1)])+
  have p2: "NextChar (advance 1 p) = Inr (advance 2 p)" "here ((pre @ [x]) @ [0x75]) (h @ rest) (advance 2 p)"
    using here_NextChar [OF p1(2)] by (simp_all add: numeral_2_eq_2)
  have h: "bytes_at (advance 2 p) (pos (advance 2 p)) 4 = h" using here_bytes [OF p2(2)] assms(2) by simp
  have p3: "NextNChars 3 (advance 2 p) = Inr (advance 5 p)"
    using here_CanConsume [OF p2(2)] assms(2) by (simp add: NextNChars_def)
  have c: "\<not> CBU_IS_SURROGATE c" "c_string (CBU8_APPEND_UNSAFE c) = CBU8_APPEND_UNSAFE c"
  proof -
    have u: "unat c < 2 ^ 7" "unat c \<noteq> 0" using assms(4,5) by (simp_all add: word_less_nat_alt unat_eq_0)
    have "c AND 0xfffff800 \<le> c" by (rule word_and_le2)
    then have "c AND 0xfffff800 < 0x80" using assms(4) by (rule order.strict_trans1)
    then show "\<not> CBU_IS_SURROGATE c" by (auto simp: CBU_IS_SURROGATE_def)
    have "(ucast c :: byte) \<noteq> 0" using u by (simp add: unat_eq_0 [symmetric] unsigned_ucast_eq take_bit_nat_eq_self)
    then show "c_string (CBU8_APPEND_UNSAFE c) = CBU8_APPEND_UNSAFE c"
      using u by (simp add: c_string_def CBU8_APPEND_UNSAFE_def word_le_nat_alt)
  qed
  have "DecodeUTF16 E (advance 2 p) = Inr (Some (CBU8_APPEND_UNSAFE c), advance 5 p)"
    using here_CanConsume [OF p2(2)] assms(2,3) c p3 h by (simp add: DecodeUTF16_def Let_def)
  then have "unit_escape E (sb_Convert p sb) (advance 1 p) =
      rbind (sb_AppendString (CBU8_APPEND_UNSAFE c) (sb_Convert p sb)) (\<lambda>sb1. Inr (Some sb1, advance 5 p))"
    using here_CanConsume [OF p1(2)] assms(2) p2(1) by (simp add: unit_escape_def)
  moreover have "cur (advance 1 p) = 0x75" by (rule here_cur [OF p1(2)])
  ultimately show ?thesis using here_CanConsume [OF assms(1)] p1(1) assms(6)
    by (simp add: ConsumeEscape_def Let_def sb_AppendString_def)
qed

text \<open>The three ways a character is written.\<close>

lemma HexStringToInt_space: "s \<noteq> [] \<Longrightarrow> \<not> sp (hd s) \<Longrightarrow> HexStringToInt sp s = HexStringToInt (\<lambda>_. False) s"
  by (cases s) (simp_all add: HexStringToInt_def StringToIntImpl_def IteratorRangeToNumber_def)

definition escaped_characters :: "code_point list" where
  "escaped_characters = [1, 2, 3, 4, 5, 6, 7, 8] @
    [9, 10, 11, 12, 13, 14, 15, 16] @
    [17, 18, 19, 20, 21, 22, 23, 24] @
    [25, 26, 27, 28, 29, 30, 31] @
    [0x22, 0x3C, 0x5C]"

definition escape_readable :: "code_point \<Rightarrow> bool" where
  "escape_readable c \<longleftrightarrow> (let e = esc c in
     length e = 2 \<and> hd e = 0x5C \<and> simple_escape (e ! 1) = Some (ucast c) \<and> e ! 1 \<noteq> 0x78 \<and> e ! 1 \<noteq> 0x75 \<or>
     length e = 6 \<and> take 2 e = [0x5C, 0x75] \<and> e ! 2 = 0x30 \<and>
     HexStringToInt (\<lambda>_. False) (drop 2 e) = (True, Some (uint c)))"

lemma escapes_readable: "list_all escape_readable escaped_characters"
proof -
  have "list_all escape_readable [1, 2, 3, 4, 5, 6, 7, 8]"
    "list_all escape_readable [9, 10, 11, 12, 13, 14, 15, 16]"
    "list_all escape_readable [17, 18, 19, 20, 21, 22, 23, 24]"
    "list_all escape_readable [25, 26, 27, 28, 29, 30, 31]"
    "list_all escape_readable [0x22, 0x3C, 0x5C]" by code_simp+
  then show ?thesis by (simp only: escaped_characters_def list_all_append)
qed

lemma escaped_characters: "0 < c \<Longrightarrow> c < 32 \<Longrightarrow> c \<in> set escaped_characters"
proof -
  have "list_all (\<lambda>n. of_nat n \<in> set escaped_characters) [1..<32]" by (simp add: upt_rec escaped_characters_def)
  moreover assume "0 < c" "c < 32"
  then have "unat c \<in> set [1..<32]" by (simp add: word_less_nat_alt Suc_le_eq)
  ultimately have "of_nat (unat c) \<in> set escaped_characters" unfolding list_all_iff by blast
  then show ?thesis by simp
qed

lemma escaped_small: "c \<in> set escaped_characters \<Longrightarrow> c \<le> 0x7f \<and> c < 0x80"
proof -
  have "list_all (\<lambda>c. c \<le> 0x7f \<and> c < 0x80) escaped_characters" by code_simp
  then show "c \<in> set escaped_characters \<Longrightarrow> ?thesis" unfolding list_all_iff by blast
qed

lemma esc_cases:
  assumes "c \<noteq> 0" "\<not> sp 0x30"
  obtains (self) "esc c = CBU8_APPEND_UNSAFE c" "c \<noteq> 0x22" "c \<noteq> 0x5C"
  | (simple) x where "esc c = [0x5C, x]" "simple_escape x = Some (ucast c)" "x \<noteq> 0x78" "x \<noteq> 0x75" "c \<le> 0x7f"
  | (unit) h where "esc c = 0x5C # 0x75 # h" "length h = 4" "HexStringToInt sp h = (True, Some (uint c))" "c < 0x80"
proof (cases "c \<in> set escaped_characters")
  case True
  have small: "c \<le> 0x7f" "c < 0x80" using escaped_small [OF True] by simp_all
  have "escape_readable c" using escapes_readable True unfolding list_all_iff by blast
  then consider "length (esc c) = 2" "hd (esc c) = 0x5C" "simple_escape (esc c ! 1) = Some (ucast c)" "esc c ! 1 \<noteq> 0x78" "esc c ! 1 \<noteq> 0x75"
    | "length (esc c) = 6" "take 2 (esc c) = [0x5C, 0x75]" "esc c ! 2 = 0x30"
      "HexStringToInt (\<lambda>_. False) (drop 2 (esc c)) = (True, Some (uint c))"
    unfolding escape_readable_def Let_def by blast
  then show ?thesis
  proof cases
    case 1
    then have "esc c = [0x5C, esc c ! 1]" by (auto simp: length_Suc_conv numeral_2_eq_2)
    then show ?thesis using that(2) [of "esc c ! 1"] 1 small by simp
  next
    case 2
    have e: "esc c = 0x5C # 0x75 # drop 2 (esc c)" using append_take_drop_id [of 2 "esc c"] 2(2) by simp
    have "drop 2 (esc c) \<noteq> []" "hd (drop 2 (esc c)) = 0x30" using 2(1,3) by (auto simp: hd_drop_conv_nth)
    then have "HexStringToInt sp (drop 2 (esc c)) = (True, Some (uint c))"
      using HexStringToInt_space [of "drop 2 (esc c)" sp] 2(4) assms(2) by simp
    then show ?thesis using that(3) [OF e] 2(1) small by simp
  qed
next
  case False
  have "\<not> c < 32" using False escaped_characters [of c] assms(1) by (auto simp: word_neq_0_conv)
  moreover have "c \<noteq> 0x22" "c \<noteq> 0x3C" "c \<noteq> 0x5C" using False by (auto simp: escaped_characters_def)
  moreover from calculation(1) have "c \<noteq> 8" "c \<noteq> 0xC" "c \<noteq> 0xA" "c \<noteq> 0xD" "c \<noteq> 9" by auto
  ultimately show ?thesis using that(1)
    by (simp add: esc_def escape_code_point_def EscapeSpecialCodePoint_def WriteUnicodeCharacter8_def CBU8_APPEND_UNSAFE_def Let_def)
qed

subsection \<open>A written string is read back\<close>

lemma scanning_here: "scanning d (pre @ s) rest p \<Longrightarrow> pos p = length pre \<Longrightarrow> here pre (s @ rest) p"
  by (simp add: scanning_def here_def)

lemma scanning_advance:
  "scanning d pre (s @ rest) p \<Longrightarrow> pos p \<le> length pre \<Longrightarrow> scanning d (pre @ s) rest (advance (length s) p)"
  by (simp add: scanning_def)

lemma backslash_character: "IsValidCharacter 0x5C" "IsValidCharacter 0x22" "sint (0x5C :: code_point) = 0x5C" "sint (0x22 :: code_point) = 0x22"
  by code_simp+

lemma string_loop_character:
  assumes p: "scanning d pre (esc c @ rest) p" "rest \<noteq> []" and c: "IsValidCharacter c" "c \<noteq> 0"
    and sp: "\<not> isspace8 E 0x30" and sb: "holds pre sb s"
  shows "\<exists>sb' p'. string_loop E sb p = string_loop E sb' p' \<and> scanning d (pre @ esc c) rest p' \<and>
    holds (pre @ esc c) sb' (s @ CBU8_APPEND_UNSAFE c)"
proof (rule esc_cases [where sp = "isspace8 E", OF c(2) sp])
  assume self: "esc c = CBU8_APPEND_UNSAFE c" "c \<noteq> 0x22" "c \<noteq> 0x5C"
  obtain p1 where p1: "read_character p = (c, p1)" "scanning d (pre @ CBU8_APPEND_UNSAFE c) rest p1" "pos p1 = length pre"
    using scanning_read_character [OF p(1) [unfolded self(1)] c(1)] by blast
  have "json_text p1 = pre @ CBU8_APPEND_UNSAFE c @ rest" using p1(2) by (simp add: scanning_def)
  then obtain sb' where "append_character p1 c sb = Inr sb'" "holds (pre @ esc c) sb' (s @ CBU8_APPEND_UNSAFE c)"
    using holds_append_character [OF sb _ c(1), of p1] self(1) by auto
  then show ?thesis using scanning_CanConsume [OF p(1)] p1 c(1) self sint_ascii(1) [OF c(1)]
    by (intro exI [of _ sb'] exI [of _ p1]) (subst string_loop.simps, simp)
next
  have escape: "\<exists>sb' p'. string_loop E sb p = string_loop E sb' p' \<and> scanning d (pre @ esc c) rest p' \<and>
      holds (pre @ esc c) sb' (s @ CBU8_APPEND_UNSAFE c)"
    if e: "esc c = 0x5C # t"
      and run: "\<And>p1. here pre (0x5C # t @ rest) p1 \<Longrightarrow> sb_string (sb_Convert p1 sb) = Some s \<Longrightarrow>
        \<exists>sb'. ConsumeEscape E sb p1 = Inr (Some sb', advance (length t) p1) \<and> sb_string sb' = Some (s @ CBU8_APPEND_UNSAFE c)" for t
  proof -
    have "scanning d pre (CBU8_APPEND_UNSAFE 0x5C @ t @ rest) p" using p(1) e by (simp add: escape_quote_bytes)
    from scanning_read_character [OF this backslash_character(1)]
    obtain p1 where p1: "read_character p = (0x5C, p1)" "scanning d (pre @ [0x5C]) (t @ rest) p1" "pos p1 = length pre"
      by (auto simp: escape_quote_bytes)
    then have "here pre (0x5C # t @ rest) p1" using scanning_here [OF p1(2,3)] by simp
    moreover have "json_text p1 = pre @ 0x5C # t @ rest" using p1(2) by (simp add: scanning_def)
    ultimately obtain sb' where sb': "ConsumeEscape E sb p1 = Inr (Some sb', advance (length t) p1)"
        "sb_string sb' = Some (s @ CBU8_APPEND_UNSAFE c)"
      using run holds_Convert [OF sb] by blast
    have "scanning d (pre @ esc c) rest (advance (length t) p1)" using scanning_advance [OF p1(2)] p1(3) e by simp
    moreover have "string_loop E sb p = string_loop E sb' (advance (length t) p1)"
      using scanning_CanConsume [OF p(1)] e p1(1) sb'(1) backslash_character by (subst string_loop.simps) simp
    moreover have "holds (pre @ esc c) sb' (s @ CBU8_APPEND_UNSAFE c)" using sb'(2) by (simp add: holds_def)
    ultimately show ?thesis by blast
  qed
  {
    fix x assume x: "esc c = [0x5C, x]" "simple_escape x = Some (ucast c)" "x \<noteq> 0x78" "x \<noteq> 0x75" "c \<le> 0x7f"
    have "CBU8_APPEND_UNSAFE c = [ucast c]" using x(5) by (simp add: CBU8_APPEND_UNSAFE_def)
    then show ?thesis
      by (intro escape [of "[x]"]) (use x ConsumeEscape_simple [OF _ x(2-4) ucast_ascii [OF x(5)], where E = E] in auto)
  next
    fix h assume h: "esc c = 0x5C # 0x75 # h" "length h = 4" "HexStringToInt (isspace8 E) h = (True, Some (uint c))" "c < 0x80"
    show ?thesis
      by (intro escape [of "0x75 # h"]) (use h ConsumeEscape_unit [OF _ h(2-4) c(2)] in auto)
  }
qed

lemma string_loop_characters:
  assumes "list_all IsValidCharacter cs" "0 \<notin> set cs" "\<not> isspace8 E 0x30"
  shows "scanning d pre (concat (map esc cs) @ rest) p \<Longrightarrow> rest \<noteq> [] \<Longrightarrow> holds pre sb s \<Longrightarrow>
    \<exists>sb' p'. string_loop E sb p = string_loop E sb' p' \<and> scanning d (pre @ concat (map esc cs)) rest p' \<and>
      holds (pre @ concat (map esc cs)) sb' (s @ encode8 cs)"
  using assms
proof (induction cs arbitrary: pre p sb s)
  case (Cons c cs)
  obtain sb1 p1 where 1: "string_loop E sb p = string_loop E sb1 p1" "scanning d (pre @ esc c) (concat (map esc cs) @ rest) p1"
      "holds (pre @ esc c) sb1 (s @ CBU8_APPEND_UNSAFE c)"
    using string_loop_character [of d pre c "concat (map esc cs) @ rest" p E sb s] Cons.prems by auto
  obtain sb' p' where "string_loop E sb1 p1 = string_loop E sb' p'" "scanning d ((pre @ esc c) @ concat (map esc cs)) rest p'"
      "holds ((pre @ esc c) @ concat (map esc cs)) sb' ((s @ CBU8_APPEND_UNSAFE c) @ encode8 cs)"
    using Cons.IH [OF 1(2) Cons.prems(2) 1(3)] Cons.prems by auto
  then show ?case using 1(1) by auto
qed auto

text \<open>The parser stands at a place when position and index agree; after a string it stands at the closing quote.\<close>

definition placed :: "nat \<Rightarrow> str \<Rightarrow> str \<Rightarrow> json_parser \<Rightarrow> bool" where
  "placed d pre rest p \<longleftrightarrow> scanning d pre rest p \<and> pos p = length pre"

lemma placed_here: "placed d pre rest p \<Longrightarrow> here pre rest p"
  by (simp add: placed_def scanning_def here_def)

lemma placed_cur: "placed d pre (c # rest) p \<Longrightarrow> cur p = c"
  using here_cur placed_here by blast

lemma placed_advance: "placed d pre (s @ rest) p \<Longrightarrow> placed d (pre @ s) rest (advance (length s) p)"
  by (simp add: placed_def scanning_def)

lemma placed_NextChar:
  assumes "placed d pre (c # rest) p"
  shows "NextChar p = Inr (advance 1 p)" "placed d (pre @ [c]) rest (advance 1 p)"
  using here_NextChar(1) [OF placed_here [OF assms]] placed_advance [of d pre "[c]"] assms by simp_all

lemma zero_in_encode8: "0 \<in> set cs \<Longrightarrow> 0 \<in> set (encode8 cs)"
  by (induction cs) (auto simp: CBU8_APPEND_UNSAFE_def)

lemma ConsumeStringRaw_quoted:
  assumes p: "placed d pre (quoted s @ rest) p" and s: "IsStringUTF8 s" "plain_string s" and sp: "\<not> isspace8 E 0x30"
  obtains sb p' pre' where "ConsumeStringRaw E p = Inr (Some sb, p')" "pre @ quoted s = pre' @ [0x22]" "placed d pre' (0x22 # rest) p'"
    "\<And>q. json_text q = json_text p \<Longrightarrow> sb_AsString q sb = s"
proof -
  obtain cs where cs: "list_all IsValidCharacter cs" "s = encode8 cs" using s(1) by (auto simp: IsStringUTF8_iff)
  have z: "0 \<notin> set cs" using s(2) zero_in_encode8 by (auto simp: plain_string_def cs(2))
  let ?t = "concat (map esc cs)" let ?pre = "pre @ [0x22]"
  have q: "quoted s = 0x22 # ?t @ [0x22]" using quoted_encode8 [OF cs(1)] cs(2) by simp
  have p1: "NextChar p = Inr (advance 1 p)" "placed d ?pre (?t @ 0x22 # rest) (advance 1 p)" "cur p = 0x22"
    using p
      placed_NextChar [where d = d and pre = pre and c = "0x22" and rest = "?t @ 0x22 # rest" and p = p]
      placed_cur [where d = d and pre = pre and c = "0x22" and rest = "?t @ 0x22 # rest" and p = p]
    by (simp_all add: q)
  have "holds ?pre (StringBuilder (pos (advance 1 p))) []" using p1(2) by (simp add: holds_def StringBuilder_def placed_def)
  then obtain sb p2 where p2: "string_loop E (StringBuilder (pos (advance 1 p))) (advance 1 p) = string_loop E sb p2"
      "scanning d (?pre @ ?t) (0x22 # rest) p2" "holds (?pre @ ?t) sb s"
    using string_loop_characters [OF cs(1) z sp _ _ \<open>holds ?pre _ []\<close>, of d "0x22 # rest" "advance 1 p"] p1(2) cs(2)
    by (auto simp: placed_def)
  have "scanning d (?pre @ ?t) (CBU8_APPEND_UNSAFE 0x22 @ rest) p2" using p2(2) by (simp add: escape_quote_bytes)
  from scanning_read_character [OF this backslash_character(2)]
  obtain p3 where p3: "read_character p2 = (0x22, p3)" "scanning d ((?pre @ ?t) @ [0x22]) rest p3" "pos p3 = length (?pre @ ?t)"
    by (auto simp: escape_quote_bytes)
  have "ConsumeStringRaw E p = Inr (Some sb, p3\<lparr>index := index p3 - 1\<rparr>)"
    unfolding ConsumeStringRaw_def using p1 p2(1) scanning_CanConsume [OF p2(2)] p3(1) backslash_character
    by simp (subst string_loop.simps, simp)
  moreover have "placed d (?pre @ ?t) (0x22 # rest) (p3\<lparr>index := index p3 - 1\<rparr>)" using p3(2,3) by (simp add: placed_def scanning_def)
  moreover have "sb_AsString u sb = s" if "json_text u = json_text p" for u
    using holds_AsString [OF p2(3), of u "0x22 # rest"] that p by (simp add: placed_def scanning_def q)
  ultimately show ?thesis using that by (simp add: q)
qed

end
