(* ===== verification/Json_Roundtrip.thy ===== *)
theory Json_Roundtrip
  imports Json_Strings
begin

text \<open>
  What the writer writes, compact or pretty, the reader reads back. Each kind of value has its lemma, which says
  what the parser returns at its first character and that it ends at its last one; the loops of lists and
  dictionaries are handled for any parser of their elements.
\<close>

subsection \<open>Spaces and tokens\<close>

definition blank :: "str \<Rightarrow> bool" where "blank s \<longleftrightarrow> set s \<subseteq> {0x20, 0x0D, 0x0A}"

text \<open>Nothing to skip in front.\<close>

definition settled :: "str \<Rightarrow> bool" where
  "settled s \<longleftrightarrow> (case s of [] \<Rightarrow> True | c # _ \<Rightarrow> c \<notin> {0x20, 0x09, 0x0A, 0x0D, 0x2F})"

definition next_token :: "str \<Rightarrow> Token" where
  "next_token s = (case s of [] \<Rightarrow> T_END_OF_INPUT | c # _ \<Rightarrow> token_of c)"

lemma next_token_Cons [simp]: "next_token (c # s) = token_of c" "next_token [] = T_END_OF_INPUT"
  by (simp_all add: next_token_def)

lemma blank_simps [simp]: "blank []" "blank (spaces pr)" "blank (line pr dep)" "blank [0x0D, 0x0A]"
  by (auto simp: blank_def spaces_def line_def)

lemma placed_count_line: "placed d pre rest p \<Longrightarrow> placed d pre rest (count_line p)"
  by (simp add: placed_def scanning_def count_line_def Let_def)

lemma placed_less: "placed d pre (c # rest) p \<Longrightarrow> pos p < length (json_text p)"
  by (simp add: placed_def scanning_def)

lemma EatWhitespace_blank:
  "placed d pre (s @ rest) p \<Longrightarrow> blank s \<Longrightarrow> settled rest \<Longrightarrow>
    \<exists>p'. EatWhitespaceAndComments p = Inr p' \<and> placed d (pre @ s) rest p'"
proof (induction s arbitrary: pre p)
  case Nil
  have "EatWhitespaceAndComments p = Inr p"
  proof (cases rest)
    case (Cons c cs)
    then have "cur p = c" using placed_cur Nil.prems(1) by auto
    then show ?thesis using Nil.prems(3) Cons by (subst EatWhitespaceAndComments.simps) (simp add: settled_def)
  qed (use Nil.prems(1) in \<open>subst EatWhitespaceAndComments.simps, simp add: placed_def scanning_def\<close>)
  then show ?case using Nil.prems(1) by simp
next
  case (Cons c s)
  have c: "cur p = c" "pos p < length (json_text p)" "c = 0x20 \<or> c = 0x0D \<or> c = 0x0A" "blank s"
    using Cons.prems(1,2) placed_cur [of d pre c "s @ rest" p] placed_less [of d pre c "s @ rest" p] by (auto simp: blank_def)
  have a: "placed d (pre @ [c]) (s @ rest) (advance 1 p)" "placed d (pre @ [c]) (s @ rest) (advance 1 (count_line p))"
    using placed_NextChar(2) Cons.prems(1) placed_count_line by simp_all
  show ?case using Cons.IH [OF a(1) c(4) Cons.prems(3)] Cons.IH [OF a(2) c(4) Cons.prems(3)] c(1,2,3)
    by (subst EatWhitespaceAndComments.simps) auto
qed

lemma GetNextToken_blank:
  assumes "placed d pre (s @ rest) p" "blank s" "settled rest"
  obtains p' where "GetNextToken p = Inr (next_token rest, p')" "placed d (pre @ s) rest p'"
proof -
  obtain p' where "EatWhitespaceAndComments p = Inr p'" and p': "placed d (pre @ s) rest p'"
    using EatWhitespace_blank [OF assms] by blast
  moreover have "(if \<not> CanConsume 1 p' then T_END_OF_INPUT else token_of (cur p')) = next_token rest"
    using here_CanConsume [OF placed_here [OF p'], of 1] placed_cur [of d "pre @ s"] p' by (cases rest) auto
  ultimately show ?thesis using that by (simp add: GetNextToken_def)
qed

text \<open>After a value the parser stands at its last character.\<close>

definition after_value :: "nat \<Rightarrow> str \<Rightarrow> str \<Rightarrow> json_parser \<Rightarrow> bool" where
  "after_value d pre rest p \<longleftrightarrow> (\<exists>pre' c. pre = pre' @ [c] \<and> placed d pre' (c # rest) p)"

lemma after_value_NextChar:
  assumes "after_value d pre rest p"
  shows "NextChar p = Inr (advance 1 p)" "placed d pre rest (advance 1 p)"
  using assms placed_NextChar by (auto simp: after_value_def)

lemma after_element_close:
  assumes "after_value d pre (s @ c # rest) p" "blank s" "settled (c # rest)" "token_of c = close" "close \<noteq> T_LIST_SEPARATOR"
  obtains p' where "after_element close a p = Inr (Some close, p')" "placed d (pre @ s) (c # rest) p'"
proof -
  obtain p' where "GetNextToken (advance 1 p) = Inr (next_token (c # rest), p')" "placed d (pre @ s) (c # rest) p'"
    using GetNextToken_blank [OF after_value_NextChar(2) [OF assms(1)] assms(2,3)] .
  then show ?thesis using that after_value_NextChar(1) [OF assms(1)] assms(4,5) by (simp add: after_element_def)
qed

lemma after_element_comma:
  assumes "after_value d pre (0x2C # s @ rest) p" "blank s" "settled rest" "next_token rest \<noteq> close"
  obtains p' where "after_element close a p = Inr (Some (next_token rest), p')" "placed d (pre @ 0x2C # s) rest p'"
proof -
  have "placed d pre ([] @ 0x2C # s @ rest) (advance 1 p)" using after_value_NextChar(2) [OF assms(1)] by simp
  then obtain p1 where p1: "GetNextToken (advance 1 p) = Inr (T_LIST_SEPARATOR, p1)" "placed d pre (0x2C # s @ rest) p1"
    by (rule GetNextToken_blank) (simp_all add: settled_def token_of_def)
  obtain p2 where "GetNextToken (advance 1 p1) = Inr (next_token rest, p2)" "placed d ((pre @ [0x2C]) @ s) rest p2"
    using GetNextToken_blank [OF placed_NextChar(2) [OF p1(2)] assms(2,3)] .
  then show ?thesis using that after_value_NextChar(1) [OF assms(1)] p1(1) placed_NextChar(1) [OF p1(2)] assms(4)
    by (simp add: after_element_def)
qed

subsection \<open>Scalars\<close>

text \<open>What may follow a value: a comma or a closing bracket after spaces, or the end.\<close>

definition follows :: "str \<Rightarrow> bool" where
  "follows rest \<longleftrightarrow> (\<exists>s r. rest = s @ r \<and> blank s \<and> (r = [] \<or> hd r \<in> {0x2C, 0x5D, 0x7D}))"

lemma follows_simps [simp]: "follows []" "follows (0x2C # r)" "follows (0x5D # r)" "follows (0x7D # r)"
    "blank s \<Longrightarrow> follows s" "blank s \<Longrightarrow> follows (s @ 0x5D # r)" "blank s \<Longrightarrow> follows (s @ 0x7D # r)"
proof -
  have f: "follows (s @ r)" if "blank s" "r = [] \<or> hd r \<in> {0x2C, 0x5D, 0x7D}" for s r
    using that by (auto simp: follows_def)
  show "follows []" "follows (0x2C # r)" "follows (0x5D # r)" "follows (0x7D # r)"
    using f [of "[]"] by simp_all
  show "follows s" "follows (s @ 0x5D # r)" "follows (s @ 0x7D # r)" if "blank s"
    using f [OF that, of "[]"] f [OF that, of "0x5D # r"] f [OF that, of "0x7D # r"] by simp_all
qed

definition value_read :: "parse_value \<Rightarrow> nat \<Rightarrow> val \<Rightarrow> str \<Rightarrow> bool" where
  "value_read parse d v t \<longleftrightarrow> (\<forall>pre rest p. follows rest \<longrightarrow> placed d pre (t @ rest) p \<longrightarrow>
     (\<exists>p'. parse (next_token t) p = Inr (Some v, p') \<and> after_value d (pre @ t) rest p'))"

lemma value_readD:
  "value_read parse d v t \<Longrightarrow> follows rest \<Longrightarrow> placed d pre (t @ rest) p \<Longrightarrow>
    \<exists>p'. parse (next_token t) p = Inr (Some v, p') \<and> after_value d (pre @ t) rest p'"
  by (simp add: value_read_def)

lemma literal_reads:
  assumes "placed d pre (t @ rest) p" "t \<noteq> []"
  shows "literal t v p = Inr (Some v, advance (length t - 1) p)" "after_value d (pre @ t) rest (advance (length t - 1) p)"
proof -
  have t: "t = butlast t @ [last t]" using assms(2) by simp
  have h: "here pre (t @ rest) p" using assms(1) by (rule placed_here)
  show "literal t v p = Inr (Some v, advance (length t - 1) p)"
    using here_CanConsume [OF h, of "length t - 1"] here_bytes [OF h] assms(2) by (simp add: literal_def NextNChars_def Let_def)
  have "placed d pre (butlast t @ last t # rest) p" using assms(1) t by (metis append.assoc append_Cons append_Nil)
  from placed_advance [OF this] show "after_value d (pre @ t) rest (advance (length t - 1) p)"
    using t by (auto simp: after_value_def intro!: exI [of _ "pre @ butlast t"] exI [of _ "last t"])
qed

lemma read_digits_all:
  "placed d pre (ds @ rest) p \<Longrightarrow> list_all IsAsciiDigit ds \<Longrightarrow> rest = [] \<or> \<not> IsAsciiDigit (hd rest) \<Longrightarrow>
    read_digits (cur p) len p = (len + length ds, advance (length ds) p)"
proof (induction ds arbitrary: pre p len)
  case Nil
  have "\<not> (CanConsume 1 p \<and> IsAsciiDigit (cur p))"
    using Nil here_CanConsume [OF placed_here, of d pre rest p 1] placed_cur [of d pre _ _ p] by (cases rest) auto
  then show ?case by (subst read_digits.simps) auto
next
  case (Cons c ds)
  have c: "cur p = c" "IsAsciiDigit c" "CanConsume 1 p"
    using Cons.prems placed_cur [of d pre c "ds @ rest" p] here_CanConsume [OF placed_here, of d pre "c # ds @ rest" p 1] by auto
  have "placed d (pre @ [c]) (ds @ rest) (advance 1 p)" using placed_NextChar(2) [of d pre c "ds @ rest" p] Cons.prems(1) by simp
  from Cons.IH [OF this, of "len + 1"] show ?case using Cons.prems(2,3) c
    by (subst read_digits.simps) simp
qed

lemma dec_digits_hd: "n \<noteq> 0 \<Longrightarrow> hd (dec_digits n) \<noteq> 0"
proof (induction n rule: dec_digits.induct)
  case (1 n)
  then show ?case using dec_digits_not_Nil [of "n div 10"] by (subst dec_digits.simps) (auto simp: hd_append)
qed

lemma digit_byte: "k < 10 \<Longrightarrow> unat (of_nat (k + 0x30) :: byte) = k + 0x30"
  by (rule unat_char) simp_all

lemma dec_string_digits:
  "list_all IsAsciiDigit (dec_string n)" "length (dec_string n :: str) > 1 \<Longrightarrow> hd (dec_string n :: str) \<noteq> 0x30"
proof -
  show "list_all IsAsciiDigit (dec_string n)"
    using dec_digits_less [of _ n]
    by (fastforce simp: list_all_iff dec_string_def IsAsciiDigit_def word_le_nat_alt digit_byte simp del: of_nat_add)
  assume long: "length (dec_string n :: str) > 1"
  have "n \<noteq> 0" by (rule notI) (use long in \<open>simp add: dec_string_def dec_digits.simps [of 0]\<close>)
  then have "hd (dec_digits n) \<noteq> 0" by (rule dec_digits_hd)
  moreover have "hd (dec_digits n) < 10" using dec_digits_less dec_digits_not_Nil hd_in_set by blast
  ultimately have "unat (hd (dec_string n :: str)) \<noteq> 0x30"
    using dec_digits_not_Nil [of n] by (simp add: dec_string_def hd_map digit_byte del: of_nat_add)
  then show "hd (dec_string n :: str) \<noteq> 0x30" by auto
qed

lemma dec_string_nonempty [simp]: "(dec_string n :: str) \<noteq> []"
  by (rule dec_string_hd(2)) simp

text \<open>The hypothesis on the C library's classification of characters.\<close>

definition digits_not_space :: "json_env \<Rightarrow> bool" where
  "digits_not_space E \<longleftrightarrow> \<not> isspace8 E 0x2D \<and> (\<forall>d < 10. \<not> isspace8 E (of_nat (d + 0x30)))"

lemma number_value_int_text:
  assumes "is_int32 i" "digits_not_space E"
  shows "number_value_of E (int_text i) = Some (IntegerValue i)"
proof -
  have "in_type int32_t i" using assms(1) by (simp add: in_type_def is_int32_def limits_max_def limits_min_def int32_t_def)
  then have "\<exists>s :: str. IntToStringT int32_t i = Inr s \<and> StringToIntImpl int32_t (isspace8 E) s = (True, Some i)"
    using assms(2) by (intro IntToString_roundtrip') (auto simp: digits_not_space_def)
  then have "StringToInt (isspace8 E) (int_text i) = (True, Some i)"
    using write_int_text [OF assms(1)] by (auto simp: IntToString_def StringToInt_def)
  then show ?thesis by (simp add: number_value_of_def)
qed

lemma follows_cur:
  assumes "follows rest" "placed d pre rest p"
  shows "\<not> IsAsciiDigit (cur p)" "cur p \<noteq> 0x2E" "cur p \<noteq> 0x65" "cur p \<noteq> 0x45" "rest = [] \<or> \<not> IsAsciiDigit (hd rest)"
proof -
  have end0: "cur p = 0" if "rest = []" using assms(2) that by (simp add: placed_def scanning_def cur_def byte_at_def)
  have "cur p = hd rest" if "rest \<noteq> []" using assms(2) that placed_cur by (cases rest) auto
  moreover have "hd rest \<in> {0x20, 0x0D, 0x0A, 0x2C, 0x5D, 0x7D}" if "rest \<noteq> []"
  proof -
    obtain s r where "rest = s @ r" "blank s" "r = [] \<or> hd r \<in> {0x2C, 0x5D, 0x7D}" using assms(1) by (auto simp: follows_def)
    moreover have "hd s \<in> {0x20, 0x0D, 0x0A}" if "s \<noteq> []" using hd_in_set [OF that] \<open>blank s\<close> by (auto simp: blank_def)
    ultimately show ?thesis using that by (cases "s = []") auto
  qed
  ultimately have "rest = [] \<and> cur p = 0 \<or> rest \<noteq> [] \<and> cur p = hd rest \<and> hd rest \<in> {0x20, 0x0D, 0x0A, 0x2C, 0x5D, 0x7D}"
    using end0 by blast
  then show "\<not> IsAsciiDigit (cur p)" "cur p \<noteq> 0x2E" "cur p \<noteq> 0x65" "cur p \<noteq> 0x45" "rest = [] \<or> \<not> IsAsciiDigit (hd rest)"
    by (auto simp: IsAsciiDigit_def)
qed

lemma ConsumeNumber_reads:
  assumes i: "is_int32 i" "digits_not_space E" and rest: "follows rest" and p: "placed d pre (int_text i @ rest) p"
  obtains p' where "ConsumeNumber E p = Inr (Some (IntegerValue i), p')" "after_value d (pre @ int_text i) rest p'"
proof -
  define sg :: str where "sg = (if i < 0 then [0x2D] else [])"
  define ds :: str where "ds = dec_string (nat \<bar>i\<bar>)"
  have t: "int_text i = sg @ ds" by (simp add: int_text_def sg_def ds_def)
  have ds: "list_all IsAsciiDigit ds" "ds \<noteq> []" "length ds > 1 \<Longrightarrow> hd ds \<noteq> 0x30"
    using dec_string_digits by (simp_all add: ds_def)
  define p1 where "p1 = advance (length sg) p"
  define p2 where "p2 = advance (length ds) p1"
  have p1: "placed d (pre @ sg) (ds @ rest) p1" using p placed_advance unfolding p1_def t by simp
  have p2: "placed d ((pre @ sg) @ ds) rest p2" using placed_advance [OF p1] unfolding p2_def .
  note cur2 = follows_cur [OF rest p2]
  have cur1: "cur p1 = hd ds" using p1 ds(2) placed_cur by (cases ds) auto
  have digit: "IsAsciiDigit (hd ds)" using ds(1,2) by (cases ds) auto
  have first: "(if cur p = 0x2D then NextChar p else Inr p) = Inr p1"
  proof (cases "i < 0")
    case True
    then have "placed d pre (0x2D # ds @ rest) p" using p by (simp add: t sg_def)
    then show ?thesis using placed_NextChar(1) placed_cur True by (simp add: p1_def sg_def)
  next
    case False
    then have "p1 = p" by (simp add: p1_def sg_def)
    then show ?thesis using cur1 digit by (auto simp: IsAsciiDigit_def)
  qed
  have "read_digits (cur p1) 0 p1 = (length ds, p2)" using read_digits_all [OF p1 ds(1) cur2(5), of 0] by (simp add: p2_def)
  then have part: "number_part False p1 = (Some (index p2), p2)" using ds(2,3) cur1 by (simp add: number_part_def ReadInt_def Let_def)
  have tail: "fraction e p2 = Inr (Some e, p2)" "exponent e p2 = Inr (Some e, p2)" for e
    using cur2 by (simp_all add: fraction_def exponent_def)
  obtain s r where r: "rest = s @ r" "blank s" "r = [] \<or> hd r \<in> {0x2C, 0x5D, 0x7D}" using rest by (auto simp: follows_def)
  have settled: "settled r" using r(3) by (auto simp: settled_def split: list.splits)
  obtain p3 where p3: "GetNextToken p2 = Inr (next_token r, p3)" "placed d (((pre @ sg) @ ds) @ s) r p3"
    using GetNextToken_blank [OF p2 [unfolded r(1)] r(2) settled] .
  have token: "next_token r \<in> {T_OBJECT_END, T_ARRAY_END, T_LIST_SEPARATOR, T_END_OF_INPUT}"
    using r(3) by (cases r) (auto simp: token_of_def)
  let ?p4 = "p3\<lparr>pos := pos p2 - 1, index := index p2 - 1\<rparr>"
  have json: "json_text ?p4 = pre @ int_text i @ rest" using p3(2) r(1) t by (simp add: placed_def scanning_def)
  have "bytes_at ?p4 (pos p) (index p2 - index p) = int_text i"
    using bytes_at_text [OF json] p p2 t by (simp add: placed_def scanning_def)
  then have done_number: "end_of_number E (pos p) (index p) (index p2) p2 = Inr (Some (IntegerValue i), ?p4)"
    unfolding end_of_number_def Let_def p3(1) rbind_simps prod.case
    using token number_value_int_text [OF i] by simp
  have last: "pre @ int_text i = (pre @ sg @ butlast ds) @ [last ds]" using ds(2) t by simp
  have "placed d (pre @ sg @ butlast ds) (last ds # rest) ?p4"
    using json p2 p3(2) ds(2) last by (cases "length ds") (simp_all add: placed_def scanning_def t)
  then have "after_value d (pre @ int_text i) rest ?p4" unfolding after_value_def using last by blast
  moreover have "ConsumeNumber E p = Inr (Some (IntegerValue i), ?p4)"
    unfolding ConsumeNumber_def first rbind_simps part prod.case option.case tail done_number ..
  ultimately show ?thesis using that by blast
qed

lemma int_text_hd: "int_text i \<noteq> []" "hd (int_text i) = 0x2D \<or> IsAsciiDigit (hd (int_text i))"
proof -
  have "(dec_string n :: str) \<noteq> []" "IsAsciiDigit (hd (dec_string n))" for n
    using dec_string_digits(1) [of n] dec_string_nonempty [of n] by (cases "dec_string n :: str"; simp)+
  then show "int_text i \<noteq> []" "hd (int_text i) = 0x2D \<or> IsAsciiDigit (hd (int_text i))"
    by (auto simp: int_text_def)
qed

lemma number_token: "c = 0x2D \<or> IsAsciiDigit c \<Longrightarrow> token_of c = T_NUMBER \<and> settled (c # s)"
  by (auto simp: token_of_def IsAsciiDigit_def settled_def)

lemma next_token_hd: "s \<noteq> [] \<Longrightarrow> next_token s = token_of (hd s)"
  by (cases s) auto

lemma string_token: "next_token (quoted s @ rest) = T_STRING" "settled (quoted s @ rest)"
  by (simp_all add: quoted_def token_of_def settled_def)

lemma scalars_read:
  assumes "digits_not_space E"
  shows "value_read (ParseToken E (Suc n)) d NullValue (text8 ''null'')"
    "value_read (ParseToken E (Suc n)) d (BooleanValue b) (if b then text8 ''true'' else text8 ''false'')"
    "is_int32 i \<Longrightarrow> value_read (ParseToken E (Suc n)) d (IntegerValue i) (int_text i)"
    "IsStringUTF8 s \<Longrightarrow> plain_string s \<Longrightarrow> value_read (ParseToken E (Suc n)) d (StringValue s) (quoted s)"
proof -
  have lit: "value_read (ParseToken E (Suc n)) d v t"
    if "t \<noteq> []" "next_token t \<in> {T_BOOL_TRUE, T_BOOL_FALSE, T_NULL}" "\<And>p. cur p = hd t \<Longrightarrow> ConsumeLiteral p = literal t v p" for v t
  proof -
    have "cur p = hd t" if "placed d pre (t @ rest) p" for pre rest p using that placed_cur \<open>t \<noteq> []\<close> by (cases t) auto
    then show ?thesis using literal_reads(1) [OF _ that(1), where v = v] literal_reads(2) [OF _ that(1)] that(2,3) by (auto simp: value_read_def)
  qed
  show "value_read (ParseToken E (Suc n)) d NullValue (text8 ''null'')"
    by (rule lit) (simp_all add: text8_def token_of_def ConsumeLiteral_def)
  show "value_read (ParseToken E (Suc n)) d (BooleanValue b) (if b then text8 ''true'' else text8 ''false'')"
    by (cases b; simp; rule lit) (simp_all add: text8_def token_of_def ConsumeLiteral_def)
  show "value_read (ParseToken E (Suc n)) d (IntegerValue i) (int_text i)" if i: "is_int32 i"
  proof -
    have "next_token (int_text i) = T_NUMBER" using int_text_hd number_token by (simp add: next_token_hd)
    then show ?thesis using ConsumeNumber_reads [OF i assms] unfolding value_read_def by simp metis
  qed
  show "value_read (ParseToken E (Suc n)) d (StringValue s) (quoted s)" if s: "IsStringUTF8 s" "plain_string s"
    unfolding value_read_def
  proof (intro allI impI)
    fix pre rest p assume p: "placed d pre (quoted s @ rest) p"
    have "\<not> isspace8 E 0x30" using assms by (auto simp: digits_not_space_def dest: spec [of _ 0])
    then obtain sb p' pre' where r: "ConsumeStringRaw E p = Inr (Some sb, p')" "pre @ quoted s = pre' @ [0x22]"
        "placed d pre' (0x22 # rest) p'" "\<And>q. json_text q = json_text p \<Longrightarrow> sb_AsString q sb = s"
      using ConsumeStringRaw_quoted [OF p s] by blast
    have "json_text p' = (pre @ quoted s) @ rest" using r(3) by (simp add: placed_def scanning_def r(2))
    then have "sb_AsString p' sb = s" using p by (intro r(4)) (simp add: placed_def scanning_def)
    then have "ConsumeString E p = Inr (Some (StringValue s), p')" using s(1) r(1) by (simp add: ConsumeString_def new_StringValue_def)
    moreover have "after_value d (pre @ quoted s) rest p'" using r(2,3) by (auto simp: after_value_def)
    ultimately show "\<exists>p'. ParseToken E (Suc n) (next_token (quoted s)) p = Inr (Some (StringValue s), p') \<and>
        after_value d (pre @ quoted s) rest p'"
      using string_token(1) [of s "[]"] by simp
  qed
qed

subsection \<open>Lists and dictionaries\<close>

text \<open>A written value begins with a character that starts a value.\<close>

lemma render_starts:
  assumes "plain v"
  shows "render pr dep v \<noteq> []" "settled (render pr dep v @ rest)" "hd (render pr dep v) < 0x80"
    "next_token (render pr dep v) \<in> {T_OBJECT_BEGIN, T_ARRAY_BEGIN, T_STRING, T_NUMBER, T_BOOL_TRUE, T_BOOL_FALSE, T_NULL}"
proof -
  have "\<exists>c t. render pr dep v = c # t \<and> settled (c # t @ rest) \<and> c < 0x80 \<and>
      token_of c \<in> {T_OBJECT_BEGIN, T_ARRAY_BEGIN, T_STRING, T_NUMBER, T_BOOL_TRUE, T_BOOL_FALSE, T_NULL}"
  proof (cases v)
    case (IntegerValue i)
    then show ?thesis using int_text_hd [of i] number_token [of "hd (int_text i)"]
      by (cases "int_text i") (auto simp: IsAsciiDigit_def word_le_nat_alt word_less_nat_alt)
  next
    case (ListValue xs)
    then show ?thesis by (cases xs) (simp_all add: settled_def token_of_def)
  next
    case (DictionaryValue d)
    then obtain t where "render pr dep v = 0x7B # t" by (cases d) auto
    then show ?thesis by (simp add: settled_def token_of_def)
  qed (use assms in \<open>auto simp: quoted_def settled_def token_of_def text8_def\<close>)
  then show "render pr dep v \<noteq> []" "settled (render pr dep v @ rest)" "hd (render pr dep v) < 0x80"
    "next_token (render pr dep v) \<in> {T_OBJECT_BEGIN, T_ARRAY_BEGIN, T_STRING, T_NUMBER, T_BOOL_TRUE, T_BOOL_FALSE, T_NULL}"
    by auto
qed

lemma next_token_append [simp]: "s \<noteq> [] \<Longrightarrow> next_token (s @ t) = next_token s"
  by (cases s) auto

lemma bracket_tokens [simp]: "token_of 0x5D = T_ARRAY_END" "token_of 0x7D = T_OBJECT_END" "token_of 0x2C = T_LIST_SEPARATOR"
    "token_of 0x3A = T_OBJECT_PAIR_SEPARATOR" "token_of 0x5B = T_ARRAY_BEGIN" "token_of 0x7B = T_OBJECT_BEGIN"
    "settled (0x5D # s)" "settled (0x7D # s)" "settled (0x2C # s)" "settled (0x3A # s)" "settled []"
  by (simp_all add: token_of_def settled_def)

lemma follows_more_values: "follows (more_values pr dep vs @ spaces pr @ 0x5D # rest)"
  by (cases vs) auto

lemma follows_more_entries: "follows (more_entries pr dep d @ line pr dep @ 0x7D # rest)"
  by (cases d) auto

lemma list_loop_reads:
  assumes "\<forall>w \<in> set (v # vs). plain w \<and> value_read parse d w (render pr dep w)" "length vs < n"
    and "placed d pre (render pr dep v @ more_values pr dep vs @ spaces pr @ 0x5D # rest) p"
  shows "\<exists>p'. list_loop parse (Suc n) (next_token (render pr dep v)) xs p = Inr (Some (ListValue (xs @ v # vs)), p') \<and>
    placed d (pre @ render pr dep v @ more_values pr dep vs @ spaces pr) (0x5D # rest) p'"
  using assms
proof (induction vs arbitrary: v n pre p xs)
  case Nil
  obtain p1 where p1: "parse (next_token (render pr dep v)) p = Inr (Some v, p1)"
      "after_value d (pre @ render pr dep v) (spaces pr @ 0x5D # rest) p1"
    using value_readD [of parse d v "render pr dep v" "spaces pr @ 0x5D # rest"] Nil.prems(1,3) by auto
  obtain p2 where p2: "after_element T_ARRAY_END 1 p1 = Inr (Some T_ARRAY_END, p2)"
      "placed d ((pre @ render pr dep v) @ spaces pr) (0x5D # rest) p2"
    using after_element_close [OF p1(2), of T_ARRAY_END 1] by auto
  obtain m where "n = Suc m" using Nil.prems(2) by (cases n) auto
  moreover have "next_token (render pr dep v) \<noteq> T_ARRAY_END" using render_starts(4) [of v pr dep] Nil.prems(1) by auto
  ultimately show ?case using p1(1) p2 by simp
next
  case (Cons w vs)
  have v: "plain v" "plain w" "value_read parse d v (render pr dep v)" using Cons.prems(1) by simp_all
  have p: "placed d pre (render pr dep v @ 0x2C # spaces pr @ render pr dep w @ more_values pr dep vs @ spaces pr @ 0x5D # rest) p"
    using Cons.prems(3) by simp
  obtain p1 where p1: "parse (next_token (render pr dep v)) p = Inr (Some v, p1)"
      "after_value d (pre @ render pr dep v) (0x2C # spaces pr @ render pr dep w @ more_values pr dep vs @ spaces pr @ 0x5D # rest) p1"
    using value_readD [OF v(3) follows_simps(2) p] by blast
  have w: "settled (render pr dep w @ more_values pr dep vs @ spaces pr @ 0x5D # rest)"
    "next_token (render pr dep w @ more_values pr dep vs @ spaces pr @ 0x5D # rest) = next_token (render pr dep w)"
    "next_token (render pr dep w) \<noteq> T_ARRAY_END" "next_token (render pr dep v) \<noteq> T_ARRAY_END"
    using render_starts [OF v(2), of pr dep] render_starts(4) [OF v(1), of pr dep] render_starts(2) [OF v(2)] by auto
  then obtain p2 where p2: "after_element T_ARRAY_END 1 p1 = Inr (Some (next_token (render pr dep w)), p2)"
      "placed d ((pre @ render pr dep v) @ 0x2C # spaces pr) (render pr dep w @ more_values pr dep vs @ spaces pr @ 0x5D # rest) p2"
    using after_element_comma [OF p1(2), where close = T_ARRAY_END and a = 1] by auto
  obtain m where m: "n = Suc m" "length vs < m" using Cons.prems(2) by (cases n) auto
  obtain p' where p': "list_loop parse (Suc m) (next_token (render pr dep w)) (xs @ [v]) p2 = Inr (Some (ListValue ((xs @ [v]) @ w # vs)), p')"
      "placed d (((pre @ render pr dep v) @ 0x2C # spaces pr) @ render pr dep w @ more_values pr dep vs @ spaces pr) (0x5D # rest) p'"
    using Cons.IH [OF _ m(2) p2(2), of "xs @ [v]"] Cons.prems(1) by auto
  show ?case
    by (intro exI [of _ p'] conjI, subst list_loop.simps) (use w(4) p1(1) p2(1) p' m(1) in simp_all)
qed

lemma with_stack_reads:
  assumes "placed d pre rest p" "d + 1 < kStackMaxDepth"
    and "\<And>p1. placed (d + 1) pre rest p1 \<Longrightarrow> json_text p1 = json_text p \<Longrightarrow>
      \<exists>p2. body p1 = Inr (Some v, p2) \<and> placed (d + 1) pre2 rest2 p2"
  shows "\<exists>p'. with_stack body p = Inr (Some v, p') \<and> placed d pre2 rest2 p'"
proof -
  let ?p1 = "p\<lparr>stack_depth := stack_depth p + 1\<rparr>"
  have "placed (d + 1) pre rest ?p1" "stack_depth p = d" using assms(1) by (simp_all add: placed_def scanning_def)
  moreover from assms(3) [OF this(1)] obtain p2 where "body ?p1 = Inr (Some v, p2)" "placed (d + 1) pre2 rest2 p2" by auto
  ultimately show ?thesis using assms(2)
    by (intro exI [of _ "p2\<lparr>stack_depth := stack_depth p2 - 1\<rparr>"])
      (simp add: with_stack_def Let_def placed_def scanning_def)
qed

lemma placed_text: "placed d pre rest p \<Longrightarrow> json_text p = pre @ rest"
  by (simp add: placed_def scanning_def)

lemma more_values_length: "length vs \<le> length (more_values pr dep vs)"
  by (induction vs) auto

lemma after_valueI: "placed d pre (c # rest) p \<Longrightarrow> after_value d (pre @ [c]) rest p"
  by (auto simp: after_value_def)

lemma ConsumeList_reads:
  assumes "\<forall>w \<in> set vs. plain w \<and> value_read parse (d + 1) w (render pr dep w)" "d + 1 < kStackMaxDepth"
    and p: "placed d pre (render pr dep (ListValue vs) @ rest) p"
  shows "\<exists>p'. ConsumeList parse p = Inr (Some (ListValue vs), p') \<and> after_value d (pre @ render pr dep (ListValue vs)) rest p'"
proof -
  define body where "body = (case vs of [] \<Rightarrow> spaces pr @ spaces pr
    | v # vs \<Rightarrow> spaces pr @ render pr dep v @ more_values pr dep vs @ spaces pr)"
  have r: "render pr dep (ListValue vs) = 0x5B # body @ [0x5D]" by (cases vs) (simp_all add: body_def)
  have q: "placed d pre (0x5B # body @ 0x5D # rest) p" using p by (simp add: r)
  let ?n = "length (json_text p) + 2"
  have n: "length vs + 2 < ?n"
    using placed_text [OF q] more_values_length [of "tl vs" pr dep] by (cases vs) (auto simp: body_def)
  let ?run = "\<lambda>p1. rbind (NextChar p1) (\<lambda>p2. rbind (GetNextToken p2) (\<lambda>(token, p3). list_loop parse ?n token [] p3))"
  have "\<exists>p'. with_stack ?run p = Inr (Some (ListValue vs), p') \<and> placed d (pre @ 0x5B # body) (0x5D # rest) p'"
  proof (rule with_stack_reads [OF q assms(2)])
    fix p1 assume "placed (d + 1) pre (0x5B # body @ 0x5D # rest) p1"
    note p1 = placed_NextChar [OF this]
    show "\<exists>p2. ?run p1 = Inr (Some (ListValue vs), p2) \<and> placed (d + 1) (pre @ 0x5B # body) (0x5D # rest) p2"
    proof (cases vs)
      case Nil
      have "placed (d + 1) (pre @ [0x5B]) ((spaces pr @ spaces pr) @ 0x5D # rest) (advance 1 p1)"
        using p1(2) by (simp add: body_def Nil)
      then obtain p3 where "GetNextToken (advance 1 p1) = Inr (T_ARRAY_END, p3)"
          "placed (d + 1) ((pre @ [0x5B]) @ spaces pr @ spaces pr) (0x5D # rest) p3"
        by (rule GetNextToken_blank) (auto simp: blank_def spaces_def)
      then show ?thesis using p1(1) by (simp add: body_def Nil)
    next
      case (Cons v ws)
      let ?t = "render pr dep v @ more_values pr dep ws @ spaces pr @ 0x5D # rest"
      have "placed (d + 1) (pre @ [0x5B]) (spaces pr @ ?t) (advance 1 p1)" using p1(2) by (simp add: body_def Cons)
      moreover have v: "plain v" using assms(1) Cons by simp
      ultimately obtain p3 where p3: "GetNextToken (advance 1 p1) = Inr (next_token (render pr dep v), p3)"
          "placed (d + 1) ((pre @ [0x5B]) @ spaces pr) ?t p3"
        using GetNextToken_blank [of "d + 1" "pre @ [0x5B]" "spaces pr" ?t] render_starts(1,2) [OF v] by (metis blank_simps(2) next_token_append)
      have "length ws < Suc (length (json_text p))" using n Cons by simp
      from list_loop_reads [OF _ this p3(2), of parse "[]"] assms(1)
      obtain p4 where "list_loop parse ?n (next_token (render pr dep v)) [] p3 = Inr (Some (ListValue (v # ws)), p4)"
          "placed (d + 1) (((pre @ [0x5B]) @ spaces pr) @ render pr dep v @ more_values pr dep ws @ spaces pr) (0x5D # rest) p4"
        by (auto simp: Cons)
      then show ?thesis using p1(1) p3(1) by (simp add: body_def Cons del: list_loop.simps)
    qed
  qed
  then obtain p' where "with_stack ?run p = Inr (Some (ListValue vs), p')" "placed d (pre @ 0x5B # body) (0x5D # rest) p'" by blast
  then show ?thesis using placed_cur [OF q] after_valueI [of d "pre @ 0x5B # body" "0x5D" rest p']
    by (simp add: ConsumeList_def r del: list_loop.simps)
qed

lemma ConsumeKey_reads:
  assumes "placed d pre (quoted k @ 0x3A # s @ rest) p" "IsStringUTF8 k" "plain_string k" "\<not> isspace8 E 0x30"
    and "blank s" "settled rest"
  shows "\<exists>p'. ConsumeKey E p = Inr (Some (k, next_token rest), p') \<and> placed d (pre @ quoted k @ 0x3A # s) rest p'"
proof -
  obtain sb p1 pre1 where r: "ConsumeStringRaw E p = Inr (Some sb, p1)" "pre @ quoted k = pre1 @ [0x22]"
      "placed d pre1 (0x22 # 0x3A # s @ rest) p1" "\<And>q. json_text q = json_text p \<Longrightarrow> sb_AsString q sb = k"
    using ConsumeStringRaw_quoted [OF assms(1-4)] by blast
  have p2: "NextChar p1 = Inr (advance 1 p1)" "placed d (pre @ quoted k) ([] @ 0x3A # s @ rest) (advance 1 p1)"
    using placed_NextChar [OF r(3)] r(2) by simp_all
  obtain p3 where p3: "GetNextToken (advance 1 p1) = Inr (T_OBJECT_PAIR_SEPARATOR, p3)" "placed d (pre @ quoted k) (0x3A # s @ rest) p3"
    using GetNextToken_blank [OF p2(2)] by auto
  note p4 = placed_NextChar [OF p3(2)]
  obtain p5 where p5: "GetNextToken (advance 1 p3) = Inr (next_token rest, p5)" "placed d (((pre @ quoted k) @ [0x3A]) @ s) rest p5"
    using GetNextToken_blank [OF p4(2) assms(5,6)] by auto
  have "sb_AsString p5 sb = k" using placed_text [OF p5(2)] placed_text [OF assms(1)] by (intro r(4)) simp
  then have "ConsumeKey E p = Inr (Some (k, next_token rest), p5)"
    using r(1) p2(1) p3(1) p4(1) p5(1) by (simp add: ConsumeKey_def)
  then show ?thesis using p5(2) by auto
qed

text \<open>One entry, up to the token after its value.\<close>

lemma dictionary_entry_reads:
  assumes "plain v" "value_read parse d v (render pr dep v)" "IsStringUTF8 k" "plain_string k" "\<not> isspace8 E 0x30" "follows rest"
    and "placed d pre (quoted k @ 0x3A # spaces pr @ render pr dep v @ rest) p"
  obtains p1 p2 where "ConsumeKey E p = Inr (Some (k, next_token (render pr dep v)), p1)"
    "parse (next_token (render pr dep v)) p1 = Inr (Some v, p2)"
    "after_value d (pre @ quoted k @ 0x3A # spaces pr @ render pr dep v) rest p2"
proof -
  have v: "settled (render pr dep v @ rest)" "next_token (render pr dep v @ rest) = next_token (render pr dep v)"
    using render_starts(1,2) [OF assms(1)] by auto
  obtain p1 where p1: "ConsumeKey E p = Inr (Some (k, next_token (render pr dep v)), p1)"
      "placed d (pre @ quoted k @ 0x3A # spaces pr) (render pr dep v @ rest) p1"
    using ConsumeKey_reads [OF assms(7,3,4,5) _ v(1)] v(2) by auto
  from value_readD [OF assms(2,6) p1(2)] that p1(1) show ?thesis by auto
qed

lemma dictionary_loop_reads:
  assumes "\<forall>(k, w) \<in> set ((k, v) # es). plain w \<and> value_read parse d w (render pr (dep + 1) w) \<and> IsStringUTF8 k \<and> plain_string k"
    and "length es < n" "keys_sorted (done @ (k, v) # es)" "\<not> isspace8 E 0x30"
    and "placed d pre (quoted k @ 0x3A # spaces pr @ render pr (dep + 1) v @ more_entries pr dep es @ line pr dep @ 0x7D # rest) p"
  shows "\<exists>p'. dictionary_loop E parse (Suc n) T_STRING done p = Inr (Some (DictionaryValue (done @ (k, v) # es)), p') \<and>
    placed d (pre @ quoted k @ 0x3A # spaces pr @ render pr (dep + 1) v @ more_entries pr dep es @ line pr dep) (0x7D # rest) p'"
  using assms
proof (induction es arbitrary: k v n pre p "done")
  case Nil
  let ?pre = "pre @ quoted k @ 0x3A # spaces pr @ render pr (dep + 1) v"
  have v: "plain v" "value_read parse d v (render pr (dep + 1) v)" "IsStringUTF8 k" "plain_string k" using Nil.prems(1) by simp_all
  have p: "placed d pre (quoted k @ 0x3A # spaces pr @ render pr (dep + 1) v @ line pr dep @ 0x7D # rest) p" using Nil.prems(5) by simp
  obtain p1 p2 where p2: "ConsumeKey E p = Inr (Some (k, next_token (render pr (dep + 1) v)), p1)"
      "parse (next_token (render pr (dep + 1) v)) p1 = Inr (Some v, p2)" "after_value d ?pre (line pr dep @ 0x7D # rest) p2"
    by (rule dictionary_entry_reads [OF v Nil.prems(4) _ p]) simp
  obtain p3 where p3: "after_element T_OBJECT_END 0 p2 = Inr (Some T_OBJECT_END, p3)" "placed d (?pre @ line pr dep) (0x7D # rest) p3"
    using after_element_close [OF p2(3), of T_OBJECT_END 0] by auto
  obtain m where m: "n = Suc m" using Nil.prems(2) by (cases n) auto
  have "SetWithoutPathExpansion k v done = done @ [(k, v)]"
    using Nil.prems(3) by (intro Set_last) (auto simp: sorted_wrt_append)
  then show ?case using p2(1,2) p3 m by simp
next
  case (Cons e es)
  obtain k1 w where e: "e = (k1, w)" by (cases e)
  let ?pre = "pre @ quoted k @ 0x3A # spaces pr @ render pr (dep + 1) v"
  let ?next = "quoted k1 @ 0x3A # spaces pr @ render pr (dep + 1) w @ more_entries pr dep es @ line pr dep @ 0x7D # rest"
  have v: "plain v" "value_read parse d v (render pr (dep + 1) v)" "IsStringUTF8 k" "plain_string k" using Cons.prems(1) by simp_all
  have p: "placed d pre (quoted k @ 0x3A # spaces pr @ render pr (dep + 1) v @ 0x2C # line pr (dep + 1) @ ?next) p"
    using Cons.prems(5) e by simp
  obtain p1 p2 where p2: "ConsumeKey E p = Inr (Some (k, next_token (render pr (dep + 1) v)), p1)"
      "parse (next_token (render pr (dep + 1) v)) p1 = Inr (Some v, p2)" "after_value d ?pre (0x2C # line pr (dep + 1) @ ?next) p2"
    by (rule dictionary_entry_reads [OF v Cons.prems(4) _ p]) simp
  obtain p3 where p3: "after_element T_OBJECT_END 0 p2 = Inr (Some T_STRING, p3)" "placed d (?pre @ 0x2C # line pr (dep + 1)) ?next p3"
    using after_element_comma [OF p2(3), of T_OBJECT_END 0] string_token by auto
  obtain m where m: "n = Suc m" "length es < m" using Cons.prems(2) by (cases n) auto
  have set: "SetWithoutPathExpansion k v done = done @ [(k, v)]"
    using Cons.prems(3) by (intro Set_last) (auto simp: sorted_wrt_append)
  obtain p' where p': "dictionary_loop E parse (Suc m) T_STRING (done @ [(k, v)]) p3 =
        Inr (Some (DictionaryValue ((done @ [(k, v)]) @ (k1, w) # es)), p')"
      "placed d ((?pre @ 0x2C # line pr (dep + 1)) @ quoted k1 @ 0x3A # spaces pr @ render pr (dep + 1) w @
        more_entries pr dep es @ line pr dep) (0x7D # rest) p'"
    using Cons.IH [OF _ m(2) _ Cons.prems(4) p3(2), of "done @ [(k, v)]"] Cons.prems(1,3) e by auto
  show ?case
    by (intro exI [of _ p'] conjI, subst dictionary_loop.simps) (use p2(1,2) p3(1) p' m(1) set e in simp_all)
qed

lemma more_entries_length: "length es \<le> length (more_entries pr dep es)"
  by (induction es) auto

lemma ConsumeDictionary_reads:
  assumes "\<forall>(k, w) \<in> set es. plain w \<and> value_read parse (d + 1) w (render pr (dep + 1) w) \<and> IsStringUTF8 k \<and> plain_string k"
    and "d + 1 < kStackMaxDepth" "keys_sorted es" "\<not> isspace8 E 0x30"
    and p: "placed d pre (render pr dep (DictionaryValue es) @ rest) p"
  shows "\<exists>p'. ConsumeDictionary E parse p = Inr (Some (DictionaryValue es), p') \<and>
    after_value d (pre @ render pr dep (DictionaryValue es)) rest p'"
proof -
  define body where "body = (case es of [] \<Rightarrow> (if pr then [0x0D, 0x0A] else []) @ line pr dep
    | (k, v) # es \<Rightarrow> line pr (dep + 1) @ quoted k @ 0x3A # spaces pr @ render pr (dep + 1) v @ more_entries pr dep es @ line pr dep)"
  have r: "render pr dep (DictionaryValue es) = 0x7B # body @ [0x7D]" by (cases es) (auto simp: body_def)
  have q: "placed d pre (0x7B # body @ 0x7D # rest) p" using p by (simp add: r)
  let ?n = "length (json_text p) + 2"
  have n: "length es + 2 < ?n"
    using placed_text [OF q] more_entries_length [of "tl es" pr dep] by (cases es) (auto simp: body_def)
  let ?run = "\<lambda>p1. rbind (NextChar p1) (\<lambda>p2. rbind (GetNextToken p2) (\<lambda>(token, p3). dictionary_loop E parse ?n token [] p3))"
  have "\<exists>p'. with_stack ?run p = Inr (Some (DictionaryValue es), p') \<and> placed d (pre @ 0x7B # body) (0x7D # rest) p'"
  proof (rule with_stack_reads [OF q assms(2)])
    fix p1 assume "placed (d + 1) pre (0x7B # body @ 0x7D # rest) p1"
    note p1 = placed_NextChar [OF this]
    show "\<exists>p2. ?run p1 = Inr (Some (DictionaryValue es), p2) \<and> placed (d + 1) (pre @ 0x7B # body) (0x7D # rest) p2"
    proof (cases es)
      case Nil
      have "placed (d + 1) (pre @ [0x7B]) (body @ 0x7D # rest) (advance 1 p1)" using p1(2) by simp
      moreover have "blank body" by (auto simp: blank_def body_def line_def Nil)
      ultimately obtain p3 where "GetNextToken (advance 1 p1) = Inr (T_OBJECT_END, p3)"
          "placed (d + 1) ((pre @ [0x7B]) @ body) (0x7D # rest) p3"
        using GetNextToken_blank [of "d + 1" "pre @ [0x7B]" body "0x7D # rest"] by auto
      then show ?thesis using p1(1) Nil by simp
    next
      case (Cons e ws)
      obtain k v where e: "e = (k, v)" by (cases e)
      let ?t = "quoted k @ 0x3A # spaces pr @ render pr (dep + 1) v @ more_entries pr dep ws @ line pr dep @ 0x7D # rest"
      have "placed (d + 1) (pre @ [0x7B]) (line pr (dep + 1) @ ?t) (advance 1 p1)" using p1(2) by (simp add: body_def Cons e)
      then obtain p3 where p3: "GetNextToken (advance 1 p1) = Inr (T_STRING, p3)" "placed (d + 1) ((pre @ [0x7B]) @ line pr (dep + 1)) ?t p3"
        using GetNextToken_blank [of "d + 1" "pre @ [0x7B]" "line pr (dep + 1)" ?t] string_token by auto
      have "length ws < Suc (length (json_text p))" using n Cons by simp
      from dictionary_loop_reads [OF _ this _ assms(4) p3(2), of parse "[]"] assms(1,3)
      obtain p4 where "dictionary_loop E parse ?n T_STRING [] p3 = Inr (Some (DictionaryValue ((k, v) # ws)), p4)"
          "placed (d + 1) (((pre @ [0x7B]) @ line pr (dep + 1)) @ quoted k @ 0x3A # spaces pr @ render pr (dep + 1) v @
            more_entries pr dep ws @ line pr dep) (0x7D # rest) p4"
        by (auto simp: Cons e)
      then show ?thesis using p1(1) p3(1) by (simp add: body_def Cons e del: dictionary_loop.simps)
    qed
  qed
  then obtain p' where "with_stack ?run p = Inr (Some (DictionaryValue es), p')" "placed d (pre @ 0x7B # body) (0x7D # rest) p'" by blast
  then show ?thesis using placed_cur [OF q] after_valueI [of d "pre @ 0x7B # body" "0x7D" rest p']
    by (simp add: ConsumeDictionary_def r del: dictionary_loop.simps)
qed

subsection \<open>Every value\<close>

lemma plain_vals_iff: "plain_vals xs \<longleftrightarrow> (\<forall>v \<in> set xs. plain v)"
  by (induction xs) auto

lemma plain_entries_iff: "plain_entries d \<longleftrightarrow> (\<forall>(k, v) \<in> set d. plain_string k \<and> plain v)"
  by (induction d) auto

lemma nesting_child: "v \<in> set xs \<Longrightarrow> nesting v \<le> nesting_vals xs"
  by (induction xs) (auto simp: le_max_iff_disj)

lemma nesting_entry: "(k, v) \<in> set d \<Longrightarrow> nesting v \<le> nesting_entries d"
  by (induction d) (auto simp: le_max_iff_disj)

lemma container_tokens: "next_token (render pr dep (ListValue xs)) = T_ARRAY_BEGIN"
    "next_token (render pr dep (DictionaryValue d)) = T_OBJECT_BEGIN"
  by (cases xs; simp) (cases d; auto)

lemma values_read:
  assumes "digits_not_space E"
  shows "wf_val v \<Longrightarrow> plain v \<Longrightarrow> nesting v < n \<Longrightarrow> d + nesting v < kStackMaxDepth \<Longrightarrow>
    value_read (ParseToken E n) d v (render pr dep v)"
proof (induction v arbitrary: n d dep)
  case (ListValue xs)
  obtain m where m: "n = Suc m" using ListValue.prems(3) by (cases n) auto
  have "\<forall>w \<in> set xs. plain w \<and> value_read (ParseToken E m) (d + 1) w (render pr dep w)"
  proof
    fix w assume w: "w \<in> set xs"
    with ListValue.prems nesting_child [OF w] m show "plain w \<and> value_read (ParseToken E m) (d + 1) w (render pr dep w)"
      by (auto simp: wf_vals_iff plain_vals_iff intro!: ListValue.IH [OF w])
  qed
  from ConsumeList_reads [OF this] ListValue.prems(4) show ?case
    unfolding value_read_def by (simp add: m container_tokens)
next
  case (DictionaryValue es)
  obtain m where m: "n = Suc m" using DictionaryValue.prems(3) by (cases n) auto
  have "\<forall>(k, w) \<in> set es. plain w \<and> value_read (ParseToken E m) (d + 1) w (render pr (dep + 1) w) \<and>
      IsStringUTF8 k \<and> plain_string k"
  proof clarify
    fix k w assume w: "(k, w) \<in> set es"
    have "w \<in> Basic_BNFs.snds (k, w)" by simp
    with DictionaryValue.prems nesting_entry [OF w] m w
    show "plain w \<and> value_read (ParseToken E m) (d + 1) w (render pr (dep + 1) w) \<and> IsStringUTF8 k \<and> plain_string k"
      by (fastforce simp: wf_entries_iff plain_entries_iff intro!: DictionaryValue.IH [OF w])
  qed
  moreover have "\<not> isspace8 E 0x30" using assms by (auto simp: digits_not_space_def dest: spec [of _ 0])
  ultimately show ?case using ConsumeDictionary_reads [of es "ParseToken E m" d pr dep E] DictionaryValue.prems(1,4)
    unfolding value_read_def by (simp add: m container_tokens)
next
  case NullValue
  then show ?case using scalars_read(1) [OF assms] by (cases n) (auto simp del: ParseToken.simps)
next
  case (BooleanValue b)
  then show ?case using scalars_read(2) [OF assms, of _ d b] by (cases n) (auto simp del: ParseToken.simps)
next
  case (IntegerValue i)
  then show ?case using scalars_read(3) [OF assms] by (cases n) (auto simp del: ParseToken.simps)
next
  case (StringValue s)
  then show ?case using scalars_read(4) [OF assms] by (cases n) (auto simp del: ParseToken.simps)
qed auto

lemma render_ends: "plain v \<Longrightarrow> settled [last (render pr dep v)]"
proof (cases v)
  case (IntegerValue i)
  have "last (dec_string n) \<in> set (dec_string n :: str)" for n by (rule last_in_set) simp
  then have "IsAsciiDigit (last (dec_string n))" for n using dec_string_digits(1) [of n] by (auto simp: list_all_iff)
  then show ?thesis using number_token IntegerValue by (simp add: int_text_def)
next
  case (ListValue xs)
  then show ?thesis by (cases xs) simp_all
next
  case (DictionaryValue d)
  then show ?thesis by (cases d) auto
qed (auto simp: quoted_def settled_def text8_def)

lemma token_of_not_end: "token_of c \<noteq> T_END_OF_INPUT"
  by (simp add: token_of_def)

lemma ends_after_root_blank:
  assumes "after_value d t e p" "settled [last t]" "blank e"
  shows "\<exists>p'. ends_after_root p = Inr (True, p') \<and> placed d (t @ e) [] p'"
proof -
  obtain t' c where t: "t = t' @ [c]" "placed d t' ([] @ c # e) p" using assms(1) by (auto simp: after_value_def)
  have "settled (c # e)" using assms(2) by (simp add: t(1) settled_def)
  then obtain p1 where p1: "GetNextToken p = Inr (token_of c, p1)" "placed d t' (c # e) p1"
    using GetNextToken_blank [OF t(2)] by auto
  note p2 = placed_NextChar [OF p1(2)]
  have "placed d t (e @ []) (advance 1 p1)" using p2(2) t(1) by simp
  then obtain p3 where "GetNextToken (advance 1 p1) = Inr (T_END_OF_INPUT, p3)" "placed d (t @ e) [] p3"
    using GetNextToken_blank [of d t e "[]"] assms(3) by auto
  then show ?thesis using p1(1) p2(1) here_CanConsume [OF placed_here [OF p1(2)], of 1] token_of_not_end [of c]
    by (simp add: ends_after_root_def)
qed

lemma Parse_json_render:
  assumes v: "wf_val v" "plain v" "nesting v < kStackMaxDepth" and E: "digits_not_space E" and e: "blank e"
    and p: "\<not> detachable_children p" "stack_depth p = 0"
  shows "\<exists>p'. Parse_json E memory (render pr 0 v @ e) p = Inr (Some v, p')"
proof -
  let ?t = "render pr 0 v"
  define q where "q = p\<lparr>json_text := ?t @ e, behind := (if detachable_children p then memory else 0), pos := 0, index := 0,
    line_number := 1, index_last_line := 0, error_code := JSON_NO_ERROR, error_line := 0, error_column := 0\<rparr>"
  have q: "placed 0 [] ([] @ ?t @ e) q" using p by (simp add: q_def placed_def scanning_def)
  note starts = render_starts [OF v(2), of pr 0]
  obtain c u where t: "?t = c # u" using starts(1) by (cases ?t) auto
  have "cur q = hd ?t" using placed_cur [of 0 "[]" c "u @ e" q] q by (simp add: t)
  moreover have "cur q = bytes_at q (pos q) 3 ! 0" by (simp add: bytes_at_def cur_def upt_rec)
  ultimately have bom: "skip_bom q = Inr q" using starts(3) by (auto simp: skip_bom_def)
  obtain p3 where p3: "GetNextToken q = Inr (next_token ?t, p3)" "placed 0 [] (?t @ e) p3"
    using GetNextToken_blank [OF q _ starts(2)] starts(1) by auto
  have "value_read (ParseToken E (kStackMaxDepth + 1)) 0 v ?t" by (rule values_read [OF E v(1,2)]) (use v(3) in simp_all)
  from value_readD [OF this follows_simps(5) [OF e] p3(2)]
  obtain p4 where p4: "ParseToken E (kStackMaxDepth + 1) (next_token ?t) p3 = Inr (Some v, p4)" "after_value 0 ?t e p4" by auto
  obtain p5 where p5: "ends_after_root p4 = Inr (True, p5)"
    using ends_after_root_blank [OF p4(2) render_ends [OF v(2)] e] by blast
  have "Parse_json E memory (?t @ e) p = (if \<not> detachable_children p5 \<and> IsType v TYPE_STRING
      then rbind (DeepCopy v) (\<lambda>v1. Inr (Some v1, p5)) else Inr (Some v, p5))"
    unfolding Parse_json_def Let_def q_def [symmetric] bom p3(1) rbind_simps prod.case p4(1) option.case p5 by simp
  then show ?thesis using DeepCopy_id(1) [OF v(1)] by auto
qed

lemma WriteWithOptions_render:
  assumes "wf_val v" "plain v"
  shows "WriteWithOptions dts v options = Inr (True, render (options AND OPTIONS_PRETTY_PRINT \<noteq> 0) 0 v @
    (if options AND OPTIONS_PRETTY_PRINT \<noteq> 0 then [0x0D, 0x0A] else []))"
  using writes(1) [OF assms] by (simp add: WriteWithOptions_def JSONWriter_def kPrettyPrintLineEnding_def)

text \<open>The text that is written, and that it is read back.\<close>

definition serialized :: "bool \<Rightarrow> val \<Rightarrow> str" where
  "serialized pretty v = render pretty 0 v @ (if pretty then [0x0D, 0x0A] else [])"

lemma Serialize_writes:
  assumes "wf_val v" "plain v" "json_string S \<noteq> None"
  shows "Serialize dts v S = Inr (True, S\<lparr>json_string := Some (serialized (serializer_pretty_print S) v)\<rparr>)"
proof -
  define options :: "32 word" where "options = (if serializer_pretty_print S then 0 OR OPTIONS_PRETTY_PRINT else 0)"
  have pretty: "options AND OPTIONS_PRETTY_PRINT \<noteq> 0 \<longleftrightarrow> serializer_pretty_print S"
    by (simp add: options_def OPTIONS_PRETTY_PRINT_def)
  have "Serialize dts v S = rbind (WriteWithOptions dts v options) (\<lambda>(ok, json). Inr (ok, S\<lparr>json_string := Some json\<rparr>))"
    using assms(3) by (auto simp: Serialize_def SerializeInternal_def options_def)
  then show ?thesis
    using WriteWithOptions_render [OF assms(1,2), of dts options] by (simp only: pretty serialized_def rbind_simps prod.case)
qed

lemma Deserialize_serialized:
  assumes "wf_val v" "plain v" "nesting v < kStackMaxDepth" "digits_not_space E"
  shows "Deserialize E memory allow_trailing_comma (serialized pretty v) = Inr (Inr v)"
proof -
  let ?o = "if allow_trailing_comma then JSON_ALLOW_TRAILING_COMMAS else JSON_PARSE_RFC"
  have e: "blank (if pretty then [0x0D, 0x0A] else [])" by simp
  have "\<not> detachable_children (JSONParser ?o)" "stack_depth (JSONParser ?o) = 0"
    by (simp_all add: JSONParser_def JSON_ALLOW_TRAILING_COMMAS_def JSON_PARSE_RFC_def JSON_DETACHABLE_CHILDREN_def)
  then obtain p' where "Parse_json E memory (serialized pretty v) (JSONParser ?o) = Inr (Some v, p')"
    using Parse_json_render [OF assms e] unfolding serialized_def by blast
  then show ?thesis by (simp add: Deserialize_def ReadAndReturnError_def)
qed

text \<open>
  C13: a well-formed value without doubles, binaries and zero characters, nested less than 100 deep, is written by
  \<^verbatim>\<open>JSONStringValueSerializer::Serialize\<close>, compact or pretty, as a text that \<^verbatim>\<open>Deserialize\<close>, with or without
  trailing commas allowed, reads back as the same value. Needed of the C library: digits and the minus sign are
  not spaces.
\<close>

theorem json_roundtrip:
  assumes "wf_val v" "plain v" "nesting v < kStackMaxDepth" "digits_not_space E" "json_string S \<noteq> None"
  shows "\<exists>S' text. Serialize dts v S = Inr (True, S') \<and> json_string S' = Some text \<and>
    Deserialize E memory allow_trailing_comma text = Inr (Inr v)"
  using Serialize_writes [OF assms(1,2,5)] Deserialize_serialized [OF assms(1-4)] by simp

lemma sample_env_digits: "digits_not_space sample_env"
proof -
  have "of_nat (d + 0x30) \<noteq> (0x20 :: byte)" if "d < 10" for d
    using that by (intro digit_not_sign(3)) simp_all
  then show ?thesis by (simp add: digits_not_space_def sample_env_def)
qed

definition sample_value :: val where
  "sample_value = DictionaryValue [
     (text8 ''a<b'', ListValue [IntegerValue (- 2147483648), BooleanValue True, StringValue [0x22, 0x0A, 0xC3, 0xA9]]),
     (text8 ''c'', DictionaryValue [([], NullValue)])]"

lemma sample_value_wf: "wf_val sample_value"
proof -
  have "IsStringUTF8 (text8 ''a<b'')" "IsStringUTF8 (text8 ''c'')" "IsStringUTF8 []" "IsStringUTF8 [0x22, 0x0A, 0xC3, 0xA9]"
    "text8 ''a<b'' < text8 ''c''"
    by code_simp+
  then show ?thesis by (simp add: sample_value_def is_int32_def)
qed

lemma sample_value_plain: "plain sample_value"
  by (simp add: sample_value_def plain_string_def text8_def)

lemma sample_value_nesting: "nesting sample_value < kStackMaxDepth"
  by (simp add: sample_value_def kStackMaxDepth_def)

theorem json_roundtrip_witness:
  "\<exists>S' text. Serialize (\<lambda>x. []) sample_value \<lparr>json_string = Some [], serializer_pretty_print = True\<rparr> = Inr (True, S') \<and>
     json_string S' = Some text \<and> Deserialize sample_env 0 False text = Inr (Inr sample_value)"
  by (rule json_roundtrip [OF sample_value_wf sample_value_plain sample_value_nesting sample_env_digits]) simp

end
