(* ===== verification/Json_File.thy ===== *)
theory Json_File
  imports File_Util Json_Roundtrip
begin

text \<open>
  Values in files (\<^verbatim>\<open>base/json/json_file_value_serializer\<close>): the JSON serializer and reader over the files of
  \<open>File_Util\<close>. The pointers for the error code and message, which may be null, are always given.
\<close>

subsection \<open>Writing\<close>

definition file_SerializeInternal ::
  "'f file_system \<Rightarrow> thread_restrictions \<Rightarrow> (real \<Rightarrow> str) \<Rightarrow> wstring \<Rightarrow> val \<Rightarrow> bool \<Rightarrow> 'f \<Rightarrow> (bool \<times> 'f) result"
where
  "file_SerializeInternal F T dts path node omit_binary f =
     (let serializer = \<lparr>json_string = Some [], serializer_pretty_print = True\<rparr>
      in rbind (if omit_binary then SerializeAndOmitBinaryValues dts node serializer else Serialize dts node serializer)
        (\<lambda>(ok, S).
          if \<not> ok then Inr (False, f)
          else
            let json = (case json_string S of None \<Rightarrow> [] | Some s \<Rightarrow> s);
                data_size = of_nat (length json)
            in rbind (File_WriteFile F T path json data_size f) (\<lambda>(written, f1). Inr (written = data_size, f1))))"

definition file_Serialize ::
  "'f file_system \<Rightarrow> thread_restrictions \<Rightarrow> (real \<Rightarrow> str) \<Rightarrow> wstring \<Rightarrow> val \<Rightarrow> 'f \<Rightarrow> (bool \<times> 'f) result"
where
  "file_Serialize F T dts path node f = file_SerializeInternal F T dts path node False f"

definition file_SerializeAndOmitBinaryValues ::
  "'f file_system \<Rightarrow> thread_restrictions \<Rightarrow> (real \<Rightarrow> str) \<Rightarrow> wstring \<Rightarrow> val \<Rightarrow> 'f \<Rightarrow> (bool \<times> 'f) result"
where
  "file_SerializeAndOmitBinaryValues F T dts path node f = file_SerializeInternal F T dts path node True f"

subsection \<open>Reading\<close>

datatype JsonFileError =
    JSON_FILE_NO_ERROR | JSON_ACCESS_DENIED | JSON_CANNOT_READ_FILE | JSON_FILE_LOCKED | JSON_NO_SUCH_FILE

record json_file_deserializer =
  json_file_path :: wstring
  file_allow_trailing_comma :: bool
  last_read_size :: nat

definition JSONFileValueDeserializer :: "wstring \<Rightarrow> json_file_deserializer" where
  "JSONFileValueDeserializer path = \<lparr>json_file_path = path, file_allow_trailing_comma = False, last_read_size = 0\<rparr>"

definition file_ReadFileToString ::
  "'f file_system \<Rightarrow> thread_restrictions \<Rightarrow> json_file_deserializer \<Rightarrow> 'f \<Rightarrow>
    (JsonFileError \<times> str \<times> json_file_deserializer \<times> 'f) result"
where
  "file_ReadFileToString F T D f =
     rbind (ReadFileToString F T (json_file_path D) f) (\<lambda>(ok, json, f1).
       if \<not> ok then
         let error = fs_last_error F f1
         in if error = ERROR_SHARING_VIOLATION \<or> error = ERROR_LOCK_VIOLATION then Inr (JSON_FILE_LOCKED, json, D, f1)
            else if error = ERROR_ACCESS_DENIED then Inr (JSON_ACCESS_DENIED, json, D, f1)
            else rbind (PathExists F T (json_file_path D) f1) (\<lambda>(ex, f2).
                Inr (if \<not> ex then JSON_NO_SUCH_FILE else JSON_CANNOT_READ_FILE, json, D, f2))
       else Inr (JSON_FILE_NO_ERROR, json, D\<lparr>last_read_size := length json\<rparr>, f1))"

fun GetErrorMessageForCode :: "JsonFileError \<Rightarrow> str" where
  "GetErrorMessageForCode JSON_FILE_NO_ERROR = []"
| "GetErrorMessageForCode JSON_ACCESS_DENIED = text8 ''Access denied.''"
| "GetErrorMessageForCode JSON_CANNOT_READ_FILE = text8 (''Can'' @ [CHR 0x27] @ ''t read file.'')"
| "GetErrorMessageForCode JSON_FILE_LOCKED = text8 ''File locked.''"
| "GetErrorMessageForCode JSON_NO_SUCH_FILE = text8 (''File doesn'' @ [CHR 0x27] @ ''t exist.'')"

text \<open>The error of the file, or the error of the text, or the value.\<close>

definition file_Deserialize ::
  "'f file_system \<Rightarrow> thread_restrictions \<Rightarrow> json_env \<Rightarrow> byte \<Rightarrow> json_file_deserializer \<Rightarrow> 'f \<Rightarrow>
    (((JsonFileError \<times> str) + ((JsonParseError \<times> str) + val)) \<times> json_file_deserializer \<times> 'f) result"
where
  "file_Deserialize F T E memory D f =
     rbind (file_ReadFileToString F T D f) (\<lambda>(error, json, D1, f1).
       if error \<noteq> JSON_FILE_NO_ERROR then Inr (Inl (error, GetErrorMessageForCode error), D1, f1)
       else rbind (Deserialize E memory (file_allow_trailing_comma D1) json) (\<lambda>r. Inr (Inr r, D1, f1)))"

subsection \<open>Errors\<close>

lemma GetErrorMessageForCode_not_empty: "error \<noteq> JSON_FILE_NO_ERROR \<Longrightarrow> GetErrorMessageForCode error \<noteq> []"
  by (cases error) (simp_all add: text8_def)

lemma failed_file_read_has_code:
  assumes "file_Deserialize F T E memory D f = Inr (Inl (error, message), D', f')"
  shows "error \<noteq> JSON_FILE_NO_ERROR \<and> message = GetErrorMessageForCode error \<and> message \<noteq> [] \<and> last_read_size D' = last_read_size D"
proof -
  obtain code json D1 f1 where r: "file_ReadFileToString F T D f = Inr (code, json, D1, f1)"
    using assms by (cases "file_ReadFileToString F T D f") (auto simp: file_Deserialize_def)
  have code: "code \<noteq> JSON_FILE_NO_ERROR" "error = code" "message = GetErrorMessageForCode code" "D' = D1"
    using assms r by (auto simp: file_Deserialize_def rbind_def split: if_splits sum.splits)
  moreover have "D1 = D" using r code(1)
    by (auto simp: file_ReadFileToString_def rbind_def Let_def split: if_splits sum.splits prod.splits)
  ultimately show ?thesis using GetErrorMessageForCode_not_empty by simp
qed

text \<open>
  A path with \<^verbatim>\<open>..\<close> is refused before any call of Windows, so the error that is then asked for is that of some
  earlier call: the file may be called locked without having been touched.
\<close>

lemma error_of_an_earlier_call:
  assumes "ReferencesParent (json_file_path D)" "fs_last_error F f = ERROR_SHARING_VIOLATION"
  shows "file_Deserialize F T E memory D f = Inr (Inl (JSON_FILE_LOCKED, text8 ''File locked.''), D, f)"
  using assms by (simp add: file_Deserialize_def file_ReadFileToString_def ReadFileToString_def ReadFileToString_max_def Let_def)

subsection \<open>A value survives in a file\<close>

lemma file_Serialize_writes:
  assumes "wf_val v" "plain v" "file_calls F K C H readable" "\<not> io_disallowed T" "length (serialized True v) < 2 ^ 32 - 1"
  shows "\<exists>ok f1. file_Serialize F T dts path v f = Inr (ok, f1) \<and> H f1 = H f \<and> (\<forall>k. k \<noteq> K path \<longrightarrow> C f1 k = C f k) \<and>
    ok = system_takes (fs_open_new F) F path (serialized True v) f \<and>
    (ok \<longrightarrow> C f1 = (C f)(K path \<mapsto> serialized True v) \<and> (\<forall>x \<in> ran (H f). held_file x \<noteq> K path))"
proof -
  define n :: "32 word" where "n = of_nat (length (serialized True v))"
  have len: "unat n = length (serialized True v)" using assms(5) by (simp add: n_def unat_of_nat)
  have n: "n \<noteq> - 1"
  proof
    assume "n = - 1"
    moreover have "unat (- 1 :: 32 word) = 2 ^ 32 - 1" by (simp add: unsigned_minus_1_eq_mask mask_eq_exp_minus_1)
    ultimately have "unat n = 2 ^ 32 - 1" by simp
    then show False using len assms(5) by simp
  qed
  obtain r f1 where r: "File_WriteFile F T path (serialized True v) n f = Inr (r, f1)" "H f1 = H f" "\<forall>k. k \<noteq> K path \<longrightarrow> C f1 k = C f k"
    "r = (if system_takes (fs_open_new F) F path (serialized True v) f then n else - 1)"
    "r = n \<longrightarrow> C f1 = (C f)(K path \<mapsto> serialized True v) \<and> (\<forall>x \<in> ran (H f). held_file x \<noteq> K path)"
    using File_WriteFile_writes [OF assms(3,4) len n, of path f] by blast
  have "file_Serialize F T dts path v f = Inr (r = n, f1)"
    using Serialize_writes [OF assms(1,2)] r(1) by (simp add: file_Serialize_def file_SerializeInternal_def Let_def flip: n_def)
  moreover have "(r = n) = system_takes (fs_open_new F) F path (serialized True v) f" using r(4) n by auto
  ultimately show ?thesis using r(2,3,5) by blast
qed

text \<open>
  C16: writing a well-formed value without doubles, binaries and zero characters, nested less than 100 deep, to a file always
  returns, and leaves no handle open and every other file as it was. It returns true exactly when the system opened the file
  and took the whole text. Then a deserializer of the file, also under another of its names, reads the same value back, reports
  the size of the file and closes it. Needed: the calls of the file system as stated in \<open>file_calls\<close>, a thread on which
  input and output are allowed, a readable file, for the reader a path without \<^verbatim>\<open>..\<close>, a text of less than
  \<open>2\<^sup>3\<^sup>2 - 1\<close> bytes.
\<close>

theorem json_file_roundtrip:
  assumes "wf_val v" "plain v" "nesting v < kStackMaxDepth" "digits_not_space E" "length (serialized True v) < 2 ^ 32 - 1"
    and "file_calls F K C H readable" "\<not> io_disallowed T" "\<not> ReferencesParent (json_file_path D)"
    and "K (json_file_path D) = K path" "K path \<in> readable"
  shows "\<exists>ok f1. file_Serialize F T dts path v f = Inr (ok, f1) \<and> H f1 = H f \<and> (\<forall>k. k \<noteq> K path \<longrightarrow> C f1 k = C f k) \<and>
    ok = system_takes (fs_open_new F) F path (serialized True v) f \<and>
    (ok \<longrightarrow> (\<exists>f2. C f2 = C f1 \<and> H f2 = H f \<and>
        file_Deserialize F T E memory D f1 = Inr (Inr (Inr v), D\<lparr>last_read_size := length (serialized True v)\<rparr>, f2)))"
proof -
  obtain ok f1 where w: "file_Serialize F T dts path v f = Inr (ok, f1)" "H f1 = H f" "\<forall>k. k \<noteq> K path \<longrightarrow> C f1 k = C f k"
    "ok = system_takes (fs_open_new F) F path (serialized True v) f"
    "ok \<longrightarrow> C f1 = (C f)(K path \<mapsto> serialized True v) \<and> (\<forall>x \<in> ran (H f). held_file x \<noteq> K path)"
    using file_Serialize_writes [OF assms(1,2,6,7,5)] by blast
  have "\<exists>f2. C f2 = C f1 \<and> H f2 = H f \<and>
      file_Deserialize F T E memory D f1 = Inr (Inr (Inr v), D\<lparr>last_read_size := length (serialized True v)\<rparr>, f2)" if ok
  proof -
    have "C f1 (K (json_file_path D)) = Some (serialized True v)" using w(5) that assms(9) by simp
    moreover have "Exclusive (K (json_file_path D)) \<notin> ran (H f1)" using w(2,5) that assms(9) by fastforce
    moreover have "length (serialized True v) < 2 ^ 32" using assms(5) by simp
    ultimately obtain f2 where f2: "ReadFileToString F T (json_file_path D) f1 = Inr (True, serialized True v, f2)" "C f2 = C f1" "H f2 = H f1"
      using ReadFileToString_reads [OF assms(6-8)] assms(9,10) by metis
    then show ?thesis using Deserialize_serialized [OF assms(1-4)] w(2)
      by (intro exI [of _ f2]) (simp add: file_Deserialize_def file_ReadFileToString_def)
  qed
  then show ?thesis using w(1-4) by blast
qed

definition file_value :: val where
  "file_value = DictionaryValue [(text8 ''a'', ListValue [StringValue [0x22, 0x0A, 0xC3, 0xA9], BooleanValue True]), (text8 ''b'', NullValue)]"

lemma file_value_ok: "wf_val file_value" "plain file_value" "nesting file_value < kStackMaxDepth"
proof -
  have "IsStringUTF8 (text8 ''a'')" "IsStringUTF8 (text8 ''b'')" "IsStringUTF8 [0x22, 0x0A, 0xC3, 0xA9]" "text8 ''a'' < text8 ''b''"
    by code_simp+
  then show "wf_val file_value" by (simp add: file_value_def)
qed (simp_all add: file_value_def plain_string_def text8_def kStackMaxDepth_def)

lemma file_value_length: "length (serialized True file_value) < 2 ^ 32 - 1"
proof -
  have "length (quoted (text8 ''a'')) = 3" "length (quoted (text8 ''b'')) = 3" "length (quoted [0x22, 0x0A, 0xC3, 0xA9]) = 8"
    by code_simp+
  then show ?thesis by (simp add: serialized_def file_value_def spaces_def line_def text8_def)
qed

theorem json_file_roundtrip_witness:
  "\<exists>ok f1. file_Serialize (disk_system {} {}) everything_allowed (\<lambda>x. []) (wide ''C:/A.txt'') file_value new_disk = Inr (ok, f1) \<and>
    handle_of f1 = handle_of new_disk \<and> (\<forall>k. k \<noteq> entry_name (wide ''C:/A.txt'') \<longrightarrow> contents_of f1 k = contents_of new_disk k) \<and>
    ok = system_takes (fs_open_new (disk_system {} {})) (disk_system {} {}) (wide ''C:/A.txt'') (serialized True file_value) new_disk \<and>
    (ok \<longrightarrow> (\<exists>f2. contents_of f2 = contents_of f1 \<and> handle_of f2 = handle_of new_disk \<and>
        file_Deserialize (disk_system {} {}) everything_allowed sample_env 0 (JSONFileValueDeserializer (wide ''C:/a.txt'')) f1 =
          Inr (Inr (Inr file_value), (JSONFileValueDeserializer (wide ''C:/a.txt''))\<lparr>last_read_size := length (serialized True file_value)\<rparr>, f2)))"
proof (rule json_file_roundtrip [OF file_value_ok sample_env_digits file_value_length disk_file_calls])
  show "\<not> ReferencesParent (json_file_path (JSONFileValueDeserializer (wide ''C:/a.txt'')))"
    "entry_name (json_file_path (JSONFileValueDeserializer (wide ''C:/a.txt''))) = entry_name (wide ''C:/A.txt'')" by code_simp+
qed (simp_all add: everything_allowed_def)

text \<open>On this disk the file is written.\<close>

lemma new_disk_takes:
  assumes "length data < 2 ^ 32"
  shows "system_takes (fs_open_new (disk_system {} {})) (disk_system {} {}) (wide ''C:/A.txt'') data new_disk"
proof -
  have "entry_name (wide ''C:/A.txt'') = entry_name (wide ''C:/a.txt'')" "entry_name (wide ''C:/a.txt'') \<noteq> entry_name (wide ''C:/'')" by code_simp+
  then show ?thesis using assms
    by (simp add: system_takes_def disk_system_def Let_def new_disk_def attributes_of_def is_held_def directory_attribute open_entry_def
        disk_write_def handle_of_def put_entry_def)
qed

end
