(* ===== verification/Spec2Isabelle.thy ===== *)
theory Spec2Isabelle
  imports Browser_Main_Loop Qt_Message_Pump Message_Loop_Safety Message_Loop_Props Browser_Process Md_Api
    String_Replace Command_Line Number_Conversions File_Path_Props Launch Chrome_Main
    Json_File
begin

text \<open>
  A verification library for a desktop trading shell built on a Chromium-style process model:
  \<^verbatim>\<open>content\<close> (the main loop of the process and its named threads), \<^verbatim>\<open>policy\<close> (the application: a Qt user
  interface and a market data connection) and the Chromium \<^verbatim>\<open>base\<close> library they run on (paths below
  are under \<^verbatim>\<open>src/src\<close>).

  \<^bold>\<open>How the parts interact.\<close> \<^verbatim>\<open>BrowserMain\<close> drives a \<^verbatim>\<open>BrowserMainRunner\<close>, which drives a
  \<^verbatim>\<open>BrowserMainLoop\<close> through its stages; one stage starts the named threads (\<^verbatim>\<open>BrowserThreadImpl\<close>), run
  as startup tasks by a \<^verbatim>\<open>StartupTaskRunner\<close>. Each thread owns a \<^verbatim>\<open>MessageLoop\<close>; other threads post
  tasks through the lock-protected \<^verbatim>\<open>IncomingTaskQueue\<close>, and the loop's pump calls the work functions
  of the loop. On the UI thread the pump is \<^verbatim>\<open>MessagePumpForUIQt\<close>, which turns the pump's
  contract into Qt events and timers. Above all this, \<open>ChromeMain\<close> runs \<open>ContentMain\<close> with the application's
  delegate: its runner reads the command line, lets the delegate set up logging, asks it for the client
  that supplies the parts of the main loop, runs \<open>BrowserMain\<close> and destroys what was created at exit. Time arithmetic and its overflow behaviour come from
  \<^verbatim>\<open>base/time\<close> and \<^verbatim>\<open>base/numerics\<close>.

  \<^bold>\<open>Theories\<close>, in the order of import:

  \<^item> \<open>P528_Prelude\<close>: results with errors as values (\<open>Dcheck\<close>, \<open>Check\<close>, \<open>Null_deref\<close>, \<open>Fatal\<close>, division by
    zero), reachable states and the locale of inductive invariants, shared list and word facts.
  \<^item> \<open>Safe_Math\<close> (\<^verbatim>\<open>base/numerics\<close>): integer types of any width and signedness, range tests, casts and
    checked arithmetic, proved against exact integer arithmetic, with the integral promotions that make addition and
    subtraction of narrow signed types miss every overflow.
  \<^item> \<open>Base_Time\<close> (\<^verbatim>\<open>base/time/time.h\<close>, \<^verbatim>\<open>time.cc\<close>): deltas and ticks as 64-bit microsecond counts;
    saturation, rounding and snapping.
  \<^item> \<open>Pending_Task\<close> (\<^verbatim>\<open>base/pending_task\<close>): tasks, their order and the delayed queue, with 32-bit
    sequence numbers that roll over.
  \<^item> \<open>Incoming_Task_Queue\<close> (\<^verbatim>\<open>base/message_loop/incoming_task_queue\<close>): each operation is one step, as it
    holds the queue's lock; the interleavings of posting threads and the loop are a step relation.
  \<^item> \<open>Message_Loop\<close> (\<^verbatim>\<open>base/message_loop/message_loop\<close>, \<^verbatim>\<open>message_loop_proxy_impl\<close>, \<^verbatim>\<open>base/run_loop\<close>): the
    loop's queues and work functions, run loops and destruction. What closures, observers and
    destructors do is a parameter (\<open>loop_env\<close>). \<open>Message_Loop_Props\<close> shows that the work functions
    refine a scan of the posted tasks and run each task once; \<open>Message_Loop_Safety\<close> which assertions
    hold, inside a task that spins the pump too, that destruction finishes and that run loops nest; \<open>Loop_Invariants\<close> is the interface
    through which users of the loop lift an invariant over the work functions.
  \<^item> \<open>Qt_Message_Pump\<close> (\<^verbatim>\<open>policy/browser/ui/messageloop_qt\<close>): the UI pump over the loop; Qt delivers
    posted events, timers and idle calls in any order (\<open>ui_step\<close>).
  \<^item> \<open>Startup_Task_Runner\<close> (\<^verbatim>\<open>content/startup_task_runner\<close>): synchronous and posted startup tasks.
  \<^item> \<open>Browser_Thread\<close> (\<^verbatim>\<open>content/browser_thread_impl\<close>, \<^verbatim>\<open>browser_process_sub_thread\<close>,
    \<^verbatim>\<open>base/threading/thread\<close>): the registry of named threads, posting, start and stop.
  \<^item> \<open>Browser_Main_Loop\<close> (\<^verbatim>\<open>content/browser_main_loop\<close>, \<^verbatim>\<open>browser_main_runner\<close>, \<^verbatim>\<open>browser_main\<close>): the stages
    of the process from construction to exit.
  \<^item> \<open>Browser_Process\<close> (\<^verbatim>\<open>policy/browser/browser_process_impl\<close>, \<^verbatim>\<open>base/threading/thread_checker_impl\<close>): module
    references that keep the UI loop running, and the rundown wait at the end of a session.
  \<^item> \<open>Md_Api\<close> (\<^verbatim>\<open>policy/browser/ctp/mdapi\<close>): the market data session over the CTP library, a parameter.
  \<^item> \<open>String_Util\<close>, \<open>String_Split\<close>, \<open>String_Replace\<close> (\<^verbatim>\<open>base/strings/string_util\<close>, \<^verbatim>\<open>string_split\<close>,
    \<^verbatim>\<open>string_tokenizer\<close>): searching, trimming, splitting, joining and replacing, compared with plain
    specifications on lists.
  \<^item> \<open>Utf_Conversions\<close> (\<^verbatim>\<open>base/strings/utf_string_conversions\<close>, \<^verbatim>\<open>base/third_party/icu\<close>): UTF-8 and UTF-16
    as lists of words; decoding inverts encoding and accepts nothing else.
  \<^item> \<open>Command_Line\<close> (\<^verbatim>\<open>base/command_line\<close>): parsing and printing the command line of a process.

  \<^item> \<open>Number_Conversions\<close> (\<^verbatim>\<open>base/strings/string_number_conversions\<close>): integers of every width and
    signedness to strings and back, and the hexadecimal text of bytes.
  \<^item> \<open>Values\<close> (\<^verbatim>\<open>base/values\<close>): trees of values and every operation of dictionaries and lists. A value owns
    its children, so a tree is a HOL value and an operation returns the new tree. \<open>Value_Paths\<close> shows
    that the operations on dotted paths look up, update and delete along the list of keys;
    \<open>Value_Trees\<close> that copies are equal, what merging and pruning keep, and that every value that can be built
    has ordered keys and sound strings, and which constructors are needed with care for more.
  \<^item> \<open>Json_Writer\<close> (\<^verbatim>\<open>base/json/string_escape\<close>, \<^verbatim>\<open>json_writer\<close>), \<open>Json_Parser\<close> (\<^verbatim>\<open>json_parser\<close>) and \<open>Json_Reader\<close>
    (\<^verbatim>\<open>json_reader\<close>, \<^verbatim>\<open>json_string_value_serializer\<close>): values as JSON texts, escapes, comments, error codes and
    positions included. \<open>Json_Parser_Props\<close> shows that every text is read in the end and that a failure has a code or is due to a
    numeral that no double holds, with a grammar of numerals and \<^verbatim>\<open>dmg_fp::strtod\<close> as a parameter, and
    evaluates the texts on which the reader surprises; \<open>Json_Rendering\<close>, \<open>Json_Strings\<close> and \<open>Json_Roundtrip\<close> that what the
    writer writes is read back: the text of a value as a function, the reader on the text of a string, and on
    the text of every value.
  \<^item> \<open>Ini_Parser\<close> (\<^verbatim>\<open>chrome/app/ini_parser\<close>, \<^verbatim>\<open>GetAppConfig\<close>): the configuration file of the application, read
    with the tokenizer of \<open>String_Split\<close> into a dictionary of \<open>Values\<close>.
  \<^item> \<open>File_Path\<close> and \<open>File_Path_Props\<close> (\<^verbatim>\<open>base/files/file_path\<close>, the Windows version): paths taken apart and put
    together again, drive letters, separators and extensions included.
  \<^item> \<open>File_Util\<close> (\<^verbatim>\<open>base/files/file_util\<close>, \<^verbatim>\<open>file_util_win\<close>, \<^verbatim>\<open>base/threading/thread_restrictions\<close>): creating directories
    with their parents while other processes do the same, reading and writing whole files, over the calls of Windows as
    parameters. Their laws name files apart from paths, keep the open handles with their share modes, and hold on a small file
    system in the theory. \<open>Json_File\<close> (\<^verbatim>\<open>base/json/json_file_value_serializer\<close>): a value
    written to a file is read back.
  \<^item> \<open>Environment\<close> (\<^verbatim>\<open>base/environment\<close>): environment variables over the two calls of Windows, and the
    altering of an environment block, which implements the update of a map.
  \<^item> \<open>Utf_Cutting\<close>: cutting and trimming at ASCII characters commutes with both encodings (a locale over
    the encoding, interpreted for UTF-8 and UTF-16).
  \<^item> \<open>Crash_Client\<close> (\<^verbatim>\<open>chrome/app/chrome_crash_reporter_client\<close>), \<open>Crash_Handler\<close> (\<^verbatim>\<open>chrome/crashreport\<close> and the
    exception handler of \<^verbatim>\<open>breakpad\<close>), \<open>Crash_Handler_Props\<close>, \<open>Launch\<close> (\<^verbatim>\<open>chrome/app/client_util\<close>): a crash
    from the exception to the restart dialog of the next process, which learns of it through the
    environment.
  \<^item> \<open>Vlog\<close> (\<^verbatim>\<open>base/vlog\<close>): the verbosity of a file by the command line's patterns, compared with a
    declarative matching of wildcards.
  \<^item> \<open>Logging\<close> (\<^verbatim>\<open>base/logging\<close>): the state of logging and the calls of Windows it makes, in order.
    \<open>Logging_Props\<close> is a protocol automaton over these calls, kept by every operation;
    \<open>Chrome_Logging\<close> (\<^verbatim>\<open>policy/app/logging_chrome\<close>) the application's setup, and what a session writes.
  \<^item> \<open>At_Exit\<close> (\<^verbatim>\<open>base/at_exit\<close>, \<^verbatim>\<open>base/lazy_instance\<close>): the stack of callbacks at exit.
  \<^item> \<open>Content_Main\<close> (\<^verbatim>\<open>content/content_main\<close>, \<^verbatim>\<open>content_main_runner\<close>, \<^verbatim>\<open>content_client\<close>): the runner of the
    process, over the locale of what an embedder's delegate promises. \<open>Chrome_Main\<close>
    (\<^verbatim>\<open>policy/browser/chrome_browser_main\<close>, \<^verbatim>\<open>policy/app/chrome_main_delegate\<close>, \<^verbatim>\<open>chrome_main\<close>) interprets it
    with the application, whose run from entry to end it composes from all of the above.

  \<^bold>\<open>Conventions.\<close> Debug assertions (\<^verbatim>\<open>DCHECK\<close>), \<^verbatim>\<open>CHECK\<close>, fatal logs and null dereferences are error
  values; a theorem that an operation returns \<open>Inr\<close> shows that none of them is hit. Clock readings,
  platform calls and code outside the repository (Qt, thread creation, the closures run) are
  arguments. Integers keep their width where it matters: sequence numbers are 32-bit words, time
  values 64-bit integers with saturation written out.

  \<^bold>\<open>Bounds.\<close> The destructor's 100 passes are the code's own bound; \<^verbatim>\<open>DoWork\<close> is a total function, its two
  nested loops shrink the work and incoming queues until a task runs; \<open>run_wrapped\<close> takes the number
  of posted startup closures, one per task. Strings are shorter than \<^verbatim>\<open>2^31\<close> characters, so positions
  are natural numbers; the loops over them are total functions. The nesting of JSON values takes fuel for
  one level more than the code's limit of 100, and each list or dictionary fuel for two elements more than the text
  has bytes: an element is at least one byte, and \<open>Json_Parser_Props\<close> shows that neither is used up.

  \<^bold>\<open>Not modelled.\<close> Qt widgets, the hidden roots that own the text of JSON strings, the writing and upload of dumps, the
  image pre-reader, copying, moving, deleting and enumerating files, the copies of the
  application under \<^verbatim>\<open>mdgate\<close> and of the crash reporter under \<^verbatim>\<open>policy\<close> (platform calls or duplicates); floating-point time conversions; tracing, histograms
  and profiling, which do not influence the modelled state.
\<close>

end
